(* ===== verification/Prelude.thy ===== *)
theory Prelude
  imports Main "HOL-Library.Word" "HOL-Library.Monad_Syntax"
begin

unbundle bit_operations_syntax

text \<open>
  Shared vocabulary of the development: the machine integer types of the engine, the access
  functions for C++ containers whose index can be out of range (such an access is the value
  \<open>None\<close>), buffers of bytes read as strings of bits, and the collections of rewrite rules the
  component theories extend.
\<close>

section \<open>Machine integers\<close>

type_synonym u8 = "8 word"
type_synonym u16 = "16 word"
type_synonym u32 = "32 word"
type_synonym u64 = "64 word"

named_theorems field_simps_of "what each operation leaves unchanged"
named_theorems wf_intros "operations preserve the well-formedness of their component"
named_theorems bits_of "the bit string an operation appends or consumes"

section \<open>Checked access to arrays\<close>

definition rd :: "'a list \<Rightarrow> nat \<Rightarrow> 'a option" where
  "rd xs i = (if i < length xs then Some (xs ! i) else None)"

definition wr :: "'a list \<Rightarrow> nat \<Rightarrow> 'a \<Rightarrow> 'a list option" where
  "wr xs i v = (if i < length xs then Some (xs[i := v]) else None)"

lemma rd_in [simp]: "i < length xs \<Longrightarrow> rd xs i = Some (xs ! i)"
  by (simp add: rd_def)

lemma rd_out [simp]: "length xs \<le> i \<Longrightarrow> rd xs i = None"
  by (simp add: rd_def)

lemma wr_in [simp]: "i < length xs \<Longrightarrow> wr xs i v = Some (xs[i := v])"
  by (simp add: wr_def)

lemma wr_out [simp]: "length xs \<le> i \<Longrightarrow> wr xs i v = None"
  by (simp add: wr_def)

lemma wr_length: "wr xs i v = Some ys \<Longrightarrow> length ys = length xs"
  by (auto simp: wr_def split: if_splits)

lemmas bind_simps = Option.bind.simps

section \<open>Buffers of bytes as strings of bits\<close>

text \<open>Bit \<open>i\<close> of a buffer is bit \<open>i mod 8\<close> of byte \<open>i div 8\<close>.\<close>

definition buf_bit :: "u8 list \<Rightarrow> nat \<Rightarrow> bool" where
  "buf_bit xs i = bit (xs ! (i div 8)) (i mod 8)"

definition put_bit :: "u8 list \<Rightarrow> nat \<Rightarrow> bool \<Rightarrow> u8 list" where
  "put_bit xs i b = xs[i div 8 := (if b then set_bit (i mod 8) (xs ! (i div 8))
                                   else unset_bit (i mod 8) (xs ! (i div 8)))]"

definition bitslice :: "u8 list \<Rightarrow> nat \<Rightarrow> nat \<Rightarrow> bool list" where
  "bitslice xs p n = map (buf_bit xs) [p..<p + n]"

lemma length_put_bit [simp]: "length (put_bit xs i b) = length xs"
  by (simp add: put_bit_def)

lemma length_bitslice [simp]: "length (bitslice xs p n) = n"
  by (simp add: bitslice_def)

lemma bitslice_0 [simp]: "bitslice xs p 0 = []"
  by (simp add: bitslice_def)

lemma nth_bitslice [simp]: "i < n \<Longrightarrow> bitslice xs p n ! i = buf_bit xs (p + i)"
  by (simp add: bitslice_def)

lemma bitslice_add: "bitslice xs p (m + n) = bitslice xs p m @ bitslice xs (p + m) n"
  by (rule nth_equalityI) (auto simp: nth_append)

lemma bitslice_Suc: "bitslice xs p (Suc n) = buf_bit xs p # bitslice xs (Suc p) n"
  by (simp add: bitslice_def upt_conv_Cons del: upt_Suc)

lemma bitslice_eqI:
  "(\<And>i. i < n \<Longrightarrow> buf_bit xs (p + i) = buf_bit ys (q + i)) \<Longrightarrow> bitslice xs p n = bitslice ys q n"
  by (rule nth_equalityI) auto

lemma buf_bit_update:
  assumes "j < length xs"
  shows "buf_bit (xs[j := v]) i = (if i div 8 = j then bit v (i mod 8) else buf_bit xs i)"
  using assms by (simp add: buf_bit_def)

lemma buf_bit_same: "i div 8 = j \<Longrightarrow> j < length xs \<Longrightarrow> buf_bit (xs[j := v]) i = bit v (i mod 8)"
  by (simp add: buf_bit_update)

lemma buf_bit_other: "i div 8 \<noteq> j \<Longrightarrow> buf_bit (xs[j := v]) i = buf_bit xs i"
  by (simp add: buf_bit_def)

lemma bit_index_eq_iff: "k div 8 = i div 8 \<Longrightarrow> k mod 8 = i mod 8 \<longleftrightarrow> k = (i::nat)"
  by (metis div_mult_mod_eq)

lemma buf_bit_put_bit:
  assumes "i div 8 < length xs"
  shows "buf_bit (put_bit xs i b) k = (if k = i then b else buf_bit xs k)"
proof (cases "k div 8 = i div 8")
  case True
  then have idx: "k mod 8 = i mod 8 \<longleftrightarrow> k = i"
    by (rule bit_index_eq_iff)
  have "k mod 8 < 8"
    by simp
  with True assms idx show ?thesis
    by (simp add: put_bit_def buf_bit_update bit_set_bit_iff bit_unset_bit_iff buf_bit_def eq_commute)
next
  case False
  then have "k \<noteq> i"
    by auto
  with False assms show ?thesis
    by (simp add: put_bit_def buf_bit_update)
qed

lemma byte_eqI:
  fixes x y :: u8
  assumes "\<And>n. n < 8 \<Longrightarrow> bit x n = bit y n"
  shows "x = y"
  using assms by (auto intro!: bit_word_eqI)

lemma buffer_eqI:
  assumes len: "length xs = length ys"
    and bits: "\<And>i. i < 8 * length xs \<Longrightarrow> buf_bit xs i = buf_bit ys i"
  shows "xs = ys"
proof (rule nth_equalityI [OF len], rule byte_eqI)
  fix i n :: nat
  assume "i < length xs" and "n < 8"
  then show "bit (xs ! i) n = bit (ys ! i) n"
    using bits [of "8 * i + n"] by (simp add: buf_bit_def)
qed

lemma buf_bit_replicate_0 [simp]: "i < 8 * n \<Longrightarrow> \<not> buf_bit (replicate n 0) i"
  by (simp add: buf_bit_def div_less_iff_less_mult mult.commute)

section \<open>Bytes of a machine word, least significant byte first\<close>

text \<open>The engine only builds for x64 Windows: integers lie in memory little endian.\<close>

definition le_bytes :: "nat \<Rightarrow> 'a::len word \<Rightarrow> u8 list" where
  "le_bytes n x = map (\<lambda>i. ucast (drop_bit (8 * i) x)) [0..<n]"

definition of_le_bytes :: "u8 list \<Rightarrow> 'a::len word" where
  "of_le_bytes bs = foldr (\<lambda>b acc. push_bit 8 acc OR ucast b) bs 0"

lemma length_le_bytes [simp]: "length (le_bytes n x) = n"
  by (simp add: le_bytes_def)

lemma le_bytes_bit:
  assumes "i < 8 * n"
  shows "buf_bit (le_bytes n x) i = bit x i"
proof -
  have "i div 8 < n" "i mod 8 < 8"
    using assms by auto
  then show ?thesis
    by (auto simp: buf_bit_def le_bytes_def bit_simps dest: bit_imp_le_length)
qed

lemma of_le_bytes_bit:
  "bit (of_le_bytes bs :: 'a::len word) i \<longleftrightarrow> i < LENGTH('a) \<and> i < 8 * length bs \<and> buf_bit bs i"
proof (induction bs arbitrary: i)
  case Nil
  then show ?case by (simp add: of_le_bytes_def)
next
  case (Cons b bs)
  have step: "of_le_bytes (b # bs) = (push_bit 8 (of_le_bytes bs) OR ucast b :: 'a word)"
    by (simp add: of_le_bytes_def)
  show ?case
  proof (cases "i < 8")
    case True
    then show ?thesis
      unfolding step by (auto simp: bit_simps buf_bit_def)
  next
    case False
    then have "i div 8 = Suc ((i - 8) div 8)" "i mod 8 = (i - 8) mod 8"
      by (simp_all add: le_div_geq le_mod_geq)
    then have "buf_bit (b # bs) i = buf_bit bs (i - 8)"
      by (simp add: buf_bit_def)
    with False show ?thesis
      unfolding step by (auto simp: bit_simps Cons.IH dest: bit_imp_le_length)
  qed
qed

lemma le_bytes_inverse:
  assumes "LENGTH('a::len) \<le> 8 * n"
  shows "of_le_bytes (le_bytes n (x :: 'a word)) = x"
  using assms by (intro bit_word_eqI) (auto simp: of_le_bytes_bit le_bytes_bit)

text \<open>The bits of a word as a string, least significant bit first.\<close>

definition word_bits :: "nat \<Rightarrow> 'a::len word \<Rightarrow> bool list" where
  "word_bits n x = map (bit x) [0..<n]"

lemma length_word_bits [simp]: "length (word_bits n x) = n"
  by (simp add: word_bits_def)

lemma u8_bit_less: "bit (x :: u8) m \<Longrightarrow> m < 8"
  by (drule bit_imp_le_length) simp

lemma bitslice_le_bytes: "n \<le> 8 * k \<Longrightarrow> bitslice (le_bytes k x) 0 n = word_bits n x"
  by (rule nth_equalityI) (auto simp: word_bits_def le_bytes_bit)

lemma of_le_bytes_eqI:
  assumes "length bs = k" and "LENGTH('a) \<le> 8 * k"
    and "bitslice bs 0 LENGTH('a) = word_bits LENGTH('a) (x :: 'a::len word)"
  shows "of_le_bytes bs = x"
proof (rule bit_word_eqI)
  fix i
  assume i: "i < LENGTH('a)"
  have "bitslice bs 0 LENGTH('a) ! i = word_bits LENGTH('a) x ! i"
    using assms(3) by simp
  with i assms(1,2) show "bit (of_le_bytes bs :: 'a word) i = bit x i"
    by (simp add: of_le_bytes_bit word_bits_def)
qed

end
