(* ===== verification/Doubles.thy ===== *)
theory Doubles
  imports Prelude
begin

text \<open>
  The double precision numbers the handshake sends and compares (C++ \<open>double\<close> of x64), as their
  64 bits: sign, 11 exponent bits and 52 bits of the significand. \<open>dint\<close> is the value of a number as
  a multiple of the smallest positive one, \<open>2 ^ -1074\<close>; operations are exact on these integers and
  then rounded to nearest, ties to even.
\<close>

section \<open>Values and comparisons\<close>

definition dneg :: "u64 \<Rightarrow> bool" where "dneg d \<longleftrightarrow> 2 ^ 63 \<le> unat d"
definition dexp :: "u64 \<Rightarrow> nat" where "dexp d = unat d div 2 ^ 52 mod 2 ^ 11"
definition dman :: "u64 \<Rightarrow> nat" where "dman d = unat d mod 2 ^ 52"

definition dnan :: "u64 \<Rightarrow> bool" where "dnan d \<longleftrightarrow> dexp d = 2047 \<and> dman d \<noteq> 0"
definition dinf :: "u64 \<Rightarrow> bool" where "dinf d \<longleftrightarrow> dexp d = 2047 \<and> dman d = 0"

definition dmag :: "u64 \<Rightarrow> nat" where
  "dmag d = (if dexp d = 0 then dman d else (2 ^ 52 + dman d) * 2 ^ (dexp d - 1))"

definition dint :: "u64 \<Rightarrow> int" where
  "dint d = (if dneg d then - int (dmag d) else int (dmag d))"

definition dlt :: "u64 \<Rightarrow> u64 \<Rightarrow> bool" where "dlt a b \<longleftrightarrow> \<not> dnan a \<and> \<not> dnan b \<and> dint a < dint b"
definition dle :: "u64 \<Rightarrow> u64 \<Rightarrow> bool" where "dle a b \<longleftrightarrow> \<not> dnan a \<and> \<not> dnan b \<and> dint a \<le> dint b"
definition deq :: "u64 \<Rightarrow> u64 \<Rightarrow> bool" where "deq a b \<longleftrightarrow> \<not> dnan a \<and> \<not> dnan b \<and> dint a = dint b"

section \<open>Rounding, subtraction, conversion\<close>

fun nat_len :: "nat \<Rightarrow> nat" where
  "nat_len n = (if n = 0 then 0 else Suc (nat_len (n div 2)))"

declare nat_len.simps [simp del]

text \<open>The bits of the number nearest to \<open>n / d\<close> (in units of \<open>2 ^ -1074\<close>), infinity above the largest.\<close>

definition dround_bits :: "nat \<Rightarrow> nat \<Rightarrow> nat" where
  "dround_bits n d =
     (let e = nat_len (n div d) - 53; D = d * 2 ^ e; q = n div D; r = n mod D;
          q' = (if D < 2 * r \<or> (2 * r = D \<and> odd q) then q + 1 else q)
      in min (e * 2 ^ 52 + q') (2047 * 2 ^ 52))"

definition dround :: "bool \<Rightarrow> nat \<Rightarrow> nat \<Rightarrow> u64" where
  "dround neg n d = word_of_nat (dround_bits n d + (if neg then 2 ^ 63 else 0))"

definition dneg_zero :: u64 where "dneg_zero = 0x8000000000000000"

definition dsub :: "u64 \<Rightarrow> u64 \<Rightarrow> u64" where
  "dsub a b =
     (if dnan a then a OR push_bit 51 1 else if dnan b then b OR push_bit 51 1
      else if dinf a \<and> dinf b \<and> dneg a = dneg b then 0xFFF8000000000000
      else if dinf a then a else if dinf b then b XOR dneg_zero
      else let r = dint a - dint b in
        if r = 0 then (if dneg a \<and> \<not> dneg b then dneg_zero else 0)
        else dround (r < 0) (nat \<bar>r\<bar>) 1)"

text \<open>A 64 bit integer as a double, and the product of two numbers that are not negative.\<close>

definition d_of_u64 :: "u64 \<Rightarrow> u64" where
  "d_of_u64 x = dround False (unat x * 2 ^ 1074) 1"

definition dmul_pos :: "u64 \<Rightarrow> u64 \<Rightarrow> u64" where
  "dmul_pos a b = dround False (dmag a * dmag b) (2 ^ 1074)"

section \<open>Seconds in single precision\<close>

text \<open>
  \<open>std::chrono::duration<float>(d).count()\<close> of a duration in nanoseconds: the count as a float, divided
  by \<open>1e9f\<close>. \<open>round_sig p n d\<close> is \<open>n / d\<close> rounded to \<open>p\<close> significant bits, ties to even; the seconds are
  in units of \<open>2 ^ -64\<close>, which are finer than any bit of the quotient.
\<close>

definition round_sig :: "nat \<Rightarrow> nat \<Rightarrow> nat \<Rightarrow> nat" where
  "round_sig p n d =
     (let e = nat_len (n div d) - p; D = d * 2 ^ e; q = n div D; r = n mod D
      in (if D < 2 * r \<or> (2 * r = D \<and> odd q) then q + 1 else q) * 2 ^ e)"

definition f_secs :: "nat \<Rightarrow> nat" where
  "f_secs ns = round_sig 24 (round_sig 24 ns 1 * 2 ^ 64) (10 ^ 9)"

text \<open>The comparisons of such a duration with a whole number of seconds.\<close>

definition secs_ge :: "int \<Rightarrow> nat \<Rightarrow> bool" where
  "secs_ge ns K \<longleftrightarrow> 0 \<le> ns \<and> K * 2 ^ 64 \<le> f_secs (nat ns) \<or> ns < 0 \<and> K = 0 \<and> f_secs (nat (- ns)) = 0"

definition secs_gt :: "int \<Rightarrow> nat \<Rightarrow> bool" where
  "secs_gt ns K \<longleftrightarrow> 0 \<le> ns \<and> K * 2 ^ 64 < f_secs (nat ns)"

section \<open>Decimal text\<close>

fun nat_text :: "nat \<Rightarrow> string" where
  "nat_text n = (if n < 10 then [char_of (48 + n)] else nat_text (n div 10) @ [char_of (48 + n mod 10)])"

declare nat_text.simps [simp del]

text \<open>\<open>std::to_string(double)\<close>, which prints with \<open>%f\<close>: six digits after the point, the exact value
  rounded to nearest, ties to even.\<close>

definition micro_of :: "u64 \<Rightarrow> nat" where
  "micro_of d = (let N = dmag d * 10 ^ 6; q = N div 2 ^ 1074; r = N mod 2 ^ 1074
                 in if 2 ^ 1074 < 2 * r \<or> (2 * r = 2 ^ 1074 \<and> odd q) then q + 1 else q)"

definition pad6 :: "nat \<Rightarrow> string" where
  "pad6 k = map (\<lambda>i. char_of (48 + k div 10 ^ i mod 10)) [5, 4, 3, 2, 1, 0]"

definition d_text :: "u64 \<Rightarrow> string" where
  "d_text d = (if dneg d then ''-'' else []) @
     (if dnan d then (if d = 0xFFF8000000000000 then ''nan(ind)'' else if dman d < 2 ^ 51 then ''nan(snan)'' else ''nan'')
      else if dinf d then ''inf''
      else nat_text (micro_of d div 10 ^ 6) @ ''.'' @ pad6 (micro_of d mod 10 ^ 6))"

section \<open>Laws\<close>

lemma dround_bits_pos: "0 < d \<Longrightarrow> d \<le> n \<Longrightarrow> 0 < dround_bits n d"
proof -
  assume d: "0 < d" "d \<le> n"
  define e where "e = nat_len (n div d) - 53"
  have "0 < e * 2 ^ 52 + (n div (d * 2 ^ e) + x)" for x
    using d by (cases "e = 0") (auto simp: div_greater_zero_iff)
  from this [of 0] this [of 1] show ?thesis
    unfolding dround_bits_def Let_def e_def [symmetric] by auto
qed

lemma dround_bits_le: "dround_bits n d \<le> 2047 * 2 ^ 52"
  by (simp add: dround_bits_def Let_def)

lemma dround_fields:
  "dneg (dround neg n d) = neg" "dexp (dround neg n d) = dround_bits n d div 2 ^ 52"
  "dman (dround neg n d) = dround_bits n d mod 2 ^ 52"
proof -
  let ?b = "dround_bits n d"
  have b: "?b \<le> 2047 * 2 ^ 52"
    by (rule dround_bits_le)
  then have u: "unat (dround neg n d) = ?b + (if neg then 2 ^ 63 else 0)"
    unfolding dround_def by (subst unsigned_of_nat) (simp add: take_bit_nat_eq_self_iff del: of_nat_add)
  have "?b div 2 ^ 52 \<le> 2047 * 2 ^ 52 div 2 ^ 52"
    using b by (intro div_le_mono)
  then have e: "?b div 2 ^ 52 < 2 ^ 11"
    by simp
  have s: "(?b + 2 ^ 63) div 2 ^ 52 = 2 ^ 11 + ?b div 2 ^ 52" "(?b + 2 ^ 63) mod 2 ^ 52 = ?b mod 2 ^ 52"
    using div_mult_self2 [of "2 ^ 52 :: nat" ?b "2 ^ 11"] mod_mult_self2 [of ?b "2 ^ 52 :: nat" "2 ^ 11"] by simp_all
  show "dneg (dround neg n d) = neg"
    using b by (simp add: dneg_def u)
  show "dexp (dround neg n d) = ?b div 2 ^ 52"
    using e using s by (simp add: dexp_def u)
  show "dman (dround neg n d) = ?b mod 2 ^ 52"
    using s by (simp add: dman_def u)
qed

lemma dround_finite: "\<not> dnan (dround neg n d)"
proof -
  have "dround_bits n d = 2047 * 2 ^ 52" if "dround_bits n d div 2 ^ 52 = 2047"
    using dround_bits_le [of n d] that div_mult_mod_eq [of "dround_bits n d" "2 ^ 52"] by simp
  then show ?thesis
    by (auto simp: dnan_def dround_fields)
qed

lemma dmag_0_iff: "dmag d = 0 \<longleftrightarrow> dexp d = 0 \<and> dman d = 0"
  by (simp add: dmag_def)

lemma dmag_dround_pos: "0 < d \<Longrightarrow> d \<le> n \<Longrightarrow> 0 < dmag (dround neg n d)"
  using dround_bits_pos [of d n] div_mult_mod_eq [of "dround_bits n d" "2 ^ 52"]
  by (auto simp: dmag_0_iff dround_fields simp flip: neq0_conv)

lemma dint_0 [simp]: "dint 0 = 0" "dint dneg_zero = 0" "\<not> dnan 0" "\<not> dnan dneg_zero"
  by (simp_all add: dint_def dmag_def dexp_def dman_def dneg_zero_def dnan_def)

text \<open>The sign of a difference is the order of the numbers: rounding never reaches zero.\<close>

lemma dsub_sign:
  assumes "\<not> dnan a" "\<not> dnan b" "\<not> dinf a" "\<not> dinf b"
  shows "\<not> dnan (dsub a b)" "dint (dsub a b) = 0 \<longleftrightarrow> dint a = dint b" "0 < dint (dsub a b) \<longleftrightarrow> dint b < dint a"
proof -
  let ?r = "dint a - dint b"
  have d: "dsub a b = (if ?r = 0 then (if dneg a \<and> \<not> dneg b then dneg_zero else 0) else dround (?r < 0) (nat \<bar>?r\<bar>) 1)"
    using assms by (simp add: dsub_def Let_def)
  have p: "0 < dmag (dround (?r < 0) (nat \<bar>?r\<bar>) 1)" if "?r \<noteq> 0"
    using that by (intro dmag_dround_pos) auto
  show "\<not> dnan (dsub a b)"
    unfolding d by (simp add: dround_finite)
  show "dint (dsub a b) = 0 \<longleftrightarrow> dint a = dint b" "0 < dint (dsub a b) \<longleftrightarrow> dint b < dint a"
    unfolding d using p by (auto simp: dint_def [of "dround _ _ _"] dround_fields)
qed

corollary dsub_positive:
  assumes "\<not> dnan a" "\<not> dnan b" "\<not> dinf a" "\<not> dinf b"
  shows "dlt 0 (dsub a b) \<longleftrightarrow> dlt b a" "dle 0 (dsub a b) \<longleftrightarrow> dle b a"
  using assms dsub_sign [OF assms] by (auto simp: dlt_def dle_def)

lemma dlt_irrefl: "\<not> dlt a a" and dlt_trans: "dlt a b \<Longrightarrow> dlt b c \<Longrightarrow> dlt a c"
  and dle_lt: "dle a b \<Longrightarrow> \<not> dlt b a" and dlt_le: "dlt a b \<Longrightarrow> dle a b"
  by (auto simp: dlt_def dle_def)

lemma nat_text_nonempty: "nat_text n \<noteq> []"
  by (subst nat_text.simps) simp

end
