(* ===== verification/BitBuf.thy ===== *)
theory BitBuf
  imports Prelude
begin

text \<open>
  Core, \<open>BitReader.cpp\<close> and \<open>MathUtility.h\<close>: the tables \<open>GShift\<close> and \<open>GMask\<close>, the bit
  copy \<open>appBitsCpy\<close> both the writer and the reader rest on, and the ceiling logarithm that gives
  the width of a bounded integer. Positions and counts are natural numbers: every caller passes
  values below \<open>2 ^ 31\<close>. An access outside a buffer, undefined in C++, is the value \<open>None\<close>.
  The main result is that the shift-and-accumulate copy equals a copy bit by bit and never leaves
  either buffer.
\<close>

section \<open>Tables\<close>

definition GShift :: "u8 list" where
  "GShift = [0x01, 0x02, 0x04, 0x08, 0x10, 0x20, 0x40, 0x80]"

definition GMask :: "u8 list" where
  "GMask = [0x00, 0x01, 0x03, 0x07, 0x0f, 0x1f, 0x3f, 0x7f]"

lemma less_8_cases:
  "i < 8 \<Longrightarrow> i = 0 \<or> i = 1 \<or> i = 2 \<or> i = 3 \<or> i = 4 \<or> i = 5 \<or> i = 6 \<or> i = (7::nat)"
  by auto

lemma GShift_nth: "i < 8 \<Longrightarrow> GShift ! i = push_bit i 1"
  by (drule less_8_cases, elim disjE) (simp_all add: GShift_def)

lemma GMask_nth: "i < 8 \<Longrightarrow> GMask ! i = mask i"
  by (drule less_8_cases, elim disjE) (simp_all add: GMask_def mask_eq_exp_minus_1)

section \<open>MathUtility\<close>

text \<open>\<open>_BitScanReverse64\<close> gives the index of the highest set bit of its argument.\<close>

fun BitScanReverse :: "nat \<Rightarrow> nat" where
  "BitScanReverse v = (if v \<le> 1 then 0 else Suc (BitScanReverse (v div 2)))"

declare BitScanReverse.simps [simp del]

definition CountLeadingZeros :: "u32 \<Rightarrow> nat" where
  "CountLeadingZeros Value = 32 - BitScanReverse (unat Value * 2 + 1)"

definition CeilLogTwo :: "u32 \<Rightarrow> nat" where
  "CeilLogTwo Arg = (let Arg = (if Arg \<noteq> 0 then Arg else 1) in 32 - CountLeadingZeros (Arg - 1))"

lemma BitScanReverse_bounds: "0 < v \<Longrightarrow> 2 ^ BitScanReverse v \<le> v \<and> v < 2 ^ Suc (BitScanReverse v)"
proof (induction v rule: BitScanReverse.induct)
  case (1 v)
  show ?case
  proof (cases "v \<le> 1")
    case True
    with 1 show ?thesis by (simp add: BitScanReverse.simps [of v])
  next
    case False
    with 1 have "2 ^ BitScanReverse (v div 2) \<le> v div 2 \<and> v div 2 < 2 ^ Suc (BitScanReverse (v div 2))"
      by simp
    with False show ?thesis
      by (auto simp: BitScanReverse.simps [of v])
  qed
qed

lemma power2_less_cancel: "(2::nat) ^ a \<le> v \<Longrightarrow> v < 2 ^ b \<Longrightarrow> a < b"
  by (metis le_less_trans one_less_numeral_iff power_less_imp_less_exp semiring_norm(76))

lemma CeilLogTwo_bounds:
  assumes "2 \<le> ValueMax"
  shows "unat ValueMax \<le> 2 ^ CeilLogTwo ValueMax" and "2 ^ (CeilLogTwo ValueMax - 1) < unat ValueMax"
    and "0 < CeilLogTwo ValueMax" and "CeilLogTwo ValueMax \<le> 32"
proof -
  let ?w = "unat (ValueMax - 1) * 2 + 1" and ?k = "BitScanReverse (unat (ValueMax - 1) * 2 + 1)"
  have ge: "2 \<le> unat ValueMax"
    using assms by (simp add: word_le_nat_alt)
  then have m1: "unat (ValueMax - 1) = unat ValueMax - 1"
    by (metis diff_le_self le_neq_implies_less not_numeral_le_zero unat_0 unat_minus_one)
  have b: "2 ^ ?k \<le> ?w" "?w < 2 ^ Suc ?k"
    using BitScanReverse_bounds [of ?w] by auto
  have "?w < 2 ^ 33"
    using unsigned_less [of "ValueMax - 1", where ?'a = nat] by simp
  with b(1) have k33: "?k < 33"
    by (rule power2_less_cancel)
  have "ValueMax \<noteq> 0"
    using assms by auto
  with k33 have eq: "CeilLogTwo ValueMax = ?k"
    by (simp add: CeilLogTwo_def CountLeadingZeros_def Let_def)
  have "3 \<le> ?w"
    using ge m1 by simp
  with b(2) have k1: "0 < ?k"
    by (cases ?k) auto
  then obtain j where j: "?k = Suc j"
    by (cases ?k) auto
  show "unat ValueMax \<le> 2 ^ CeilLogTwo ValueMax"
    using b(2) m1 ge unfolding eq j by simp
  show "2 ^ (CeilLogTwo ValueMax - 1) < unat ValueMax"
    using b(1) m1 ge unfolding eq j by simp
  show "0 < CeilLogTwo ValueMax" "CeilLogTwo ValueMax \<le> 32"
    using k1 k33 unfolding eq by auto
qed

section \<open>The bit copy\<close>

text \<open>Up to eight bits: at most two bytes are read and two are written.\<close>

definition appBitsCpy_small ::
    "u8 list \<Rightarrow> nat \<Rightarrow> u8 list \<Rightarrow> nat \<Rightarrow> nat \<Rightarrow> u8 list option" where
  "appBitsCpy_small Dest DestBit Src SrcBit BitCount =
     (let DestIndex = DestBit div 8; SrcIndex = SrcBit div 8;
          LastDest = (DestBit + BitCount - 1) div 8; LastSrc = (SrcBit + BitCount - 1) div 8;
          ShiftDest = DestBit mod 8; ShiftSrc = SrcBit mod 8;
          FirstMask = push_bit ShiftDest 0xFF :: u32;
          LastMask = push_bit ((DestBit + BitCount - 1) mod 8) 0xFE :: u32
      in do {
        a \<leftarrow> rd Src SrcIndex;
        Accu \<leftarrow> (if SrcIndex = LastSrc then Some (drop_bit ShiftSrc (ucast a) :: u32)
                 else do { b \<leftarrow> rd Src LastSrc;
                           Some (drop_bit ShiftSrc (ucast a) OR push_bit (8 - ShiftSrc) (ucast b)) });
        if DestIndex = LastDest then do {
          let MultiMask = FirstMask AND NOT LastMask;
          x \<leftarrow> rd Dest DestIndex;
          wr Dest DestIndex
            (ucast ((ucast x AND NOT MultiMask) OR (push_bit ShiftDest Accu AND MultiMask))) }
        else do {
          x \<leftarrow> rd Dest DestIndex;
          Dest \<leftarrow> wr Dest DestIndex
            (ucast ((ucast x AND NOT FirstMask) OR (push_bit ShiftDest Accu AND FirstMask)));
          y \<leftarrow> rd Dest LastDest;
          wr Dest LastDest
            (ucast ((ucast y AND LastMask) OR (drop_bit (8 - ShiftDest) Accu AND NOT LastMask))) }
      })"

text \<open>The inner loop of the long copy: one byte read and one written per round.\<close>

fun appBitsCpy_loop ::
    "nat \<Rightarrow> u8 list \<Rightarrow> nat \<Rightarrow> u8 list \<Rightarrow> nat \<Rightarrow> u32 \<Rightarrow> nat \<Rightarrow> (u8 list \<times> nat \<times> nat \<times> u32) option"
where
  "appBitsCpy_loop FullLoop Dest DestIndex Src SrcIndex BitAccu ShiftCount =
     (if 1 < FullLoop then do {
        b \<leftarrow> rd Src SrcIndex;
        let BitAccu = drop_bit 8 (push_bit ShiftCount (ucast b) + BitAccu);
        Dest \<leftarrow> wr Dest DestIndex (ucast BitAccu);
        appBitsCpy_loop (FullLoop - 1) Dest (DestIndex + 1) Src (SrcIndex + 1) BitAccu ShiftCount }
      else Some (Dest, DestIndex, SrcIndex, BitAccu))"

declare appBitsCpy_loop.simps [simp del]

text \<open>Nine bits and more.\<close>

definition appBitsCpy_long ::
    "u8 list \<Rightarrow> nat \<Rightarrow> u8 list \<Rightarrow> nat \<Rightarrow> nat \<Rightarrow> u8 list option" where
  "appBitsCpy_long Dest DestBit Src SrcBit BitCount =
     (let DestIndex = DestBit div 8; SrcIndex = SrcBit div 8;
          FirstSrcMask = push_bit (DestBit mod 8) 0xFF :: u32;
          LastSrcMask = push_bit ((DestBit + BitCount) mod 8) 0xFF :: u32;
          LastDest = (DestBit + BitCount) div 8; LastSrc = (SrcBit + BitCount) div 8;
          ShiftCount = int (DestBit mod 8) - int (SrcBit mod 8);
          DestLoop = int LastDest - int DestIndex; SrcLoop = int LastSrc - int SrcIndex
      in do {
        (FullLoop, BitAccu, SrcIndex, ShiftCount) \<leftarrow>
          (if 0 \<le> ShiftCount then do {
             a \<leftarrow> rd Src SrcIndex;
             Some (max DestLoop SrcLoop, (push_bit (nat ShiftCount) (ucast a) :: u32), SrcIndex,
                   ShiftCount + 8) }
           else do {
             let ShiftCount = ShiftCount + 8;
             a \<leftarrow> rd Src SrcIndex;
             let BitAccu = (push_bit (nat ShiftCount) (ucast a) :: u32);
             let SrcIndex = SrcIndex + 1;
             let ShiftCount = ShiftCount + 8;
             b \<leftarrow> rd Src SrcIndex;
             Some (max DestLoop (SrcLoop - 1),
                   drop_bit 8 (push_bit (nat ShiftCount) (ucast b) + BitAccu), SrcIndex,
                   ShiftCount) });
        x \<leftarrow> rd Dest DestIndex;
        Dest \<leftarrow> wr Dest DestIndex (ucast ((BitAccu AND FirstSrcMask) OR (ucast x AND NOT FirstSrcMask)));
        (Dest, DestIndex, SrcIndex, BitAccu) \<leftarrow>
          appBitsCpy_loop (nat FullLoop) Dest (DestIndex + 1) Src (SrcIndex + 1) BitAccu (nat ShiftCount);
        if LastSrcMask \<noteq> 0xFF then do {
          BitAccu \<leftarrow>
            (if (SrcBit + BitCount - 1) div 8 = SrcIndex then do {
               b \<leftarrow> rd Src SrcIndex;
               Some (drop_bit 8 (push_bit (nat ShiftCount) (ucast b) + BitAccu)) }
             else Some (drop_bit 8 BitAccu));
          y \<leftarrow> rd Dest DestIndex;
          wr Dest DestIndex (ucast ((ucast y AND LastSrcMask) OR (BitAccu AND NOT LastSrcMask))) }
        else Some Dest
      })"

definition appBitsCpy :: "u8 list \<Rightarrow> nat \<Rightarrow> u8 list \<Rightarrow> nat \<Rightarrow> nat \<Rightarrow> u8 list option" where
  "appBitsCpy Dest DestBit Src SrcBit BitCount =
     (if BitCount = 0 then Some Dest
      else if BitCount \<le> 8 then appBitsCpy_small Dest DestBit Src SrcBit BitCount
      else appBitsCpy_long Dest DestBit Src SrcBit BitCount)"

text \<open>The reference: one bit at a time.\<close>

fun bit_copy_ref :: "u8 list \<Rightarrow> nat \<Rightarrow> u8 list \<Rightarrow> nat \<Rightarrow> nat \<Rightarrow> u8 list" where
  "bit_copy_ref Dest DestBit Src SrcBit 0 = Dest"
| "bit_copy_ref Dest DestBit Src SrcBit (Suc n) =
     bit_copy_ref (put_bit Dest DestBit (buf_bit Src SrcBit)) (Suc DestBit) Src (Suc SrcBit) n"

section \<open>The copy is the bit by bit copy\<close>

lemma length_bit_copy_ref [simp]: "length (bit_copy_ref d db s sb n) = length d"
  by (induction d db s sb n rule: bit_copy_ref.induct) auto

lemma buf_bit_copy_ref:
  "db + n \<le> 8 * length d \<Longrightarrow>
   buf_bit (bit_copy_ref d db s sb n) k =
     (if db \<le> k \<and> k < db + n then buf_bit s (sb + (k - db)) else buf_bit d k)"
proof (induction d db s sb n rule: bit_copy_ref.induct)
  case (1 d db s sb)
  then show ?case by auto
next
  case (2 d db s sb n)
  then have "db div 8 < length d"
    by auto
  have "db < k \<Longrightarrow> Suc sb + (k - Suc db) = sb + (k - db)"
    by simp
  with 2 \<open>db div 8 < length d\<close> show ?case
    by (auto simp: buf_bit_put_bit Suc_le_eq simp del: add_Suc)
qed

lemma byte_index:
  fixes p j :: nat
  shows "p mod 8 + j < 8 \<Longrightarrow> (p + j) div 8 = p div 8 \<and> (p + j) mod 8 = p mod 8 + j"
    and "8 \<le> p mod 8 + j \<Longrightarrow> p mod 8 + j < 16 \<Longrightarrow>
         (p + j) div 8 = Suc (p div 8) \<and> (p + j) mod 8 = p mod 8 + j - 8"
proof -
  assume a: "p mod 8 + j < 8"
  have "p + j = (p mod 8 + j) + 8 * (p div 8)"
    by simp
  with a show "(p + j) div 8 = p div 8 \<and> (p + j) mod 8 = p mod 8 + j"
    by (metis add.commute div_mult_self4 mod_mult_self2 div_less mod_less add_0 zero_neq_numeral)
next
  assume a: "8 \<le> p mod 8 + j" "p mod 8 + j < 16"
  then have "p + j = (p mod 8 + j - 8) + 8 * Suc (p div 8)" and "p mod 8 + j - 8 < 8"
    by simp_all
  then show "(p + j) div 8 = Suc (p div 8) \<and> (p + j) mod 8 = p mod 8 + j - 8"
    by (metis add.commute div_mult_self4 mod_mult_self2 div_less mod_less add_0 zero_neq_numeral)
qed

lemma buf_bit_byte_index:
  "p mod 8 + j < 8 \<Longrightarrow> buf_bit xs (p + j) = bit (xs ! (p div 8)) (p mod 8 + j)"
  "8 \<le> p mod 8 + j \<Longrightarrow> p mod 8 + j < 16 \<Longrightarrow>
     buf_bit xs (p + j) = bit (xs ! Suc (p div 8)) (p mod 8 + j - 8)"
  by (simp_all add: buf_bit_def byte_index)

lemma bit_0xFF: "bit (0xFF :: u32) k \<longleftrightarrow> k < 8"
proof -
  have *: "(0xFF :: u32) = mask 8"
    by (simp add: mask_eq_exp_minus_1)
  show ?thesis
    unfolding * by (auto simp: bit_mask_iff)
qed

lemma bit_0xFE: "bit (0xFE :: u32) k \<longleftrightarrow> 0 < k \<and> k < 8"
proof -
  have *: "(0xFE :: u32) = push_bit 1 (mask 7)"
    by (simp add: mask_eq_exp_minus_1)
  show ?thesis
    unfolding * bit_push_bit_iff bit_mask_iff by auto
qed

lemma small_accumulator:
  assumes n: "0 < n" "n \<le> 8" and s: "sb + n \<le> 8 * length s"
  shows "\<exists>a. rd s (sb div 8) = Some a \<and> (\<exists>acc.
           (if sb div 8 = (sb + n - 1) div 8 then Some (drop_bit (sb mod 8) (ucast a) :: u32)
            else do { b \<leftarrow> rd s ((sb + n - 1) div 8);
                      Some (drop_bit (sb mod 8) (ucast a) OR push_bit (8 - sb mod 8) (ucast b)) })
           = Some acc \<and> (\<forall>j<n. bit acc j = buf_bit s (sb + j)))"
proof (cases "sb mod 8 + (n - 1) < 8")
  case True
  have last: "(sb + n - 1) div 8 = sb div 8"
    using byte_index(1) [OF True] n by simp
  have "sb div 8 < length s"
    using n s by auto
  moreover have "bit (drop_bit (sb mod 8) (ucast (s ! (sb div 8))) :: u32) j = buf_bit s (sb + j)"
    if "j < n" for j
    using that True buf_bit_byte_index(1) [of sb j s] by (auto simp: bit_simps)
  ultimately show ?thesis
    using last by auto
next
  case False
  then have last: "(sb + n - 1) div 8 = Suc (sb div 8)"
    using byte_index(2) [of sb "n - 1"] n by simp
  have in1: "Suc (sb div 8) < length s"
    using last n s by (metis Suc_pred' add_gr_0 less_mult_imp_div_less less_eq_Suc_le mult.commute Suc_diff_1)
  have "bit (drop_bit (sb mod 8) (ucast (s ! (sb div 8))) OR
             push_bit (8 - sb mod 8) (ucast (s ! Suc (sb div 8))) :: u32) j = buf_bit s (sb + j)"
    if "j < n" for j
  proof (cases "sb mod 8 + j < 8")
    case True
    then show ?thesis
      using buf_bit_byte_index(1) [of sb j s] by (auto simp: bit_simps)
  next
    case False
    then show ?thesis
      using that n buf_bit_byte_index(2) [of sb j s]
      by (auto simp: bit_simps add.commute dest: bit_imp_le_length)
  qed
  with in1 last show ?thesis
    by auto
qed

text \<open>Merging two bytes under a mask, in the two shapes the code writes it.\<close>

lemma bit_merge:
  "bit (ucast ((ucast (x :: u8) AND NOT M) OR (y AND M)) :: u8) m
     \<longleftrightarrow> m < 8 \<and> (if bit (M :: u32) m then bit y m else bit x m)"
  "bit (ucast ((y AND M) OR (ucast (x :: u8) AND NOT M)) :: u8) m
     \<longleftrightarrow> m < 8 \<and> (if bit (M :: u32) m then bit y m else bit x m)"
  "bit (ucast ((ucast (x :: u8) AND M) OR (y AND NOT M)) :: u8) m
     \<longleftrightarrow> m < 8 \<and> (if bit (M :: u32) m then bit x m else bit y m)"
  by (auto simp: bit_simps dest: bit_imp_le_length)

lemma bit_FirstMask: "m < 8 \<Longrightarrow> bit (push_bit sh (0xFF :: u32)) m \<longleftrightarrow> sh \<le> m"
  unfolding bit_push_bit_iff bit_0xFF by auto

lemma bit_LastMask: "m < 8 \<Longrightarrow> bit (push_bit sh (0xFE :: u32)) m \<longleftrightarrow> sh < m"
  unfolding bit_push_bit_iff bit_0xFE by auto

lemma same_byte:
  fixes i p :: nat
  assumes "i div 8 = p div 8"
  shows "p \<le> i \<longleftrightarrow> p mod 8 \<le> i mod 8" and "i - p = i mod 8 - p mod 8"
proof -
  have *: "i = 8 * (p div 8) + i mod 8" "p = 8 * (p div 8) + p mod 8"
    by (metis assms mult_div_mod_eq, simp)
  show "p \<le> i \<longleftrightarrow> p mod 8 \<le> i mod 8"
    using * by linarith
  show "i - p = i mod 8 - p mod 8"
    using * by linarith
qed

lemma next_byte:
  fixes i p :: nat
  assumes "i div 8 = Suc (p div 8)"
  shows "i - p = 8 - p mod 8 + i mod 8" and "p < i"
proof -
  have *: "i = 8 * Suc (p div 8) + i mod 8" "p = 8 * (p div 8) + p mod 8" "p mod 8 < 8"
    by (metis assms mult_div_mod_eq, simp, simp)
  have "\<And>a b q. i = 8 * Suc q + a \<Longrightarrow> p = 8 * q + b \<Longrightarrow> b < 8 \<Longrightarrow> i - p = 8 - b + a \<and> p < i"
    by arith
  from this [OF *] show "i - p = 8 - p mod 8 + i mod 8" "p < i"
    by auto
qed

lemma div8_less_iff: "(i::nat) div 8 < q \<longleftrightarrow> i < 8 * q"
  by (simp add: div_less_iff_less_mult mult.commute)

lemma other_byte: "(i::nat) div 8 < p div 8 \<Longrightarrow> i < p"
  by (meson div_le_mono not_le)

lemma appBitsCpy_small_correct:
  assumes n: "0 < n" "n \<le> 8" and s: "sb + n \<le> 8 * length s" and d: "db + n \<le> 8 * length d"
  shows "appBitsCpy_small d db s sb n = Some (bit_copy_ref d db s sb n)"
proof -
  from small_accumulator [OF n s] obtain a acc where
    a: "rd s (sb div 8) = Some a" and
    acc: "(if sb div 8 = (sb + n - 1) div 8 then Some (drop_bit (sb mod 8) (ucast a) :: u32)
            else do { b \<leftarrow> rd s ((sb + n - 1) div 8);
                      Some (drop_bit (sb mod 8) (ucast a) OR push_bit (8 - sb mod 8) (ucast b)) })
           = Some acc" and
    acc_bit: "\<And>j. j < n \<Longrightarrow> bit acc j = buf_bit s (sb + j)"
    by auto
  have acc_at: "bit acc (i - db) = buf_bit s (sb + (i - db))" if "db \<le> i" "i < db + n" for i
    using that acc_bit [of "i - db"] by (simp add: less_diff_conv2)
  let ?di = "db div 8" and ?e = "(db + n - 1) mod 8"
  let ?F = "push_bit (db mod 8) 0xFF :: u32" and ?L = "push_bit ?e 0xFE :: u32"
  have di: "?di < length d"
    using n d by auto
  show ?thesis
  proof (cases "db mod 8 + (n - 1) < 8")
    case True
    with n have last: "(db + n - 1) div 8 = ?di" "?e = db mod 8 + n - 1"
      using byte_index(1) [OF True] by simp_all
    let ?M = "?F AND NOT ?L"
    let ?v = "ucast ((ucast (d ! ?di) AND NOT ?M) OR (push_bit (db mod 8) acc AND ?M)) :: u8"
    have "appBitsCpy_small d db s sb n = Some (d[?di := ?v])"
      unfolding appBitsCpy_small_def Let_def a bind_simps acc last
      using di by (simp only: rd_in wr_in bind_simps refl if_True)
    also have "d[?di := ?v] = bit_copy_ref d db s sb n"
    proof (rule buffer_eqI)
      fix i
      assume "i < 8 * length (d[?di := ?v])"
      have M: "m < 8 \<Longrightarrow> bit ?M m \<longleftrightarrow> db mod 8 \<le> m \<and> m \<le> ?e" for m
        by (auto simp: bit_and_iff bit_not_iff bit_FirstMask bit_LastMask)
      show "buf_bit (d[?di := ?v]) i = buf_bit (bit_copy_ref d db s sb n) i"
      proof (cases "i div 8 = ?di")
        case True
        have rng: "i < db + n \<longleftrightarrow> i mod 8 \<le> ?e"
          using same_byte(1) [OF trans [OF last(1) True [symmetric]]] n by linarith
        have "buf_bit (d[?di := ?v]) i = bit ?v (i mod 8)"
          by (rule buf_bit_same [OF True di])
        also have "\<dots> = (if db \<le> i \<and> i < db + n then bit (push_bit (db mod 8) acc) (i mod 8)
                          else buf_bit d i)"
          by (simp only: bit_merge M [of "i mod 8"] rng same_byte(1) [OF True] mod_less_divisor
              zero_less_numeral buf_bit_def True simp_thms)
        also have "\<dots> = buf_bit (bit_copy_ref d db s sb n) i"
          using acc_at [of i] same_byte(1) [OF True]
          unfolding buf_bit_copy_ref [OF d] bit_push_bit_iff same_byte(2) [OF True, symmetric]
          by auto
        finally show ?thesis .
      next
        case False
        then have "\<not> (db \<le> i \<and> i < db + n)"
          using other_byte [of i db] other_byte [of "db + n - 1" i] last(1) by linarith
        then show ?thesis
          by (simp only: buf_bit_other [OF False] buf_bit_copy_ref [OF d] if_False)
      qed
    qed simp
    finally show ?thesis .
  next
    case False
    with n have last: "(db + n - 1) div 8 = Suc ?di" "?e + 8 = db mod 8 + n - 1"
      using byte_index(2) [of db "n - 1"] by auto
    have di2: "Suc ?di < length d"
      using last d n by (metis Suc_diff_1 add_gr_0 less_eq_Suc_le less_mult_imp_div_less mult.commute)
    let ?v = "ucast ((ucast (d ! ?di) AND NOT ?F) OR (push_bit (db mod 8) acc AND ?F)) :: u8"
    let ?w = "ucast ((ucast (d ! Suc ?di) AND ?L) OR (drop_bit (8 - db mod 8) acc AND NOT ?L)) :: u8"
    have "appBitsCpy_small d db s sb n = Some (d[?di := ?v, Suc ?di := ?w])"
      unfolding appBitsCpy_small_def Let_def a bind_simps acc last(1)
      using di di2 by (simp only: rd_in wr_in bind_simps n_not_Suc_n if_False length_list_update
        nth_list_update_neq not_False_eq_True)
    also have "d[?di := ?v, Suc ?di := ?w] = bit_copy_ref d db s sb n"
    proof (rule buffer_eqI)
      fix i
      consider "i div 8 = ?di" | "i div 8 = Suc ?di" | "i div 8 \<noteq> ?di" "i div 8 \<noteq> Suc ?di"
        by blast
      then show "buf_bit (d[?di := ?v, Suc ?di := ?w]) i = buf_bit (bit_copy_ref d db s sb n) i"
      proof cases
        case 1
        have rng: "i < db + n"
          using 1 other_byte [of i "db + n - 1"] last(1) by linarith
        have "buf_bit (d[?di := ?v, Suc ?di := ?w]) i = bit ?v (i mod 8)"
          using di 1 by (simp only: buf_bit_other buf_bit_same n_not_Suc_n not_False_eq_True)
        also have "\<dots> = (if db \<le> i then bit (push_bit (db mod 8) acc) (i mod 8) else buf_bit d i)"
          by (simp only: bit_merge bit_FirstMask same_byte(1) [OF 1] mod_less_divisor
              zero_less_numeral buf_bit_def 1 simp_thms)
        also have "\<dots> = buf_bit (bit_copy_ref d db s sb n) i"
          using acc_at [of i] same_byte(1) [OF 1] rng
          unfolding buf_bit_copy_ref [OF d] bit_push_bit_iff same_byte(2) [OF 1, symmetric]
          by auto
        finally show ?thesis .
      next
        case 2
        have rng: "i < db + n \<longleftrightarrow> \<not> ?e < i mod 8"
          using same_byte(1) [OF trans [OF last(1) 2 [symmetric]]] n by linarith
        have ne: "Suc ?di \<noteq> ?di"
          by simp
        have "buf_bit (d[?di := ?v, Suc ?di := ?w]) i = bit ?w (i mod 8)"
          using di2 by (intro buf_bit_same [OF 2]) simp
        also have "\<dots> = (if i < db + n then bit (drop_bit (8 - db mod 8) acc) (i mod 8) else buf_bit d i)"
          by (simp only: bit_merge bit_LastMask rng mod_less_divisor
              zero_less_numeral buf_bit_def 2 simp_thms if_bool_eq_conj) blast
        also have "\<dots> = buf_bit (bit_copy_ref d db s sb n) i"
          using acc_at [of i] next_byte(2) [OF 2]
          unfolding buf_bit_copy_ref [OF d] bit_drop_bit_eq o_def next_byte(1) [OF 2, symmetric]
          by auto
        finally show ?thesis .
      next
        case 3
        then have "\<not> (db \<le> i \<and> i < db + n)"
          using other_byte [of i db] other_byte [of "db + n - 1" i] last(1) by linarith
        then show ?thesis
          by (simp only: buf_bit_other [OF 3(1)] buf_bit_other [OF 3(2)] buf_bit_copy_ref [OF d] if_False)
      qed
    qed simp
    finally show ?thesis .
  qed
qed

lemma buf_bit_aligned: "m < 8 \<Longrightarrow> buf_bit xs (8 * q + m) = bit (xs ! q) m"
  by (simp add: buf_bit_def)

text \<open>
  The accumulator of the long copy. With the next source byte \<open>si\<close> and the shift \<open>sc\<close>, bit
  \<open>j\<close> of the accumulator is the source bit at \<open>8 * si + j - sc\<close>, as far as that lies at or
  after the first source byte \<open>s0\<close>; bits from \<open>sc\<close> on are zero.
\<close>

definition acc_ok :: "u8 list \<Rightarrow> nat \<Rightarrow> nat \<Rightarrow> nat \<Rightarrow> u32 \<Rightarrow> bool" where
  "acc_ok s s0 si sc acc \<longleftrightarrow>
     (\<forall>j. bit acc j \<longleftrightarrow> j < sc \<and> 8 * s0 + sc \<le> 8 * si + j \<and> buf_bit s (8 * si + j - sc))"

lemma acc_ok_start:
  assumes "k < 8"
  shows "acc_ok s s0 (Suc s0) (k + 8) (push_bit k (ucast (s ! s0)))"
  unfolding acc_ok_def
proof
  fix j
  have "buf_bit s (8 * s0 + (j - k)) = bit (s ! s0) (j - k)" if "k \<le> j" "j < k + 8"
    by (rule buf_bit_aligned) (use that in linarith)
  moreover have "8 * Suc s0 + j - (k + 8) = 8 * s0 + (j - k)" if "k \<le> j"
    using that by simp
  ultimately show "bit (push_bit k (ucast (s ! s0)) :: u32) j \<longleftrightarrow>
      j < k + 8 \<and> 8 * s0 + (k + 8) \<le> 8 * Suc s0 + j \<and> buf_bit s (8 * Suc s0 + j - (k + 8))"
    using assms u8_bit_less [of "s ! s0" "j - k"]
    by (cases "k \<le> j \<and> j < k + 8") (auto simp: bit_push_bit_iff bit_ucast_iff)
qed

lemma add_disjoint_or:
  fixes x y :: "'a::len word"
  assumes "\<And>j. bit x j \<Longrightarrow> \<not> bit y j"
  shows "x + y = x OR y"
proof -
  have "x AND y = 0"
    by (rule bit_word_eqI) (use assms in \<open>auto simp: bit_and_iff\<close>)
  then show ?thesis
    by (rule disjunctive_add_eq_or)
qed

lemma acc_ok_step:
  assumes ok: "acc_ok s s0 si sc acc" and sc: "8 \<le> sc" "sc < 16" and si: "s0 \<le> si"
  shows "acc_ok s s0 (Suc si) sc (drop_bit 8 (push_bit sc (ucast (s ! si)) + acc))"
proof -
  have low: "\<not> bit acc j" if "sc \<le> j" for j
    using ok that by (simp add: acc_ok_def)
  have "push_bit sc (ucast (s ! si)) + acc = push_bit sc (ucast (s ! si)) OR acc"
    by (rule add_disjoint_or) (use low in \<open>auto simp: bit_push_bit_iff\<close>)
  then have b: "bit (drop_bit 8 (push_bit sc (ucast (s ! si)) + acc)) j \<longleftrightarrow>
      (sc \<le> j + 8 \<and> bit (s ! si) (j + 8 - sc)) \<or> bit acc (j + 8)" for j
    using sc by (auto simp: bit_drop_bit_eq bit_or_iff bit_push_bit_iff bit_ucast_iff add.commute
        dest: bit_imp_le_length)
  show ?thesis
    unfolding acc_ok_def
  proof
    fix j
    show "bit (drop_bit 8 (push_bit sc (ucast (s ! si)) + acc)) j \<longleftrightarrow>
        j < sc \<and> 8 * s0 + sc \<le> 8 * Suc si + j \<and> buf_bit s (8 * Suc si + j - sc)"
    proof (cases "sc \<le> j + 8")
      case True
      have "8 * Suc si + j - sc = 8 * si + (j + 8 - sc)"
        using True by simp
      moreover have "buf_bit s (8 * si + (j + 8 - sc)) = bit (s ! si) (j + 8 - sc)" if "j < sc"
        by (rule buf_bit_aligned) (use that True in linarith)
      ultimately show ?thesis
        using True low [of "j + 8"] si u8_bit_less [of "s ! si" "j + 8 - sc"]
        unfolding b by (cases "j < sc") auto
    next
      case False
      then have "bit acc (j + 8) \<longleftrightarrow> 8 * s0 + sc \<le> 8 * si + (j + 8) \<and> buf_bit s (8 * si + (j + 8) - sc)"
        using ok by (auto simp: acc_ok_def)
      moreover have eq: "8 * Suc si + j = 8 * si + (j + 8)"
        by simp
      ultimately show ?thesis
        using False unfolding b eq by auto
    qed
  qed
qed

lemma acc_ok_emit:
  assumes "acc_ok s (sb div 8) si sc acc" and "8 \<le> sc"
    and rel: "8 * si + db = sb + 8 * (i div 8) + sc" and i: "db \<le> i"
  shows "bit acc (i mod 8) = buf_bit s (sb + (i - db))"
proof -
  have "8 * si + i mod 8 - sc = sb + (i - db)" and "8 * (sb div 8) + sc \<le> 8 * si + i mod 8"
    using rel i mult_div_mod_eq [of 8 i] mult_div_mod_eq [of 8 sb] by linarith+
  moreover have "i mod 8 < sc"
    using assms(2) by (meson mod_less_divisor less_le_trans zero_less_numeral)
  ultimately show ?thesis
    using assms(1) unfolding acc_ok_def by auto
qed

lemma appBitsCpy_loop_correct:
  assumes "acc_ok s (sb div 8) si sc acc" and "8 \<le> sc" "sc < 16" and "sb div 8 \<le> si"
    and "8 * si + db + 8 = sb + 8 * di + sc" and "db \<le> 8 * di"
    and "di + (n - 1) \<le> length d" and "si + (n - 1) \<le> length s"
  shows "\<exists>d' acc'. appBitsCpy_loop n d di s si acc sc = Some (d', di + (n - 1), si + (n - 1), acc')
    \<and> acc_ok s (sb div 8) (si + (n - 1)) sc acc' \<and> length d' = length d
    \<and> (\<forall>i. buf_bit d' i = (if di \<le> i div 8 \<and> i div 8 < di + (n - 1)
                           then buf_bit s (sb + (i - db)) else buf_bit d i))"
  using assms
proof (induction n arbitrary: d di si acc)
  case 0
  then show ?case by (auto simp: appBitsCpy_loop.simps)
next
  case (Suc n)
  show ?case
  proof (cases "n = 0")
    case True
    with Suc.prems show ?thesis by (auto simp: appBitsCpy_loop.simps)
  next
    case False
    let ?acc = "drop_bit 8 (push_bit sc (ucast (s ! si)) + acc)"
    let ?d = "d[di := ucast ?acc]"
    have di: "di < length d" and si: "si < length s"
      using Suc.prems False by auto
    have ok: "acc_ok s (sb div 8) (Suc si) sc ?acc"
      using Suc.prems by (intro acc_ok_step) auto
    have "\<exists>d' acc'. appBitsCpy_loop n ?d (Suc di) s (Suc si) ?acc sc
        = Some (d', Suc di + (n - 1), Suc si + (n - 1), acc')
      \<and> acc_ok s (sb div 8) (Suc si + (n - 1)) sc acc' \<and> length d' = length ?d
      \<and> (\<forall>i. buf_bit d' i = (if Suc di \<le> i div 8 \<and> i div 8 < Suc di + (n - 1)
                             then buf_bit s (sb + (i - db)) else buf_bit ?d i))"
      using Suc.prems False by (intro Suc.IH ok) auto
    then obtain d' acc' where
      run: "appBitsCpy_loop n ?d (Suc di) s (Suc si) ?acc sc = Some (d', di + n, si + n, acc')" and
      inv: "acc_ok s (sb div 8) (si + n) sc acc'" "length d' = length d" and
      bits: "\<And>i. buf_bit d' i = (if Suc di \<le> i div 8 \<and> i div 8 < di + n
                 then buf_bit s (sb + (i - db)) else buf_bit ?d i)"
      using False by auto
    have here: "buf_bit ?d i = buf_bit s (sb + (i - db))" if "i div 8 = di" for i
    proof -
      have "db \<le> i"
        using that Suc.prems(6) mult_div_mod_eq [of 8 i] by linarith
      moreover have "8 * Suc si + db = sb + 8 * (i div 8) + sc"
        using that Suc.prems(5) by simp
      ultimately have "bit ?acc (i mod 8) = buf_bit s (sb + (i - db))"
        using Suc.prems(2) by (intro acc_ok_emit [OF ok]) auto
      then show ?thesis
        by (simp only: buf_bit_same [OF that di] bit_ucast_iff) auto
    qed
    have "appBitsCpy_loop (Suc n) d di s si acc sc = Some (d', di + n, si + n, acc')"
      using False di si run by (simp add: appBitsCpy_loop.simps [of "Suc n"] Let_def)
    moreover have "buf_bit d' i = (if di \<le> i div 8 \<and> i div 8 < di + n
                 then buf_bit s (sb + (i - db)) else buf_bit d i)" for i
      using bits [of i] here [of i] buf_bit_other [of i di] False by (cases "i div 8 = di") auto
    ultimately show ?thesis
      using inv by auto
  qed
qed

text \<open>
  The long copy: the two entries (destination bit index not below, below the source bit index)
  leave the same accumulator invariant; the loop then fills the whole bytes, and the epilogue
  the last partial byte.
\<close>

lemma long_tail_emit:
  assumes ok: "acc_ok s (sb div 8) sl sc acc" and sc: "8 \<le> sc" "sc < 16" and s0: "sb div 8 \<le> sl"
    and rel: "8 * sl + db + 8 = sb + 8 * dl + sc" and e: "8 * dl + e = db + n" "e < 8" and n: "8 < n"
    and i: "i div 8 = dl" "i < db + n" "db \<le> i"
  shows "bit (if (sb + n - 1) div 8 = sl then drop_bit 8 (push_bit sc (ucast (s ! sl)) + acc)
              else drop_bit 8 acc) (i mod 8) = buf_bit s (sb + (i - db))"
proof -
  obtain j where j: "i mod 8 = j" "j < 8" by simp
  have pos: "i = 8 * dl + j"
    using i(1) j mult_div_mod_eq [of 8 i] by simp
  obtain q r where qr: "sb div 8 = q" "sb = 8 * q + r"
    using mult_div_mod_eq [of 8 sb] by metis
  show ?thesis
  proof (cases "(sb + n - 1) div 8 = sl")
    case True
    have ok3: "acc_ok s (sb div 8) (Suc sl) sc (drop_bit 8 (push_bit sc (ucast (s ! sl)) + acc))"
      by (rule acc_ok_step [OF ok sc s0])
    have "8 * Suc sl + db = sb + 8 * (i div 8) + sc"
      using rel i(1) by simp
    with True show ?thesis
      using acc_ok_emit [OF ok3 sc(1) _ i(3)] by simp
  next
    case False
    obtain m where m: "n = Suc m" "sb + n - 1 = sb + m"
      using n by (cases n) auto
    have "sb + m < 8 * sl + 8"
      using rel e m(1) sc by linarith
    have "sb + m < 8 * sl"
    proof (rule ccontr)
      assume "\<not> sb + m < 8 * sl"
      with \<open>sb + m < 8 * sl + 8\<close> have "(sb + m) div 8 = sl"
        by (intro div_nat_eqI) simp_all
      with False m(2) show False by simp
    qed
    then have lt: "j + 8 < sc" and eq: "8 * sl + (j + 8) - sc = sb + (i - db)"
      and ge: "8 * (sb div 8) + sc \<le> 8 * sl + (j + 8)"
      using rel e pos i(2,3) m(1) qr by (linarith, linarith, linarith)
    have "bit (drop_bit 8 acc) j \<longleftrightarrow> bit acc (j + 8)"
      by (simp add: bit_drop_bit_eq add.commute)
    also have "\<dots> \<longleftrightarrow> buf_bit s (sb + (i - db))"
      using ok lt ge unfolding acc_ok_def eq [symmetric] by blast
    finally show ?thesis
      using False j(1) by simp
  qed
qed

lemma long_copy_finish:
  assumes n: "8 < n" and s: "sb + n \<le> 8 * length s" and d: "db + n \<le> 8 * length d"
    and ok: "acc_ok s (sb div 8) si sc acc" and sc: "8 \<le> sc" "sc < 16" and si: "sb div 8 < si"
    and rel: "8 * si + db = sb + 8 * (db div 8) + sc"
    and full: "full = (db + n) div 8 - db div 8"
  shows "do {
        x \<leftarrow> rd d (db div 8);
        Dest \<leftarrow> wr d (db div 8) (ucast ((acc AND push_bit (db mod 8) 0xFF)
                                   OR (ucast x AND NOT (push_bit (db mod 8) 0xFF))));
        (Dest, DestIndex, SrcIndex, BitAccu) \<leftarrow>
          appBitsCpy_loop full Dest (db div 8 + 1) s si acc sc;
        if push_bit ((db + n) mod 8) (0xFF :: u32) \<noteq> 0xFF then do {
          BitAccu \<leftarrow>
            (if (sb + n - 1) div 8 = SrcIndex then do {
               b \<leftarrow> rd s SrcIndex;
               Some (drop_bit 8 (push_bit sc (ucast b) + BitAccu)) }
             else Some (drop_bit 8 BitAccu));
          y \<leftarrow> rd Dest DestIndex;
          wr Dest DestIndex (ucast ((ucast y AND push_bit ((db + n) mod 8) 0xFF)
                                   OR (BitAccu AND NOT (push_bit ((db + n) mod 8) 0xFF)))) }
        else Some Dest } = Some (bit_copy_ref d db s sb n)"
proof -
  let ?d0 = "db div 8" and ?dl = "(db + n) div 8" and ?e = "(db + n) mod 8"
  let ?F = "push_bit (db mod 8) 0xFF :: u32" and ?L = "push_bit ?e 0xFF :: u32"
  let ?v = "ucast ((acc AND ?F) OR (ucast (d ! ?d0) AND NOT ?F)) :: u8"
  let ?d1 = "d[?d0 := ?v]"
  have order: "?d0 < ?dl" "?dl \<le> length d" "?e < 8" "8 * ?dl + ?e = db + n"
    using n d by (linarith, linarith, simp, simp)
  have full1: "?d0 + 1 + (full - 1) = ?dl" and fullp: "0 < full"
    using order full by linarith+
  let ?sl = "si + (full - 1)"
  have "\<And>a b f. 8 * si + db = sb + 8 * a + sc \<Longrightarrow> a + 1 + f = b \<Longrightarrow> 8 * (si + f) + db + 8 = sb + 8 * b + sc"
    by auto
  note rel' = this [OF rel full1]
  have "\<And>x b e. 8 * x + db + 8 = sb + 8 * b + sc \<Longrightarrow> 8 * b + e = db + n \<Longrightarrow> x \<le> length s"
    using s sc by linarith
  note sl = this [OF rel' order(4)]
  obtain d2 acc2 where
    run: "appBitsCpy_loop full ?d1 (?d0 + 1) s si acc sc = Some (d2, ?dl, ?sl, acc2)" and
    ok2: "acc_ok s (sb div 8) ?sl sc acc2" and len2: "length d2 = length d" and
    bits2: "\<And>i. buf_bit d2 i = (if ?d0 + 1 \<le> i div 8 \<and> i div 8 < ?dl
                 then buf_bit s (sb + (i - db)) else buf_bit ?d1 i)"
  proof -
    have "\<exists>d2 acc2. appBitsCpy_loop full ?d1 (?d0 + 1) s si acc sc
        = Some (d2, ?d0 + 1 + (full - 1), si + (full - 1), acc2)
      \<and> acc_ok s (sb div 8) (si + (full - 1)) sc acc2 \<and> length d2 = length ?d1
      \<and> (\<forall>i. buf_bit d2 i = (if ?d0 + 1 \<le> i div 8 \<and> i div 8 < ?d0 + 1 + (full - 1)
                            then buf_bit s (sb + (i - db)) else buf_bit ?d1 i))"
    proof (rule appBitsCpy_loop_correct [OF ok sc])
      show "sb div 8 \<le> si" using si by simp
      show "8 * si + db + 8 = sb + 8 * (?d0 + 1) + sc" using rel by simp
      show "db \<le> 8 * (?d0 + 1)" by presburger
      show "?d0 + 1 + (full - 1) \<le> length ?d1" using full1 order by simp
      show "si + (full - 1) \<le> length s" by (rule sl)
    qed
    then show thesis
      using that full1 by auto
  qed
  have d0: "?d0 < length d" and ne: "?d0 \<noteq> ?dl"
    using order by auto
  have first: "buf_bit ?d1 i = (if db \<le> i then buf_bit s (sb + (i - db)) else buf_bit d i)"
    if i: "i div 8 = ?d0" for i
  proof -
    have "buf_bit ?d1 i = bit ?v (i mod 8)"
      by (rule buf_bit_same [OF i d0])
    also have "\<dots> = (if db \<le> i then bit acc (i mod 8) else buf_bit d i)"
      by (simp only: bit_merge bit_FirstMask same_byte(1) [OF i] mod_less_divisor
          zero_less_numeral buf_bit_def i simp_thms)
    also have "\<dots> = (if db \<le> i then buf_bit s (sb + (i - db)) else buf_bit d i)"
      using acc_ok_emit [OF ok sc(1), of db i] rel i by simp
    finally show ?thesis .
  qed
  have d2_bit: "buf_bit d2 i = (if db \<le> i \<and> i < 8 * ?dl then buf_bit s (sb + (i - db)) else buf_bit d i)"
    for i
  proof -
    consider "i div 8 < ?d0" | "i div 8 = ?d0" | "?d0 < i div 8" "i div 8 < ?dl" | "?dl \<le> i div 8"
      by linarith
    then show ?thesis
    proof cases
      case 1
      then have nb: "\<not> db \<le> i" and ne: "i div 8 \<noteq> ?d0"
        using other_byte [of i db] by auto
      show ?thesis
        using 1 nb by (simp only: bits2 buf_bit_other [OF ne]) auto
    next
      case 2
      then have "i < 8 * ?dl"
        using 2 order(1) by (metis div8_less_iff)
      with 2 show ?thesis
        by (simp only: bits2 first) auto
    next
      case 3
      then have "db \<le> i" "i < 8 * ?dl"
        using other_byte [of db i] by (auto simp: div8_less_iff)
      with 3 show ?thesis
        by (simp only: bits2) auto
    next
      case 4
      then have nb: "\<not> i < 8 * ?dl" and ne: "i div 8 \<noteq> ?d0"
        using order(1) by (metis div8_less_iff not_le, simp)
      show ?thesis
        using 4 nb by (simp only: bits2 buf_bit_other [OF ne]) auto
    qed
  qed
  show ?thesis
  proof (cases "?e = 0")
    case True
    then have "bit_copy_ref d db s sb n = d2"
      using order d2_bit by (intro buffer_eqI) (auto simp: buf_bit_copy_ref [OF d] len2)
    then show ?thesis
      using d0 run True by (simp add: rd_in wr_in)
  next
    case False
    then have dl: "?dl < length d"
      using order d by linarith
    have mask: "?L \<noteq> 0xFF"
      using bit_FirstMask [of 0 ?e] bit_0xFF [of 0] False by fastforce
    define acc3 where "acc3 = (if (sb + n - 1) div 8 = ?sl
        then drop_bit 8 (push_bit sc (ucast (s ! ?sl)) + acc2) else drop_bit 8 acc2)"
    have in_s: "?sl < length s" if "(sb + n - 1) div 8 = ?sl"
      using that s n by linarith
    have dbi: "db \<le> i" if "i div 8 = ?dl" for i
      using that other_byte [of db i] order(1) by auto
    have emit: "bit acc3 (i mod 8) = buf_bit s (sb + (i - db))"
      if i: "i div 8 = ?dl" "i < db + n" for i
      unfolding acc3_def
      using long_tail_emit [OF ok2 sc _ rel' order(4,3) n i dbi [OF i(1)]] si by simp
    let ?w = "ucast ((ucast (d2 ! ?dl) AND ?L) OR (acc3 AND NOT ?L)) :: u8"
    have "d2[?dl := ?w] = bit_copy_ref d db s sb n"
    proof (rule buffer_eqI)
      fix i
      show "buf_bit (d2[?dl := ?w]) i = buf_bit (bit_copy_ref d db s sb n) i"
      proof (cases "i div 8 = ?dl")
        case True
        have pos: "i = 8 * ?dl + i mod 8"
          using True mult_div_mod_eq [of 8 i] by simp
        then have rng: "db \<le> i" "i < db + n \<longleftrightarrow> \<not> ?e \<le> i mod 8" "\<not> i < 8 * ?dl"
          using order by linarith+
        have "buf_bit (d2[?dl := ?w]) i = bit ?w (i mod 8)"
          using dl len2 by (intro buf_bit_same [OF True]) simp
        also have "\<dots> = (if i < db + n then bit acc3 (i mod 8) else buf_bit d2 i)"
          by (simp only: bit_merge bit_FirstMask rng mod_less_divisor zero_less_numeral
              buf_bit_def True simp_thms if_bool_eq_conj) blast
        also have "\<dots> = buf_bit (bit_copy_ref d db s sb n) i"
          using emit [OF True] rng d2_bit [of i] by (auto simp: buf_bit_copy_ref [OF d])
        finally show ?thesis .
      next
        case False
        then have "i < 8 * ?dl \<longleftrightarrow> i < db + n"
          using order by linarith
        then show ?thesis
          by (simp only: buf_bit_other [OF False] d2_bit buf_bit_copy_ref [OF d])
      qed
    qed (simp add: len2)
    then show ?thesis
      using d0 run mask dl len2 in_s by (cases "(sb + n - 1) div 8 = ?sl") (simp_all add: acc3_def)
  qed
qed

lemma loops_eq:
  fixes n db sb :: nat
  assumes "8 < n"
  shows "sb mod 8 \<le> db mod 8 \<Longrightarrow>
           nat (max (int ((db + n) div 8) - int (db div 8)) (int ((sb + n) div 8) - int (sb div 8)))
           = (db + n) div 8 - db div 8"
    and "db mod 8 < sb mod 8 \<Longrightarrow>
           nat (max (int ((db + n) div 8) - int (db div 8)) (int ((sb + n) div 8) - int (sb div 8) - 1))
           = (db + n) div 8 - db div 8"
proof -
  define a b where "a = db div 8" and "b = db mod 8"
  define p q where "p = sb div 8" and "q = sb mod 8"
  define x y where "x = (db + n) div 8" and "y = (db + n) mod 8"
  define u v where "u = (sb + n) div 8" and "v = (sb + n) mod 8"
  have eqs: "8 * x + y = 8 * a + b + n" "8 * u + v = 8 * p + q + n" "y < 8" "v < 8" "b < 8" "q < 8"
    by (simp_all add: a_def b_def p_def q_def x_def y_def u_def v_def)
  have le: "a \<le> x"
    by (simp add: a_def x_def div_le_mono)
  show "sb mod 8 \<le> db mod 8 \<Longrightarrow> nat (max (int ((db + n) div 8) - int (db div 8))
      (int ((sb + n) div 8) - int (sb div 8))) = (db + n) div 8 - db div 8"
    unfolding a_def [symmetric] b_def [symmetric] p_def [symmetric] q_def [symmetric]
      x_def [symmetric] u_def [symmetric]
    using eqs le by linarith
  show "db mod 8 < sb mod 8 \<Longrightarrow> nat (max (int ((db + n) div 8) - int (db div 8))
      (int ((sb + n) div 8) - int (sb div 8) - 1)) = (db + n) div 8 - db div 8"
    unfolding a_def [symmetric] b_def [symmetric] p_def [symmetric] q_def [symmetric]
      x_def [symmetric] u_def [symmetric]
    using eqs le by linarith
qed

lemma align_rel:
  fixes sb db p q a b :: nat
  assumes "sb = 8 * p + q" and "db = 8 * a + b"
  shows "q \<le> b \<Longrightarrow> 8 * Suc p + db = sb + 8 * a + (b - q + 8)"
    and "q < 8 \<Longrightarrow> 8 * Suc (Suc p) + db = sb + 8 * a + (8 + b - q + 8)"
  by (simp_all add: assms)

lemma appBitsCpy_long_correct:
  assumes n: "8 < n" and s: "sb + n \<le> 8 * length s" and d: "db + n \<le> 8 * length d"
  shows "appBitsCpy_long d db s sb n = Some (bit_copy_ref d db s sb n)"
proof -
  let ?s0 = "sb div 8"
  have sd: "sb = 8 * ?s0 + sb mod 8" "db = 8 * (db div 8) + db mod 8"
    by simp_all
  have s1: "?s0 < length s" "Suc ?s0 < length s"
    using n s by linarith+
  show ?thesis
  proof (cases "sb mod 8 \<le> db mod 8")
    case True
    define k where "k = db mod 8 - sb mod 8"
    have k: "int (db mod 8) - int (sb mod 8) = int k" "k < 8"
      using True by (auto simp: k_def less_imp_diff_less)
    have ok: "acc_ok s ?s0 (Suc ?s0) (k + 8) (push_bit k (ucast (s ! ?s0)))"
      by (rule acc_ok_start [OF k(2)])
    have rel: "8 * Suc ?s0 + db = sb + 8 * (db div 8) + (k + 8)"
      unfolding k_def by (rule align_rel(1) [OF sd True])
    have nk: "nat (int k + 8) = k + 8" "nat (int k) = k"
      by (simp_all add: nat_int_add)
    note fin = long_copy_finish [OF n s d ok _ _ _ rel refl]
    show ?thesis
      using fin k s1
      by (simp add: appBitsCpy_long_def Let_def k(1) nk loops_eq(1) [OF n True] cong: if_cong)
  next
    case False
    define k where "k = 8 + db mod 8 - sb mod 8"
    have lt: "db mod 8 < sb mod 8"
      using False by simp
    have "sb mod 8 < 8" by simp
    with lt have k: "int (db mod 8) - int (sb mod 8) + 8 = int k" "k < 8"
      by (auto simp: k_def)
    have neg: "\<not> 0 \<le> int (db mod 8) - int (sb mod 8)"
      using lt by linarith
    have nk: "nat (int k + 8) = k + 8" "nat (int k) = k"
      "nat (16 + (int (db mod 8) - int (sb mod 8))) = k + 8"
      using k(1) by (simp_all add: nat_int_add)
    have loop: "nat (int a - int b) = a - b" for a b
      by simp
    have ok: "acc_ok s ?s0 (Suc (Suc ?s0)) (k + 8)
        (drop_bit 8 (push_bit (k + 8) (ucast (s ! Suc ?s0)) + push_bit k (ucast (s ! ?s0))))"
      using k(2) by (intro acc_ok_step acc_ok_start) auto
    have rel: "8 * Suc (Suc ?s0) + db = sb + 8 * (db div 8) + (k + 8)"
      unfolding k_def by (rule align_rel(2) [OF sd \<open>sb mod 8 < 8\<close>])
    note fin = long_copy_finish [OF n s d ok _ _ _ rel refl]
    show ?thesis
      using fin k s1 neg
      by (simp add: appBitsCpy_long_def Let_def k(1) nk loop loops_eq(2) [OF n lt] cong: if_cong)
  qed
qed

lemma appBitsCpy_ok:
  assumes "db + n \<le> 8 * length d" and "sb + n \<le> 8 * length s"
  shows "appBitsCpy d db s sb n = Some (bit_copy_ref d db s sb n)"
  using assms appBitsCpy_small_correct [of n sb s db d] appBitsCpy_long_correct [of n sb s db d]
  by (cases "n = 0") (auto simp: appBitsCpy_def)

text \<open>
  C8. The shift-and-accumulate bit copy behind every read and write of the engine equals the copy
  of one bit at a time, for every pair of alignments and every length, and touches no byte outside
  the two buffers.
\<close>

theorem appBitsCpy_correct:
  assumes "db + n \<le> 8 * length d" and "sb + n \<le> 8 * length s"
  shows "appBitsCpy d db s sb n = Some (bit_copy_ref d db s sb n)"
  using assms by (rule appBitsCpy_ok)

theorem appBitsCpy_correct_witness:
  "appBitsCpy [0, 0, 0xFF] 5 [0xA5, 0x3C, 0x7E] 3 13 = Some (bit_copy_ref [0, 0, 0xFF] 5 [0xA5, 0x3C, 0x7E] 3 13)"
  by (rule appBitsCpy_correct) simp_all

end
