(* ===== verification/BitCtl.thy ===== *)
theory BitCtl
  imports BitBuf
begin

text \<open>
  Core, \<open>BitController\<close> and \<open>ByteSwap.h\<close>: the flags an archive keeps and the stream operators
  built on its virtual \<open>Serialize\<close>. The virtual call is an argument of the operators; it takes the
  archive, the memory of the value and the number of bytes, and returns the archive and the memory
  after the call. \<open>BitWriterM\<close> and \<open>BitReaderM\<close> supply it.
\<close>

record BitController =
  ArIsSaving :: bool
  ArIsPersistent :: bool
  ArIsNetArchive :: bool
  ArIsLoading :: bool
  ArForceByteSwapping :: bool
  ArIsError :: bool

definition BitController_ctor :: BitController where
  "BitController_ctor = \<lparr>ArIsSaving = False, ArIsPersistent = False, ArIsNetArchive = False,
     ArIsLoading = False, ArForceByteSwapping = False, ArIsError = False\<rparr>"

definition BitController_Reset :: "'a BitController_scheme \<Rightarrow> 'a BitController_scheme" where
  "BitController_Reset Ar = Ar\<lparr>ArIsSaving := False, ArIsPersistent := False,
     ArIsNetArchive := False, ArIsLoading := False\<rparr>"

text \<open>No archive of the program has a proxy, so \<open>ForEachState\<close> visits the archive itself.\<close>

definition SetError :: "'a BitController_scheme \<Rightarrow> 'a BitController_scheme" where
  "SetError Ar = Ar\<lparr>ArIsError := True\<rparr>"

definition ClearError :: "'a BitController_scheme \<Rightarrow> 'a BitController_scheme" where
  "ClearError Ar = Ar\<lparr>ArIsError := False\<rparr>"

section \<open>Byte order\<close>

definition ByteSwap16 :: "u16 \<Rightarrow> u16" where
  "ByteSwap16 Value = (drop_bit 8 Value AND 0xFF) OR push_bit 8 (Value AND 0xFF)"

definition ByteSwap32 :: "u32 \<Rightarrow> u32" where
  "ByteSwap32 Value = (drop_bit 24 Value AND 0xFF) OR push_bit 8 (drop_bit 16 Value AND 0xFF)
     OR push_bit 16 (drop_bit 8 Value AND 0xFF) OR push_bit 24 (Value AND 0xFF)"

fun ByteSwap_loop :: "nat \<Rightarrow> nat \<Rightarrow> u8 list \<Rightarrow> nat \<Rightarrow> u8 list option" where
  "ByteSwap_loop i 0 Bytes Length = Some Bytes"
| "ByteSwap_loop i (Suc n) Bytes Length = do {
     x \<leftarrow> rd Bytes i;
     y \<leftarrow> rd Bytes (Length - i - 1);
     Bytes \<leftarrow> wr Bytes i y;
     Bytes \<leftarrow> wr Bytes (Length - i - 1) x;
     ByteSwap_loop (Suc i) n Bytes Length }"

definition ByteSwap :: "u8 list \<Rightarrow> nat \<Rightarrow> u8 list option" where
  "ByteSwap Data Length = ByteSwap_loop 0 (Length div 2) Data Length"

section \<open>Stream operators\<close>

type_synonym 'ar serialize = "'ar \<Rightarrow> u8 list \<Rightarrow> nat \<Rightarrow> ('ar \<times> u8 list) option"

definition SerializeByteOrderSwapped ::
    "'a BitController_scheme serialize \<Rightarrow> 'a BitController_scheme serialize" where
  "SerializeByteOrderSwapped Serialize Ar V Length =
     (if ArIsLoading Ar then do {
        (Ar, V) \<leftarrow> Serialize Ar V Length;
        V \<leftarrow> ByteSwap V Length;
        Some (Ar, V) }
      else do {
        V \<leftarrow> ByteSwap V Length;
        (Ar, V) \<leftarrow> Serialize Ar V Length;
        V \<leftarrow> ByteSwap V Length;
        Some (Ar, V) })"

definition ByteOrderSerialize ::
    "'a BitController_scheme serialize \<Rightarrow> 'a BitController_scheme serialize" where
  "ByteOrderSerialize Serialize Ar V Length =
     (if \<not> ArForceByteSwapping Ar then Serialize Ar V Length
      else SerializeByteOrderSwapped Serialize Ar V Length)"

definition stream_u8 :: "'a BitController_scheme serialize \<Rightarrow> 'a BitController_scheme \<Rightarrow> u8
    \<Rightarrow> ('a BitController_scheme \<times> u8) option" where
  "stream_u8 Serialize Ar Value = do {
     (Ar, V) \<leftarrow> Serialize Ar (le_bytes 1 Value) 1;
     Some (Ar, of_le_bytes V) }"

definition stream_u16 :: "'a BitController_scheme serialize \<Rightarrow> 'a BitController_scheme \<Rightarrow> u16
    \<Rightarrow> ('a BitController_scheme \<times> u16) option" where
  "stream_u16 Serialize Ar Value =
     (if \<not> ArForceByteSwapping Ar then do {
        (Ar, V) \<leftarrow> Serialize Ar (le_bytes 2 Value) 2;
        Some (Ar, of_le_bytes V) }
      else if ArIsLoading Ar then do {
        (Ar, V) \<leftarrow> Serialize Ar (le_bytes 2 Value) 2;
        Some (Ar, ByteSwap16 (of_le_bytes V)) }
      else do {
        (Ar, V) \<leftarrow> Serialize Ar (le_bytes 2 (ByteSwap16 Value)) 2;
        Some (Ar, Value) })"

definition stream_u32 :: "'a BitController_scheme serialize \<Rightarrow> 'a BitController_scheme \<Rightarrow> u32
    \<Rightarrow> ('a BitController_scheme \<times> u32) option" where
  "stream_u32 Serialize Ar Value =
     (if \<not> ArForceByteSwapping Ar then do {
        (Ar, V) \<leftarrow> Serialize Ar (le_bytes 4 Value) 4;
        Some (Ar, of_le_bytes V) }
      else if ArIsLoading Ar then do {
        (Ar, V) \<leftarrow> Serialize Ar (le_bytes 4 Value) 4;
        Some (Ar, ByteSwap32 (of_le_bytes V)) }
      else do {
        (Ar, V) \<leftarrow> Serialize Ar (le_bytes 4 (ByteSwap32 Value)) 4;
        Some (Ar, Value) })"

definition SerializeBool :: "'a BitController_scheme serialize \<Rightarrow> 'a BitController_scheme \<Rightarrow> bool
    \<Rightarrow> ('a BitController_scheme \<times> bool) option" where
  "SerializeBool Serialize Ar D = do {
     (Ar, V) \<leftarrow> Serialize Ar (le_bytes 4 (if D then 1 else 0 :: u32)) 4;
     let OldUBoolValue = (of_le_bytes V :: u32);
     let Ar = (if 1 < OldUBoolValue then SetError Ar else Ar);
     Some (Ar, OldUBoolValue \<noteq> 0) }"

section \<open>The byte order operations\<close>

lemma bit_ByteSwap16:
  "bit (ByteSwap16 x) n \<longleftrightarrow> (n < 8 \<and> bit x (n + 8)) \<or> (8 \<le> n \<and> n < 16 \<and> bit x (n - 8))"
proof -
  have m: "(0xFF :: u16) = mask 8"
    by (simp add: mask_eq_exp_minus_1)
  show ?thesis
    unfolding ByteSwap16_def m by (auto simp: bit_simps add.commute)
qed

lemma bit_ByteSwap32:
  "bit (ByteSwap32 x) n \<longleftrightarrow> (n < 8 \<and> bit x (n + 24)) \<or> (8 \<le> n \<and> n < 16 \<and> bit x (n - 8 + 16))
     \<or> (16 \<le> n \<and> n < 24 \<and> bit x (n - 16 + 8)) \<or> (24 \<le> n \<and> n < 32 \<and> bit x (n - 24))"
proof -
  have m: "(0xFF :: u32) = mask 8"
    by (simp add: mask_eq_exp_minus_1)
  have "n < 8 \<or> (\<exists>k<8. n = k + 8 \<or> n = k + 16 \<or> n = k + 24) \<or> 32 \<le> n"
    by presburger
  then show ?thesis
    unfolding ByteSwap32_def m
    by (elim disjE exE conjE)
      (simp_all add: bit_or_iff bit_push_bit_iff bit_and_iff bit_mask_iff bit_drop_bit_eq add.commute)
qed

lemma ByteSwap16_ByteSwap16: "ByteSwap16 (ByteSwap16 x) = x"
proof (rule bit_word_eqI)
  fix n
  assume n: "n < LENGTH(16)"
  then have "n < 16"
    by simp
  then have "n < 8 \<or> (\<exists>m<8. n = m + 8)"
    by presburger
  then show "bit (ByteSwap16 (ByteSwap16 x)) n = bit x n"
    by (elim disjE exE conjE) (simp_all add: bit_ByteSwap16)
qed

lemma ByteSwap32_ByteSwap32: "ByteSwap32 (ByteSwap32 x) = x"
proof (rule bit_word_eqI)
  fix n
  assume n: "n < LENGTH(32)"
  then have "n < 32"
    by simp
  then have "n < 8 \<or> (\<exists>m<8. n = m + 8 \<or> n = m + 16 \<or> n = m + 24)"
    by presburger
  then show "bit (ByteSwap32 (ByteSwap32 x)) n = bit x n"
    by (elim disjE exE conjE) (simp_all add: bit_ByteSwap32)
qed

lemma ByteSwap_loop_rev:
  "length Bytes = Length \<Longrightarrow> i + n \<le> Length div 2 \<Longrightarrow>
   \<exists>Bytes'. ByteSwap_loop i n Bytes Length = Some Bytes' \<and> length Bytes' = Length \<and>
     (\<forall>j<Length. Bytes' ! j = (if (i \<le> j \<and> j < i + n) \<or> (Length - i - n \<le> j \<and> j < Length - i)
                              then Bytes ! (Length - 1 - j) else Bytes ! j))"
proof (induction i n Bytes Length rule: ByteSwap_loop.induct)
  case (1 i Bytes Length)
  then show ?case by auto
next
  case (2 i n Bytes Length)
  let ?k = "Length - i - 1"
  let ?B = "Bytes[i := Bytes ! ?k, ?k := Bytes ! i]"
  have i: "i < Length" "?k < Length" "i < ?k"
    using 2(3) by linarith+
  have "\<exists>Bytes'. ByteSwap_loop (Suc i) n ?B Length = Some Bytes' \<and> length Bytes' = Length \<and>
     (\<forall>j<Length. Bytes' ! j = (if (Suc i \<le> j \<and> j < Suc i + n) \<or> (Length - Suc i - n \<le> j \<and> j < Length - Suc i)
                              then ?B ! (Length - 1 - j) else ?B ! j))"
    using 2 i by (intro "2.IH") auto
  then obtain B' where B': "ByteSwap_loop (Suc i) n ?B Length = Some B'" "length B' = Length"
    "\<And>j. j < Length \<Longrightarrow> B' ! j = (if (Suc i \<le> j \<and> j < Suc i + n) \<or> (Length - Suc i - n \<le> j \<and> j < Length - Suc i)
                              then ?B ! (Length - 1 - j) else ?B ! j)"
    by auto
  have run: "ByteSwap_loop i (Suc n) Bytes Length = Some B'"
    using B'(1) i 2(2) by simp
  have "B' ! j = (if (i \<le> j \<and> j < i + Suc n) \<or> (Length - i - Suc n \<le> j \<and> j < Length - i)
                  then Bytes ! (Length - 1 - j) else Bytes ! j)" if j: "j < Length" for j
  proof -
    consider "j = i" | "j = ?k" | "j \<noteq> i" "j \<noteq> ?k"
      by blast
    then show ?thesis
    proof cases
      case 1
      then show ?thesis
        using B'(3) [OF j] i 2(2,3) by (auto simp: nth_list_update)
    next
      case 2
      then show ?thesis
        using B'(3) [OF j] i "2.prems" by (auto simp: nth_list_update)
    next
      case 3
      have "Length - 1 - j \<noteq> i" "Length - 1 - j \<noteq> ?k"
        using 3 j i by linarith+
      moreover have "(Suc i \<le> j \<and> j < Suc i + n) \<or> (Length - Suc i - n \<le> j \<and> j < Length - Suc i)
          \<longleftrightarrow> (i \<le> j \<and> j < i + Suc n) \<or> (Length - i - Suc n \<le> j \<and> j < Length - i)"
        using 3 j i by auto
      ultimately show ?thesis
        using B'(3) [OF j] 3 by auto
    qed
  qed
  then show ?case
    using run B'(2) by auto
qed

text \<open>Swapping the bytes of a value of \<open>Length\<close> bytes reverses them.\<close>

lemma ByteSwap_rev:
  assumes "length V = Length"
  shows "ByteSwap V Length = Some (rev V)"
proof -
  obtain V' where V': "ByteSwap V Length = Some V'" "length V' = Length"
    "\<forall>j<Length. V' ! j = (if (0 \<le> j \<and> j < 0 + Length div 2) \<or> (Length - 0 - Length div 2 \<le> j \<and> j < Length - 0)
                              then V ! (Length - 1 - j) else V ! j)"
    using ByteSwap_loop_rev [OF assms, of 0 "Length div 2"] by (auto simp: ByteSwap_def)
  have "V' = rev V"
  proof (rule nth_equalityI)
    fix j
    assume "j < length V'"
    moreover have "j < Length div 2 \<or> Length - Length div 2 \<le> j \<or> Length - 1 - j = j"
      by presburger
    ultimately show "V' ! j = rev V ! j"
      using V' assms by (auto simp: rev_nth)
  qed (use V' assms in simp)
  with V' show ?thesis by simp
qed

end
