(* ===== verification/BitWriterM.thy ===== *)
theory BitWriterM
  imports BitCtl
begin

text \<open>
  Core, \<open>BitWriter\<close>: a buffer of \<open>Max\<close> bits written from the front. The operations follow
  \<open>BitWriter.cpp\<close>; \<open>AllowAppend\<close> is their only guard, and an append that does not fit changes
  nothing. The invariant \<open>BitWriter_wf\<close> says that the bits not yet written are zero, on which the
  operations that set bits by \<open>|=\<close> and \<open>+=\<close> depend. \<open>wbits\<close>, the string of the bits written, is the
  abstract contents: every operation appends to it.
\<close>

record BitWriter = BitController +
  WBuffer :: "u8 list"
  WPos :: nat
  WMax :: nat
  bAllowResize :: bool

definition BitWriter_ctor :: "nat \<Rightarrow> bool \<Rightarrow> BitWriter" where
  "BitWriter_ctor InMaxBits InAllowResize =
     \<lparr>ArIsSaving = True, ArIsPersistent = True, ArIsNetArchive = True, ArIsLoading = False,
      ArForceByteSwapping = False, ArIsError = False,
      WBuffer = replicate ((InMaxBits + 7) div 8) 0, WPos = 0, WMax = InMaxBits,
      bAllowResize = InAllowResize\<rparr>"

definition BitWriter_Reset :: "BitWriter \<Rightarrow> BitWriter" where
  "BitWriter_Reset w = (BitController_Reset w)\<lparr>WPos := 0, WBuffer := replicate (length (WBuffer w)) 0,
     ArIsSaving := True, ArIsPersistent := True, ArIsNetArchive := True\<rparr>"

definition ProtobufSerialize :: "BitWriter \<Rightarrow> nat \<Rightarrow> BitWriter" where
  "ProtobufSerialize w NewPos = (if length (WBuffer w) = NewPos then w\<lparr>WPos := NewPos\<rparr> else w)"

definition AllowAppend :: "BitWriter \<Rightarrow> nat \<Rightarrow> bool" where
  "AllowAppend w LengthBits =
     (if WMax w < WPos w + LengthBits then (if bAllowResize w then False else False) else True)"

definition GetNumBytes :: "BitWriter \<Rightarrow> nat" where
  "GetNumBytes w = (WPos w + 7) div 8"

definition BitWriter_SerializeBits :: "BitWriter \<Rightarrow> u8 list \<Rightarrow> nat \<Rightarrow> BitWriter option" where
  "BitWriter_SerializeBits w Src LengthBits =
     (if AllowAppend w LengthBits then
        if LengthBits = 1 then do {
          s \<leftarrow> rd Src 0;
          w \<leftarrow> (if s AND 0x01 \<noteq> 0 then do {
                  x \<leftarrow> rd (WBuffer w) (WPos w div 8);
                  B \<leftarrow> wr (WBuffer w) (WPos w div 8) (x OR GShift ! (WPos w mod 8));
                  Some (w\<lparr>WBuffer := B\<rparr>) }
                else Some w);
          Some (w\<lparr>WPos := WPos w + 1\<rparr>) }
        else do {
          B \<leftarrow> appBitsCpy (WBuffer w) (WPos w) Src 0 LengthBits;
          Some (w\<lparr>WBuffer := B, WPos := WPos w + LengthBits\<rparr>) }
      else Some w)"

definition BitWriter_SerializeBitsWithOffset ::
    "BitWriter \<Rightarrow> u8 list \<Rightarrow> nat \<Rightarrow> nat \<Rightarrow> BitWriter option" where
  "BitWriter_SerializeBitsWithOffset w Src SourceBit LengthBits =
     (if AllowAppend w LengthBits then do {
        B \<leftarrow> appBitsCpy (WBuffer w) (WPos w) Src SourceBit LengthBits;
        Some (w\<lparr>WBuffer := B, WPos := WPos w + LengthBits\<rparr>) }
      else Some w)"

text \<open>As a virtual call: the memory of the value is not changed by a writer.\<close>

definition BitWriter_Serialize :: "BitWriter serialize" where
  "BitWriter_Serialize w Src LengthBytes =
     (let LengthBits = LengthBytes * 8 in
      if AllowAppend w LengthBits then do {
        B \<leftarrow> appBitsCpy (WBuffer w) (WPos w) Src 0 LengthBits;
        Some (w\<lparr>WBuffer := B, WPos := WPos w + LengthBits\<rparr>, Src) }
      else Some (w, Src))"

text \<open>
  \<open>SerializeString\<close> copies from the address of the \<open>std::string\<close> object, not from its characters:
  \<open>Object\<close> is the memory of the object, in which the characters are behind a pointer.
\<close>

definition BitWriter_SerializeString :: "BitWriter \<Rightarrow> u8 list \<Rightarrow> nat \<Rightarrow> BitWriter option" where
  "BitWriter_SerializeString w Object LengthBytes = map_option fst (BitWriter_Serialize w Object LengthBytes)"

definition WriteBit :: "BitWriter \<Rightarrow> u8 \<Rightarrow> BitWriter option" where
  "WriteBit w In =
     (if AllowAppend w 1 then do {
        w \<leftarrow> (if In \<noteq> 0 then do {
                x \<leftarrow> rd (WBuffer w) (WPos w div 8);
                B \<leftarrow> wr (WBuffer w) (WPos w div 8) (x OR GShift ! (WPos w mod 8));
                Some (w\<lparr>WBuffer := B\<rparr>) }
              else Some w);
        Some (w\<lparr>WPos := WPos w + 1\<rparr>) }
      else Some w)"

section \<open>The invariant and the contents\<close>

definition BitWriter_wf :: "BitWriter \<Rightarrow> bool" where
  "BitWriter_wf w \<longleftrightarrow> length (WBuffer w) = (WMax w + 7) div 8 \<and> WPos w \<le> WMax w \<and>
     (\<forall>i. WPos w \<le> i \<longrightarrow> i < 8 * length (WBuffer w) \<longrightarrow> \<not> buf_bit (WBuffer w) i)"

definition wbits :: "BitWriter \<Rightarrow> bool list" where
  "wbits w = bitslice (WBuffer w) 0 (WPos w)"

text \<open>\<open>appended w bs w'\<close>: \<open>w'\<close> is \<open>w\<close> with the bits \<open>bs\<close> written at its end.\<close>

definition appended :: "BitWriter \<Rightarrow> bool list \<Rightarrow> BitWriter \<Rightarrow> bool" where
  "appended w bs w' \<longleftrightarrow> BitWriter_wf w' \<and> wbits w' = wbits w @ bs \<and>
     w' = w\<lparr>WBuffer := WBuffer w', WPos := WPos w'\<rparr>"

lemma length_wbits [simp]: "length (wbits w) = WPos w"
  by (simp add: wbits_def)

lemma AllowAppend_iff: "AllowAppend w n \<longleftrightarrow> WPos w + n \<le> WMax w"
  by (auto simp: AllowAppend_def)

lemma appended_refl: "BitWriter_wf w \<Longrightarrow> appended w [] w"
  by (simp add: appended_def)

lemma appended_trans: "appended w bs w' \<Longrightarrow> appended w' cs w'' \<Longrightarrow> appended w (bs @ cs) w''"
  unfolding appended_def by (metis (no_types, lifting) BitWriter.update_convs(1,2) BitWriter.surjective append_assoc)

lemma appendedD:
  assumes "appended w bs w'"
  shows "BitWriter_wf w'" and "wbits w' = wbits w @ bs" and "WMax w' = WMax w"
    and "WPos w' = WPos w + length bs" and "ArForceByteSwapping w' = ArForceByteSwapping w"
    and "ArIsLoading w' = ArIsLoading w" and "bAllowResize w' = bAllowResize w"
proof -
  from assms have a: "BitWriter_wf w'" "wbits w' = wbits w @ bs"
    "w' = w\<lparr>WBuffer := WBuffer w', WPos := WPos w'\<rparr>"
    by (auto simp: appended_def)
  show "BitWriter_wf w'" "wbits w' = wbits w @ bs"
    by (fact a)+
  show "WPos w' = WPos w + length bs"
    using arg_cong [OF a(2), of length] by simp
  show "WMax w' = WMax w" "ArForceByteSwapping w' = ArForceByteSwapping w"
    "ArIsLoading w' = ArIsLoading w" "bAllowResize w' = bAllowResize w"
    by (subst a(3), simp)+
qed

lemma BitWriter_wfD:
  "BitWriter_wf w \<Longrightarrow> WMax w \<le> 8 * length (WBuffer w)"
  "BitWriter_wf w \<Longrightarrow> WPos w \<le> WMax w"
  "BitWriter_wf w \<Longrightarrow> WPos w \<le> i \<Longrightarrow> i < 8 * length (WBuffer w) \<Longrightarrow> \<not> buf_bit (WBuffer w) i"
  by (auto simp: BitWriter_wf_def)

lemma BitWriter_ctor_wf [wf_intros]: "BitWriter_wf (BitWriter_ctor n r)"
  by (auto simp: BitWriter_wf_def BitWriter_ctor_def)

lemma wbits_ctor [simp]: "wbits (BitWriter_ctor n r) = []"
  by (simp add: wbits_def BitWriter_ctor_def)

lemma ctor_fields [simp]:
  "WMax (BitWriter_ctor n r) = n" "WPos (BitWriter_ctor n r) = 0"
  "ArForceByteSwapping (BitWriter_ctor n r) = False"
  by (simp_all add: BitWriter_ctor_def)

lemma BitWriter_Reset_wf [wf_intros]: "BitWriter_wf w \<Longrightarrow> BitWriter_wf (BitWriter_Reset w)"
  by (auto simp: BitWriter_wf_def BitWriter_Reset_def BitController_Reset_def)

lemma wbits_Reset [simp]: "wbits (BitWriter_Reset w) = []"
  by (simp add: wbits_def BitWriter_Reset_def)

text \<open>The step all appends share.\<close>

lemma appendedI:
  assumes wf: "BitWriter_wf w" and room: "WPos w + length bs \<le> WMax w"
    and len: "length B = length (WBuffer w)"
    and bits: "\<And>i. i < 8 * length (WBuffer w) \<Longrightarrow> buf_bit B i =
      (if WPos w \<le> i \<and> i < WPos w + length bs then bs ! (i - WPos w) else buf_bit (WBuffer w) i)"
  shows "appended w bs (w\<lparr>WBuffer := B, WPos := WPos w + length bs\<rparr>)"
proof -
  have in_B: "i < 8 * length (WBuffer w)" if "i < WPos w + length bs" for i
    using that room BitWriter_wfD(1) [OF wf] by linarith
  have "BitWriter_wf (w\<lparr>WBuffer := B, WPos := WPos w + length bs\<rparr>)"
    using wf room len bits by (auto simp: BitWriter_wf_def)
  moreover have "bitslice B 0 (WPos w + length bs) = bitslice (WBuffer w) 0 (WPos w) @ bs"
    by (rule nth_equalityI) (auto simp: nth_append bits in_B)
  ultimately show ?thesis
    by (simp add: appended_def wbits_def)
qed

lemma append_copy:
  assumes "BitWriter_wf w" and "WPos w + n \<le> WMax w" and "sb + n \<le> 8 * length Src"
  shows "\<exists>B. appBitsCpy (WBuffer w) (WPos w) Src sb n = Some B \<and>
     appended w (bitslice Src sb n) (w\<lparr>WBuffer := B, WPos := WPos w + n\<rparr>)"
proof -
  have fits: "WPos w + n \<le> 8 * length (WBuffer w)"
    using assms BitWriter_wfD(1) by fastforce
  let ?B = "bit_copy_ref (WBuffer w) (WPos w) Src sb n"
  have "appended w (bitslice Src sb n)
      (w\<lparr>WBuffer := ?B, WPos := WPos w + length (bitslice Src sb n)\<rparr>)"
    using assms by (intro appendedI) (auto simp: buf_bit_copy_ref [OF fits])
  with fits assms show ?thesis
    using appBitsCpy_ok by simp
qed

lemma push_1_bit: "bit ((2 :: u8) ^ k) m \<longleftrightarrow> m = k \<and> k < 8"
  by (auto simp: bit_exp_iff)

lemma append_one:
  assumes wf: "BitWriter_wf w" and room: "WPos w + 1 \<le> WMax w"
  shows "WPos w div 8 < length (WBuffer w)"
    and "appended w [True] (w\<lparr>WBuffer := (WBuffer w)[WPos w div 8 := WBuffer w ! (WPos w div 8) OR
           GShift ! (WPos w mod 8)], WPos := WPos w + 1\<rparr>)"
    and "appended w [False] (w\<lparr>WPos := WPos w + 1\<rparr>)"
proof -
  show inb: "WPos w div 8 < length (WBuffer w)"
    using room BitWriter_wfD(1) [OF wf] by linarith
  let ?p = "WPos w"
  let ?v = "WBuffer w ! (?p div 8) OR GShift ! (?p mod 8)"
  have "buf_bit ((WBuffer w)[?p div 8 := ?v]) i = (if i = ?p then True else buf_bit (WBuffer w) i)" for i
  proof (cases "i div 8 = ?p div 8")
    case True
    then have "i mod 8 = ?p mod 8 \<longleftrightarrow> i = ?p"
      by (rule bit_index_eq_iff)
    then show ?thesis
      using True inb by (simp add: buf_bit_update bit_or_iff GShift_nth push_1_bit buf_bit_def)
  next
    case False
    then show ?thesis
      by (auto simp: buf_bit_other)
  qed
  then have "appended w [True] (w\<lparr>WBuffer := (WBuffer w)[?p div 8 := ?v], WPos := ?p + length [True]\<rparr>)"
    using wf room by (intro appendedI) auto
  then show "appended w [True] (w\<lparr>WBuffer := (WBuffer w)[?p div 8 := ?v], WPos := ?p + 1\<rparr>)"
    by simp
  have "appended w [False] (w\<lparr>WBuffer := WBuffer w, WPos := ?p + length [False]\<rparr>)"
    using wf room BitWriter_wfD(3) [OF wf, of ?p] by (intro appendedI) (auto simp: le_less_Suc_eq)
  then show "appended w [False] (w\<lparr>WPos := ?p + 1\<rparr>)"
    by simp
qed

lemma and_1_bit: "(s :: u8) AND 1 \<noteq> 0 \<longleftrightarrow> bit s 0"
  by (simp add: and_one_eq odd_iff_mod_2_eq_one bit_0)

text \<open>What each operation does when the bits fit, and that nothing changes when they do not.\<close>

lemma SerializeBits_fits [bits_of]:
  assumes wf: "BitWriter_wf w" and room: "WPos w + n \<le> WMax w" and src: "n \<le> 8 * length Src"
  shows "\<exists>w'. BitWriter_SerializeBits w Src n = Some w' \<and> appended w (bitslice Src 0 n) w'"
proof (cases "n = 1")
  case True
  then have s: "0 < length Src" and r1: "WPos w + 1 \<le> WMax w"
    using src room by auto
  have b: "bitslice Src 0 (Suc 0) = [bit (Src ! 0) 0]"
    by (simp add: bitslice_def buf_bit_def)
  show ?thesis
    using True s r1 append_one [OF wf r1]
    by (simp add: BitWriter_SerializeBits_def AllowAppend_iff and_1_bit b)
next
  case False
  then show ?thesis
    using append_copy [OF wf room, of 0 Src] src room
    by (auto simp: BitWriter_SerializeBits_def AllowAppend_iff)
qed

lemma SerializeBitsWithOffset_fits [bits_of]:
  assumes "BitWriter_wf w" and "WPos w + n \<le> WMax w" and "sb + n \<le> 8 * length Src"
  shows "\<exists>w'. BitWriter_SerializeBitsWithOffset w Src sb n = Some w' \<and> appended w (bitslice Src sb n) w'"
  using append_copy [OF assms] assms(2)
  by (auto simp: BitWriter_SerializeBitsWithOffset_def AllowAppend_iff)

lemma Serialize_fits [bits_of]:
  assumes "BitWriter_wf w" and "WPos w + n * 8 \<le> WMax w" and "n \<le> length Src"
  shows "\<exists>w'. BitWriter_Serialize w Src n = Some (w', Src) \<and> appended w (bitslice Src 0 (n * 8)) w'"
  using append_copy [OF assms(1,2), of 0 Src] assms(2,3)
  by (auto simp: BitWriter_Serialize_def AllowAppend_iff Let_def)

lemma WriteBit_fits [bits_of]:
  assumes wf: "BitWriter_wf w" and room: "WPos w + 1 \<le> WMax w"
  shows "\<exists>w'. WriteBit w In = Some w' \<and> appended w [In \<noteq> 0] w'"
  using append_one [OF wf room] room by (auto simp: WriteBit_def AllowAppend_iff)

lemma write_overflow:
  "WMax w < WPos w + n \<Longrightarrow> BitWriter_SerializeBits w Src n = Some w"
  "WMax w < WPos w + n \<Longrightarrow> BitWriter_SerializeBitsWithOffset w Src sb n = Some w"
  "WMax w < WPos w + k * 8 \<Longrightarrow> BitWriter_Serialize w Src k = Some (w, Src)"
  "WMax w < WPos w + 1 \<Longrightarrow> WriteBit w In = Some w"
  by (simp_all add: BitWriter_SerializeBits_def BitWriter_SerializeBitsWithOffset_def
      BitWriter_Serialize_def WriteBit_def AllowAppend_iff)

section \<open>Bounded integers\<close>

text \<open>
  The loop over the bits of a value below \<open>Max\<close>: it stops as soon as no further bit can be set,
  so the number of bits written depends on the value. \<open>Mask *= 2\<close> runs the mask out of its 32 bits.
\<close>

lemma doubles_to_0: "\<exists>n. (Mask :: u32) * 2 ^ n = 0"
proof (rule exI)
  have "(2 :: u32) ^ 32 = 0"
    by simp
  then show "Mask * 2 ^ 32 = 0"
    by (simp only: mult_zero_right)
qed

definition mask_rounds :: "u32 \<Rightarrow> nat" where
  "mask_rounds Mask = (LEAST n. Mask * 2 ^ n = 0)"

lemma mask_rounds_double: "Mask \<noteq> 0 \<Longrightarrow> mask_rounds (Mask * 2) < mask_rounds Mask"
proof -
  assume nz: "Mask \<noteq> 0"
  have "Mask * 2 ^ mask_rounds Mask = 0"
    unfolding mask_rounds_def by (rule LeastI_ex [OF doubles_to_0])
  moreover with nz obtain k where k: "mask_rounds Mask = Suc k"
    by (cases "mask_rounds Mask") auto
  ultimately have "Mask * 2 * 2 ^ k = 0"
    by (simp add: ac_simps)
  then have "mask_rounds (Mask * 2) \<le> k"
    unfolding mask_rounds_def by (rule Least_le)
  with k show ?thesis by simp
qed

function WriteInt_loop ::
    "u8 list \<Rightarrow> nat \<Rightarrow> u32 \<Rightarrow> u32 \<Rightarrow> u32 \<Rightarrow> u32 \<Rightarrow> (u8 list \<times> nat) option" where
  "WriteInt_loop Buffer LocalNum NewValue Mask WriteValue ValueMax =
     (if NewValue + Mask < ValueMax \<and> Mask \<noteq> 0 then
        if WriteValue AND Mask \<noteq> 0 then do {
          x \<leftarrow> rd Buffer (LocalNum div 8);
          Buffer \<leftarrow> wr Buffer (LocalNum div 8) (x + GShift ! (LocalNum mod 8));
          WriteInt_loop Buffer (LocalNum + 1) (NewValue + Mask) (Mask * 2) WriteValue ValueMax }
        else WriteInt_loop Buffer (LocalNum + 1) NewValue (Mask * 2) WriteValue ValueMax
      else Some (Buffer, LocalNum))"
  by auto
termination
  by (relation "measure (\<lambda>(_, _, _, Mask, _, _). mask_rounds Mask)") (auto simp: mask_rounds_double)

declare WriteInt_loop.simps [simp del]

definition BitWriter_SerializeInt :: "BitWriter \<Rightarrow> u32 \<Rightarrow> u32 \<Rightarrow> BitWriter option" where
  "BitWriter_SerializeInt w Value ValueMax =
     (if \<not> 2 \<le> ValueMax then Some w
      else (let LengthBits = CeilLogTwo ValueMax;
                WriteValue = (if ValueMax \<le> Value then ValueMax - 1 else Value)
            in if AllowAppend w LengthBits then do {
                 (B, LocalNum) \<leftarrow> WriteInt_loop (WBuffer w) (WPos w) 0 1 WriteValue ValueMax;
                 Some (w\<lparr>WBuffer := B, WPos := LocalNum\<rparr>) }
               else Some w))"

definition WriteIntWrapped :: "BitWriter \<Rightarrow> u32 \<Rightarrow> u32 \<Rightarrow> BitWriter option" where
  "WriteIntWrapped w Value ValueMax =
     (let LengthBits = CeilLogTwo ValueMax
      in if AllowAppend w LengthBits then do {
           (B, LocalNum) \<leftarrow> WriteInt_loop (WBuffer w) (WPos w) 0 1 Value ValueMax;
           Some (w\<lparr>WBuffer := B, WPos := LocalNum\<rparr>) }
         else Some w)"

text \<open>The bits the loop emits from bit \<open>k\<close> on, when \<open>NewValue\<close> holds the bits below.\<close>

function int_code :: "nat \<Rightarrow> nat \<Rightarrow> nat \<Rightarrow> bool list" where
  "int_code k Value ValueMax =
     (if k < 32 \<and> Value mod 2 ^ k + 2 ^ k < ValueMax
      then bit Value k # int_code (Suc k) Value ValueMax else [])"
  by auto
termination
  by (relation "measure (\<lambda>(k, _, _). 32 - k)") auto

declare int_code.simps [simp del]

lemma length_int_code: "ValueMax \<le> 2 ^ n \<Longrightarrow> length (int_code k Value ValueMax) \<le> n - k"
proof (induction k Value ValueMax rule: int_code.induct)
  case (1 k Value ValueMax)
  show ?case
  proof (cases "k < 32 \<and> Value mod 2 ^ k + 2 ^ k < ValueMax")
    case True
    then have "(2::nat) ^ k < 2 ^ n"
      using 1(2) by linarith
    then have "k < n"
      by simp
    with 1 True show ?thesis
      by (simp add: int_code.simps [of k])
  next
    case False
    then show ?thesis
      by (simp only: int_code.simps [of k] if_False list.size)
  qed
qed

lemma take_bit_push_sum:
  "k < 32 \<Longrightarrow> unat (take_bit k (v :: u32) + push_bit k 1) = unat v mod 2 ^ k + 2 ^ k"
proof -
  assume k: "k < 32"
  have "take_bit k v + push_bit k 1 = take_bit k v OR push_bit k 1"
    by (rule add_disjoint_or) (auto simp: bit_take_bit_iff bit_exp_iff)
  have tb: "unat (take_bit k v) = unat v mod 2 ^ k"
    by (metis unsigned_take_bit_eq take_bit_eq_mod)
  have p: "unat (push_bit k (1 :: u32)) = 2 ^ k"
    unfolding unsigned_push_bit_eq using k by (simp add: take_bit_of_exp)
  have "unat v mod 2 ^ k + 2 ^ k < 2 ^ 32"
  proof -
    have "unat v mod 2 ^ k < 2 ^ k"
      by simp
    moreover have "(2::nat) ^ k + 2 ^ k \<le> 2 ^ 32"
      using k power_increasing [of "Suc k" 32 "2::nat"] by simp
    ultimately show ?thesis
      by linarith
  qed
  then show ?thesis
    using tb p by (simp add: unat_word_ariths)
qed

lemma take_bit_Suc_word:
  "take_bit (Suc k) (v :: u32) = (if bit v k then take_bit k v + push_bit k 1 else take_bit k v)"
proof (cases "bit v k")
  case True
  have "take_bit k v + push_bit k 1 = take_bit k v OR push_bit k 1"
    by (rule add_disjoint_or) (auto simp: bit_take_bit_iff bit_exp_iff)
  moreover have "take_bit (Suc k) v = take_bit k v OR push_bit k 1"
    using True by (intro bit_word_eqI) (auto simp: bit_take_bit_iff bit_or_iff bit_exp_iff less_Suc_eq)
  ultimately show ?thesis
    using True by simp
next
  case False
  then show ?thesis
    by (intro bit_word_eqI) (auto simp: bit_take_bit_iff less_Suc_eq)
qed

lemma and_exp_bit: "((v :: u32) AND push_bit k 1 \<noteq> 0) = bit v k"
proof
  assume "v AND push_bit k 1 \<noteq> 0"
  then obtain n where "bit (v AND push_bit k 1) n"
    by (metis bit_eqI bit_0_eq bot_apply bot_bool_def)
  then show "bit v k"
    by (auto simp: bit_and_iff bit_exp_iff)
next
  assume "bit v k"
  then have "bit (v AND push_bit k 1) k"
    using bit_imp_le_length [of v k] by (auto simp: bit_and_iff bit_exp_iff)
  then show "v AND push_bit k 1 \<noteq> 0"
    by auto
qed

lemma push_bit_double: "push_bit k (1 :: u32) * 2 = push_bit (Suc k) 1"
  by (simp add: push_bit_eq_mult)

lemma loop_guard:
  fixes v :: u32
  shows "k \<le> 32 \<Longrightarrow> take_bit k v + push_bit k 1 < ValueMax \<and> push_bit k (1 :: u32) \<noteq> 0
     \<longleftrightarrow> k < 32 \<and> unat v mod 2 ^ k + 2 ^ k < unat ValueMax"
proof (cases "k < 32")
  case True
  have "push_bit k (1 :: u32) \<noteq> 0"
    using True by (auto simp: bit_eq_iff bit_exp_iff)
  with True take_bit_push_sum [OF True, of v] show ?thesis
    by (simp add: word_less_nat_alt)
next
  case False
  assume "k \<le> 32"
  with False have "k = 32" by simp
  then show ?thesis by simp
qed

lemma add_GShift:
  assumes "\<not> bit (x :: u8) k" and "k < 8"
  shows "x + GShift ! k = x OR GShift ! k"
proof (rule add_disjoint_or)
  show "bit x j \<Longrightarrow> \<not> bit (GShift ! k) j" for j
    using assms by (auto simp: GShift_nth push_1_bit)
qed

lemma WriteInt_loop_correct:
  assumes "BitWriter_wf w" and "k \<le> 32"
    and "WPos w + length (int_code k (unat v) (unat ValueMax)) \<le> WMax w"
  shows "\<exists>B. WriteInt_loop (WBuffer w) (WPos w) (take_bit k v) (push_bit k 1) v ValueMax
      = Some (B, WPos w + length (int_code k (unat v) (unat ValueMax)))
    \<and> appended w (int_code k (unat v) (unat ValueMax))
        (w\<lparr>WBuffer := B, WPos := WPos w + length (int_code k (unat v) (unat ValueMax))\<rparr>)"
  using assms
proof (induction k "unat v" "unat ValueMax" arbitrary: w rule: int_code.induct)
  case (1 k)
  let ?p = "WPos w"
  show ?case
  proof (cases "k < 32 \<and> unat v mod 2 ^ k + 2 ^ k < unat ValueMax")
    case False
    then have "\<not> (take_bit k v + push_bit k 1 < ValueMax \<and> push_bit k 1 \<noteq> (0 :: u32))"
      using 1 loop_guard by blast
    moreover have code: "int_code k (unat v) (unat ValueMax) = []"
      using False by (simp only: int_code.simps [of k] if_False)
    ultimately show ?thesis
      using appended_refl [OF 1(2)]
      by (subst WriteInt_loop.simps) (auto simp: code)
  next
    case True
    then have guard: "take_bit k v + push_bit k 1 < ValueMax \<and> push_bit k 1 \<noteq> (0 :: u32)"
      using 1 loop_guard by blast
    have bitv: "bit (unat v) k = bit v k"
      by (simp add: bit_unsigned_iff)
    have code: "int_code k (unat v) (unat ValueMax)
        = bit v k # int_code (Suc k) (unat v) (unat ValueMax)"
      using True bitv by (simp add: int_code.simps [of k])
    let ?n = "length (int_code (Suc k) (unat v) (unat ValueMax))"
    have room: "?p + 1 \<le> WMax w" "?p + 1 + ?n \<le> WMax w"
      using 1(4) code by auto
    define b where "b = bit v k"
    let ?B = "if b then (WBuffer w)[?p div 8 := WBuffer w ! (?p div 8) OR GShift ! (?p mod 8)] else WBuffer w"
    let ?w = "w\<lparr>WBuffer := ?B, WPos := ?p + 1\<rparr>"
    note one = append_one [OF 1(2) room(1)]
    have app: "appended w [b] ?w"
      using one(2,3) by (cases b) auto
    have "\<exists>B. WriteInt_loop (WBuffer ?w) (WPos ?w) (take_bit (Suc k) v) (push_bit (Suc k) 1) v ValueMax
      = Some (B, WPos ?w + ?n) \<and> appended ?w (int_code (Suc k) (unat v) (unat ValueMax))
        (?w\<lparr>WBuffer := B, WPos := WPos ?w + ?n\<rparr>)"
      using True room(2) by (intro 1(1) [OF True] appendedD(1) [OF app]) auto
    then obtain B where
      run: "WriteInt_loop ?B (?p + 1) (take_bit (Suc k) v) (push_bit (Suc k) 1) v ValueMax
        = Some (B, ?p + 1 + ?n)" and
      app2: "appended ?w (int_code (Suc k) (unat v) (unat ValueMax)) (w\<lparr>WBuffer := B, WPos := ?p + 1 + ?n\<rparr>)"
      by auto
    have zero: "\<not> bit (WBuffer w ! (?p div 8)) (?p mod 8)"
      using BitWriter_wfD(3) [OF 1(2), of ?p] one(1) by (auto simp: buf_bit_def)
    have "WriteInt_loop (WBuffer w) ?p (take_bit k v) (push_bit k 1) v ValueMax = Some (B, ?p + 1 + ?n)"
      using run one(1) guard unfolding b_def
      by (subst WriteInt_loop.simps)
        (cases "bit v k", simp_all only: if_True if_False and_exp_bit take_bit_Suc_word
          push_bit_double add_GShift [OF zero] mod_less_divisor zero_less_numeral rd_in wr_in bind_simps simp_thms)
    moreover have "appended w (b # int_code (Suc k) (unat v) (unat ValueMax))
        (w\<lparr>WBuffer := B, WPos := ?p + 1 + ?n\<rparr>)"
      using appended_trans [OF app app2] by simp
    ultimately show ?thesis
      unfolding code b_def by (auto simp: add.assoc)
  qed
qed

text \<open>
  The loop never writes more bits than the guard reserved, and what it writes is the code of the
  value.
\<close>

lemma SerializeInt_fits [bits_of]:
  assumes wf: "BitWriter_wf w" and V: "2 \<le> ValueMax" "Value < ValueMax"
    and room: "WPos w + CeilLogTwo ValueMax \<le> WMax w"
  shows "\<exists>w'. BitWriter_SerializeInt w Value ValueMax = Some w'
    \<and> appended w (int_code 0 (unat Value) (unat ValueMax)) w'"
proof -
  have "length (int_code 0 (unat Value) (unat ValueMax)) \<le> CeilLogTwo ValueMax"
    using length_int_code [OF CeilLogTwo_bounds(1) [OF V(1)], of 0] by simp
  then have "\<exists>B. WriteInt_loop (WBuffer w) (WPos w) (take_bit 0 Value) (push_bit 0 1) Value ValueMax
      = Some (B, WPos w + length (int_code 0 (unat Value) (unat ValueMax)))
    \<and> appended w (int_code 0 (unat Value) (unat ValueMax))
        (w\<lparr>WBuffer := B, WPos := WPos w + length (int_code 0 (unat Value) (unat ValueMax))\<rparr>)"
    using wf room by (intro WriteInt_loop_correct) auto
  then show ?thesis
    using V room by (auto simp: BitWriter_SerializeInt_def AllowAppend_iff not_le)
qed

lemma SerializeInt_overflow:
  "WMax w < WPos w + CeilLogTwo ValueMax \<Longrightarrow> BitWriter_SerializeInt w Value ValueMax = Some w"
  by (simp add: BitWriter_SerializeInt_def AllowAppend_iff Let_def)

section \<open>Packed integers and strings\<close>

text \<open>Groups of seven bits, each above a bit that says whether another group follows.\<close>

function packed_words :: "bool \<Rightarrow> u32 \<Rightarrow> u32 list" where
  "packed_words first Value =
     (if first \<or> Value \<noteq> 0 then
        (let NextByteIndicator = (if Value AND NOT 0x7F \<noteq> 0 then 1 else 0);
             ByteAsWord = push_bit 1 (Value AND 0x7F) OR NextByteIndicator
         in ByteAsWord # packed_words False (drop_bit 7 Value))
      else [])"
  by auto
termination
proof (relation "measure (\<lambda>(first, Value). unat Value + of_bool first)")
  fix first Value
  assume a: "first \<or> Value \<noteq> (0 :: u32)"
  have "unat (drop_bit 7 Value) = unat Value div 128"
    by (simp add: drop_bit_eq_div unat_div_distrib)
  moreover have "unat Value = 0 \<longrightarrow> first"
    using a by (auto simp: unat_eq_0)
  ultimately show "((False, drop_bit 7 Value), (first, Value)) \<in> measure (\<lambda>(first, Value). unat Value + of_bool first)"
    by (cases "unat Value = 0") auto
qed simp

declare packed_words.simps [simp del]

fun pack_loop :: "u8 list \<Rightarrow> nat \<Rightarrow> u32 list \<Rightarrow> nat \<Rightarrow> u8 list option" where
  "pack_loop Buffer Dest [] Used = Some Buffer"
| "pack_loop Buffer Dest (ByteAsWord # ws) Used = do {
     let DestMaskByte0 = (ucast (push_bit Used 1 - 1 :: u32) :: u8);
     let DestMaskByte1 = 0xFF XOR DestMaskByte0;
     x \<leftarrow> rd Buffer Dest;
     Buffer \<leftarrow> wr Buffer Dest ((x AND DestMaskByte0) OR ucast (push_bit Used ByteAsWord));
     let Dest = Dest + 1;
     Buffer \<leftarrow> (if Used \<noteq> 0 then do {
                  y \<leftarrow> rd Buffer Dest;
                  wr Buffer Dest ((y AND DestMaskByte1) OR ucast (drop_bit (8 - Used) ByteAsWord)) }
                else Some Buffer);
     pack_loop Buffer Dest ws Used }"

definition BitWriter_SerializeIntPacked :: "BitWriter \<Rightarrow> u32 \<Rightarrow> BitWriter option" where
  "BitWriter_SerializeIntPacked w InValue =
     (let ws = packed_words True InValue; LengthBits = length ws * 8
      in if \<not> AllowAppend w LengthBits then Some w
         else do {
           B \<leftarrow> pack_loop (WBuffer w) (WPos w div 8) ws (WPos w mod 8);
           Some (w\<lparr>WBuffer := B, WPos := WPos w + LengthBits\<rparr>) })"

definition BitWriter_stream_string :: "BitWriter \<Rightarrow> u8 list \<Rightarrow> BitWriter option" where
  "BitWriter_stream_string w Str = do {
     let Length = (word_of_nat (length Str) :: u32);
     w \<leftarrow> BitWriter_SerializeIntPacked w Length;
     if 0 < Length then BitWriter_SerializeBits w Str (unat (Length * 8)) else Some w }"

end
