(* ===== verification/BitReaderM.thy ===== *)
theory BitReaderM
  imports BitWriterM
begin

text \<open>
  Core, \<open>BitReader\<close>: a buffer of \<open>Max\<close> bits consumed from the front. A read past the end sets
  the error flag of the archive, zeroes the memory of the value and consumes nothing; after an
  error every read does the same. \<open>rbits\<close> is the string of the bits not yet read. The last sections
  put the writer and the reader together: what one writes, the other reads back.
\<close>

record BitReader = BitController +
  RBuffer :: "u8 list"
  RMax :: nat
  RPos :: nat

definition memset0 :: "u8 list \<Rightarrow> nat \<Rightarrow> u8 list option" where
  "memset0 Dest n = (if n \<le> length Dest then Some (replicate n 0 @ drop n Dest) else None)"

text \<open>The masking of the last partial byte the constructor and \<open>SetData\<close> share.\<close>

definition mask_last :: "u8 list \<Rightarrow> nat \<Rightarrow> u8 list option" where
  "mask_last B N = (if N mod 8 \<noteq> 0 then do {
                      x \<leftarrow> rd B (N div 8);
                      wr B (N div 8) (x AND GMask ! (N mod 8)) }
                    else Some B)"

definition BitReader_ctor :: "u8 list option \<Rightarrow> nat \<Rightarrow> BitReader option" where
  "BitReader_ctor Src CountBits = do {
     let n = (CountBits + 7) div 8;
     B \<leftarrow> (case Src of None \<Rightarrow> Some (replicate n 0)
           | Some S \<Rightarrow> if n \<le> length S then mask_last (take n S) CountBits else None);
     Some \<lparr>ArIsSaving = False, ArIsPersistent = True, ArIsNetArchive = True, ArIsLoading = True,
           ArForceByteSwapping = False, ArIsError = False,
           RBuffer = B, RMax = CountBits, RPos = 0\<rparr> }"

definition resize :: "u8 list \<Rightarrow> nat \<Rightarrow> u8 list" where
  "resize B n = take n B @ replicate (n - length B) 0"

definition SetData_bytes :: "BitReader \<Rightarrow> u8 list option \<Rightarrow> nat \<Rightarrow> BitReader option" where
  "SetData_bytes r Src CountBits = do {
     let n = (CountBits + 7) div 8;
     B \<leftarrow> (case Src of None \<Rightarrow> Some (resize (RBuffer r) n)
           | Some S \<Rightarrow> if n \<le> length S then mask_last (take n S) CountBits else None);
     Some ((ClearError r)\<lparr>RMax := CountBits, RPos := 0, RBuffer := B\<rparr>) }"

definition SetData_vector :: "BitReader \<Rightarrow> u8 list \<Rightarrow> nat \<Rightarrow> BitReader option" where
  "SetData_vector r Src CountBits = do {
     B \<leftarrow> mask_last Src CountBits;
     Some ((ClearError r)\<lparr>RMax := CountBits, RPos := 0, RBuffer := B\<rparr>) }"

definition BitReader_SerializeBits :: "BitReader serialize" where
  "BitReader_SerializeBits r Dest LengthBits =
     (if ArIsError r \<or> RMax r < RPos r + LengthBits then do {
        let r = (if \<not> ArIsError r then SetError r else r);
        Dest \<leftarrow> (if LengthBits = 1 then wr Dest 0 0
                 else if LengthBits \<noteq> 0 then memset0 Dest ((LengthBits + 7) div 8)
                 else Some Dest);
        Some (r, Dest) }
      else if LengthBits = 1 then do {
        Dest \<leftarrow> wr Dest 0 0;
        b \<leftarrow> rd (RBuffer r) (RPos r div 8);
        Dest \<leftarrow> (if b AND push_bit (RPos r mod 8) 1 \<noteq> 0 then do { x \<leftarrow> rd Dest 0; wr Dest 0 (x OR 1) }
                 else Some Dest);
        Some (r\<lparr>RPos := RPos r + 1\<rparr>, Dest) }
      else if LengthBits \<noteq> 0 then do {
        Dest \<leftarrow> wr Dest ((LengthBits + 7) div 8 - 1) 0;
        Dest \<leftarrow> appBitsCpy Dest 0 (RBuffer r) (RPos r) LengthBits;
        Some (r\<lparr>RPos := RPos r + LengthBits\<rparr>, Dest) }
      else Some (r, Dest))"

definition BitReader_SerializeBitsWithOffset ::
    "BitReader \<Rightarrow> u8 list \<Rightarrow> nat \<Rightarrow> nat \<Rightarrow> (BitReader \<times> u8 list) option" where
  "BitReader_SerializeBitsWithOffset r Dest DestBit LengthBits =
     (if ArIsError r \<or> RMax r < RPos r + LengthBits
      then Some (if \<not> ArIsError r then SetError r else r, Dest)
      else if LengthBits \<noteq> 0 then do {
        Dest \<leftarrow> appBitsCpy Dest DestBit (RBuffer r) (RPos r) LengthBits;
        Some (r\<lparr>RPos := RPos r + LengthBits\<rparr>, Dest) }
      else Some (r, Dest))"

definition BitReader_Serialize :: "BitReader serialize" where
  "BitReader_Serialize r Dest LengthBytes = BitReader_SerializeBits r Dest (LengthBytes * 8)"

definition SetData_reader :: "BitReader \<Rightarrow> BitReader \<Rightarrow> nat \<Rightarrow> (BitReader \<times> BitReader) option" where
  "SetData_reader r Src CountBits = do {
     let r = (ClearError r)\<lparr>RMax := CountBits, RPos := 0\<rparr>;
     let n = (CountBits + 7) div 8;
     (Src, B) \<leftarrow> BitReader_SerializeBits Src (resize (RBuffer r) n) CountBits;
     Some (r\<lparr>RBuffer := B\<rparr>, Src) }"

definition ResetData :: "BitReader \<Rightarrow> BitReader \<Rightarrow> nat \<Rightarrow> nat \<Rightarrow> (BitReader \<times> BitReader) option" where
  "ResetData r Src CountBits CountBitsWithSlack = do {
     let r = (ClearError r)\<lparr>RMax := CountBits, RPos := 0\<rparr>;
     (Src, B) \<leftarrow> BitReader_SerializeBits Src (replicate ((CountBitsWithSlack + 7) div 8) 0) CountBits;
     Some (r\<lparr>RBuffer := B\<rparr>, Src) }"

definition SerializeWithPos :: "BitReader \<Rightarrow> u8 list \<Rightarrow> nat \<Rightarrow> nat \<Rightarrow> u8 list option" where
  "SerializeWithPos r Dest InPos LengthBits =
     (if LengthBits = 1 then do {
        Dest \<leftarrow> wr Dest 0 0;
        b \<leftarrow> rd (RBuffer r) (InPos div 8);
        if b AND push_bit (InPos mod 8) 1 \<noteq> 0 then do { x \<leftarrow> rd Dest 0; wr Dest 0 (x OR 1) }
        else Some Dest }
      else if LengthBits \<noteq> 0 then do {
        Dest \<leftarrow> wr Dest ((LengthBits + 7) div 8 - 1) 0;
        appBitsCpy Dest 0 (RBuffer r) InPos LengthBits }
      else Some Dest)"

definition SetAtEnd :: "BitReader \<Rightarrow> BitReader" where
  "SetAtEnd r = r\<lparr>RPos := RMax r\<rparr>"

definition ReadBit :: "BitReader \<Rightarrow> (BitReader \<times> u8) option" where
  "ReadBit r =
     (if \<not> ArIsError r then
        if RMax r \<le> RPos r then Some (r, 0)
        else do {
          b \<leftarrow> rd (RBuffer r) (RPos r div 8);
          Some (r\<lparr>RPos := RPos r + 1\<rparr>, if b AND push_bit (RPos r mod 8) 1 \<noteq> 0 then 1 else 0) }
      else Some (r, 0))"

definition GetBitsLeft :: "BitReader \<Rightarrow> int" where
  "GetBitsLeft r = int (RMax r) - int (RPos r)"

definition AtEnd :: "BitReader \<Rightarrow> bool" where
  "AtEnd r \<longleftrightarrow> ArIsError r \<or> RMax r \<le> RPos r"

text \<open>Bounded integers: the value read, the position after it, and whether the data ran out.\<close>

function ReadInt_loop ::
    "u8 list \<Rightarrow> nat \<Rightarrow> nat \<Rightarrow> u32 \<Rightarrow> u32 \<Rightarrow> u32 \<Rightarrow> (u32 \<times> nat \<times> bool) option" where
  "ReadInt_loop Buffer LocalPos LocalNum Value Mask ValueMax =
     (if Value + Mask < ValueMax \<and> Mask \<noteq> 0 then
        if LocalNum \<le> LocalPos then Some (Value, LocalPos, True)
        else do {
          b \<leftarrow> rd Buffer (LocalPos div 8);
          ReadInt_loop Buffer (LocalPos + 1) LocalNum
            (if b AND push_bit (LocalPos mod 8) 1 \<noteq> 0 then Value OR Mask else Value) (Mask * 2) ValueMax }
      else Some (Value, LocalPos, False))"
  by auto
termination
  by (relation "measure (\<lambda>(_, _, _, _, Mask, _). mask_rounds Mask)") (auto simp: mask_rounds_double)

declare ReadInt_loop.simps [simp del]

definition BitReader_SerializeInt :: "BitReader \<Rightarrow> u32 \<Rightarrow> u32 \<Rightarrow> (BitReader \<times> u32) option" where
  "BitReader_SerializeInt r OutValue ValueMax =
     (if \<not> ArIsError r then do {
        (Value, LocalPos, over) \<leftarrow> ReadInt_loop (RBuffer r) (RPos r) (RMax r) 0 1 ValueMax;
        Some ((if over then SetError r else r)\<lparr>RPos := LocalPos\<rparr>, Value) }
      else Some (r, OutValue))"

definition ReadInt :: "BitReader \<Rightarrow> u32 \<Rightarrow> (BitReader \<times> u32) option" where
  "ReadInt r ValueMax = BitReader_SerializeInt r 0 ValueMax"

text \<open>Packed integers: five rounds at most; \<open>Src\<close> is the index of the byte under the read pointer.\<close>

fun ReadPacked_loop :: "nat \<Rightarrow> BitReader \<Rightarrow> nat \<Rightarrow> nat \<Rightarrow> nat \<Rightarrow> u32 \<Rightarrow> (BitReader \<times> u32) option" where
  "ReadPacked_loop 0 r Src Used ShiftCount Value = Some (r, Value)"
| "ReadPacked_loop (Suc It) r Src Used ShiftCount Value =
     (if RMax r < RPos r + 8 then Some (SetError r, Value)
      else do {
        let r = r\<lparr>RPos := RPos r + 8\<rparr>;
        let SrcMaskByte0 = (ucast (push_bit (8 - Used) 1 - 1 :: u32) :: u8);
        let SrcMaskByte1 = (ucast (push_bit Used 1 - 1 :: u32) :: u8);
        x \<leftarrow> rd (RBuffer r) Src;
        y \<leftarrow> rd (RBuffer r) (Src + (if Used \<noteq> 0 then 1 else 0));
        let Byte = (drop_bit Used x AND SrcMaskByte0) OR push_bit ((8 - Used) mod 8) (y AND SrcMaskByte1);
        let NextByteIndicator = Byte AND 1;
        let Value = push_bit ShiftCount (ucast (drop_bit 1 Byte)) OR Value;
        if NextByteIndicator = 0 then Some (r, Value)
        else ReadPacked_loop It r (Src + 1) Used (ShiftCount + 7) Value })"

definition BitReader_SerializeIntPacked :: "BitReader \<Rightarrow> (BitReader \<times> u32) option" where
  "BitReader_SerializeIntPacked r =
     (if ArIsError r then Some (r, 0)
      else ReadPacked_loop 5 r (RPos r div 8) (RPos r mod 8) 0 0)"

section \<open>The invariant and the bits left\<close>

definition BitReader_wf :: "BitReader \<Rightarrow> bool" where
  "BitReader_wf r \<longleftrightarrow> RMax r \<le> 8 * length (RBuffer r) \<and> RPos r \<le> RMax r"

definition rbits :: "BitReader \<Rightarrow> bool list" where
  "rbits r = bitslice (RBuffer r) (RPos r) (RMax r - RPos r)"

definition consumed :: "BitReader \<Rightarrow> nat \<Rightarrow> BitReader \<Rightarrow> bool" where
  "consumed r n r' \<longleftrightarrow> BitReader_wf r' \<and> r' = r\<lparr>RPos := RPos r + n\<rparr> \<and> rbits r' = drop n (rbits r)"

lemma length_rbits [simp]: "length (rbits r) = RMax r - RPos r"
  by (simp add: rbits_def)

lemma BitReader_wfD:
  "BitReader_wf r \<Longrightarrow> RMax r \<le> 8 * length (RBuffer r)"
  "BitReader_wf r \<Longrightarrow> RPos r \<le> RMax r"
  by (auto simp: BitReader_wf_def)

lemma nth_rbits: "i < RMax r - RPos r \<Longrightarrow> rbits r ! i = buf_bit (RBuffer r) (RPos r + i)"
  by (simp add: rbits_def)

lemma consumedI:
  assumes "BitReader_wf r" and "RPos r + n \<le> RMax r"
  shows "consumed r n (r\<lparr>RPos := RPos r + n\<rparr>)"
proof -
  have "rbits (r\<lparr>RPos := RPos r + n\<rparr>) = drop n (rbits r)"
    using assms(2) by (intro nth_equalityI) (auto simp: nth_rbits add.assoc)
  then show ?thesis
    using assms by (auto simp: consumed_def BitReader_wf_def)
qed

lemma consumedD:
  assumes "consumed r n r'"
  shows "BitReader_wf r'" "rbits r' = drop n (rbits r)" "ArIsError r' = ArIsError r"
    "ArForceByteSwapping r' = ArForceByteSwapping r" "RBuffer r' = RBuffer r" "RMax r' = RMax r"
    "RPos r' = RPos r + n"
  using assms by (auto simp: consumed_def)

text \<open>What a successful read leaves in the memory of the value.\<close>

definition holds_bits :: "u8 list \<Rightarrow> u8 list \<Rightarrow> bool list \<Rightarrow> bool" where
  "holds_bits Dest Dest' bs \<longleftrightarrow> length Dest' = length Dest \<and>
     (\<forall>i<8 * length Dest. buf_bit Dest' i =
        (if i < length bs then bs ! i
         else if i < 8 * ((length bs + 7) div 8) then False else buf_bit Dest i))"

lemma holds_bits_slice:
  "holds_bits Dest Dest' bs \<Longrightarrow> length bs \<le> 8 * length Dest \<Longrightarrow> bitslice Dest' 0 (length bs) = bs"
  by (rule nth_equalityI) (auto simp: holds_bits_def)

lemma div8_up: "0 < n \<Longrightarrow> 8 * ((n + 7) div 8 - 1) < n" "n \<le> 8 * ((n + 7) div 8)"
  "0 < n \<Longrightarrow> 0 < (n + 7) div 8" for n :: nat
  by presburger+

lemma read_1_bit: "((b :: u8) AND push_bit k 1 \<noteq> 0) = (k < 8 \<and> bit b k)"
proof
  assume "b AND push_bit k 1 \<noteq> 0"
  then obtain n where "bit (b AND push_bit k 1) n"
    by (metis bit_eqI bit_0_eq bot_apply bot_bool_def)
  then show "k < 8 \<and> bit b k"
    by (auto simp: bit_and_iff bit_exp_iff)
next
  assume "k < 8 \<and> bit b k"
  then have "bit (b AND push_bit k 1) k"
    by (auto simp: bit_and_iff bit_exp_iff)
  then show "b AND push_bit k 1 \<noteq> 0"
    by auto
qed

lemma read_1_bit': "((b :: u8) AND 2 ^ k = 0) = (\<not> (k < 8 \<and> bit b k))"
  using read_1_bit [of b k] by auto

lemma SerializeBits_reads:
  assumes wf: "BitReader_wf r" and ok: "\<not> ArIsError r" and room: "RPos r + n \<le> RMax r"
    and dest: "n \<le> 8 * length Dest"
  shows "\<exists>Dest'. BitReader_SerializeBits r Dest n = Some (r\<lparr>RPos := RPos r + n\<rparr>, Dest')
    \<and> holds_bits Dest Dest' (take n (rbits r))"
proof -
  consider "n = 0" | "n = 1" | "2 \<le> n"
    by linarith
  then show ?thesis
  proof cases
    case 1
    then show ?thesis
      using ok room by (auto simp: BitReader_SerializeBits_def holds_bits_def)
  next
    case 2
    let ?b = "buf_bit (RBuffer r) (RPos r)"
    have inb: "RPos r div 8 < length (RBuffer r)"
      using room 2 BitReader_wfD(1) [OF wf] by linarith
    have d0: "0 < length Dest"
      using dest 2 by linarith
    have tk: "take n (rbits r) = [?b]"
      using 2 room by (simp add: rbits_def bitslice_def take_map take_upt)
    have "buf_bit (Dest[0 := if ?b then 1 else 0]) i = (if i < 1 then ?b else if i < 8 then False else buf_bit Dest i)" for i
    proof (cases "i div 8 = 0")
      case True
      then show ?thesis
        using d0 by (cases "i = 0") (simp_all add: buf_bit_update bit_1_iff div_eq_0_iff)
    next
      case False
      then have "\<not> i < 8"
        by (simp add: div_eq_0_iff)
      with False show ?thesis
        by (simp add: buf_bit_other)
    qed
    then have "holds_bits Dest (Dest[0 := if ?b then 1 else 0]) (take n (rbits r))"
      by (auto simp: holds_bits_def tk)
    moreover have "BitReader_SerializeBits r Dest n
        = Some (r\<lparr>RPos := RPos r + n\<rparr>, Dest[0 := if ?b then 1 else 0])"
      using ok room d0 inb 2
      by (simp add: BitReader_SerializeBits_def read_1_bit' buf_bit_def)
    ultimately show ?thesis by blast
  next
    case 3
    let ?k = "(n + 7) div 8"
    let ?D = "Dest[?k - 1 := 0]"
    let ?R = "bit_copy_ref ?D 0 (RBuffer r) (RPos r) n"
    have k: "?k - 1 < length Dest" and kn: "8 * (?k - 1) < n" "n \<le> 8 * ?k" "0 < ?k"
      using 3 dest div8_up [of n] by linarith+
    have fits: "0 + n \<le> 8 * length ?D" "RPos r + n \<le> 8 * length (RBuffer r)"
      using dest room BitReader_wfD(1) [OF wf] by auto
    have "buf_bit ?R i = (if i < n then buf_bit (RBuffer r) (RPos r + i)
        else if i < 8 * ?k then False else buf_bit Dest i)" if "i < 8 * length Dest" for i
    proof (cases "i div 8 = ?k - 1")
      case True
      then have "i < 8 * ?k"
        using kn(3) by linarith
      then show ?thesis
        using buf_bit_copy_ref [OF fits(1), of "RBuffer r" "RPos r" i] buf_bit_same [OF True k, of 0]
        by simp
    next
      case False
      have "8 * (?k - 1) + 8 = 8 * ?k"
        using kn(3) by simp
      then have "i < n \<or> \<not> i < 8 * ?k"
        using kn(1) False div_nat_eqI [of 8 "?k - 1" i] by linarith
      then consider "i < n" | "\<not> i < n" "\<not> i < 8 * ?k"
        using kn(2) by linarith
      then show ?thesis
        by cases (simp_all only: buf_bit_copy_ref [OF fits(1)] buf_bit_other [OF False] if_True if_False
            le0 add_0 simp_thms diff_zero)
    qed
    moreover have len: "length (take n (rbits r)) = n"
      using room by simp
    moreover have "take n (rbits r) ! i = buf_bit (RBuffer r) (RPos r + i)" if "i < n" for i
      using that room by (simp add: nth_rbits)
    ultimately have "holds_bits Dest ?R (take n (rbits r))"
      unfolding holds_bits_def len by auto
    moreover have "BitReader_SerializeBits r Dest n = Some (r\<lparr>RPos := RPos r + n\<rparr>, ?R)"
      using ok room k 3 appBitsCpy_ok [OF fits] by (simp add: BitReader_SerializeBits_def)
    ultimately show ?thesis by blast
  qed
qed

lemma SerializeBits_error:
  assumes "ArIsError r \<or> RMax r < RPos r + n" and "n \<le> 8 * length Dest"
  shows "BitReader_SerializeBits r Dest n
    = Some (SetError r, replicate ((n + 7) div 8) 0 @ drop ((n + 7) div 8) Dest)"
proof -
  have "(n + 7) div 8 \<le> length Dest"
    using assms(2) by linarith
  moreover have "r\<lparr>ArIsError := True\<rparr> = r" if "ArIsError r"
    using that by simp
  moreover have "n = Suc 0 \<Longrightarrow> Dest[0 := 0] = 0 # drop (Suc 0) Dest"
    using assms(2) by (cases Dest) auto
  moreover have "n = 1 \<Longrightarrow> Dest \<noteq> []"
    using assms(2) by auto
  ultimately show ?thesis
    using assms(1) by (cases Dest) (auto simp: BitReader_SerializeBits_def SetError_def memset0_def)
qed

lemma rbits_append_room:
  "rbits r = bs @ cs \<Longrightarrow> BitReader_wf r \<Longrightarrow> RPos r + length bs \<le> RMax r"
proof -
  assume a: "rbits r = bs @ cs" "BitReader_wf r"
  from arg_cong [OF a(1), of length] have "RMax r - RPos r = length bs + length cs"
    by simp
  with BitReader_wfD(2) [OF a(2)] show ?thesis
    by linarith
qed

text \<open>The form the codecs use: the bits expected are at the front of those left.\<close>

lemma SerializeBits_front:
  assumes wf: "BitReader_wf r" and ok: "\<not> ArIsError r" and front: "rbits r = bs @ cs"
    and n: "n = length bs" and dest: "n \<le> 8 * length Dest"
  shows "\<exists>r' Dest'. BitReader_SerializeBits r Dest n = Some (r', Dest') \<and> consumed r n r' \<and> rbits r' = cs
    \<and> holds_bits Dest Dest' bs"
proof -
  have room: "RPos r + n \<le> RMax r"
    using rbits_append_room [OF front wf] n by simp
  have tk: "take n (rbits r) = bs" and dr: "drop n (rbits r) = cs"
    using front n by auto
  show ?thesis
    using SerializeBits_reads [OF wf ok room dest] consumedI [OF wf room] dr unfolding tk
    by (auto dest: consumedD(2))
qed

lemma Serialize_front:
  assumes "BitReader_wf r" and "\<not> ArIsError r" and "rbits r = bs @ cs"
    and "length bs = k * 8" and "k = length Dest"
  shows "\<exists>r' Dest'. BitReader_Serialize r Dest k = Some (r', Dest') \<and> consumed r (k * 8) r'
    \<and> rbits r' = cs \<and> length Dest' = k \<and> bitslice Dest' 0 (k * 8) = bs"
proof -
  obtain r' Dest' where *: "BitReader_SerializeBits r Dest (k * 8) = Some (r', Dest')"
    "consumed r (k * 8) r'" "rbits r' = cs" "holds_bits Dest Dest' bs"
    using SerializeBits_front [OF assms(1-3) assms(4) [symmetric], of Dest] assms(5) by auto
  moreover have "length Dest' = k"
    using *(4) assms(5) by (simp add: holds_bits_def)
  moreover have "bitslice Dest' 0 (k * 8) = bs"
    using holds_bits_slice [OF *(4)] assms(4,5) by simp
  ultimately show ?thesis
    by (auto simp: BitReader_Serialize_def)
qed

section \<open>Round trips\<close>

lemma int_code_complete:
  "k \<le> 32 \<Longrightarrow> \<not> (k < 32 \<and> unat v mod 2 ^ k + 2 ^ k < unat VMax) \<Longrightarrow> v < VMax \<Longrightarrow> take_bit k v = (v :: u32)"
proof -
  assume a: "k \<le> 32" "\<not> (k < 32 \<and> unat v mod 2 ^ k + 2 ^ k < unat VMax)" "v < VMax"
  show ?thesis
  proof (cases "k < 32")
    case True
    then have "unat VMax \<le> unat v mod 2 ^ k + 2 ^ k"
      using a(2) by simp
    moreover have "unat v < unat VMax"
      using a(3) by (simp add: word_less_nat_alt)
    moreover have "unat v = 2 ^ k * (unat v div 2 ^ k) + unat v mod 2 ^ k"
      by simp
    ultimately have "2 ^ k * (unat v div 2 ^ k) < 2 ^ k * 1"
      by linarith
    then have "unat v div 2 ^ k < 1"
      by (simp only: mult_less_cancel1)
    then have "unat v mod 2 ^ k = unat v"
      by (metis div_eq_0_iff less_one mod_less power_not_zero zero_neq_numeral)
    then have "unat (take_bit k v) = unat v"
      by (metis unsigned_take_bit_eq take_bit_eq_mod)
    then show ?thesis
      by (rule word_unat_eq_iff [THEN iffD2])
  next
    case False
    with a(1) show ?thesis
      by (intro bit_word_eqI) (auto simp: bit_take_bit_iff)
  qed
qed

lemma take_bit_Suc_or:
  "take_bit (Suc k) (v :: u32) = (if bit v k then take_bit k v OR push_bit k 1 else take_bit k v)"
  by (rule bit_word_eqI) (auto simp: bit_take_bit_iff bit_or_iff bit_exp_iff less_Suc_eq)

lemma ReadInt_loop_correct:
  assumes "k \<le> 32" and "v < VMax" and "N \<le> 8 * length B"
    and "p + length (int_code k (unat v) (unat VMax)) \<le> N"
    and "bitslice B p (length (int_code k (unat v) (unat VMax))) = int_code k (unat v) (unat VMax)"
  shows "ReadInt_loop B p N (take_bit k v) (push_bit k 1) VMax
    = Some (v, p + length (int_code k (unat v) (unat VMax)), False)"
  using assms
proof (induction k "unat v" "unat VMax" arbitrary: p rule: int_code.induct)
  case (1 k)
  show ?case
  proof (cases "k < 32 \<and> unat v mod 2 ^ k + 2 ^ k < unat VMax")
    case False
    then have "\<not> (take_bit k v + push_bit k 1 < VMax \<and> push_bit k 1 \<noteq> (0 :: u32))"
      using 1(2) loop_guard by blast
    moreover have "int_code k (unat v) (unat VMax) = []"
      using False by (simp only: int_code.simps [of k] if_False)
    moreover have "take_bit k v = v"
      using int_code_complete [OF 1(2) False 1(3)] .
    ultimately show ?thesis
      by (subst ReadInt_loop.simps) auto
  next
    case True
    then have guard: "take_bit k v + push_bit k 1 < VMax \<and> push_bit k 1 \<noteq> (0 :: u32)"
      using 1(2) loop_guard by blast
    have code: "int_code k (unat v) (unat VMax) = bit v k # int_code (Suc k) (unat v) (unat VMax)"
      using True by (simp add: int_code.simps [of k] bit_unsigned_iff)
    let ?n = "length (int_code (Suc k) (unat v) (unat VMax))"
    have here: "buf_bit B p = bit v k"
      and rest: "bitslice B (Suc p) ?n = int_code (Suc k) (unat v) (unat VMax)"
      using 1(6) unfolding code by (simp_all add: bitslice_Suc)
    have inb: "p < N" "p div 8 < length B"
      using 1(4,5) unfolding code by (simp, simp add: div_less_iff_less_mult)
    have np: "(N \<le> p) = False"
      using inb(1) by simp
    have IH: "ReadInt_loop B (Suc p) N (take_bit (Suc k) v) (push_bit (Suc k) 1) VMax
        = Some (v, Suc p + ?n, False)"
      using True 1(3,4,5) rest unfolding code by (intro 1(1)) auto
    have step: "(if B ! (p div 8) AND push_bit (p mod 8) 1 \<noteq> 0 then take_bit k v OR push_bit k 1
        else take_bit k v) = take_bit (Suc k) v"
      using here by (simp only: read_1_bit buf_bit_def take_bit_Suc_or mod_less_divisor zero_less_numeral simp_thms)
    show ?thesis
      unfolding code
      by (subst ReadInt_loop.simps)
        (simp only: guard inb np if_True if_False rd_in bind_simps step push_bit_double IH
          Suc_eq_plus1 [symmetric] list.size add_Suc_right add_Suc simp_thms add_0_right)
  qed
qed

lemma SerializeInt_front:
  assumes wf: "BitReader_wf r" and ok: "\<not> ArIsError r" and v: "v < VMax"
    and front: "rbits r = int_code 0 (unat v) (unat VMax) @ cs"
  shows "\<exists>r'. BitReader_SerializeInt r out VMax = Some (r', v)
    \<and> consumed r (length (int_code 0 (unat v) (unat VMax))) r' \<and> rbits r' = cs"
proof -
  let ?n = "length (int_code 0 (unat v) (unat VMax))"
  have room: "RPos r + ?n \<le> RMax r"
    by (rule rbits_append_room [OF front wf])
  have tk: "take ?n (rbits r) = int_code 0 (unat v) (unat VMax)" and dr: "drop ?n (rbits r) = cs"
    using front by auto
  have "bitslice (RBuffer r) (RPos r) ?n = take ?n (rbits r)"
    using room by (intro nth_equalityI) (auto simp: nth_rbits)
  then have "ReadInt_loop (RBuffer r) (RPos r) (RMax r) (take_bit 0 v) (push_bit 0 1) VMax
      = Some (v, RPos r + ?n, False)"
    using v room BitReader_wfD(1) [OF wf] tk by (intro ReadInt_loop_correct) auto
  then have "BitReader_SerializeInt r out VMax = Some (r\<lparr>RPos := RPos r + ?n\<rparr>, v)"
    using ok by (simp add: BitReader_SerializeInt_def)
  moreover have "consumed r ?n (r\<lparr>RPos := RPos r + ?n\<rparr>)"
    by (rule consumedI [OF wf room])
  ultimately show ?thesis
    using dr consumedD(2) by fastforce
qed

lemma stream_u8_writes [bits_of]:
  assumes "BitWriter_wf w" and "WPos w + 8 \<le> WMax w"
  shows "\<exists>w'. stream_u8 BitWriter_Serialize w v = Some (w', v) \<and> appended w (word_bits 8 v) w'"
  using Serialize_fits [OF assms(1), of 1 "le_bytes 1 v"] assms(2)
  by (auto simp: stream_u8_def bitslice_le_bytes le_bytes_inverse)

lemma stream_u16_writes [bits_of]:
  assumes "BitWriter_wf w" and "WPos w + 16 \<le> WMax w" and "\<not> ArForceByteSwapping w"
  shows "\<exists>w'. stream_u16 BitWriter_Serialize w v = Some (w', v) \<and> appended w (word_bits 16 v) w'"
  using Serialize_fits [OF assms(1), of 2 "le_bytes 2 v"] assms(2,3)
  by (auto simp: stream_u16_def bitslice_le_bytes le_bytes_inverse)

lemma stream_u32_writes [bits_of]:
  assumes "BitWriter_wf w" and "WPos w + 32 \<le> WMax w" and "\<not> ArForceByteSwapping w"
  shows "\<exists>w'. stream_u32 BitWriter_Serialize w v = Some (w', v) \<and> appended w (word_bits 32 v) w'"
  using Serialize_fits [OF assms(1), of 4 "le_bytes 4 v"] assms(2,3)
  by (auto simp: stream_u32_def bitslice_le_bytes le_bytes_inverse)

lemma stream_u8_reads:
  assumes "BitReader_wf r" and "\<not> ArIsError r" and "rbits r = word_bits 8 v @ cs"
  shows "\<exists>r'. stream_u8 BitReader_Serialize r v0 = Some (r', v) \<and> consumed r 8 r' \<and> rbits r' = cs"
  using Serialize_front [OF assms, of 1 "le_bytes 1 v0"] of_le_bytes_eqI [of _ 1 v]
  by (fastforce simp: stream_u8_def)

lemma stream_u16_reads:
  assumes "BitReader_wf r" and "\<not> ArIsError r" and "rbits r = word_bits 16 v @ cs"
    and "\<not> ArForceByteSwapping r"
  shows "\<exists>r'. stream_u16 BitReader_Serialize r v0 = Some (r', v) \<and> consumed r 16 r' \<and> rbits r' = cs"
  using Serialize_front [OF assms(1-3), of 2 "le_bytes 2 v0"] of_le_bytes_eqI [of _ 2 v] assms(4)
  by (fastforce simp: stream_u16_def)

lemma stream_u32_reads:
  assumes "BitReader_wf r" and "\<not> ArIsError r" and "rbits r = word_bits 32 v @ cs"
    and "\<not> ArForceByteSwapping r"
  shows "\<exists>r'. stream_u32 BitReader_Serialize r v0 = Some (r', v) \<and> consumed r 32 r' \<and> rbits r' = cs"
  using Serialize_front [OF assms(1-3), of 4 "le_bytes 4 v0"] of_le_bytes_eqI [of _ 4 v] assms(4)
  by (fastforce simp: stream_u32_def)

section \<open>A reader over what a writer wrote\<close>

lemma buf_bit_mask_last:
  assumes "N \<le> 8 * length S" and "i < N"
  shows "\<exists>B. mask_last (take ((N + 7) div 8) S) N = Some B \<and> length B = (N + 7) div 8
    \<and> (\<forall>i<N. buf_bit B i = buf_bit S i)"
proof -
  let ?n = "(N + 7) div 8"
  let ?T = "take ?n S"
  have n: "?n \<le> length S" "N \<le> 8 * ?n"
    using assms(1) by linarith+
  have same: "buf_bit ?T i = buf_bit S i" if "i < N" for i
    using that n by (simp add: buf_bit_def div_less_iff_less_mult)
  show ?thesis
  proof (cases "N mod 8 = 0")
    case True
    then show ?thesis
      using same n by (auto simp: mask_last_def)
  next
    case False
    have len: "length ?T = ?n"
      using n(1) by simp
    have inb: "N div 8 < length ?T"
      unfolding len using False by presburger
    let ?B = "?T[N div 8 := ?T ! (N div 8) AND GMask ! (N mod 8)]"
    have "buf_bit ?B i = buf_bit S i" if "i < N" for i
    proof (cases "i div 8 = N div 8")
      case True
      have "i mod 8 < N mod 8"
        using True that by (metis mult_div_mod_eq nat_add_left_cancel_less)
      then show ?thesis
        using buf_bit_same [OF True inb] same [OF that] True
        by (simp add: GMask_nth bit_and_iff bit_mask_iff buf_bit_def)
    next
      case False
      then show ?thesis
        using same [OF that] by (simp add: buf_bit_other)
    qed
    moreover have "mask_last ?T N = Some ?B"
      unfolding mask_last_def using False by (simp only: if_True rd_in [OF inb] wr_in [OF inb] bind_simps simp_thms)
    ultimately show ?thesis
      using len by auto
  qed
qed

lemma BitReader_ctor_ok:
  assumes "N \<le> 8 * length S"
  shows "\<exists>r. BitReader_ctor (Some S) N = Some r \<and> BitReader_wf r \<and> \<not> ArIsError r
    \<and> \<not> ArForceByteSwapping r \<and> rbits r = bitslice S 0 N \<and> RMax r = N \<and> RPos r = 0"
proof -
  let ?n = "(N + 7) div 8"
  have n: "?n \<le> length S"
    using assms by linarith
  obtain B where B: "mask_last (take ?n S) N = Some B" "length B = ?n"
    "\<And>i. i < N \<Longrightarrow> buf_bit B i = buf_bit S i"
  proof (cases "N = 0")
    case True
    then show thesis
      using that [of "take ?n S"] n by (simp add: mask_last_def)
  next
    case False
    then show thesis
      using buf_bit_mask_last [OF assms, of 0] that by auto
  qed
  have "bitslice B 0 N = bitslice S 0 N"
    using B(3) by (intro bitslice_eqI) simp
  moreover have "N \<le> 8 * length B"
    using B(2) div8_up(2) by simp
  ultimately show ?thesis
    using B(1) n by (auto simp: BitReader_ctor_def BitReader_wf_def rbits_def Let_def)
qed

definition reader_of :: "BitWriter \<Rightarrow> BitReader option" where
  "reader_of w = BitReader_ctor (Some (WBuffer w)) (WPos w)"

lemma reader_of_ok:
  assumes "BitWriter_wf w"
  shows "\<exists>r. reader_of w = Some r \<and> BitReader_wf r \<and> \<not> ArIsError r
    \<and> \<not> ArForceByteSwapping r \<and> rbits r = wbits w"
  using BitReader_ctor_ok [of "WPos w" "WBuffer w"] BitWriter_wfD(1,2) [OF assms]
  by (auto simp: reader_of_def wbits_def)

section \<open>Codecs\<close>

text \<open>Writing a list of values, and reading a list of values of given shapes.\<close>

fun write_all :: "(BitWriter \<Rightarrow> 'v \<Rightarrow> BitWriter option) \<Rightarrow> BitWriter \<Rightarrow> 'v list \<Rightarrow> BitWriter option" where
  "write_all put w [] = Some w"
| "write_all put w (v # vs) = do { w \<leftarrow> put w v; write_all put w vs }"

fun read_all :: "('s \<Rightarrow> BitReader \<Rightarrow> (BitReader \<times> 'v) option) \<Rightarrow> 's list \<Rightarrow> BitReader
    \<Rightarrow> (BitReader \<times> 'v list) option" where
  "read_all get [] r = Some (r, [])"
| "read_all get (s # ss) r = do {
     (r, v) \<leftarrow> get s r;
     (r, vs) \<leftarrow> read_all get ss r;
     Some (r, v # vs) }"

text \<open>
  The contract a write and a read operation keep together: \<open>need\<close> is the room the write asks for,
  \<open>code\<close> the bits it appends, \<open>shape\<close> what the reader has to know of the value in advance.
\<close>

locale codec =
  fixes put :: "BitWriter \<Rightarrow> 'v \<Rightarrow> BitWriter option"
    and get :: "'s \<Rightarrow> BitReader \<Rightarrow> (BitReader \<times> 'v) option"
    and shape :: "'v \<Rightarrow> 's"
    and code :: "'v \<Rightarrow> bool list"
    and need :: "'v \<Rightarrow> nat"
    and valid :: "'v \<Rightarrow> bool"
  assumes put_ok: "\<lbrakk>BitWriter_wf w; \<not> ArForceByteSwapping w; valid v; WPos w + need v \<le> WMax w\<rbrakk>
      \<Longrightarrow> \<exists>w'. put w v = Some w' \<and> appended w (code v) w'"
    and get_ok: "\<lbrakk>BitReader_wf r; \<not> ArIsError r; \<not> ArForceByteSwapping r; valid v; rbits r = code v @ cs\<rbrakk>
      \<Longrightarrow> \<exists>r'. get (shape v) r = Some (r', v) \<and> consumed r (length (code v)) r' \<and> rbits r' = cs"
    and need_enough: "valid v \<Longrightarrow> length (code v) \<le> need v"
begin

lemma write_all_ok:
  "\<lbrakk>BitWriter_wf w; \<not> ArForceByteSwapping w; \<forall>v\<in>set vs. valid v;
    WPos w + sum_list (map need vs) \<le> WMax w\<rbrakk>
   \<Longrightarrow> \<exists>w'. write_all put w vs = Some w' \<and> appended w (concat (map code vs)) w'"
proof (induction vs arbitrary: w)
  case Nil
  then show ?case by (simp add: appended_refl)
next
  case (Cons v vs)
  then obtain w1 where w1: "put w v = Some w1" "appended w (code v) w1"
    using put_ok [of w v] by auto
  note d = appendedD [OF w1(2)]
  have "WPos w1 + sum_list (map need vs) \<le> WMax w1"
    using Cons.prems(3,4) need_enough [of v] d(3,4) by simp
  then obtain w2 where "write_all put w1 vs = Some w2" "appended w1 (concat (map code vs)) w2"
    using Cons.IH [of w1] Cons.prems d(1,5) by auto
  then show ?case
    using w1 appended_trans [OF w1(2)] by auto
qed

lemma read_all_ok:
  "\<lbrakk>BitReader_wf r; \<not> ArIsError r; \<not> ArForceByteSwapping r; \<forall>v\<in>set vs. valid v;
    rbits r = concat (map code vs) @ cs\<rbrakk>
   \<Longrightarrow> \<exists>r'. read_all get (map shape vs) r = Some (r', vs) \<and> BitReader_wf r' \<and> \<not> ArIsError r' \<and> rbits r' = cs"
proof (induction vs arbitrary: r)
  case Nil
  then show ?case by auto
next
  case (Cons v vs)
  then obtain r1 where r1: "get (shape v) r = Some (r1, v)" "consumed r (length (code v)) r1"
    "rbits r1 = concat (map code vs) @ cs"
    using get_ok [of r v "concat (map code vs) @ cs"] by auto
  note d = consumedD [OF r1(2)]
  obtain r2 where "read_all get (map shape vs) r1 = Some (r2, vs)" "BitReader_wf r2"
    "\<not> ArIsError r2" "rbits r2 = cs"
    using Cons.IH [of r1] Cons.prems d(1,3,4) r1(3) by auto
  then show ?case
    using r1(1) by auto
qed

lemma round_trip:
  assumes "\<forall>v\<in>set vs. valid v" and "sum_list (map need vs) \<le> N"
  shows "\<exists>w r r'. write_all put (BitWriter_ctor N b) vs = Some w \<and> reader_of w = Some r
    \<and> read_all get (map shape vs) r = Some (r', vs) \<and> \<not> ArIsError r' \<and> rbits r' = []"
proof -
  obtain w where w: "write_all put (BitWriter_ctor N b) vs = Some w"
    "appended (BitWriter_ctor N b) (concat (map code vs)) w"
    using write_all_ok [OF BitWriter_ctor_wf _ assms(1)] assms(2) by auto
  obtain r where r: "reader_of w = Some r" "BitReader_wf r" "\<not> ArIsError r" "\<not> ArForceByteSwapping r"
    "rbits r = concat (map code vs) @ []"
    using reader_of_ok [OF appendedD(1) [OF w(2)]] appendedD(2) [OF w(2)] by auto
  show ?thesis
    using w(1) r(1) read_all_ok [OF r(2,3,4) assms(1) r(5)] by blast
qed

end

text \<open>The values the protocol writes: one flag, integers of fixed width, bounded integers, bytes.\<close>

datatype field = FBit bool | FU8 u8 | FU16 u16 | FU32 u32 | FInt u32 u32 | FBytes "u8 list"

datatype field_shape = SBit | SU8 | SU16 | SU32 | SInt u32 | SBytes nat

fun field_put :: "BitWriter \<Rightarrow> field \<Rightarrow> BitWriter option" where
  "field_put w (FBit b) = WriteBit w (if b then 1 else 0)"
| "field_put w (FU8 v) = map_option fst (stream_u8 BitWriter_Serialize w v)"
| "field_put w (FU16 v) = map_option fst (stream_u16 BitWriter_Serialize w v)"
| "field_put w (FU32 v) = map_option fst (stream_u32 BitWriter_Serialize w v)"
| "field_put w (FInt v m) = BitWriter_SerializeInt w v m"
| "field_put w (FBytes V) = map_option fst (BitWriter_Serialize w V (length V))"

fun field_get :: "field_shape \<Rightarrow> BitReader \<Rightarrow> (BitReader \<times> field) option" where
  "field_get SBit r = map_option (\<lambda>(r, b). (r, FBit (b \<noteq> 0))) (ReadBit r)"
| "field_get SU8 r = map_option (\<lambda>(r, v). (r, FU8 v)) (stream_u8 BitReader_Serialize r 0)"
| "field_get SU16 r = map_option (\<lambda>(r, v). (r, FU16 v)) (stream_u16 BitReader_Serialize r 0)"
| "field_get SU32 r = map_option (\<lambda>(r, v). (r, FU32 v)) (stream_u32 BitReader_Serialize r 0)"
| "field_get (SInt m) r = map_option (\<lambda>(r, v). (r, FInt v m)) (BitReader_SerializeInt r 0 m)"
| "field_get (SBytes n) r = map_option (\<lambda>(r, V). (r, FBytes V)) (BitReader_Serialize r (replicate n 0) n)"

fun field_of :: "field \<Rightarrow> field_shape" where
  "field_of (FBit _) = SBit" | "field_of (FU8 _) = SU8" | "field_of (FU16 _) = SU16"
| "field_of (FU32 _) = SU32" | "field_of (FInt _ m) = SInt m" | "field_of (FBytes V) = SBytes (length V)"

fun field_code :: "field \<Rightarrow> bool list" where
  "field_code (FBit b) = [b]" | "field_code (FU8 v) = word_bits 8 v"
| "field_code (FU16 v) = word_bits 16 v" | "field_code (FU32 v) = word_bits 32 v"
| "field_code (FInt v m) = int_code 0 (unat v) (unat m)"
| "field_code (FBytes V) = bitslice V 0 (length V * 8)"

fun field_need :: "field \<Rightarrow> nat" where
  "field_need (FBit b) = 1" | "field_need (FU8 v) = 8" | "field_need (FU16 v) = 16"
| "field_need (FU32 v) = 32" | "field_need (FInt v m) = CeilLogTwo m"
| "field_need (FBytes V) = length V * 8"

fun field_valid :: "field \<Rightarrow> bool" where
  "field_valid (FInt v m) \<longleftrightarrow> 2 \<le> m \<and> v < m"
| "field_valid _ \<longleftrightarrow> True"

lemma ReadBit_front:
  assumes wf: "BitReader_wf r" and ok: "\<not> ArIsError r" and front: "rbits r = b # cs"
  shows "\<exists>r'. ReadBit r = Some (r', if b then 1 else 0) \<and> consumed r 1 r' \<and> rbits r' = cs"
proof -
  have room: "RPos r + 1 \<le> RMax r"
    using rbits_append_room [of r "[b]" cs] wf front by simp
  then have inb: "RPos r div 8 < length (RBuffer r)"
    using BitReader_wfD(1) [OF wf] by linarith
  have "buf_bit (RBuffer r) (RPos r) = b"
    using nth_rbits [of 0 r] front room by simp
  then have "ReadBit r = Some (r\<lparr>RPos := RPos r + 1\<rparr>, if b then 1 else 0)"
    using ok room inb by (simp add: ReadBit_def read_1_bit' buf_bit_def)
  moreover have "rbits (r\<lparr>RPos := RPos r + 1\<rparr>) = cs"
    using consumedD(2) [OF consumedI [OF wf room]] front by simp
  ultimately show ?thesis
    using consumedI [OF wf room] by auto
qed

lemma field_put_ok:
  assumes "BitWriter_wf w" and "\<not> ArForceByteSwapping w" and "field_valid v" and "WPos w + field_need v \<le> WMax w"
  shows "\<exists>w'. field_put w v = Some w' \<and> appended w (field_code v) w'"
proof (cases v)
  case (FBit b)
  then show ?thesis
    using WriteBit_fits [OF assms(1), of "if b then 1 else 0"] assms(4) by (cases b) auto
next
  case (FBytes V)
  then show ?thesis
    using Serialize_fits [OF assms(1), of "length V" V] assms(4) by auto
qed (use assms stream_u8_writes [OF assms(1)] stream_u16_writes [OF assms(1) _ assms(2)]
      stream_u32_writes [OF assms(1) _ assms(2)] SerializeInt_fits [OF assms(1)] in \<open>fastforce\<close>)+

lemma field_get_ok:
  assumes "BitReader_wf r" and "\<not> ArIsError r" and "\<not> ArForceByteSwapping r" and "field_valid v"
    and "rbits r = field_code v @ cs"
  shows "\<exists>r'. field_get (field_of v) r = Some (r', v) \<and> consumed r (length (field_code v)) r' \<and> rbits r' = cs"
proof (cases v)
  case (FBit b)
  then show ?thesis
    using ReadBit_front [OF assms(1,2), of b cs] assms(5) by (cases b) auto
next
  case (FBytes V)
  then obtain r' D where "BitReader_Serialize r (replicate (length V) 0) (length V) = Some (r', D)"
    "consumed r (length V * 8) r'" "rbits r' = cs" "length D = length V"
    "bitslice D 0 (length V * 8) = bitslice V 0 (length V * 8)"
    using Serialize_front [OF assms(1,2), of "bitslice V 0 (length V * 8)" cs "length V" "replicate (length V) 0"]
      assms(5) by auto
  moreover then have "D = V"
    by (intro buffer_eqI) (metis nth_bitslice add_0 mult.commute, metis nth_bitslice add_0 mult.commute)
  ultimately show ?thesis
    using FBytes by simp
next
  case (FInt x m)
  then show ?thesis
    using SerializeInt_front [OF assms(1,2), of x m cs 0] assms(4,5) by auto
qed (use assms stream_u8_reads [OF assms(1,2)] stream_u16_reads [OF assms(1,2) _ assms(3)]
      stream_u32_reads [OF assms(1,2) _ assms(3)] in \<open>fastforce\<close>)+

interpretation fields: codec field_put field_get field_of field_code field_need field_valid
proof
  fix v
  show "field_valid v \<Longrightarrow> length (field_code v) \<le> field_need v"
  proof (cases v)
    case (FInt x m)
    assume "field_valid v"
    with FInt show ?thesis
      using length_int_code [OF CeilLogTwo_bounds(1), of m 0 "unat x"] by simp
  qed auto
qed (use field_put_ok field_get_ok in blast)+

text \<open>
  C29. Whatever sequence of flags, bytes, 16 and 32 bit integers and bounded integers is written to
  a fresh buffer with room for it, a reader over the bits written gives back the same sequence,
  without an error and with no bit left over.
\<close>

theorem write_read_round_trip:
  assumes "\<forall>v\<in>set vs. field_valid v" and "sum_list (map field_need vs) \<le> N"
  shows "\<exists>w r r'. write_all field_put (BitWriter_ctor N b) vs = Some w \<and> reader_of w = Some r
    \<and> read_all field_get (map field_of vs) r = Some (r', vs) \<and> \<not> ArIsError r' \<and> rbits r' = []"
  using assms by (rule fields.round_trip)

theorem write_read_round_trip_witness:
  "\<exists>w r r'. write_all field_put (BitWriter_ctor 80 False) [FBit True, FInt 5 9, FU16 0xBEEF, FBytes [7, 9]] = Some w
    \<and> reader_of w = Some r
    \<and> read_all field_get (map field_of [FBit True, FInt 5 9, FU16 0xBEEF, FBytes [7, 9]]) r
        = Some (r', [FBit True, FInt 5 9, FU16 0xBEEF, FBytes [7, 9]])
    \<and> \<not> ArIsError r' \<and> rbits r' = []"
proof (rule write_read_round_trip)
  have "CeilLogTwo 9 \<le> 32"
    by (rule CeilLogTwo_bounds) simp
  then show "sum_list (map field_need [FBit True, FInt 5 9, FU16 0xBEEF, FBytes [7, 9]]) \<le> 80"
    by simp
qed simp

text \<open>
  A read of more bits than are left, or after an earlier error, zeroes the bytes of the value,
  sets the error flag and consumes nothing.
\<close>

theorem read_past_end_zeroes:
  assumes "ArIsError r \<or> RMax r < RPos r + n" and "n \<le> 8 * length Dest"
  shows "BitReader_SerializeBits r Dest n
    = Some (SetError r, replicate ((n + 7) div 8) 0 @ drop ((n + 7) div 8) Dest)"
  using assms by (rule SerializeBits_error)

theorem read_past_end_zeroes_witness:
  "BitReader_SerializeBits \<lparr>ArIsSaving = False, ArIsPersistent = True, ArIsNetArchive = True,
     ArIsLoading = True, ArForceByteSwapping = False, ArIsError = False,
     RBuffer = [0xFF, 0xFF], RMax = 12, RPos = 4\<rparr> [1, 2, 3] 9
   = Some (SetError \<lparr>ArIsSaving = False, ArIsPersistent = True, ArIsNetArchive = True,
     ArIsLoading = True, ArForceByteSwapping = False, ArIsError = False,
     RBuffer = [0xFF, 0xFF], RMax = 12, RPos = 4\<rparr>, replicate ((9 + 7) div 8) 0 @ drop ((9 + 7) div 8) [1, 2, 3])"
  by (rule read_past_end_zeroes) simp_all

end
