(* ===== verification/BufReader.thy ===== *)
theory BufReader
  imports Prelude
begin

text \<open>
  Core, \<open>BufferReader.h\<close>: a view of received bytes consumed from the front; and the byte queue
  \<open>ThreadsafeQueue\<close> (\<open>thread/LockQueue.h\<close>), whose operations are atomic under its lock and so are
  functions on a list.
\<close>

record BufferReader =
  BView :: "u8 list"
  BError :: bool

definition BufferReader_ctor :: "u8 list \<Rightarrow> BufferReader" where
  "BufferReader_ctor view = \<lparr>BView = view, BError = False\<rparr>"

definition CanRead :: "BufferReader \<Rightarrow> nat \<Rightarrow> bool" where
  "CanRead r byteSize \<longleftrightarrow> \<not> BError r \<and> byteSize \<le> length (BView r)"

definition GetBytesLeft :: "BufferReader \<Rightarrow> nat" where
  "GetBytesLeft r = length (BView r)"

text \<open>\<open>Read\<close> of a value of \<open>n\<close> bytes: its bytes, or nothing when they are not there.\<close>

definition BufferReader_Read :: "BufferReader \<Rightarrow> nat \<Rightarrow> BufferReader \<times> u8 list option" where
  "BufferReader_Read r n =
     (if length (BView r) < n then (r\<lparr>BError := True\<rparr>, None)
      else (r\<lparr>BView := drop n (BView r)\<rparr>, Some (take n (BView r))))"

definition ReadView :: "BufferReader \<Rightarrow> nat \<Rightarrow> BufferReader \<times> u8 list" where
  "ReadView r sz =
     (if length (BView r) < sz then (r\<lparr>BError := True\<rparr>, [])
      else (r\<lparr>BView := drop sz (BView r)\<rparr>, take sz (BView r)))"

definition queue_push :: "'a list \<Rightarrow> 'a \<Rightarrow> 'a list" where
  "queue_push DataQueue new_value = DataQueue @ [new_value]"

definition queue_try_pop :: "'a list \<Rightarrow> 'a list \<times> 'a option" where
  "queue_try_pop DataQueue = (case DataQueue of [] \<Rightarrow> ([], None) | Res # rest \<Rightarrow> (rest, Some Res))"

definition queue_empty :: "'a list \<Rightarrow> bool" where
  "queue_empty DataQueue \<longleftrightarrow> DataQueue = []"

section \<open>The contract of a queue\<close>

text \<open>What the senders and receivers of the engine rely on: what is popped is what was pushed, in order.\<close>

locale fifo =
  fixes push :: "'q \<Rightarrow> 'a \<Rightarrow> 'q" and try_pop :: "'q \<Rightarrow> 'q \<times> 'a option" and items :: "'q \<Rightarrow> 'a list"
  assumes push_items: "items (push q x) = items q @ [x]"
    and pop_items: "items q = x # xs \<Longrightarrow> \<exists>q'. try_pop q = (q', Some x) \<and> items q' = xs"
    and pop_empty: "items q = [] \<Longrightarrow> snd (try_pop q) = None"
begin

lemma pushes_items: "items (foldl push q xs) = items q @ xs"
  by (induction xs arbitrary: q) (auto simp: push_items)

lemma pop_order:
  assumes "items q = []"
  shows "\<exists>q'. try_pop (foldl push q (x # xs)) = (q', Some x) \<and> items q' = xs"
  using pop_items [of "foldl push q (x # xs)" x xs] pushes_items [of q "x # xs"] assms by simp

end

interpretation lock_queue: fifo queue_push queue_try_pop "\<lambda>q. q"
  by unfold_locales (auto simp: queue_push_def queue_try_pop_def)

lemma CanRead_iff: "\<not> BError r \<Longrightarrow> CanRead r n \<longleftrightarrow> n \<le> length (BView r)"
  by (simp add: CanRead_def)

lemma ReadView_ok: "n \<le> length (BView r) \<Longrightarrow> ReadView r n = (r\<lparr>BView := drop n (BView r)\<rparr>, take n (BView r))"
  by (simp add: ReadView_def)

lemma Read_ok: "n \<le> length (BView r) \<Longrightarrow>
    BufferReader_Read r n = (r\<lparr>BView := drop n (BView r)\<rparr>, Some (take n (BView r)))"
  by (simp add: BufferReader_Read_def)

end
