(* ===== verification/BunchBuild.thy ===== *)
theory BunchBuild
  imports BitReaderM BufReader
begin

text \<open>
  Network, \<open>net_packet/NetBunch\<close> and \<open>net_packet/NetBunchBuilder\<close>: messages submitted to a channel
  are gathered into bunches, a header of ten bytes followed by the messages. A message is the bytes
  at its pointer with the size it was submitted with; its release callback, a function of the
  application, is the list of released messages an operation returns. \<open>OutReliable\<close>, the last
  sequence number of the owning channel, is threaded through. The clock is read at three places
  whose values matter: the last \<open>ResetActive\<close> of the loop (\<open>t0\<close>), the check of the delay
  (\<open>t1\<close>), and the resets after it (\<open>t2\<close>).
\<close>

record NetMessage =
  MBuffer :: "u8 list"
  MSize :: u32
  MCallback :: bool

record BunchHeaderFields =
  FControl :: bool
  FOpen :: bool
  FClose :: bool
  FReliable :: bool
  FChIndex :: u8
  FChSequence :: u32
  FMessageCount :: u8
  FPayloadSize :: u16

record OutReadyBunch =
  HeaderBytes :: "u8 list"
  HeaderSize :: u32
  Messages :: "NetMessage list"
  PayloadBytes :: u32
  TotalSize :: u32
  BunchPacketId :: int
  BunchChIndex :: u8

section \<open>The header of a bunch\<close>

definition bunch_flags :: "BunchHeaderFields \<Rightarrow> u8" where
  "bunch_flags f = (if FControl f then 1 else 0) OR (if FOpen f then 2 else 0)
     OR (if FClose f then 4 else 0) OR (if FReliable f then 8 else 0)"

definition Encode :: "BitWriter \<Rightarrow> BunchHeaderFields \<Rightarrow> BitWriter option" where
  "Encode Buffer fld = do {
     let Buffer = BitWriter_Reset Buffer;
     (Buffer, _) \<leftarrow> BitWriter_Serialize Buffer [0] 1;
     (Buffer, _) \<leftarrow> BitWriter_Serialize Buffer [bunch_flags fld] 1;
     (Buffer, _) \<leftarrow> BitWriter_Serialize Buffer [FChIndex fld] 1;
     (Buffer, _) \<leftarrow> stream_u32 BitWriter_Serialize Buffer (FChSequence fld);
     (Buffer, _) \<leftarrow> BitWriter_Serialize Buffer [FMessageCount fld] 1;
     (Buffer, _) \<leftarrow> stream_u16 BitWriter_Serialize Buffer (FPayloadSize fld);
     B \<leftarrow> wr (WBuffer Buffer) 0 (word_of_nat (GetNumBytes Buffer));
     Some (Buffer\<lparr>WBuffer := B\<rparr>) }"

text \<open>The ten bytes, as a reference.\<close>

definition header_bytes :: "BunchHeaderFields \<Rightarrow> u8 list" where
  "header_bytes f = [10, bunch_flags f, FChIndex f] @ le_bytes 4 (FChSequence f)
     @ [FMessageCount f] @ le_bytes 2 (FPayloadSize f)"

lemma length_header_bytes [simp]: "length (header_bytes f) = 10"
  by (simp add: header_bytes_def)

lemma bitslice_Cons: "bitslice (b # bs) 0 (8 + n) = bitslice [b] 0 8 @ bitslice bs 0 n"
proof -
  have "bitslice (b # bs) 0 8 = bitslice [b] 0 8"
    by (rule bitslice_eqI) (simp add: buf_bit_def)
  moreover have "(8 + i) div 8 = Suc (i div 8)" for i :: nat
    by simp
  then have "bitslice (b # bs) 8 n = bitslice bs 0 n"
    by (intro bitslice_eqI) (simp add: buf_bit_def del: div_add_self1)
  ultimately show ?thesis
    by (simp add: bitslice_add)
qed

lemma bitslice_append:
  "bitslice (xs @ ys) 0 (8 * length xs + n) = bitslice xs 0 (8 * length xs) @ bitslice ys 0 n"
proof (induction xs)
  case (Cons x xs)
  have e: "8 * length (x # xs) + n = 8 + (8 * length xs + n)" "8 * length (x # xs) = 8 + 8 * length xs"
    by simp_all
  show ?case
    unfolding e(1) unfolding e(2) append_Cons bitslice_Cons Cons append_assoc by (rule refl)
qed simp

lemma contents_bytes:
  assumes "BitWriter_wf w" and "wbits w = bitslice V 0 (8 * length V)"
  shows "take (length V) (WBuffer w) = V" and "length V \<le> length (WBuffer w)" and "WPos w = 8 * length V"
proof -
  show p: "WPos w = 8 * length V"
    using arg_cong [OF assms(2), of length] by simp
  show l: "length V \<le> length (WBuffer w)"
    using BitWriter_wfD(1,2) [OF assms(1)] p by linarith
  have "buf_bit (take (length V) (WBuffer w)) i = buf_bit V i" if "i < 8 * length V" for i
  proof -
    have "wbits w ! i = bitslice V 0 (8 * length V) ! i"
      using assms(2) by simp
    then show ?thesis
      using that p by (simp add: wbits_def buf_bit_def div_less_iff_less_mult mult.commute)
  qed
  then show "take (length V) (WBuffer w) = V"
    using l by (intro buffer_eqI) auto
qed

lemma word_bits_le: "word_bits (8 * n) x = bitslice (le_bytes n x) 0 (8 * n)"
  by (simp add: bitslice_le_bytes)

lemma Encode_bytes:
  assumes wf: "BitWriter_wf w" and noswap: "\<not> ArForceByteSwapping w" and room: "80 \<le> WMax w"
  shows "\<exists>w'. Encode w f = Some w' \<and> GetNumBytes w' = 10 \<and> take 10 (WBuffer w') = header_bytes f"
proof -
  let ?w = "BitWriter_Reset w"
  have w0: "BitWriter_wf ?w" "WPos ?w = 0" "WMax ?w = WMax w" "\<not> ArForceByteSwapping ?w"
    using wf noswap by (auto simp: BitWriter_Reset_wf) (simp_all add: BitWriter_Reset_def BitController_Reset_def)
  obtain w1 where w1: "BitWriter_Serialize ?w [0] 1 = Some (w1, [0])" "appended ?w (bitslice [0] 0 8) w1"
    using Serialize_fits [OF w0(1), of 1 "[0]"] w0 room by auto
  note d1 = appendedD [OF w1(2)]
  obtain w2 where w2: "BitWriter_Serialize w1 [bunch_flags f] 1 = Some (w2, [bunch_flags f])"
    "appended w1 (bitslice [bunch_flags f] 0 8) w2"
    using Serialize_fits [OF d1(1), of 1 "[bunch_flags f]"] d1 w0 room by auto
  note d2 = appendedD [OF w2(2)]
  obtain w3 where w3: "BitWriter_Serialize w2 [FChIndex f] 1 = Some (w3, [FChIndex f])"
    "appended w2 (bitslice [FChIndex f] 0 8) w3"
    using Serialize_fits [OF d2(1), of 1 "[FChIndex f]"] d1 d2 w0 room by auto
  note d3 = appendedD [OF w3(2)]
  obtain w4 where w4: "stream_u32 BitWriter_Serialize w3 (FChSequence f) = Some (w4, FChSequence f)"
    "appended w3 (word_bits 32 (FChSequence f)) w4"
    using stream_u32_writes [OF d3(1)] d1 d2 d3 w0 room by auto
  note d4 = appendedD [OF w4(2)]
  obtain w5 where w5: "BitWriter_Serialize w4 [FMessageCount f] 1 = Some (w5, [FMessageCount f])"
    "appended w4 (bitslice [FMessageCount f] 0 8) w5"
    using Serialize_fits [OF d4(1), of 1 "[FMessageCount f]"] d1 d2 d3 d4 w0 room by auto
  note d5 = appendedD [OF w5(2)]
  obtain w6 where w6: "stream_u16 BitWriter_Serialize w5 (FPayloadSize f) = Some (w6, FPayloadSize f)"
    "appended w5 (word_bits 16 (FPayloadSize f)) w6"
    using stream_u16_writes [OF d5(1)] d1 d2 d3 d4 d5 w0 room by auto
  note d6 = appendedD [OF w6(2)]
  let ?V = "0 # bunch_flags f # FChIndex f # le_bytes 4 (FChSequence f) @ [FMessageCount f] @ le_bytes 2 (FPayloadSize f)"
  have "wbits w6 = bitslice [0] 0 8 @ bitslice [bunch_flags f] 0 8 @ bitslice [FChIndex f] 0 8
      @ word_bits 32 (FChSequence f) @ bitslice [FMessageCount f] 0 8 @ word_bits 16 (FPayloadSize f)"
    using d1(2) d2(2) d3(2) d4(2) d5(2) d6(2) by simp
  also have "\<dots> = bitslice ?V 0 80"
    using word_bits_le [of 4 "FChSequence f"] word_bits_le [of 2 "FPayloadSize f"]
      bitslice_Cons [of 0 _ 72] bitslice_Cons [of "bunch_flags f" _ 64] bitslice_Cons [of "FChIndex f" _ 56]
      bitslice_append [of "le_bytes 4 (FChSequence f)" _ 24] bitslice_Cons [of "FMessageCount f" _ 16]
    by simp
  finally have c: "wbits w6 = bitslice ?V 0 (8 * length ?V)"
    by simp
  note b = contents_bytes [OF d6(1) c]
  have len: "10 \<le> length (WBuffer w6)" "WPos w6 = 80"
    using b(2,3) by simp_all
  then have len0: "0 < length (WBuffer w6)"
    by linarith
  have "take 10 (WBuffer w6) = ?V"
    using b(1) by simp
  then have "take 10 ((WBuffer w6)[0 := 10]) = header_bytes f"
    by (simp add: take_update_swap header_bytes_def)
  moreover have "Encode w f = Some (w6\<lparr>WBuffer := (WBuffer w6)[0 := 10]\<rparr>)"
    using w1(1) w2(1) w3(1) w4(1) w5(1) w6(1) len len0 by (simp add: Encode_def GetNumBytes_def Let_def)
  ultimately show ?thesis
    using len by (simp add: GetNumBytes_def)
qed

section \<open>The builder\<close>

record BunchPolicy =
  MaxPacketBytes :: u32
  PacketHeaderBytes :: u32
  BunchHeaderBytes :: u32
  MaxMsgsPerBunch :: u32
  MaxCoalesceUs :: u32

definition BunchPolicy_default :: BunchPolicy where
  "BunchPolicy_default = \<lparr>MaxPacketBytes = 1024, PacketHeaderBytes = 16, BunchHeaderBytes = 8,
     MaxMsgsPerBunch = 255, MaxCoalesceUs = 2000\<rparr>"

record ChannelBunchBuilder =
  ActiveMsgs :: "NetMessage list"
  ActivePayload :: u32
  ActiveHasInit :: bool
  BChIndex :: u8
  BControl :: bool
  BOpen :: bool
  BClose :: bool
  BReliable :: bool
  Policy :: BunchPolicy
  MaxBunchPayload :: u32
  QueuedMessage :: "NetMessage list"
  QueuedOutBunch :: "OutReadyBunch list"
  LastEmitUs :: u64

definition Builder_ctor :: "u8 \<Rightarrow> bool \<Rightarrow> bool \<Rightarrow> bool \<Rightarrow> bool \<Rightarrow> BunchPolicy \<Rightarrow> ChannelBunchBuilder" where
  "Builder_ctor chIndex control opn clse reliable policy =
     \<lparr>ActiveMsgs = [], ActivePayload = 0, ActiveHasInit = False, BChIndex = chIndex,
      BControl = control, BOpen = opn, BClose = clse, BReliable = reliable, Policy = policy,
      MaxBunchPayload = MaxPacketBytes policy - PacketHeaderBytes policy - BunchHeaderBytes policy,
      QueuedMessage = [], QueuedOutBunch = [], LastEmitUs = 0\<rparr>"

definition Submit :: "ChannelBunchBuilder \<Rightarrow> NetMessage \<Rightarrow> ChannelBunchBuilder" where
  "Submit b m = b\<lparr>QueuedMessage := queue_push (QueuedMessage b) m\<rparr>"

definition ResetActive :: "ChannelBunchBuilder \<Rightarrow> u64 \<Rightarrow> ChannelBunchBuilder" where
  "ResetActive b now = b\<lparr>ActiveMsgs := [], ActivePayload := 0, ActiveHasInit := True, LastEmitUs := now\<rparr>"

definition IsFull :: "ChannelBunchBuilder \<Rightarrow> bool" where
  "IsFull b \<longleftrightarrow> unat (MaxMsgsPerBunch (Policy b)) \<le> length (ActiveMsgs b)
     \<or> MaxBunchPayload b \<le> ActivePayload b"

definition TryInsert :: "ChannelBunchBuilder \<Rightarrow> NetMessage \<Rightarrow> ChannelBunchBuilder \<times> bool" where
  "TryInsert b m =
     (if unat (MaxMsgsPerBunch (Policy b)) \<le> length (ActiveMsgs b) then (b, False)
      else if MaxBunchPayload b < ActivePayload b + MSize m then (b, False)
      else (b\<lparr>ActiveMsgs := ActiveMsgs b @ [m], ActivePayload := ActivePayload b + MSize m\<rparr>, True))"

definition SealAndPush :: "ChannelBunchBuilder \<Rightarrow> u32 \<Rightarrow> (ChannelBunchBuilder \<times> u32) option" where
  "SealAndPush b OutReliable = do {
     let OutReliable = OutReliable + 1;
     let HeaderField = \<lparr>FControl = BControl b, FOpen = BOpen b, FClose = BClose b,
           FReliable = BReliable b, FChIndex = BChIndex b, FChSequence = OutReliable,
           FMessageCount = word_of_nat (length (ActiveMsgs b)), FPayloadSize = ucast (ActivePayload b)\<rparr>;
     Header \<leftarrow> Encode (BitWriter_ctor 128 False) HeaderField;
     let n = GetNumBytes Header;
     let Bunch = \<lparr>HeaderBytes = take n (WBuffer Header), HeaderSize = word_of_nat n,
           Messages = ActiveMsgs b, PayloadBytes = ActivePayload b,
           TotalSize = ActivePayload b + word_of_nat n, BunchPacketId = 0, BunchChIndex = BChIndex b\<rparr>;
     Some (b\<lparr>ActiveMsgs := [], QueuedOutBunch := QueuedOutBunch b @ [Bunch]\<rparr>, OutReliable) }"

text \<open>The handling of one popped message.\<close>

definition Pump_step :: "ChannelBunchBuilder \<Rightarrow> u32 \<Rightarrow> u64 \<Rightarrow> NetMessage \<Rightarrow> (ChannelBunchBuilder \<times> u32) option" where
  "Pump_step b OutReliable t0 m = do {
     let (b, inserted) = TryInsert b m;
     (b, OutReliable) \<leftarrow>
       (if \<not> inserted then do {
          (b, OutReliable) \<leftarrow> SealAndPush b OutReliable;
          Some (fst (TryInsert (ResetActive b t0) m), OutReliable) }
        else Some (b, OutReliable));
     if IsFull b then do {
       (b, OutReliable) \<leftarrow> SealAndPush b OutReliable;
       Some (ResetActive b t0, OutReliable) }
     else Some (b, OutReliable) }"

fun Pump_loop :: "nat \<Rightarrow> ChannelBunchBuilder \<Rightarrow> u32 \<Rightarrow> u64 \<Rightarrow> (ChannelBunchBuilder \<times> u32) option" where
  "Pump_loop 0 b OutReliable t0 = Some (b, OutReliable)"
| "Pump_loop (Suc left) b OutReliable t0 =
     (case queue_try_pop (QueuedMessage b) of
        (_, None) \<Rightarrow> Some (b, OutReliable)
      | (rest, Some m) \<Rightarrow> do {
          (b, OutReliable) \<leftarrow> Pump_step (b\<lparr>QueuedMessage := rest\<rparr>) OutReliable t0 m;
          Pump_loop left b OutReliable t0 })"

definition Pump :: "ChannelBunchBuilder \<Rightarrow> u32 \<Rightarrow> nat \<Rightarrow> bool \<Rightarrow> u64 \<Rightarrow> u64 \<Rightarrow> u64
    \<Rightarrow> (ChannelBunchBuilder \<times> u32) option" where
  "Pump b OutReliable batchLimit flushTail t0 t1 t2 = do {
     let b = (if \<not> ActiveHasInit b then ResetActive b t0 else b);
     (b, OutReliable) \<leftarrow> Pump_loop batchLimit b OutReliable t0;
     (b, OutReliable) \<leftarrow>
       (if 0 < MaxCoalesceUs (Policy b) \<and> ActiveMsgs b \<noteq> [] \<and> ucast (MaxCoalesceUs (Policy b)) \<le> t1 - LastEmitUs b
        then do {
          (b, OutReliable) \<leftarrow> SealAndPush b OutReliable;
          Some (ResetActive b t2, OutReliable) }
        else Some (b, OutReliable));
     if flushTail \<and> ActiveMsgs b \<noteq> [] then do {
       (b, OutReliable) \<leftarrow> SealAndPush b OutReliable;
       Some (ResetActive b t2, OutReliable) }
     else Some (b, OutReliable) }"

definition TryDequeueReady :: "ChannelBunchBuilder \<Rightarrow> ChannelBunchBuilder \<times> OutReadyBunch option" where
  "TryDequeueReady b =
     (case QueuedOutBunch b of [] \<Rightarrow> (b, None) | x # rest \<Rightarrow> (b\<lparr>QueuedOutBunch := rest\<rparr>, Some x))"

text \<open>The messages whose release callback is called.\<close>

definition DiscardOutReadyBunch :: "OutReadyBunch \<Rightarrow> NetMessage list" where
  "DiscardOutReadyBunch Bunch = filter MCallback (Messages Bunch)"

definition IsHeaderOnlyBunch :: "OutReadyBunch \<Rightarrow> bool" where
  "IsHeaderOnlyBunch Bunch \<longleftrightarrow> TotalSize Bunch \<le> HeaderSize Bunch"

section \<open>What a pump produces\<close>

text \<open>The configuration of a builder, which no operation changes.\<close>

definition config :: "ChannelBunchBuilder \<Rightarrow> (bool \<times> bool \<times> bool \<times> bool \<times> u8) \<times> BunchPolicy \<times> u32" where
  "config b = ((BControl b, BOpen b, BClose b, BReliable b, BChIndex b), Policy b, MaxBunchPayload b)"

definition fields_of :: "ChannelBunchBuilder \<Rightarrow> u32 \<Rightarrow> NetMessage list \<Rightarrow> u32 \<Rightarrow> BunchHeaderFields" where
  "fields_of b s msgs payload = \<lparr>FControl = BControl b, FOpen = BOpen b, FClose = BClose b,
     FReliable = BReliable b, FChIndex = BChIndex b, FChSequence = s,
     FMessageCount = word_of_nat (length msgs), FPayloadSize = ucast payload\<rparr>"

definition bunch_of :: "ChannelBunchBuilder \<Rightarrow> u32 \<Rightarrow> NetMessage list \<Rightarrow> u32 \<Rightarrow> OutReadyBunch" where
  "bunch_of b s msgs payload = \<lparr>HeaderBytes = header_bytes (fields_of b s msgs payload), HeaderSize = 10,
     Messages = msgs, PayloadBytes = payload, TotalSize = payload + 10, BunchPacketId = 0,
     BunchChIndex = BChIndex b\<rparr>"

definition msgs_size :: "NetMessage list \<Rightarrow> nat" where
  "msgs_size msgs = sum_list (map (\<lambda>m. unat (MSize m)) msgs)"

definition bunch_good :: "ChannelBunchBuilder \<Rightarrow> u32 \<Rightarrow> OutReadyBunch \<Rightarrow> bool" where
  "bunch_good b s x \<longleftrightarrow> x = bunch_of b s (Messages x) (PayloadBytes x) \<and> length (Messages x) \<le> 255
     \<and> msgs_size (Messages x) = unat (PayloadBytes x) \<and> PayloadBytes x \<le> MaxBunchPayload b"

fun good_from :: "ChannelBunchBuilder \<Rightarrow> u32 \<Rightarrow> OutReadyBunch list \<Rightarrow> bool" where
  "good_from b s [] \<longleftrightarrow> True"
| "good_from b s (x # xs) \<longleftrightarrow> bunch_good b (s + 1) x \<and> good_from b (s + 1) xs"

lemma good_from_append:
  "good_from b s (xs @ ys) \<longleftrightarrow> good_from b s xs \<and> good_from b (s + word_of_nat (length xs)) ys"
  by (induction xs arbitrary: s) (auto simp: ac_simps)

lemma bunch_of_cong: "config b = config b' \<Longrightarrow> bunch_of b s m p = bunch_of b' s m p"
  by (simp add: bunch_of_def fields_of_def config_def)

lemma good_from_cong: "config b = config b' \<Longrightarrow> good_from b s xs = good_from b' s xs"
proof (induction xs arbitrary: s)
  case (Cons x xs)
  have "MaxBunchPayload b = MaxBunchPayload b'"
    using Cons.prems by (simp add: config_def)
  then show ?case
    using Cons bunch_of_cong [OF Cons.prems] by (simp add: bunch_good_def)
qed simp

text \<open>Invariant of the active messages.\<close>

definition builder_wf :: "ChannelBunchBuilder \<Rightarrow> bool" where
  "builder_wf b \<longleftrightarrow> MaxMsgsPerBunch (Policy b) = 255 \<and> MaxBunchPayload b < 0x10000
     \<and> length (ActiveMsgs b) \<le> 255 \<and> msgs_size (ActiveMsgs b) = unat (ActivePayload b)
     \<and> ActivePayload b \<le> MaxBunchPayload b"

text \<open>Messages that a bunch can hold.\<close>

definition fits :: "ChannelBunchBuilder \<Rightarrow> NetMessage \<Rightarrow> bool" where
  "fits b m \<longleftrightarrow> MSize m \<le> MaxBunchPayload b"

lemma SealAndPush_eq:
  "SealAndPush b s = Some (b\<lparr>ActiveMsgs := [], QueuedOutBunch := QueuedOutBunch b
     @ [bunch_of b (s + 1) (ActiveMsgs b) (ActivePayload b)]\<rparr>, s + 1)"
proof -
  obtain w where w: "Encode (BitWriter_ctor 128 False) (fields_of b (s + 1) (ActiveMsgs b) (ActivePayload b)) = Some w"
    "GetNumBytes w = 10" "take 10 (WBuffer w) = header_bytes (fields_of b (s + 1) (ActiveMsgs b) (ActivePayload b))"
    using Encode_bytes [OF BitWriter_ctor_wf, of 128 False] by auto
  then show ?thesis
    by (simp add: SealAndPush_def fields_of_def bunch_of_def Let_def)
qed

lemma TryInsert_cases:
  assumes wf: "builder_wf b" and small: "unat (MSize m) < 2 ^ 31"
  shows "TryInsert b m = (if length (ActiveMsgs b) < 255 \<and> unat (ActivePayload b) + unat (MSize m) \<le> unat (MaxBunchPayload b)
      then (b\<lparr>ActiveMsgs := ActiveMsgs b @ [m], ActivePayload := ActivePayload b + MSize m\<rparr>, True) else (b, False))"
    and "snd (TryInsert b m) \<Longrightarrow> builder_wf (fst (TryInsert b m))"
proof -
  have p: "unat (ActivePayload b) < 2 ^ 16"
    using wf by (simp add: builder_wf_def word_less_nat_alt word_le_nat_alt)
  then have s: "unat (ActivePayload b + MSize m) = unat (ActivePayload b) + unat (MSize m)"
    using small by (intro unat_add_lem [THEN iffD1]) simp
  show eq: "TryInsert b m = (if length (ActiveMsgs b) < 255 \<and> unat (ActivePayload b) + unat (MSize m) \<le> unat (MaxBunchPayload b)
      then (b\<lparr>ActiveMsgs := ActiveMsgs b @ [m], ActivePayload := ActivePayload b + MSize m\<rparr>, True) else (b, False))"
    using wf s by (auto simp: TryInsert_def builder_wf_def word_less_nat_alt)
  show "snd (TryInsert b m) \<Longrightarrow> builder_wf (fst (TryInsert b m))"
    using wf s unfolding eq by (auto simp: builder_wf_def msgs_size_def word_le_nat_alt split: if_splits)
qed

lemma ResetActive_facts:
  "builder_wf b \<Longrightarrow> builder_wf (ResetActive b t)" "config (ResetActive b t) = config b"
  "QueuedMessage (ResetActive b t) = QueuedMessage b" "QueuedOutBunch (ResetActive b t) = QueuedOutBunch b"
  "ActiveMsgs (ResetActive b t) = []"
  by (auto simp: builder_wf_def ResetActive_def config_def msgs_size_def)

text \<open>
  \<open>progress b s b' s' taken\<close>: from \<open>b\<close> to \<open>b'\<close> the messages \<open>taken\<close> moved into bunches or the
  active list, in order, the bunches numbered from \<open>s\<close> on.
\<close>

definition progress :: "ChannelBunchBuilder \<Rightarrow> u32 \<Rightarrow> ChannelBunchBuilder \<Rightarrow> u32 \<Rightarrow> NetMessage list \<Rightarrow> bool" where
  "progress b s b' s' taken \<longleftrightarrow> builder_wf b' \<and> config b' = config b
     \<and> (\<exists>bs. QueuedOutBunch b' = QueuedOutBunch b @ bs \<and> good_from b s bs \<and> s' = s + word_of_nat (length bs)
          \<and> concat (map Messages bs) @ ActiveMsgs b' = ActiveMsgs b @ taken)"

lemma progress_refl: "builder_wf b \<Longrightarrow> progress b s b s []"
  by (simp add: progress_def)

lemma progress_trans:
  assumes "progress b s b1 s1 xs" and "progress b1 s1 b2 s2 ys"
  shows "progress b s b2 s2 (xs @ ys)"
proof -
  obtain bs cs where *: "QueuedOutBunch b1 = QueuedOutBunch b @ bs" "good_from b s bs" "s1 = s + word_of_nat (length bs)"
    "concat (map Messages bs) @ ActiveMsgs b1 = ActiveMsgs b @ xs" "config b1 = config b"
    "QueuedOutBunch b2 = QueuedOutBunch b1 @ cs" "good_from b1 s1 cs" "s2 = s1 + word_of_nat (length cs)"
    "concat (map Messages cs) @ ActiveMsgs b2 = ActiveMsgs b1 @ ys" "config b2 = config b1" "builder_wf b2"
    using assms by (auto simp: progress_def)
  have "good_from b s (bs @ cs)"
    using *(2,3,7) good_from_cong [OF *(5)] by (simp add: good_from_append)
  moreover have "concat (map Messages (bs @ cs)) @ ActiveMsgs b2 = ActiveMsgs b @ xs @ ys"
    using *(4,9) by (metis append.assoc concat_append map_append)
  ultimately show ?thesis
    using * unfolding progress_def by (intro conjI exI [of _ "bs @ cs"]) (auto simp: add.assoc)
qed

lemma progress_seal:
  assumes "builder_wf b"
  shows "\<exists>b'. SealAndPush b s = Some (b', s + 1) \<and> progress b s (ResetActive b' t) (s + 1) []
    \<and> QueuedMessage b' = QueuedMessage b"
proof -
  let ?x = "bunch_of b (s + 1) (ActiveMsgs b) (ActivePayload b)"
  have "bunch_good b (s + 1) ?x"
    using assms by (simp add: bunch_good_def bunch_of_def builder_wf_def)
  then have "good_from b s [?x]" "Messages ?x = ActiveMsgs b"
    by (simp_all add: bunch_of_def)
  then show ?thesis
    using assms by (auto simp: SealAndPush_eq progress_def ResetActive_def builder_wf_def config_def msgs_size_def
        intro!: exI [of _ "[?x]"])
qed

lemma progress_insert:
  "builder_wf b \<Longrightarrow> unat (MSize m) < 2 ^ 31 \<Longrightarrow> snd (TryInsert b m) \<Longrightarrow> progress b s (fst (TryInsert b m)) s [m]"
  using TryInsert_cases [of b m] by (auto simp: progress_def config_def split: if_splits)

lemma TryInsert_fields:
  "QueuedMessage (fst (TryInsert b m)) = QueuedMessage b" "\<not> snd (TryInsert b m) \<Longrightarrow> fst (TryInsert b m) = b"
  by (auto simp: TryInsert_def)

text \<open>One message: it is inserted, or the bunch is sealed and the message starts the next one.\<close>

lemma progress_message:
  assumes wf: "builder_wf b" and small: "unat (MSize m) < 2 ^ 31"
  shows "\<exists>b' s'. (if \<not> snd (TryInsert b m) then do {
               (b, OutReliable) \<leftarrow> SealAndPush (fst (TryInsert b m)) s;
               Some (fst (TryInsert (ResetActive b t0) m), OutReliable) }
             else Some (fst (TryInsert b m), s)) = Some (b', s')
    \<and> progress b s b' s' (if fits b m then [m] else []) \<and> QueuedMessage b' = QueuedMessage b"
proof (cases "snd (TryInsert b m)")
  case True
  then have "fits b m"
    using TryInsert_cases(1) [OF wf small] by (auto simp: fits_def word_le_nat_alt split: if_splits)
  then show ?thesis
    using True progress_insert [OF wf small True] by (simp add: TryInsert_fields)
next
  case False
  obtain b1 where b1: "SealAndPush b s = Some (b1, s + 1)" "progress b s (ResetActive b1 t0) (s + 1) []"
    "QueuedMessage b1 = QueuedMessage b"
    using progress_seal [OF wf] by blast
  let ?r = "ResetActive b1 t0"
  have r: "builder_wf ?r" "config ?r = config b"
    using b1(2) by (auto simp: progress_def)
  have ins: "snd (TryInsert ?r m) \<longleftrightarrow> fits b m"
    using TryInsert_cases(1) [OF r(1) small] r(2)
    by (auto simp: ResetActive_def fits_def config_def word_le_nat_alt)
  have q: "QueuedMessage (fst (TryInsert ?r m)) = QueuedMessage b"
    using b1(3) by (simp add: TryInsert_fields ResetActive_facts)
  show ?thesis
  proof (cases "fits b m")
    case True
    have "progress b s (fst (TryInsert ?r m)) (s + 1) ([] @ [m])"
      by (rule progress_trans [OF b1(2)]) (use progress_insert [OF r(1) small] True ins in blast)
    then show ?thesis
      using False b1(1) q True by (simp add: TryInsert_fields)
  next
    case nf: False
    then have "fst (TryInsert ?r m) = ?r"
      using ins TryInsert_fields(2) by blast
    then show ?thesis
      using False b1 nf q by (simp add: TryInsert_fields ResetActive_facts)
  qed
qed

lemma progress_full:
  assumes "builder_wf b"
  shows "\<exists>b' s'. (if IsFull b then do {
               (b, OutReliable) \<leftarrow> SealAndPush b s;
               Some (ResetActive b t0, OutReliable) }
             else Some (b, s)) = Some (b', s')
    \<and> progress b s b' s' [] \<and> QueuedMessage b' = QueuedMessage b"
  using progress_seal [OF assms, of s t0] progress_refl [OF assms] by (auto simp: ResetActive_facts)

lemma fits_cong: "config b = config b' \<Longrightarrow> fits b = fits b'"
  by (auto simp: fits_def config_def)

lemma progress_step:
  assumes wf: "builder_wf b" and small: "unat (MSize m) < 2 ^ 31"
  shows "\<exists>b' s'. Pump_step b s t0 m = Some (b', s')
    \<and> progress b s b' s' (if fits b m then [m] else []) \<and> QueuedMessage b' = QueuedMessage b"
proof -
  obtain b1 s1 where r1: "(if \<not> snd (TryInsert b m) then do {
               (b, OutReliable) \<leftarrow> SealAndPush (fst (TryInsert b m)) s;
               Some (fst (TryInsert (ResetActive b t0) m), OutReliable) }
             else Some (fst (TryInsert b m), s)) = Some (b1, s1)"
    "progress b s b1 s1 (if fits b m then [m] else [])" "QueuedMessage b1 = QueuedMessage b"
    using progress_message [OF wf small] by blast
  have w1: "builder_wf b1"
    using r1(2) by (auto simp: progress_def)
  obtain b2 s2 where r2: "(if IsFull b1 then do {
             (b, OutReliable) \<leftarrow> SealAndPush b1 s1;
             Some (ResetActive b t0, OutReliable) }
           else Some (b1, s1)) = Some (b2, s2)"
    "progress b1 s1 b2 s2 []" "QueuedMessage b2 = QueuedMessage b1"
    using progress_full [OF w1] by blast
  have "Pump_step b s t0 m = Some (b2, s2)"
    unfolding Pump_step_def Let_def case_prod_beta'
    using r1(1) r2(1) by (simp only: case_prod_beta' bind.simps fst_conv snd_conv)
  then show ?thesis
    using progress_trans [OF r1(2) r2(2)] r1(3) r2(3) by simp
qed

lemma progress_Pump_loop:
  "builder_wf b \<Longrightarrow> \<forall>m\<in>set (QueuedMessage b). unat (MSize m) < 2 ^ 31 \<Longrightarrow>
   \<exists>b' s'. Pump_loop n b s t0 = Some (b', s')
     \<and> progress b s b' s' (filter (fits b) (take n (QueuedMessage b)))
     \<and> QueuedMessage b' = drop n (QueuedMessage b)"
proof (induction n arbitrary: b s)
  case 0
  then show ?case
    by (simp add: progress_refl)
next
  case (Suc n)
  show ?case
  proof (cases "QueuedMessage b")
    case Nil
    then show ?thesis
      using Suc.prems by (simp add: queue_try_pop_def progress_refl)
  next
    case (Cons m q)
    define b0 where "b0 = b\<lparr>QueuedMessage := q\<rparr>"
    have b0: "builder_wf b0" "config b0 = config b" "QueuedMessage b0 = q"
      using Suc.prems(1) by (simp_all add: b0_def builder_wf_def config_def)
    have small: "unat (MSize m) < 2 ^ 31" "\<forall>m\<in>set q. unat (MSize m) < 2 ^ 31"
      using Suc.prems(2) Cons by auto
    obtain b2 s2 where r2: "Pump_step b0 s t0 m = Some (b2, s2)"
      "progress b0 s b2 s2 (if fits b0 m then [m] else [])" "QueuedMessage b2 = q"
      using progress_step [OF b0(1) small(1)] b0(3) by metis
    have w2: "builder_wf b2" "config b2 = config b0"
      using r2(2) by (auto simp: progress_def)
    obtain b3 s3 where r3: "Pump_loop n b2 s2 t0 = Some (b3, s3)"
      "progress b2 s2 b3 s3 (filter (fits b2) (take n q))" "QueuedMessage b3 = drop n q"
      using Suc.IH [OF w2(1)] small(2) r2(3) by blast
    have "progress b0 s b3 s3 ((if fits b0 m then [m] else []) @ filter (fits b2) (take n q))"
      by (rule progress_trans [OF r2(2) r3(2)])
    then have p: "progress b s b3 s3 (filter (fits b) (take (Suc n) (QueuedMessage b)))"
      using fits_cong [of b0 b] fits_cong [of b2 b] b0(2) w2(2) Cons
        good_from_cong [OF b0(2)]
      by (auto simp: progress_def b0_def split: if_splits)
    have "Pump_loop (Suc n) b s t0 = Some (b3, s3)"
      using r2(1) r3(1) Cons by (simp add: queue_try_pop_def b0_def)
    with p r3(3) Cons show ?thesis
      by auto
  qed
qed

lemma progress_flush:
  assumes "builder_wf b"
  shows "\<exists>b' s'. (if P then do {
               (b, OutReliable) \<leftarrow> SealAndPush b s;
               Some (ResetActive b t, OutReliable) }
             else Some (b, s)) = Some (b', s')
    \<and> progress b s b' s' [] \<and> QueuedMessage b' = QueuedMessage b \<and> (P \<longrightarrow> ActiveMsgs b' = [])"
  using progress_seal [OF assms, of s t] progress_refl [OF assms] by (auto simp: ResetActive_facts)

lemma progress_Pump:
  assumes wf: "builder_wf b" and init: "ActiveHasInit b \<or> ActiveMsgs b = []"
    and small: "\<forall>m\<in>set (QueuedMessage b). unat (MSize m) < 2 ^ 31"
  shows "\<exists>b' s'. Pump b s batchLimit flushTail t0 t1 t2 = Some (b', s')
    \<and> progress b s b' s' (filter (fits b) (take batchLimit (QueuedMessage b)))
    \<and> QueuedMessage b' = drop batchLimit (QueuedMessage b) \<and> (flushTail \<longrightarrow> ActiveMsgs b' = [])"
proof -
  define b0 where "b0 = (if \<not> ActiveHasInit b then ResetActive b t0 else b)"
  have b0: "builder_wf b0" "config b0 = config b" "QueuedMessage b0 = QueuedMessage b" "progress b s b0 s []"
    using wf init by (auto simp: b0_def ResetActive_facts progress_def)
  obtain b1 s1 where r1: "Pump_loop batchLimit b0 s t0 = Some (b1, s1)"
    "progress b0 s b1 s1 (filter (fits b0) (take batchLimit (QueuedMessage b)))"
    "QueuedMessage b1 = drop batchLimit (QueuedMessage b)"
    using progress_Pump_loop [OF b0(1), of batchLimit s t0] small b0(3) by auto
  have w1: "builder_wf b1"
    using r1(2) by (simp add: progress_def)
  define P where "P \<longleftrightarrow> 0 < MaxCoalesceUs (Policy b1) \<and> ActiveMsgs b1 \<noteq> []
    \<and> ucast (MaxCoalesceUs (Policy b1)) \<le> t1 - LastEmitUs b1"
  obtain b2 s2 where r2: "(if P then do {
               (b, OutReliable) \<leftarrow> SealAndPush b1 s1;
               Some (ResetActive b t2, OutReliable) }
             else Some (b1, s1)) = Some (b2, s2)"
    "progress b1 s1 b2 s2 []" "QueuedMessage b2 = QueuedMessage b1"
    using progress_flush [OF w1] by metis
  have w2: "builder_wf b2"
    using r2(2) by (simp add: progress_def)
  obtain b3 s3 where r3: "(if flushTail \<and> ActiveMsgs b2 \<noteq> [] then do {
               (b, OutReliable) \<leftarrow> SealAndPush b2 s2;
               Some (ResetActive b t2, OutReliable) }
             else Some (b2, s2)) = Some (b3, s3)"
    "progress b2 s2 b3 s3 []" "QueuedMessage b3 = QueuedMessage b2"
    "flushTail \<and> ActiveMsgs b2 \<noteq> [] \<longrightarrow> ActiveMsgs b3 = []"
    using progress_flush [OF w2] by metis
  have "Pump b s batchLimit flushTail t0 t1 t2 = Some (b3, s3)"
    unfolding Pump_def Let_def b0_def [symmetric] r1(1) bind.simps prod.case P_def [symmetric] r2(1)
    by (rule r3(1))
  moreover have "progress b s b3 s3 (filter (fits b) (take batchLimit (QueuedMessage b)))"
    using progress_trans [OF b0(4) progress_trans [OF r1(2) progress_trans [OF r2(2) r3(2)]]]
      fits_cong [OF b0(2)] by simp
  moreover have "flushTail \<longrightarrow> ActiveMsgs b3 = []"
    using r3(1,4) by (auto split: if_splits)
  ultimately show ?thesis
    using r1(3) r2(3) r3(3) by auto
qed

text \<open>
  C7. A pump moves the first \<open>batchLimit\<close> queued messages into bunches: those no larger than the payload
  limit of a bunch keep their order across the bunches and the active rest, none twice and none lost; the
  larger ones are discarded (each only seals the bunch that was being filled, even an empty one); every bunch has
  the header for its messages, at most 255 messages, at most the payload limit in bytes, and the
  sequence numbers of the bunches continue the channel's without gap. With \<open>flushTail\<close>
  nothing stays behind.
\<close>

theorem pump_bundles_in_order:
  assumes "builder_wf b" and "ActiveHasInit b \<or> ActiveMsgs b = []"
    and "\<forall>m\<in>set (QueuedMessage b). unat (MSize m) < 2 ^ 31"
  shows "\<exists>b' bs. Pump b s batchLimit flushTail t0 t1 t2 = Some (b', s + word_of_nat (length bs))
    \<and> QueuedOutBunch b' = QueuedOutBunch b @ bs \<and> good_from b s bs
    \<and> concat (map Messages bs) @ ActiveMsgs b'
        = ActiveMsgs b @ filter (\<lambda>m. MSize m \<le> MaxBunchPayload b) (take batchLimit (QueuedMessage b))
    \<and> QueuedMessage b' = drop batchLimit (QueuedMessage b)
    \<and> (flushTail \<longrightarrow> ActiveMsgs b' = []) \<and> builder_wf b'"
  using progress_Pump [OF assms, of s batchLimit flushTail t0 t1 t2]
  unfolding progress_def fits_def [abs_def] by blast

definition sample_builder :: "u32 list \<Rightarrow> ChannelBunchBuilder" where
  "sample_builder sizes = fold (\<lambda>n b. Submit b \<lparr>MBuffer = [], MSize = n, MCallback = False\<rparr>) sizes
     (Builder_ctor 1 False False False True (BunchPolicy_default\<lparr>MaxPacketBytes := 1200\<rparr>))"

theorem pump_bundles_in_order_witness:
  "\<exists>b'. map_option fst (Pump (sample_builder [1000, 100, 200]) 7 256 True 0 5 6) = Some b' \<and> ActiveMsgs b' = []
    \<and> map MSize (concat (map Messages (QueuedOutBunch b'))) = [1000, 100, 200]"
proof -
  let ?b = "sample_builder [1000, 100, 200]"
  have "builder_wf ?b" "\<forall>m\<in>set (QueuedMessage ?b). unat (MSize m) < 2 ^ 31" "ActiveMsgs ?b = []"
    "QueuedOutBunch ?b = []"
    and f: "filter (\<lambda>m. MSize m \<le> MaxBunchPayload ?b) (take 256 (QueuedMessage ?b))
        = map (\<lambda>n. \<lparr>MBuffer = [], MSize = n, MCallback = False\<rparr>) [1000, 100, 200]"
    by (simp_all add: sample_builder_def Submit_def queue_push_def Builder_ctor_def BunchPolicy_default_def
      builder_wf_def msgs_size_def)
  then show ?thesis
    using pump_bundles_in_order [of ?b 7 256 True 0 5 6] unfolding f by auto
qed

text \<open>
  A message larger than a bunch's payload is lost although it was popped, and an empty bunch
  is sealed for it: the sequence number of the channel advances for a bunch without messages,
  which the receiver will wait for. (The comment in the code says that the insertion into a fresh
  bunch always succeeds.)
\<close>

theorem oversize_message_consumes_sequence:
  assumes "builder_wf b" and "ActiveHasInit b" and "ActiveMsgs b = []" and "QueuedMessage b = [m]"
    and "0 < MaxBunchPayload b" and "MaxBunchPayload b < MSize m" and "MSize m < 0x80000000"
  shows "\<exists>b' x. Pump b s (Suc n) flushTail t0 t1 t2 = Some (b', s + 1)
    \<and> QueuedMessage b' = [] \<and> ActiveMsgs b' = [] \<and> QueuedOutBunch b' = QueuedOutBunch b @ [x]
    \<and> Messages x = [] \<and> IsHeaderOnlyBunch x \<and> HeaderBytes x = header_bytes (fields_of b (s + 1) [] 0)"
proof -
  have p0: "ActivePayload b = 0"
    using assms(1,3) by (simp add: builder_wf_def msgs_size_def unat_eq_0)
  let ?b = "b\<lparr>QueuedMessage := []\<rparr>"
  have wf: "builder_wf ?b" and small: "unat (MSize m) < 2 ^ 31"
    using assms(1,7) by (simp_all add: builder_wf_def word_less_nat_alt)
  have no: "TryInsert c m = (c, False)" if "ActivePayload c = 0" "MaxBunchPayload c = MaxBunchPayload b" for c
    using that assms(6) by (auto simp: TryInsert_def)
  have "Pump_loop (Suc n) b s t0 = Some (ResetActive (?b\<lparr>ActiveMsgs := [], QueuedOutBunch := QueuedOutBunch b
      @ [bunch_of ?b (s + 1) [] 0]\<rparr>) t0, s + 1)"
    using assms p0 no [of ?b] no [of "ResetActive (?b\<lparr>ActiveMsgs := [], QueuedOutBunch := QueuedOutBunch b
      @ [bunch_of ?b (s + 1) [] 0]\<rparr>) t0"]
    by (cases n) (auto simp: Pump_step_def queue_try_pop_def SealAndPush_eq IsFull_def ResetActive_def builder_wf_def Let_def)
  moreover have "bunch_of ?b (s + 1) [] 0 = bunch_of b (s + 1) [] 0"
    by (rule bunch_of_cong) (simp add: config_def)
  ultimately show ?thesis
    using assms by (simp add: Pump_def Let_def ResetActive_def IsHeaderOnlyBunch_def bunch_of_def)
qed

theorem oversize_message_consumes_sequence_witness:
  "\<exists>b' x. Pump (ResetActive (sample_builder [1177]) 0) 7 (Suc 255) True 0 5 6 = Some (b', 8) \<and> Messages x = []
    \<and> QueuedOutBunch b' = [x]"
  using oversize_message_consumes_sequence [of "ResetActive (sample_builder [1177]) 0"
      "\<lparr>MBuffer = [], MSize = 1177, MCallback = False\<rparr>" 7 255 True 0 5 6]
  by (auto simp: sample_builder_def Submit_def queue_push_def Builder_ctor_def BunchPolicy_default_def
      builder_wf_def msgs_size_def ResetActive_def)

end
