(* ===== verification/PacketM.thy ===== *)
theory PacketM
  imports BitReaderM BunchBuild
begin

text \<open>
  Network, \<open>net_packet/NetPacket\<close>, \<open>NetPacketBuilder\<close>, \<open>NetPacketReader\<close> and the send event of
  \<open>PacketEvent\<close>: a packet is a header of fixed size and bunches; sealing lists the memory it is sent
  from. A view into the packet's own header is the constructor \<open>HeaderData\<close>, so that a header
  written after the sealing is the one that is sent; the other views point to bytes that no longer
  change. A received datagram is split at the size in its first byte.
\<close>

section \<open>Packets to send\<close>

datatype BufferData = HeaderData | BytesData "u8 list"

record PacketBufferView =
  BufferPtr :: BufferData
  ViewSize :: u32

record OutReadyPacket =
  BufferViews :: "PacketBufferView list"
  PktHeader :: "u8 list"
  Bunchs :: "OutReadyBunch list"
  PktHeaderSize :: u32
  PktTotalSize :: u32
  SendTimeUs :: u64
  DirtyFlag :: bool
  bProcessorPacket :: bool
  OutPacketId :: u32

definition OutReadyPacket_ctor :: OutReadyPacket where
  "OutReadyPacket_ctor = \<lparr>BufferViews = [], PktHeader = [], Bunchs = [], PktHeaderSize = 0, PktTotalSize = 0,
     SendTimeUs = 0, DirtyFlag = False, bProcessorPacket = False, OutPacketId = 0\<rparr>"

definition BuildBegin :: "u32 \<Rightarrow> bool \<Rightarrow> OutReadyPacket" where
  "BuildBegin HdrSize ProcessorPacket = OutReadyPacket_ctor\<lparr>PktHeader := replicate (unat HdrSize) 0,
     PktHeaderSize := HdrSize, PktTotalSize := PktTotalSize OutReadyPacket_ctor + HdrSize,
     DirtyFlag := True, bProcessorPacket := ProcessorPacket\<rparr>"

text \<open>\<open>memcpy\<close> of the header; reading or writing past either buffer is \<open>None\<close>.\<close>

definition OutReadyPacket_BuildEnd :: "OutReadyPacket \<Rightarrow> u8 list \<Rightarrow> u32 \<Rightarrow> u64 \<Rightarrow> OutReadyPacket option" where
  "OutReadyPacket_BuildEnd p HeaderBuf HdrSize NowUs =
     (let n = unat HdrSize in
      if n \<le> length HeaderBuf \<and> n \<le> length (PktHeader p)
      then Some (p\<lparr>PktHeader := take n HeaderBuf @ drop n (PktHeader p), SendTimeUs := NowUs\<rparr>) else None)"

definition Push :: "OutReadyPacket \<Rightarrow> OutReadyBunch \<Rightarrow> OutReadyPacket" where
  "Push p Bunch =
     (if bProcessorPacket p then p
      else p\<lparr>PktTotalSize := PktTotalSize p + TotalSize Bunch, Bunchs := Bunchs p @ [Bunch], DirtyFlag := True\<rparr>)"

definition bunch_views :: "OutReadyBunch \<Rightarrow> PacketBufferView list" where
  "bunch_views Bunch = \<lparr>BufferPtr = BytesData (HeaderBytes Bunch), ViewSize = HeaderSize Bunch\<rparr>
     # map (\<lambda>Message. \<lparr>BufferPtr = BytesData (MBuffer Message), ViewSize = MSize Message\<rparr>) (Messages Bunch)"

definition PacketSealed :: "OutReadyPacket \<Rightarrow> OutReadyPacket" where
  "PacketSealed p =
     (if \<not> DirtyFlag p then p
      else let Views = [\<lparr>BufferPtr = HeaderData, ViewSize = PktHeaderSize p\<rparr>] in
        if bProcessorPacket p then p\<lparr>BufferViews := Views, DirtyFlag := False\<rparr>
        else p\<lparr>BufferViews := Views @ concat (map bunch_views (Bunchs p)), DirtyFlag := False\<rparr>)"

record PacketHeader =
  PhBuffer :: BitWriter
  bSealed :: bool
  bOverflow :: bool

definition PacketHeader_ctor :: "nat \<Rightarrow> PacketHeader option" where
  "PacketHeader_ctor ReserveBits = do {
     (B, _) \<leftarrow> BitWriter_Serialize (BitWriter_ctor ReserveBits False) [0] 1;
     Some \<lparr>PhBuffer = B, bSealed = False, bOverflow = False\<rparr> }"

definition HeaderSealed :: "PacketHeader \<Rightarrow> PacketHeader option" where
  "HeaderSealed h =
     (if bSealed h then Some h
      else do {
        let Bytes = (word_of_nat (GetNumBytes (PhBuffer h)) :: u32);
        let h = (if 255 < Bytes then h\<lparr>bOverflow := True\<rparr> else h);
        B \<leftarrow> wr (WBuffer (PhBuffer h)) 0 (ucast (Bytes AND 0xFF));
        Some (h\<lparr>PhBuffer := (PhBuffer h)\<lparr>WBuffer := B\<rparr>, bSealed := True\<rparr>) })"

definition PacketHeaderSize :: u32 where "PacketHeaderSize = 10"
definition ConnectionlessPacketHeaderSize :: u32 where "ConnectionlessPacketHeaderSize = 100"
definition PacketMaxSize :: u32 where "PacketMaxSize = 1024"

definition BuildStart :: OutReadyPacket where
  "BuildStart = BuildBegin PacketHeaderSize False"

text \<open>\<open>BuildEnd\<close> writes the header with the caller's function and copies it into the packet.\<close>

definition BuildEnd :: "OutReadyPacket \<Rightarrow> (BitWriter \<Rightarrow> (BitWriter \<times> 's) option) \<Rightarrow> u64 \<Rightarrow> (OutReadyPacket \<times> 's) option" where
  "BuildEnd p Writer NowUs = do {
     Ph \<leftarrow> PacketHeader_ctor (unat PacketHeaderSize * 8);
     (B, s) \<leftarrow> Writer (PhBuffer Ph);
     Ph \<leftarrow> HeaderSealed (Ph\<lparr>PhBuffer := B\<rparr>);
     p \<leftarrow> OutReadyPacket_BuildEnd p (WBuffer (PhBuffer Ph)) PacketHeaderSize NowUs;
     Some (p, s) }"

definition ConnectionPacketBuilder_Append :: "OutReadyPacket \<Rightarrow> OutReadyBunch \<Rightarrow> OutReadyPacket \<times> bool" where
  "ConnectionPacketBuilder_Append p Bunch =
     (let RequireSize = TotalSize Bunch in
      if PacketMaxSize < RequireSize then (p, False)
      else if PacketMaxSize < PktTotalSize p + RequireSize then (p, False)
      else (Push p Bunch, True))"

definition ProcessorPacketBuilder_Build :: "(BitWriter \<Rightarrow> (BitWriter \<times> 's) option) \<Rightarrow> u64 \<Rightarrow> (OutReadyPacket \<times> 's) option" where
  "ProcessorPacketBuilder_Build Writer NowUs = do {
     Ph \<leftarrow> PacketHeader_ctor (unat ConnectionlessPacketHeaderSize * 8);
     (B, s) \<leftarrow> Writer (PhBuffer Ph);
     Ph \<leftarrow> HeaderSealed (Ph\<lparr>PhBuffer := B\<rparr>);
     p \<leftarrow> OutReadyPacket_BuildEnd (BuildBegin ConnectionlessPacketHeaderSize True) (WBuffer (PhBuffer Ph))
            ConnectionlessPacketHeaderSize NowUs;
     Some (p, s) }"

section \<open>The send event\<close>

record OutSendPacketEvent =
  wsaBufs :: "u8 list list"
  TotalByteSize :: u32

definition view_bytes :: "OutReadyPacket \<Rightarrow> PacketBufferView \<Rightarrow> u8 list option" where
  "view_bytes p v =
     (let buf = (case BufferPtr v of HeaderData \<Rightarrow> PktHeader p | BytesData b \<Rightarrow> b)
      in if unat (ViewSize v) \<le> length buf then Some (take (unat (ViewSize v)) buf) else None)"

fun CopyBufView_loop :: "OutReadyPacket \<Rightarrow> PacketBufferView list \<Rightarrow> OutSendPacketEvent \<Rightarrow> OutSendPacketEvent option" where
  "CopyBufView_loop p [] e = Some e"
| "CopyBufView_loop p (v # vs) e = do {
     b \<leftarrow> view_bytes p v;
     CopyBufView_loop p vs (e\<lparr>TotalByteSize := TotalByteSize e + ViewSize v, wsaBufs := wsaBufs e @ [b]\<rparr>) }"

definition OutSendPacketEvent_Create :: "OutReadyPacket \<Rightarrow> OutSendPacketEvent option" where
  "OutSendPacketEvent_Create p = CopyBufView_loop p (BufferViews p) \<lparr>wsaBufs = [], TotalByteSize = 0\<rparr>"

section \<open>Received datagrams\<close>

record SockAddr =
  ss_family :: u16
  sin_addr :: u32
  sin_port :: u16

definition AF_INET :: u16 where "AF_INET = 2"
definition MAX_PACKET_SIZE :: nat where "MAX_PACKET_SIZE = 1024"

record InRecvPacketEvent =
  EData :: "u8 list"
  remoteAddr :: SockAddr

definition InRecvPacketEvent_ctor :: InRecvPacketEvent where
  "InRecvPacketEvent_ctor = \<lparr>EData = replicate MAX_PACKET_SIZE 0, remoteAddr = \<lparr>ss_family = 0, sin_addr = 0, sin_port = 0\<rparr>\<rparr>"

text \<open>Address and port are in network order in the storage.\<close>

definition MakeIPv4PortKeyFromStorage :: "SockAddr \<Rightarrow> u64" where
  "MakeIPv4PortKeyFromStorage SockStorage =
     (if ss_family SockStorage \<noteq> AF_INET then 0
      else let Ip = ByteSwap32 (sin_addr SockStorage); Port = ByteSwap16 (sin_port SockStorage)
           in push_bit 16 (ucast Ip) OR ucast Port)"

record RecvPacketReader =
  RHeader :: BitReader
  RPayload :: "u8 list"
  RPayloadSize :: u32
  RHashKey :: u64
  RAddress :: SockAddr
  bConnectionlessPacket :: bool
  bFromRecentlyDisconnected :: bool

text \<open>
  The payload is kept as all bytes of the event from its start, with the size the code computes
  for it.
\<close>

definition RecvPacketReader_ctor :: "InRecvPacketEvent \<Rightarrow> nat \<Rightarrow> RecvPacketReader option" where
  "RecvPacketReader_ctor Event NumOfBytes = do {
     HeaderByteSize \<leftarrow> rd (EData Event) 0;
     let HeaderDataByteSize = HeaderByteSize - 1;
     let BufferByteSize = (word_of_nat NumOfBytes - ucast HeaderByteSize :: u32);
     h \<leftarrow> BitReader_ctor (Some (drop 1 (EData Event))) (unat HeaderDataByteSize * 8);
     Some \<lparr>RHeader = h, RPayload = drop (unat HeaderByteSize) (EData Event), RPayloadSize = BufferByteSize,
           RHashKey = MakeIPv4PortKeyFromStorage (remoteAddr Event), RAddress = remoteAddr Event,
           bConnectionlessPacket = False, bFromRecentlyDisconnected = False\<rparr> }"

definition SetConnectionlessPacket :: "RecvPacketReader \<Rightarrow> bool \<Rightarrow> RecvPacketReader" where
  "SetConnectionlessPacket r b = r\<lparr>bConnectionlessPacket := b\<rparr>"

definition SetFromRecentlyDisconnected :: "RecvPacketReader \<Rightarrow> bool \<Rightarrow> RecvPacketReader" where
  "SetFromRecentlyDisconnected r b = r\<lparr>bFromRecentlyDisconnected := b\<rparr>"

text \<open>The bytes of the payload, when they all lie in the event's memory.\<close>

definition GetPayload :: "RecvPacketReader \<Rightarrow> u8 list option" where
  "GetPayload r = (if unat (RPayloadSize r) \<le> length (RPayload r) then Some (take (unat (RPayloadSize r)) (RPayload r)) else None)"

section \<open>What is sent\<close>

text \<open>The bytes of a bunch on the wire, and bunches whose sizes agree with their memory.\<close>

definition bunch_bytes :: "OutReadyBunch \<Rightarrow> u8 list" where
  "bunch_bytes x = HeaderBytes x @ concat (map MBuffer (Messages x))"

definition bunch_sized :: "OutReadyBunch \<Rightarrow> bool" where
  "bunch_sized x \<longleftrightarrow> length (HeaderBytes x) = unat (HeaderSize x) \<and> (\<forall>m\<in>set (Messages x). length (MBuffer m) = unat (MSize m))
     \<and> length (bunch_bytes x) = unat (TotalSize x)"

definition packet_bytes :: "OutReadyPacket \<Rightarrow> u8 list" where
  "packet_bytes p = PktHeader p @ concat (map bunch_bytes (Bunchs p))"

definition packet_wf :: "OutReadyPacket \<Rightarrow> bool" where
  "packet_wf p \<longleftrightarrow> \<not> bProcessorPacket p \<and> length (PktHeader p) = unat (PktHeaderSize p) \<and> (\<forall>x\<in>set (Bunchs p). bunch_sized x)
     \<and> length (packet_bytes p) = unat (PktTotalSize p) \<and> PktTotalSize p \<le> PacketMaxSize"

lemma BuildStart_wf: "packet_wf BuildStart"
  by (simp add: packet_wf_def BuildStart_def BuildBegin_def OutReadyPacket_ctor_def packet_bytes_def
      PacketHeaderSize_def PacketMaxSize_def)

lemma Append_eq:
  assumes "packet_wf p"
  shows "ConnectionPacketBuilder_Append p x =
    (if unat (PktTotalSize p) + unat (TotalSize x) \<le> 1024 then (Push p x, True) else (p, False))"
proof -
  have p: "unat (PktTotalSize p) \<le> 1024"
    using assms by (simp add: packet_wf_def PacketMaxSize_def word_le_nat_alt)
  have "TotalSize x \<le> 1024 \<Longrightarrow> unat (PktTotalSize p + TotalSize x) = unat (PktTotalSize p) + unat (TotalSize x)"
    using p by (intro unat_add_lem [THEN iffD1]) (simp add: word_le_nat_alt)
  then show ?thesis
    by (auto simp: ConnectionPacketBuilder_Append_def Let_def PacketMaxSize_def word_le_nat_alt word_less_nat_alt not_less)
qed

lemma Push_wf:
  assumes "packet_wf p" and "bunch_sized x" and "unat (PktTotalSize p) + unat (TotalSize x) \<le> 1024"
  shows "packet_wf (Push p x)" "packet_bytes (Push p x) = packet_bytes p @ bunch_bytes x" "DirtyFlag (Push p x)"
    "Bunchs (Push p x) = Bunchs p @ [x]" "PktHeader (Push p x) = PktHeader p" "PktHeaderSize (Push p x) = PktHeaderSize p"
proof -
  have "unat (PktTotalSize p + TotalSize x) = unat (PktTotalSize p) + unat (TotalSize x)"
    using assms(3) by (intro unat_add_lem [THEN iffD1]) simp
  then show "packet_wf (Push p x)" "packet_bytes (Push p x) = packet_bytes p @ bunch_bytes x" "DirtyFlag (Push p x)"
    "Bunchs (Push p x) = Bunchs p @ [x]" "PktHeader (Push p x) = PktHeader p" "PktHeaderSize (Push p x) = PktHeaderSize p"
    using assms by (auto simp: Push_def packet_wf_def packet_bytes_def bunch_sized_def PacketMaxSize_def word_le_nat_alt)
qed

lemma CopyBufView_loop_ok:
  "map (view_bytes p) vs = map Some bs \<Longrightarrow> CopyBufView_loop p vs e =
     Some (e\<lparr>wsaBufs := wsaBufs e @ bs, TotalByteSize := TotalByteSize e + word_of_nat (length (concat bs))\<rparr>)"
proof (induction vs arbitrary: bs e)
  case (Cons v vs)
  then obtain b bs' where bs: "bs = b # bs'" "view_bytes p v = Some b" "map (view_bytes p) vs = map Some bs'"
    by (cases bs) auto
  have "ViewSize v = word_of_nat (length b)"
    using bs(2) by (auto simp: view_bytes_def Let_def split: if_splits)
  then show ?case
    using Cons.IH [OF bs(3)] bs by (simp add: add.assoc)
qed simp

lemma map_message_views:
  "\<forall>m\<in>set ms. length (MBuffer m) = unat (MSize m) \<Longrightarrow>
   map (view_bytes p) (map (\<lambda>m. \<lparr>BufferPtr = BytesData (MBuffer m), ViewSize = MSize m\<rparr>) ms) = map Some (map MBuffer ms)"
  by (induction ms) (simp_all add: view_bytes_def)

lemma map_bunch_views:
  "\<forall>x\<in>set xs. bunch_sized x \<Longrightarrow> map (view_bytes p) (concat (map bunch_views xs))
     = map Some (concat (map (\<lambda>x. HeaderBytes x # map MBuffer (Messages x)) xs))"
proof (induction xs)
  case (Cons x xs)
  have "map (view_bytes p) (bunch_views x) = map Some (HeaderBytes x # map MBuffer (Messages x))"
    using Cons.prems map_message_views [of "Messages x" p] by (simp add: bunch_views_def bunch_sized_def view_bytes_def)
  then show ?case
    using Cons by simp
qed simp

lemma concat_bunch_bytes: "concat (concat (map (\<lambda>x. HeaderBytes x # map MBuffer (Messages x)) xs)) = concat (map bunch_bytes xs)"
  by (induction xs) (simp_all add: bunch_bytes_def)

text \<open>The send event of a packet sealed earlier, with the header it has now.\<close>

lemma Create_sealed:
  assumes "packet_wf p" and v: "BufferViews p = \<lparr>BufferPtr = HeaderData, ViewSize = PktHeaderSize p\<rparr> # concat (map bunch_views (Bunchs p))"
  shows "\<exists>e. OutSendPacketEvent_Create p = Some e \<and> concat (wsaBufs e) = packet_bytes p \<and> TotalByteSize e = PktTotalSize p"
proof -
  let ?bs = "PktHeader p # concat (map (\<lambda>x. HeaderBytes x # map MBuffer (Messages x)) (Bunchs p))"
  have "map (view_bytes p) (BufferViews p) = map Some ?bs"
    using map_bunch_views [of "Bunchs p" p] assms(1) unfolding v by (simp add: packet_wf_def view_bytes_def)
  from CopyBufView_loop_ok [OF this] show ?thesis
    using assms(1) by (simp add: OutSendPacketEvent_Create_def concat_bunch_bytes packet_bytes_def packet_wf_def
        flip: length_append)
qed

definition build_packet :: "OutReadyBunch list \<Rightarrow> OutReadyPacket" where
  "build_packet xs = PacketSealed (fold (\<lambda>x p. fst (ConnectionPacketBuilder_Append p x)) xs BuildStart)"

lemma Append_all:
  assumes "packet_wf p" and "DirtyFlag p" and "\<forall>x\<in>set xs. bunch_sized x" and "unat (PktTotalSize p) + length (concat (map bunch_bytes xs)) \<le> 1024"
  defines "q \<equiv> fold (\<lambda>x p. fst (ConnectionPacketBuilder_Append p x)) xs p"
  shows "packet_wf q \<and> DirtyFlag q \<and> Bunchs q = Bunchs p @ xs \<and> PktHeader q = PktHeader p \<and> PktHeaderSize q = PktHeaderSize p"
  using assms(1-4) unfolding q_def
proof (induction xs arbitrary: p)
  case (Cons x xs)
  let ?p = "fst (ConnectionPacketBuilder_Append p x)"
  have x: "bunch_sized x" "length (bunch_bytes x) = unat (TotalSize x)"
    using Cons.prems(3) by (auto simp: bunch_sized_def)
  then have room: "unat (PktTotalSize p) + unat (TotalSize x) \<le> 1024"
    using Cons.prems(4) by simp
  note P = Push_wf [OF Cons.prems(1) x(1) room]
  have f: "?p = Push p x"
    using Append_eq [OF Cons.prems(1)] room by simp
  have "unat (PktTotalSize (Push p x)) = length (packet_bytes p @ bunch_bytes x)"
    using P(1,2) by (simp add: packet_wf_def)
  then have "unat (PktTotalSize (Push p x)) + length (concat (map bunch_bytes xs)) \<le> 1024"
    using Cons.prems(1,4) by (simp add: packet_wf_def)
  from Cons.IH [OF P(1,3) _ this] show ?case
    using Cons.prems(3) P by (simp add: f)
qed simp

lemma build_packet_ok:
  assumes "\<forall>x\<in>set xs. bunch_sized x" and "10 + length (concat (map bunch_bytes xs)) \<le> 1024"
  shows "packet_wf (build_packet xs)" "Bunchs (build_packet xs) = xs" "length (PktHeader (build_packet xs)) = 10"
    "PktHeaderSize (build_packet xs) = 10"
    "BufferViews (build_packet xs) = \<lparr>BufferPtr = HeaderData, ViewSize = 10\<rparr> # concat (map bunch_views xs)"
proof -
  have s: "DirtyFlag BuildStart" "PktTotalSize BuildStart = 10" "Bunchs BuildStart = []" "length (PktHeader BuildStart) = 10"
    "PktHeaderSize BuildStart = 10"
    by (simp_all add: BuildStart_def BuildBegin_def OutReadyPacket_ctor_def PacketHeaderSize_def)
  let ?q = "fold (\<lambda>x p. fst (ConnectionPacketBuilder_Append p x)) xs BuildStart"
  have q: "packet_wf ?q" "DirtyFlag ?q" "Bunchs ?q = xs" "length (PktHeader ?q) = 10" "PktHeaderSize ?q = 10"
    using Append_all [OF BuildStart_wf s(1) assms(1)] assms(2) s by auto
  then have b: "build_packet xs = ?q\<lparr>BufferViews := \<lparr>BufferPtr = HeaderData, ViewSize = PktHeaderSize ?q\<rparr>
      # concat (map bunch_views (Bunchs ?q)), DirtyFlag := False\<rparr>"
    by (simp add: build_packet_def PacketSealed_def packet_wf_def)
  show "packet_wf (build_packet xs)" "Bunchs (build_packet xs) = xs" "length (PktHeader (build_packet xs)) = 10"
    "PktHeaderSize (build_packet xs) = 10"
    "BufferViews (build_packet xs) = \<lparr>BufferPtr = HeaderData, ViewSize = 10\<rparr> # concat (map bunch_views xs)"
    using q unfolding b by (auto simp: packet_wf_def packet_bytes_def PacketSealed_def)
qed

text \<open>
  C21. A packet of bunches that fit is sent as its header, written after the packet was sealed, and
  the bytes of its bunches in order; the receiver of the datagram splits it at the same place: the
  header reader holds the bits of the header after its size byte, and the payload is the bunches'
  bytes.
\<close>

theorem datagram_round_trip:
  assumes "\<forall>x\<in>set xs. bunch_sized x" and "10 + length (concat (map bunch_bytes xs)) \<le> 1024"
    and "length hdr = 10" and "hdr ! 0 = 10"
  shows "\<exists>p e. OutReadyPacket_BuildEnd (build_packet xs) hdr PacketHeaderSize now = Some p
    \<and> OutSendPacketEvent_Create p = Some e \<and> concat (wsaBufs e) = hdr @ concat (map bunch_bytes xs)
    \<and> (\<forall>junk from. \<exists>r. RecvPacketReader_ctor \<lparr>EData = concat (wsaBufs e) @ junk, remoteAddr = from\<rparr> (unat (TotalByteSize e)) = Some r
        \<and> GetPayload r = Some (concat (map bunch_bytes xs)) \<and> rbits (RHeader r) = bitslice (drop 1 hdr) 0 72
        \<and> BitReader_wf (RHeader r) \<and> \<not> ArIsError (RHeader r))"
proof -
  note B = build_packet_ok [OF assms(1,2)]
  let ?p = "(build_packet xs)\<lparr>PktHeader := hdr, SendTimeUs := now\<rparr>"
  have bytes: "packet_bytes ?p = hdr @ concat (map bunch_bytes xs)"
    using B(2) by (simp add: packet_bytes_def)
  have wf: "packet_wf ?p"
    using B(1-4) assms(3) by (simp add: packet_wf_def packet_bytes_def)
  have "OutReadyPacket_BuildEnd (build_packet xs) hdr PacketHeaderSize now = Some ?p"
    using B(3) assms(3) by (simp add: OutReadyPacket_BuildEnd_def PacketHeaderSize_def)
  moreover have "BufferViews ?p = \<lparr>BufferPtr = HeaderData, ViewSize = PktHeaderSize ?p\<rparr> # concat (map bunch_views (Bunchs ?p))"
    using B(4,5) by (simp add: B(2))
  from Create_sealed [OF wf this] obtain e where e: "OutSendPacketEvent_Create ?p = Some e" "concat (wsaBufs e) = packet_bytes ?p"
    "TotalByteSize e = PktTotalSize ?p"
    using Create_sealed [OF wf] B(5) by (auto simp: PacketSealed_def split: if_splits)
  moreover have "\<exists>r. RecvPacketReader_ctor \<lparr>EData = concat (wsaBufs e) @ junk, remoteAddr = from\<rparr> (unat (TotalByteSize e)) = Some r
        \<and> GetPayload r = Some (concat (map bunch_bytes xs)) \<and> rbits (RHeader r) = bitslice (drop 1 hdr) 0 72
        \<and> BitReader_wf (RHeader r) \<and> \<not> ArIsError (RHeader r)" for junk "from"
  proof -
    let ?D = "hdr @ concat (map bunch_bytes xs) @ junk"
    have n: "unat (TotalByteSize e) = 10 + length (concat (map bunch_bytes xs))"
      using wf e(3) bytes assms(3) by (simp add: packet_wf_def)
    then have sz: "(word_of_nat (unat (TotalByteSize e)) - 10 :: u32) = word_of_nat (length (concat (map bunch_bytes xs)))"
      by simp
    have szn: "unat (word_of_nat (length (concat (map bunch_bytes xs))) :: u32) = length (concat (map bunch_bytes xs))"
      using assms(2) by (simp add: unat_of_nat)
    obtain r where r: "BitReader_ctor (Some (drop 1 ?D)) 72 = Some r" "BitReader_wf r" "\<not> ArIsError r"
      "rbits r = bitslice (drop 1 ?D) 0 72"
      using BitReader_ctor_ok [of 72 "drop 1 ?D"] assms(3) by auto
    have "bitslice (drop 1 ?D) 0 72 = bitslice (drop 1 hdr) 0 72"
      using assms(3) by (intro bitslice_eqI) (auto simp: buf_bit_def nth_append)
    moreover have "rd (concat (wsaBufs e) @ junk) 0 = Some 10"
      using e(2) bytes assms(3,4) by (simp add: rd_def nth_append)
    ultimately show ?thesis
      using e(2) bytes r sz szn assms(3)
      by (simp add: RecvPacketReader_ctor_def GetPayload_def)
  qed
  ultimately show ?thesis
    using bytes by (intro exI [of _ ?p] exI [of _ e]) auto
qed

definition sample_bunch :: OutReadyBunch where
  "sample_bunch = \<lparr>HeaderBytes = replicate 10 7, HeaderSize = 10,
     Messages = [\<lparr>MBuffer = [1, 2, 3], MSize = 3, MCallback = False\<rparr>], PayloadBytes = 3, TotalSize = 13,
     BunchPacketId = 0, BunchChIndex = 0\<rparr>"

theorem datagram_round_trip_witness:
  "\<exists>p. OutReadyPacket_BuildEnd (build_packet [sample_bunch, sample_bunch]) (replicate 10 10) PacketHeaderSize 0 = Some p
    \<and> map_option (\<lambda>e. length (concat (wsaBufs e))) (OutSendPacketEvent_Create p) = Some 36"
proof -
  have "bunch_sized sample_bunch" and l: "length (bunch_bytes sample_bunch) = 13"
    by (simp_all add: sample_bunch_def bunch_sized_def bunch_bytes_def)
  then obtain p e where "OutReadyPacket_BuildEnd (build_packet [sample_bunch, sample_bunch]) (replicate 10 10) PacketHeaderSize 0 = Some p"
    "OutSendPacketEvent_Create p = Some e"
    and c: "concat (wsaBufs e) = replicate 10 10 @ concat (map bunch_bytes [sample_bunch, sample_bunch])"
    using datagram_round_trip [of "[sample_bunch, sample_bunch]" "replicate 10 10" 0] by auto
  moreover have "length (concat (wsaBufs e)) = 36"
    unfolding c using l by simp
  ultimately show ?thesis
    by auto
qed

text \<open>
  The size byte of a datagram is trusted: when it exceeds the datagram, the size of the payload
  wraps to almost \<open>2 ^ 32\<close> bytes, which no event holds; when it is zero, the header reader covers 255
  bytes of the event although the header has none.
\<close>

theorem bad_header_size_accepted:
  assumes "length (EData ev) = MAX_PACKET_SIZE" and "n < unat (EData ev ! 0)"
  shows "(\<exists>r. RecvPacketReader_ctor ev n = Some r \<and> 2 ^ 32 - 255 \<le> unat (RPayloadSize r) \<and> GetPayload r = None)
    \<and> (\<exists>r. RecvPacketReader_ctor (ev\<lparr>EData := 0 # tl (EData ev)\<rparr>) n = Some r \<and> RMax (RHeader r) = 255 * 8)"
proof -
  have len: "length (EData ev) = 1024" "EData ev \<noteq> []"
    using assms(1) by (auto simp: MAX_PACKET_SIZE_def)
  let ?h = "EData ev ! 0"
  have h: "unat ?h < 256"
    using unsigned_less [of ?h] by simp
  have h1: "unat (?h - 1) < 256"
    using unsigned_less [of "?h - 1"] by simp
  have rd0: "rd (EData ev) 0 = Some ?h"
    using len by (simp add: rd_def)
  have "unat (?h - 1) * 8 \<le> 8 * length (drop 1 (EData ev))"
    using h1 len by simp
  then obtain r where r: "BitReader_ctor (Some (drop 1 (EData ev))) (unat (?h - 1) * 8) = Some r"
    using BitReader_ctor_ok by blast
  have nn: "n mod 4294967296 = n"
    using assms(2) h by simp
  have neg: "uint (word_of_nat n - ucast ?h :: u32) = (int n - int (unat ?h)) mod 2 ^ 32"
    by (simp add: uint_word_ariths unsigned_of_nat take_bit_eq_mod uint_up_ucast is_up nn)
  have gen: "(int n - int k) mod 2 ^ 32 = int n - int k + 2 ^ 32" if "n < k" "k < 256" for k
    using that by (intro int_mod_pos_eq [of _ _ "- 1"]) auto
  have low: "4294967041 \<le> int n - int k + 2 ^ 32" if "k < 256" for k
    using that by simp
  have "4294967041 \<le> uint (word_of_nat n - ucast ?h :: u32)"
    unfolding neg gen [OF assms(2) h] by (rule low [OF h])
  then have big: "4294967041 \<le> unat (word_of_nat n - ucast ?h :: u32)"
    unfolding uint_nat by linarith
  then have "\<not> unat (word_of_nat n - ucast ?h :: u32) \<le> length (EData ev) - unat ?h"
    using len by simp
  then have "\<exists>r. RecvPacketReader_ctor ev n = Some r \<and> 2 ^ 32 - 255 \<le> unat (RPayloadSize r) \<and> GetPayload r = None"
    using rd0 r big by (simp add: RecvPacketReader_ctor_def GetPayload_def)
  moreover
  obtain r' where r': "BitReader_ctor (Some (tl (EData ev))) (255 * 8) = Some r'" "RMax r' = 255 * 8"
    using BitReader_ctor_ok [of "255 * 8" "tl (EData ev)"] len by auto
  have "unat (0 - 1 :: u8) * 8 = 255 * 8"
    by (simp add: unsigned_minus_1_eq_mask mask_eq_exp_minus_1)
  then have "\<exists>r. RecvPacketReader_ctor (ev\<lparr>EData := 0 # tl (EData ev)\<rparr>) n = Some r \<and> RMax (RHeader r) = 255 * 8"
    using r' by (simp add: RecvPacketReader_ctor_def rd_def)
  ultimately show ?thesis
    by blast
qed

theorem bad_header_size_accepted_witness:
  "\<exists>r. RecvPacketReader_ctor (InRecvPacketEvent_ctor\<lparr>EData := 20 # replicate 1023 0\<rparr>) 12 = Some r \<and> GetPayload r = None"
  using bad_header_size_accepted [of "InRecvPacketEvent_ctor\<lparr>EData := 20 # replicate 1023 0\<rparr>" 12]
  by (auto simp: MAX_PACKET_SIZE_def)

end
