(* ===== verification/Pending.thy ===== *)
theory Pending
  imports Doubles PacketM "HOL-Library.Multiset"
begin

text \<open>
  Network, \<open>connection/PendingNetConnection\<close>, \<open>PendingNetConnectionManager\<close> and
  \<open>utils/IDAllocator\<close>: the clients whose handshake is under way. The objects are shared pointers, so
  they live in a store (a list whose positions are the addresses) and the sixty hash maps of the
  manager hold addresses; an unordered map is the list of its entries in iteration order.
\<close>

section \<open>Identifiers\<close>

record IDAllocator =
  IDcounter :: u32
  freeIDs :: "u32 list"

definition IDAllocator_ctor :: "u32 \<Rightarrow> IDAllocator" where
  "IDAllocator_ctor start = \<lparr>IDcounter = start, freeIDs = []\<rparr>"

definition Allocate :: "IDAllocator \<Rightarrow> IDAllocator \<times> u32" where
  "Allocate a = (case freeIDs a of
       QId # rest \<Rightarrow> (a\<lparr>freeIDs := rest\<rparr>, QId)
     | [] \<Rightarrow> (a\<lparr>IDcounter := IDcounter a + 1\<rparr>, IDcounter a))"

definition Free :: "IDAllocator \<Rightarrow> u32 \<Rightarrow> IDAllocator" where
  "Free a i = a\<lparr>freeIDs := freeIDs a @ [i]\<rparr>"

section \<open>Pending connections\<close>

datatype EHandshakePacketType = InitialPacket | Challenge | Response | HsAck
  | RestartHandshake | RestartResponse | VersionUpgrade | OtherPacketType u8

definition type_of_byte :: "u8 \<Rightarrow> EHandshakePacketType" where
  "type_of_byte b = (if b = 0 then InitialPacket else if b = 1 then Challenge else if b = 2 then Response
     else if b = 3 then HsAck else if b = 4 then RestartHandshake else if b = 5 then RestartResponse
     else if b = 6 then VersionUpgrade else OtherPacketType b)"

fun byte_of_type :: "EHandshakePacketType \<Rightarrow> u8" where
  "byte_of_type InitialPacket = 0"
| "byte_of_type Challenge = 1"
| "byte_of_type Response = 2"
| "byte_of_type HsAck = 3"
| "byte_of_type RestartHandshake = 4"
| "byte_of_type RestartResponse = 5"
| "byte_of_type VersionUpgrade = 6"
| "byte_of_type (OtherPacketType b) = b"

record PendingRemoteConnection =
  CookieTime :: u64
  HandshakeTryCount :: u32
  PTimeId :: u8
  SessionId :: u32
  ClientID :: u32
  ServerSequence :: u32
  ClientSequence :: u32
  Address :: SockAddr
  HandshakePacketType :: EHandshakePacketType
  bHandshakeComplete :: bool
  LastReadyPacket :: "OutReadyPacket option"
  LastActivityTime :: u64

definition PendingRemoteConnection_ctor :: "u64 \<Rightarrow> u32 \<Rightarrow> u32 \<Rightarrow> SockAddr \<Rightarrow> u8 \<Rightarrow> PendingRemoteConnection" where
  "PendingRemoteConnection_ctor Time SId CId Addr TimeId =
     \<lparr>CookieTime = Time, HandshakeTryCount = 0, PTimeId = TimeId, SessionId = SId, ClientID = CId,
      ServerSequence = 0, ClientSequence = 0, Address = Addr, HandshakePacketType = InitialPacket,
      bHandshakeComplete = False, LastReadyPacket = None, LastActivityTime = Time\<rparr>"

definition IncreaseHandshakeCount :: "u32 \<Rightarrow> PendingRemoteConnection \<Rightarrow> PendingRemoteConnection" where
  "IncreaseHandshakeCount n c = c\<lparr>HandshakeTryCount := HandshakeTryCount c + n\<rparr>"

definition UpdateCookieTime :: "u64 \<Rightarrow> PendingRemoteConnection \<Rightarrow> PendingRemoteConnection" where
  "UpdateCookieTime t c = c\<lparr>CookieTime := t\<rparr>"

definition UpdateHanshakePacketType :: "EHandshakePacketType \<Rightarrow> PendingRemoteConnection \<Rightarrow> PendingRemoteConnection" where
  "UpdateHanshakePacketType t c = c\<lparr>HandshakePacketType := t\<rparr>"

definition UpdateHandshakeComplete :: "bool \<Rightarrow> PendingRemoteConnection \<Rightarrow> PendingRemoteConnection" where
  "UpdateHandshakeComplete b c = c\<lparr>bHandshakeComplete := b\<rparr>"

definition UpdateSessionId :: "u32 \<Rightarrow> PendingRemoteConnection \<Rightarrow> PendingRemoteConnection" where
  "UpdateSessionId i c = c\<lparr>SessionId := i\<rparr>"

definition UpdateClientId :: "u32 \<Rightarrow> PendingRemoteConnection \<Rightarrow> PendingRemoteConnection" where
  "UpdateClientId i c = c\<lparr>ClientID := i\<rparr>"

definition UpdateServerSeq :: "u32 \<Rightarrow> PendingRemoteConnection \<Rightarrow> PendingRemoteConnection" where
  "UpdateServerSeq s c = c\<lparr>ServerSequence := s\<rparr>"

definition UpdateClientSeq :: "u32 \<Rightarrow> PendingRemoteConnection \<Rightarrow> PendingRemoteConnection" where
  "UpdateClientSeq s c = c\<lparr>ClientSequence := s\<rparr>"

definition PrepLastSendPacket :: "OutReadyPacket \<Rightarrow> PendingRemoteConnection \<Rightarrow> PendingRemoteConnection" where
  "PrepLastSendPacket p c = c\<lparr>LastReadyPacket := Some p\<rparr>"

definition Touch :: "u64 \<Rightarrow> PendingRemoteConnection \<Rightarrow> PendingRemoteConnection" where
  "Touch now c = c\<lparr>LastActivityTime := now\<rparr>"

section \<open>The manager\<close>

type_synonym ClientHashMap = "(u64 \<times> nat) list"

record PendingConnectionManager =
  ClientCache :: "ClientHashMap list"
  PStore :: "PendingRemoteConnection list"

definition PendingConnectionManager_ctor :: PendingConnectionManager where
  "PendingConnectionManager_ctor = \<lparr>ClientCache = replicate 60 [], PStore = []\<rparr>"

definition pget :: "PendingConnectionManager \<Rightarrow> nat \<Rightarrow> PendingRemoteConnection option" where
  "pget m p = rd (PStore m) p"

definition pupd :: "PendingConnectionManager \<Rightarrow> nat \<Rightarrow> (PendingRemoteConnection \<Rightarrow> PendingRemoteConnection) \<Rightarrow> PendingConnectionManager option" where
  "pupd m p f = do { c \<leftarrow> rd (PStore m) p; S \<leftarrow> wr (PStore m) p (f c); Some (m\<lparr>PStore := S\<rparr>) }"

definition CreatePendingClient :: "PendingConnectionManager \<Rightarrow> u64 \<Rightarrow> u32 \<Rightarrow> u32 \<Rightarrow> SockAddr \<Rightarrow> u8 \<Rightarrow> PendingConnectionManager \<times> nat" where
  "CreatePendingClient m Time SId CId Addr TimeId =
     (m\<lparr>PStore := PStore m @ [PendingRemoteConnection_ctor Time SId CId Addr TimeId]\<rparr>, length (PStore m))"

text \<open>The entries of the expired connections, in iteration order, and those that stay.\<close>

fun Kill_loop :: "PendingRemoteConnection list \<Rightarrow> u64 \<Rightarrow> u64 \<Rightarrow> ClientHashMap \<Rightarrow> (ClientHashMap \<times> u32 list) option" where
  "Kill_loop St Now Timeout [] = Some ([], [])"
| "Kill_loop St Now Timeout ((k, p) # es) = do {
     c \<leftarrow> rd St p;
     (es', ids) \<leftarrow> Kill_loop St Now Timeout es;
     let Idle = dsub Now (LastActivityTime c);
     Some (if dle Timeout Idle then (es', ClientID c # ids) else ((k, p) # es', ids)) }"

definition TimeKillEvent :: "PendingConnectionManager \<Rightarrow> u8 \<Rightarrow> IDAllocator \<Rightarrow> u64 \<Rightarrow> u64 \<Rightarrow> (PendingConnectionManager \<times> IDAllocator) option" where
  "TimeKillEvent m TimeId IDManager Now InactivityTimeoutSec = do {
     c \<leftarrow> rd (ClientCache m) (unat TimeId);
     (c', tempIdVec) \<leftarrow> Kill_loop (PStore m) Now InactivityTimeoutSec c;
     C \<leftarrow> wr (ClientCache m) (unat TimeId) c';
     Some (m\<lparr>ClientCache := C\<rparr>, foldl Free IDManager tempIdVec) }"

fun Find_loop :: "ClientHashMap list \<Rightarrow> u64 \<Rightarrow> nat option" where
  "Find_loop [] k = None"
| "Find_loop (c # cs) k = (case map_of c k of Some p \<Rightarrow> Some p | None \<Rightarrow> Find_loop cs k)"

definition FindConnection :: "PendingConnectionManager \<Rightarrow> u64 \<Rightarrow> nat option" where
  "FindConnection m k = Find_loop (ClientCache m) k"

definition AddConnection :: "PendingConnectionManager \<Rightarrow> u8 \<Rightarrow> u64 \<Rightarrow> nat \<Rightarrow> PendingConnectionManager option" where
  "AddConnection m TimeId k p = do {
     c \<leftarrow> rd (ClientCache m) (unat TimeId);
     C \<leftarrow> wr (ClientCache m) (unat TimeId) (if map_of c k = None then c @ [(k, p)] else c);
     Some (m\<lparr>ClientCache := C\<rparr>) }"

definition GetHashMapbyTimeId :: "PendingConnectionManager \<Rightarrow> u8 \<Rightarrow> ClientHashMap option" where
  "GetHashMapbyTimeId m TimeId = rd (ClientCache m) (unat TimeId)"

definition AckConnectionKill :: "PendingConnectionManager \<Rightarrow> u8 \<Rightarrow> u64 \<Rightarrow> IDAllocator \<Rightarrow> (PendingConnectionManager \<times> IDAllocator) option" where
  "AckConnectionKill m TimeId k IDManager = do {
     c \<leftarrow> rd (ClientCache m) (unat TimeId);
     case map_of c k of
       None \<Rightarrow> Some (m, IDManager)
     | Some p \<Rightarrow> do {
         x \<leftarrow> rd (PStore m) p;
         C \<leftarrow> wr (ClientCache m) (unat TimeId) (filter (\<lambda>(k', _). k' \<noteq> k) c);
         Some (m\<lparr>ClientCache := C\<rparr>, if ClientID x \<noteq> -1 then Free IDManager (ClientID x) else IDManager) } }"


section \<open>What the operations do\<close>

definition expired :: "PendingRemoteConnection list \<Rightarrow> u64 \<Rightarrow> u64 \<Rightarrow> u64 \<times> nat \<Rightarrow> bool" where
  "expired St Now Timeout e \<longleftrightarrow> dle Timeout (dsub Now (LastActivityTime (St ! snd e)))"

definition entry_id :: "PendingRemoteConnection list \<Rightarrow> u64 \<times> nat \<Rightarrow> u32" where
  "entry_id St e = ClientID (St ! snd e)"

definition entries :: "PendingConnectionManager \<Rightarrow> ClientHashMap" where
  "entries m = concat (ClientCache m)"

lemma Kill_loop_eq:
  "\<forall>e\<in>set es. snd e < length St \<Longrightarrow> Kill_loop St Now Timeout es =
     Some (filter (\<lambda>e. \<not> expired St Now Timeout e) es, map (entry_id St) (filter (expired St Now Timeout) es))"
  by (induction es) (auto simp: expired_def entry_id_def Let_def)

lemma foldl_Free [simp]:
  "freeIDs (foldl Free a is) = freeIDs a @ is" "IDcounter (foldl Free a is) = IDcounter a"
  by (induction "is" arbitrary: a) (auto simp: Free_def)

lemma Find_loop_None: "Find_loop cs k = None \<longleftrightarrow> k \<notin> fst ` set (concat cs)"
  by (induction cs) (auto simp: map_of_eq_None_iff image_Un split: option.splits dest!: map_of_SomeD intro: rev_image_eqI)

lemma Find_loop_Some: "Find_loop cs k = Some p \<Longrightarrow> (k, p) \<in> set (concat cs)"
  by (induction cs) (auto split: option.splits dest: map_of_SomeD)

lemma Find_loop_distinct:
  "distinct (map fst (concat cs)) \<Longrightarrow> (k, p) \<in> set (concat cs) \<Longrightarrow> Find_loop cs k = Some p"
proof (induction cs)
  case (Cons c cs)
  show ?case
  proof (cases "map_of c k")
    case None
    then have "(k, p) \<notin> set c"
      by (auto simp: map_of_eq_None_iff image_iff)
    with None show ?thesis
      using Cons by simp
  next
    case (Some q)
    then have "(k, q) \<in> set (concat (c # cs))"
      by (auto dest: map_of_SomeD)
    then have "p = q"
      using Cons.prems by (metis eq_key_imp_eq_value)
    then show ?thesis
      using Some by simp
  qed
qed simp

text \<open>The caches with the entries of one of them replaced.\<close>

lemma concat_update: "i < length cs \<Longrightarrow> concat (cs[i := c]) = concat (take i cs) @ c @ concat (drop (Suc i) cs)"
  by (simp add: upd_conv_take_nth_drop)

lemma concat_split: "i < length cs \<Longrightarrow> concat cs = concat (take i cs) @ cs ! i @ concat (drop (Suc i) cs)"
  by (metis concat_update list_update_id)

text \<open>The entries from which the reaping of one cache removes the expired ones.\<close>

lemma TimeKillEvent_eq:
  assumes "length (ClientCache m) = 60" "unat TimeId < 60" "\<forall>e\<in>set (entries m). snd e < length (PStore m)"
  shows "TimeKillEvent m TimeId a Now Timeout =
    Some (m\<lparr>ClientCache := (ClientCache m)[unat TimeId := filter (\<lambda>e. \<not> expired (PStore m) Now Timeout e) (ClientCache m ! unat TimeId)]\<rparr>,
      foldl Free a (map (entry_id (PStore m)) (filter (expired (PStore m) Now Timeout) (ClientCache m ! unat TimeId))))"
proof -
  have "\<forall>e\<in>set (ClientCache m ! unat TimeId). snd e < length (PStore m)"
    using assms concat_split [of "unat TimeId" "ClientCache m"] by (auto simp: entries_def)
  with assms(1,2) show ?thesis
    by (simp add: TimeKillEvent_def Kill_loop_eq)
qed

section \<open>Client identifiers are unique\<close>

text \<open>The server's answer to a client it does not know yet.\<close>

definition accept_client :: "PendingConnectionManager \<Rightarrow> IDAllocator \<Rightarrow> u64 \<Rightarrow> u32 \<Rightarrow> SockAddr \<Rightarrow> u8 \<Rightarrow> u64 \<Rightarrow>
    (PendingConnectionManager \<times> IDAllocator \<times> nat) option" where
  "accept_client m a Now SId Addr TimeId k =
     (let (a, cid) = Allocate a; (m, p) = CreatePendingClient m Now SId cid Addr TimeId
      in do { m \<leftarrow> AddConnection m TimeId k p; Some (m, a, p) })"

text \<open>
  Runs of the manager: \<open>n\<close> counts the clients accepted. Every other operation of the server changes
  the fields of a pending connection and not its identifier.
\<close>

inductive pending_run :: "nat \<Rightarrow> PendingConnectionManager \<Rightarrow> IDAllocator \<Rightarrow> bool" where
  start: "pending_run 0 PendingConnectionManager_ctor (IDAllocator_ctor 1)"
| accept: "pending_run n m a \<Longrightarrow> FindConnection m k = None \<Longrightarrow> accept_client m a Now SId Addr TimeId k = Some (m', a', p)
    \<Longrightarrow> pending_run (Suc n) m' a'"
| modify: "pending_run n m a \<Longrightarrow> pupd m p f = Some m' \<Longrightarrow> (\<And>c. ClientID (f c) = ClientID c) \<Longrightarrow> pending_run n m' a"
| reap: "pending_run n m a \<Longrightarrow> TimeKillEvent m TimeId a Now Timeout = Some (m', a') \<Longrightarrow> pending_run n m' a'"
| ack_kill: "pending_run n m a \<Longrightarrow> AckConnectionKill m TimeId k a = Some (m', a') \<Longrightarrow> pending_run n m' a'"

definition live_ids :: "PendingConnectionManager \<Rightarrow> u32 list" where
  "live_ids m = map (entry_id (PStore m)) (entries m)"

definition pending_inv :: "nat \<Rightarrow> PendingConnectionManager \<Rightarrow> IDAllocator \<Rightarrow> bool" where
  "pending_inv n m a \<longleftrightarrow> length (ClientCache m) = 60 \<and> (\<forall>e\<in>set (entries m). snd e < length (PStore m))
     \<and> distinct (map fst (entries m)) \<and> distinct (live_ids m @ freeIDs a)
     \<and> (\<forall>i\<in>set (live_ids m @ freeIDs a). unat i < unat (IDcounter a)) \<and> unat (IDcounter a) \<le> n + 1"

lemma pending_invD:
  assumes "pending_inv n m a"
  shows "length (ClientCache m) = 60" "\<forall>e\<in>set (entries m). snd e < length (PStore m)"
    "distinct (map fst (entries m))" "distinct (live_ids m @ freeIDs a)"
    "\<forall>i\<in>set (live_ids m @ freeIDs a). unat i < unat (IDcounter a)" "unat (IDcounter a) \<le> n + 1"
  using assms by (auto simp: pending_inv_def)

lemma Allocate_fresh:
  assumes "distinct (L @ freeIDs a)" "\<forall>i\<in>set (L @ freeIDs a). unat i < unat (IDcounter a)" "unat (IDcounter a) < 2 ^ 32 - 1"
  shows "distinct (snd (Allocate a) # L @ freeIDs (fst (Allocate a)))"
    "\<forall>i\<in>set (snd (Allocate a) # L @ freeIDs (fst (Allocate a))). unat i < unat (IDcounter (fst (Allocate a)))"
    "unat (IDcounter (fst (Allocate a))) \<le> unat (IDcounter a) + 1"
proof -
  have u: "unat (IDcounter a + 1) = unat (IDcounter a) + 1"
    using assms(3) by (simp add: unat_word_ariths)
  show "distinct (snd (Allocate a) # L @ freeIDs (fst (Allocate a)))"
    "\<forall>i\<in>set (snd (Allocate a) # L @ freeIDs (fst (Allocate a))). unat i < unat (IDcounter (fst (Allocate a)))"
    "unat (IDcounter (fst (Allocate a))) \<le> unat (IDcounter a) + 1"
    using assms(1,2) by (auto simp: Allocate_def u less_Suc_eq split: list.splits)
qed


lemma live_ids_upd:
  assumes "pupd m p f = Some m'" "\<And>c. ClientID (f c) = ClientID c"
  shows "live_ids m' = live_ids m" "entries m' = entries m" "length (PStore m') = length (PStore m)" "length (ClientCache m') = length (ClientCache m)"
proof -
  from assms(1) have p: "p < length (PStore m)" and m': "m' = m\<lparr>PStore := (PStore m)[p := f (PStore m ! p)]\<rparr>"
    by (auto simp: pupd_def rd_def split: if_splits)
  show "entries m' = entries m" "length (PStore m') = length (PStore m)" "length (ClientCache m') = length (ClientCache m)"
    by (simp_all add: m' entries_def)
  have "entry_id ((PStore m)[p := f (PStore m ! p)]) e = entry_id (PStore m) e" for e
    using p assms(2) by (cases "snd e = p") (simp_all add: entry_id_def)
  then show "live_ids m' = live_ids m"
    by (simp add: m' live_ids_def entries_def)
qed

lemma distinct_map_filter_mid: "distinct (map f (xs @ ys @ zs)) \<Longrightarrow> distinct (map f (xs @ filter P ys @ zs))"
  by (auto simp: distinct_map_filter)

text \<open>Removing entries from one cache and freeing their identifiers.\<close>

lemma pending_inv_remove:
  assumes inv: "pending_inv n m a" and i: "i < 60"
    and m': "m' = m\<lparr>ClientCache := (ClientCache m)[i := filter (\<lambda>e. \<not> P e) (ClientCache m ! i)]\<rparr>"
    and a': "freeIDs a' = freeIDs a @ map (entry_id (PStore m)) (filter P (ClientCache m ! i))" "IDcounter a' = IDcounter a"
  shows "pending_inv n m' a'"
proof -
  note D = pending_invD [OF inv]
  let ?L = "concat (take i (ClientCache m))" and ?R = "concat (drop (Suc i) (ClientCache m))" and ?c = "ClientCache m ! i"
  let ?id = "entry_id (PStore m)"
  have e: "entries m = ?L @ ?c @ ?R"
    using concat_split [of i "ClientCache m"] i D(1) unfolding entries_def by metis
  have e': "entries m' = ?L @ filter (\<lambda>e. \<not> P e) ?c @ ?R"
    using i D(1) by (simp add: entries_def m' concat_update)
  have perm: "mset (live_ids m' @ freeIDs a') = mset (live_ids m @ freeIDs a)"
  proof -
    have l: "live_ids m' = map ?id (entries m')"
      by (simp add: live_ids_def m')
    have "mset ?c = mset (filter P ?c) + mset (filter (\<lambda>e. \<not> P e) ?c)"
      by (induction ?c) auto
    from arg_cong [OF this, of "image_mset ?id"] show ?thesis
      unfolding l live_ids_def [of m] e e' a'(1) by (simp del: mset_filter)
  qed
  then have "distinct (live_ids m' @ freeIDs a')" "set (live_ids m' @ freeIDs a') = set (live_ids m @ freeIDs a)"
    using D(4) by (metis mset_eq_imp_distinct_iff, metis mset_eq_setD)
  moreover have "distinct (map fst (entries m'))"
    using D(3) unfolding e e' by (rule distinct_map_filter_mid)
  moreover have "set (entries m') \<subseteq> set (entries m)"
    unfolding e e' by auto
  ultimately show ?thesis
    using D a'(2) by (auto simp: pending_inv_def m')
qed


lemma AddConnection_new:
  assumes "FindConnection m k = None" "AddConnection m TimeId k p = Some m'"
  shows "unat TimeId < length (ClientCache m)" "PStore m' = PStore m" "length (ClientCache m') = length (ClientCache m)"
    "mset (entries m') = add_mset (k, p) (mset (entries m))" "FindConnection m' k = Some p"
proof -
  let ?i = "unat TimeId" and ?C = "ClientCache m"
  show i: "?i < length ?C"
    using assms(2) by (auto simp: AddConnection_def rd_def split: if_splits)
  have none: "k \<notin> fst ` set (concat ?C)"
    using assms(1) by (simp add: FindConnection_def Find_loop_None)
  then have "map_of (?C ! ?i) k = None"
    using i by (force simp: map_of_eq_None_iff)
  then have m': "m' = m\<lparr>ClientCache := ?C[?i := ?C ! ?i @ [(k, p)]]\<rparr>"
    using assms(2) i by (simp add: AddConnection_def)
  show "PStore m' = PStore m" "length (ClientCache m') = length ?C"
    by (simp_all add: m')
  show "mset (entries m') = add_mset (k, p) (mset (entries m))"
    using i concat_split [OF i] by (simp add: m' entries_def concat_update)
  have "k \<notin> fst ` set (concat (take ?i ?C))"
    using none set_take_subset [of ?i ?C] by auto
  then have "Find_loop (take ?i ?C) k = None"
    by (rule Find_loop_None [THEN iffD2])
  moreover have "Find_loop (xs @ ys) k = (case Find_loop xs k of None \<Rightarrow> Find_loop ys k | Some q \<Rightarrow> Some q)" for xs ys
    by (induction xs) (auto split: option.splits)
  ultimately show "FindConnection m' k = Some p"
    using i \<open>map_of (?C ! ?i) k = None\<close>
    by (simp add: FindConnection_def m' upd_conv_take_nth_drop map_add_def)
qed

lemma accept_inv:
  assumes inv: "pending_inv n m a" and n: "n < 2 ^ 32 - 2" and new: "FindConnection m k = None"
    and acc: "accept_client m a Now SId Addr TimeId k = Some (m', a', p)"
  shows "pending_inv (Suc n) m' a'" "FindConnection m' k = Some p"
    "pget m' p = Some (PendingRemoteConnection_ctor Now SId (snd (Allocate a)) Addr TimeId)"
proof -
  note D = pending_invD [OF inv]
  let ?x = "PendingRemoteConnection_ctor Now SId (snd (Allocate a)) Addr TimeId"
  let ?m = "m\<lparr>PStore := PStore m @ [?x]\<rparr>"
  have p: "p = length (PStore m)" "a' = fst (Allocate a)" and add: "AddConnection ?m TimeId k p = Some m'"
    using acc by (auto simp: accept_client_def CreatePendingClient_def split: prod.splits bind_splits)
  have new': "FindConnection ?m k = None"
    using new by (simp add: FindConnection_def)
  note A = AddConnection_new [OF new' add]
  show "FindConnection m' k = Some p"
    by (rule A(5))
  show "pget m' p = Some ?x"
    using A(2) p by (simp add: pget_def)
  have e: "mset (entries m') = add_mset (k, p) (mset (entries m))"
    using A(4) by (simp add: entries_def)
  have same: "map (entry_id (PStore m')) (entries m) = live_ids m"
    using D(2) A(2) by (auto simp: live_ids_def entry_id_def nth_append)
  have "mset (live_ids m') = image_mset (entry_id (PStore m')) (mset (entries m'))"
    by (simp add: live_ids_def)
  also have "\<dots> = add_mset (entry_id (PStore m') (k, p)) (mset (live_ids m))"
    unfolding e same [symmetric] by simp
  also have "entry_id (PStore m') (k, p) = snd (Allocate a)"
    using A(2) p(1) by (simp add: entry_id_def PendingRemoteConnection_ctor_def)
  finally have "mset (live_ids m') = mset (snd (Allocate a) # live_ids m)"
    by simp
  then have perm: "mset (live_ids m' @ freeIDs a') = mset (snd (Allocate a) # live_ids m @ freeIDs a')"
    by simp
  note F = Allocate_fresh [of "live_ids m" a, folded p(2), OF D(4) D(5)]
  have c: "unat (IDcounter a) < 2 ^ 32 - 1"
    using D(6) n by simp
  have "distinct (live_ids m' @ freeIDs a')" "set (live_ids m' @ freeIDs a') = set (snd (Allocate a) # live_ids m @ freeIDs a')"
    using F(1) [OF c] perm by (metis mset_eq_imp_distinct_iff, metis mset_eq_setD)
  moreover have "distinct (map fst (entries m'))"
  proof -
    have "mset (map fst (entries m')) = mset (k # map fst (entries m))"
      by (simp add: e)
    moreover have "k \<notin> fst ` set (entries m)"
      using new by (simp add: FindConnection_def Find_loop_None entries_def)
    ultimately show ?thesis
      using D(3) by (metis distinct.simps(2) list.set_map mset_eq_imp_distinct_iff)
  qed
  moreover have "set (entries m') = insert (k, p) (set (entries m))"
    using e by (metis set_mset_mset set_mset_add_mset_insert)
  ultimately show "pending_inv (Suc n) m' a'"
    using D F(2,3) [OF c] A(2,3) p(1) unfolding pending_inv_def by auto
qed



lemma AckConnectionKill_cases:
  assumes "AckConnectionKill m TimeId k a = Some (m', a')" and D: "distinct (map fst (entries m))"
  shows "(m' = m \<and> a' = a) \<or> (\<exists>P. unat TimeId < length (ClientCache m) \<and>
     m' = m\<lparr>ClientCache := (ClientCache m)[unat TimeId := filter (\<lambda>e. \<not> P e) (ClientCache m ! unat TimeId)]\<rparr> \<and>
     (a' = foldl Free a (map (entry_id (PStore m)) (filter P (ClientCache m ! unat TimeId))) \<or>
      a' = a \<and> map (entry_id (PStore m)) (filter P (ClientCache m ! unat TimeId)) = [- 1]))"
proof -
  let ?c = "ClientCache m ! unat TimeId"
  show ?thesis
  proof (cases "map_of ?c k")
    case None
    then show ?thesis
      using assms(1) by (auto simp: AckConnectionKill_def rd_def split: if_splits)
  next
    case (Some p)
    let ?P = "\<lambda>(k', _ :: nat). k' = k"
    have i: "unat TimeId < length (ClientCache m)"
      using assms(1) by (auto simp: AckConnectionKill_def rd_def split: if_splits)
    have one: "filter ?P ?c = [(k, p)]"
    proof -
      have d: "distinct (map fst ?c)"
        using D concat_split [OF i] unfolding entries_def by simp
      have "filter ?P xs = [(k, p)]" if "map_of xs k = Some p" "distinct (map fst xs)" for xs :: "(u64 \<times> nat) list"
        using that
      proof (induction xs)
        case (Cons x xs)
        have "filter ?P xs = []" if "fst x = k"
          using Cons.prems(2) that by (auto simp: filter_empty_conv) (metis fst_conv image_eqI)
        with Cons show ?case
          by (cases x) (auto split: if_splits)
      qed simp
      with d Some show ?thesis by blast
    qed
    have n: "(\<lambda>e. \<not> ?P e) = (\<lambda>(k', _). k' \<noteq> k)"
      by auto
    show ?thesis
      using assms(1) Some i unfolding AckConnectionKill_def
      by (intro disjI2 exI [of _ ?P]) (auto simp: one n entry_id_def rd_def split: if_splits)
  qed
qed

lemma pending_run_inv: "pending_run n m a \<Longrightarrow> n < 2 ^ 32 - 1 \<Longrightarrow> pending_inv n m a"
proof (induction rule: pending_run.induct)
  case start
  show ?case
    by (simp add: pending_inv_def PendingConnectionManager_ctor_def IDAllocator_ctor_def entries_def live_ids_def)
next
  case (accept n m a k Now SId Addr TimeId m' a' p)
  then have "n < 2 ^ 32 - 2" "pending_inv n m a"
    by simp_all
  with accept.hyps(2,3) show ?case
    by (intro accept_inv(1))
next
  case (modify n m a p f m')
  then show ?case
    using live_ids_upd [OF modify.hyps(2,3)] by (simp add: pending_inv_def)
next
  case (reap n m a TimeId Now Timeout m' a')
  note inv = reap.IH [OF reap.prems]
  note D = pending_invD [OF inv]
  have i: "unat TimeId < 60"
    using reap.hyps(2) D(1) by (auto simp: TimeKillEvent_def rd_def split: if_splits)
  show ?case
    using pending_inv_remove [OF inv i, of m' "expired (PStore m) Now Timeout" a'] reap.hyps(2)
      TimeKillEvent_eq [OF D(1) i D(2), of a Now Timeout] by auto
next
  case (ack_kill n m a TimeId k m' a')
  note inv = ack_kill.IH [OF ack_kill.prems]
  note D = pending_invD [OF inv]
  consider "m' = m" "a' = a" | P where "unat TimeId < 60"
      "m' = m\<lparr>ClientCache := (ClientCache m)[unat TimeId := filter (\<lambda>e. \<not> P e) (ClientCache m ! unat TimeId)]\<rparr>"
      "a' = foldl Free a (map (entry_id (PStore m)) (filter P (ClientCache m ! unat TimeId)))"
    | P where "unat TimeId < 60" "map (entry_id (PStore m)) (filter P (ClientCache m ! unat TimeId)) = [- 1]"
    using AckConnectionKill_cases [OF ack_kill.hyps(2) D(3)] D(1) by metis
  then show ?case
  proof cases
    case 1
    then show ?thesis
      using inv by simp
  next
    case (2 P)
    then show ?thesis
      using pending_inv_remove [OF inv 2(1,2), of a'] by simp
  next
    case (3 P)
    have "- 1 \<in> set (map (entry_id (PStore m)) (ClientCache m ! unat TimeId))"
      using 3(2) by (metis filter_is_subset image_mono list.set_intros(1) set_map subsetD)
    then have "- 1 \<in> set (live_ids m)"
      using concat_split [of "unat TimeId" "ClientCache m"] 3(1) D(1) unfolding live_ids_def entries_def by simp
    then have "unat (- 1 :: u32) < unat (IDcounter a)"
      using D(5) by (metis UnI1 set_append)
    with D(6) have "unat (- 1 :: u32) < n + 1"
      by (rule less_le_trans [rotated])
    then show ?thesis
      using ack_kill.prems by (simp add: unsigned_minus_1_eq_mask mask_eq_exp_minus_1)
  qed
qed

text \<open>
  C23. In every run of the server's pending connections, in which fewer than \<open>2 ^ 32 - 2\<close> clients were
  accepted, a client that is accepted gets an identifier no pending connection has, is found by its
  address afterwards, and all pending connections keep distinct identifiers and addresses.
\<close>

theorem client_ids_unique:
  assumes run: "pending_run n m a" and n: "n < 2 ^ 32 - 2"
    and new: "FindConnection m k = None" and acc: "accept_client m a Now SId Addr TimeId k = Some (m', a', p)"
  shows "(\<forall>c. pget m' p = Some c \<longrightarrow> ClientID c \<notin> set (live_ids m)) \<and> FindConnection m' k = Some p
    \<and> distinct (live_ids m') \<and> distinct (map fst (entries m'))"
proof -
  have inv: "pending_inv n m a"
    using pending_run_inv [OF run] n by simp
  note A = accept_inv [OF inv n new acc]
  note D = pending_invD [OF inv]
  have "snd (Allocate a) \<notin> set (live_ids m)"
    using Allocate_fresh(1) [OF D(4,5)] D(6) n by simp
  then show ?thesis
    using A(2,3) pending_invD(3,4) [OF A(1)] by (simp add: PendingRemoteConnection_ctor_def)
qed


definition loopback :: SockAddr where
  "loopback = \<lparr>ss_family = AF_INET, sin_addr = 0x0100007F, sin_port = 0x901F\<rparr>"

theorem client_ids_unique_witness:
  "\<exists>m' a' p. accept_client PendingConnectionManager_ctor (IDAllocator_ctor 1) 0 0 loopback 59 7 = Some (m', a', p)
    \<and> FindConnection m' 7 = Some p"
proof -
  have new: "FindConnection PendingConnectionManager_ctor 7 = None"
    by (simp add: FindConnection_def Find_loop_None PendingConnectionManager_ctor_def)
  have "unat (59 :: u8) < 60"
    by simp
  then obtain m' a' p where "accept_client PendingConnectionManager_ctor (IDAllocator_ctor 1) 0 0 loopback 59 7 = Some (m', a', p)"
    by (fastforce simp: accept_client_def AddConnection_def CreatePendingClient_def PendingConnectionManager_ctor_def split: prod.splits)
  with client_ids_unique [OF pending_run.start _ new this] show ?thesis
    by simp
qed

text \<open>
  The reaper of a cache removes exactly the pending connections idle for at least the timeout, and
  frees exactly their identifiers: a client touched since is kept, whatever the cache holds.
\<close>

theorem reaper_removes_idle:
  assumes run: "pending_run n m a" and n: "n < 2 ^ 32 - 1" and T: "unat TimeId < 60"
  shows "\<exists>m' a'. TimeKillEvent m TimeId a Now Timeout = Some (m', a') \<and> pending_inv n m' a'
    \<and> PStore m' = PStore m
    \<and> ClientCache m' ! unat TimeId = filter (\<lambda>(k, p). \<not> dle Timeout (dsub Now (LastActivityTime (PStore m ! p)))) (ClientCache m ! unat TimeId)
    \<and> (\<forall>i < 60. i \<noteq> unat TimeId \<longrightarrow> ClientCache m' ! i = ClientCache m ! i)
    \<and> freeIDs a' = freeIDs a @ map (\<lambda>(k, p). ClientID (PStore m ! p))
        (filter (\<lambda>(k, p). dle Timeout (dsub Now (LastActivityTime (PStore m ! p)))) (ClientCache m ! unat TimeId))"
proof -
  have inv: "pending_inv n m a"
    using pending_run_inv [OF run n] .
  note D = pending_invD [OF inv]
  have e: "expired (PStore m) Now Timeout = (\<lambda>(k, p). dle Timeout (dsub Now (LastActivityTime (PStore m ! p))))"
    "entry_id (PStore m) = (\<lambda>(k, p). ClientID (PStore m ! p))"
    by (auto simp: expired_def entry_id_def)
  obtain m' a' where m': "m' = m\<lparr>ClientCache := (ClientCache m)[unat TimeId := filter (\<lambda>e. \<not> expired (PStore m) Now Timeout e) (ClientCache m ! unat TimeId)]\<rparr>"
    and a': "a' = foldl Free a (map (entry_id (PStore m)) (filter (expired (PStore m) Now Timeout) (ClientCache m ! unat TimeId)))"
    by blast
  have eq: "TimeKillEvent m TimeId a Now Timeout = Some (m', a')"
    unfolding m' a' by (rule TimeKillEvent_eq [OF D(1) T D(2)])
  have "pending_inv n m' a'"
    by (rule pending_run_inv [OF pending_run.reap [OF run eq] n])
  moreover have "ClientCache m' ! unat TimeId = filter (\<lambda>e. \<not> expired (PStore m) Now Timeout e) (ClientCache m ! unat TimeId)"
    "PStore m' = PStore m" "\<forall>i < 60. i \<noteq> unat TimeId \<longrightarrow> ClientCache m' ! i = ClientCache m ! i"
    "freeIDs a' = freeIDs a @ map (entry_id (PStore m)) (filter (expired (PStore m) Now Timeout) (ClientCache m ! unat TimeId))"
    using T D(1) by (simp_all add: m' a')
  ultimately show ?thesis
    using eq by (auto simp: e case_prod_unfold)
qed

theorem reaper_removes_idle_witness:
  "\<forall>Now. \<exists>m' a'. TimeKillEvent PendingConnectionManager_ctor 3 (IDAllocator_ctor 1) Now 0 = Some (m', a')"
  using reaper_removes_idle [OF pending_run.start, of 3] by fastforce

end
