(* ===== verification/HandshakeWire.thy ===== *)
theory HandshakeWire
  imports Pending
begin

text \<open>
  Network, \<open>processor/UdpPacketProcessor\<close>, what goes over the wire: the flags in front of every packet
  (\<open>Outgoing\<close>), the handshake packets (\<open>BeginHandshakePacket\<close>, \<open>CapHandshakePacket\<close>,
  \<open>ParseHandshakePacket\<close>), the 64 bit stream operator they use, and the cookie. HMAC-SHA1 (Crypto++)
  and the numeric host name (\<open>getnameinfo\<close>) are parameters; the random filler is an argument.
\<close>

section \<open>64 bit values\<close>

definition ByteSwap64 :: "u64 \<Rightarrow> u64" where
  "ByteSwap64 x = of_le_bytes (rev (le_bytes 8 x))"

definition stream_u64 :: "'a BitController_scheme serialize \<Rightarrow> 'a BitController_scheme \<Rightarrow> u64
    \<Rightarrow> ('a BitController_scheme \<times> u64) option" where
  "stream_u64 Serialize Ar Value =
     (if \<not> ArForceByteSwapping Ar then do {
        (Ar, V) \<leftarrow> Serialize Ar (le_bytes 8 Value) 8;
        Some (Ar, of_le_bytes V) }
      else if ArIsLoading Ar then do {
        (Ar, V) \<leftarrow> Serialize Ar (le_bytes 8 Value) 8;
        Some (Ar, ByteSwap64 (of_le_bytes V)) }
      else do {
        (Ar, V) \<leftarrow> Serialize Ar (le_bytes 8 (ByteSwap64 Value)) 8;
        Some (Ar, Value) })"

section \<open>The processor's configuration\<close>

definition COOKIE_BYTE_SIZE :: nat where "COOKIE_BYTE_SIZE = 20"
definition SECRET_COUNT :: u32 where "SECRET_COUNT = 2"
definition SessionIDSizeBits :: nat where "SessionIDSizeBits = 2"
definition ClientIDSizeBits :: nat where "ClientIDSizeBits = 3"

record UdpConfig =
  MagicHeaderSizeBits :: u32
  MagicHeaderOffset :: u32
  ExpectMagicHeader :: u32
  ExpectedSessionId :: u32
  HandshakeSecret :: "u8 list"

section \<open>Writing\<close>

text \<open>\<open>Outgoing\<close> writes the magic bits of a zero, not of the expected header.\<close>

definition Outgoing :: "UdpConfig \<Rightarrow> BitWriter \<Rightarrow> BitWriter option" where
  "Outgoing cfg Buffer = do {
     let ReadMagic = (0 :: u32);
     Buffer \<leftarrow> BitWriter_SerializeBitsWithOffset Buffer (le_bytes 4 ReadMagic) (unat (MagicHeaderOffset cfg)) (unat (MagicHeaderSizeBits cfg));
     if ReadMagic \<noteq> ExpectMagicHeader cfg then Some (SetError Buffer)
     else do {
       Buffer \<leftarrow> BitWriter_SerializeBits Buffer [0] SessionIDSizeBits;
       Buffer \<leftarrow> BitWriter_SerializeBits Buffer [0] ClientIDSizeBits;
       BitWriter_SerializeBits Buffer [0] 1 } }"

definition BeginHandshakePacket :: "UdpConfig \<Rightarrow> BitWriter \<Rightarrow> EHandshakePacketType \<Rightarrow> u8 \<Rightarrow> u32 \<Rightarrow> u32 \<Rightarrow> BitWriter option" where
  "BeginHandshakePacket cfg B HsType SentHandshakePacketCount SId CId = do {
     let bHandshakePacket = 1;
     let bRestartHandshake = 0;
     let PacketType = byte_of_type HsType;
     B \<leftarrow> BitWriter_SerializeBitsWithOffset B (le_bytes 4 (ExpectMagicHeader cfg)) (unat (MagicHeaderOffset cfg)) (unat (MagicHeaderSizeBits cfg));
     B \<leftarrow> BitWriter_SerializeBits B (le_bytes 4 SId) SessionIDSizeBits;
     B \<leftarrow> BitWriter_SerializeBits B (le_bytes 4 CId) ClientIDSizeBits;
     B \<leftarrow> WriteBit B bHandshakePacket;
     B \<leftarrow> WriteBit B bRestartHandshake;
     B \<leftarrow> BitWriter_SerializeBits B [PacketType] 8;
     BitWriter_SerializeBits B [SentHandshakePacketCount] 8 }"

text \<open>The random filler: \<open>16 - n\<close> bytes for a random \<open>n \<le> 8\<close>.\<close>

definition BaseRandomDataLengthBytes :: nat where "BaseRandomDataLengthBytes = 16"
definition RandomDataLengthVarianceBytes :: nat where "RandomDataLengthVarianceBytes = 8"

definition filler_ok :: "u8 list \<Rightarrow> bool" where
  "filler_ok Rand \<longleftrightarrow> BaseRandomDataLengthBytes - RandomDataLengthVarianceBytes \<le> length Rand \<and> length Rand \<le> BaseRandomDataLengthBytes"

fun Cap_loop :: "u8 list \<Rightarrow> BitWriter \<Rightarrow> BitWriter option" where
  "Cap_loop [] B = Some B"
| "Cap_loop (RandVal # Rand) B = do { (B, _) \<leftarrow> stream_u8 BitWriter_Serialize B RandVal; Cap_loop Rand B }"

definition CapHandshakePacket :: "u8 list \<Rightarrow> BitWriter \<Rightarrow> BitWriter option" where
  "CapHandshakePacket Rand B = do { B \<leftarrow> Cap_loop Rand B; WriteBit B 1 }"

section \<open>Reading\<close>

record ParsedHandshakeData =
  HsTryCount :: u8
  HsPacketType :: EHandshakePacketType
  HsRestart :: bool
  HsSecretId :: u8
  HsTimeStamp :: u64
  HsCookie :: "u8 list"

definition ParsedHandshakeData_ctor :: ParsedHandshakeData where
  "ParsedHandshakeData_ctor = \<lparr>HsTryCount = 0, HsPacketType = InitialPacket, HsRestart = False, HsSecretId = 0,
     HsTimeStamp = 0, HsCookie = replicate COOKIE_BYTE_SIZE 0\<rparr>"

definition ParseHandshakePacket :: "BitReader \<Rightarrow> (BitReader \<times> ParsedHandshakeData \<times> bool) option" where
  "ParseHandshakePacket Header = do {
     let Out = ParsedHandshakeData_ctor;
     (Header, b) \<leftarrow> ReadBit Header;
     let Out = Out\<lparr>HsRestart := b \<noteq> 0\<rparr>;
     (Header, t) \<leftarrow> stream_u8 BitReader_Serialize Header 0;
     (Header, c) \<leftarrow> stream_u8 BitReader_Serialize Header 0;
     let Out = Out\<lparr>HsTryCount := c, HsPacketType := type_of_byte t\<rparr>;
     (Header, Out) \<leftarrow>
       (if HsPacketType Out \<in> {InitialPacket, Challenge, Response, HsAck} then do {
          (Header, s) \<leftarrow> ReadBit Header;
          (Header, ts) \<leftarrow> stream_u64 BitReader_Serialize Header 0;
          (Header, ck) \<leftarrow> BitReader_Serialize Header (HsCookie Out) COOKIE_BYTE_SIZE;
          Some (Header, Out\<lparr>HsSecretId := s, HsTimeStamp := ts, HsCookie := ck\<rparr>) }
        else Some (Header, Out));
     Some (Header, Out, \<not> ArIsError Header) }"

text \<open>The flags in front of every packet: magic header, session and client, and whether a handshake follows.\<close>

definition ReadMagic :: "UdpConfig \<Rightarrow> BitReader \<Rightarrow> (BitReader \<times> u32) option" where
  "ReadMagic cfg Header = do {
     (Header, V) \<leftarrow> BitReader_SerializeBitsWithOffset Header (le_bytes 4 (0 :: u32)) (unat (MagicHeaderOffset cfg)) (unat (MagicHeaderSizeBits cfg));
     Some (Header, of_le_bytes V) }"

section \<open>The cookie\<close>

definition GetHandShakeSecret :: "UdpConfig \<Rightarrow> u32 \<Rightarrow> u8 list option" where
  "GetHandShakeSecret cfg ScretKeyId = (if ScretKeyId < SECRET_COUNT then Some (HandshakeSecret cfg) else None)"

text \<open>\<open>ToString(true)\<close> of an IPv4 address, from the host name the system gives.\<close>

definition Addr_ToString :: "(SockAddr \<Rightarrow> string option) \<Rightarrow> SockAddr \<Rightarrow> string" where
  "Addr_ToString nameinfo Addr = (case nameinfo Addr of
       None \<Rightarrow> []
     | Some IPStr \<Rightarrow> IPStr @ '':'' @ nat_text (unat (ByteSwap16 (sin_port Addr))))"

text \<open>With a secret id out of range the buffer of the cookie keeps its uninitialised contents (\<open>None\<close>).\<close>

definition GenerateCookie :: "(u8 list \<Rightarrow> string \<Rightarrow> u8 list) \<Rightarrow> (SockAddr \<Rightarrow> string option) \<Rightarrow> UdpConfig \<Rightarrow> SockAddr \<Rightarrow> u32 \<Rightarrow> u64 \<Rightarrow> u8 list option" where
  "GenerateCookie hmac nameinfo cfg ClientAddress SecretId LastUpdateTime =
     (case GetHandShakeSecret cfg SecretId of
        None \<Rightarrow> None
      | Some KeyVec \<Rightarrow> Some (hmac KeyVec (d_text LastUpdateTime @ Addr_ToString nameinfo ClientAddress)))"

section \<open>The handshake packets\<close>

definition HandshakePacket_Initial :: "UdpConfig \<Rightarrow> u8 list \<Rightarrow> PendingRemoteConnection \<Rightarrow> BitWriter \<Rightarrow> BitWriter option" where
  "HandshakePacket_Initial cfg Rand c B = do {
     B \<leftarrow> BeginHandshakePacket cfg B InitialPacket (ucast (HandshakeTryCount c)) (SessionId c) (ClientID c);
     B \<leftarrow> WriteBit B 0;
     (B, _) \<leftarrow> BitWriter_Serialize B (replicate 28 0) 28;
     CapHandshakePacket Rand B }"

definition HandshakePacket_Cookie ::
    "UdpConfig \<Rightarrow> u8 list \<Rightarrow> EHandshakePacketType \<Rightarrow> PendingRemoteConnection \<Rightarrow> u8 \<Rightarrow> u64 \<Rightarrow> u8 list \<Rightarrow> BitWriter \<Rightarrow> BitWriter option" where
  "HandshakePacket_Cookie cfg Rand HsType c Secret Time Cookie B = do {
     B \<leftarrow> BeginHandshakePacket cfg B HsType (ucast (HandshakeTryCount c)) (SessionId c) (ClientID c);
     B \<leftarrow> WriteBit B Secret;
     (B, _) \<leftarrow> stream_u64 BitWriter_Serialize B Time;
     (B, _) \<leftarrow> BitWriter_Serialize B Cookie COOKIE_BYTE_SIZE;
     CapHandshakePacket Rand B }"


section \<open>Sealed headers\<close>

lemma PacketHeader_ctor_ok:
  assumes "8 \<le> N"
  shows "\<exists>h. PacketHeader_ctor N = Some h \<and> BitWriter_wf (PhBuffer h) \<and> WMax (PhBuffer h) = N \<and> WPos (PhBuffer h) = 8
    \<and> \<not> ArForceByteSwapping (PhBuffer h) \<and> \<not> bSealed h"
proof -
  obtain B where B: "BitWriter_Serialize (BitWriter_ctor N False) [0] 1 = Some (B, [0])"
    "appended (BitWriter_ctor N False) (bitslice [0] 0 (1 * 8)) B"
    using Serialize_fits [OF BitWriter_ctor_wf, of N False 1 "[0]"] assms by auto
  then show ?thesis
    using appendedD [OF B(2)] by (simp add: PacketHeader_ctor_def)
qed

text \<open>A writer that appends the bits \<open>bs\<close>, and the bytes of the sealed header.\<close>

definition writes :: "(BitWriter \<Rightarrow> BitWriter option) \<Rightarrow> nat \<Rightarrow> bool list \<Rightarrow> bool" where
  "writes f need bs \<longleftrightarrow> length bs \<le> need \<and>
     (\<forall>w. BitWriter_wf w \<and> \<not> ArForceByteSwapping w \<and> WPos w + need \<le> WMax w \<longrightarrow> (\<exists>w'. f w = Some w' \<and> appended w bs w'))"

lemma writesI:
  "length bs \<le> need \<Longrightarrow> (\<And>w. BitWriter_wf w \<Longrightarrow> \<not> ArForceByteSwapping w \<Longrightarrow> WPos w + need \<le> WMax w \<Longrightarrow> \<exists>w'. f w = Some w' \<and> appended w bs w')
   \<Longrightarrow> writes f need bs"
  by (auto simp: writes_def)

lemma writesD:
  assumes "writes f need bs" "BitWriter_wf w" "\<not> ArForceByteSwapping w" "WPos w + need \<le> WMax w"
  obtains w' where "f w = Some w'" "appended w bs w'"
  using assms by (auto simp: writes_def)

lemma writes_bind:
  assumes f: "writes f m bs" and g: "writes g n cs"
  shows "writes (\<lambda>w. f w \<bind> g) (m + n) (bs @ cs)"
proof (rule writesI)
  show "length (bs @ cs) \<le> m + n"
    using f g by (simp add: writes_def)
  fix w
  assume w: "BitWriter_wf w" "\<not> ArForceByteSwapping w" "WPos w + (m + n) \<le> WMax w"
  then obtain w1 where w1: "f w = Some w1" "appended w bs w1"
    using writesD [OF f, of w] by auto
  note d = appendedD [OF w1(2)]
  have "WPos w1 + n \<le> WMax w1"
    using w(3) d(3,4) f by (simp add: writes_def)
  then obtain w2 where "g w1 = Some w2" "appended w1 cs w2"
    using writesD [OF g d(1)] d(5) w(2) by auto
  then show "\<exists>w'. (f w \<bind> g) = Some w' \<and> appended w (bs @ cs) w'"
    using w1 appended_trans by auto
qed

definition sealed_header :: "u8 list \<Rightarrow> nat \<Rightarrow> bool list \<Rightarrow> bool" where
  "sealed_header hdr hs bs \<longleftrightarrow> 0 < hs \<and> length hdr = hs \<and> hdr ! 0 = word_of_nat (length bs div 8 + (if length bs mod 8 = 0 then 1 else 2))
     \<and> length bs \<le> 8 * (hs - 1) \<and> bitslice (drop 1 hdr) 0 (length bs) = bs"

lemma HeaderSealed_ok:
  assumes B: "appended (PhBuffer h) bs B" and pos: "WPos (PhBuffer h) = 8" and N: "WMax (PhBuffer h) = 8 * hs" "hs \<le> 255" and uns: "\<not> bSealed h"
  shows "\<exists>h'. HeaderSealed (h\<lparr>PhBuffer := B\<rparr>) = Some h' \<and> sealed_header (WBuffer (PhBuffer h')) hs bs"
proof -
  note d = appendedD [OF B]
  have len: "length (WBuffer B) = hs" and fit: "8 + length bs \<le> 8 * hs"
    using d(1,3,4) N(1) pos by (simp_all add: BitWriter_wf_def)
  have n: "GetNumBytes B = length bs div 8 + (if length bs mod 8 = 0 then 1 else 2)"
    using d(4) pos by (simp add: GetNumBytes_def drop_bit_eq_div) presburger
  have le: "GetNumBytes B \<le> 255"
    using fit N(2) d(4) pos by (simp add: GetNumBytes_def drop_bit_eq_div)
  have wn: "unat (word_of_nat (GetNumBytes B) :: u32) = GetNumBytes B"
    using le by (simp add: unat_of_nat)
  have small: "\<not> 255 < (word_of_nat (GetNumBytes B) :: u32)"
    using le wn by (simp add: word_less_nat_alt)
  have byte: "ucast ((word_of_nat (GetNumBytes B) :: u32) AND 0xFF) = (word_of_nat (GetNumBytes B) :: u8)"
  proof (rule bit_word_eqI)
    fix i
    assume "i < LENGTH(8)"
    moreover have m: "(0xFF :: u32) = mask 8"
      by (simp add: mask_eq_exp_minus_1)
    ultimately show "bit (ucast ((word_of_nat (GetNumBytes B) :: u32) AND 0xFF) :: u8) i = bit (word_of_nat (GetNumBytes B) :: u8) i"
      unfolding m by (simp add: bit_simps)
  qed
  have pos0: "0 < length (WBuffer B)"
    using len fit by simp
  let ?W = "(WBuffer B)[0 := word_of_nat (GetNumBytes B)]"
  have "HeaderSealed (h\<lparr>PhBuffer := B\<rparr>) = Some (h\<lparr>PhBuffer := B\<lparr>WBuffer := ?W\<rparr>, bSealed := True\<rparr>)"
    using uns small byte pos0 by (simp add: HeaderSealed_def Let_def)
  moreover have "bitslice (drop 1 ?W) 0 (length bs) = bs"
  proof (rule nth_equalityI)
    fix i
    assume "i < length (bitslice (drop 1 ?W) 0 (length bs))"
    then have i: "i < length bs"
      by simp
    have "buf_bit (drop 1 ?W) i = buf_bit (WBuffer B) (8 + i)"
    proof -
      have "(8 + i) div 8 = Suc (i div 8)"
        by simp
      with pos0 show ?thesis
        by (cases "WBuffer B") (simp_all add: buf_bit_def)
    qed
    also have "\<dots> = wbits B ! (8 + i)"
      using i d(4) pos by (simp add: wbits_def)
    also have "\<dots> = bs ! i"
      using d(2) pos by (simp add: nth_append)
    finally show "bitslice (drop 1 ?W) 0 (length bs) ! i = bs ! i"
      using i by simp
  qed simp
  ultimately show ?thesis
    using len fit pos0 n by (auto simp: sealed_header_def)
qed

text \<open>What the receiver of the header makes of it.\<close>

lemma sealed_header_received:
  assumes h: "sealed_header hdr hs bs" and "hs \<le> 255"
  shows "\<exists>r pad. RecvPacketReader_ctor \<lparr>EData = hdr @ rest, remoteAddr = addr\<rparr> n = Some r \<and> BitReader_wf (RHeader r)
    \<and> \<not> ArIsError (RHeader r) \<and> \<not> ArForceByteSwapping (RHeader r) \<and> rbits (RHeader r) = bs @ pad \<and> length pad < 8
    \<and> RHashKey r = MakeIPv4PortKeyFromStorage addr \<and> RAddress r = addr \<and> \<not> bConnectionlessPacket r \<and> \<not> bFromRecentlyDisconnected r"
proof -
  let ?k = "length bs div 8 + (if length bs mod 8 = 0 then 1 else 2)"
  have H: "length hdr = hs" "hdr ! 0 = word_of_nat ?k" "length bs \<le> 8 * (hs - 1)" "bitslice (drop 1 hdr) 0 (length bs) = bs"
    using h by (simp_all only: sealed_header_def)
  have k: "1 \<le> ?k" "?k \<le> hs" "length bs \<le> (?k - 1) * 8" "(?k - 1) * 8 < length bs + 8" if "0 < hs"
    using H(3) that by (auto simp: mod_eq_0_iff_dvd) presburger+
  have sz: "0 < hs"
    using h by (simp add: sealed_header_def)
  note k = k [OF sz]
  have "unat (word_of_nat ?k - 1 :: u8) = ?k - 1"
  proof -
    have "(word_of_nat ?k - 1 :: u8) = word_of_nat (?k - 1)"
      using k(1) by (subst of_nat_diff) auto
    moreover have "?k - 1 < 256"
      using k(2) assms(2) by simp
    ultimately show ?thesis
      by (simp only: unat_of_nat) simp
  qed
  moreover have "(?k - 1) * 8 \<le> 8 * length (drop 1 (hdr @ rest))"
    using k(2) H(1) by simp
  then obtain r where r: "BitReader_ctor (Some (drop 1 (hdr @ rest))) ((?k - 1) * 8) = Some r" "BitReader_wf r" "\<not> ArIsError r"
    "\<not> ArForceByteSwapping r" "rbits r = bitslice (drop 1 (hdr @ rest)) 0 ((?k - 1) * 8)"
    using BitReader_ctor_ok by blast
  have split: "(?k - 1) * 8 = length bs + ((?k - 1) * 8 - length bs)"
    using k(3) by simp
  have "rbits r = bs @ bitslice (drop 1 (hdr @ rest)) (length bs) ((?k - 1) * 8 - length bs)"
  proof -
    have "bitslice (drop 1 (hdr @ rest)) 0 (length bs) = bitslice (drop 1 hdr) 0 (length bs)"
      using H(1,3) by (intro bitslice_eqI) (auto simp: buf_bit_def nth_append)
    then show ?thesis
      unfolding r(5) by (subst split, subst bitslice_add) (use H(4) in \<open>simp del: drop_append\<close>)
  qed
  moreover have "rd (hdr @ rest) 0 = Some (word_of_nat ?k)"
    using H(1,2) sz by (simp add: rd_def nth_append)
  ultimately show ?thesis
    using r k(4) by (auto simp: RecvPacketReader_ctor_def)
qed


section \<open>The bits of a handshake packet\<close>

text \<open>The configurations the driver is run with: the magic header lies in the bits that are sent.\<close>

definition magic_ok :: "UdpConfig \<Rightarrow> bool" where
  "magic_ok cfg \<longleftrightarrow> unat (MagicHeaderOffset cfg) + unat (MagicHeaderSizeBits cfg) \<le> 32 \<and>
     (\<forall>i<32. bit (ExpectMagicHeader cfg) i \<longrightarrow> unat (MagicHeaderOffset cfg) \<le> i \<and> i < unat (MagicHeaderOffset cfg) + unat (MagicHeaderSizeBits cfg))"

definition magic_bits :: "UdpConfig \<Rightarrow> u32 \<Rightarrow> bool list" where
  "magic_bits cfg m = bitslice (le_bytes 4 m) (unat (MagicHeaderOffset cfg)) (unat (MagicHeaderSizeBits cfg))"

definition flag_bits :: "UdpConfig \<Rightarrow> u32 \<Rightarrow> u32 \<Rightarrow> bool \<Rightarrow> bool list" where
  "flag_bits cfg SId CId hs = magic_bits cfg (ExpectMagicHeader cfg) @ word_bits 2 SId @ word_bits 3 CId @ [hs]"

definition begin_bits :: "UdpConfig \<Rightarrow> EHandshakePacketType \<Rightarrow> u8 \<Rightarrow> u32 \<Rightarrow> u32 \<Rightarrow> bool list" where
  "begin_bits cfg t n SId CId = flag_bits cfg SId CId True @ [False] @ word_bits 8 (byte_of_type t) @ word_bits 8 n"

definition body_bits :: "u8 \<Rightarrow> u64 \<Rightarrow> u8 list \<Rightarrow> bool list" where
  "body_bits Secret Time Cookie = [Secret \<noteq> 0] @ word_bits 64 Time @ bitslice Cookie 0 160"

definition cap_bits :: "u8 list \<Rightarrow> bool list" where
  "cap_bits Rand = concat (map (word_bits 8) Rand) @ [True]"

lemma bitslice_byte: "n \<le> 8 \<Longrightarrow> bitslice [x] 0 n = word_bits n (x :: u8)"
  by (rule nth_equalityI) (auto simp: word_bits_def buf_bit_def)

lemma writes_bits:
  "n \<le> 8 * length V \<Longrightarrow> writes (\<lambda>w. BitWriter_SerializeBits w V n) n (bitslice V 0 n)"
  by (rule writesI) (auto intro!: SerializeBits_fits)

lemma writes_magic:
  assumes "magic_ok cfg"
  shows "writes (\<lambda>w. BitWriter_SerializeBitsWithOffset w (le_bytes 4 m) (unat (MagicHeaderOffset cfg)) (unat (MagicHeaderSizeBits cfg)))
    32 (magic_bits cfg m)"
  using assms by (intro writesI) (auto simp: magic_ok_def magic_bits_def intro!: SerializeBitsWithOffset_fits)

lemma writes_bit: "writes (\<lambda>w. WriteBit w x) 1 [x \<noteq> 0]"
  by (rule writesI) (auto intro!: WriteBit_fits)

lemma writes_bytes: "length V = n \<Longrightarrow> writes (\<lambda>w. map_option fst (BitWriter_Serialize w V n)) (n * 8) (bitslice V 0 (n * 8))"
  by (rule writesI) (auto dest!: Serialize_fits [of _ n V])

lemma writes_u64: "writes (\<lambda>w. map_option fst (stream_u64 BitWriter_Serialize w v)) 64 (word_bits 64 v)"
proof (rule writesI)
  fix w
  assume "BitWriter_wf w" "\<not> ArForceByteSwapping w" "WPos w + 64 \<le> WMax w"
  then show "\<exists>w'. map_option fst (stream_u64 BitWriter_Serialize w v) = Some w' \<and> appended w (word_bits 64 v) w'"
    using Serialize_fits [of w 8 "le_bytes 8 v"] by (auto simp: stream_u64_def bitslice_le_bytes)
qed simp

lemma writes_Cap_loop: "writes (Cap_loop Rand) (8 * length Rand) (concat (map (word_bits 8) Rand))"
proof (induction Rand)
  case Nil
  show ?case
    by (rule writesI) (auto simp: appended_refl)
next
  case (Cons x Rand)
  have "writes (\<lambda>w. map_option fst (stream_u8 BitWriter_Serialize w x)) 8 (word_bits 8 x)"
    by (rule writesI) (auto dest!: stream_u8_writes [of _ x])
  from writes_bind [OF this Cons.IH] have "writes (\<lambda>w. map_option fst (stream_u8 BitWriter_Serialize w x) \<bind> Cap_loop Rand)
      (8 * length (x # Rand)) (concat (map (word_bits 8) (x # Rand)))"
    by simp
  moreover have "(\<lambda>w. map_option fst (stream_u8 BitWriter_Serialize w x) \<bind> Cap_loop Rand) = Cap_loop (x # Rand)"
    by (auto simp: fun_eq_iff split: option.splits bind_splits)
  ultimately show ?case by (simp del: Cap_loop.simps)
qed

lemma writes_Cap: "filler_ok Rand \<Longrightarrow> writes (CapHandshakePacket Rand) 129 (cap_bits Rand)"
proof -
  assume "filler_ok Rand"
  then have l: "length Rand \<le> 16"
    by (simp add: filler_ok_def BaseRandomDataLengthBytes_def)
  have "writes (\<lambda>w. Cap_loop Rand w \<bind> (\<lambda>w. WriteBit w 1)) (8 * length Rand + 1) (cap_bits Rand)"
    using writes_bind [OF writes_Cap_loop [of Rand] writes_bit [of 1]] by (simp add: cap_bits_def)
  then show ?thesis
    using l unfolding writes_def CapHandshakePacket_def by auto
qed

lemma writes_Begin:
  assumes "magic_ok cfg"
  shows "writes (\<lambda>B. BeginHandshakePacket cfg B t n SId CId) 55 (begin_bits cfg t n SId CId)"
proof -
  have "writes (\<lambda>B. BeginHandshakePacket cfg B t n SId CId) (32 + (2 + (3 + (1 + (1 + (8 + 8))))))
      (magic_bits cfg (ExpectMagicHeader cfg) @ bitslice (le_bytes 4 SId) 0 2 @ bitslice (le_bytes 4 CId) 0 3
        @ [(1 :: u8) \<noteq> 0] @ [(0 :: u8) \<noteq> 0] @ bitslice [byte_of_type t] 0 8 @ bitslice [n] 0 8)"
    unfolding BeginHandshakePacket_def SessionIDSizeBits_def ClientIDSizeBits_def Let_def
    by (intro writes_bind writes_magic assms writes_bits writes_bit) auto
  then show ?thesis
    by (simp add: begin_bits_def flag_bits_def bitslice_le_bytes bitslice_byte)
qed


lemma bind_fst: "(m \<bind> (\<lambda>(B, _). f B)) = (map_option fst m \<bind> f)"
  by (cases m) auto

definition cookie_bits :: "UdpConfig \<Rightarrow> u8 list \<Rightarrow> EHandshakePacketType \<Rightarrow> PendingRemoteConnection \<Rightarrow> u8 \<Rightarrow> u64 \<Rightarrow> u8 list \<Rightarrow> bool list" where
  "cookie_bits cfg Rand t c Secret Time Cookie =
     begin_bits cfg t (ucast (HandshakeTryCount c)) (SessionId c) (ClientID c) @ body_bits Secret Time Cookie @ cap_bits Rand"

lemma writes_Cookie:
  assumes "magic_ok cfg" "filler_ok Rand" "length Cookie = 20"
  shows "writes (HandshakePacket_Cookie cfg Rand t c Secret Time Cookie) 409 (cookie_bits cfg Rand t c Secret Time Cookie)"
proof -
  have "writes (\<lambda>B. BeginHandshakePacket cfg B t (ucast (HandshakeTryCount c)) (SessionId c) (ClientID c) \<bind>
      (\<lambda>B. WriteBit B Secret \<bind> (\<lambda>B. map_option fst (stream_u64 BitWriter_Serialize B Time) \<bind>
        (\<lambda>B. map_option fst (BitWriter_Serialize B Cookie 20) \<bind> CapHandshakePacket Rand))))
     (55 + (1 + (64 + (20 * 8 + 129))))
     (begin_bits cfg t (ucast (HandshakeTryCount c)) (SessionId c) (ClientID c) @ [Secret \<noteq> 0] @ word_bits 64 Time @ bitslice Cookie 0 (20 * 8) @ cap_bits Rand)"
    by (intro writes_bind writes_Begin assms writes_bit writes_u64 writes_bytes writes_Cap)
  then show ?thesis
    by (simp add: HandshakePacket_Cookie_def [abs_def] cookie_bits_def body_bits_def bind_fst COOKIE_BYTE_SIZE_def)
qed

lemma writes_Initial:
  assumes "magic_ok cfg" "filler_ok Rand"
  shows "writes (HandshakePacket_Initial cfg Rand c) 409 (cookie_bits cfg Rand InitialPacket c 0 0 (replicate 20 0))"
proof -
  have z: "bitslice (replicate 28 0) 0 (28 * 8) = word_bits 64 (0 :: u64) @ bitslice (replicate 20 0) 0 160"
    by (rule nth_equalityI) (auto simp: nth_append word_bits_def)
  have "writes (\<lambda>B. BeginHandshakePacket cfg B InitialPacket (ucast (HandshakeTryCount c)) (SessionId c) (ClientID c) \<bind>
      (\<lambda>B. WriteBit B 0 \<bind> (\<lambda>B. map_option fst (BitWriter_Serialize B (replicate 28 0) 28) \<bind> CapHandshakePacket Rand)))
     (55 + (1 + (28 * 8 + 129)))
     (begin_bits cfg InitialPacket (ucast (HandshakeTryCount c)) (SessionId c) (ClientID c) @ [(0 :: u8) \<noteq> 0] @ bitslice (replicate 28 0) 0 (28 * 8) @ cap_bits Rand)"
    by (intro writes_bind writes_Begin assms writes_bit writes_bytes writes_Cap) simp
  then show ?thesis
    unfolding z by (simp add: HandshakePacket_Initial_def [abs_def] cookie_bits_def body_bits_def bind_fst)
qed

section \<open>Reading them\<close>

text \<open>A read operation takes the bits of a value from the front.\<close>

definition reads :: "(BitReader \<Rightarrow> (BitReader \<times> 'v) option) \<Rightarrow> bool list \<Rightarrow> 'v \<Rightarrow> bool" where
  "reads f bs v \<longleftrightarrow> (\<forall>r cs. BitReader_wf r \<and> \<not> ArIsError r \<and> \<not> ArForceByteSwapping r \<and> rbits r = bs @ cs \<longrightarrow>
     (\<exists>r'. f r = Some (r', v) \<and> consumed r (length bs) r' \<and> rbits r' = cs))"

lemma readsD:
  assumes "reads f bs v" "BitReader_wf r" "\<not> ArIsError r" "\<not> ArForceByteSwapping r" "rbits r = bs @ cs"
  obtains r' where "f r = Some (r', v)" "BitReader_wf r'" "\<not> ArIsError r'" "\<not> ArForceByteSwapping r'" "rbits r' = cs" "consumed r (length bs) r'"
proof -
  from assms obtain r' where r': "f r = Some (r', v)" "consumed r (length bs) r'" "rbits r' = cs"
    unfolding reads_def by blast
  show thesis
    using that [OF r'(1) _ _ _ r'(3,2)] consumedD(1,3,4) [OF r'(2)] assms(3,4) by simp
qed

lemma consumed_trans: "consumed r m r1 \<Longrightarrow> consumed r1 n r2 \<Longrightarrow> consumed r (m + n) r2"
proof -
  assume c: "consumed r m r1" "consumed r1 n r2"
  then have e: "r1 = r\<lparr>RPos := RPos r + m\<rparr>" "r2 = r1\<lparr>RPos := RPos r1 + n\<rparr>"
    and b: "rbits r1 = drop m (rbits r)" "rbits r2 = drop n (rbits r1)" "BitReader_wf r2"
    unfolding consumed_def by blast+
  have "r2 = r\<lparr>RPos := RPos r + (m + n)\<rparr>"
    unfolding e by (simp add: add.assoc)
  moreover have "rbits r2 = drop (m + n) (rbits r)"
    unfolding b(1,2) by (simp add: add.commute)
  ultimately show ?thesis
    using b(3) by (simp only: consumed_def simp_thms)
qed

lemma reads_bind:
  assumes f: "reads f bs v" and g: "reads (g v) cs u"
  shows "reads (\<lambda>r. f r \<bind> (\<lambda>(r, x). g x r)) (bs @ cs) u"
proof -
  have "\<exists>r'. (f r \<bind> (\<lambda>(r, x). g x r)) = Some (r', u) \<and> consumed r (length (bs @ cs)) r' \<and> rbits r' = ds"
    if r: "BitReader_wf r" "\<not> ArIsError r" "\<not> ArForceByteSwapping r" "rbits r = (bs @ cs) @ ds" for r ds
  proof -
    obtain r1 where r1: "f r = Some (r1, v)" "BitReader_wf r1" "\<not> ArIsError r1" "\<not> ArForceByteSwapping r1" "rbits r1 = cs @ ds"
      "consumed r (length bs) r1"
      using readsD [OF f r(1,2,3)] r(4) by auto
    obtain r2 where "g v r1 = Some (r2, u)" "rbits r2 = ds" "consumed r1 (length cs) r2"
      using readsD [OF g r1(2,3,4,5)] by blast
    then show ?thesis
      using r1(1) consumed_trans [OF r1(6)] by auto
  qed
  then show ?thesis
    by (auto simp: reads_def)
qed

lemma reads_bit: "reads ReadBit [b] (if b then 1 else 0)"
  using ReadBit_front by (fastforce simp: reads_def)

lemma reads_u8: "reads (\<lambda>r. stream_u8 BitReader_Serialize r v0) (word_bits 8 v) v"
  using stream_u8_reads by (fastforce simp: reads_def)

lemma reads_bytes: "length V = n \<Longrightarrow> length V0 = n \<Longrightarrow> reads (\<lambda>r. BitReader_Serialize r V0 n) (bitslice V 0 (n * 8)) V"
proof -
  assume n: "length V = n" "length V0 = n"
  have "\<exists>r'. BitReader_Serialize r V0 n = Some (r', V) \<and> consumed r (n * 8) r' \<and> rbits r' = cs"
    if r: "BitReader_wf r" "\<not> ArIsError r" "rbits r = bitslice V 0 (n * 8) @ cs" for r cs
  proof -
    obtain r' D where D: "BitReader_Serialize r V0 n = Some (r', D)" "consumed r (n * 8) r'" "rbits r' = cs" "length D = n"
      "bitslice D 0 (n * 8) = bitslice V 0 (n * 8)"
      using Serialize_front [OF r length_bitslice n(2) [symmetric]] by blast
    have "buf_bit D i = buf_bit V i" if "i < 8 * n" for i
      using arg_cong [OF D(5), of "\<lambda>l. l ! i"] that by simp
    then have "D = V"
      using n(1) D(4) by (intro buffer_eqI) simp_all
    with D show ?thesis by auto
  qed
  then show ?thesis
    by (simp add: reads_def)
qed

lemma reads_u64: "reads (\<lambda>r. stream_u64 BitReader_Serialize r v0) (word_bits 64 v) v"
proof -
  have "reads (\<lambda>r. BitReader_Serialize r (le_bytes 8 v0) 8) (word_bits 64 v) (le_bytes 8 v)"
    using reads_bytes [of "le_bytes 8 v" 8 "le_bytes 8 v0"] by (simp add: bitslice_le_bytes)
  then have "\<exists>r'. stream_u64 BitReader_Serialize r v0 = Some (r', v) \<and> consumed r 64 r' \<and> rbits r' = cs"
    if r: "BitReader_wf r" "\<not> ArIsError r" "\<not> ArForceByteSwapping r" "rbits r = word_bits 64 v @ cs" for r cs
  proof (rule readsD [OF _ r])
    fix r'
    assume "BitReader_Serialize r (le_bytes 8 v0) 8 = Some (r', le_bytes 8 v)" "rbits r' = cs"
      "consumed r (length (word_bits 64 v)) r'"
    then show ?thesis
      using r(3) by (simp add: stream_u64_def le_bytes_inverse)
  qed
  then show ?thesis
    by (simp add: reads_def)
qed

lemma reads_few:
  assumes "n \<le> 8"
  shows "reads (\<lambda>r. BitReader_SerializeBits r [0] n) (word_bits n x) [take_bit n (ucast (x :: u32) :: u8)]"
proof -
  have "\<exists>r'. BitReader_SerializeBits r [0] n = Some (r', [take_bit n (ucast x)]) \<and> consumed r n r' \<and> rbits r' = cs"
    if r: "BitReader_wf r" "\<not> ArIsError r" "rbits r = word_bits n x @ cs" for r cs
  proof -
    obtain r' D where D: "BitReader_SerializeBits r [0] n = Some (r', D)" "consumed r n r'" "rbits r' = cs"
      "holds_bits [0] D (word_bits n x)"
      using SerializeBits_front [OF r, of n "[0]"] assms by auto
    have len: "length D = length [take_bit n (ucast x :: u8)]" and b: "\<And>i. i < 8 \<Longrightarrow> buf_bit D i = (i < n \<and> bit x i)"
      using D(4) by (auto simp: holds_bits_def word_bits_def buf_bit_def)
    have "D = [take_bit n (ucast x)]"
      by (rule buffer_eqI [OF len]) (use b len in \<open>auto simp: buf_bit_def bit_simps\<close>)
    with D show ?thesis by auto
  qed
  then show ?thesis
    by (simp add: reads_def)
qed

lemma reads_magic:
  assumes "magic_ok cfg"
  shows "reads (ReadMagic cfg) (magic_bits cfg (ExpectMagicHeader cfg)) (ExpectMagicHeader cfg)"
proof -
  let ?o = "unat (MagicHeaderOffset cfg)" and ?n = "unat (MagicHeaderSizeBits cfg)" and ?m = "ExpectMagicHeader cfg"
  have on: "?o + ?n \<le> 32" and in_range: "\<And>i. i < 32 \<Longrightarrow> bit ?m i \<Longrightarrow> ?o \<le> i \<and> i < ?o + ?n"
    using assms by (auto simp: magic_ok_def)
  have "\<exists>r'. ReadMagic cfg r = Some (r', ?m) \<and> consumed r ?n r' \<and> rbits r' = cs"
    if r: "BitReader_wf r" "\<not> ArIsError r" "rbits r = magic_bits cfg ?m @ cs" for r cs
  proof -
    have room: "RPos r + ?n \<le> RMax r"
      using rbits_append_room [OF r(3,1)] by (simp add: magic_bits_def)
    let ?V = "bit_copy_ref (le_bytes 4 (0 :: u32)) ?o (RBuffer r) (RPos r) ?n"
    have cp: "appBitsCpy (le_bytes 4 (0 :: u32)) ?o (RBuffer r) (RPos r) ?n = Some ?V"
      using on room BitReader_wfD(1) [OF r(1)] by (intro appBitsCpy_ok) auto
    have bits: "buf_bit ?V i = bit ?m i" if i: "i < 32" for i
    proof (cases "?o \<le> i \<and> i < ?o + ?n")
      case True
      then have lt: "i - ?o < ?n"
        by linarith
      then have "buf_bit (RBuffer r) (RPos r + (i - ?o)) = rbits r ! (i - ?o)"
        using room by (subst nth_rbits) auto
      also have "\<dots> = bit ?m i"
        using r(3) True i lt by (simp add: magic_bits_def nth_append le_bytes_bit)
      finally show ?thesis
        using True on by (simp add: buf_bit_copy_ref)
    next
      case False
      then show ?thesis
        using in_range [OF i] on i by (auto simp: buf_bit_copy_ref le_bytes_bit)
    qed
    have "length ?V = 4"
      by simp
    then have "of_le_bytes ?V = ?m"
      using bits by (intro of_le_bytes_eqI [of _ 4]) (auto simp: word_bits_def intro!: nth_equalityI)
    then have "ReadMagic cfg r = Some (r\<lparr>RPos := RPos r + ?n\<rparr>, ?m)" if "?n \<noteq> 0"
      using that cp r(2) room by (simp add: ReadMagic_def BitReader_SerializeBitsWithOffset_def)
    moreover have "ReadMagic cfg r = Some (r\<lparr>RPos := RPos r + ?n\<rparr>, ?m)" if n0: "?n = 0"
    proof -
      have "?m = 0"
        using in_range n0 by (intro bit_word_eqI) fastforce
      then show ?thesis
        using n0 r(2) room by (simp add: ReadMagic_def BitReader_SerializeBitsWithOffset_def le_bytes_inverse)
    qed
    ultimately show ?thesis
      using consumedI [OF r(1) room] consumedD(2) [OF consumedI [OF r(1) room]] r(3)
      by (fastforce simp: magic_bits_def)
  qed
  then show ?thesis
    by (simp add: reads_def magic_bits_def)
qed


lemma reads_pure: "reads (\<lambda>r. Some (r, v)) [] v"
  by (simp add: reads_def consumed_def)

lemma type_of_byte_inverse [simp]: "type_of_byte (byte_of_type t) = t \<longleftrightarrow> (\<forall>b. t = OtherPacketType b \<longrightarrow> 6 < b)"
proof (cases t)
  case (OtherPacketType b)
  have "b = 0 \<or> b = 1 \<or> b = 2 \<or> b = 3 \<or> b = 4 \<or> b = 5 \<or> b = 6 \<longleftrightarrow> \<not> 6 < b"
  proof
    assume "\<not> 6 < b"
    then have "unat b \<le> 6"
      by (simp add: word_less_nat_alt)
    then have "unat b \<in> {0, 1, 2, 3, 4, 5, 6}"
      by auto
    then show "b = 0 \<or> b = 1 \<or> b = 2 \<or> b = 3 \<or> b = 4 \<or> b = 5 \<or> b = 6"
      by (auto simp: word_unat_eq_iff)
  qed auto
  then show ?thesis
    using OtherPacketType by (auto simp: type_of_byte_def)
qed (auto simp: type_of_byte_def)

definition parsed :: "u8 \<Rightarrow> EHandshakePacketType \<Rightarrow> u8 \<Rightarrow> u64 \<Rightarrow> u8 list \<Rightarrow> ParsedHandshakeData" where
  "parsed n t Secret Time Cookie = \<lparr>HsTryCount = n, HsPacketType = t, HsRestart = False,
     HsSecretId = (if Secret \<noteq> 0 then 1 else 0), HsTimeStamp = Time, HsCookie = Cookie\<rparr>"

lemma reads_parse:
  assumes t: "t \<in> {InitialPacket, Challenge, Response, HsAck}" and l: "length Cookie = 20"
  shows "reads (\<lambda>r. map_option (\<lambda>(r, d, _). (r, d)) (ParseHandshakePacket r))
    ([False] @ word_bits 8 (byte_of_type t) @ word_bits 8 n @ body_bits Secret Time Cookie) (parsed n t Secret Time Cookie)"
    (is "reads _ ?bs ?v")
proof -
  have t': "type_of_byte (byte_of_type t) = t"
    using t by auto
  let ?Out = "ParsedHandshakeData_ctor\<lparr>HsRestart := False\<rparr>\<lparr>HsTryCount := n, HsPacketType := t\<rparr>"
  let ?v2 = "?Out\<lparr>HsSecretId := if Secret \<noteq> 0 then 1 else 0, HsTimeStamp := Time, HsCookie := Cookie\<rparr>"
  have "reads (\<lambda>r. ReadBit r \<bind> (\<lambda>(r, b).
      stream_u8 BitReader_Serialize r 0 \<bind> (\<lambda>(r, ty). stream_u8 BitReader_Serialize r 0 \<bind> (\<lambda>(r, c).
       ReadBit r \<bind> (\<lambda>(r, s). stream_u64 BitReader_Serialize r 0 \<bind> (\<lambda>(r, ts).
         BitReader_Serialize r (replicate COOKIE_BYTE_SIZE 0) COOKIE_BYTE_SIZE \<bind> (\<lambda>(r, ck).
           Some (r, parsed c (type_of_byte ty) s ts ck))))))))
      ([False] @ word_bits 8 (byte_of_type t) @ word_bits 8 n @ [Secret \<noteq> 0] @ word_bits 64 Time @ bitslice Cookie 0 (COOKIE_BYTE_SIZE * 8) @ [])
      (parsed n (type_of_byte (byte_of_type t)) (if Secret \<noteq> 0 then 1 else 0) Time Cookie)"
    by (rule reads_bind [OF reads_bit] reads_bind [OF reads_u8] reads_bind [OF reads_u64] reads_bind [OF reads_bytes] reads_pure
        | simp only: l COOKIE_BYTE_SIZE_def length_replicate)+
  then have R: "reads (\<lambda>r. ReadBit r \<bind> (\<lambda>(r, b).
      stream_u8 BitReader_Serialize r 0 \<bind> (\<lambda>(r, ty). stream_u8 BitReader_Serialize r 0 \<bind> (\<lambda>(r, c).
       ReadBit r \<bind> (\<lambda>(r, s). stream_u64 BitReader_Serialize r 0 \<bind> (\<lambda>(r, ts).
         BitReader_Serialize r (replicate COOKIE_BYTE_SIZE 0) COOKIE_BYTE_SIZE \<bind> (\<lambda>(r, ck).
           Some (r, parsed c (type_of_byte ty) s ts ck)))))))) ?bs ?v"
    by (cases "Secret = 0") (simp_all add: t' body_bits_def COOKIE_BYTE_SIZE_def parsed_def)
  have "\<exists>r'. ParseHandshakePacket r = Some (r', ?v, \<not> ArIsError r') \<and> consumed r (length ?bs) r' \<and> rbits r' = cs"
    if r: "BitReader_wf r" "\<not> ArIsError r" "\<not> ArForceByteSwapping r" "rbits r = ?bs @ cs" for r cs
  proof -
    obtain r0 where r0: "ReadBit r = Some (r0, 0)" "BitReader_wf r0" "\<not> ArIsError r0" "\<not> ArForceByteSwapping r0"
      "rbits r0 = word_bits 8 (byte_of_type t) @ word_bits 8 n @ body_bits Secret Time Cookie @ cs"
      using readsD [OF reads_bit [of False] r(1-3)] r(4) by auto
    obtain r1 where r1: "stream_u8 BitReader_Serialize r0 0 = Some (r1, byte_of_type t)" "BitReader_wf r1" "\<not> ArIsError r1"
      "\<not> ArForceByteSwapping r1" "rbits r1 = word_bits 8 n @ body_bits Secret Time Cookie @ cs"
      using readsD [OF reads_u8 r0(2-5)] by blast
    obtain r2 where r2: "stream_u8 BitReader_Serialize r1 0 = Some (r2, n)" "BitReader_wf r2" "\<not> ArIsError r2"
      "\<not> ArForceByteSwapping r2" "rbits r2 = [Secret \<noteq> 0] @ word_bits 64 Time @ bitslice Cookie 0 160 @ cs"
      using readsD [OF reads_u8 r1(2-5)] by (auto simp: body_bits_def)
    obtain r3 where r3: "ReadBit r2 = Some (r3, if Secret \<noteq> 0 then 1 else 0)"
      using readsD [OF reads_bit r2(2-5)] by blast
    obtain r' where "(ReadBit r \<bind> (\<lambda>(r, b).
      stream_u8 BitReader_Serialize r 0 \<bind> (\<lambda>(r, ty). stream_u8 BitReader_Serialize r 0 \<bind> (\<lambda>(r, c).
       ReadBit r \<bind> (\<lambda>(r, s). stream_u64 BitReader_Serialize r 0 \<bind> (\<lambda>(r, ts).
         BitReader_Serialize r (replicate COOKIE_BYTE_SIZE 0) COOKIE_BYTE_SIZE \<bind> (\<lambda>(r, ck).
           Some (r, parsed c (type_of_byte ty) s ts ck)))))))) = Some (r', ?v)" "consumed r (length ?bs) r'" "rbits r' = cs"
      using readsD [OF R r] by blast
    then show ?thesis
      using r0(1) r1(1) r2(1) r3 t
      by (auto simp: ParseHandshakePacket_def ParsedHandshakeData_ctor_def t' parsed_def bind_eq_Some_conv split: if_splits)
  qed
  then show ?thesis
    by (fastforce simp: reads_def)
qed


section \<open>Handshake packets arrive\<close>

text \<open>The packet the processor builds with a writer and the bytes of its send event.\<close>

definition handshake_bytes :: "(BitWriter \<Rightarrow> BitWriter option) \<Rightarrow> u64 \<Rightarrow> u8 list option" where
  "handshake_bytes W NowUs = do {
     (p, _) \<leftarrow> ProcessorPacketBuilder_Build (\<lambda>B. map_option (\<lambda>B. (B, ())) (W B)) NowUs;
     e \<leftarrow> OutSendPacketEvent_Create (PacketSealed p);
     Some (concat (wsaBufs e)) }"

lemma Build_ok:
  assumes W: "writes W need bs" and need: "8 + need \<le> 800"
  shows "\<exists>p. ProcessorPacketBuilder_Build (\<lambda>B. map_option (\<lambda>B. (B, ())) (W B)) NowUs = Some (p, ())
    \<and> sealed_header (PktHeader p) 100 bs \<and> PktHeaderSize p = 100 \<and> PktTotalSize p = 100 \<and> bProcessorPacket p \<and> DirtyFlag p \<and> SendTimeUs p = NowUs"
proof -
  obtain h where h: "PacketHeader_ctor 800 = Some h" "BitWriter_wf (PhBuffer h)" "WMax (PhBuffer h) = 800" "WPos (PhBuffer h) = 8"
    "\<not> ArForceByteSwapping (PhBuffer h)" "\<not> bSealed h"
    using PacketHeader_ctor_ok [of 800] by auto
  obtain B where B: "W (PhBuffer h) = Some B" "appended (PhBuffer h) bs B"
    using writesD [OF W h(2,5)] h(3,4) need by auto
  obtain h' where h': "HeaderSealed (h\<lparr>PhBuffer := B\<rparr>) = Some h'" "sealed_header (WBuffer (PhBuffer h')) 100 bs"
    using HeaderSealed_ok [OF B(2) h(4) _ _ h(6), of 100] h(3) by auto
  then have l: "length (WBuffer (PhBuffer h')) = 100"
    by (simp add: sealed_header_def)
  have z: "unat ConnectionlessPacketHeaderSize * 8 = 800"
    by (simp add: ConnectionlessPacketHeaderSize_def)
  show ?thesis
    using h(1) B(1) h' l z
    by (auto simp: ProcessorPacketBuilder_Build_def OutReadyPacket_BuildEnd_def BuildBegin_def OutReadyPacket_ctor_def
        ConnectionlessPacketHeaderSize_def)
qed

lemma handshake_bytes_ok:
  assumes W: "writes W need bs" and need: "8 + need \<le> 800"
  shows "\<exists>hdr. handshake_bytes W NowUs = Some hdr \<and> sealed_header hdr 100 bs"
proof -
  obtain p where p: "ProcessorPacketBuilder_Build (\<lambda>B. map_option (\<lambda>B. (B, ())) (W B)) NowUs = Some (p, ())"
    "sealed_header (PktHeader p) 100 bs" "PktHeaderSize p = 100" "bProcessorPacket p" "DirtyFlag p"
    using Build_ok [OF W need] by blast
  then have l: "length (PktHeader p) = 100"
    by (simp add: sealed_header_def)
  have "OutSendPacketEvent_Create (PacketSealed p) = Some \<lparr>wsaBufs = [PktHeader p], TotalByteSize = 100\<rparr>"
    using p(3-5) l by (simp add: OutSendPacketEvent_Create_def PacketSealed_def view_bytes_def)
  then show ?thesis
    using p(1,2) by (simp add: handshake_bytes_def)
qed

lemma handshake_header_received:
  assumes cfg: "magic_ok cfg" and C: "length Cookie = 20" and t: "t \<in> {InitialPacket, Challenge, Response, HsAck}"
    and hdr: "sealed_header hdr 100 (cookie_bits cfg Rand t c Secret Time Cookie)"
  shows "\<exists>r ra rb rc rd re. RecvPacketReader_ctor \<lparr>EData = hdr @ junk, remoteAddr = addr\<rparr> n = Some r \<and> RHashKey r = MakeIPv4PortKeyFromStorage addr \<and> RAddress r = addr
    \<and> ReadMagic cfg (RHeader r) = Some (ra, ExpectMagicHeader cfg)
    \<and> BitReader_SerializeBits ra [0] SessionIDSizeBits = Some (rb, [take_bit 2 (ucast (SessionId c))])
    \<and> BitReader_SerializeBits rb [0] ClientIDSizeBits = Some (rc, [take_bit 3 (ucast (ClientID c))]) \<and> \<not> ArIsError rc
    \<and> ReadBit rc = Some (rd, 1) \<and> \<not> ArIsError rd
    \<and> ParseHandshakePacket rd = Some (re, parsed (ucast (HandshakeTryCount c)) t Secret Time Cookie, True)"
proof -
  let ?n = "ucast (HandshakeTryCount c) :: u8" and ?bs = "word_bits 2 (SessionId c)" and ?bc = "word_bits 3 (ClientID c)"
  let ?body = "[False] @ word_bits 8 (byte_of_type t) @ word_bits 8 ?n @ body_bits Secret Time Cookie"
  obtain r pad where r: "RecvPacketReader_ctor \<lparr>EData = hdr @ junk, remoteAddr = addr\<rparr> n = Some r" "BitReader_wf (RHeader r)" "\<not> ArIsError (RHeader r)" "\<not> ArForceByteSwapping (RHeader r)"
    "rbits (RHeader r) = cookie_bits cfg Rand t c Secret Time Cookie @ pad" "RHashKey r = MakeIPv4PortKeyFromStorage addr" "RAddress r = addr"
    using sealed_header_received [OF hdr, of junk addr n] by auto
  have bits: "rbits (RHeader r) = magic_bits cfg (ExpectMagicHeader cfg) @ ?bs @ ?bc @ [True] @ ?body @ cap_bits Rand @ pad"
    unfolding r(5) by (simp add: cookie_bits_def begin_bits_def flag_bits_def)
  obtain ra where ra: "ReadMagic cfg (RHeader r) = Some (ra, ExpectMagicHeader cfg)" "BitReader_wf ra" "\<not> ArIsError ra"
    "\<not> ArForceByteSwapping ra" "rbits ra = ?bs @ ?bc @ [True] @ ?body @ cap_bits Rand @ pad"
    using readsD [OF reads_magic [OF cfg] r(2-4) bits] by blast
  obtain rb where rb: "BitReader_SerializeBits ra [0] 2 = Some (rb, [take_bit 2 (ucast (SessionId c))])" "BitReader_wf rb" "\<not> ArIsError rb"
    "\<not> ArForceByteSwapping rb" "rbits rb = ?bc @ [True] @ ?body @ cap_bits Rand @ pad"
    using readsD [OF reads_few [of 2] ra(2-5)] by auto
  obtain rc where rc: "BitReader_SerializeBits rb [0] 3 = Some (rc, [take_bit 3 (ucast (ClientID c))])" "BitReader_wf rc" "\<not> ArIsError rc"
    "\<not> ArForceByteSwapping rc" "rbits rc = [True] @ ?body @ cap_bits Rand @ pad"
    using readsD [OF reads_few [of 3] rb(2-5)] by auto
  obtain rd where rd: "ReadBit rc = Some (rd, if True then 1 else 0)" "BitReader_wf rd" "\<not> ArIsError rd" "\<not> ArForceByteSwapping rd"
    "rbits rd = ?body @ cap_bits Rand @ pad"
    using readsD [OF reads_bit [of True] rc(2-5)] by blast
  obtain re where "map_option (\<lambda>(r, d, _). (r, d)) (ParseHandshakePacket rd) = Some (re, parsed ?n t Secret Time Cookie)" "\<not> ArIsError re"
    using readsD [OF reads_parse [OF t C] rd(2-5)] by blast
  then obtain d where d: "ParseHandshakePacket rd = Some (re, d)" "fst d = parsed ?n t Secret Time Cookie" "\<not> ArIsError re"
    by (cases "ParseHandshakePacket rd") auto
  then have "snd d"
    by (auto simp: ParseHandshakePacket_def Let_def bind_eq_Some_conv)
  with d have "ParseHandshakePacket rd = Some (re, parsed ?n t Secret Time Cookie, True)"
    by (cases d) simp
  with r ra rb rc rd show ?thesis
    by (auto simp: SessionIDSizeBits_def ClientIDSizeBits_def)
qed

text \<open>
  C22. Every handshake packet arrives as it was meant: whatever the random filler, the receiver finds the
  magic header, the low bits of session and client, the handshake flag, and parses the type, the
  count, the secret id, the timestamp and the cookie that were written; the first packet of a client
  parses as one with timestamp and cookie zero.
\<close>

theorem handshake_packet_round_trip:
  assumes cfg: "magic_ok cfg" and Rand: "filler_ok Rand" and C: "length Cookie = 20"
    and t: "t \<in> {InitialPacket, Challenge, Response, HsAck}"
    and W: "W = HandshakePacket_Cookie cfg Rand t c Secret Time Cookie \<or>
      (W = HandshakePacket_Initial cfg Rand c \<and> t = InitialPacket \<and> Secret = 0 \<and> Time = 0 \<and> Cookie = replicate 20 0)"
  shows "\<exists>hdr r r1 r2. handshake_bytes W NowUs = Some hdr \<and> length hdr = 100
    \<and> RecvPacketReader_ctor \<lparr>EData = hdr @ junk, remoteAddr = addr\<rparr> 100 = Some r
    \<and> (ReadMagic cfg (RHeader r) \<bind> (\<lambda>(r, m). BitReader_SerializeBits r [0] SessionIDSizeBits \<bind> (\<lambda>(r, s).
        BitReader_SerializeBits r [0] ClientIDSizeBits \<bind> (\<lambda>(r, cl). ReadBit r \<bind> (\<lambda>(r, b). Some (r, m, s, cl, b))))))
      = Some (r1, ExpectMagicHeader cfg, [take_bit 2 (ucast (SessionId c))], [take_bit 3 (ucast (ClientID c))], 1)
    \<and> ParseHandshakePacket r1 = Some (r2, parsed (ucast (HandshakeTryCount c)) t Secret Time Cookie, True)"
proof -
  let ?n = "ucast (HandshakeTryCount c) :: u8"
  have w: "writes W 409 (cookie_bits cfg Rand t c Secret Time Cookie)"
    using W writes_Cookie [OF cfg Rand C] writes_Initial [OF cfg Rand] by auto
  then obtain hdr where hdr: "handshake_bytes W NowUs = Some hdr" "sealed_header hdr 100 (cookie_bits cfg Rand t c Secret Time Cookie)"
    using handshake_bytes_ok [OF w, of NowUs] by auto
  from handshake_header_received [OF cfg C t hdr(2), of junk addr 100] obtain r ra rb rc rd re where
    "RecvPacketReader_ctor \<lparr>EData = hdr @ junk, remoteAddr = addr\<rparr> 100 = Some r"
    "ReadMagic cfg (RHeader r) = Some (ra, ExpectMagicHeader cfg)"
    "BitReader_SerializeBits ra [0] SessionIDSizeBits = Some (rb, [take_bit 2 (ucast (SessionId c))])"
    "BitReader_SerializeBits rb [0] ClientIDSizeBits = Some (rc, [take_bit 3 (ucast (ClientID c))])"
    "ReadBit rc = Some (rd, 1)" "ParseHandshakePacket rd = Some (re, parsed ?n t Secret Time Cookie, True)"
    by blast
  with hdr show ?thesis
    by (simp add: sealed_header_def)
qed


definition default_cfg :: UdpConfig where
  "default_cfg = \<lparr>MagicHeaderSizeBits = 1, MagicHeaderOffset = 0, ExpectMagicHeader = 0, ExpectedSessionId = 0,
     HandshakeSecret = replicate 20 0\<rparr>"

lemma default_cfg_ok: "magic_ok default_cfg"
  by (simp add: magic_ok_def default_cfg_def)

theorem handshake_packet_round_trip_witness:
  "\<exists>hdr r. handshake_bytes (HandshakePacket_Cookie default_cfg (replicate 9 5) Challenge
       (PendingRemoteConnection_ctor 0 0 1 loopback 59) 1 0x3FF0000000000000 (replicate 20 7)) 0 = Some hdr
    \<and> RecvPacketReader_ctor \<lparr>EData = hdr, remoteAddr = loopback\<rparr> 100 = Some r"
proof -
  have "filler_ok (replicate 9 5)"
    by (simp add: filler_ok_def BaseRandomDataLengthBytes_def RandomDataLengthVarianceBytes_def)
  from handshake_packet_round_trip [OF default_cfg_ok this, where junk = "[]" and addr = loopback and t = Challenge
      and Cookie = "replicate 20 7" and c = "PendingRemoteConnection_ctor 0 0 1 loopback 59" and Secret = 1 and Time = "0x3FF0000000000000"
      and NowUs = 0, OF _ _ disjI1 [OF refl]]
  show ?thesis
    unfolding append_Nil2 by (auto simp del: replicate.simps)
qed

lemma writes_Outgoing:
  assumes cfg: "magic_ok cfg" and "ExpectMagicHeader cfg = 0"
  shows "writes (Outgoing cfg) 38 (flag_bits cfg 0 0 False)"
proof -
  have z: "bitslice [0] 0 n = word_bits n (0 :: u32)" if "n \<le> 8" for n
    using that bitslice_byte [of n 0] by (simp add: word_bits_def)
  have "writes (\<lambda>B. BitWriter_SerializeBitsWithOffset B (le_bytes 4 (0 :: u32)) (unat (MagicHeaderOffset cfg)) (unat (MagicHeaderSizeBits cfg)) \<bind>
      (\<lambda>B. BitWriter_SerializeBits B [0] 2 \<bind> (\<lambda>B. BitWriter_SerializeBits B [0] 3 \<bind> (\<lambda>B. BitWriter_SerializeBits B [0] 1))))
    (32 + (2 + (3 + 1))) (magic_bits cfg 0 @ bitslice [0] 0 2 @ bitslice [0] 0 3 @ bitslice [0] 0 1)"
    by (intro writes_bind writes_magic cfg writes_bits) auto
  then show ?thesis
    using assms(2) by (simp add: Outgoing_def [abs_def] flag_bits_def z SessionIDSizeBits_def ClientIDSizeBits_def word_bits_def)
qed

text \<open>
  The flags of an ordinary packet: with the default magic header of zero \<open>Outgoing\<close> writes what the
  receiver expects, but with any other magic header it writes none of them and sets the error flag, so
  that the header in front of the acknowledgements is missing in every packet after the handshake.
\<close>

theorem nonzero_magic_breaks_outgoing:
  assumes cfg: "magic_ok cfg" and B: "BitWriter_wf B" "\<not> ArForceByteSwapping B" "WPos B + 38 \<le> WMax B"
  shows "if ExpectMagicHeader cfg = 0 then \<exists>B'. Outgoing cfg B = Some B' \<and> appended B (flag_bits cfg 0 0 False) B'
    else \<exists>B'. Outgoing cfg B = Some (SetError B') \<and> appended B (magic_bits cfg 0) B' \<and> magic_bits cfg 0 \<noteq> magic_bits cfg (ExpectMagicHeader cfg)"
proof (cases "ExpectMagicHeader cfg = 0")
  case True
  then show ?thesis
    using writes_Outgoing [OF cfg] B by (auto elim: writesD)
next
  case False
  obtain B' where B': "BitWriter_SerializeBitsWithOffset B (le_bytes 4 (0 :: u32)) (unat (MagicHeaderOffset cfg)) (unat (MagicHeaderSizeBits cfg)) = Some B'"
    "appended B (magic_bits cfg 0) B'"
    using writesD [OF writes_magic [OF cfg] B(1,2)] B(3) by auto
  obtain i where i: "bit (ExpectMagicHeader cfg) i" "i < 32"
  proof (rule ccontr)
    assume "\<not> thesis"
    then have "ExpectMagicHeader cfg = 0"
      using that by (intro bit_word_eqI) auto
    with False show False ..
  qed
  have "magic_bits cfg 0 \<noteq> magic_bits cfg (ExpectMagicHeader cfg)"
  proof
    let ?o = "unat (MagicHeaderOffset cfg)"
    assume eq: "magic_bits cfg 0 = magic_bits cfg (ExpectMagicHeader cfg)"
    have r: "?o \<le> i" "i < ?o + unat (MagicHeaderSizeBits cfg)"
      using cfg i by (auto simp: magic_ok_def)
    then have "i - ?o < unat (MagicHeaderSizeBits cfg)"
      by linarith
    with arg_cong [OF eq, of "\<lambda>l. l ! (i - ?o)"] r i show False
      by (simp add: magic_bits_def le_bytes_bit)
  qed
  with B' False show ?thesis
    by (auto simp: Outgoing_def)
qed

theorem nonzero_magic_breaks_outgoing_witness:
  "\<exists>B'. Outgoing (default_cfg\<lparr>ExpectMagicHeader := 1\<rparr>) (BitWriter_ctor 80 False) = Some (SetError B') \<and> WPos B' = 1"
proof -
  have "magic_ok (default_cfg\<lparr>ExpectMagicHeader := 1\<rparr>)"
    by (auto simp: magic_ok_def default_cfg_def bit_1_iff)
  from nonzero_magic_breaks_outgoing [OF this BitWriter_ctor_wf, of 80 False] obtain B' where
    "Outgoing (default_cfg\<lparr>ExpectMagicHeader := 1\<rparr>) (BitWriter_ctor 80 False) = Some (SetError B')"
    "appended (BitWriter_ctor 80 False) (magic_bits (default_cfg\<lparr>ExpectMagicHeader := 1\<rparr>) 0) B'"
    by (auto simp: default_cfg_def)
  then show ?thesis
    using appendedD(4) by (fastforce simp: magic_bits_def default_cfg_def)
qed

end
