(* ===== verification/SettingM.thy ===== *)
theory SettingM
  imports Doubles
begin

text \<open>
  Network, \<open>utils/DriverSetting\<close> and the configuration record of \<open>utils/ConfigSetting\<close> it is made from:
  which values a server and a client run with. Reading the JSON file is the library's.
\<close>

datatype EMode = ModeNone | ModeClient | ModeServer

datatype EClientType = ClientNone | TestClient | UEClient

datatype EServerType = ServerNone | LoginServer | GatewayServer | GameServer

record ServerConfig =
  CfgRemoteIp :: string
  CfgRemotePort :: int
  CfgDriverMode :: EMode
  CfgClientType :: EClientType
  CfgServerType :: EServerType
  CfgNoTimeouts :: bool
  CfgConnectionlessOnly :: bool
  CfgKeepAliveTime :: u16
  CfgMaxTickRate :: u16
  CfgInitialConnectTimeout :: u16
  CfgConnectionTimeout :: u16
  CfgMaxChannelsSize :: u32
  CfgSessionID :: u32
  CfgActiveSecret :: u8
  CfgMagicHeaderSizeBits :: u32
  CfgMagicHeader :: u32
  CfgMagicHeaderOffset :: u32
  CfgPacketDropPermille :: u32
  CfgPacketDuplicatePermille :: u32
  CfgPacketReorderWindow :: u32
  CfgPacketDropPermilleOutbound :: u32
  CfgPendingInactivity :: u64
  CfgTelemetryPort :: u16
  CfgLogLevel :: string
  CfgSyntheticTrafficHz :: u32

record DriverSetting =
  RemoteAddr :: string
  RemotePort :: u16
  DriverMode :: EMode
  ClientType :: EClientType
  ServerType :: EServerType
  bNoTimeouts :: bool
  bConnectionlessOnly :: bool
  KeepAliveTime :: u16
  MaxTickRate :: u16
  InitialConnectTimeout :: u16
  ConnectionTimeout :: u16
  MaxChannelsSize :: u32
  DesiredRecvSize :: u32
  DesiredSendSize :: u32
  SetSessionID :: u32
  ActiveSecret :: u8
  SetMagicHeaderSizeBits :: u32
  SetMagicHeader :: u32
  SetMagicHeaderOffset :: u32
  SetHandshakeSecret :: "u8 list"
  PacketDropPermille :: u32
  PacketDuplicatePermille :: u32
  PacketReorderWindow :: u32
  PacketDropPermilleOutbound :: u32
  PendingInactivityTimeoutSec :: u64
  TelemetryPort :: u16
  LogLevel :: string
  SyntheticTrafficHz :: u32

definition int_text :: "int \<Rightarrow> string" where
  "int_text i = (if i < 0 then ''-'' @ nat_text (nat (- i)) else nat_text (nat i))"

text \<open>The initialisers of the class; \<open>DriverMode\<close> and the two types have none and are set by the constructor.\<close>

definition DriverSetting_init :: "EMode \<Rightarrow> EClientType \<Rightarrow> EServerType \<Rightarrow> DriverSetting" where
  "DriverSetting_init md ct st = \<lparr>RemoteAddr = [], RemotePort = 0, DriverMode = md, ClientType = ct, ServerType = st,
     bNoTimeouts = False, bConnectionlessOnly = True, KeepAliveTime = 20, MaxTickRate = 60, InitialConnectTimeout = 60,
     ConnectionTimeout = 60, MaxChannelsSize = 16, DesiredRecvSize = 131072, DesiredSendSize = 131072,
     SetSessionID = 0, ActiveSecret = 0, SetMagicHeaderSizeBits = 1, SetMagicHeader = 0, SetMagicHeaderOffset = 0,
     SetHandshakeSecret = [], PacketDropPermille = 0, PacketDuplicatePermille = 0, PacketReorderWindow = 0,
     PacketDropPermilleOutbound = 0, PendingInactivityTimeoutSec = 0x4034000000000000, TelemetryPort = 0,
     LogLevel = ''trace'', SyntheticTrafficHz = 1\<rparr>"

definition DriverSetting_ctor :: "ServerConfig \<Rightarrow> EClientType \<Rightarrow> EServerType \<Rightarrow> DriverSetting" where
  "DriverSetting_ctor config ct0 st0 =
     (let s = (DriverSetting_init (CfgDriverMode config) ct0 st0)\<lparr>
            RemoteAddr := CfgRemoteIp config @ '':'' @ int_text (CfgRemotePort config),
            RemotePort := word_of_int (CfgRemotePort config)\<rparr>;
          s = (if DriverMode s = ModeServer then s\<lparr>ClientType := ClientNone, ServerType := CfgServerType config\<rparr>
               else if DriverMode s = ModeClient then s\<lparr>ClientType := CfgClientType config, ServerType := ServerNone\<rparr>
               else s);
          s = s\<lparr>bNoTimeouts := CfgNoTimeouts config, bConnectionlessOnly := CfgConnectionlessOnly config,
                KeepAliveTime := CfgKeepAliveTime config, MaxTickRate := CfgMaxTickRate config,
                InitialConnectTimeout := CfgInitialConnectTimeout config, ConnectionTimeout := CfgConnectionTimeout config,
                MaxChannelsSize := CfgMaxChannelsSize config\<rparr>;
          s = (if DriverMode s = ModeServer
               then s\<lparr>DesiredRecvSize := 32768, DesiredSendSize := 32768, SetSessionID := CfgSessionID config,
                      ActiveSecret := CfgActiveSecret config, SetMagicHeaderSizeBits := CfgMagicHeaderSizeBits config,
                      SetMagicHeader := CfgMagicHeader config, SetMagicHeaderOffset := CfgMagicHeaderOffset config\<rparr>
               else if DriverMode s = ModeClient
               then s\<lparr>DesiredRecvSize := 8192, DesiredSendSize := 8192, SetSessionID := 0, ActiveSecret := 0,
                      SetMagicHeaderSizeBits := CfgMagicHeaderSizeBits config, SetMagicHeader := CfgMagicHeader config,
                      SetMagicHeaderOffset := CfgMagicHeaderOffset config\<rparr>
               else s)
      in s\<lparr>SetHandshakeSecret := replicate 20 0,
           PacketDropPermille := CfgPacketDropPermille config, PacketDuplicatePermille := CfgPacketDuplicatePermille config,
           PacketReorderWindow := CfgPacketReorderWindow config, PacketDropPermilleOutbound := CfgPacketDropPermilleOutbound config,
           PendingInactivityTimeoutSec := CfgPendingInactivity config, TelemetryPort := CfgTelemetryPort config,
           LogLevel := CfgLogLevel config,
           SyntheticTrafficHz := (if CfgSyntheticTrafficHz config = 0 then 1 else CfgSyntheticTrafficHz config)\<rparr>)"

definition IsServer :: "DriverSetting \<Rightarrow> bool" where "IsServer s \<longleftrightarrow> DriverMode s = ModeServer"
definition IsClient :: "DriverSetting \<Rightarrow> bool" where "IsClient s \<longleftrightarrow> DriverMode s = ModeClient"

lemma ctor_fields_set:
  "DriverMode (DriverSetting_ctor c ct st) = CfgDriverMode c"
  "SetHandshakeSecret (DriverSetting_ctor c ct st) = replicate 20 0"
  "SetSessionID (DriverSetting_ctor c ct st) = (if CfgDriverMode c = ModeServer then CfgSessionID c else 0)"
  "ActiveSecret (DriverSetting_ctor c ct st) = (if CfgDriverMode c = ModeServer then CfgActiveSecret c else 0)"
  "bNoTimeouts (DriverSetting_ctor c ct st) = CfgNoTimeouts c"
  "ConnectionTimeout (DriverSetting_ctor c ct st) = CfgConnectionTimeout c"
  by (auto simp: DriverSetting_ctor_def DriverSetting_init_def Let_def)

end
