(* ===== verification/SeqNum.thy ===== *)
theory SeqNum
  imports Prelude
begin

text \<open>
  Network, \<open>sequence/SequenceNumber.h\<close>: the 14 bit sequence numbers of packets
  (\<open>TSequenceNumber<14, uint16_t>\<close>). The comparisons and \<open>Diff\<close> are written with the promotion of
  the 16 bit operands to 32 bits the code relies on; \<open>sval\<close> reads a number as an integer, and the
  lemmas characterise every operation by arithmetic modulo \<open>2 ^ 14\<close>.
\<close>

datatype SequenceNumber = SeqValue (Get: u16)

definition SeqNumberMask :: u16 where "SeqNumberMask = 0x3FFF"

definition MkSeq :: "u16 \<Rightarrow> SequenceNumber" where
  "MkSeq ValueIn = SeqValue (ValueIn AND SeqNumberMask)"

definition seq_default :: SequenceNumber where
  "seq_default = SeqValue 0"

text \<open>\<open>(Value - Other.Value) & SeqNumberMask\<close>, an \<open>int\<close> after promotion.\<close>

definition seq_distance :: "SequenceNumber \<Rightarrow> SequenceNumber \<Rightarrow> u32" where
  "seq_distance A B = (ucast (Get A) - ucast (Get B)) AND 0x3FFF"

definition seq_gt :: "SequenceNumber \<Rightarrow> SequenceNumber \<Rightarrow> bool" where
  "seq_gt A B \<longleftrightarrow> Get A \<noteq> Get B \<and> seq_distance A B < 0x2000"

definition seq_ge :: "SequenceNumber \<Rightarrow> SequenceNumber \<Rightarrow> bool" where
  "seq_ge A B \<longleftrightarrow> seq_distance A B < 0x2000"

definition seq_lt :: "SequenceNumber \<Rightarrow> SequenceNumber \<Rightarrow> bool" where
  "seq_lt A B \<longleftrightarrow> \<not> seq_ge A B"

definition seq_le :: "SequenceNumber \<Rightarrow> SequenceNumber \<Rightarrow> bool" where
  "seq_le A B \<longleftrightarrow> \<not> seq_gt A B"

definition seq_inc :: "SequenceNumber \<Rightarrow> SequenceNumber" where
  "seq_inc A = MkSeq (Get A + 1)"

definition seq_add :: "SequenceNumber \<Rightarrow> SequenceNumber \<Rightarrow> SequenceNumber" where
  "seq_add A B = MkSeq (Get A + Get B)"

definition seq_sub :: "SequenceNumber \<Rightarrow> SequenceNumber \<Rightarrow> SequenceNumber" where
  "seq_sub A B = MkSeq (Get A - Get B)"

text \<open>\<open>(DifferenceT)((ValueA - ValueB) << 18) >> 18\<close> with an arithmetic right shift.\<close>

definition Diff :: "SequenceNumber \<Rightarrow> SequenceNumber \<Rightarrow> int" where
  "Diff A B = sint (signed_drop_bit 18 (push_bit 18 (ucast (Get A) - ucast (Get B) :: u32)))"

text \<open>
  The operators the class overloads. The comparisons are those of a circle, so there is no instance of the
  classes of orders (lemma \<open>antipode_both_less\<close>).
\<close>

instantiation SequenceNumber :: "{ord, plus, minus}"
begin

definition less_eq_SequenceNumber :: "SequenceNumber \<Rightarrow> SequenceNumber \<Rightarrow> bool" where
  "less_eq_SequenceNumber A B \<longleftrightarrow> seq_le A B"

definition less_SequenceNumber :: "SequenceNumber \<Rightarrow> SequenceNumber \<Rightarrow> bool" where
  "less_SequenceNumber A B \<longleftrightarrow> seq_lt A B"

definition plus_SequenceNumber :: "SequenceNumber \<Rightarrow> SequenceNumber \<Rightarrow> SequenceNumber" where
  "plus_SequenceNumber A B = seq_add A B"

definition minus_SequenceNumber :: "SequenceNumber \<Rightarrow> SequenceNumber \<Rightarrow> SequenceNumber" where
  "minus_SequenceNumber A B = seq_sub A B"

instance ..

end

section \<open>Sequence numbers as integers modulo \<open>2 ^ 14\<close>\<close>

definition sval :: "SequenceNumber \<Rightarrow> int" where
  "sval A = uint (Get A)"

definition seq_wf :: "SequenceNumber \<Rightarrow> bool" where
  "seq_wf A \<longleftrightarrow> sval A < 16384"

lemma sval_nonneg [simp]: "0 \<le> sval A"
  by (simp add: sval_def)

lemma seq_eqI: "sval A = sval B \<Longrightarrow> A = B"
  by (cases A; cases B) (simp add: sval_def word_uint_eq_iff)

lemma uint_ucast_16: "uint (ucast (a :: u16) :: u32) = uint a"
proof -
  have "uint a < 2 ^ 32"
    using unsigned_less [of a, where ?'a = int] by simp
  then show ?thesis
    by (simp add: unsigned_ucast_eq take_bit_eq_mod)
qed

lemma uint_mask14: "uint (v AND SeqNumberMask) = uint v mod 16384"
proof -
  have "SeqNumberMask = mask 14"
    by (simp add: SeqNumberMask_def mask_eq_exp_minus_1)
  then have "v AND SeqNumberMask = take_bit 14 v"
    by (simp only: take_bit_eq_mask)
  moreover have "uint (take_bit 14 v) = take_bit 14 (uint v)"
    by (rule unsigned_take_bit_eq)
  ultimately show ?thesis
    by (simp add: take_bit_eq_mod)
qed

lemma sval_MkSeq: "sval (MkSeq v) = uint v mod 16384"
  by (simp add: MkSeq_def sval_def uint_mask14)

lemma MkSeq_wf [wf_intros, simp]: "seq_wf (MkSeq v)"
  by (simp add: seq_wf_def sval_MkSeq)

lemma seq_default_wf [simp]: "seq_wf seq_default"
  by (simp add: seq_wf_def seq_default_def sval_def)

lemma mod_mod_14: "x mod 65536 mod 16384 = x mod (16384 :: int)"
  by (rule mod_mod_cancel) simp

lemma sval_arith:
  "sval (seq_inc A) = (sval A + 1) mod 16384"
  "sval (seq_add A B) = (sval A + sval B) mod 16384"
  "sval (seq_sub A B) = (sval A - sval B) mod 16384"
  by (simp_all add: seq_inc_def seq_add_def seq_sub_def sval_MkSeq sval_def [of A] sval_def [of B]
      uint_word_ariths mod_mod_14)

lemma seq_arith_wf [wf_intros, simp]: "seq_wf (seq_inc A)" "seq_wf (seq_add A B)" "seq_wf (seq_sub A B)"
  by (simp_all add: seq_wf_def sval_arith)

lemma uint_distance: "uint (seq_distance A B) = (sval A - sval B) mod 16384"
proof -
  have m: "(0x3FFF :: u32) = mask 14"
    by (simp add: mask_eq_exp_minus_1)
  have "uint (seq_distance A B) = take_bit 14 (uint (ucast (Get A) - ucast (Get B) :: u32))"
    unfolding seq_distance_def m by (simp only: take_bit_eq_mask [symmetric] unsigned_take_bit_eq)
  also have "\<dots> = (sval A - sval B) mod 2 ^ 32 mod 16384"
    by (simp add: take_bit_eq_mod uint_word_ariths sval_def uint_ucast_16)
  also have "\<dots> = (sval A - sval B) mod 16384"
    by (rule mod_mod_cancel) simp
  finally show ?thesis .
qed

lemma seq_ge_iff: "seq_ge A B \<longleftrightarrow> (sval A - sval B) mod 16384 < 8192"
  by (simp add: seq_ge_def word_less_def uint_distance)

lemma seq_gt_iff: "seq_gt A B \<longleftrightarrow> sval A \<noteq> sval B \<and> (sval A - sval B) mod 16384 < 8192"
  by (auto simp: seq_gt_def word_less_def uint_distance sval_def word_uint_eq_iff)

lemma Diff_eq: "Diff A B = (sval A - sval B + 8192) mod 16384 - 8192"
proof -
  define d where "d = sval A - sval B"
  have u: "uint (push_bit 18 (ucast (Get A) - ucast (Get B) :: u32)) = 2 ^ 18 * d mod 2 ^ 32"
    by (simp add: d_def sval_def uint_word_ariths push_bit_eq_mult uint_ucast_16 mult.commute
        mod_mult_right_eq mod_diff_eq)
  have "sint (push_bit 18 (ucast (Get A) - ucast (Get B) :: u32)) = signed_take_bit 31 (2 ^ 18 * d mod 2 ^ 32)"
    unfolding u [symmetric] by (simp add: sint_uint)
  also have "\<dots> = (2 ^ 18 * d + 2 ^ 31) mod 2 ^ 32 - 2 ^ 31"
    by (simp add: signed_take_bit_eq_take_bit_shift take_bit_eq_mod mod_add_left_eq)
  also have "\<dots> = 2 ^ 18 * ((d + 8192) mod 16384 - 8192)"
  proof -
    have "(2 ^ 18 * d + 2 ^ 31) mod 2 ^ 32 = 2 ^ 18 * ((d + 8192) mod 16384)"
      using mult_mod_right [of "2 ^ 18" "d + 8192" 16384] by (simp add: distrib_left)
    then show ?thesis by simp
  qed
  finally have s: "sint (push_bit 18 (ucast (Get A) - ucast (Get B) :: u32))
      = 2 ^ 18 * ((d + 8192) mod 16384 - 8192)" .
  show ?thesis
    unfolding Diff_def sint_signed_drop_bit_eq s d_def by (simp add: drop_bit_eq_div)
qed

lemma seq_wf_bounds: "seq_wf A \<Longrightarrow> 0 \<le> sval A \<and> sval A < 16384"
  by (simp add: seq_wf_def)

lemma Diff_cases:
  fixes a b :: int
  assumes "0 \<le> a" "a < 16384" "0 \<le> b" "b < 16384"
  shows "(a - b) mod 16384 = (if b \<le> a then a - b else a - b + 16384)"
    and "(a - b + 8192) mod 16384 = (if 8192 \<le> a - b then a - b - 8192
           else if a - b < -8192 then a - b + 24576 else a - b + 8192)"
proof -
  have "(x + 16384) mod 16384 = x mod 16384" "(x - 16384) mod 16384 = x mod 16384" for x :: int
    by simp_all
  note shift = this [of "a - b"] this [of "a - b + 8192"]
  show "(a - b) mod 16384 = (if b \<le> a then a - b else a - b + 16384)"
    using assms shift(1) mod_pos_pos_trivial [of "a - b" 16384] mod_pos_pos_trivial [of "a - b + 16384" 16384]
    by auto
  show "(a - b + 8192) mod 16384 = (if 8192 \<le> a - b then a - b - 8192
           else if a - b < -8192 then a - b + 24576 else a - b + 8192)"
    using assms shift(3,4) mod_pos_pos_trivial [of "a - b + 8192" 16384]
      mod_pos_pos_trivial [of "a - b + 24576" 16384] mod_pos_pos_trivial [of "a - b - 8192" 16384]
    by auto
qed

lemma Diff_offset_facts:
  assumes "seq_wf A" and "seq_wf B"
  shows "-8192 \<le> Diff A B" "Diff A B \<le> 8191" "(sval B + Diff A B) mod 16384 = sval A"
    "seq_gt A B \<longleftrightarrow> 0 < Diff A B" "seq_ge A B \<longleftrightarrow> 0 \<le> Diff A B"
proof -
  have b: "0 \<le> sval A" "sval A < 16384" "0 \<le> sval B" "sval B < 16384"
    using assms by (auto simp: seq_wf_def)
  have *: "0 \<le> a \<Longrightarrow> a < 16384 \<Longrightarrow> 0 \<le> b \<Longrightarrow> b < 16384 \<Longrightarrow>
      -8192 \<le> (a - b + 8192) mod 16384 - 8192 \<and> (a - b + 8192) mod 16384 - 8192 \<le> 8191
      \<and> (b + ((a - b + 8192) mod 16384 - 8192)) mod 16384 = a
      \<and> (a \<noteq> b \<and> (a - b) mod 16384 < 8192 \<longleftrightarrow> 0 < (a - b + 8192) mod 16384 - 8192)
      \<and> ((a - b) mod 16384 < 8192 \<longleftrightarrow> 0 \<le> (a - b + 8192) mod 16384 - 8192)" for a b :: int
    using Diff_cases [of a b] by (auto simp: mod_add_right_eq mod_diff_right_eq add.commute split: if_splits)
  show "-8192 \<le> Diff A B" "Diff A B \<le> 8191" "(sval B + Diff A B) mod 16384 = sval A"
    "seq_gt A B \<longleftrightarrow> 0 < Diff A B" "seq_ge A B \<longleftrightarrow> 0 \<le> Diff A B"
    unfolding Diff_eq seq_gt_iff seq_ge_iff using * [OF b] by blast+
qed

text \<open>
  C25. For two sequence numbers the signed difference lies in [-8192, 8191] and is the offset from
  the second to the first around the circle, and the comparisons \<open>>\<close> and \<open>>=\<close> agree with its sign.
\<close>

theorem Diff_offset:
  assumes "seq_wf A" and "seq_wf B"
  shows "-8192 \<le> Diff A B \<and> Diff A B \<le> 8191 \<and> (sval B + Diff A B) mod 16384 = sval A
    \<and> (seq_gt A B \<longleftrightarrow> 0 < Diff A B) \<and> (seq_ge A B \<longleftrightarrow> 0 \<le> Diff A B)"
  using Diff_offset_facts [OF assms] by blast

theorem Diff_offset_witness:
  "-8192 \<le> Diff (MkSeq 2) (MkSeq 16380) \<and> Diff (MkSeq 2) (MkSeq 16380) \<le> 8191
    \<and> (sval (MkSeq 16380) + Diff (MkSeq 2) (MkSeq 16380)) mod 16384 = sval (MkSeq 2)
    \<and> (seq_gt (MkSeq 2) (MkSeq 16380) \<longleftrightarrow> 0 < Diff (MkSeq 2) (MkSeq 16380))
    \<and> (seq_ge (MkSeq 2) (MkSeq 16380) \<longleftrightarrow> 0 \<le> Diff (MkSeq 2) (MkSeq 16380))"
  by (rule Diff_offset) simp_all

text \<open>Moving forward by fewer than 8192 steps.\<close>

lemma Diff_step:
  assumes "0 \<le> k" "k < 8192" and "sval A = (sval B + k) mod 16384" and "seq_wf B"
  shows "Diff A B = k" and "seq_ge A B" and "seq_gt A B \<longleftrightarrow> 0 < k"
proof -
  have d: "(sval A - sval B) mod 16384 = k"
    using assms by (simp add: mod_diff_left_eq)
  have "(sval A - sval B + 8192) mod 16384 = ((sval A - sval B) mod 16384 + 8192) mod 16384"
    by (simp add: mod_add_left_eq)
  then show "Diff A B = k"
    using assms d by (simp add: Diff_eq)
  show "seq_ge A B"
    using assms d by (simp add: seq_ge_iff)
  have "sval A = sval B \<longleftrightarrow> k = 0"
    using d assms by (auto simp: seq_wf_def)
  then show "seq_gt A B \<longleftrightarrow> 0 < k"
    using assms d by (auto simp: seq_gt_iff)
qed

text \<open>
  At the antipode the two strict comparisons both hold: the order of the engine is not
  asymmetric for numbers exactly 8192 apart.
\<close>

theorem antipode_both_less:
  assumes "seq_wf A" and "seq_wf B" and "sval A = (sval B + 8192) mod 16384"
  shows "A < B \<and> B < A \<and> A \<le> B \<and> B \<le> A"
proof -
  have "sval B < 8192 \<Longrightarrow> sval A - sval B = 8192"
    using assms by (simp add: mod_pos_pos_trivial)
  moreover have "8192 \<le> sval B \<Longrightarrow> sval A - sval B = -8192"
  proof -
    assume "8192 \<le> sval B"
    moreover have "(sval B - 8192 + 16384) mod 16384 = (sval B - 8192) mod 16384"
      by (rule mod_add_self2)
    ultimately show ?thesis
      using assms by (simp add: seq_wf_def mod_pos_pos_trivial add.commute)
  qed
  ultimately have d: "sval A - sval B = 8192 \<or> sval A - sval B = -8192"
    by (meson not_le)
  have "x mod 16384 = 8192 \<and> - x mod 16384 = 8192" if "x = 8192 \<or> x = -8192" for x :: int
    using that by auto
  from this [OF d] have "(sval A - sval B) mod 16384 = 8192" "(sval B - sval A) mod 16384 = 8192"
    by simp_all
  then show ?thesis
    by (simp add: less_SequenceNumber_def less_eq_SequenceNumber_def seq_lt_def seq_le_def seq_ge_iff seq_gt_iff)
qed

theorem antipode_both_less_witness:
  "MkSeq 8200 < MkSeq 8 \<and> MkSeq 8 < MkSeq 8200 \<and> MkSeq 8200 \<le> MkSeq 8 \<and> MkSeq 8 \<le> MkSeq 8200"
  by (rule antipode_both_less) (simp_all add: sval_MkSeq)

end
