(* ===== verification/SeqHistory.thy ===== *)
theory SeqHistory
  imports BitReaderM
begin

text \<open>
  Network, \<open>sequence/SequenceHistory.h\<close>: the delivery history
  (\<open>TSequenceHistory<256>\<close>), eight words of 32 bits shifted as one register. The contract
  \<open>delivery_window\<close> states what the register is for; the words implement it.
\<close>

definition WordCount :: nat where "WordCount = 8"
definition BitsPerWord :: nat where "BitsPerWord = 32"
definition HistorySize :: nat where "HistorySize = 256"

type_synonym SequenceHistory = "u32 list"

definition SequenceHistory_Reset :: SequenceHistory where
  "SequenceHistory_Reset = replicate WordCount 0"

fun AddDelivery_loop :: "u32 \<Rightarrow> u32 list \<Rightarrow> u32 list" where
  "AddDelivery_loop Carry [] = []"
| "AddDelivery_loop Carry (Word # Storage) =
     (let OldValue = Carry;
          ValueMask = push_bit (BitsPerWord - 1) 1;
          Carry = drop_bit (BitsPerWord - 1) (Word AND ValueMask)
      in (push_bit 1 Word OR OldValue) # AddDelivery_loop Carry Storage)"

definition AddDeliveryStatus :: "SequenceHistory \<Rightarrow> bool \<Rightarrow> SequenceHistory" where
  "AddDeliveryStatus Storage Delivered = AddDelivery_loop (if Delivered then 1 else 0) Storage"

definition IsDelivered :: "SequenceHistory \<Rightarrow> nat \<Rightarrow> bool option" where
  "IsDelivered Storage Index = do {
     Word \<leftarrow> rd Storage (Index div BitsPerWord);
     Some (Word AND push_bit (Index mod BitsPerWord) 1 \<noteq> 0) }"

fun History_Write_loop :: "BitWriter \<Rightarrow> u32 list \<Rightarrow> BitWriter option" where
  "History_Write_loop Writer [] = Some Writer"
| "History_Write_loop Writer (temp # ws) = do {
     (Writer, _) \<leftarrow> stream_u32 BitWriter_Serialize Writer temp;
     History_Write_loop Writer ws }"

definition History_Write :: "SequenceHistory \<Rightarrow> BitWriter \<Rightarrow> nat \<Rightarrow> BitWriter option" where
  "History_Write Storage Writer NumWords = History_Write_loop Writer (take (min NumWords WordCount) Storage)"

fun History_Read_loop :: "BitReader \<Rightarrow> u32 list \<Rightarrow> (BitReader \<times> u32 list) option" where
  "History_Read_loop Reader [] = Some (Reader, [])"
| "History_Read_loop Reader (w # ws) = do {
     (Reader, w) \<leftarrow> stream_u32 BitReader_Serialize Reader w;
     (Reader, ws) \<leftarrow> History_Read_loop Reader ws;
     Some (Reader, w # ws) }"

definition History_Read :: "SequenceHistory \<Rightarrow> BitReader \<Rightarrow> nat \<Rightarrow> (BitReader \<times> SequenceHistory) option" where
  "History_Read Storage Reader NumWords = do {
     let n = min NumWords WordCount;
     (Reader, ws) \<leftarrow> History_Read_loop Reader (take n Storage);
     Some (Reader, ws @ drop n Storage) }"

section \<open>The contract of a delivery window\<close>

locale delivery_window =
  fixes wf :: "'h \<Rightarrow> bool" and add :: "'h \<Rightarrow> bool \<Rightarrow> 'h" and status :: "'h \<Rightarrow> nat \<Rightarrow> bool option"
    and cap :: nat
  assumes add_wf: "wf h \<Longrightarrow> wf (add h d)"
    and status_new: "wf h \<Longrightarrow> status (add h d) 0 = Some d"
    and status_old: "wf h \<Longrightarrow> Suc i < cap \<Longrightarrow> status (add h d) (Suc i) = status h i"
    and cap_pos: "0 < cap"
begin

lemma adds_wf: "wf h \<Longrightarrow> wf (foldl add h ds)"
  by (induction ds arbitrary: h) (auto simp: add_wf)

text \<open>After the statuses \<open>ds\<close>, oldest first, index \<open>i\<close> holds the \<open>i\<close>-th latest of them.\<close>

lemma status_adds:
  "wf h \<Longrightarrow> i < cap \<Longrightarrow> i < length ds \<Longrightarrow> status (foldl add h ds) i = Some (rev ds ! i)"
proof (induction ds arbitrary: i rule: rev_induct)
  case Nil
  then show ?case by simp
next
  case (snoc d ds)
  have w: "wf (foldl add h ds)"
    using snoc.prems(1) by (rule adds_wf)
  show ?case
  proof (cases i)
    case 0
    then show ?thesis
      using status_new [OF w] by simp
  next
    case (Suc j)
    then show ?thesis
      using status_old [OF w, of j d] snoc.IH [of j] snoc.prems by simp
  qed
qed

lemma status_adds_beyond:
  "wf h \<Longrightarrow> length ds \<le> i \<Longrightarrow> i < cap \<Longrightarrow> status (foldl add h ds) i = status h (i - length ds)"
proof (induction ds arbitrary: i rule: rev_induct)
  case Nil
  then show ?case by simp
next
  case (snoc d ds)
  then obtain j where j: "i = Suc j" "length ds \<le> j" "Suc j < cap"
    by (cases i) auto
  have "status (foldl add h ds) j = status h (j - length ds)"
    using snoc.IH [of j] snoc.prems j by auto
  then show ?case
    using status_old [OF adds_wf [OF snoc.prems(1)] j(3)] j by simp
qed

end

section \<open>The words implement it\<close>

definition hist_wf :: "SequenceHistory \<Rightarrow> bool" where
  "hist_wf h \<longleftrightarrow> length h = WordCount"

definition hist_bit :: "SequenceHistory \<Rightarrow> nat \<Rightarrow> bool" where
  "hist_bit h i = bit (h ! (i div 32)) (i mod 32)"

lemma length_AddDelivery_loop [simp]: "length (AddDelivery_loop c h) = length h"
  by (induction c h rule: AddDelivery_loop.induct) (auto simp: Let_def)

lemma hist_wf_ops [wf_intros, simp]:
  "hist_wf SequenceHistory_Reset" "hist_wf h \<Longrightarrow> hist_wf (AddDeliveryStatus h d)"
  by (simp_all add: hist_wf_def SequenceHistory_Reset_def AddDeliveryStatus_def)

lemma hist_wf_loop [simp]: "hist_wf (AddDelivery_loop c h) = hist_wf h"
  by (simp add: hist_wf_def)

lemma carry_bit: "bit (drop_bit 31 ((w :: u32) AND push_bit 31 1)) n \<longleftrightarrow> n = 0 \<and> bit w 31"
  by (auto simp: bit_drop_bit_eq bit_and_iff bit_exp_iff bit_1_iff)

lemma hist_bit_loop:
  assumes "\<forall>n. bit c n \<longrightarrow> n = 0" and "i < 32 * length h"
  shows "hist_bit (AddDelivery_loop c h) i = (if i = 0 then bit c 0 else hist_bit h (i - 1))"
  using assms
proof (induction c h arbitrary: i rule: AddDelivery_loop.induct)
  case (1 Carry)
  then show ?case by simp
next
  case (2 Carry Word Storage)
  define cc :: u32 where "cc = drop_bit 31 (Word AND push_bit 31 1)"
  have unf: "AddDelivery_loop Carry (Word # Storage) = (push_bit 1 Word OR Carry) # AddDelivery_loop cc Storage"
    unfolding cc_def by (simp only: AddDelivery_loop.simps Let_def BitsPerWord_def) simp
  have c: "\<forall>n. bit cc n \<longrightarrow> n = 0" and c0: "bit cc 0 = bit Word 31"
    unfolding cc_def by (simp_all only: carry_bit) simp_all
  show ?case
  proof (cases "i < 32")
    case True
    have "bit (push_bit 1 Word OR Carry) i \<longleftrightarrow> (0 < i \<and> bit Word (i - 1)) \<or> bit Carry i"
      using True by (simp only: bit_or_iff bit_push_bit_iff) auto
    then show ?thesis
      unfolding unf using 2(2) True by (auto simp: hist_bit_def)
  next
    case False
    have "hist_bit (AddDelivery_loop cc Storage) (i - 32)
        = (if i - 32 = 0 then bit cc 0 else hist_bit Storage (i - 32 - 1))"
      using 2(3) False c unfolding cc_def by (intro "2.IH") (auto simp: BitsPerWord_def Let_def)
    moreover have "hist_bit (x # xs) i = hist_bit xs (i - 32)" for x xs
      using False by (simp add: hist_bit_def le_div_geq le_mod_geq)
    moreover have "hist_bit (Word # Storage) (i - 1) = (if i = 32 then bit Word 31 else hist_bit Storage (i - 33))"
      using False by (auto simp: hist_bit_def le_div_geq le_mod_geq)
    ultimately show ?thesis
      unfolding unf using False c0 by auto
  qed
qed

lemma IsDelivered_eq:
  "hist_wf h \<Longrightarrow> IsDelivered h i = (if i < HistorySize then Some (hist_bit h i) else None)"
proof -
  assume w: "hist_wf h"
  have "((x :: u32) AND push_bit (i mod 32) 1 \<noteq> 0) = bit x (i mod 32)" for x
    by (rule and_exp_bit)
  moreover have "i div 32 < length h \<longleftrightarrow> i < 256"
    using w by (simp add: hist_wf_def WordCount_def div_less_iff_less_mult)
  ultimately show ?thesis
    by (simp add: IsDelivered_def BitsPerWord_def HistorySize_def hist_bit_def rd_def)
qed

interpretation hist: delivery_window hist_wf AddDeliveryStatus IsDelivered HistorySize
proof
  fix h :: SequenceHistory and d :: bool and i
  assume w: "hist_wf h"
  show "hist_wf (AddDeliveryStatus h d)"
    using w by simp
  have c: "\<forall>n. bit (if d then 1 else 0 :: u32) n \<longrightarrow> n = 0"
    by (auto simp: bit_1_iff)
  have len: "32 * length h = 256"
    using w by (simp add: hist_wf_def WordCount_def)
  show "IsDelivered (AddDeliveryStatus h d) 0 = Some d"
    using w hist_bit_loop [OF c, of 0 h] len
    by (simp add: IsDelivered_eq HistorySize_def AddDeliveryStatus_def)
  show "Suc i < HistorySize \<Longrightarrow> IsDelivered (AddDeliveryStatus h d) (Suc i) = IsDelivered h i"
    using w hist_bit_loop [OF c, of "Suc i" h] len
    by (simp add: IsDelivered_eq HistorySize_def AddDeliveryStatus_def)
qed (simp add: HistorySize_def)

text \<open>
  C10. After any sequence of delivery statuses is recorded in a fresh history, the index \<open>i\<close> below
  256 answers with the \<open>i\<close>-th most recent of them, and with "not delivered" when fewer were recorded:
  the eight shifted words are one window over the last 256 statuses.
\<close>

theorem history_is_window:
  assumes "i < HistorySize"
  shows "IsDelivered (foldl AddDeliveryStatus SequenceHistory_Reset ds) i
    = Some (if i < length ds then rev ds ! i else False)"
proof (cases "i < length ds")
  case True
  then show ?thesis
    using hist.status_adds [OF hist_wf_ops(1) assms True] by simp
next
  case False
  have "\<not> hist_bit SequenceHistory_Reset j" if "j < HistorySize" for j
    using that by (simp add: hist_bit_def SequenceHistory_Reset_def WordCount_def HistorySize_def
        div_less_iff_less_mult)
  with False assms show ?thesis
    using hist.status_adds_beyond [OF hist_wf_ops(1) _ assms, of ds]
    by (simp add: IsDelivered_eq)
qed

theorem history_is_window_witness:
  "IsDelivered (foldl AddDeliveryStatus SequenceHistory_Reset [True, False, True]) 2
    = Some (if 2 < length [True, False, True] then rev [True, False, True] ! 2 else False)"
  by (rule history_is_window) (simp add: HistorySize_def)

section \<open>Words of history in a packet header\<close>

lemma stream_u32_full:
  "WMax w < WPos w + 32 \<Longrightarrow> \<not> ArForceByteSwapping w \<Longrightarrow> stream_u32 BitWriter_Serialize w v = Some (w, v)"
  by (simp add: stream_u32_def write_overflow le_bytes_inverse)

lemma History_Write_loop_fits:
  "\<lbrakk>BitWriter_wf w; \<not> ArForceByteSwapping w; WPos w + 32 * length ws \<le> WMax w\<rbrakk>
   \<Longrightarrow> \<exists>w'. History_Write_loop w ws = Some w' \<and> appended w (concat (map (word_bits 32) ws)) w'"
proof (induction ws arbitrary: w)
  case Nil
  then show ?case by (simp add: appended_refl)
next
  case (Cons x ws)
  obtain w1 where w1: "stream_u32 BitWriter_Serialize w x = Some (w1, x)" "appended w (word_bits 32 x) w1"
    using stream_u32_writes [of w x] Cons.prems by auto
  note d = appendedD [OF w1(2)]
  have "WPos w1 + 32 * length ws \<le> WMax w1" "\<not> ArForceByteSwapping w1"
    using Cons.prems d by auto
  then obtain w2 where "History_Write_loop w1 ws = Some w2" "appended w1 (concat (map (word_bits 32) ws)) w2"
    using Cons.IH [OF d(1)] by auto
  then show ?case
    using w1 appended_trans [OF w1(2)] by auto
qed

lemma History_Write_loop_full:
  "WMax w < WPos w + 32 \<Longrightarrow> \<not> ArForceByteSwapping w \<Longrightarrow> History_Write_loop w ws = Some w"
  by (induction ws) (auto simp: stream_u32_full)

lemma History_Read_loop_front:
  "\<lbrakk>BitReader_wf r; \<not> ArIsError r; \<not> ArForceByteSwapping r; length xs = length ws;
    rbits r = concat (map (word_bits 32) ws) @ cs\<rbrakk>
   \<Longrightarrow> \<exists>r'. History_Read_loop r xs = Some (r', ws) \<and> consumed r (32 * length ws) r' \<and> rbits r' = cs"
proof (induction ws arbitrary: r xs)
  case Nil
  then show ?case
    using consumedI [of r 0] BitReader_wfD(2) [of r] by auto
next
  case (Cons w ws)
  then obtain x xs' where xs: "xs = x # xs'" "length xs' = length ws"
    by (cases xs) auto
  obtain r1 where r1: "stream_u32 BitReader_Serialize r x = Some (r1, w)" "consumed r 32 r1"
    "rbits r1 = concat (map (word_bits 32) ws) @ cs"
    using stream_u32_reads [OF Cons.prems(1,2) _ Cons.prems(3), of w "concat (map (word_bits 32) ws) @ cs" x]
      Cons.prems(5) by auto
  note d = consumedD [OF r1(2)]
  obtain r2 where r2: "History_Read_loop r1 xs' = Some (r2, ws)" "consumed r1 (32 * length ws) r2" "rbits r2 = cs"
    using Cons.IH [of r1 xs'] d xs(2) r1(3) Cons.prems by auto
  have "consumed r (32 * length (w # ws)) r2"
    using r1(2) r2(2) by (auto simp: consumed_def add.commute)
  with r1 r2 xs show ?case
    by auto
qed

lemma stream_u32_short:
  assumes "ArIsError r \<or> RMax r < RPos r + 32" and "\<not> ArForceByteSwapping r"
  shows "\<exists>v'. stream_u32 BitReader_Serialize r v = Some (SetError r, v')"
  using SerializeBits_error [of r 32 "le_bytes 4 v"] assms
  by (simp add: stream_u32_def BitReader_Serialize_def)

lemma SetError_fields [simp]:
  "ArIsError (SetError r)" "ArForceByteSwapping (SetError r) = ArForceByteSwapping r"
  "RPos (SetError (r :: BitReader)) = RPos r" "RMax (SetError (r :: BitReader)) = RMax r"
  "RBuffer (SetError (r :: BitReader)) = RBuffer r"
  by (simp_all add: SetError_def)

lemma History_Read_loop_error:
  "ArIsError r \<Longrightarrow> \<not> ArForceByteSwapping r \<Longrightarrow>
     \<exists>r' ws. History_Read_loop r xs = Some (r', ws) \<and> ArIsError r'"
proof (induction xs arbitrary: r)
  case (Cons x xs)
  obtain v' where v': "stream_u32 BitReader_Serialize r x = Some (SetError r, v')"
    using stream_u32_short [of r x] Cons.prems by auto
  with Cons.IH [of "SetError r"] Cons.prems show ?case
    by fastforce
qed auto

end
