(* ===== verification/PacketNotify.thy ===== *)
theory PacketNotify
  imports SeqNum SeqHistory
begin

text \<open>
  Network, \<open>sequence/NetPacketNotify\<close>: which packets were received, which of the packets sent
  were delivered. \<open>Update\<close> calls a functor once per packet it learns about; the functor of the
  engine does not touch the object, so the calls are the list of pairs \<open>Update\<close> returns.
\<close>

section \<open>The packed header\<close>

definition Pack :: "SequenceNumber \<Rightarrow> SequenceNumber \<Rightarrow> nat \<Rightarrow> u32" where
  "Pack Seq AckedSeq HistoryWordCount =
     push_bit 18 (ucast (Get Seq)) OR push_bit 4 (ucast (Get AckedSeq))
     OR (word_of_nat HistoryWordCount AND 0xF)"

definition GetSeq :: "u32 \<Rightarrow> SequenceNumber" where
  "GetSeq Packed = MkSeq (ucast (drop_bit 18 Packed AND 0x3FFF))"

definition GetAckedSeq :: "u32 \<Rightarrow> SequenceNumber" where
  "GetAckedSeq Packed = MkSeq (ucast (drop_bit 4 Packed AND 0x3FFF))"

definition GetHistoryWordCount :: "u32 \<Rightarrow> nat" where
  "GetHistoryWordCount Packed = unat (Packed AND 0xF)"

record NotificationHeader =
  NHistory :: SequenceHistory
  HistoryWordCount :: nat
  NSeq :: SequenceNumber
  NAckedSeq :: SequenceNumber

definition NotificationHeader_ctor :: NotificationHeader where
  "NotificationHeader_ctor = \<lparr>NHistory = SequenceHistory_Reset, HistoryWordCount = 0,
     NSeq = seq_default, NAckedSeq = seq_default\<rparr>"

section \<open>State and operations\<close>

record NetPacketNotify =
  AckRecord :: "(SequenceNumber \<times> SequenceNumber) list"
  WrittenHistoryWordCount :: nat
  WrittenInAckSeq :: SequenceNumber
  InSeqHistory :: SequenceHistory
  InSeq :: SequenceNumber
  InAckSeq :: SequenceNumber
  InAckSeqAck :: SequenceNumber
  WaitingForFlushSeqAck :: SequenceNumber
  OutSeq :: SequenceNumber
  OutAckSeq :: SequenceNumber

definition NetPacketNotify_ctor :: NetPacketNotify where
  "NetPacketNotify_ctor = \<lparr>AckRecord = [], WrittenHistoryWordCount = 0, WrittenInAckSeq = seq_default,
     InSeqHistory = SequenceHistory_Reset, InSeq = seq_default, InAckSeq = seq_default,
     InAckSeqAck = seq_default, WaitingForFlushSeqAck = seq_default, OutSeq = seq_default,
     OutAckSeq = seq_default\<rparr>"

definition Notify_Init :: "NetPacketNotify \<Rightarrow> SequenceNumber \<Rightarrow> SequenceNumber \<Rightarrow> NetPacketNotify" where
  "Notify_Init n InitialInSeq InitialOutSeq =
     (let OutAck = MkSeq (Get InitialOutSeq - 1)
      in n\<lparr>InSeqHistory := SequenceHistory_Reset, InSeq := InitialInSeq, InAckSeq := InitialInSeq,
           InAckSeqAck := InitialInSeq, OutSeq := InitialOutSeq, OutAckSeq := OutAck,
           WaitingForFlushSeqAck := OutAck, AckRecord := []\<rparr>)"

definition CommitAndIncrementOutSeq :: "NetPacketNotify \<Rightarrow> NetPacketNotify \<times> SequenceNumber" where
  "CommitAndIncrementOutSeq n =
     (if WrittenHistoryWordCount n = 0 then (n, OutSeq n)
      else (let n = n\<lparr>AckRecord := AckRecord n @ [(OutSeq n, WrittenInAckSeq n)],
                      WrittenHistoryWordCount := 0, OutSeq := seq_inc (OutSeq n)\<rparr>
            in (n, OutSeq n)))"

definition GetCurrentSequenceHistoryLength :: "NetPacketNotify \<Rightarrow> nat" where
  "GetCurrentSequenceHistoryLength n =
     (if seq_ge (InAckSeq n) (InAckSeqAck n) then min (nat (Diff (InAckSeq n) (InAckSeqAck n))) HistorySize
      else HistorySize)"

definition WriteHeader :: "NetPacketNotify \<Rightarrow> BitWriter \<Rightarrow> bool \<Rightarrow> (NetPacketNotify \<times> BitWriter \<times> bool) option" where
  "WriteHeader n Writer bRefresh =
     (let CurrentHistoryWordCount =
            min (max ((GetCurrentSequenceHistoryLength n + BitsPerWord - 1) div BitsPerWord) 1) WordCount
      in if bRefresh \<and> WrittenHistoryWordCount n < CurrentHistoryWordCount then Some (n, Writer, False)
         else do {
           let n = n\<lparr>WrittenHistoryWordCount :=
                       (if bRefresh then WrittenHistoryWordCount n else CurrentHistoryWordCount),
                     WrittenInAckSeq := InAckSeq n\<rparr>;
           let PackedHeader = Pack (OutSeq n) (InAckSeq n) (WrittenHistoryWordCount n - 1);
           (Writer, _) \<leftarrow> stream_u32 BitWriter_Serialize Writer PackedHeader;
           Writer \<leftarrow> History_Write (InSeqHistory n) Writer (WrittenHistoryWordCount n);
           Some (n, Writer, True) })"

definition ReadHeader :: "NotificationHeader \<Rightarrow> BitReader \<Rightarrow> (NotificationHeader \<times> BitReader \<times> bool) option" where
  "ReadHeader Data Reader = do {
     (Reader, PackedHeader) \<leftarrow> stream_u32 BitReader_Serialize Reader 0;
     let Data = Data\<lparr>NSeq := GetSeq PackedHeader, NAckedSeq := GetAckedSeq PackedHeader,
                     HistoryWordCount := GetHistoryWordCount PackedHeader + 1\<rparr>;
     (Reader, h) \<leftarrow> History_Read (NHistory Data) Reader (HistoryWordCount Data);
     Some (Data\<lparr>NHistory := h\<rparr>, Reader, \<not> ArIsError Reader) }"

definition GetSequenceDelta :: "NetPacketNotify \<Rightarrow> NotificationHeader \<Rightarrow> int" where
  "GetSequenceDelta n Data =
     (if seq_gt (NSeq Data) (InSeq n) \<and> seq_ge (NAckedSeq Data) (OutAckSeq n)
         \<and> seq_gt (OutSeq n) (NAckedSeq Data)
      then Diff (NSeq Data) (InSeq n) else 0)"

definition IsWaitingForSequenceHistoryFlush :: "NetPacketNotify \<Rightarrow> bool" where
  "IsWaitingForSequenceHistoryFlush n = seq_gt (WaitingForFlushSeqAck n) (OutAckSeq n)"

fun has_delivered :: "SequenceHistory \<Rightarrow> nat \<Rightarrow> nat \<Rightarrow> bool option" where
  "has_delivered h It 0 = Some False"
| "has_delivered h It (Suc k) = do {
     d \<leftarrow> IsDelivered h It;
     if d then Some True else has_delivered h (Suc It) k }"

definition GetHasUnacknowledgedAcks :: "NetPacketNotify \<Rightarrow> bool option" where
  "GetHasUnacknowledgedAcks n = has_delivered (InSeqHistory n) 0 (GetCurrentSequenceHistoryLength n)"

definition WillSequenceFitInSequenceHistory :: "NetPacketNotify \<Rightarrow> SequenceNumber \<Rightarrow> bool" where
  "WillSequenceFitInSequenceHistory n Seq =
     (if seq_ge Seq (InAckSeqAck n) then nat (Diff Seq (InAckSeqAck n)) \<le> HistorySize else False)"

text \<open>The loop of \<open>AckSeq\<close>: every number skipped is reported as lost.\<close>

definition ack_rounds :: "SequenceNumber \<Rightarrow> SequenceNumber \<Rightarrow> nat" where
  "ack_rounds A B = (let x = (sval A - sval B) mod 16384
     in if \<not> seq_wf B then 16386 else if x < 8192 then nat x + 1 else 0)"

lemma ack_rounds_inc:
  assumes "seq_gt A B"
  shows "ack_rounds A (seq_inc B) < ack_rounds A B"
proof -
  define x where "x = (sval A - sval B) mod 16384"
  have x: "0 \<le> x" "x < 8192"
    using assms by (auto simp: seq_gt_iff x_def)
  have "(sval A - sval (seq_inc B)) mod 16384 = (x - 1) mod 16384"
    by (simp add: x_def sval_arith mod_diff_left_eq mod_diff_right_eq diff_diff_eq)
  moreover have "(x - 1) mod 16384 = (if x = 0 then 16383 else x - 1)"
    using x by (auto simp: mod_pos_pos_trivial)
  ultimately show ?thesis
    using x by (auto simp: ack_rounds_def x_def [symmetric] Let_def)
qed

function AckSeq_loop :: "SequenceNumber \<Rightarrow> bool \<Rightarrow> SequenceNumber \<Rightarrow> SequenceHistory
    \<Rightarrow> SequenceNumber \<times> SequenceHistory" where
  "AckSeq_loop AckedSeq IsAck InAck History =
     (if seq_gt AckedSeq InAck then
        (let InAck = seq_inc InAck; bReportAcked = (if InAck = AckedSeq then IsAck else False)
         in AckSeq_loop AckedSeq IsAck InAck (AddDeliveryStatus History bReportAcked))
      else (InAck, History))"
  by auto
termination
  by (relation "measure (\<lambda>(A, _, B, _). ack_rounds A B)") (auto simp: ack_rounds_inc)

declare AckSeq_loop.simps [simp del]

definition AckSeq_gen :: "NetPacketNotify \<Rightarrow> SequenceNumber \<Rightarrow> bool \<Rightarrow> NetPacketNotify" where
  "AckSeq_gen n AckedSeq IsAck =
     (let (InAck, h) = AckSeq_loop AckedSeq IsAck (InAckSeq n) (InSeqHistory n)
      in n\<lparr>InAckSeq := InAck, InSeqHistory := h\<rparr>)"

definition AckSeq :: "NetPacketNotify \<Rightarrow> SequenceNumber \<Rightarrow> NetPacketNotify" where
  "AckSeq n Seq = AckSeq_gen n Seq True"

definition NakSeq :: "NetPacketNotify \<Rightarrow> SequenceNumber \<Rightarrow> NetPacketNotify" where
  "NakSeq n Seq = AckSeq_gen n Seq False"

definition UpdateInAckSeqAck :: "NetPacketNotify \<Rightarrow> int \<Rightarrow> SequenceNumber
    \<Rightarrow> (NetPacketNotify \<times> SequenceNumber) option" where
  "UpdateInAckSeqAck n AckCount AckedSeq =
     (let Fallback = MkSeq (Get AckedSeq - 256)
      in if 0 \<le> AckCount \<and> AckCount \<le> int (length (AckRecord n)) then
           (case drop (nat (AckCount - 1)) (AckRecord n) of
              [] \<Rightarrow> None
            | AckData # rest \<Rightarrow>
                (let n = n\<lparr>AckRecord := rest\<rparr>
                 in Some (n, if fst AckData = AckedSeq then snd AckData else Fallback)))
         else Some (n, Fallback))"

definition InternalUpdate :: "NetPacketNotify \<Rightarrow> NotificationHeader \<Rightarrow> int \<Rightarrow> (NetPacketNotify \<times> int) option" where
  "InternalUpdate n Data InSeqDelta = do {
     n \<leftarrow> (if \<not> IsWaitingForSequenceHistoryFlush n \<and> \<not> WillSequenceFitInSequenceHistory n (NSeq Data)
          then do {
            unacked \<leftarrow> GetHasUnacknowledgedAcks n;
            if unacked then Some (n\<lparr>WaitingForFlushSeqAck := OutSeq n\<rparr>)
            else Some (n\<lparr>InAckSeqAck := MkSeq (Get (NSeq Data) - 1)\<rparr>) }
          else Some n);
     if \<not> IsWaitingForSequenceHistoryFlush n then Some (n\<lparr>InSeq := NSeq Data\<rparr>, InSeqDelta)
     else do {
       unacked \<leftarrow> (if \<not> WillSequenceFitInSequenceHistory n (NSeq Data) then GetHasUnacknowledgedAcks n
                  else Some False);
       let NewInSeqToAck =
         (if unacked
          then MkSeq (Get (InAckSeqAck n) + word_of_nat (256 - GetCurrentSequenceHistoryLength n))
          else NSeq Data);
       if seq_ge NewInSeqToAck (InSeq n) then
         (let AdjustedSequenceDelta = Diff NewInSeqToAck (InSeq n);
              n = n\<lparr>InSeq := NewInSeqToAck\<rparr>
          in Some (AckSeq_gen n NewInSeqToAck False, AdjustedSequenceDelta))
       else Some (n, 0) } }"

text \<open>The two loops over the packets an acknowledgement decides, oldest first.\<close>

fun Nak_loop :: "nat \<Rightarrow> nat \<Rightarrow> SequenceNumber \<Rightarrow> (SequenceNumber \<times> bool) list \<times> nat \<times> SequenceNumber" where
  "Nak_loop AckCount HistoryBits CurrentAck =
     (if HistoryBits < AckCount then
        (let AckCount = AckCount - 1; event = (CurrentAck, False);
             (events, AckCount, CurrentAck) = Nak_loop AckCount HistoryBits (seq_inc CurrentAck)
         in (event # events, AckCount, CurrentAck))
      else ([], AckCount, CurrentAck))"

declare Nak_loop.simps [simp del]

fun Ack_loop :: "nat \<Rightarrow> SequenceHistory \<Rightarrow> SequenceNumber \<Rightarrow> (SequenceNumber \<times> bool) list option" where
  "Ack_loop 0 History CurrentAck = Some []"
| "Ack_loop (Suc AckCount) History CurrentAck = do {
     d \<leftarrow> IsDelivered History AckCount;
     events \<leftarrow> Ack_loop AckCount History (seq_inc CurrentAck);
     Some ((CurrentAck, d) # events) }"

definition ProcessReceivedAcks :: "NetPacketNotify \<Rightarrow> NotificationHeader
    \<Rightarrow> (NetPacketNotify \<times> (SequenceNumber \<times> bool) list) option" where
  "ProcessReceivedAcks n Data =
     (if seq_gt (NAckedSeq Data) (OutAckSeq n) then do {
        let AckCount = Diff (NAckedSeq Data) (OutAckSeq n);
        (n, NewInAckSeqAck) \<leftarrow> UpdateInAckSeqAck n AckCount (NAckedSeq Data);
        let n = (if seq_gt NewInAckSeqAck (InAckSeqAck n) then n\<lparr>InAckSeqAck := NewInAckSeqAck\<rparr> else n);
        let CurrentAck = seq_inc (OutAckSeq n);
        let HistoryBits = HistoryWordCount Data * BitsPerWord;
        let (naks, AckCount, CurrentAck) = Nak_loop (nat AckCount) HistoryBits CurrentAck;
        acks \<leftarrow> Ack_loop AckCount (NHistory Data) CurrentAck;
        let n = n\<lparr>OutAckSeq := NAckedSeq Data\<rparr>;
        let n = (if seq_gt (OutAckSeq n) (WaitingForFlushSeqAck n)
                 then n\<lparr>WaitingForFlushSeqAck := OutAckSeq n\<rparr> else n);
        Some (n, naks @ acks) }
      else Some (n, []))"

definition Notify_Update :: "NetPacketNotify \<Rightarrow> NotificationHeader
    \<Rightarrow> (NetPacketNotify \<times> (SequenceNumber \<times> bool) list \<times> int) option" where
  "Notify_Update n Data =
     (let InSeqDelta = GetSequenceDelta n Data
      in if 0 < InSeqDelta then do {
           (n, events) \<leftarrow> ProcessReceivedAcks n Data;
           (n, delta) \<leftarrow> InternalUpdate n Data InSeqDelta;
           Some (n, events, delta) }
         else Some (n, [], 0))"

section \<open>The packed header is read back\<close>

lemma Pack_fields:
  assumes "seq_wf Seq" and "seq_wf Acked" and "k < 16"
  shows "GetSeq (Pack Seq Acked k) = Seq" "GetAckedSeq (Pack Seq Acked k) = Acked"
    "GetHistoryWordCount (Pack Seq Acked k) = k"
proof -
  have m14: "(0x3FFF :: u32) = mask 14" and m4: "(0xF :: u32) = mask 4" and s14: "SeqNumberMask = mask 14"
    by (simp_all add: SeqNumberMask_def mask_eq_exp_minus_1)
  have low: "bit (Get s) i \<Longrightarrow> i < 14" if "seq_wf s" for s i
  proof -
    assume b: "bit (Get s) i"
    have "uint (Get s) < 2 ^ 14"
      using that by (simp add: seq_wf_def sval_def)
    moreover have "uint (take_bit 14 (Get s)) = uint (Get s) mod 2 ^ 14"
      by (metis unsigned_take_bit_eq take_bit_eq_mod)
    ultimately have "uint (take_bit 14 (Get s)) = uint (Get s)"
      by simp
    then have "Get s = take_bit 14 (Get s)"
      by (simp only: word_uint_eq_iff)
    with b show "i < 14"
      by (metis bit_take_bit_iff)
  qed
  have "GetSeq (Pack Seq Acked k) = SeqValue (Get Seq)"
    unfolding GetSeq_def MkSeq_def Pack_def m14 m4 s14 SequenceNumber.inject
    by (rule bit_word_eqI) (use low [OF assms(1)] low [OF assms(2)] in
      \<open>auto simp: bit_and_iff bit_or_iff bit_ucast_iff bit_drop_bit_eq bit_push_bit_iff bit_mask_iff\<close>)
  then show "GetSeq (Pack Seq Acked k) = Seq"
    by simp
  have "GetAckedSeq (Pack Seq Acked k) = SeqValue (Get Acked)"
    unfolding GetAckedSeq_def MkSeq_def Pack_def m14 m4 s14 SequenceNumber.inject
    by (rule bit_word_eqI) (use low [OF assms(2)] in
      \<open>auto simp: bit_and_iff bit_or_iff bit_ucast_iff bit_drop_bit_eq bit_push_bit_iff bit_mask_iff\<close>)
  then show "GetAckedSeq (Pack Seq Acked k) = Acked"
    by simp
  have "Pack Seq Acked k AND 0xF = take_bit 4 (word_of_nat k)"
    unfolding Pack_def m4
    by (rule bit_word_eqI)
      (auto simp: bit_and_iff bit_or_iff bit_push_bit_iff bit_mask_iff bit_take_bit_iff)
  then have "GetHistoryWordCount (Pack Seq Acked k) = take_bit 4 (unat (word_of_nat k :: u32))"
    by (simp only: GetHistoryWordCount_def unsigned_take_bit_eq)
  also have "\<dots> = k"
    using assms(3) by (simp add: take_bit_eq_mod unat_of_nat)
  finally show "GetHistoryWordCount (Pack Seq Acked k) = k" .
qed

definition notify_wf :: "NetPacketNotify \<Rightarrow> bool" where
  "notify_wf n \<longleftrightarrow> hist_wf (InSeqHistory n) \<and> seq_wf (InSeq n) \<and> seq_wf (InAckSeq n)
     \<and> seq_wf (InAckSeqAck n) \<and> seq_wf (WaitingForFlushSeqAck n) \<and> seq_wf (OutSeq n)
     \<and> seq_wf (OutAckSeq n) \<and> seq_wf (WrittenInAckSeq n)
     \<and> (\<forall>(a, b)\<in>set (AckRecord n). seq_wf a \<and> seq_wf b) \<and> WrittenHistoryWordCount n \<le> WordCount"

definition header_wf :: "NotificationHeader \<Rightarrow> bool" where
  "header_wf d \<longleftrightarrow> hist_wf (NHistory d) \<and> seq_wf (NSeq d) \<and> seq_wf (NAckedSeq d)"

lemma NotificationHeader_ctor_wf [wf_intros, simp]: "header_wf NotificationHeader_ctor"
  by (simp add: header_wf_def NotificationHeader_ctor_def)

lemma Notify_Init_wf [wf_intros]:
  "seq_wf a \<Longrightarrow> seq_wf b \<Longrightarrow> notify_wf (Notify_Init NetPacketNotify_ctor a b)"
  by (simp add: notify_wf_def Notify_Init_def NetPacketNotify_ctor_def Let_def)

text \<open>The number of words a header carries.\<close>

definition header_words :: "NetPacketNotify \<Rightarrow> nat" where
  "header_words n = min (max ((GetCurrentSequenceHistoryLength n + BitsPerWord - 1) div BitsPerWord) 1) WordCount"

lemma header_words_bounds: "1 \<le> header_words n" "header_words n \<le> 8"
  by (auto simp: header_words_def WordCount_def)

definition header_bits :: "NetPacketNotify \<Rightarrow> bool list" where
  "header_bits n = word_bits 32 (Pack (OutSeq n) (InAckSeq n) (header_words n - 1))
     @ concat (map (word_bits 32) (take (header_words n) (InSeqHistory n)))"

lemma WriteHeader_unfold:
  "WriteHeader n Writer False = do {
     (Writer, _) \<leftarrow> stream_u32 BitWriter_Serialize Writer (Pack (OutSeq n) (InAckSeq n) (header_words n - 1));
     Writer \<leftarrow> History_Write (InSeqHistory n) Writer (header_words n);
     Some (n\<lparr>WrittenHistoryWordCount := header_words n, WrittenInAckSeq := InAckSeq n\<rparr>, Writer, True) }"
  unfolding WriteHeader_def header_words_def by (simp add: Let_def)

lemma WriteHeader_fits [bits_of]:
  assumes n: "notify_wf n" and w: "BitWriter_wf w" "\<not> ArForceByteSwapping w"
    and room: "WPos w + 32 + 32 * header_words n \<le> WMax w"
  shows "\<exists>w'. WriteHeader n w False = Some (n\<lparr>WrittenHistoryWordCount := header_words n,
           WrittenInAckSeq := InAckSeq n\<rparr>, w', True) \<and> appended w (header_bits n) w'"
proof -
  let ?p = "Pack (OutSeq n) (InAckSeq n) (header_words n - 1)"
  obtain w1 where w1: "stream_u32 BitWriter_Serialize w ?p = Some (w1, ?p)" "appended w (word_bits 32 ?p) w1"
    using stream_u32_writes [OF w(1) _ w(2), of ?p] room by auto
  note d = appendedD [OF w1(2)]
  have "length (take (header_words n) (InSeqHistory n)) = header_words n"
    using n header_words_bounds by (simp add: notify_wf_def hist_wf_def WordCount_def)
  then obtain w2 where w2: "History_Write_loop w1 (take (header_words n) (InSeqHistory n)) = Some w2"
    "appended w1 (concat (map (word_bits 32) (take (header_words n) (InSeqHistory n)))) w2"
    using History_Write_loop_fits [OF d(1), of "take (header_words n) (InSeqHistory n)"] d w(2) room
    by auto
  have "min (header_words n) WordCount = header_words n"
    using header_words_bounds by (simp add: WordCount_def)
  then show ?thesis
    using w1(1) w2(1) appended_trans [OF w1(2) w2(2)]
    by (auto simp: WriteHeader_unfold History_Write_def header_bits_def)
qed

lemma ReadHeader_front:
  assumes n: "notify_wf n" and d: "header_wf d"
    and r: "BitReader_wf r" "\<not> ArIsError r" "\<not> ArForceByteSwapping r" "rbits r = header_bits n @ cs"
  shows "\<exists>r'. ReadHeader d r = Some (d\<lparr>NSeq := OutSeq n, NAckedSeq := InAckSeq n,
      HistoryWordCount := header_words n,
      NHistory := take (header_words n) (InSeqHistory n) @ drop (header_words n) (NHistory d)\<rparr>, r', True)
    \<and> consumed r (32 + 32 * header_words n) r' \<and> rbits r' = cs"
proof -
  let ?p = "Pack (OutSeq n) (InAckSeq n) (header_words n - 1)" and ?ws = "take (header_words n) (InSeqHistory n)"
  have wf: "seq_wf (OutSeq n)" "seq_wf (InAckSeq n)" "header_words n - 1 < 16"
    using n header_words_bounds [of n] by (auto simp: notify_wf_def)
  note pk = Pack_fields [OF wf]
  obtain r1 where r1: "stream_u32 BitReader_Serialize r 0 = Some (r1, ?p)" "consumed r 32 r1"
    "rbits r1 = concat (map (word_bits 32) ?ws) @ cs"
    using stream_u32_reads [OF r(1,2) _ r(3), of ?p "concat (map (word_bits 32) ?ws) @ cs" 0] r(4)
    by (auto simp: header_bits_def)
  note c = consumedD [OF r1(2)]
  have len: "length ?ws = header_words n" "length (take (header_words n) (NHistory d)) = length ?ws"
    using n d header_words_bounds by (simp_all add: notify_wf_def header_wf_def hist_wf_def WordCount_def)
  obtain r2 where r2: "History_Read_loop r1 (take (header_words n) (NHistory d)) = Some (r2, ?ws)"
    "consumed r1 (32 * header_words n) r2" "rbits r2 = cs"
    using History_Read_loop_front [OF c(1) _ _ len(2) r1(3)] c r(2,3) len(1) by auto
  have mn: "min (header_words n) WordCount = header_words n" "Suc (header_words n - Suc 0) = header_words n"
    using header_words_bounds [of n] by (simp_all add: WordCount_def)
  have "\<not> ArIsError r2"
    using consumedD [OF r2(2)] c r(2) by simp
  moreover have "consumed r (32 + 32 * header_words n) r2"
    using r1(2) r2(2) by (auto simp: consumed_def add.commute)
  ultimately show ?thesis
    using r1(1) r2 pk by (auto simp: ReadHeader_def mn History_Read_def Let_def)
qed

lemma header_exchange:
  assumes "notify_wf n" and "BitWriter_wf w" and "\<not> ArForceByteSwapping w" and "wbits w = []"
    and "32 + 32 * header_words n \<le> WMax w"
  shows "\<exists>n' w' r r'. WriteHeader n w False = Some (n', w', True) \<and> reader_of w' = Some r
    \<and> ReadHeader NotificationHeader_ctor r = Some (\<lparr>NHistory = take (header_words n) (InSeqHistory n)
          @ replicate (8 - header_words n) 0, HistoryWordCount = header_words n,
          NSeq = OutSeq n, NAckedSeq = InAckSeq n\<rparr>, r', True)
    \<and> rbits r' = []"
proof -
  have p0: "WPos w = 0"
    using assms(4) by (simp add: wbits_def flip: length_0_conv)
  obtain w' where w': "WriteHeader n w False = Some (n\<lparr>WrittenHistoryWordCount := header_words n,
      WrittenInAckSeq := InAckSeq n\<rparr>, w', True)" "appended w (header_bits n) w'"
    using WriteHeader_fits [OF assms(1-3)] assms(5) p0 by auto
  obtain r where r: "reader_of w' = Some r" "BitReader_wf r" "\<not> ArIsError r" "\<not> ArForceByteSwapping r"
    "rbits r = header_bits n @ []"
    using reader_of_ok [OF appendedD(1) [OF w'(2)]] appendedD(2) [OF w'(2)] assms(4) by auto
  show ?thesis
    using w'(1) r(1) ReadHeader_front [OF assms(1) NotificationHeader_ctor_wf r(2-5)]
    by (auto simp: NotificationHeader_ctor_def SequenceHistory_Reset_def WordCount_def)
qed

text \<open>
  C30. The header one side writes into a buffer with room for it is read by the other side without
  an error, with the same sequence number, acknowledged number and number of history words, and
  with the words of the sender's history.
\<close>

theorem header_round_trip:
  assumes "notify_wf n" and "BitWriter_wf w" and "\<not> ArForceByteSwapping w" and "wbits w = []"
    and "32 + 32 * header_words n \<le> WMax w"
  shows "\<exists>n' w' r r'. WriteHeader n w False = Some (n', w', True) \<and> reader_of w' = Some r
    \<and> ReadHeader NotificationHeader_ctor r = Some (\<lparr>NHistory = take (header_words n) (InSeqHistory n)
          @ replicate (8 - header_words n) 0, HistoryWordCount = header_words n,
          NSeq = OutSeq n, NAckedSeq = InAckSeq n\<rparr>, r', True)
    \<and> rbits r' = []"
  using assms by (rule header_exchange)

theorem header_round_trip_witness:
  "\<exists>n' w' r r'. WriteHeader (Notify_Init NetPacketNotify_ctor (MkSeq 16383) (MkSeq 0)) (BitWriter_ctor 512 False) False
      = Some (n', w', True) \<and> reader_of w' = Some r
    \<and> ReadHeader NotificationHeader_ctor r
      = Some (\<lparr>NHistory = take (header_words (Notify_Init NetPacketNotify_ctor (MkSeq 16383) (MkSeq 0)))
            (InSeqHistory (Notify_Init NetPacketNotify_ctor (MkSeq 16383) (MkSeq 0)))
          @ replicate (8 - header_words (Notify_Init NetPacketNotify_ctor (MkSeq 16383) (MkSeq 0))) 0,
          HistoryWordCount = header_words (Notify_Init NetPacketNotify_ctor (MkSeq 16383) (MkSeq 0)),
          NSeq = OutSeq (Notify_Init NetPacketNotify_ctor (MkSeq 16383) (MkSeq 0)),
          NAckedSeq = InAckSeq (Notify_Init NetPacketNotify_ctor (MkSeq 16383) (MkSeq 0))\<rparr>, r', True)
    \<and> rbits r' = []"
  by (rule header_round_trip)
    (use header_words_bounds(2) [of "Notify_Init NetPacketNotify_ctor (MkSeq 16383) (MkSeq 0)"] in
      \<open>simp_all add: Notify_Init_wf BitWriter_ctor_wf\<close>)

section \<open>Moving along the sequence\<close>

definition seq_fwd :: "SequenceNumber \<Rightarrow> nat \<Rightarrow> SequenceNumber" where
  "seq_fwd s k = (seq_inc ^^ k) s"

lemma seq_fwd_0 [simp]: "seq_fwd s 0 = s"
  by (simp add: seq_fwd_def)

lemma seq_fwd_Suc: "seq_fwd s (Suc k) = seq_fwd (seq_inc s) k"
  by (simp add: seq_fwd_def funpow_swap1)

lemma seq_fwd_add: "seq_fwd (seq_fwd s j) k = seq_fwd s (j + k)"
  by (simp add: seq_fwd_def add.commute [of j] funpow_add)

lemma seq_fwd_wf [wf_intros, simp]: "seq_wf s \<Longrightarrow> seq_wf (seq_fwd s k)"
  by (cases k) (simp_all add: seq_fwd_def)

lemma sval_seq_fwd: "seq_wf s \<Longrightarrow> sval (seq_fwd s k) = (sval s + int k) mod 16384"
proof (induction k)
  case 0
  then show ?case by (simp add: seq_wf_def)
next
  case (Suc k)
  have "seq_fwd s (Suc k) = seq_inc (seq_fwd s k)"
    by (simp add: seq_fwd_def)
  with Suc show ?case
    by (simp add: sval_arith mod_add_left_eq mod_add_right_eq ac_simps)
qed

lemma seq_fwd_Diff:
  assumes "seq_wf s" and "k < 8192"
  shows "Diff (seq_fwd s k) s = int k" "seq_ge (seq_fwd s k) s" "seq_gt (seq_fwd s k) s \<longleftrightarrow> 0 < k"
  using Diff_step [of "int k" "seq_fwd s k" s] assms by (simp_all add: sval_seq_fwd)

lemma Diff_back:
  assumes "seq_wf s" and "k < 8192"
  shows "Diff s (seq_fwd s k) = - int k"
proof -
  have "(sval s + 8192 - (sval s + int k) mod 16384) mod 16384 = (sval s + 8192 - (sval s + int k)) mod 16384"
    by (rule mod_diff_right_eq)
  then have "(sval s - sval (seq_fwd s k) + 8192) mod 16384 = (8192 - int k) mod 16384"
    by (simp add: sval_seq_fwd [OF assms(1)] add.commute add_diff_eq)
  also have "\<dots> = 8192 - int k"
    using assms(2) by (simp add: mod_pos_pos_trivial)
  finally show ?thesis
    by (simp add: Diff_eq)
qed

lemma seq_fwd_of_gt:
  assumes "seq_wf A" "seq_wf B" "seq_gt A B"
  shows "0 < Diff A B" "Diff A B < 8192" "A = seq_fwd B (nat (Diff A B))"
proof -
  note d = Diff_offset_facts [OF assms(1,2)]
  show *: "0 < Diff A B" "Diff A B < 8192"
    using d assms(3) by auto
  show "A = seq_fwd B (nat (Diff A B))"
    using d(3) * assms(2) by (intro seq_eqI) (simp add: sval_seq_fwd)
qed

lemma Nak_loop_eq:
  "Nak_loop a hb cur = (map (\<lambda>k. (seq_fwd cur k, False)) [0..<a - hb], min a hb, seq_fwd cur (a - hb))"
proof (induction a hb cur rule: Nak_loop.induct)
  case (1 a hb cur)
  show ?case
  proof (cases "hb < a")
    case True
    then have s: "a - hb = Suc (a - 1 - hb)"
      by simp
    have "[0..<Suc m] = 0 # map Suc [0..<m]" for m
      by (simp add: map_Suc_upt upt_conv_Cons del: upt_Suc)
    then show ?thesis
      unfolding s using 1 True
      by (simp add: Nak_loop.simps [of a] seq_fwd_Suc Let_def comp_def min_def del: upt_Suc) linarith
  next
    case False
    then show ?thesis
      by (simp add: Nak_loop.simps [of a])
  qed
qed

lemma Ack_loop_eq:
  "hist_wf h \<Longrightarrow> a \<le> HistorySize \<Longrightarrow>
   Ack_loop a h cur = Some (map (\<lambda>k. (seq_fwd cur k, hist_bit h (a - 1 - k))) [0..<a])"
proof (induction a h cur rule: Ack_loop.induct)
  case (1 h cur)
  then show ?case by simp
next
  case (2 a h cur)
  have "[0..<Suc a] = 0 # map Suc [0..<a]"
    by (simp add: map_Suc_upt upt_conv_Cons del: upt_Suc)
  with 2 show ?case
    by (simp add: IsDelivered_eq HistorySize_def seq_fwd_Suc comp_def del: upt_Suc)
qed

text \<open>The calls of the functor an acknowledgement of \<open>c\<close> packets after \<open>s\<close> makes.\<close>

definition ack_events :: "SequenceNumber \<Rightarrow> nat \<Rightarrow> NotificationHeader \<Rightarrow> (SequenceNumber \<times> bool) list" where
  "ack_events s c d = map (\<lambda>k. (seq_fwd s (Suc k),
     c - 1 - k < HistoryWordCount d * BitsPerWord \<and> hist_bit (NHistory d) (c - 1 - k))) [0..<c]"

lemma loops_ack_events:
  assumes "hist_wf (NHistory d)" and "min c (HistoryWordCount d * BitsPerWord) \<le> HistorySize"
  shows "(let (naks, a, cur) = Nak_loop c (HistoryWordCount d * BitsPerWord) (seq_inc s)
          in map_option ((@) naks) (Ack_loop a (NHistory d) cur)) = Some (ack_events s c d)"
proof -
  let ?hb = "HistoryWordCount d * BitsPerWord"
  have "map (\<lambda>k. (seq_fwd (seq_inc s) k, False)) [0..<c - ?hb]
      @ map (\<lambda>k. (seq_fwd (seq_fwd (seq_inc s) (c - ?hb)) k, hist_bit (NHistory d) (min c ?hb - 1 - k))) [0..<min c ?hb]
      = ack_events s c d"
    unfolding ack_events_def
    by (rule nth_equalityI)
      (auto simp: nth_append seq_fwd_Suc seq_fwd_add min_def intro!: arg_cong [of _ _ "hist_bit (NHistory d)"])
  then show ?thesis
    using Ack_loop_eq [OF assms] by (simp add: Nak_loop_eq)
qed

section \<open>What an update reports\<close>

lemma ack_events_facts [simp]:
  "length (ack_events s c d) = c" "map fst (ack_events s c d) = map (\<lambda>k. seq_fwd s (Suc k)) [0..<c]"
  by (simp_all add: ack_events_def comp_def)

definition header_in_range :: "NetPacketNotify \<Rightarrow> NotificationHeader \<Rightarrow> bool" where
  "header_in_range n d \<longleftrightarrow>
     min (nat (Diff (NAckedSeq d) (OutAckSeq n))) (HistoryWordCount d * BitsPerWord) \<le> HistorySize"

lemma UpdateInAckSeqAck_ok:
  assumes "notify_wf n" and "0 < c" and "seq_wf A"
  shows "\<exists>rest s. UpdateInAckSeqAck n c A = Some (n\<lparr>AckRecord := rest\<rparr>, s) \<and> seq_wf s
    \<and> set rest \<subseteq> set (AckRecord n)"
proof (cases "c \<le> int (length (AckRecord n))")
  case True
  then have "nat (c - 1) < length (AckRecord n)"
    using assms(2) by linarith
  then obtain x rest where x: "drop (nat (c - 1)) (AckRecord n) = x # rest"
    by (metis Cons_nth_drop_Suc)
  then have "x \<in> set (AckRecord n)" "set rest \<subseteq> set (AckRecord n)"
    by (metis in_set_dropD list.set_intros(1), metis set_drop_subset set_subset_Cons subset_trans)
  with x True assms show ?thesis
    by (cases x) (auto simp: UpdateInAckSeqAck_def Let_def notify_wf_def)
next
  case False
  have "n\<lparr>AckRecord := AckRecord n\<rparr> = n"
    by simp
  with False show ?thesis
    by (intro exI [of _ "AckRecord n"]) (simp add: UpdateInAckSeqAck_def Let_def)
qed

lemma ProcessReceivedAcks_ok:
  assumes n: "notify_wf n" and d: "header_wf d" and rng: "header_in_range n d"
  shows "\<exists>n'. ProcessReceivedAcks n d
      = Some (n', if seq_gt (NAckedSeq d) (OutAckSeq n)
                  then ack_events (OutAckSeq n) (nat (Diff (NAckedSeq d) (OutAckSeq n))) d else [])
    \<and> notify_wf n' \<and> OutSeq n' = OutSeq n \<and> InSeq n' = InSeq n
    \<and> InSeqHistory n' = InSeqHistory n \<and> InAckSeq n' = InAckSeq n
    \<and> OutAckSeq n' = (if seq_gt (NAckedSeq d) (OutAckSeq n) then NAckedSeq d else OutAckSeq n)"
proof (cases "seq_gt (NAckedSeq d) (OutAckSeq n)")
  case False
  then show ?thesis
    using n by (auto simp: ProcessReceivedAcks_def)
next
  case True
  have wf: "seq_wf (NAckedSeq d)" "seq_wf (OutAckSeq n)" "hist_wf (NHistory d)"
    using n d by (auto simp: notify_wf_def header_wf_def)
  note pos = seq_fwd_of_gt(1) [OF wf(1,2) True]
  obtain rest s where u: "UpdateInAckSeqAck n (Diff (NAckedSeq d) (OutAckSeq n)) (NAckedSeq d)
      = Some (n\<lparr>AckRecord := rest\<rparr>, s)" "seq_wf s" "set rest \<subseteq> set (AckRecord n)"
    using UpdateInAckSeqAck_ok [OF n pos wf(1)] by blast
  obtain naks a cur where l: "Nak_loop (nat (Diff (NAckedSeq d) (OutAckSeq n)))
      (HistoryWordCount d * BitsPerWord) (seq_inc (OutAckSeq n)) = (naks, a, cur)"
    by (metis prod_cases3)
  obtain acks where a: "Ack_loop a (NHistory d) cur = Some acks"
    "naks @ acks = ack_events (OutAckSeq n) (nat (Diff (NAckedSeq d) (OutAckSeq n))) d"
    using loops_ack_events [OF wf(3), of "nat (Diff (NAckedSeq d) (OutAckSeq n))" "OutAckSeq n"] rng l
    by (auto simp: header_in_range_def)
  show ?thesis
    using True u l a n wf(1)
    by (auto simp: ProcessReceivedAcks_def notify_wf_def Let_def)
qed

lemma has_delivered_total:
  "hist_wf h \<Longrightarrow> It + k \<le> HistorySize \<Longrightarrow> has_delivered h It k = Some (\<exists>i. It \<le> i \<and> i < It + k \<and> hist_bit h i)"
proof (induction k arbitrary: It)
  case 0
  then show ?case by simp
next
  case (Suc k)
  have r: "It \<le> i \<and> i < It + Suc k \<longleftrightarrow> i = It \<or> (Suc It \<le> i \<and> i < Suc It + k)" for i
    by auto
  have "has_delivered h It (Suc k)
      = Some (hist_bit h It \<or> (\<exists>i. Suc It \<le> i \<and> i < Suc It + k \<and> hist_bit h i))"
    using Suc.IH [of "Suc It"] Suc.prems by (simp add: IsDelivered_eq)
  also have "(hist_bit h It \<or> (\<exists>i. Suc It \<le> i \<and> i < Suc It + k \<and> hist_bit h i))
      = (\<exists>i. (It \<le> i \<and> i < It + Suc k) \<and> hist_bit h i)"
    unfolding r by blast
  finally show ?case
    by (simp only: conj_assoc)
qed

lemma history_length_le: "GetCurrentSequenceHistoryLength n \<le> HistorySize"
  by (simp add: GetCurrentSequenceHistoryLength_def)

lemma GetHasUnacknowledgedAcks_total:
  "hist_wf (InSeqHistory n) \<Longrightarrow> GetHasUnacknowledgedAcks n
     = Some (\<exists>i<GetCurrentSequenceHistoryLength n. hist_bit (InSeqHistory n) i)"
  using has_delivered_total [of "InSeqHistory n" 0 "GetCurrentSequenceHistoryLength n"] history_length_le [of n]
  by (simp add: GetHasUnacknowledgedAcks_def)

lemma AckSeq_loop_wf:
  "seq_wf B \<Longrightarrow> hist_wf h \<Longrightarrow> seq_wf (fst (AckSeq_loop A b B h)) \<and> hist_wf (snd (AckSeq_loop A b B h))"
proof (induction A b B h rule: AckSeq_loop.induct)
  case (1 A b B h)
  then show ?case
    by (cases "seq_gt A B") (simp_all add: AckSeq_loop.simps [of A b B] Let_def)
qed

lemma AckSeq_gen_facts:
  "OutSeq (AckSeq_gen n s b) = OutSeq n" "OutAckSeq (AckSeq_gen n s b) = OutAckSeq n"
  "InSeq (AckSeq_gen n s b) = InSeq n" "InAckSeqAck (AckSeq_gen n s b) = InAckSeqAck n"
  "WaitingForFlushSeqAck (AckSeq_gen n s b) = WaitingForFlushSeqAck n"
  "notify_wf n \<Longrightarrow> notify_wf (AckSeq_gen n s b)"
  using AckSeq_loop_wf [of "InAckSeq n" "InSeqHistory n" s b]
  by (auto simp: AckSeq_gen_def notify_wf_def split: prod.split)

lemma InternalUpdate_ok:
  assumes n: "notify_wf n" and d: "header_wf d"
  shows "\<exists>n' delta. InternalUpdate n d c = Some (n', delta) \<and> notify_wf n' \<and> OutSeq n' = OutSeq n
    \<and> OutAckSeq n' = OutAckSeq n"
proof -
  define n1 where "n1 = (if \<not> IsWaitingForSequenceHistoryFlush n \<and> \<not> WillSequenceFitInSequenceHistory n (NSeq d)
      then if \<exists>i<GetCurrentSequenceHistoryLength n. hist_bit (InSeqHistory n) i
           then n\<lparr>WaitingForFlushSeqAck := OutSeq n\<rparr> else n\<lparr>InAckSeqAck := MkSeq (Get (NSeq d) - 1)\<rparr>
      else n)"
  have wf1: "notify_wf n1" "OutSeq n1 = OutSeq n" "OutAckSeq n1 = OutAckSeq n" "hist_wf (InSeqHistory n1)"
    using n d by (auto simp: n1_def notify_wf_def)
  have hw: "hist_wf (InSeqHistory n)"
    using n by (simp add: notify_wf_def)
  have step1: "(if \<not> IsWaitingForSequenceHistoryFlush n \<and> \<not> WillSequenceFitInSequenceHistory n (NSeq d)
          then do {
            unacked \<leftarrow> GetHasUnacknowledgedAcks n;
            if unacked then Some (n\<lparr>WaitingForFlushSeqAck := OutSeq n\<rparr>)
            else Some (n\<lparr>InAckSeqAck := MkSeq (Get (NSeq d) - 1)\<rparr>) }
          else Some n) = Some n1"
    unfolding n1_def GetHasUnacknowledgedAcks_total [OF hw] by auto
  have set1: "notify_wf (n1\<lparr>InSeq := s\<rparr>)" if "seq_wf s" for s
    using wf1(1) that by (simp add: notify_wf_def)
  show ?thesis
    unfolding InternalUpdate_def step1 bind_simps
    using wf1 set1 d AckSeq_gen_facts(6) [OF set1] GetHasUnacknowledgedAcks_total [OF wf1(4)]
    by (auto simp: header_wf_def AckSeq_gen_facts Let_def)
qed

lemma Notify_Update_ok:
  assumes n: "notify_wf n" and d: "header_wf d" and rng: "header_in_range n d"
  shows "\<exists>n' delta. Notify_Update n d = Some (n',
      if 0 < GetSequenceDelta n d \<and> seq_gt (NAckedSeq d) (OutAckSeq n)
      then ack_events (OutAckSeq n) (nat (Diff (NAckedSeq d) (OutAckSeq n))) d else [], delta)
    \<and> notify_wf n' \<and> OutSeq n' = OutSeq n
    \<and> OutAckSeq n' = (if 0 < GetSequenceDelta n d \<and> seq_gt (NAckedSeq d) (OutAckSeq n)
                      then NAckedSeq d else OutAckSeq n)"
proof (cases "0 < GetSequenceDelta n d")
  case False
  then show ?thesis
    using n by (auto simp: Notify_Update_def Let_def)
next
  case True
  obtain n1 where n1: "ProcessReceivedAcks n d
      = Some (n1, if seq_gt (NAckedSeq d) (OutAckSeq n)
                  then ack_events (OutAckSeq n) (nat (Diff (NAckedSeq d) (OutAckSeq n))) d else [])"
    "notify_wf n1" "OutSeq n1 = OutSeq n"
    "OutAckSeq n1 = (if seq_gt (NAckedSeq d) (OutAckSeq n) then NAckedSeq d else OutAckSeq n)"
    using ProcessReceivedAcks_ok [OF assms] by blast
  show ?thesis
    using True n1 InternalUpdate_ok [OF n1(2) d, of "GetSequenceDelta n d"]
    by (auto simp: Notify_Update_def Let_def)
qed

text \<open>
  C4. An update with a header that is new and acknowledges packets up to \<open>AckedSeq\<close> reports every
  packet after the last one acknowledged, once each, oldest first; a packet is reported delivered
  exactly when the header carries a history bit for it and that bit is set.
\<close>

theorem update_reports_each_packet:
  assumes "notify_wf n" and "header_wf d" and "header_in_range n d"
    and "0 < GetSequenceDelta n d" and "seq_gt (NAckedSeq d) (OutAckSeq n)"
  shows "\<exists>n' delta. Notify_Update n d = Some (n', map (\<lambda>k. (seq_fwd (OutAckSeq n) (Suc k),
        (let age = nat (Diff (NAckedSeq d) (OutAckSeq n)) - 1 - k
         in age < HistoryWordCount d * 32 \<and> IsDelivered (NHistory d) age = Some True)))
        [0..<nat (Diff (NAckedSeq d) (OutAckSeq n))], delta)
    \<and> OutAckSeq n' = NAckedSeq d \<and> seq_fwd (OutAckSeq n) (nat (Diff (NAckedSeq d) (OutAckSeq n))) = NAckedSeq d"
proof -
  let ?c = "nat (Diff (NAckedSeq d) (OutAckSeq n))"
  have wf: "seq_wf (NAckedSeq d)" "seq_wf (OutAckSeq n)" "hist_wf (NHistory d)"
    using assms(1,2) by (auto simp: notify_wf_def header_wf_def)
  have "ack_events (OutAckSeq n) ?c d = map (\<lambda>k. (seq_fwd (OutAckSeq n) (Suc k),
        (let age = ?c - 1 - k in age < HistoryWordCount d * 32 \<and> IsDelivered (NHistory d) age = Some True))) [0..<?c]"
    using assms(3) wf(3)
    by (auto simp: ack_events_def header_in_range_def IsDelivered_eq BitsPerWord_def min_def Let_def
        HistorySize_def split: if_splits)
  then show ?thesis
    using Notify_Update_ok [OF assms(1-3)] assms(4,5) seq_fwd_of_gt(3) [OF wf(1,2)] by auto
qed

text \<open>A header after the start of a connection: the peer has received packets 0, 1 and 3.\<close>

definition example_header :: NotificationHeader where
  "example_header = \<lparr>NHistory = foldl AddDeliveryStatus SequenceHistory_Reset [True, True, False, True],
     HistoryWordCount = 1, NSeq = MkSeq 0, NAckedSeq = MkSeq 3\<rparr>"

definition example_notify :: NetPacketNotify where
  "example_notify = (Notify_Init NetPacketNotify_ctor (MkSeq 16383) (MkSeq 0))\<lparr>OutSeq := MkSeq 5\<rparr>"

lemma foldl_Add_wf: "hist_wf (foldl AddDeliveryStatus SequenceHistory_Reset ds)"
  by (rule hist.adds_wf) simp

lemma example_OutAck: "OutAckSeq example_notify = MkSeq 16383"
  by (simp add: example_notify_def Notify_Init_def Let_def MkSeq_def SeqNumberMask_def)

lemma example_facts:
  "notify_wf example_notify" "header_wf example_header" "header_in_range example_notify example_header"
  "0 < GetSequenceDelta example_notify example_header"
  "seq_gt (NAckedSeq example_header) (OutAckSeq example_notify)"
proof -
  show "notify_wf example_notify"
    using Notify_Init_wf [of "MkSeq 16383" "MkSeq 0"] by (simp add: example_notify_def notify_wf_def)
  show "header_wf example_header"
    by (simp add: header_wf_def example_header_def foldl_Add_wf)
  show "header_in_range example_notify example_header"
    by (simp add: header_in_range_def example_header_def BitsPerWord_def HistorySize_def)
  have f: "InSeq example_notify = MkSeq 16383" "OutSeq example_notify = MkSeq 5"
    "NSeq example_header = MkSeq 0" "NAckedSeq example_header = MkSeq 3"
    by (simp_all add: example_notify_def example_header_def Notify_Init_def Let_def)
  show "0 < GetSequenceDelta example_notify example_header"
    "seq_gt (NAckedSeq example_header) (OutAckSeq example_notify)"
    by (simp_all add: GetSequenceDelta_def f example_OutAck seq_gt_iff seq_ge_iff Diff_eq sval_MkSeq)
qed

theorem update_reports_each_packet_witness:
  "\<exists>n' delta. Notify_Update example_notify example_header = Some (n', map (\<lambda>k. (seq_fwd (OutAckSeq example_notify) (Suc k),
        (let age = nat (Diff (NAckedSeq example_header) (OutAckSeq example_notify)) - 1 - k
         in age < HistoryWordCount example_header * 32 \<and> IsDelivered (NHistory example_header) age = Some True)))
        [0..<nat (Diff (NAckedSeq example_header) (OutAckSeq example_notify))], delta)
    \<and> OutAckSeq n' = NAckedSeq example_header
    \<and> seq_fwd (OutAckSeq example_notify) (nat (Diff (NAckedSeq example_header) (OutAckSeq example_notify)))
      = NAckedSeq example_header"
  by (rule update_reports_each_packet) (rule example_facts)+

text \<open>
  C39. A header that is late, duplicated, acknowledges a packet older than the last acknowledged
  one, or acknowledges a packet never sent changes nothing and reports nothing.
\<close>

theorem stale_header_ignored:
  assumes "notify_wf n" and "header_wf d"
    and "Diff (NSeq d) (InSeq n) \<le> 0 \<or> Diff (NAckedSeq d) (OutAckSeq n) < 0 \<or> Diff (OutSeq n) (NAckedSeq d) \<le> 0"
  shows "Notify_Update n d = Some (n, [], 0)"
proof -
  have wf: "seq_wf (NSeq d)" "seq_wf (InSeq n)" "seq_wf (NAckedSeq d)" "seq_wf (OutAckSeq n)" "seq_wf (OutSeq n)"
    using assms(1,2) by (auto simp: notify_wf_def header_wf_def)
  have "GetSequenceDelta n d = 0"
    using assms(3) Diff_offset_facts(4) [OF wf(1,2)] Diff_offset_facts(5) [OF wf(3,4)]
      Diff_offset_facts(4) [OF wf(5,3)] by (auto simp: GetSequenceDelta_def)
  then show ?thesis
    by (simp add: Notify_Update_def)
qed

theorem stale_header_ignored_witness:
  "Notify_Update (example_notify\<lparr>InSeq := MkSeq 4\<rparr>) example_header = Some (example_notify\<lparr>InSeq := MkSeq 4\<rparr>, [], 0)"
proof (rule stale_header_ignored)
  show "notify_wf (example_notify\<lparr>InSeq := MkSeq 4\<rparr>)"
    using example_facts(1) by (simp add: notify_wf_def)
  have "NSeq example_header = MkSeq 0"
    by (simp add: example_header_def)
  then show "Diff (NSeq example_header) (InSeq (example_notify\<lparr>InSeq := MkSeq 4\<rparr>)) \<le> 0
    \<or> Diff (NAckedSeq example_header) (OutAckSeq (example_notify\<lparr>InSeq := MkSeq 4\<rparr>)) < 0
    \<or> Diff (OutSeq (example_notify\<lparr>InSeq := MkSeq 4\<rparr>)) (NAckedSeq example_header) \<le> 0"
    by (simp add: Diff_eq sval_MkSeq)
qed (rule example_facts)

section \<open>The receiver's record and the sender's notifications\<close>

lemma AckSeq_loop_log:
  "seq_wf B \<Longrightarrow> 0 < k \<Longrightarrow> k < 8192 \<Longrightarrow>
   AckSeq_loop (seq_fwd B k) b B h = (seq_fwd B k, foldl AddDeliveryStatus h (replicate (k - 1) False @ [b]))"
proof (induction k arbitrary: B h)
  case 0
  then show ?case by simp
next
  case (Suc k)
  have gt: "seq_gt (seq_fwd B (Suc k)) B"
    using seq_fwd_Diff(3) [OF Suc.prems(1,3)] by simp
  show ?case
  proof (cases "k = 0")
    case True
    have "seq_fwd B (Suc 0) = seq_inc B"
      by (simp add: seq_fwd_def)
    then show ?thesis
      using True gt seq_fwd_Diff(3) [of "seq_inc B" 0]
      by (simp add: AckSeq_loop.simps [of _ _ B] AckSeq_loop.simps [of _ _ "seq_inc B"])
  next
    case False
    then obtain j where j: "k = Suc j"
      by (cases k) auto
    have step: "seq_fwd B (Suc k) = seq_fwd (seq_inc B) k"
      by (rule seq_fwd_Suc)
    have "seq_gt (seq_fwd (seq_inc B) k) (seq_inc B)"
      using seq_fwd_Diff(3) [of "seq_inc B" k] False Suc.prems(3) by simp
    then have "seq_inc B \<noteq> seq_fwd (seq_inc B) k"
      by (auto simp: seq_gt_def)
    then show ?thesis
      using gt Suc.IH [of "seq_inc B" "AddDeliveryStatus h False"] False Suc.prems(3) unfolding step
      by (subst AckSeq_loop.simps) (simp add: j)
  qed
qed

lemma AckSeq_gen_skip: "\<not> seq_gt s (InAckSeq n) \<Longrightarrow> AckSeq_gen n s c = n"
  unfolding AckSeq_gen_def by (subst AckSeq_loop.simps) simp

text \<open>
  \<open>records n init ds\<close>: since its number was \<open>init\<close>, the receiver decided the packets after it with
  the statuses \<open>ds\<close>, oldest first.
\<close>

definition records :: "NetPacketNotify \<Rightarrow> SequenceNumber \<Rightarrow> bool list \<Rightarrow> bool" where
  "records n init ds \<longleftrightarrow> InAckSeq n = seq_fwd init (length ds)
     \<and> InSeqHistory n = foldl AddDeliveryStatus SequenceHistory_Reset ds"

lemma records_Init: "records (Notify_Init n init s) init []"
  by (simp add: records_def Notify_Init_def Let_def)

text \<open>
  Acknowledging (or refusing) the packet \<open>k\<close> places after the last one decided records the
  packets in between as lost and that one with the status given; a packet already decided is not
  recorded again.
\<close>

theorem ack_records_status:
  assumes "records n init ds" and "seq_wf init" and "0 < k" and "k < 8192"
  shows "records (AckSeq_gen n (seq_fwd (InAckSeq n) k) b) init (ds @ replicate (k - 1) False @ [b])
    \<and> (\<forall>c j. j \<le> k \<longrightarrow> AckSeq_gen (AckSeq_gen n (seq_fwd (InAckSeq n) k) b) (seq_fwd (InAckSeq n) j) c
              = AckSeq_gen n (seq_fwd (InAckSeq n) k) b)"
proof -
  have wf: "seq_wf (InAckSeq n)"
    using assms(1,2) by (simp add: records_def)
  let ?n = "AckSeq_gen n (seq_fwd (InAckSeq n) k) b"
  have run: "?n = n\<lparr>InAckSeq := seq_fwd (InAckSeq n) k,
      InSeqHistory := foldl AddDeliveryStatus (InSeqHistory n) (replicate (k - 1) False @ [b])\<rparr>"
    by (simp only: AckSeq_gen_def AckSeq_loop_log [OF wf assms(3,4)] prod.case Let_def)
  have "records ?n init (ds @ replicate (k - 1) False @ [b])"
    using assms(1,3) unfolding run by (simp add: records_def seq_fwd_add)
  moreover have "AckSeq_gen ?n (seq_fwd (InAckSeq n) j) c = ?n" if "j \<le> k" for c j
  proof -
    obtain i where i: "k = j + i"
      using le_Suc_ex [OF \<open>j \<le> k\<close>] by blast
    then have "Diff (seq_fwd (InAckSeq n) j) (seq_fwd (InAckSeq n) k) \<le> 0"
      using wf assms(4) Diff_back [of "seq_fwd (InAckSeq n) j" i] by (simp add: seq_fwd_add)
    then have "\<not> seq_gt (seq_fwd (InAckSeq n) j) (InAckSeq ?n)"
      using Diff_offset_facts(4) [of "seq_fwd (InAckSeq n) j" "seq_fwd (InAckSeq n) k"] wf
      unfolding run by simp
    then show ?thesis
      by (rule AckSeq_gen_skip)
  qed
  ultimately show ?thesis
    by blast
qed

theorem ack_records_status_witness:
  "records (AckSeq_gen (Notify_Init NetPacketNotify_ctor (MkSeq 16383) (MkSeq 0))
       (seq_fwd (InAckSeq (Notify_Init NetPacketNotify_ctor (MkSeq 16383) (MkSeq 0))) 3) True)
     (MkSeq 16383) ([] @ replicate (3 - 1) False @ [True])"
  by (rule ack_records_status [OF records_Init, THEN conjunct1]) simp_all

text \<open>What a header with the numbers and the history of a receiver tells a sender.\<close>

lemma header_reports_statuses:
  assumes "notify_wf S" and "records R init ds" and "seq_wf init" and "header_wf d"
    and "NAckedSeq d = InAckSeq R" and "HistoryWordCount d \<le> 8"
    and "take (HistoryWordCount d) (NHistory d) = take (HistoryWordCount d) (InSeqHistory R)"
    and "OutAckSeq S = seq_fwd init j" and "j < length ds" and "length ds - j < 8192"
    and "0 < GetSequenceDelta S d"
  shows "\<exists>S' delta. Notify_Update S d = Some (S', map (\<lambda>i. (seq_fwd init (Suc i),
        length ds - 1 - i < 32 * HistoryWordCount d \<and> ds ! i)) [j..<length ds], delta)
    \<and> OutAckSeq S' = InAckSeq R"
proof -
  let ?c = "length ds - j"
  have rec: "InAckSeq R = seq_fwd init (length ds)" "InSeqHistory R = foldl AddDeliveryStatus SequenceHistory_Reset ds"
    using assms(2) by (auto simp: records_def)
  have acked: "NAckedSeq d = seq_fwd (OutAckSeq S) ?c"
    using assms(5,8,9) rec(1) by (simp add: seq_fwd_add)
  have wfO: "seq_wf (OutAckSeq S)"
    using assms(3,8) by simp
  note diff = seq_fwd_Diff(1,3) [OF wfO assms(10)]
  have gt: "seq_gt (NAckedSeq d) (OutAckSeq S)"
    using diff(2) assms(9) acked by simp
  have cnt: "nat (Diff (NAckedSeq d) (OutAckSeq S)) = ?c"
    using diff(1) acked by simp
  have rng: "header_in_range S d"
    using assms(6) by (simp add: header_in_range_def BitsPerWord_def HistorySize_def min_def)
  have status: "hist_bit (NHistory d) i = rev ds ! i" if "i < 32 * HistoryWordCount d" "i < length ds" for i
  proof -
    have word: "i div 32 < HistoryWordCount d" and i256: "i < HistorySize"
      using that assms(6) by (auto simp: div_less_iff_less_mult HistorySize_def)
    then have "NHistory d ! (i div 32) = InSeqHistory R ! (i div 32)"
      using assms(7) by (metis nth_take)
    then have "hist_bit (NHistory d) i = hist_bit (InSeqHistory R) i"
      by (simp add: hist_bit_def)
    also have "Some (hist_bit (InSeqHistory R) i) = IsDelivered (InSeqHistory R) i"
      using i256 unfolding rec(2) by (simp add: IsDelivered_eq foldl_Add_wf)
    then have "hist_bit (InSeqHistory R) i = rev ds ! i"
      using hist.status_adds [OF hist_wf_ops(1) i256 that(2)] unfolding rec(2) by simp
    finally show ?thesis .
  qed
  have "ack_events (OutAckSeq S) ?c d = map (\<lambda>i. (seq_fwd init (Suc i),
        length ds - 1 - i < 32 * HistoryWordCount d \<and> ds ! i)) [j..<length ds]"
  proof (rule nth_equalityI)
    fix k
    assume "k < length (ack_events (OutAckSeq S) ?c d)"
    then have k: "k < ?c"
      by simp
    have age: "?c - 1 - k = length ds - 1 - (j + k)" "length ds - 1 - (j + k) < length ds"
      using k by auto
    have "rev ds ! (length ds - 1 - (j + k)) = ds ! (j + k)"
      using k by (simp add: rev_nth)
    then show "ack_events (OutAckSeq S) ?c d ! k = map (\<lambda>i. (seq_fwd init (Suc i),
        length ds - 1 - i < 32 * HistoryWordCount d \<and> ds ! i)) [j..<length ds] ! k"
      using k status [OF _ age(2)] assms(8)
      unfolding ack_events_def age(1) by (auto simp: BitsPerWord_def seq_fwd_add mult.commute age(1))
  qed simp
  then show ?thesis
    using Notify_Update_ok [OF assms(1,4) rng] assms(5,11) gt cnt by auto
qed

section \<open>Runs\<close>

text \<open>
  The steps a connection makes with its \<open>NetPacketNotify\<close>, in any order: writing a header,
  committing a packet, receiving any header within range, acknowledging or refusing any packet.
  The list collects the notifications.
\<close>

inductive notify_run :: "NetPacketNotify \<Rightarrow> (SequenceNumber \<times> bool) list \<Rightarrow> NetPacketNotify \<Rightarrow> bool" where
  run_start: "notify_run n [] n"
| run_write: "notify_run n ev n1 \<Longrightarrow> WriteHeader n1 w r = Some (n2, w', ok) \<Longrightarrow> notify_run n ev n2"
| run_commit: "notify_run n ev n1 \<Longrightarrow> notify_run n ev (fst (CommitAndIncrementOutSeq n1))"
| run_receive: "notify_run n ev n1 \<Longrightarrow> header_wf d \<Longrightarrow> header_in_range n1 d \<Longrightarrow>
    Notify_Update n1 d = Some (n2, ev', delta) \<Longrightarrow> notify_run n (ev @ ev') n2"
| run_decide: "notify_run n ev n1 \<Longrightarrow> notify_run n ev (AckSeq_gen n1 s b)"

lemma WriteHeader_facts:
  assumes "WriteHeader n w r = Some (n', w', ok)"
  shows "OutAckSeq n' = OutAckSeq n" and "notify_wf n \<Longrightarrow> notify_wf n'"
  using assms by (auto simp: WriteHeader_def Let_def notify_wf_def split: if_splits bind_splits prod.splits)

lemma Commit_facts:
  "OutAckSeq (fst (CommitAndIncrementOutSeq n)) = OutAckSeq n"
  "notify_wf n \<Longrightarrow> notify_wf (fst (CommitAndIncrementOutSeq n))"
  by (auto simp: CommitAndIncrementOutSeq_def Let_def notify_wf_def)

lemma notify_run_invariant:
  "notify_run n ev n' \<Longrightarrow> notify_wf n \<Longrightarrow>
   notify_wf n' \<and> map fst ev = map (\<lambda>k. seq_fwd (OutAckSeq n) (Suc k)) [0..<length ev]
   \<and> OutAckSeq n' = seq_fwd (OutAckSeq n) (length ev)"
proof (induction rule: notify_run.induct)
  case (run_write n ev n1 w r n2 w' ok)
  then show ?case
    using WriteHeader_facts [OF run_write(2)] by simp
next
  case (run_receive n ev n1 d n2 ev' delta)
  then have IH: "notify_wf n1" "map fst ev = map (\<lambda>k. seq_fwd (OutAckSeq n) (Suc k)) [0..<length ev]"
    "OutAckSeq n1 = seq_fwd (OutAckSeq n) (length ev)"
    by auto
  let ?new = "0 < GetSequenceDelta n1 d \<and> seq_gt (NAckedSeq d) (OutAckSeq n1)"
  let ?c = "nat (Diff (NAckedSeq d) (OutAckSeq n1))"
  have upd: "ev' = (if ?new then ack_events (OutAckSeq n1) ?c d else [])" "notify_wf n2"
    "OutAckSeq n2 = (if ?new then NAckedSeq d else OutAckSeq n1)"
    using Notify_Update_ok [OF IH(1) run_receive(2,3)] run_receive(4) by auto
  show ?case
  proof (cases ?new)
    case True
    have wf: "seq_wf (NAckedSeq d)" "seq_wf (OutAckSeq n1)"
      using IH(1) run_receive(2) by (auto simp: notify_wf_def header_wf_def)
    have "map fst ev' = map (\<lambda>k. seq_fwd (OutAckSeq n) (Suc k)) [length ev..<length ev + ?c]"
      using True upd(1) IH(3) by (auto simp: seq_fwd_add intro!: nth_equalityI)
    moreover have "length ev' = ?c"
      using True upd(1) by simp
    moreover have "OutAckSeq n2 = seq_fwd (OutAckSeq n) (length ev + ?c)"
      using True upd(3) seq_fwd_of_gt(3) [OF wf] IH(3) by (simp add: seq_fwd_add)
    ultimately show ?thesis
      using IH(2) upd(2) upt_add_eq_append [of 0 "length ev" ?c] by simp
  next
    case False
    then show ?thesis
      using upd IH by auto
  qed
qed (simp_all add: Commit_facts AckSeq_gen_facts)

text \<open>
  C13. Over any run of a connection, in whatever order headers are written, packets committed and
  headers received, the packets reported are consecutive sequence numbers from the first one after
  the last acknowledged: no packet is reported twice, none is skipped, none out of order.
\<close>

theorem notifications_exactly_once:
  assumes "notify_wf n" and "notify_run n ev n'"
  shows "map fst ev = map (\<lambda>k. seq_fwd (OutAckSeq n) (Suc k)) [0..<length ev]
    \<and> OutAckSeq n' = seq_fwd (OutAckSeq n) (length ev)"
  using notify_run_invariant [OF assms(2,1)] by blast

theorem notifications_exactly_once_witness:
  "\<exists>n' ev. notify_run example_notify ev n' \<and> length ev = 4 \<and> map fst ev = map (\<lambda>k. seq_fwd (OutAckSeq example_notify) (Suc k)) [0..<length ev]
    \<and> OutAckSeq n' = seq_fwd (OutAckSeq example_notify) (length ev)"
proof -
  obtain n' delta where u: "Notify_Update example_notify example_header = Some (n',
      ack_events (OutAckSeq example_notify) (nat (Diff (NAckedSeq example_header) (OutAckSeq example_notify))) example_header, delta)"
    using Notify_Update_ok [OF example_facts(1-3)] example_facts(4,5) by auto
  have "Diff (NAckedSeq example_header) (OutAckSeq example_notify) = 4"
    by (simp add: example_header_def example_OutAck Diff_eq sval_MkSeq)
  then have len: "length ([] @ ack_events (OutAckSeq example_notify)
      (nat (Diff (NAckedSeq example_header) (OutAckSeq example_notify))) example_header) = 4"
    by simp
  have run: "notify_run example_notify ([] @ ack_events (OutAckSeq example_notify)
      (nat (Diff (NAckedSeq example_header) (OutAckSeq example_notify))) example_header) n'"
    by (rule notify_run.run_receive [OF notify_run.run_start example_facts(2,3) u])
  show ?thesis
    using run len notifications_exactly_once [OF example_facts(1) run] by blast
qed

section \<open>What a sender learns of its packets\<close>

text \<open>
  The receiving side: it decides packets one after the other, each a number of places after the last one
  decided, and in between writes headers, commits packets of its own and receives headers. The list
  collects the statuses of the packets after \<open>init\<close>, oldest first; a packet that was skipped is lost,
  and so are the packets that an update refuses while it waits for its history to be acknowledged.
\<close>

inductive receiver_run :: "SequenceNumber \<Rightarrow> NetPacketNotify \<Rightarrow> bool list \<Rightarrow> bool" for init where
  init: "seq_wf out \<Longrightarrow> receiver_run init (Notify_Init NetPacketNotify_ctor init out) []"
| ack: "receiver_run init n ds \<Longrightarrow> 0 < k \<Longrightarrow> k < 8192 \<Longrightarrow>
    receiver_run init (AckSeq n (seq_fwd (InAckSeq n) k)) (ds @ replicate (k - 1) False @ [True])"
| nak: "receiver_run init n ds \<Longrightarrow> 0 < k \<Longrightarrow> k < 8192 \<Longrightarrow>
    receiver_run init (NakSeq n (seq_fwd (InAckSeq n) k)) (ds @ replicate (k - 1) False @ [False])"
| sent: "receiver_run init n ds \<Longrightarrow> WriteHeader n w b = Some (n', w', ok) \<Longrightarrow> receiver_run init n' ds"
| committed: "receiver_run init n ds \<Longrightarrow> receiver_run init (fst (CommitAndIncrementOutSeq n)) ds"
| updated: "receiver_run init n ds \<Longrightarrow> header_wf d \<Longrightarrow> header_in_range n d \<Longrightarrow> Notify_Update n d = Some (n', ev, delta)
    \<Longrightarrow> receiver_run init n' (ds @ replicate (nat (Diff (InAckSeq n') (InAckSeq n))) False)"

lemma records_steps:
  "WriteHeader n w b = Some (n', w', ok) \<Longrightarrow> records n' init ds = records n init ds"
  "records (fst (CommitAndIncrementOutSeq n)) init ds = records n init ds"
  by (auto simp: WriteHeader_def CommitAndIncrementOutSeq_def records_def Let_def split: if_splits bind_splits prod.splits)

lemma bind_SomeE: "m \<bind> f = Some y \<Longrightarrow> (\<And>x. m = Some x \<Longrightarrow> f x = Some y \<Longrightarrow> thesis) \<Longrightarrow> thesis"
  by (auto simp: bind_eq_Some_conv)

lemma InternalUpdate_in:
  assumes "InternalUpdate n d c = Some (n', delta)" and "seq_wf (NSeq d)" and "seq_wf (InAckSeq n)"
  shows "\<exists>s. seq_wf s \<and> AckSeq_loop s False (InAckSeq n) (InSeqHistory n) = (InAckSeq n', InSeqHistory n')"
proof -
  have skip: "AckSeq_loop (InAckSeq n) False (InAckSeq n) (InSeqHistory n) = (InAckSeq n, InSeqHistory n)"
    by (subst AckSeq_loop.simps) (simp add: seq_gt_iff)
  show ?thesis
  proof (rule bind_SomeE [OF assms(1) [unfolded InternalUpdate_def]], goal_cases)
    case (1 n1)
    have n1: "InAckSeq n1 = InAckSeq n" "InSeqHistory n1 = InSeqHistory n"
      using 1(1) by (auto simp: bind_eq_Some_conv split: if_splits)
    have dropped: "\<exists>s. seq_wf s \<and> AckSeq_loop s False (InAckSeq n) (InSeqHistory n) = (InAckSeq m, InSeqHistory m)"
      if "seq_wf s" "m = AckSeq_gen (n1\<lparr>InSeq := s\<rparr>) s False" for m s
      using that n1 by (intro exI [of _ s]) (simp add: AckSeq_gen_def split: prod.split)
    show ?case
    proof (cases "IsWaitingForSequenceHistoryFlush n1")
      case False
      then have "n' = n1\<lparr>InSeq := NSeq d\<rparr>"
        using 1(2) by simp
      with n1 skip assms(3) show ?thesis by auto
    next
      case True
      then have "(if \<not> WillSequenceFitInSequenceHistory n1 (NSeq d) then GetHasUnacknowledgedAcks n1 else Some False)
        \<bind> (\<lambda>u. let s = if u then MkSeq (Get (InAckSeqAck n1) + word_of_nat (256 - GetCurrentSequenceHistoryLength n1)) else NSeq d
          in if seq_ge s (InSeq n1) then Some (AckSeq_gen (n1\<lparr>InSeq := s\<rparr>) s False, Diff s (InSeq n1)) else Some (n1, 0)) = Some (n', delta)"
        using 1(2) by (simp only: Let_def not_True_eq_False if_False)
      then show ?thesis
      proof (rule bind_SomeE, goal_cases)
        case (1 u)
        then show ?case
          using dropped [of "if u then MkSeq (Get (InAckSeqAck n1) + word_of_nat (256 - GetCurrentSequenceHistoryLength n1)) else NSeq d" n'] assms(2,3) n1 skip by (auto simp: Let_def split: if_splits)
      qed
    qed
  qed
qed

lemma ProcessReceivedAcks_in:
  assumes "ProcessReceivedAcks n d = Some (n', ev)"
  shows "InAckSeq n' = InAckSeq n \<and> InSeqHistory n' = InSeqHistory n"
proof (cases "seq_gt (NAckedSeq d) (OutAckSeq n)")
  case True
  have step: "InAckSeq m = InAckSeq n \<and> InSeqHistory m = InSeqHistory n" if "UpdateInAckSeqAck n k s = Some (m, s')" for k s m s'
    using that by (auto simp: UpdateInAckSeqAck_def Let_def split: if_splits list.splits)
  show ?thesis
  proof (rule bind_SomeE [OF assms [unfolded ProcessReceivedAcks_def Let_def Nak_loop_eq if_P [OF True]]], goal_cases)
    case (1 x)
    obtain m s' where x: "x = (m, s')"
      by force
    note m = step [OF 1(1) [unfolded x]]
    show ?case
    proof (rule bind_SomeE [OF 1(2) [unfolded x prod.case]], goal_cases)
      case (1 acks)
      with m show ?case
        by (auto split: if_splits)
    qed
  qed
qed (use assms in \<open>simp add: ProcessReceivedAcks_def\<close>)

text \<open>What an update records: nothing, or losses up to some packet.\<close>

lemma Notify_Update_records:
  assumes "Notify_Update n d = Some (n', ev, delta)" and "seq_wf (NSeq d)" and "records n init ds" and "seq_wf init"
  shows "records n' init (ds @ replicate (nat (Diff (InAckSeq n') (InAckSeq n))) False)"
proof (cases "0 < GetSequenceDelta n d")
  case False
  have "Diff (InAckSeq n) (InAckSeq n) = 0"
    by (simp add: Diff_eq)
  with False assms show ?thesis
    by (simp add: Notify_Update_def)
next
  case True
  let ?B = "InAckSeq n"
  have wf: "seq_wf ?B"
    using assms(3,4) by (simp add: records_def)
  obtain m where m: "InAckSeq m = ?B" "InSeqHistory m = InSeqHistory n" "InternalUpdate m d (GetSequenceDelta n d) = Some (n', delta)"
    using assms(1) True by (auto simp: Notify_Update_def bind_eq_Some_conv dest: ProcessReceivedAcks_in)
  obtain s where s: "seq_wf s" "AckSeq_loop s False ?B (InSeqHistory n) = (InAckSeq n', InSeqHistory n')"
    using InternalUpdate_in [OF m(3) assms(2)] wf unfolding m(1,2) by blast
  show ?thesis
  proof (cases "seq_gt s ?B")
    case True
    define k where "k = nat (Diff s ?B)"
    have k: "0 < k" "k < 8192" "s = seq_fwd ?B k"
      using seq_fwd_of_gt [OF s(1) wf True] by (simp_all add: k_def)
    have "replicate (k - 1) False @ [False] = replicate k False"
      using k(1) by (simp add: replicate_append_same flip: replicate_Suc)
    then have "InAckSeq n' = seq_fwd ?B k" "InSeqHistory n' = foldl AddDeliveryStatus (InSeqHistory n) (replicate k False)"
      using s(2) AckSeq_loop_log [OF wf k(1,2), of False "InSeqHistory n"] unfolding k(3) by simp_all
    with assms(3) seq_fwd_Diff(1) [OF wf k(2)] show ?thesis
      by (simp add: records_def seq_fwd_add)
  next
    case False
    then have "InAckSeq n' = ?B" "InSeqHistory n' = InSeqHistory n"
      using s(2) by (simp_all add: AckSeq_loop.simps [of s])
    with assms(3) show ?thesis
      by (simp add: records_def Diff_eq)
  qed
qed

lemma receiver_run_records:
  "receiver_run init n ds \<Longrightarrow> seq_wf init \<Longrightarrow> notify_wf n \<and> records n init ds"
proof (induction rule: receiver_run.induct)
  case (init out)
  then show ?case
    by (simp add: records_Init Notify_Init_wf)
next
  case (ack n ds k)
  then show ?case
    using ack_records_status [of n init ds k True] by (simp add: AckSeq_def AckSeq_gen_facts)
next
  case (nak n ds k)
  then show ?case
    using ack_records_status [of n init ds k False] by (simp add: NakSeq_def AckSeq_gen_facts)
next
  case (sent n ds w b n' w' ok)
  then show ?case
    using WriteHeader_facts [OF sent.hyps(2)] records_steps(1) [OF sent.hyps(2)] by simp
next
  case (committed n ds)
  then show ?case
    by (simp add: Commit_facts records_steps(2))
next
  case (updated n ds d n' ev delta)
  then show ?case
    using Notify_Update_ok [of n d] Notify_Update_records [OF updated.hyps(4)] by (auto simp: header_wf_def)
qed

lemma header_words_cover: "GetCurrentSequenceHistoryLength n \<le> 32 * header_words n"
proof -
  have "GetCurrentSequenceHistoryLength n \<le> 256"
    by (simp add: GetCurrentSequenceHistoryLength_def HistorySize_def)
  then show ?thesis
    by (auto simp: header_words_def BitsPerWord_def WordCount_def min_def max_def)
qed


text \<open>The receiver gets the first, second and fourth packet after 16383; the third is lost.\<close>

definition next_packet :: "NetPacketNotify \<Rightarrow> nat \<Rightarrow> NetPacketNotify" where
  "next_packet n k = AckSeq n (seq_fwd (InAckSeq n) k)"

definition example_receiver :: NetPacketNotify where
  "example_receiver = next_packet (next_packet (next_packet (Notify_Init NetPacketNotify_ctor (MkSeq 16383) (MkSeq 0)) 1) 1) 2"

lemma example_receiver_run: "receiver_run (MkSeq 16383) example_receiver [True, True, False, True]"
proof -
  let ?n = "Notify_Init NetPacketNotify_ctor (MkSeq 16383) (MkSeq 0)"
  have "receiver_run (MkSeq 16383) ?n []"
    by (rule receiver_run.init) simp
  note 1 = receiver_run.ack [OF this, of 1, folded next_packet_def]
  note 2 = receiver_run.ack [OF 1, of 1, folded next_packet_def]
  note 3 = receiver_run.ack [OF 2, of 2, folded next_packet_def]
  from 3 show ?thesis
    by (simp add: example_receiver_def)
qed


text \<open>
  A header may announce up to 16 words of history while only 8 are kept: when it also
  acknowledges more than 256 packets at once, the update reads the history out of its bounds.
\<close>

theorem update_reads_beyond_history:
  assumes "notify_wf n" and "header_wf d" and "9 \<le> HistoryWordCount d"
    and "0 < GetSequenceDelta n d" and "256 < Diff (NAckedSeq d) (OutAckSeq n)"
  shows "Notify_Update n d = None"
proof -
  have wf: "seq_wf (NAckedSeq d)" "seq_wf (OutAckSeq n)" "hist_wf (NHistory d)"
    using assms(1,2) by (auto simp: notify_wf_def header_wf_def)
  have gt: "seq_gt (NAckedSeq d) (OutAckSeq n)"
    using assms(5) Diff_offset_facts(4) [OF wf(1,2)] by simp
  let ?a = "min (nat (Diff (NAckedSeq d) (OutAckSeq n))) (HistoryWordCount d * BitsPerWord)"
  have "256 < ?a"
    using assms(3,5) by (simp add: BitsPerWord_def)
  then obtain m where m: "?a = Suc m" "HistorySize \<le> m"
    by (cases ?a) (auto simp: HistorySize_def)
  have "Ack_loop (Suc m) (NHistory d) cur = None" for cur
    using m(2) wf(3) by (simp add: IsDelivered_eq)
  then have "\<And>cur. Ack_loop ?a (NHistory d) cur = None"
    unfolding m(1) .
  moreover obtain rest s where "UpdateInAckSeqAck n (Diff (NAckedSeq d) (OutAckSeq n)) (NAckedSeq d)
      = Some (n\<lparr>AckRecord := rest\<rparr>, s)"
    using UpdateInAckSeqAck_ok [OF assms(1) _ wf(1), of "Diff (NAckedSeq d) (OutAckSeq n)"] assms(5) by force
  ultimately show ?thesis
    using assms(4) gt by (simp add: Notify_Update_def ProcessReceivedAcks_def Nak_loop_eq Let_def)
qed

definition example_far_notify :: NetPacketNotify where
  "example_far_notify = example_notify\<lparr>OutSeq := MkSeq 400\<rparr>"

definition example_far_header :: NotificationHeader where
  "example_far_header = example_header\<lparr>NAckedSeq := MkSeq 300, HistoryWordCount := 16\<rparr>"

theorem update_reads_beyond_history_witness:
  "Notify_Update example_far_notify example_far_header = None"
proof (rule update_reads_beyond_history)
  have f: "OutAckSeq example_far_notify = MkSeq 16383" "InSeq example_far_notify = MkSeq 16383"
    "OutSeq example_far_notify = MkSeq 400" "NSeq example_far_header = MkSeq 0"
    "NAckedSeq example_far_header = MkSeq 300"
    using example_OutAck by (simp_all add: example_far_notify_def example_far_header_def example_notify_def
        example_header_def Notify_Init_def Let_def)
  show "0 < GetSequenceDelta example_far_notify example_far_header"
    "256 < Diff (NAckedSeq example_far_header) (OutAckSeq example_far_notify)"
    by (simp_all add: GetSequenceDelta_def f seq_gt_iff seq_ge_iff Diff_eq sval_MkSeq)
  show "notify_wf example_far_notify"
    using example_facts(1) by (simp add: example_far_notify_def notify_wf_def)
  show "header_wf example_far_header"
    using example_facts(2) by (simp add: example_far_header_def header_wf_def)
qed (simp add: example_far_header_def)

end
