(* ===== verification/Rtt.thy ===== *)
theory Rtt
  imports Prelude
begin

text \<open>
  Network, \<open>connection/RttTracker\<close>: round trip times. Packets in flight wait in a queue in the
  order they were sent; an acknowledgement turns the time of one into a sample in a ring of 2048;
  the statistics are taken over the samples of the last ten seconds. The percentile index
  \<open>static_cast<size_t>(p * (Count - 1))\<close> is computed in \<open>double\<close>; for every count up to 2048 and the
  three percentiles used it is the quotient written here. \<open>std::nth_element\<close> leaves at its position
  the element a sort would leave there.
\<close>

definition kRingSize :: nat where "kRingSize = 2048"
definition kMaxSampleAgeUs :: u64 where "kMaxSampleAgeUs = 10000000"
definition kMaxPending :: nat where "kMaxPending = kRingSize * 4"

record PendingSample =
  PacketId :: int
  SendTimeUs :: u64

record RttTracker =
  Pending :: "PendingSample list"
  SamplesUs :: "u32 list"
  SampleTimesUs :: "u64 list"
  WriteIndex :: nat
  SampleCount :: nat

record RttStats =
  P50Us :: u32
  P95Us :: u32
  P99Us :: u32
  MinUs :: u32
  MaxUs :: u32
  StatsCount :: nat

definition RttTracker_ctor :: RttTracker where
  "RttTracker_ctor = \<lparr>Pending = [], SamplesUs = replicate kRingSize 0,
     SampleTimesUs = replicate kRingSize 0, WriteIndex = 0, SampleCount = 0\<rparr>"

definition RecordSend :: "RttTracker \<Rightarrow> int \<Rightarrow> u64 \<Rightarrow> RttTracker" where
  "RecordSend t PId Time =
     (let q = Pending t @ [\<lparr>PacketId = PId, SendTimeUs = Time\<rparr>]
      in t\<lparr>Pending := (if kMaxPending < length q then tl q else q)\<rparr>)"

definition drop_older :: "int \<Rightarrow> PendingSample list \<Rightarrow> PendingSample list" where
  "drop_older Mark q = dropWhile (\<lambda>s. PacketId s < Mark) q"

definition ConsumeAcked :: "RttTracker \<Rightarrow> int \<Rightarrow> u64 \<Rightarrow> (RttTracker \<times> u32 option) option" where
  "ConsumeAcked t Mark NowUs =
     (let t = t\<lparr>Pending := drop_older Mark (Pending t)\<rparr>
      in case Pending t of
           [] \<Rightarrow> Some (t, None)
         | s # q \<Rightarrow>
             if PacketId s \<noteq> Mark then Some (t, None)
             else (let t = t\<lparr>Pending := q\<rparr>
                   in if NowUs < SendTimeUs s then Some (t, None)
                      else do {
                        let RttUs64 = NowUs - SendTimeUs s;
                        let RttUs = (ucast (min RttUs64 0xFFFFFFFF) :: u32);
                        Samples \<leftarrow> wr (SamplesUs t) (WriteIndex t) RttUs;
                        Times \<leftarrow> wr (SampleTimesUs t) (WriteIndex t) NowUs;
                        Some (t\<lparr>SamplesUs := Samples, SampleTimesUs := Times,
                                WriteIndex := (WriteIndex t + 1) mod kRingSize,
                                SampleCount := min (SampleCount t + 1) kRingSize\<rparr>, Some RttUs) }))"

definition ConsumeNacked :: "RttTracker \<Rightarrow> int \<Rightarrow> RttTracker" where
  "ConsumeNacked t Mark =
     (let q = drop_older Mark (Pending t)
      in t\<lparr>Pending := (case q of [] \<Rightarrow> q | s # rest \<Rightarrow> if PacketId s = Mark then rest else q)\<rparr>)"

definition fresh_samples :: "RttTracker \<Rightarrow> u64 \<Rightarrow> u32 list" where
  "fresh_samples t NowUs = [SamplesUs t ! i. i \<leftarrow> [0..<SampleCount t],
     (if SampleTimesUs t ! i \<le> NowUs then NowUs - SampleTimesUs t ! i else 0) \<le> kMaxSampleAgeUs]"

definition NthPercentile :: "nat \<Rightarrow> u32 list \<Rightarrow> u32" where
  "NthPercentile Percent xs =
     (let Count = length xs; Index = Percent * (Count - 1) div 100;
          Index = (if Count \<le> Index then Count - 1 else Index)
      in sort xs ! Index)"

definition ComputeStats :: "RttTracker \<Rightarrow> u64 \<Rightarrow> RttStats" where
  "ComputeStats t NowUs =
     (let Result = \<lparr>P50Us = 0, P95Us = 0, P99Us = 0, MinUs = 0, MaxUs = 0, StatsCount = 0\<rparr>;
          Copy = fresh_samples t NowUs
      in if SampleCount t = 0 then Result
         else if length Copy = 0 then Result
         else \<lparr>P50Us = NthPercentile 50 Copy, P95Us = NthPercentile 95 Copy,
               P99Us = NthPercentile 99 Copy, MinUs = Min (set Copy), MaxUs = Max (set Copy),
               StatsCount = length Copy\<rparr>)"

section \<open>Well-formedness\<close>

definition tracker_wf :: "RttTracker \<Rightarrow> bool" where
  "tracker_wf t \<longleftrightarrow> length (SamplesUs t) = kRingSize \<and> length (SampleTimesUs t) = kRingSize
     \<and> WriteIndex t < kRingSize \<and> SampleCount t \<le> kRingSize \<and> length (Pending t) \<le> kMaxPending
     \<and> (SampleCount t < kRingSize \<longrightarrow> WriteIndex t = SampleCount t)"

lemma tracker_ctor_wf [wf_intros]: "tracker_wf RttTracker_ctor"
  by (simp add: tracker_wf_def RttTracker_ctor_def kRingSize_def)

lemma drop_older_length: "length (drop_older m q) \<le> length q"
  by (simp add: drop_older_def length_dropWhile_le)

lemma RecordSend_wf [wf_intros]: "tracker_wf t \<Longrightarrow> tracker_wf (RecordSend t i s)"
  by (auto simp: tracker_wf_def RecordSend_def Let_def)

lemma ConsumeNacked_wf [wf_intros]: "tracker_wf t \<Longrightarrow> tracker_wf (ConsumeNacked t m)"
  using drop_older_length [of m "Pending t"]
  by (auto simp: tracker_wf_def ConsumeNacked_def Let_def split: list.split)

lemma ConsumeAcked_wf [wf_intros]:
  assumes "tracker_wf t"
  shows "\<exists>t' o'. ConsumeAcked t m now = Some (t', o') \<and> tracker_wf t'"
proof -
  have q: "length (drop_older m (Pending t)) \<le> kMaxPending"
    using assms drop_older_length [of m "Pending t"] by (simp add: tracker_wf_def)
  have ring: "WriteIndex t < kRingSize" "0 < kRingSize"
    using assms by (auto simp: tracker_wf_def kRingSize_def)
  have step: "min (SampleCount t + 1) kRingSize < kRingSize \<Longrightarrow>
      (WriteIndex t + 1) mod kRingSize = min (SampleCount t + 1) kRingSize"
    using assms by (auto simp: tracker_wf_def min_def split: if_splits)
  show ?thesis
    using assms q ring step
    by (auto simp: ConsumeAcked_def tracker_wf_def Let_def split: list.split)
qed

section \<open>Matching acknowledgements to packets\<close>

lemma sorted_wrt_filter_map: "sorted_wrt (<) (map f q) \<Longrightarrow> sorted_wrt (<) (map f (filter P q))"
  by (induction q) auto

lemma drop_older_cases:
  assumes "sorted_wrt (<) (map PacketId q)"
  shows "case drop_older m q of
      [] \<Rightarrow> filter (\<lambda>p. m < PacketId p) q = [] \<and> (\<forall>p\<in>set q. PacketId p < m)
    | p # rest \<Rightarrow> if PacketId p = m
        then filter (\<lambda>p. m < PacketId p) q = rest \<and> p \<in> set q \<and> (\<forall>r\<in>set q. PacketId r = m \<longrightarrow> r = p)
        else filter (\<lambda>p. m < PacketId p) q = p # rest \<and> (\<forall>r\<in>set q. PacketId r \<noteq> m)"
  using assms
proof (induction q)
  case Nil
  then show ?case by (simp add: drop_older_def)
next
  case (Cons x q)
  show ?case
  proof (cases "PacketId x < m")
    case True
    then have "drop_older m (x # q) = drop_older m q"
      by (simp add: drop_older_def)
    with Cons True show ?thesis
      by (auto split: list.splits if_splits)
  next
    case False
    then have d: "drop_older m (x # q) = x # q"
      by (simp add: drop_older_def)
    have later: "\<forall>r\<in>set q. PacketId x < PacketId r"
      using Cons.prems by auto
    then have "\<forall>r\<in>set q. m < PacketId r"
      using False by force
    then have "filter (\<lambda>p. m < PacketId p) q = q"
      by (simp add: filter_id_conv)
    with False later show ?thesis
      unfolding d by force
  qed
qed

text \<open>
  C32. While packets are recorded in increasing order of their number, acknowledging the packet
  \<open>Mark\<close> drops every packet up to it from the queue and no other; when it was recorded at time \<open>s\<close>
  not later than now it yields the sample \<open>now - s\<close> (capped at 32 bits), and otherwise no sample.
\<close>

theorem ack_matches_its_packet:
  assumes "tracker_wf t" and "sorted_wrt (<) (map PacketId (Pending t))"
  shows "\<exists>t' smp. ConsumeAcked t Mark now = Some (t', smp)
    \<and> Pending t' = filter (\<lambda>p. Mark < PacketId p) (Pending t)
    \<and> (\<forall>r. smp = Some r \<longleftrightarrow> (\<exists>p\<in>set (Pending t). PacketId p = Mark \<and> SendTimeUs p \<le> now
          \<and> r = ucast (min (now - SendTimeUs p) 0xFFFFFFFF)))
    \<and> sorted_wrt (<) (map PacketId (Pending t'))"
proof -
  note c = drop_older_cases [OF assms(2), of Mark]
  have ring: "WriteIndex t < length (SamplesUs t)" "WriteIndex t < length (SampleTimesUs t)"
    using assms(1) by (auto simp: tracker_wf_def)
  have tail: "sorted_wrt (<) (map PacketId (filter (\<lambda>p. Mark < PacketId p) (Pending t)))"
    by (rule sorted_wrt_filter_map [OF assms(2)])
  show ?thesis
  proof (cases "drop_older Mark (Pending t)")
    case Nil
    with c tail show ?thesis
      by (auto simp: ConsumeAcked_def Let_def)
  next
    case (Cons p rest)
    show ?thesis
    proof (cases "PacketId p = Mark")
      case True
      then have f: "filter (\<lambda>p. Mark < PacketId p) (Pending t) = rest" "p \<in> set (Pending t)"
        "\<And>r. r \<in> set (Pending t) \<Longrightarrow> PacketId r = Mark \<Longrightarrow> r = p"
        using c Cons by auto
      have ex: "(\<exists>r\<in>set (Pending t). PacketId r = Mark \<and> P r) \<longleftrightarrow> P p" for P
        using f(2,3) True by blast
      obtain t' smp where run: "ConsumeAcked t Mark now = Some (t', smp)" "Pending t' = rest"
        "smp = (if now < SendTimeUs p then None else Some (ucast (min (now - SendTimeUs p) 0xFFFFFFFF)))"
        using True Cons ring by (cases "now < SendTimeUs p") (simp_all add: ConsumeAcked_def Let_def)
      have "smp = Some r \<longleftrightarrow> (\<exists>p\<in>set (Pending t). PacketId p = Mark \<and> SendTimeUs p \<le> now
          \<and> r = ucast (min (now - SendTimeUs p) 0xFFFFFFFF))" for r
        unfolding ex run(3) by (auto simp: not_less)
      with run(1,2) f(1) tail show ?thesis
        by auto
    next
      case False
      then show ?thesis
        using c Cons tail by (auto simp: ConsumeAcked_def Let_def)
    qed
  qed
qed

definition example_tracker :: RttTracker where
  "example_tracker = RecordSend (RecordSend (RecordSend RttTracker_ctor 7 100) 8 250) 9 300"

lemma example_tracker_Pending:
  "Pending example_tracker = [\<lparr>PacketId = 7, SendTimeUs = 100\<rparr>, \<lparr>PacketId = 8, SendTimeUs = 250\<rparr>,
     \<lparr>PacketId = 9, SendTimeUs = 300\<rparr>]"
  by (simp add: example_tracker_def RecordSend_def RttTracker_ctor_def kMaxPending_def kRingSize_def)

theorem ack_matches_its_packet_witness:
  "\<exists>t' smp. ConsumeAcked example_tracker 8 900 = Some (t', smp)
    \<and> Pending t' = filter (\<lambda>p. 8 < PacketId p) (Pending example_tracker)
    \<and> (\<forall>r. smp = Some r \<longleftrightarrow> (\<exists>p\<in>set (Pending example_tracker). PacketId p = 8 \<and> SendTimeUs p \<le> 900
          \<and> r = ucast (min (900 - SendTimeUs p) 0xFFFFFFFF)))
    \<and> sorted_wrt (<) (map PacketId (Pending t'))"
proof (rule ack_matches_its_packet)
  show "tracker_wf example_tracker"
    unfolding example_tracker_def by (intro wf_intros)
  show "sorted_wrt (<) (map PacketId (Pending example_tracker))"
    by (simp add: example_tracker_Pending)
qed

section \<open>The statistics\<close>

lemma NthPercentile_nth:
  assumes "xs \<noteq> []" and "p \<le> 100"
  shows "p * (length xs - 1) div 100 < length xs"
    and "NthPercentile p xs = sort xs ! (p * (length xs - 1) div 100)"
proof -
  have "p * (length xs - 1) \<le> 100 * (length xs - 1)"
    using assms(2) by simp
  then have "p * (length xs - 1) div 100 \<le> length xs - 1"
    by linarith
  moreover have "0 < length xs"
    using assms(1) by simp
  ultimately show i: "p * (length xs - 1) div 100 < length xs"
    by linarith
  then show "NthPercentile p xs = sort xs ! (p * (length xs - 1) div 100)"
    by (simp add: NthPercentile_def Let_def)
qed

lemma NthPercentile_mono:
  assumes "xs \<noteq> []" and "p \<le> q" and "q \<le> 100"
  shows "NthPercentile p xs \<le> NthPercentile q xs"
proof -
  have "p * (length xs - 1) div 100 \<le> q * (length xs - 1) div 100"
    using assms(2) by (intro div_le_mono mult_le_mono) auto
  then show ?thesis
    using assms NthPercentile_nth [of xs p] NthPercentile_nth [of xs q]
    by (simp add: sorted_nth_mono)
qed

lemma NthPercentile_in: "xs \<noteq> [] \<Longrightarrow> p \<le> 100 \<Longrightarrow> NthPercentile p xs \<in> set xs"
  using NthPercentile_nth [of xs p] nth_mem [of "p * (length xs - 1) div 100" "sort xs"] by simp

text \<open>How many samples lie at or below a percentile.\<close>

lemma percentile_count:
  assumes "xs \<noteq> []" and "p \<le> 100"
  shows "p * (length xs - 1) div 100 < length (filter (\<lambda>x. x \<le> NthPercentile p xs) xs)"
proof -
  let ?i = "p * (length xs - 1) div 100" and ?ys = "sort xs"
  note nth = NthPercentile_nth [OF assms]
  have "set (take (Suc ?i) ?ys) \<subseteq> {x. x \<le> ?ys ! ?i}"
    using nth(1) by (auto simp: in_set_conv_nth sorted_nth_mono)
  then have "filter (\<lambda>x. x \<le> ?ys ! ?i) (take (Suc ?i) ?ys) = take (Suc ?i) ?ys"
    by (auto simp: filter_id_conv)
  moreover have "length (filter (\<lambda>x. x \<le> ?ys ! ?i) (take (Suc ?i) ?ys)) \<le> length (filter (\<lambda>x. x \<le> ?ys ! ?i) ?ys)"
    by (metis append_take_drop_id filter_append le_add1 length_append)
  moreover have "length (filter P ?ys) = length (filter P xs)" for P
    by (simp add: filter_sort)
  ultimately show ?thesis
    using nth by simp
qed

text \<open>
  Over the samples not older than ten seconds the statistics are ordered
  (minimum, median, 95th, 99th percentile, maximum), each is one of those samples, more than a
  \<open>p\<close> hundredth of the other samples lie at or below the \<open>p\<close>-th percentile, and with no such sample all are zero.
\<close>

theorem statistics_ordered:
  shows "(let s = ComputeStats t now; xs = fresh_samples t now
    in StatsCount s = length xs
     \<and> (if xs = [] then MinUs s = 0 \<and> P50Us s = 0 \<and> P95Us s = 0 \<and> P99Us s = 0 \<and> MaxUs s = 0
        else MinUs s \<le> P50Us s \<and> P50Us s \<le> P95Us s \<and> P95Us s \<le> P99Us s \<and> P99Us s \<le> MaxUs s
          \<and> {MinUs s, P50Us s, P95Us s, P99Us s, MaxUs s} \<subseteq> set xs
          \<and> 95 * (length xs - 1) div 100 < length (filter (\<lambda>x. x \<le> P95Us s) xs)
          \<and> 99 * (length xs - 1) div 100 < length (filter (\<lambda>x. x \<le> P99Us s) xs)))"
proof (cases "fresh_samples t now = []")
  case True
  then show ?thesis
    by (simp add: ComputeStats_def Let_def)
next
  case False
  then have "SampleCount t \<noteq> 0"
    by (auto simp: fresh_samples_def)
  with False have s: "ComputeStats t now = \<lparr>P50Us = NthPercentile 50 (fresh_samples t now),
      P95Us = NthPercentile 95 (fresh_samples t now), P99Us = NthPercentile 99 (fresh_samples t now),
      MinUs = Min (set (fresh_samples t now)), MaxUs = Max (set (fresh_samples t now)),
      StatsCount = length (fresh_samples t now)\<rparr>"
    by (simp add: ComputeStats_def Let_def)
  show ?thesis
    using False NthPercentile_in [OF False] NthPercentile_mono [OF False] percentile_count [OF False, of 95]
      percentile_count [OF False, of 99]
    by (simp add: s Let_def)
qed

end
