(* ===== verification/ChanRecord.thy ===== *)
theory ChanRecord
  imports Prelude
begin

text \<open>
  Network, \<open>connection/ChannelRecord\<close>: which channels have bunches in which packet. The code keeps
  one flat queue of entries, a packet entry followed by the channel entries of that packet; the
  abstract view is a queue of packets with their channels (\<open>flatten\<close>).
\<close>

record ChannelRecordEntry =
  EValue :: "31 word"
  EIsSequence :: bool

record ConnectionChannelRecord =
  EntryRecord :: "ChannelRecordEntry list"
  LastPacketId :: int

definition ChannelRecord_ctor :: ConnectionChannelRecord where
  "ChannelRecord_ctor = \<lparr>EntryRecord = [], LastPacketId = -1\<rparr>"

definition PushPacketId :: "ConnectionChannelRecord \<Rightarrow> int \<Rightarrow> ConnectionChannelRecord" where
  "PushPacketId r PId =
     (if PId \<noteq> LastPacketId r
      then r\<lparr>EntryRecord := EntryRecord r @ [\<lparr>EValue = word_of_int PId, EIsSequence = True\<rparr>],
             LastPacketId := PId\<rparr>
      else r)"

definition PushChannelRecord :: "ConnectionChannelRecord \<Rightarrow> int \<Rightarrow> int \<Rightarrow> ConnectionChannelRecord" where
  "PushChannelRecord r PId ChannelIndex =
     (let r = PushPacketId r PId
      in r\<lparr>EntryRecord := EntryRecord r @ [\<lparr>EValue = word_of_int ChannelIndex, EIsSequence = False\<rparr>]\<rparr>)"

text \<open>The channel entries up to the next packet entry; an index equal to the one before is skipped.\<close>

fun Consume_loop :: "u32 \<Rightarrow> ChannelRecordEntry list \<Rightarrow> u32 list \<times> ChannelRecordEntry list" where
  "Consume_loop Previous [] = ([], [])"
| "Consume_loop Previous (e # es) =
     (if EIsSequence e then ([], e # es)
      else (let ChannelIndex = (ucast (EValue e) :: u32);
                (calls, rest) = Consume_loop ChannelIndex es
            in (if ChannelIndex \<noteq> Previous then ChannelIndex # calls else calls, rest)))"

text \<open>The result says whether the packet was found, and lists the channels the functor is called with.\<close>

definition ConsumeChannelRecordsForPacket ::
    "ConnectionChannelRecord \<Rightarrow> int \<Rightarrow> ConnectionChannelRecord \<times> bool \<times> u32 list" where
  "ConsumeChannelRecordsForPacket r PId =
     (case EntryRecord r of
        [] \<Rightarrow> (r, True, [])
      | e # es \<Rightarrow>
          if \<not> EIsSequence e \<or> (ucast (EValue e) :: u32) \<noteq> word_of_int PId then (r, False, [])
          else (let (calls, rest) = Consume_loop 0xFFFFFFFF es
                in (r\<lparr>EntryRecord := rest\<rparr>, True, calls)))"

section \<open>The queue of packets behind the flat queue\<close>

type_synonym packet_groups = "(int \<times> int list) list"

definition flatten :: "packet_groups \<Rightarrow> ChannelRecordEntry list" where
  "flatten gs = concat (map (\<lambda>(p, cs). \<lparr>EValue = word_of_int p, EIsSequence = True\<rparr>
      # map (\<lambda>c. \<lparr>EValue = word_of_int c, EIsSequence = False\<rparr>) cs) gs)"

definition push_group :: "packet_groups \<Rightarrow> int \<Rightarrow> int \<Rightarrow> packet_groups" where
  "push_group gs p c =
     (if gs \<noteq> [] \<and> fst (last gs) = p then butlast gs @ [(p, snd (last gs) @ [c])] else gs @ [(p, [c])])"

text \<open>
  \<open>stands_for r gs\<close>: the entries of \<open>r\<close> are those of \<open>gs\<close>, all numbers are small and
  \<open>LastPacketId\<close> is that of the last group as long as there is one.
\<close>

definition stands_for :: "ConnectionChannelRecord \<Rightarrow> packet_groups \<Rightarrow> bool" where
  "stands_for r gs \<longleftrightarrow> EntryRecord r = flatten gs \<and> (gs \<noteq> [] \<longrightarrow> LastPacketId r = fst (last gs))
     \<and> (\<forall>(p, cs)\<in>set gs. 0 \<le> p \<and> p < 2 ^ 31 \<and> (\<forall>c\<in>set cs. 0 \<le> c \<and> c < 2 ^ 31))"

lemma flatten_append: "flatten (gs @ hs) = flatten gs @ flatten hs"
  by (simp add: flatten_def)

lemma flatten_Cons: "flatten ((p, cs) # gs) = \<lparr>EValue = word_of_int p, EIsSequence = True\<rparr>
      # map (\<lambda>c. \<lparr>EValue = word_of_int c, EIsSequence = False\<rparr>) cs @ flatten gs"
  by (simp add: flatten_def)

lemma flatten_single: "flatten [(p, cs)] = \<lparr>EValue = word_of_int p, EIsSequence = True\<rparr>
      # map (\<lambda>c. \<lparr>EValue = word_of_int c, EIsSequence = False\<rparr>) cs"
  by (simp add: flatten_def)

lemma small_u32:
  assumes "0 \<le> c" "c < 2 ^ 31"
  shows "(ucast (word_of_int c :: 31 word) :: u32) = word_of_int c" and "uint (word_of_int c :: u32) = c"
proof -
  have "uint (word_of_int c :: 31 word) = c"
    using assms by (simp add: unsigned_of_int take_bit_eq_mod)
  then show "uint (word_of_int c :: u32) = c"
    using assms by (simp add: unsigned_of_int take_bit_eq_mod)
  then show "(ucast (word_of_int c :: 31 word) :: u32) = word_of_int c"
    using assms \<open>uint (word_of_int c :: 31 word) = c\<close>
    by (simp add: word_uint_eq_iff unsigned_ucast_eq take_bit_eq_mod)
qed

lemma Consume_loop_flatten:
  "\<forall>c\<in>set cs. 0 \<le> c \<and> c < 2 ^ 31 \<Longrightarrow>
   Consume_loop prev (map (\<lambda>c. \<lparr>EValue = word_of_int c, EIsSequence = False\<rparr>) cs @ flatten gs)
   = (tl (remdups_adj (prev # map word_of_int cs)), flatten gs)"
proof (induction cs arbitrary: prev)
  case Nil
  show ?case
  proof (cases gs)
    case (Cons g gs')
    then show ?thesis
      by (cases g) (simp add: flatten_def)
  qed (simp add: flatten_def)
next
  case (Cons c cs)
  have c: "(ucast (word_of_int c :: 31 word) :: u32) = word_of_int c"
    using Cons.prems small_u32(1) [of c] by simp
  have IH: "Consume_loop (word_of_int c) (map (\<lambda>c. \<lparr>EValue = word_of_int c, EIsSequence = False\<rparr>) cs @ flatten gs)
      = (tl (remdups_adj (word_of_int c # map word_of_int cs)), flatten gs)"
    by (rule Cons.IH) (use Cons.prems in simp)
  show ?case
    by (simp add: c IH Let_def)
qed

lemma stands_for_ctor: "stands_for ChannelRecord_ctor []"
  by (simp add: stands_for_def ChannelRecord_ctor_def flatten_def)

lemma push_stands_for:
  assumes "stands_for r gs" and "0 \<le> p" "p < 2 ^ 31" "0 \<le> c" "c < 2 ^ 31" and "gs = [] \<longrightarrow> LastPacketId r \<noteq> p"
  shows "stands_for (PushChannelRecord r p c) (push_group gs p c)"
proof (cases "gs \<noteq> [] \<and> fst (last gs) = p")
  case True
  then obtain hs cs where gs: "gs = hs @ [(p, cs)]"
    by (metis append_butlast_last_id prod.collapse)
  have r: "EntryRecord r = flatten hs @ flatten [(p, cs)]" "LastPacketId r = p"
    "\<forall>(p, cs)\<in>set hs. 0 \<le> p \<and> p < 2 ^ 31 \<and> (\<forall>c\<in>set cs. 0 \<le> c \<and> c < 2 ^ 31)"
    "\<forall>c\<in>set cs. 0 \<le> c \<and> c < 2 ^ 31"
    using assms(1) unfolding gs by (auto simp: stands_for_def flatten_append)
  have push: "PushChannelRecord r p c = r\<lparr>EntryRecord := EntryRecord r @ [\<lparr>EValue = word_of_int c, EIsSequence = False\<rparr>]\<rparr>"
    using r(2) by (simp add: PushChannelRecord_def PushPacketId_def)
  have group: "push_group gs p c = hs @ [(p, cs @ [c])]"
    unfolding gs by (simp add: push_group_def)
  show ?thesis
    unfolding push group using r assms(2-5) by (simp add: stands_for_def flatten_append flatten_single)
next
  case False
  then have ne: "LastPacketId r \<noteq> p"
    using assms(1,6) by (cases "gs = []") (auto simp: stands_for_def)
  have push: "PushChannelRecord r p c = r\<lparr>EntryRecord := EntryRecord r @ [\<lparr>EValue = word_of_int p, EIsSequence = True\<rparr>,
      \<lparr>EValue = word_of_int c, EIsSequence = False\<rparr>], LastPacketId := p\<rparr>"
    using ne by (simp add: PushChannelRecord_def PushPacketId_def)
  have group: "push_group gs p c = gs @ [(p, [c])]"
    unfolding push_group_def using False by (simp only: if_False)
  show ?thesis
    unfolding push group using assms(1-5) by (simp add: stands_for_def flatten_append flatten_single)
qed

lemma remdups_adj_word:
  "\<forall>c\<in>set cs. 0 \<le> c \<and> c < 2 ^ 31 \<Longrightarrow>
   tl (remdups_adj ((0xFFFFFFFF :: u32) # map word_of_int cs)) = map word_of_int (remdups_adj cs)"
proof -
  assume small: "\<forall>c\<in>set cs. 0 \<le> c \<and> c < 2 ^ 31"
  have inj: "x = y" if "0 \<le> x" "x < 2 ^ 31" "0 \<le> y" "y < 2 ^ 31" "(word_of_int x :: u32) = word_of_int y" for x y
    using small_u32(2) [of x] small_u32(2) [of y] that by metis
  have m: "remdups_adj (map word_of_int cs :: u32 list) = map word_of_int (remdups_adj cs)"
    using small
  proof (induction cs rule: remdups_adj.induct)
    case (3 x y xs)
    then show ?case
      using inj [of x y] by auto
  qed auto
  show ?thesis
  proof (cases cs)
    case (Cons c cs')
    have "(0xFFFFFFFF :: u32) \<noteq> word_of_int c"
      using small Cons small_u32(2) [of c] by (auto simp: word_uint_eq_iff)
    then show ?thesis
      using m Cons by simp
  qed simp
qed

text \<open>
  C31. Consuming the records of the oldest packet finds it, calls back every channel with a bunch in
  that packet once per run of equal entries, and leaves exactly the records of the later packets;
  for any other packet nothing is consumed.
\<close>

theorem consume_oldest_packet:
  assumes "stands_for r ((p, cs) # gs)" and "0 \<le> q" and "q < 2 ^ 31"
  shows "(if q = p then \<exists>r'. ConsumeChannelRecordsForPacket r q = (r', True, map word_of_int (remdups_adj cs))
            \<and> stands_for r' gs
          else ConsumeChannelRecordsForPacket r q = (r, False, []))"
proof -
  have e: "EntryRecord r = \<lparr>EValue = word_of_int p, EIsSequence = True\<rparr>
      # map (\<lambda>c. \<lparr>EValue = word_of_int c, EIsSequence = False\<rparr>) cs @ flatten gs"
    and p: "0 \<le> p" "p < 2 ^ 31" and cs: "\<forall>c\<in>set cs. 0 \<le> c \<and> c < 2 ^ 31"
    using assms(1) by (auto simp: stands_for_def flatten_Cons)
  have "(word_of_int p :: u32) = word_of_int q \<longleftrightarrow> q = p"
    using small_u32(2) [OF p] small_u32(2) [OF assms(2,3)] by metis
  then show ?thesis
    using assms(1) small_u32(1) [OF p]
    by (auto simp: ConsumeChannelRecordsForPacket_def stands_for_def flatten_Cons Consume_loop_flatten [OF cs]
        remdups_adj_word [OF cs])
qed

theorem consume_oldest_packet_witness:
  "if 5 = (5 :: int) then \<exists>r'. ConsumeChannelRecordsForPacket (PushChannelRecord (PushChannelRecord
        (PushChannelRecord (PushChannelRecord ChannelRecord_ctor 5 0) 5 0) 5 1) 6 1) 5
      = (r', True, map word_of_int (remdups_adj [0, 0, 1])) \<and> stands_for r' [(6, [1])]
   else ConsumeChannelRecordsForPacket (PushChannelRecord (PushChannelRecord
        (PushChannelRecord (PushChannelRecord ChannelRecord_ctor 5 0) 5 0) 5 1) 6 1) 5
      = (PushChannelRecord (PushChannelRecord
        (PushChannelRecord (PushChannelRecord ChannelRecord_ctor 5 0) 5 0) 5 1) 6 1, False, [])"
proof (rule consume_oldest_packet)
  show "stands_for (PushChannelRecord (PushChannelRecord
        (PushChannelRecord (PushChannelRecord ChannelRecord_ctor 5 0) 5 0) 5 1) 6 1) ((5, [0, 0, 1]) # [(6, [1])])"
    by (simp add: stands_for_def PushChannelRecord_def PushPacketId_def ChannelRecord_ctor_def flatten_def)
qed simp_all

text \<open>
  Once the record of the packet last written has been consumed, adding a channel for the same
  packet again leaves a channel entry without its packet entry at the front, and from then on no
  packet can be consumed any more, whatever is pushed.
\<close>

theorem orphan_entry_blocks:
  assumes "EntryRecord r = []" and "LastPacketId r = p"
  shows "ConsumeChannelRecordsForPacket
      (foldl (\<lambda>r (q, c). PushChannelRecord r q c) (PushChannelRecord r p c) pushes) q
    = (foldl (\<lambda>r (q, c). PushChannelRecord r q c) (PushChannelRecord r p c) pushes, False, [])"
proof -
  have "\<exists>es. EntryRecord (foldl (\<lambda>r (q, c). PushChannelRecord r q c) (PushChannelRecord r p c) pushes)
      = \<lparr>EValue = word_of_int c, EIsSequence = False\<rparr> # es"
  proof (induction pushes rule: rev_induct)
    case Nil
    then show ?case
      using assms by (simp add: PushChannelRecord_def PushPacketId_def)
  next
    case (snoc x xs)
    then show ?case
      by (cases x) (auto simp: PushChannelRecord_def PushPacketId_def Let_def)
  qed
  then show ?thesis
    by (auto simp: ConsumeChannelRecordsForPacket_def)
qed

theorem orphan_entry_blocks_witness:
  "ConsumeChannelRecordsForPacket
      (foldl (\<lambda>r (q, c). PushChannelRecord r q c)
        (PushChannelRecord (fst (ConsumeChannelRecordsForPacket (PushChannelRecord ChannelRecord_ctor 5 0) 5)) 5 1) [(6, 0)]) 5
    = (foldl (\<lambda>r (q, c). PushChannelRecord r q c)
        (PushChannelRecord (fst (ConsumeChannelRecordsForPacket (PushChannelRecord ChannelRecord_ctor 5 0) 5)) 5 1) [(6, 0)], False, [])"
  by (rule orphan_entry_blocks)
    (simp_all add: PushChannelRecord_def PushPacketId_def ChannelRecord_ctor_def ConsumeChannelRecordsForPacket_def)

end
