(* ===== verification/OrdMap.thy ===== *)
theory OrdMap
  imports Prelude
begin

text \<open>
  \<open>std::map\<close> as the engine uses it: an association list in increasing order of its keys, with
  lookup \<open>map_of\<close>, and the contract its users rely on.
\<close>

definition omap_ok :: "('k::linorder \<times> 'v) list \<Rightarrow> bool" where
  "omap_ok m \<longleftrightarrow> sorted_wrt (<) (map fst m)"

text \<open>\<open>m[k] = v\<close>.\<close>

fun omap_put :: "'k::linorder \<Rightarrow> 'v \<Rightarrow> ('k \<times> 'v) list \<Rightarrow> ('k \<times> 'v) list" where
  "omap_put k v [] = [(k, v)]"
| "omap_put k v ((k', v') # m) =
     (if k < k' then (k, v) # (k', v') # m
      else if k = k' then (k, v) # m
      else (k', v') # omap_put k v m)"

definition omap_erase :: "'k \<Rightarrow> ('k \<times> 'v) list \<Rightarrow> ('k \<times> 'v) list" where
  "omap_erase k m = filter (\<lambda>p. fst p \<noteq> k) m"

text \<open>\<open>begin()\<close>, absent for the empty map.\<close>

definition omap_first :: "('k \<times> 'v) list \<Rightarrow> ('k \<times> 'v) option" where
  "omap_first m = (case m of [] \<Rightarrow> None | p # _ \<Rightarrow> Some p)"

lemma map_of_omap_put [simp]: "map_of (omap_put k v m) = (map_of m)(k \<mapsto> v)"
  by (induction k v m rule: omap_put.induct) auto

lemma map_of_omap_erase [simp]: "map_of (omap_erase k m) = (map_of m)(k := None)"
  by (induction m) (auto simp: omap_erase_def)

lemma set_keys_put [simp]: "fst ` set (omap_put k v m) = insert k (fst ` set m)"
  by (induction k v m rule: omap_put.induct) auto

lemma omap_ok_Nil [simp, intro]: "omap_ok []"
  by (simp add: omap_ok_def)

lemma omap_ok_Cons: "omap_ok (p # m) \<longleftrightarrow> (\<forall>q\<in>set m. fst p < fst q) \<and> omap_ok m"
  by (auto simp: omap_ok_def)

lemma omap_ok_put [intro]: "omap_ok m \<Longrightarrow> omap_ok (omap_put k v m)"
proof (induction k v m rule: omap_put.induct)
  case (2 k v k' v' m)
  have "k' < fst q" if "k' < k" and "q \<in> set (omap_put k v m)" for q
  proof -
    have "fst q \<in> insert k (fst ` set m)"
      using that(2) set_keys_put [of k v m] by (metis imageI)
    then show ?thesis
      using that(1) "2.prems" by (auto simp: omap_ok_Cons)
  qed
  then show ?case
    using 2 by (auto simp: omap_ok_Cons)
qed (simp add: omap_ok_def)

lemma omap_ok_erase [intro]: "omap_ok m \<Longrightarrow> omap_ok (omap_erase k m)"
  by (simp add: omap_ok_def omap_erase_def sorted_wrt_filter sorted_wrt_map)

lemma omap_erase_id: "k \<notin> fst ` set m \<Longrightarrow> omap_erase k m = m"
  unfolding omap_erase_def by (rule filter_True) auto

lemma length_omap_erase: "length (omap_erase k m) \<le> length m"
  by (simp add: omap_erase_def)

lemma omap_ok_distinct: "omap_ok m \<Longrightarrow> distinct (map fst m)"
  by (simp add: omap_ok_def strict_sorted_iff)

lemma omap_first_Cons: "omap_ok ((k, v) # m) \<Longrightarrow> omap_erase k ((k, v) # m) = m"
  using omap_ok_distinct [of "(k, v) # m"] by (auto simp: omap_erase_def intro!: filter_True)

lemma omap_put_new: "omap_ok m \<Longrightarrow> k \<notin> fst ` set m \<Longrightarrow> length (omap_put k v m) = Suc (length m)"
  by (induction k v m rule: omap_put.induct) (auto simp: omap_ok_Cons)

lemma omap_put_mem: "map_of m k \<noteq> None \<Longrightarrow> omap_ok m \<Longrightarrow> length (omap_put k v m) = length m"
proof (induction k v m rule: omap_put.induct)
  case (2 k v k' v' m)
  then have "k < k' \<Longrightarrow> map_of m k = None"
    unfolding map_of_eq_None_iff omap_ok_Cons by force
  with 2 show ?case
    by (auto simp: omap_ok_Cons split: if_splits)
qed simp

section \<open>The contract\<close>

locale ordered_map =
  fixes ok :: "'m \<Rightarrow> bool" and find :: "'m \<Rightarrow> 'k::linorder \<Rightarrow> 'v option"
    and put :: "'k \<Rightarrow> 'v \<Rightarrow> 'm \<Rightarrow> 'm" and erase :: "'k \<Rightarrow> 'm \<Rightarrow> 'm"
    and first :: "'m \<Rightarrow> ('k \<times> 'v) option"
  assumes ok_put: "ok m \<Longrightarrow> ok (put k v m)" and ok_erase: "ok m \<Longrightarrow> ok (erase k m)"
    and find_put: "ok m \<Longrightarrow> find (put k v m) k' = (if k' = k then Some v else find m k')"
    and find_erase: "ok m \<Longrightarrow> find (erase k m) k' = (if k' = k then None else find m k')"
    and first_None: "ok m \<Longrightarrow> first m = None \<longleftrightarrow> (\<forall>k. find m k = None)"
    and first_Some: "ok m \<Longrightarrow> first m = Some (k, v) \<Longrightarrow>
          find m k = Some v \<and> (\<forall>k'. find m k' \<noteq> None \<longrightarrow> k \<le> k')"
begin

lemma first_least:
  assumes "ok m" and "find m k = Some v" and "\<And>k'. find m k' \<noteq> None \<Longrightarrow> k \<le> k'"
  shows "first m = Some (k, v)"
proof (cases "first m")
  case None
  then show ?thesis
    using assms first_None by auto
next
  case (Some p)
  obtain k1 v1 where p: "p = (k1, v1)"
    by (cases p)
  have "k1 \<le> k" "k \<le> k1"
    using first_Some [OF assms(1)] Some p assms(2,3) by auto
  then show ?thesis
    using first_Some [OF assms(1)] Some p assms(2) by auto
qed

lemma first_above:
  assumes "ok m" and "\<And>k'. find m k' \<noteq> None \<Longrightarrow> k \<le> k'"
  shows "(\<exists>v. first m = Some (k, v)) \<longleftrightarrow> find m k \<noteq> None"
proof
  assume "\<exists>v. first m = Some (k, v)"
  then obtain v where "first m = Some (k, v)"
    by blast
  then show "find m k \<noteq> None"
    using first_Some [OF assms(1)] by simp
next
  assume "find m k \<noteq> None"
  then obtain v where "find m k = Some v"
    by blast
  then show "\<exists>v. first m = Some (k, v)"
    using first_least [OF assms(1) _ assms(2)] by blast
qed

lemma erase_first_above:
  assumes "ok m" and "first m = Some (k, v)" and "find (erase k m) k' \<noteq> None"
  shows "k < k'"
  using assms first_Some [OF assms(1,2)] by (auto simp: find_erase split: if_splits)

lemma smallest_stays_first:
  assumes "ok m" and "first m = Some (k, v)" and "k < k'"
  shows "first (put k' w m) = Some (k, v)"
  using assms first_Some [OF assms(1,2)] by (intro first_least) (auto simp: ok_put find_put split: if_splits)

end

interpretation omap: ordered_map omap_ok map_of omap_put omap_erase omap_first
proof (unfold_locales, goal_cases)
  case (5 m)
  show ?case
  proof
    assume "omap_first m = None"
    then show "\<forall>k. map_of m k = None"
      by (simp add: omap_first_def split: list.splits)
  next
    assume *: "\<forall>k. map_of m k = None"
    show "omap_first m = None"
    proof (cases m)
      case (Cons p m')
      then have "map_of m (fst p) = Some (snd p)"
        by simp
      then show ?thesis
        using * by simp
    qed (simp add: omap_first_def)
  qed
next
  case (6 m k v)
  then obtain m' where m: "m = (k, v) # m'"
    by (cases m) (auto simp: omap_first_def)
  have "k \<le> k'" if "map_of m k' \<noteq> None" for k'
  proof (cases "k' = k")
    case False
    then have "k' \<in> fst ` set m'"
      using that m by (simp add: map_of_eq_None_iff)
    then show ?thesis
      using 6(1) m by (auto simp: omap_ok_Cons less_imp_le)
  qed simp
  then show ?case
    by (simp add: m)
qed auto

end
