(* ===== verification/ChannelM.thy ===== *)
theory ChannelM
  imports BunchBuild OrdMap "HOL-Library.Multiset"
begin

text \<open>
  Network, \<open>channel/NetChannel\<close> with the parts \<open>ControlChannel\<close> and \<open>ActorChannel\<close> share, and
  \<open>net_packet/NetBunchReader\<close>: the reliable ordered stream of messages over the bunches of a
  connection. A received message is its id and payload; the owner that keeps the payload's memory
  alive has no counterpart. \<open>BunchBuilder\<close> is \<open>None\<close> before \<open>Init\<close>.
\<close>

record RecvMessageReader =
  RView :: "u8 list"
  RMessageId :: u16

record InBunchReader =
  IBuffer :: "u8 list"
  IChSequence :: u32
  IMessageCount :: u8

record NetChannel =
  bControl :: bool
  bOpen :: bool
  bClose :: bool
  bReliable :: bool
  ChIndex :: u8
  InReliable :: u32
  OutReliable :: u32
  ChName :: string
  BunchBuilder :: "ChannelBunchBuilder option"
  OutBunchQueue :: "OutReadyBunch list"
  OutUnAckedBunches :: "(u32 \<times> OutReadyBunch list) list"
  InUnreadBunchMap :: "(u32 \<times> InBunchReader) list"
  PendingDispatch :: "RecvMessageReader list"

definition RELIABLE_BUFFER :: nat where "RELIABLE_BUFFER = 512"

definition NetChannel_ctor :: NetChannel where
  "NetChannel_ctor = \<lparr>bControl = False, bOpen = False, bClose = True, bReliable = False, ChIndex = - 1,
     InReliable = 0, OutReliable = 0, ChName = [], BunchBuilder = None, OutBunchQueue = [],
     OutUnAckedBunches = [], InUnreadBunchMap = [], PendingDispatch = []\<rparr>"

definition ControlChannel_ctor :: NetChannel where
  "ControlChannel_ctor = NetChannel_ctor\<lparr>ChName := ''Control'', ChIndex := 0\<rparr>"

definition ActorChannel_ctor :: NetChannel where
  "ActorChannel_ctor = NetChannel_ctor\<lparr>ChName := ''Actor'', ChIndex := - 1\<rparr>"

text \<open>\<open>NetChannel(NetChannel*)\<close>: the copy of a prototype has its settings and none of its queues.\<close>

definition NetChannel_copy :: "NetChannel \<Rightarrow> NetChannel" where
  "NetChannel_copy NewChannel = NetChannel_ctor\<lparr>ChIndex := ChIndex NewChannel, ChName := ChName NewChannel,
     bControl := bControl NewChannel, bOpen := bOpen NewChannel, bClose := bClose NewChannel,
     bReliable := bReliable NewChannel, InReliable := InReliable NewChannel, OutReliable := OutReliable NewChannel\<rparr>"

definition ControlChannel_copy :: "NetChannel \<Rightarrow> NetChannel" where
  "ControlChannel_copy NewChannel = (NetChannel_copy NewChannel)\<lparr>ChName := ''Control'', ChIndex := 0\<rparr>"

definition ActorChannel_copy :: "NetChannel \<Rightarrow> NetChannel" where
  "ActorChannel_copy NewChannel = (NetChannel_copy NewChannel)\<lparr>ChName := ''Actor'', ChIndex := 1\<rparr>"

text \<open>\<open>Init\<close> of a control channel; that of an actor channel has the same body.\<close>

definition ControlChannel_Init :: "NetChannel \<Rightarrow> u8 \<Rightarrow> u32 \<Rightarrow> u32 \<Rightarrow> NetChannel" where
  "ControlChannel_Init ch InChIndex InReliable0 OutReliable0 =
     (let pl = BunchPolicy_default\<lparr>MaxPacketBytes := 1200, PacketHeaderBytes := 16, BunchHeaderBytes := 8,
            MaxCoalesceUs := 2000\<rparr>
      in ch\<lparr>ChIndex := InChIndex, bControl := True, bOpen := True, bClose := False, bReliable := True,
           InReliable := InReliable0, OutReliable := OutReliable0,
           BunchBuilder := Some (Builder_ctor InChIndex True True False True pl)\<rparr>)"

definition ActorChannel_Init :: "NetChannel \<Rightarrow> u8 \<Rightarrow> u32 \<Rightarrow> u32 \<Rightarrow> NetChannel" where
  "ActorChannel_Init ch InChIndex InReliable0 OutReliable0 =
     (let pl = BunchPolicy_default\<lparr>MaxPacketBytes := 1200, PacketHeaderBytes := 16, BunchHeaderBytes := 8,
            MaxCoalesceUs := 2000\<rparr>
      in ch\<lparr>ChIndex := InChIndex, bControl := True, bOpen := True, bClose := False, bReliable := True,
           InReliable := InReliable0, OutReliable := OutReliable0,
           BunchBuilder := Some (Builder_ctor InChIndex True True False True pl)\<rparr>)"

section \<open>Sending\<close>

definition RegisterMessage :: "NetChannel \<Rightarrow> NetMessage \<Rightarrow> NetChannel option" where
  "RegisterMessage ch m = do {
     b \<leftarrow> BunchBuilder ch;
     Some (ch\<lparr>BunchBuilder := Some (Submit b m)\<rparr>) }"

text \<open>The result is false when the reliable buffer is full, and then the connection is closed.\<close>

definition AddUnAckedOutBunch :: "NetChannel \<Rightarrow> u32 \<Rightarrow> OutReadyBunch \<Rightarrow> NetChannel \<times> bool" where
  "AddUnAckedOutBunch ch OutPacketId Bunch =
     (if RELIABLE_BUFFER \<le> length (OutUnAckedBunches ch) then (ch, False)
      else (ch\<lparr>OutUnAckedBunches := omap_put OutPacketId
              ((case map_of (OutUnAckedBunches ch) OutPacketId of None \<Rightarrow> [] | Some bs \<Rightarrow> bs) @ [Bunch])
              (OutUnAckedBunches ch)\<rparr>, True))"

definition Acked :: "NetChannel \<Rightarrow> u32 \<Rightarrow> NetChannel" where
  "Acked ch AckPacketId = ch\<lparr>OutUnAckedBunches := omap_erase AckPacketId (OutUnAckedBunches ch)\<rparr>"

text \<open>The loop runs from the last bunch to the first, pushing each to the front.\<close>

definition push_fronts :: "OutReadyBunch list \<Rightarrow> OutReadyBunch list \<Rightarrow> OutReadyBunch list" where
  "push_fronts Bunchs Queue = fold (\<lambda>Bunch Queue. Bunch # Queue) (rev Bunchs) Queue"

definition Nacked :: "NetChannel \<Rightarrow> u32 \<Rightarrow> NetChannel" where
  "Nacked ch NackPacketId =
     (let ResendBunchs = (case map_of (OutUnAckedBunches ch) NackPacketId of None \<Rightarrow> [] | Some bs \<Rightarrow> bs)
      in ch\<lparr>OutBunchQueue := push_fronts ResendBunchs (OutBunchQueue ch),
            OutUnAckedBunches := omap_erase NackPacketId (OutUnAckedBunches ch)\<rparr>)"

definition ForceRetransmitAllUnAcked :: "NetChannel \<Rightarrow> NetChannel" where
  "ForceRetransmitAllUnAcked ch =
     (if OutUnAckedBunches ch = [] then ch
      else ch\<lparr>OutBunchQueue := fold (\<lambda>(_, Bunches) Queue. push_fronts Bunches Queue)
                (rev (OutUnAckedBunches ch)) (OutBunchQueue ch),
              OutUnAckedBunches := []\<rparr>)"

definition DequeueReadyBunch :: "NetChannel \<Rightarrow> NetChannel \<times> OutReadyBunch option" where
  "DequeueReadyBunch ch =
     (case OutBunchQueue ch of [] \<Rightarrow> (ch, None) | out # rest \<Rightarrow> (ch\<lparr>OutBunchQueue := rest\<rparr>, Some out))"

definition HasReadyBunch :: "NetChannel \<Rightarrow> bool" where
  "HasReadyBunch ch \<longleftrightarrow> OutBunchQueue ch \<noteq> []"

definition PumpBunch :: "NetChannel \<Rightarrow> nat \<Rightarrow> bool \<Rightarrow> u64 \<Rightarrow> u64 \<Rightarrow> u64 \<Rightarrow> NetChannel option" where
  "PumpBunch ch batchLimit flushTail t0 t1 t2 = do {
     b \<leftarrow> BunchBuilder ch;
     (b, OutReliable) \<leftarrow> Pump b (OutReliable ch) batchLimit flushTail t0 t1 t2;
     Some (ch\<lparr>BunchBuilder := Some b, OutReliable := OutReliable\<rparr>) }"

function move_ready :: "ChannelBunchBuilder \<Rightarrow> OutReadyBunch list \<Rightarrow> ChannelBunchBuilder \<times> OutReadyBunch list" where
  "move_ready b Queue =
     (case TryDequeueReady b of
        (b', Some Bunch) \<Rightarrow> move_ready b' (Queue @ [Bunch])
      | (b', None) \<Rightarrow> (b', Queue))"
  by pat_completeness auto
termination
  by (relation "measure (\<lambda>(b, _). length (QueuedOutBunch b))")
    (auto simp: TryDequeueReady_def split: list.splits)

declare move_ready.simps [simp del]

definition TickFlush :: "NetChannel \<Rightarrow> u64 \<Rightarrow> u64 \<Rightarrow> u64 \<Rightarrow> NetChannel option" where
  "TickFlush ch t0 t1 t2 = do {
     ch \<leftarrow> PumpBunch ch 256 True t0 t1 t2;
     b \<leftarrow> BunchBuilder ch;
     let (b, Queue) = move_ready b (OutBunchQueue ch);
     Some (ch\<lparr>BunchBuilder := Some b, OutBunchQueue := Queue\<rparr>) }"

definition UpdateChannelSeq :: "NetChannel \<Rightarrow> u32 \<Rightarrow> u32 \<Rightarrow> NetChannel" where
  "UpdateChannelSeq ch InReliable0 OutReliable0 = ch\<lparr>InReliable := InReliable0, OutReliable := OutReliable0,
     OutBunchQueue := [], OutUnAckedBunches := [], InUnreadBunchMap := []\<rparr>"

section \<open>Receiving\<close>

definition InBunchReader_ctor :: "u8 list \<Rightarrow> u32 \<Rightarrow> u8 \<Rightarrow> InBunchReader" where
  "InBunchReader_ctor BunchView ChSequence MessageCount =
     \<lparr>IBuffer = BunchView, IChSequence = ChSequence, IMessageCount = MessageCount\<rparr>"

definition GetReader :: "InBunchReader \<Rightarrow> BufferReader" where
  "GetReader b = BufferReader_ctor (IBuffer b)"

definition AddUnreadInCopyBunch :: "NetChannel \<Rightarrow> u32 \<Rightarrow> InBunchReader \<Rightarrow> NetChannel" where
  "AddUnreadInCopyBunch ch ChSequence CopyBunch =
     (if map_of (InUnreadBunchMap ch) ChSequence = None
      then ch\<lparr>InUnreadBunchMap := omap_put ChSequence CopyBunch (InUnreadBunchMap ch)\<rparr> else ch)"

definition ReceivedMessage :: "NetChannel \<Rightarrow> RecvMessageReader \<Rightarrow> NetChannel" where
  "ReceivedMessage ch Message = ch\<lparr>PendingDispatch := PendingDispatch ch @ [Message]\<rparr>"

text \<open>
  \<open>DispatchRawBunch_Interanl\<close>: each message is a header of its size (of header and payload, two
  bytes) and its id (two bytes), then the payload. The size of the payload is computed in 16 bits. The
  code locks the pointer of the channel to its connection for the log line of a malformed message; the
  pointer is valid there, since bunches are dispatched only by jobs of the connection, which hold it.
\<close>

fun DispatchRawBunch_Interanl :: "NetChannel \<Rightarrow> BufferReader \<Rightarrow> nat \<Rightarrow> NetChannel \<times> bool" where
  "DispatchRawBunch_Interanl ch bunchReader 0 = (ch, True)"
| "DispatchRawBunch_Interanl ch bunchReader (Suc left) =
     (if \<not> CanRead bunchReader 4 then (ch, False)
      else case BufferReader_Read bunchReader 4 of
        (bunchReader, None) \<Rightarrow> (ch, False)
      | (bunchReader, Some header) \<Rightarrow>
          let payloadSize = (of_le_bytes (take 2 header) :: u16) - 4 in
          if \<not> CanRead bunchReader (unat payloadSize) then (ch, False)
          else let (bunchReader, messagePayloadView) = ReadView bunchReader (unat payloadSize);
                   message = \<lparr>RView = messagePayloadView, RMessageId = of_le_bytes (drop 2 header)\<rparr>
               in DispatchRawBunch_Interanl (ReceivedMessage ch message) bunchReader left)"

lemma Interanl_map [simp]:
  "InUnreadBunchMap (fst (DispatchRawBunch_Interanl ch r n)) = InUnreadBunchMap ch"
  by (induction ch r n rule: DispatchRawBunch_Interanl.induct)
    (auto simp: ReceivedMessage_def Let_def split: prod.splits option.splits)

text \<open>Step 2 of \<open>DispatchRawBunch\<close>: the buffered bunches that are next in order.\<close>

function drain :: "NetChannel \<Rightarrow> NetChannel" where
  "drain ch =
     (case omap_first (InUnreadBunchMap ch) of
        None \<Rightarrow> ch
      | Some (k, bufferedBunchOwner) \<Rightarrow>
          if \<not> (bReliable ch \<and> k = InReliable ch + 1) then ch
          else
            let (ch, ok) = DispatchRawBunch_Interanl ch (GetReader bufferedBunchOwner)
                  (unat (IMessageCount bufferedBunchOwner)) in
            if ok then drain (ch\<lparr>InReliable := InReliable ch + 1, InUnreadBunchMap := tl (InUnreadBunchMap ch)\<rparr>)
            else ch\<lparr>InUnreadBunchMap := tl (InUnreadBunchMap ch)\<rparr>)"
  by pat_completeness auto
termination
proof (relation "measure (\<lambda>ch. length (InUnreadBunchMap ch))", goal_cases)
  case (2 ch a k b x ch' ok)
  then have "InUnreadBunchMap ch' = InUnreadBunchMap ch"
    using Interanl_map by (metis fst_conv)
  then show ?case
    using 2 by (auto simp: omap_first_def split: list.splits)
qed simp

declare drain.simps [simp del]

definition DispatchRawBunch :: "NetChannel \<Rightarrow> u8 list \<Rightarrow> nat \<Rightarrow> NetChannel" where
  "DispatchRawBunch ch InView MessageCount =
     (let (ch, ok) = DispatchRawBunch_Interanl ch (BufferReader_ctor InView) MessageCount;
          ch = (if ok then ch\<lparr>InReliable := InReliable ch + 1\<rparr> else ch)
      in drain ch)"

text \<open>The messages handed to the protocol handler.\<close>

definition DispatchPendingMessage :: "NetChannel \<Rightarrow> NetChannel \<times> RecvMessageReader list" where
  "DispatchPendingMessage ch = (ch\<lparr>PendingDispatch := []\<rparr>, PendingDispatch ch)"

text \<open>
  What \<open>NetConnection::DispatchPacket\<close> does with a bunch of the channel: the next one of a
  reliable channel is dispatched, any other one is buffered.
\<close>

definition ReceiveBunch :: "NetChannel \<Rightarrow> bool \<Rightarrow> u32 \<Rightarrow> u8 list \<Rightarrow> u8 \<Rightarrow> NetChannel" where
  "ReceiveBunch ch reliable ChSequence View MessageCount =
     (if reliable \<and> ChSequence \<noteq> InReliable ch + 1
      then AddUnreadInCopyBunch ch ChSequence (InBunchReader_ctor View ChSequence MessageCount)
      else DispatchRawBunch ch View (unat MessageCount))"

section \<open>The messages of a bunch\<close>

text \<open>The bytes of a message: the size of header and payload, the id, the payload.\<close>

definition message_bytes :: "RecvMessageReader \<Rightarrow> u8 list" where
  "message_bytes m = le_bytes 2 (word_of_nat (length (RView m) + 4) :: u16) @ le_bytes 2 (RMessageId m) @ RView m"

definition bunch_payload :: "RecvMessageReader list \<Rightarrow> u8 list" where
  "bunch_payload ms = concat (map message_bytes ms)"

definition message_ok :: "RecvMessageReader \<Rightarrow> bool" where
  "message_ok m \<longleftrightarrow> length (RView m) + 4 < 65536"

lemma Interanl_frame:
  "fst (DispatchRawBunch_Interanl ch r n) = ch\<lparr>PendingDispatch := PendingDispatch (fst (DispatchRawBunch_Interanl ch r n))\<rparr>"
  by (induction ch r n rule: DispatchRawBunch_Interanl.induct)
    (auto simp: ReceivedMessage_def Let_def split: prod.splits option.splits)

lemma Interanl_message:
  assumes "message_ok m"
  shows "DispatchRawBunch_Interanl ch \<lparr>BView = message_bytes m @ rest, BError = False\<rparr> (Suc n)
    = DispatchRawBunch_Interanl (ReceivedMessage ch m) \<lparr>BView = rest, BError = False\<rparr> n"
proof -
  have p: "(word_of_nat (length (RView m) + 4) :: u16) - 4 = word_of_nat (length (RView m))"
    by simp
  then have sz: "unat ((word_of_nat (length (RView m) + 4) :: u16) - 4) = length (RView m)"
    using assms by (simp add: message_ok_def unat_of_nat)
  show ?thesis
    using sz by (cases m) (simp add: message_bytes_def CanRead_def BufferReader_Read_def ReadView_def le_bytes_inverse Let_def)
qed

lemma Interanl_messages:
  assumes "\<forall>m\<in>set ms. message_ok m"
  shows "DispatchRawBunch_Interanl ch \<lparr>BView = bunch_payload ms @ rest, BError = False\<rparr> (length ms)
    = (ch\<lparr>PendingDispatch := PendingDispatch ch @ ms\<rparr>, True)"
  using assms
proof (induction ms arbitrary: ch)
  case (Cons m ms)
  then show ?case
    by (simp add: bunch_payload_def Interanl_message del: DispatchRawBunch_Interanl.simps)
      (simp add: ReceivedMessage_def)
qed (simp add: bunch_payload_def)

section \<open>Delivery in order\<close>

text \<open>
  The bunches of a channel in the order of sending: bunch \<open>i\<close>, from 1 on, has the sequence number
  \<open>r0 + i\<close> and the messages \<open>sent i\<close>.
\<close>

definition copy_of :: "nat \<Rightarrow> (nat \<Rightarrow> RecvMessageReader list) \<Rightarrow> nat \<Rightarrow> InBunchReader" where
  "copy_of r0 sent i = InBunchReader_ctor (bunch_payload (sent i)) (word_of_nat (r0 + i)) (word_of_nat (length (sent i)))"

definition arrive :: "nat \<Rightarrow> (nat \<Rightarrow> RecvMessageReader list) \<Rightarrow> nat \<Rightarrow> NetChannel \<Rightarrow> NetChannel" where
  "arrive r0 sent i ch = ReceiveBunch ch True (word_of_nat (r0 + i)) (bunch_payload (sent i)) (word_of_nat (length (sent i)))"

definition sendable :: "RecvMessageReader list \<Rightarrow> bool" where
  "sendable ms \<longleftrightarrow> length ms \<le> 255 \<and> (\<forall>m\<in>set ms. message_ok m)"

text \<open>The receiver after the bunches \<open>A\<close>, all below \<open>N\<close>: those up to \<open>k\<close> are delivered, the others buffered.\<close>

definition receiver_inv :: "nat \<Rightarrow> nat \<Rightarrow> (nat \<Rightarrow> RecvMessageReader list) \<Rightarrow> RecvMessageReader list
    \<Rightarrow> nat set \<Rightarrow> nat \<Rightarrow> NetChannel \<Rightarrow> bool" where
  "receiver_inv r0 N sent Q A k ch \<longleftrightarrow>
     bReliable ch \<and> omap_ok (InUnreadBunchMap ch) \<and> A \<subseteq> {1..<N} \<and> {1..k} \<subseteq> A
     \<and> InReliable ch = word_of_nat (r0 + k) \<and> PendingDispatch ch = Q @ concat (map sent [1..<Suc k])
     \<and> (\<forall>key v. map_of (InUnreadBunchMap ch) key = Some v
          \<longleftrightarrow> (\<exists>i\<in>A. k < i \<and> key = word_of_nat (r0 + i) \<and> v = copy_of r0 sent i))"

lemma key_le:
  assumes "r0 + N < 2 ^ 32" and "i \<le> N" and "j \<le> N"
  shows "(word_of_nat (r0 + i) :: u32) \<le> word_of_nat (r0 + j) \<longleftrightarrow> i \<le> j"
proof -
  have "unat (word_of_nat (r0 + i) :: u32) = r0 + i" "unat (word_of_nat (r0 + j) :: u32) = r0 + j"
    using assms by (simp_all only: unat_of_nat) simp_all
  then show ?thesis
    by (simp add: word_le_nat_alt)
qed

lemma key_eq:
  assumes "r0 + N < 2 ^ 32" and "i \<le> N" and "j \<le> N"
  shows "(word_of_nat (r0 + i) :: u32) = word_of_nat (r0 + j) \<longleftrightarrow> i = j"
  using key_le [OF assms] key_le [OF assms(1,3,2)] by (metis order_antisym order_refl)

lemma dispatch_copy:
  assumes "sendable ms"
  shows "DispatchRawBunch_Interanl ch (BufferReader_ctor (bunch_payload ms)) (unat (word_of_nat (length ms) :: u8))
    = (ch\<lparr>PendingDispatch := PendingDispatch ch @ ms\<rparr>, True)"
proof -
  have "unat (word_of_nat (length ms) :: u8) = length ms"
    using assms by (simp add: sendable_def unat_of_nat)
  then show ?thesis
    using Interanl_messages [of ms ch "[]"] assms by (simp add: sendable_def BufferReader_ctor_def)
qed

lemma prefix_bound:
  assumes "{1..k} \<subseteq> A" and "A \<subseteq> {1..<N}" and "0 < (N::nat)"
  shows "Suc k \<le> N"
proof (cases "k = 0")
  case False
  then have "k \<in> A"
    using assms(1) by auto
  then show ?thesis
    using assms(2) by auto
qed (use assms in simp)

lemma receiver_invD:
  assumes "receiver_inv r0 N sent Q A k ch"
  shows "bReliable ch" "omap_ok (InUnreadBunchMap ch)" "A \<subseteq> {1..<N}" "{1..k} \<subseteq> A"
    "InReliable ch = word_of_nat (r0 + k)" "PendingDispatch ch = Q @ concat (map sent [1..<Suc k])"
    "map_of (InUnreadBunchMap ch) key = Some v
      \<longleftrightarrow> (\<exists>i\<in>A. k < i \<and> key = word_of_nat (r0 + i) \<and> v = copy_of r0 sent i)"
  using assms unfolding receiver_inv_def by blast+

lemma buffered_at:
  assumes inv: "receiver_inv r0 N sent Q A k ch" and N: "r0 + N < 2 ^ 32" and i: "i \<le> N" "k < i"
  shows "map_of (InUnreadBunchMap ch) (word_of_nat (r0 + i)) = (if i \<in> A then Some (copy_of r0 sent i) else None)"
proof (cases "i \<in> A")
  case True
  then have "map_of (InUnreadBunchMap ch) (word_of_nat (r0 + i)) = Some (copy_of r0 sent i)"
    using i(2) unfolding receiver_invD(7) [OF inv] by blast
  with True show ?thesis
    by simp
next
  case False
  have "map_of (InUnreadBunchMap ch) (word_of_nat (r0 + i)) \<noteq> Some v" for v
  proof
    assume "map_of (InUnreadBunchMap ch) (word_of_nat (r0 + i)) = Some v"
    then obtain j where j: "j \<in> A" "(word_of_nat (r0 + i) :: u32) = word_of_nat (r0 + j)"
      unfolding receiver_invD(7) [OF inv] by blast
    have "j \<le> N"
      using receiver_invD(3) [OF inv] j(1) by auto
    then show False
      using key_eq [OF N i(1)] j False by auto
  qed
  with False show ?thesis
    by (cases "map_of (InUnreadBunchMap ch) (word_of_nat (r0 + i))") auto
qed

lemma buffered_least:
  assumes inv: "receiver_inv r0 N sent Q A k ch" and N: "r0 + N < 2 ^ 32" "Suc k \<le> N"
    and key: "map_of (InUnreadBunchMap ch) key \<noteq> None"
  shows "word_of_nat (r0 + Suc k) \<le> key"
proof -
  obtain v where "map_of (InUnreadBunchMap ch) key = Some v"
    using key by blast
  then obtain i where i: "i \<in> A" "k < i" "key = word_of_nat (r0 + i)"
    unfolding receiver_invD(7) [OF inv] by blast
  have "i \<le> N"
    using receiver_invD(3) [OF inv] i(1) by auto
  then show ?thesis
    using key_le [OF N] i(2,3) by simp
qed

text \<open>Taking the first buffered bunch when it is the next one.\<close>

lemma receiver_inv_next:
  assumes inv: "receiver_inv r0 N sent Q A k ch" and N: "r0 + N < 2 ^ 32" "Suc k \<le> N" and "Suc k \<in> A"
    and m: "InUnreadBunchMap ch = (word_of_nat (r0 + Suc k), copy_of r0 sent (Suc k)) # m"
  shows "receiver_inv r0 N sent Q A (Suc k) (ch\<lparr>PendingDispatch := PendingDispatch ch @ sent (Suc k),
    InReliable := InReliable ch + 1, InUnreadBunchMap := m\<rparr>)"
proof -
  note D = receiver_invD [OF inv]
  have e: "m = omap_erase (word_of_nat (r0 + Suc k)) (InUnreadBunchMap ch)"
    using omap_first_Cons D(2) unfolding m by metis
  have ok: "omap_ok m"
    using D(2) unfolding m by (simp add: omap_ok_Cons)
  have "map_of m key = Some v \<longleftrightarrow> (\<exists>i\<in>A. Suc k < i \<and> key = word_of_nat (r0 + i) \<and> v = copy_of r0 sent i)" for key v
  proof -
    have 1: "map_of m key = Some v \<longleftrightarrow> key \<noteq> word_of_nat (r0 + Suc k) \<and> map_of (InUnreadBunchMap ch) key = Some v"
      unfolding e by simp
    have 2: "(word_of_nat (r0 + i) :: u32) = word_of_nat (r0 + Suc k) \<longleftrightarrow> i = Suc k" if "i \<in> A" for i
    proof (rule key_eq [OF N(1) _ N(2)])
      show "i \<le> N"
        using D(3) \<open>i \<in> A\<close> by auto
    qed
    show ?thesis
      unfolding 1 D(7) using 2 Suc_lessI less_SucI Suc_lessD by (metis less_irrefl)
  qed
  moreover have "{1..Suc k} \<subseteq> A"
    using D(4) assms(4) by (auto simp: le_Suc_eq)
  moreover have "InReliable ch + 1 = word_of_nat (r0 + Suc k)"
    using D(5) by simp
  moreover have "PendingDispatch ch @ sent (Suc k) = Q @ concat (map sent [1..<Suc (Suc k)])"
    using D(6) by simp
  ultimately show ?thesis
    using D(1,3) ok unfolding receiver_inv_def by simp
qed

lemma drain_inv:
  assumes "receiver_inv r0 N sent Q A k ch" and N: "r0 + N < 2 ^ 32" and "0 < N" and sent: "\<forall>i. sendable (sent i)"
  shows "\<exists>k'\<ge>k. receiver_inv r0 N sent Q A k' (drain ch) \<and> Suc k' \<notin> A"
  using assms(1)
proof (induction "card (A - {1..k})" arbitrary: k ch rule: less_induct)
  case less
  note inv = less.prems
  note D = receiver_invD [OF inv]
  have kN: "Suc k \<le> N"
    by (rule prefix_bound [OF D(4,3) assms(3)])
  note at = buffered_at [OF inv N kN lessI] and least = buffered_least [OF inv N kN]
  have next_key: "InReliable ch + 1 = word_of_nat (r0 + Suc k)"
    using D(5) by simp
  show ?case
  proof (cases "Suc k \<in> A")
    case False
    have "omap_first (InUnreadBunchMap ch) \<noteq> Some (InReliable ch + 1, v)" for v
      using omap.first_Some [OF D(2)] at False unfolding next_key by auto
    then have "drain ch = ch"
      by (subst drain.simps) (auto split: option.splits)
    then show ?thesis
      using inv False by auto
  next
    case True
    have first: "omap_first (InUnreadBunchMap ch) = Some (word_of_nat (r0 + Suc k), copy_of r0 sent (Suc k))"
      by (rule omap.first_least [OF D(2)]) (use at True least in auto)
    obtain m where m: "InUnreadBunchMap ch = (word_of_nat (r0 + Suc k), copy_of r0 sent (Suc k)) # m"
      using first by (cases "InUnreadBunchMap ch") (auto simp: omap_first_def)
    let ?ch = "ch\<lparr>PendingDispatch := PendingDispatch ch @ sent (Suc k), InReliable := InReliable ch + 1,
      InUnreadBunchMap := m\<rparr>"
    have step: "drain ch = drain ?ch"
      using D(1) first next_key dispatch_copy [of "sent (Suc k)" ch] sent m
      by (subst drain.simps) (simp add: copy_of_def GetReader_def InBunchReader_ctor_def)
    have "finite A"
      using D(3) finite_subset by blast
    moreover have "A - {1..Suc k} \<subset> A - {1..k}"
    proof (rule psubsetI)
      have "Suc k \<in> A - {1..k}" "Suc k \<notin> A - {1..Suc k}"
        using True by auto
      then show "A - {1..Suc k} \<noteq> A - {1..k}"
        by metis
    qed auto
    ultimately have "card (A - {1..Suc k}) < card (A - {1..k})"
      by (intro psubset_card_mono) auto
    from less.hyps [OF this receiver_inv_next [OF inv N kN True m]] show ?thesis
      using step by (metis Suc_leD)
  qed
qed

lemma arrive_inv:
  assumes inv: "receiver_inv r0 N sent Q A k ch" and N: "r0 + N < 2 ^ 32" and "0 < N" and sent: "\<forall>i. sendable (sent i)"
    and gap: "Suc k \<notin> A" and i: "i \<in> {1..<N}" "i \<notin> A"
  shows "\<exists>k'. receiver_inv r0 N sent Q (insert i A) k' (arrive r0 sent i ch) \<and> Suc k' \<notin> insert i A"
proof -
  note D = receiver_invD [OF inv]
  have kN: "Suc k \<le> N"
    by (rule prefix_bound [OF D(4,3) assms(3)])
  have "k < i"
    using i D(4) by (metis atLeastAtMost_iff atLeastLessThan_iff linorder_not_le subset_iff)
  have next_key: "InReliable ch + 1 = word_of_nat (r0 + Suc k)"
    using D(5) by simp
  have eq: "(word_of_nat (r0 + i) :: u32) = word_of_nat (r0 + Suc k) \<longleftrightarrow> i = Suc k"
    using key_eq [OF N _ kN] i(1) by simp
  have sub: "insert i A \<subseteq> {1..<N}" "{1..k} \<subseteq> insert i A"
    using D(3,4) i(1) by auto
  show ?thesis
  proof (cases "i = Suc k")
    case True
    let ?ch = "ch\<lparr>PendingDispatch := PendingDispatch ch @ sent i, InReliable := InReliable ch + 1\<rparr>"
    have "arrive r0 sent i ch = drain ?ch"
      using True next_key dispatch_copy [of "sent i" ch] sent
      by (simp add: arrive_def ReceiveBunch_def DispatchRawBunch_def)
    moreover have "map_of (InUnreadBunchMap ch) key = Some v
        \<longleftrightarrow> (\<exists>j\<in>insert i A. Suc k < j \<and> key = word_of_nat (r0 + j) \<and> v = copy_of r0 sent j)" for key v
    proof -
      have "j \<in> A \<and> k < j \<longleftrightarrow> j \<in> insert i A \<and> Suc k < j" for j
        using True gap by (cases "j = Suc k") auto
      then show ?thesis
        unfolding D(7) by blast
    qed
    then have "receiver_inv r0 N sent Q (insert i A) (Suc k) ?ch"
      using D(1,2,5,6) sub True unfolding receiver_inv_def by (auto simp: le_Suc_eq)
    ultimately show ?thesis
      using drain_inv [OF _ N assms(3) sent] by metis
  next
    case False
    let ?ch = "ch\<lparr>InUnreadBunchMap := omap_put (word_of_nat (r0 + i)) (copy_of r0 sent i) (InUnreadBunchMap ch)\<rparr>"
    have "map_of (InUnreadBunchMap ch) (word_of_nat (r0 + i)) = None"
      using buffered_at [OF inv N _ \<open>k < i\<close>] i by simp
    moreover have "word_of_nat (r0 + i) \<noteq> InReliable ch + 1"
      using False eq unfolding next_key by simp
    ultimately have "arrive r0 sent i ch = ?ch"
      by (simp add: arrive_def ReceiveBunch_def AddUnreadInCopyBunch_def copy_of_def del: of_nat_add)
    moreover have "map_of (omap_put (word_of_nat (r0 + i)) (copy_of r0 sent i) (InUnreadBunchMap ch)) key = Some v
        \<longleftrightarrow> (\<exists>j\<in>insert i A. k < j \<and> key = word_of_nat (r0 + j) \<and> v = copy_of r0 sent j)" for key v
    proof (cases "key = word_of_nat (r0 + i)")
      case True
      have "j = i" if "j \<in> insert i A" "key = word_of_nat (r0 + j)" for j
        using key_eq [OF N, of i j] that sub(1) True by fastforce
      then show ?thesis
        using True \<open>k < i\<close> by auto
    next
      case False
      then have same: "map_of (omap_put (word_of_nat (r0 + i)) (copy_of r0 sent i) (InUnreadBunchMap ch)) key
          = map_of (InUnreadBunchMap ch) key"
        by simp
      show ?thesis
        unfolding same D(7) using False by blast
    qed
    then have "receiver_inv r0 N sent Q (insert i A) k ?ch"
      using D(1,2,5,6) sub unfolding receiver_inv_def by auto
    ultimately show ?thesis
      using False gap by (intro exI [of _ k]) auto
  qed
qed

lemma arrivals_inv:
  assumes "receiver_inv r0 N sent Q A k ch" and "Suc k \<notin> A" and N: "r0 + N < 2 ^ 32" "0 < N"
    and sent: "\<forall>i. sendable (sent i)" and "distinct is" and "set is \<subseteq> {1..<N} - A"
  shows "\<exists>k'. receiver_inv r0 N sent Q (A \<union> set is) k' (fold (arrive r0 sent) is ch) \<and> Suc k' \<notin> A \<union> set is"
  using assms(1,2,6,7)
proof (induction "is" arbitrary: A k ch)
  case (Cons i "is")
  obtain k1 where k1: "receiver_inv r0 N sent Q (insert i A) k1 (arrive r0 sent i ch)" "Suc k1 \<notin> insert i A"
    using arrive_inv [OF Cons.prems(1) N sent Cons.prems(2), of i] Cons.prems(4) by auto
  have "set is \<subseteq> {1..<N} - insert i A"
    using Cons.prems(3,4) by auto
  from Cons.IH [OF k1 _ this] Cons.prems(3) show ?case
    by simp
qed auto

lemma receiver_inv_start:
  assumes "bReliable ch" and "InUnreadBunchMap ch = []" and "InReliable ch = word_of_nat r0"
  shows "receiver_inv r0 N sent (PendingDispatch ch) {} 0 ch"
  using assms by (simp add: receiver_inv_def)

text \<open>
  C1. Whatever the order in which the bunches of a reliable channel arrive, each at most once, the
  messages handed on are those of the longest run of bunches from the first on, in the order of
  sending, each message once; the bunches after the first gap wait.
\<close>

theorem channel_delivers_in_order:
  assumes "bReliable ch" and "InUnreadBunchMap ch = []" and "InReliable ch = word_of_nat r0"
    and "r0 + N < 2 ^ 32" and "0 < N" and "\<forall>i. sendable (sent i)"
    and "distinct arrivals" and "set arrivals \<subseteq> {1..<N}"
  shows "\<exists>k. {1..k} \<subseteq> set arrivals \<and> Suc k \<notin> set arrivals
    \<and> InReliable (fold (arrive r0 sent) arrivals ch) = word_of_nat (r0 + k)
    \<and> PendingDispatch (fold (arrive r0 sent) arrivals ch) = PendingDispatch ch @ concat (map sent [1..<Suc k])"
proof -
  obtain k where k: "receiver_inv r0 N sent (PendingDispatch ch) ({} \<union> set arrivals) k (fold (arrive r0 sent) arrivals ch)"
    "Suc k \<notin> set arrivals"
    using arrivals_inv [OF receiver_inv_start [OF assms(1-3)] _ assms(4-7)] assms(8) by auto
  show ?thesis
    using receiver_invD(4-6) [OF k(1)] k(2) by (intro exI [of _ k]) auto
qed

definition sample_messages :: "nat \<Rightarrow> RecvMessageReader list" where
  "sample_messages i = [\<lparr>RView = [word_of_nat i], RMessageId = 7\<rparr>]"

theorem channel_delivers_in_order_witness:
  "\<exists>k. {1..k} \<subseteq> {3, 1, 2, 5} \<and> Suc k \<notin> {3, 1, 2, 5}
    \<and> InReliable (fold (arrive 1000 sample_messages) [3, 1, 2, 5] (ControlChannel_Init ControlChannel_ctor 0 1000 0))
        = word_of_nat (1000 + k)"
proof -
  have "InReliable (ControlChannel_Init ControlChannel_ctor 0 1000 0) = word_of_nat 1000"
    by (simp add: ControlChannel_Init_def)
  moreover have "bReliable (ControlChannel_Init ControlChannel_ctor 0 1000 0)"
    "InUnreadBunchMap (ControlChannel_Init ControlChannel_ctor 0 1000 0) = []"
    "\<forall>i. sendable (sample_messages i)"
    by (simp_all add: ControlChannel_Init_def ControlChannel_ctor_def NetChannel_ctor_def sendable_def
        sample_messages_def message_ok_def)
  ultimately show ?thesis
    using channel_delivers_in_order [of "ControlChannel_Init ControlChannel_ctor 0 1000 0" 1000 6 sample_messages "[3, 1, 2, 5]"]
    by auto
qed

section \<open>A stale bunch\<close>

text \<open>
  \<open>blocked ch\<close>: the first buffered bunch is an old one, which no drain removes: its number is
  not the next one, and the next one only grows.
\<close>

definition blocked :: "u32 \<Rightarrow> NetChannel \<Rightarrow> bool" where
  "blocked k ch \<longleftrightarrow> omap_ok (InUnreadBunchMap ch) \<and> (\<exists>v. omap_first (InUnreadBunchMap ch) = Some (k, v)) \<and> k \<le> InReliable ch"

lemma below_next: "k \<le> n \<Longrightarrow> n < - 1 \<Longrightarrow> k < n + (1 :: u32)"
proof -
  assume "k \<le> n" and n: "n < - 1"
  have "unat n < 2 ^ 32 - 1"
    using n unfolding word_less_nat_alt by (simp add: unsigned_minus_1_eq_mask mask_eq_exp_minus_1)
  then have "unat (n + 1) = unat n + 1"
    by (simp add: unat_word_ariths)
  with \<open>k \<le> n\<close> show "k < n + 1"
    by (simp add: word_less_nat_alt word_le_nat_alt)
qed

lemma drain_blocked:
  assumes "blocked k ch" and "InReliable ch < - 1"
  shows "drain ch = ch"
proof -
  obtain v where v: "omap_first (InUnreadBunchMap ch) = Some (k, v)"
    using assms(1) by (auto simp: blocked_def)
  moreover have "k < InReliable ch + 1"
    using assms below_next by (simp add: blocked_def)
  ultimately show ?thesis
    by (subst drain.simps) auto
qed

lemma AddUnread_blocked:
  assumes "blocked k ch" and "k \<le> j"
  shows "blocked k (AddUnreadInCopyBunch ch j c)" "InReliable (AddUnreadInCopyBunch ch j c) = InReliable ch"
    "PendingDispatch (AddUnreadInCopyBunch ch j c) = PendingDispatch ch"
  using assms omap.smallest_stays_first [of "InUnreadBunchMap ch" k _ j c] omap.first_Some [of "InUnreadBunchMap ch" k]
  by (auto simp: blocked_def AddUnreadInCopyBunch_def order_le_less)

text \<open>The further bunches of the channel, none of them the next one.\<close>

definition receive_all :: "(u32 \<times> u8 list \<times> u8) list \<Rightarrow> NetChannel \<Rightarrow> NetChannel" where
  "receive_all bs ch = fold (\<lambda>(s, view, cnt) ch. ReceiveBunch ch True s view cnt) bs ch"

lemma not_next_buffered:
  "s \<noteq> InReliable ch + 1 \<Longrightarrow> ReceiveBunch ch True s view cnt = AddUnreadInCopyBunch ch s (InBunchReader_ctor view s cnt)"
  by (simp add: ReceiveBunch_def)

lemma AddUnread_fields:
  "InReliable (AddUnreadInCopyBunch ch j c) = InReliable ch" "PendingDispatch (AddUnreadInCopyBunch ch j c) = PendingDispatch ch"
  by (simp_all add: AddUnreadInCopyBunch_def)

lemma waits_for_next:
  "\<forall>b\<in>set bs. fst b \<noteq> InReliable ch + 1 \<Longrightarrow>
   InReliable (receive_all bs ch) = InReliable ch \<and> PendingDispatch (receive_all bs ch) = PendingDispatch ch"
proof (induction bs arbitrary: ch)
  case (Cons b bs)
  obtain s view cnt where b: "b = (s, view, cnt)"
    by (cases b) auto
  have "receive_all (b # bs) ch = receive_all bs (AddUnreadInCopyBunch ch s (InBunchReader_ctor view s cnt))"
    using Cons.prems b by (simp add: receive_all_def not_next_buffered)
  then show ?case
    using Cons by (simp add: AddUnread_fields)
qed (simp add: receive_all_def)

text \<open>
  A duplicate of a bunch already delivered (the connection dispatches duplicated packets too)
  stops the reordering for good: it stays first in the buffer, so when bunch \<open>n + 2\<close> arrives before
  bunch \<open>n + 1\<close>, only \<open>n + 1\<close> is delivered, and \<open>n + 2\<close>, which is in the buffer and acknowledged, is
  not delivered however many other bunches follow.
\<close>

theorem stale_duplicate_stops_reordering:
  fixes view1 view2 :: "u8 list" and cnt1 cnt2 :: u8
  assumes "bReliable ch" and "InUnreadBunchMap ch = []" and "InReliable ch = n" and "k \<le> n" and "n < - 2"
    and "sendable ms" and "\<forall>b\<in>set later. fst b \<noteq> n + 2"
  defines "ch1 \<equiv> ReceiveBunch ch True k view1 cnt1"
  defines "ch2 \<equiv> ReceiveBunch ch1 True (n + 2) view2 cnt2"
  defines "ch3 \<equiv> ReceiveBunch ch2 True (n + 1) (bunch_payload ms) (word_of_nat (length ms))"
  shows "map_of (InUnreadBunchMap ch3) (n + 2) = Some (InBunchReader_ctor view2 (n + 2) cnt2)
    \<and> InReliable ch3 = n + 1 \<and> PendingDispatch ch3 = PendingDispatch ch @ ms
    \<and> InReliable (receive_all later ch3) = n + 1 \<and> PendingDispatch (receive_all later ch3) = PendingDispatch ch @ ms"
proof -
  have lt: "k < n + 1" "k < n + 2" "n + 1 < - 1" "n + 2 \<noteq> n + 1"
  proof -
    have n1: "n < - 1"
      using assms(5) by (simp add: word_less_nat_alt unsigned_minus_1_eq_mask mask_eq_exp_minus_1)
    show a: "k < n + 1"
      by (rule below_next [OF assms(4) n1])
    have "unat n < 2 ^ 32 - 2"
      using assms(5) by (simp add: word_less_nat_alt)
    then have u: "unat (n + 1) = unat n + 1" "unat (n + 2) = unat n + 2"
      by (simp_all add: unat_word_ariths)
    then show "n + 1 < - 1" "n + 2 \<noteq> n + 1"
      using \<open>unat n < 2 ^ 32 - 2\<close> by (auto simp: word_less_nat_alt unsigned_minus_1_eq_mask mask_eq_exp_minus_1)
    show "k < n + 2"
      using assms(4) u by (simp add: word_less_nat_alt word_le_nat_alt)
  qed
  have ch1: "ch1 = ch\<lparr>InUnreadBunchMap := [(k, InBunchReader_ctor view1 k cnt1)]\<rparr>"
    using assms(2,3) lt by (simp add: ch1_def not_next_buffered AddUnreadInCopyBunch_def)
  then have "blocked k ch1"
    using assms(3,4) by (simp add: blocked_def omap_ok_def omap_first_def)
  have ch2: "ch2 = ch\<lparr>InUnreadBunchMap := [(k, InBunchReader_ctor view1 k cnt1), (n + 2, InBunchReader_ctor view2 (n + 2) cnt2)]\<rparr>"
  proof -
    have "\<not> n + 2 < k" "n + 2 \<noteq> k" "k \<noteq> n + 2"
      using lt(2) by auto
    moreover have "n + 2 \<noteq> InReliable ch1 + 1"
      using lt(4) assms(3) unfolding ch1 by simp
    ultimately show ?thesis
      unfolding ch2_def not_next_buffered [OF \<open>n + 2 \<noteq> InReliable ch1 + 1\<close>]
      unfolding ch1 by (simp add: AddUnreadInCopyBunch_def)
  qed
  let ?ch3 = "ch2\<lparr>PendingDispatch := PendingDispatch ch @ ms, InReliable := n + 1\<rparr>"
  have "blocked k ?ch3"
    using lt assms(3,4) unfolding ch2 by (auto simp: blocked_def omap_ok_def omap_first_def)
  then have ch3: "ch3 = ?ch3"
    using drain_blocked [of k ?ch3] lt assms(3) dispatch_copy [OF assms(6), of ch2]
    by (simp add: ch3_def ch2 ReceiveBunch_def DispatchRawBunch_def)
  have "\<forall>b\<in>set later. fst b \<noteq> InReliable ch3 + 1"
    using assms(7) unfolding ch3 by (simp add: add.assoc)
  from waits_for_next [OF this] show ?thesis
    using lt unfolding ch3 ch2 by auto
qed

theorem stale_duplicate_stops_reordering_witness:
  "InReliable (receive_all [(9, [], 0), (10, [], 0)]
     (ReceiveBunch (ReceiveBunch (ReceiveBunch (ControlChannel_Init ControlChannel_ctor 0 5 0) True 4 [] 0)
        True (5 + 2) [] 0) True (5 + 1) (bunch_payload (sample_messages 1)) (word_of_nat (length (sample_messages 1))))) = 5 + 1"
  using stale_duplicate_stops_reordering [where ch = "ControlChannel_Init ControlChannel_ctor 0 5 0" and n = 5 and k = 4
      and ms = "sample_messages 1" and later = "[(9, [], 0), (10, [], 0)]" and ?view1.0 = "[]" and ?cnt1.0 = 0
      and ?view2.0 = "[]" and ?cnt2.0 = 0]
  by (simp add: ControlChannel_Init_def ControlChannel_ctor_def NetChannel_ctor_def sendable_def
        sample_messages_def message_ok_def)

section \<open>Outstanding bunches\<close>

text \<open>The bunches a channel still owes the receiver: waiting to be sent, or sent and not acknowledged.\<close>

definition unacked :: "NetChannel \<Rightarrow> OutReadyBunch list" where
  "unacked ch = concat (map snd (OutUnAckedBunches ch))"

definition outstanding :: "NetChannel \<Rightarrow> OutReadyBunch multiset" where
  "outstanding ch = mset (OutBunchQueue ch) + mset (unacked ch)"

lemma push_fronts_append: "push_fronts Bunchs Queue = Bunchs @ Queue"
  by (induction Bunchs arbitrary: Queue) (auto simp: push_fronts_def)

lemma fold_push_fronts: "fold (\<lambda>(_, Bunches) Queue. push_fronts Bunches Queue) (rev m) Queue = concat (map snd m) @ Queue"
  by (induction m arbitrary: Queue) (auto simp: push_fronts_append)

definition packet_bunches :: "NetChannel \<Rightarrow> u32 \<Rightarrow> OutReadyBunch list" where
  "packet_bunches ch p = (case map_of (OutUnAckedBunches ch) p of None \<Rightarrow> [] | Some bs \<Rightarrow> bs)"

lemma mset_erase:
  "omap_ok m \<Longrightarrow> mset (concat (map snd m))
     = mset (case map_of m k of None \<Rightarrow> [] | Some bs \<Rightarrow> bs) + mset (concat (map snd (omap_erase k m)))"
proof (induction m)
  case (Cons p m)
  show ?case
  proof (cases "fst p = k")
    case True
    then have "omap_erase k (p # m) = m"
      using Cons.prems omap_first_Cons [of k "snd p" m] by (cases p) auto
    then show ?thesis
      using True by simp
  next
    case False
    then show ?thesis
      using Cons by (simp add: omap_erase_def omap_ok_Cons)
  qed
qed (simp add: omap_erase_def)

lemma mset_put_append:
  "omap_ok m \<Longrightarrow> mset (concat (map snd (omap_put k ((case map_of m k of None \<Rightarrow> [] | Some bs \<Rightarrow> bs) @ [x]) m)))
     = add_mset x (mset (concat (map snd m)))"
proof (induction m)
  case (Cons p m)
  obtain k' v' where p: "p = (k', v')"
    by (cases p)
  have *: "map_of m k = None" if "k < k'"
    using Cons.prems that p unfolding map_of_eq_None_iff omap_ok_Cons by force
  show ?case
    using Cons * p by (auto simp: omap_ok_Cons)
qed simp

text \<open>
  C5. No bunch is lost or doubled on the sending side: recording a sent bunch, a loss and a forced
  retransmission keep the bunches the channel owes, an acknowledgement removes exactly those of
  its packet; a loss puts the packet's bunches, in their order, before all that wait, and a forced
  retransmission puts all unacknowledged ones there, in the order of their packets.
\<close>

theorem outstanding_bunches_conserved:
  assumes "omap_ok (OutUnAckedBunches ch)"
  shows "(length (OutUnAckedBunches ch) < RELIABLE_BUFFER \<longrightarrow>
        outstanding (fst (AddUnAckedOutBunch ch p x)) = add_mset x (outstanding ch))
    \<and> outstanding ch = mset (packet_bunches ch p) + outstanding (Acked ch p)
    \<and> outstanding (Nacked ch p) = outstanding ch
      \<and> OutBunchQueue (Nacked ch p) = packet_bunches ch p @ OutBunchQueue ch \<and> packet_bunches (Nacked ch p) p = []
    \<and> outstanding (ForceRetransmitAllUnAcked ch) = outstanding ch
      \<and> OutBunchQueue (ForceRetransmitAllUnAcked ch) = unacked ch @ OutBunchQueue ch
      \<and> unacked (ForceRetransmitAllUnAcked ch) = []"
proof -
  note e = mset_erase [OF assms, of p]
  have "length (OutUnAckedBunches ch) < RELIABLE_BUFFER \<longrightarrow>
        outstanding (fst (AddUnAckedOutBunch ch p x)) = add_mset x (outstanding ch)"
    using mset_put_append [OF assms, of p x] by (auto simp: AddUnAckedOutBunch_def outstanding_def unacked_def)
  moreover have "outstanding ch = mset (packet_bunches ch p) + outstanding (Acked ch p)"
    using e by (simp add: outstanding_def unacked_def Acked_def packet_bunches_def)
  moreover have "outstanding (Nacked ch p) = outstanding ch
      \<and> OutBunchQueue (Nacked ch p) = packet_bunches ch p @ OutBunchQueue ch \<and> packet_bunches (Nacked ch p) p = []"
    using e by (simp add: outstanding_def unacked_def Nacked_def packet_bunches_def push_fronts_append Let_def)
  moreover have "outstanding (ForceRetransmitAllUnAcked ch) = outstanding ch
      \<and> OutBunchQueue (ForceRetransmitAllUnAcked ch) = unacked ch @ OutBunchQueue ch
      \<and> unacked (ForceRetransmitAllUnAcked ch) = []"
    by (auto simp: ForceRetransmitAllUnAcked_def outstanding_def unacked_def fold_push_fronts)
  ultimately show ?thesis
    by blast
qed

theorem outstanding_bunches_conserved_witness:
  "\<forall>x. outstanding (Nacked (fst (AddUnAckedOutBunch ControlChannel_ctor 3 x)) 3) = {#x#}"
proof
  fix x
  have "omap_ok (OutUnAckedBunches ControlChannel_ctor)" "length (OutUnAckedBunches ControlChannel_ctor) < RELIABLE_BUFFER"
    "outstanding ControlChannel_ctor = {#}" "omap_ok (OutUnAckedBunches (fst (AddUnAckedOutBunch ControlChannel_ctor 3 x)))"
    by (auto simp: ControlChannel_ctor_def NetChannel_ctor_def RELIABLE_BUFFER_def outstanding_def unacked_def
        AddUnAckedOutBunch_def omap_ok_def)
  then show "outstanding (Nacked (fst (AddUnAckedOutBunch ControlChannel_ctor 3 x)) 3) = {#x#}"
    using outstanding_bunches_conserved [of ControlChannel_ctor 3 x]
      outstanding_bunches_conserved [of "fst (AddUnAckedOutBunch ControlChannel_ctor 3 x)" 3 x] by simp
qed

text \<open>
  A bunch whose second message does not fit its payload is rejected, yet its first message has
  been handed on already, and the sequence number does not advance: a repeated bunch delivers the
  first message again. (The comment in the code says that all messages are read or none.)
\<close>

theorem rejected_bunch_delivers_prefix:
  assumes "message_ok m" and "length rest < 4" and "omap_first (InUnreadBunchMap ch) = None"
  shows "DispatchRawBunch ch (message_bytes m @ rest) 2 = ch\<lparr>PendingDispatch := PendingDispatch ch @ [m]\<rparr>
    \<and> DispatchRawBunch (DispatchRawBunch ch (message_bytes m @ rest) 2) (message_bytes m @ rest) 2
      = ch\<lparr>PendingDispatch := PendingDispatch ch @ [m, m]\<rparr>"
proof -
  have step: "DispatchRawBunch c (message_bytes m @ rest) 2 = c\<lparr>PendingDispatch := PendingDispatch c @ [m]\<rparr>"
    if "omap_first (InUnreadBunchMap c) = None" for c
  proof -
    have "DispatchRawBunch_Interanl c \<lparr>BView = message_bytes m @ rest, BError = False\<rparr> (Suc (Suc 0))
        = (ReceivedMessage c m, False)"
      unfolding Interanl_message [OF assms(1)] using assms(2) by (simp add: CanRead_def)
    then show ?thesis
      using that by (simp add: DispatchRawBunch_def BufferReader_ctor_def drain.simps ReceivedMessage_def numeral_2_eq_2)
  qed
  show ?thesis
    using step [of ch] step [of "ch\<lparr>PendingDispatch := PendingDispatch ch @ [m]\<rparr>"] assms(3) by simp
qed

theorem rejected_bunch_delivers_prefix_witness:
  "PendingDispatch (DispatchRawBunch ControlChannel_ctor
     (message_bytes \<lparr>RView = [1, 2], RMessageId = 7\<rparr> @ [9]) 2) = [\<lparr>RView = [1, 2], RMessageId = 7\<rparr>]"
  using rejected_bunch_delivers_prefix [of "\<lparr>RView = [1, 2], RMessageId = 7\<rparr>" "[9]" ControlChannel_ctor]
  by (simp add: message_ok_def ControlChannel_ctor_def NetChannel_ctor_def omap_first_def)

section \<open>Flushing\<close>

lemma move_ready_eq: "move_ready b Queue = (b\<lparr>QueuedOutBunch := []\<rparr>, Queue @ QueuedOutBunch b)"
proof (induction "QueuedOutBunch b" arbitrary: b Queue)
  case Nil
  then show ?case
    by (subst move_ready.simps) (simp add: TryDequeueReady_def)
next
  case (Cons x xs)
  have "TryDequeueReady b = (b\<lparr>QueuedOutBunch := xs\<rparr>, Some x)"
    using Cons.hyps(2) [symmetric] by (simp add: TryDequeueReady_def)
  then show ?case
    using Cons.hyps(1) [of "b\<lparr>QueuedOutBunch := xs\<rparr>"] Cons.hyps(2) [symmetric]
    by (subst move_ready.simps) simp
qed

lemma TickFlush_bunches:
  assumes b: "BunchBuilder ch = Some b" "builder_wf b" "ActiveHasInit b \<or> ActiveMsgs b = []" "QueuedOutBunch b = []"
    and small: "\<forall>m\<in>set (QueuedMessage b). unat (MSize m) < 2 ^ 31"
  shows "\<exists>b' bs. TickFlush ch t0 t1 t2 = Some (ch\<lparr>BunchBuilder := Some b', OutBunchQueue := OutBunchQueue ch @ bs,
      OutReliable := OutReliable ch + word_of_nat (length bs)\<rparr>)
    \<and> good_from b (OutReliable ch) bs \<and> QueuedMessage b' = drop 256 (QueuedMessage b) \<and> QueuedOutBunch b' = []
    \<and> ActiveMsgs b' = [] \<and> builder_wf b' \<and> config b' = config b
    \<and> concat (map Messages bs) = ActiveMsgs b @ filter (fits b) (take 256 (QueuedMessage b))"
proof -
  obtain b1 s1 where P: "Pump b (OutReliable ch) 256 True t0 t1 t2 = Some (b1, s1)"
    "progress b (OutReliable ch) b1 s1 (filter (fits b) (take 256 (QueuedMessage b)))"
    "QueuedMessage b1 = drop 256 (QueuedMessage b)" "ActiveMsgs b1 = []"
    using progress_Pump [OF b(2,3) small, of "OutReliable ch" 256 True t0 t1 t2] by auto
  obtain bs where bs: "QueuedOutBunch b1 = bs" "good_from b (OutReliable ch) bs" "s1 = OutReliable ch + word_of_nat (length bs)"
    "concat (map Messages bs) = ActiveMsgs b @ filter (fits b) (take 256 (QueuedMessage b))" "builder_wf b1" "config b1 = config b"
    using P(2,4) b(4) unfolding progress_def by auto
  have "TickFlush ch t0 t1 t2 = Some (ch\<lparr>BunchBuilder := Some (b1\<lparr>QueuedOutBunch := []\<rparr>),
      OutBunchQueue := OutBunchQueue ch @ bs, OutReliable := OutReliable ch + word_of_nat (length bs)\<rparr>)"
    using b(1) P(1) bs(1,3) by (simp add: TickFlush_def PumpBunch_def move_ready_eq)
  moreover have "builder_wf (b1\<lparr>QueuedOutBunch := []\<rparr>)" "config (b1\<lparr>QueuedOutBunch := []\<rparr>) = config b"
    using bs(5,6) by (simp_all add: builder_wf_def config_def)
  ultimately show ?thesis
    using bs P(3,4) by (intro exI [of _ "b1\<lparr>QueuedOutBunch := []\<rparr>"] exI [of _ bs]) simp
qed

end
