(* ===== verification/ConnectionM.thy ===== *)
theory ConnectionM
  imports HandshakeWire SettingM PacketNotify Rtt ChanRecord ChannelM
begin

text \<open>
  Network, \<open>connection/NetConnection\<close> and \<open>GameNetConnection\<close>: a connection sends the bunches of its
  channels in numbered packets, is told by the headers it receives which of them arrived, and hands the
  bunches of received packets to the channels. Packet ids are \<open>int\<close> (their overflow, after \<open>2 ^ 31\<close>
  packets, is undefined in C++). The clock values an operation reads are its arguments, in nanoseconds
  for \<open>Now\<close> and in microseconds for \<open>NowUs\<close>. A call of the driver's \<open>RemoveConnection\<close> is recorded in
  \<open>RemoveCalls\<close>, and message buffers released on the way in \<open>Released\<close>. The jobs of a connection run on
  one thread, so each is one step. A null or out of range channel that is used is \<open>None\<close>.
\<close>

datatype EConnectionState = USOCK_Invalid | USOCK_Closed | USOCK_Pending | USOCK_Open

record NetConnection =
  CState :: EConnectionState
  Channels :: "NetChannel option list"
  OutPacketQueue :: "OutReadyPacket list"
  CNotify :: NetPacketNotify
  PendingReaders :: "RecvPacketReader list"
  Record :: ConnectionChannelRecord
  CRtt :: RttTracker
  HasDirtyAcks :: u32
  InPacketId :: int
  COutPacketId :: int
  OutAckPacketId :: int
  LastNotifiedSendPacketId :: int
  InitInReliable :: u32
  InitOutReliable :: u32
  UniqueConnectionId :: u32
  LastReceiveTime :: int
  LastSendTime :: int
  ConnAddr :: SockAddr
  bHasDriver :: bool
  RemoveCalls :: "string list"
  Released :: "NetMessage list"

definition MAX_CHSEQUENCE :: u32 where "MAX_CHSEQUENCE = 1024"

text \<open>\<open>OutAckPacketId\<close> has no initialiser: \<open>junk\<close> is its value.\<close>

definition NetConnection_ctor :: "int \<Rightarrow> NetConnection" where
  "NetConnection_ctor junk = \<lparr>CState = USOCK_Invalid, Channels = [], OutPacketQueue = [], CNotify = NetPacketNotify_ctor,
     PendingReaders = [], Record = ChannelRecord_ctor, CRtt = RttTracker_ctor, HasDirtyAcks = 0, InPacketId = - 1,
     COutPacketId = 0, OutAckPacketId = junk, LastNotifiedSendPacketId = - 1, InitInReliable = 0, InitOutReliable = 0,
     UniqueConnectionId = 0, LastReceiveTime = 0, LastSendTime = 0, ConnAddr = \<lparr>ss_family = 0, sin_addr = 0, sin_port = 0\<rparr>,
     bHasDriver = False, RemoveCalls = [], Released = []\<rparr>"

text \<open>A sequence number made from a 32 bit integer, by conversion to 16 bits.\<close>

definition seq_of_int :: "int \<Rightarrow> SequenceNumber" where
  "seq_of_int i = MkSeq (word_of_int i)"

section \<open>Sequence numbers of channels\<close>

definition BestSignedDifference :: "u32 \<Rightarrow> u32 \<Rightarrow> u32 \<Rightarrow> u32" where
  "BestSignedDifference Value Reference Mx = ((Value - Reference + Mx div 2) AND (Mx - 1)) - Mx div 2"

definition MakeRelative :: "u32 \<Rightarrow> u32 \<Rightarrow> u32 \<Rightarrow> u32" where
  "MakeRelative Value Reference Mx = Reference + BestSignedDifference Value Reference Mx"

section \<open>Opening and closing\<close>

definition Close :: "NetConnection \<Rightarrow> string \<Rightarrow> NetConnection" where
  "Close c Reason =
     (if CState c = USOCK_Closed then c
      else (let c = c\<lparr>CState := USOCK_Closed\<rparr>
            in if bHasDriver c then c\<lparr>RemoveCalls := RemoveCalls c @ [Reason]\<rparr> else c))"

definition InitChannelData :: "DriverSetting \<Rightarrow> NetConnection \<Rightarrow> NetConnection" where
  "InitChannelData S c =
     (if Channels c \<noteq> [] then c
      else c\<lparr>Channels := replicate (unat (MaxChannelsSize S)) None,
             CNotify := Notify_Init (CNotify c) (seq_of_int (InPacketId c)) (seq_of_int (COutPacketId c))\<rparr>)"

definition NetConnection_InitBase :: "DriverSetting \<Rightarrow> NetConnection \<Rightarrow> EConnectionState \<Rightarrow> int \<Rightarrow> NetConnection" where
  "NetConnection_InitBase S c InState Now =
     (let c = InitChannelData S (c\<lparr>bHasDriver := True\<rparr>)
      in c\<lparr>CState := InState, LastReceiveTime := Now, LastSendTime := Now\<rparr>)"

definition InitRemoteConnection :: "DriverSetting \<Rightarrow> NetConnection \<Rightarrow> SockAddr \<Rightarrow> EConnectionState \<Rightarrow> u32 \<Rightarrow> int \<Rightarrow> NetConnection" where
  "InitRemoteConnection S c InRemoteAddr InState PlayerId Now =
     (NetConnection_InitBase S c InState Now)\<lparr>ConnAddr := InRemoteAddr, UniqueConnectionId := PlayerId\<rparr>"

text \<open>The resolver parses the configured address; when it is no address, none is set.\<close>

definition InitLocalConnection :: "DriverSetting \<Rightarrow> (string \<Rightarrow> SockAddr option) \<Rightarrow> NetConnection \<Rightarrow> EConnectionState \<Rightarrow> u32 \<Rightarrow> int \<Rightarrow> NetConnection" where
  "InitLocalConnection S resolve c InState PlayerId Now =
     (let c = (NetConnection_InitBase S c InState Now)\<lparr>UniqueConnectionId := PlayerId\<rparr>
      in case resolve (RemoteAddr S) of None \<Rightarrow> c | Some a \<Rightarrow> c\<lparr>ConnAddr := a\<rparr>)"

definition InitSequence :: "NetConnection \<Rightarrow> int \<Rightarrow> int \<Rightarrow> NetConnection \<times> bool" where
  "InitSequence c IncomingSequence OutgoingSequence =
     (if InPacketId c = - 1 then
        (let c = c\<lparr>InPacketId := IncomingSequence - 1, COutPacketId := OutgoingSequence,
                   OutAckPacketId := OutgoingSequence - 1\<rparr>;
             c = c\<lparr>LastNotifiedSendPacketId := OutAckPacketId c,
                   InitInReliable := word_of_int IncomingSequence AND (MAX_CHSEQUENCE - 1),
                   InitOutReliable := word_of_int OutgoingSequence AND (MAX_CHSEQUENCE - 1),
                   PendingReaders := [],
                   Record := (Record c)\<lparr>EntryRecord := []\<rparr>\<rparr>;
             c = c\<lparr>CNotify := Notify_Init (CNotify c) (seq_of_int (InPacketId c)) (seq_of_int (COutPacketId c))\<rparr>
         in (c\<lparr>Channels := map (map_option (\<lambda>ch. UpdateChannelSeq ch (InitInReliable c) (InitOutReliable c))) (Channels c)\<rparr>, True))
      else (c, False))"

text \<open>\<open>InternalCreateChannelByName\<close> of the driver and the \<open>Init\<close> of the channel it makes.\<close>

definition InternalCreateChannelByName :: "string \<Rightarrow> NetChannel option" where
  "InternalCreateChannelByName Name =
     (if Name = ''Control'' then Some ControlChannel_ctor
      else if Name = ''Actor'' then Some ActorChannel_ctor else None)"

definition Channel_Init :: "NetChannel \<Rightarrow> u8 \<Rightarrow> u32 \<Rightarrow> u32 \<Rightarrow> NetChannel" where
  "Channel_Init ch i r w =
     (if ChName ch = ''Control'' then ControlChannel_Init ch i r w else ActorChannel_Init ch i r w)"

definition CreateChannelByName :: "NetConnection \<Rightarrow> string \<Rightarrow> nat \<Rightarrow> (NetConnection \<times> bool) option" where
  "CreateChannelByName c Name ChannelIndex =
     (case InternalCreateChannelByName Name of
        None \<Rightarrow> Some (c, False)
      | Some ch \<Rightarrow> do {
          let ch = Channel_Init ch (word_of_nat ChannelIndex) (InitInReliable c) (InitOutReliable c);
          C \<leftarrow> wr (Channels c) ChannelIndex (Some ch);
          Some (c\<lparr>Channels := C\<rparr>, True) })"

text \<open>The timeout in whole seconds; without a timeout the largest float, \<open>None\<close> here.\<close>

definition GetTimeoutValue :: "DriverSetting \<Rightarrow> NetConnection \<Rightarrow> nat option" where
  "GetTimeoutValue S c =
     (if bHasDriver c then
        if bNoTimeouts S then None
        else if CState c = USOCK_Pending then Some (unat (InitialConnectTimeout S))
        else Some (unat (ConnectionTimeout S))
      else Some 0)"

section \<open>Sending\<close>

text \<open>The identifier of a channel is fixed by its class.\<close>

definition GetChannelID :: "NetChannel \<Rightarrow> u16" where
  "GetChannelID ch = (if ChName ch = ''Control'' then 0 else 1)"

definition SendNetMessage :: "NetConnection \<Rightarrow> NetMessage \<Rightarrow> u32 \<Rightarrow> (NetConnection \<times> bool) option" where
  "SendNetMessage c Message ChannelId =
     (case List.find (\<lambda>(i, ch). case ch of None \<Rightarrow> False | Some ch \<Rightarrow> bOpen ch \<and> ucast (GetChannelID ch) = ChannelId)
            (zip [0..<length (Channels c)] (Channels c)) of
        Some (i, Some ch) \<Rightarrow> do {
          ch \<leftarrow> RegisterMessage ch Message;
          Some (c\<lparr>Channels := (Channels c)[i := Some ch]\<rparr>, True) }
      | _ \<Rightarrow> Some (c, False))"

definition IsRequireAssembleBunch :: "NetConnection \<Rightarrow> bool" where
  "IsRequireAssembleBunch c \<longleftrightarrow> list_ex (\<lambda>ch. case ch of None \<Rightarrow> False | Some ch \<Rightarrow> bOpen ch \<and> HasReadyBunch ch) (Channels c)"

definition createNewPacket :: "NetConnection \<Rightarrow> NetConnection \<times> OutReadyPacket" where
  "createNewPacket c = (c\<lparr>Record := PushPacketId (Record c) (COutPacketId c)\<rparr>,
     BuildStart\<lparr>OutPacketId := word_of_int (COutPacketId c)\<rparr>)"

text \<open>
  A bunch taken from a channel's queue goes into the packet under construction, or into a new one. The
  result is false when the buffer of the channel is full, in which case \<open>AddUnAckedOutBunch\<close> has closed
  the connection.
\<close>

definition place_bunch :: "NetConnection \<Rightarrow> NetChannel \<Rightarrow> OutReadyPacket option \<Rightarrow> OutReadyPacket list \<Rightarrow> OutReadyBunch \<Rightarrow>
    NetConnection \<times> NetChannel \<times> OutReadyPacket option \<times> OutReadyPacket list \<times> bool" where
  "place_bunch c ch Packet ready Bunch =
     (let (c, p) = (case Packet of None \<Rightarrow> createNewPacket c | Some p \<Rightarrow> (c, p));
          (c, p, ready) =
            (if PacketMaxSize < PktTotalSize p + TotalSize Bunch
             then let c = c\<lparr>COutPacketId := COutPacketId c + 1\<rparr>; ready = ready @ [PacketSealed p];
                      (c, p) = createNewPacket c
                  in (c, p, ready)
             else (c, p, ready));
          c = c\<lparr>Record := PushChannelRecord (Record c) (sint (OutPacketId p)) (uint (ChIndex ch))\<rparr>;
          (ch, ok) = AddUnAckedOutBunch ch (OutPacketId p) Bunch
      in if ok then (c, ch, Some (fst (ConnectionPacketBuilder_Append p Bunch)), ready, True)
         else (Close c ''ReliableBufferOverflow'', ch, Some p, ready, False))"

lemma place_bunch_queue: "OutBunchQueue (fst (snd (place_bunch c ch Packet ready Bunch))) = OutBunchQueue ch"
  by (auto simp: place_bunch_def AddUnAckedOutBunch_def Let_def split: if_splits prod.splits)

text \<open>
  The bunches of one channel: the connection, the packet under construction, the packets ready, whether
  a bunch was taken, and whether the function returned because the channel's buffer is full.
\<close>

function bunch_loop :: "NetConnection \<Rightarrow> NetChannel \<Rightarrow> OutReadyPacket option \<Rightarrow> OutReadyPacket list \<Rightarrow> bool \<Rightarrow>
    NetConnection \<times> NetChannel \<times> OutReadyPacket option \<times> OutReadyPacket list \<times> bool \<times> bool" where
  "bunch_loop c ch Packet ready took =
     (case OutBunchQueue ch of
        [] \<Rightarrow> (c, ch, Packet, ready, took, False)
      | Bunch # rest \<Rightarrow>
          if IsHeaderOnlyBunch Bunch \<or> PacketMaxSize < TotalSize Bunch
          then bunch_loop (c\<lparr>Released := Released c @ DiscardOutReadyBunch Bunch\<rparr>) (ch\<lparr>OutBunchQueue := rest\<rparr>) Packet ready True
          else
            (case place_bunch c (ch\<lparr>OutBunchQueue := rest\<rparr>) Packet ready Bunch of
               (c, ch, Packet, ready, ok) \<Rightarrow>
                 if ok then bunch_loop c ch Packet ready True else (c, ch, Packet, ready, True, True)))"
  by pat_completeness auto
termination
  by (relation "measure (\<lambda>(_, ch, _). length (OutBunchQueue ch))")
    (auto simp: case_prod_unfold place_bunch_queue)

declare bunch_loop.simps [simp del]

text \<open>One round over the channels, from index \<open>rr\<close>; the indices left to visit are the argument.\<close>

fun channel_loop :: "nat list \<Rightarrow> NetConnection \<Rightarrow> OutReadyPacket option \<Rightarrow> OutReadyPacket list \<Rightarrow> bool \<Rightarrow>
    NetConnection \<times> OutReadyPacket option \<times> OutReadyPacket list \<times> bool \<times> bool" where
  "channel_loop [] c Packet ready took = (c, Packet, ready, took, False)"
| "channel_loop (i # idx) c Packet ready took =
     (case Channels c ! i of
        None \<Rightarrow> channel_loop idx c Packet ready took
      | Some ch \<Rightarrow>
          let (c, ch, Packet, ready, took, stop) = bunch_loop c ch Packet ready took;
              c = c\<lparr>Channels := (Channels c)[i := Some ch]\<rparr>
          in if stop then (c, Packet, ready, took, True)
             else channel_loop idx c Packet ready took)"

definition round_robin :: "nat \<Rightarrow> nat \<Rightarrow> nat list" where
  "round_robin rr chCount = map (\<lambda>i. (rr + i) mod chCount) [0..<chCount]"

text \<open>
  \<open>while (progress)\<close>: the fuel is the number of queued bunches plus one, since every round but the last
  takes at least one bunch off a queue.
\<close>

fun assemble_loop :: "nat \<Rightarrow> nat \<Rightarrow> NetConnection \<Rightarrow> OutReadyPacket option \<Rightarrow> OutReadyPacket list \<Rightarrow>
    (NetConnection \<times> OutReadyPacket option \<times> OutReadyPacket list \<times> bool) option" where
  "assemble_loop 0 rr c Packet ready = None"
| "assemble_loop (Suc fuel) rr c Packet ready =
     (let chCount = length (Channels c);
          (c, Packet, ready, took, stop) = channel_loop (round_robin rr chCount) c Packet ready False
      in if stop then Some (c, Packet, ready, True)
         else if took then assemble_loop fuel ((rr + 1) mod max 1 chCount) c Packet ready
         else Some (c, Packet, ready, False))"

definition queued :: "NetConnection \<Rightarrow> nat" where
  "queued c = sum_list (map (\<lambda>ch. case ch of None \<Rightarrow> 0 | Some ch \<Rightarrow> length (OutBunchQueue ch)) (Channels c))"

definition AssembleOutgoingPackets :: "DriverSetting \<Rightarrow> NetConnection \<Rightarrow> int \<Rightarrow> NetConnection option" where
  "AssembleOutgoingPackets S c Now =
     (if \<not> IsRequireAssembleBunch c then
        if bHasDriver c \<and> secs_ge (Now - LastSendTime c) (unat (KeepAliveTime S))
        then (let KeepAlivePacket = BuildStart\<lparr>OutPacketId := word_of_int (COutPacketId c)\<rparr>
              in Some (c\<lparr>Record := PushPacketId (Record c) (COutPacketId c), COutPacketId := COutPacketId c + 1,
                         OutPacketQueue := OutPacketQueue c @ [PacketSealed KeepAlivePacket]\<rparr>))
        else Some c
      else do {
        (c, Packet, ready, stop) \<leftarrow> assemble_loop (queued c + 1) 0 c None [];
        if stop then Some c
        else
          let (c, ready) = (case Packet of
                 Some p \<Rightarrow> if Bunchs p \<noteq> [] then (c\<lparr>COutPacketId := COutPacketId c + 1\<rparr>, ready @ [PacketSealed p]) else (c, ready)
               | None \<Rightarrow> (c, ready))
          in Some (c\<lparr>OutPacketQueue := OutPacketQueue c @ ready\<rparr>) })"

definition TryDequeuePacket :: "NetConnection \<Rightarrow> NetConnection \<times> OutReadyPacket option" where
  "TryDequeuePacket c = (case OutPacketQueue c of [] \<Rightarrow> (c, None) | p # rest \<Rightarrow> (c\<lparr>OutPacketQueue := rest\<rparr>, Some p))"

definition WriteHeaderCallback :: "UdpConfig \<Rightarrow> NetPacketNotify \<Rightarrow> BitWriter \<Rightarrow> (BitWriter \<times> NetPacketNotify) option" where
  "WriteHeaderCallback cfg n Buffer = do {
     Buffer \<leftarrow> Outgoing cfg Buffer;
     (n, Buffer, _) \<leftarrow> WriteHeader n Buffer False;
     Some (Buffer, n) }"

definition UpdatePacketHeader :: "UdpConfig \<Rightarrow> NetConnection \<Rightarrow> OutReadyPacket \<Rightarrow> u64 \<Rightarrow> (NetConnection \<times> OutReadyPacket) option" where
  "UpdatePacketHeader cfg c Packet NowUs = do {
     (Packet, n) \<leftarrow> BuildEnd Packet (WriteHeaderCallback cfg (CNotify c)) NowUs;
     let c = c\<lparr>CNotify := n, CRtt := RecordSend (CRtt c) (sint (OutPacketId Packet)) (OutReadyPacket.SendTimeUs Packet)\<rparr>;
     Some (c\<lparr>CNotify := fst (CommitAndIncrementOutSeq (CNotify c))\<rparr>, Packet) }"

text \<open>The job of \<open>TickFlush\<close>: every queued packet gets its header and is sent; the datagrams in order.\<close>

fun flush_loop :: "nat \<Rightarrow> UdpConfig \<Rightarrow> NetConnection \<Rightarrow> u64 \<Rightarrow> int \<Rightarrow> (NetConnection \<times> OutSendPacketEvent list) option" where
  "flush_loop 0 cfg c NowUs Now = Some (c, [])"
| "flush_loop (Suc k) cfg c NowUs Now =
     (case TryDequeuePacket c of
        (c, None) \<Rightarrow> Some (c, [])
      | (c, Some ReadyPacket) \<Rightarrow> do {
          (c, ReadyPacket) \<leftarrow> UpdatePacketHeader cfg c ReadyPacket NowUs;
          SendPacket \<leftarrow> OutSendPacketEvent_Create ReadyPacket;
          (c, es) \<leftarrow> flush_loop k cfg (c\<lparr>LastSendTime := Now\<rparr>) NowUs Now;
          Some (c, SendPacket # es) })"

definition GameNetConnection_TickFlush :: "UdpConfig \<Rightarrow> NetConnection \<Rightarrow> u64 \<Rightarrow> int \<Rightarrow> (NetConnection \<times> OutSendPacketEvent list) option" where
  "GameNetConnection_TickFlush cfg c NowUs Now = flush_loop (length (OutPacketQueue c)) cfg c NowUs Now"

section \<open>Receiving\<close>

text \<open>\<open>Channels[ChannelIndex]\<close> is used without a check: outside the vector or null it is \<open>None\<close>.\<close>

definition on_channel :: "NetConnection \<Rightarrow> u32 \<Rightarrow> (NetChannel \<Rightarrow> NetChannel) \<Rightarrow> NetConnection option" where
  "on_channel c ChannelIndex f = do {
     slot \<leftarrow> rd (Channels c) (unat ChannelIndex);
     ch \<leftarrow> slot;
     Some (c\<lparr>Channels := (Channels c)[unat ChannelIndex := Some (f ch)]\<rparr>) }"

fun on_channels :: "NetConnection \<Rightarrow> u32 list \<Rightarrow> (NetChannel \<Rightarrow> NetChannel) \<Rightarrow> NetConnection option" where
  "on_channels c [] f = Some c"
| "on_channels c (i # is) f = do { c \<leftarrow> on_channel c i f; on_channels c is f }"

definition RecivedAck :: "NetConnection \<Rightarrow> int \<Rightarrow> u64 \<Rightarrow> NetConnection option" where
  "RecivedAck c AckMarkPacketId NowUs = do {
     let c = c\<lparr>OutAckPacketId := AckMarkPacketId\<rparr>;
     (t, _) \<leftarrow> ConsumeAcked (CRtt c) AckMarkPacketId NowUs;
     let (r, found, calls) = ConsumeChannelRecordsForPacket (Record c) AckMarkPacketId;
     c \<leftarrow> on_channels (c\<lparr>CRtt := t, Record := r\<rparr>) calls (\<lambda>ch. Acked ch (word_of_int AckMarkPacketId));
     Some (if found then c else Close c ''ChannelRecordDesync'') }"

definition RecivedNack :: "NetConnection \<Rightarrow> int \<Rightarrow> NetConnection option" where
  "RecivedNack c NakMarkPacketId = do {
     let c = c\<lparr>CRtt := ConsumeNacked (CRtt c) NakMarkPacketId\<rparr>;
     let (r, found, calls) = ConsumeChannelRecordsForPacket (Record c) NakMarkPacketId;
     c \<leftarrow> on_channels (c\<lparr>Record := r\<rparr>) calls (\<lambda>ch. Nacked ch (word_of_int NakMarkPacketId));
     Some (if found then c else Close c ''ChannelRecordDesync'') }"

text \<open>The functor \<open>ReceivedPacket\<close> passes to \<open>Update\<close>, called with each packet and whether it arrived.\<close>

definition HandlePacketNotification :: "NetConnection \<Rightarrow> SequenceNumber \<Rightarrow> bool \<Rightarrow> u64 \<Rightarrow> NetConnection option" where
  "HandlePacketNotification c AckedSequence bDelivered NowUs =
     (let c = c\<lparr>LastNotifiedSendPacketId := LastNotifiedSendPacketId c + 1\<rparr>
      in if seq_of_int (LastNotifiedSendPacketId c) \<noteq> AckedSequence then Some c
         else if bDelivered then RecivedAck c (LastNotifiedSendPacketId c) NowUs
         else RecivedNack c (LastNotifiedSendPacketId c))"

fun handle_all :: "NetConnection \<Rightarrow> (SequenceNumber \<times> bool) list \<Rightarrow> u64 \<Rightarrow> NetConnection option" where
  "handle_all c [] NowUs = Some c"
| "handle_all c ((s, d) # es) NowUs = do { c \<leftarrow> HandlePacketNotification c s d NowUs; handle_all c es NowUs }"

text \<open>
  \<open>ReceivedPacket\<close>. The functor does not touch \<open>PacketNotify\<close>, so its calls, in order, may follow
  \<open>Update\<close>, which returns them.
\<close>

definition ReceivedPacket :: "NetConnection \<Rightarrow> RecvPacketReader \<Rightarrow> int \<Rightarrow> u64 \<Rightarrow> NetConnection option" where
  "ReceivedPacket c Reader Now NowUs = do {
     let c = c\<lparr>LastReceiveTime := Now\<rparr>;
     (Header, Buffer, ok) \<leftarrow> ReadHeader NotificationHeader_ctor (RHeader Reader);
     let Reader = Reader\<lparr>RHeader := Buffer\<rparr>;
     if \<not> ok then Some c
     else do {
       let PacketSequenceDelta = GetSequenceDelta (CNotify c) Header;
       (c, flushed) \<leftarrow>
         (if 0 < PacketSequenceDelta then do {
            (n, events, UpdatedPacketSequenceDelta) \<leftarrow> Notify_Update (CNotify c) Header;
            c \<leftarrow> handle_all (c\<lparr>CNotify := n\<rparr>) events NowUs;
            Some (if IsWaitingForSequenceHistoryFlush (CNotify c)
                  then (c\<lparr>HasDirtyAcks := HasDirtyAcks c + 1,
                          Channels := map (map_option ForceRetransmitAllUnAcked) (Channels c),
                          InPacketId := InPacketId c + UpdatedPacketSequenceDelta\<rparr>, True)
                  else (c, False)) }
          else Some (c, False));
       Some (if flushed then c
             else c\<lparr>InPacketId := InPacketId c + PacketSequenceDelta,
                    PendingReaders := PendingReaders c @ [Reader]\<rparr>) } }"

text \<open>The header of a bunch as it is read: flags, channel, sequence number, messages, payload bytes.\<close>

definition read_bunch_header :: "u8 list \<Rightarrow> (u8 \<times> u8 \<times> u32 \<times> u8 \<times> u16) option" where
  "read_bunch_header bunchHeaderView = do {
     H \<leftarrow> BitReader_ctor (Some bunchHeaderView) (length bunchHeaderView * 8);
     (H, f) \<leftarrow> BitReader_Serialize H [0] 1;
     (H, i) \<leftarrow> BitReader_Serialize H [0] 1;
     (H, ChSequence) \<leftarrow> stream_u32 BitReader_Serialize H 0;
     (H, MessageCount) \<leftarrow> stream_u8 BitReader_Serialize H 0;
     (H, BunchPayload) \<leftarrow> stream_u16 BitReader_Serialize H 0;
     Some (hd f, hd i, ChSequence, MessageCount, BunchPayload) }"

datatype loop_end = Break | Continue

text \<open>
  A bunch of \<open>DispatchPacket\<close> whose header is read: the connection, the rest of the payload, whether an
  error was noted and whether the loop goes on.
\<close>

definition channel_name :: "nat \<Rightarrow> string" where
  "channel_name i = (if i = 0 then ''Control'' else if i = 1 then ''Actor'' else ''None'')"

definition DispatchPacket_bunch :: "bool \<Rightarrow> NetConnection \<Rightarrow> BufferReader \<Rightarrow> u8 \<times> u8 \<times> u32 \<times> u8 \<times> u16
    \<Rightarrow> (NetConnection \<times> BufferReader \<times> bool \<times> loop_end) option" where
  "DispatchPacket_bunch bIsServer c PacketReader = (\<lambda>(ChannelFlags, ChIndex8, Sequence, MessageCount, BunchPayload).
     let opens = bit ChannelFlags 1; reliable = bit ChannelFlags 3; i = unat ChIndex8
     in if 128 \<le> i \<or> length (Channels c) \<le> i then Some (c, PacketReader, True, Break)
        else do {
          c \<leftarrow> (if Channels c ! i = None
               then map_option fst (CreateChannelByName c (if reliable \<or> opens then channel_name i else []) i) else Some c);
          case Channels c ! i of
            None \<Rightarrow> Some (c, PacketReader, True, Break)
          | Some ch \<Rightarrow>
              let ChSequence = (if reliable then MakeRelative Sequence (InReliable ch) MAX_CHSEQUENCE else Sequence);
                  (PacketReader, View) = ReadView PacketReader (unat BunchPayload)
              in if (reliable \<and> ChSequence \<noteq> InReliable ch + 1) \<or> ChIndex ch = 0 \<or> ChIndex ch = 1
                 then Some (c\<lparr>Channels := (Channels c)[i := Some (ReceiveBunch ch reliable ChSequence View MessageCount)]\<rparr>,
                            PacketReader, False, Continue)
                 else Some (c, PacketReader, True, if bIsServer then Break else Continue) })"

definition DispatchPacket_step :: "bool \<Rightarrow> NetConnection \<Rightarrow> BufferReader \<Rightarrow> (NetConnection \<times> BufferReader \<times> bool \<times> loop_end) option" where
  "DispatchPacket_step bIsServer c PacketReader =
     (case BufferReader_Read PacketReader 1 of
        (PacketReader, None) \<Rightarrow> Some (c, PacketReader, True, Break)
      | (PacketReader, Some b) \<Rightarrow>
          if hd b < 10 then Some (c, PacketReader, True, Break)
          else
            let (PacketReader, bunchHeaderView) = ReadView PacketReader (unat (hd b) - 1)
            in if bunchHeaderView = [] then Some (c, PacketReader, True, Break)
               else do {
                 h \<leftarrow> read_bunch_header bunchHeaderView;
                 DispatchPacket_bunch bIsServer c PacketReader h })"

lemma ReadView_length: "ReadView x n = (y, v) \<Longrightarrow> length (BView y) \<le> length (BView x)"
  by (auto simp: ReadView_def split: if_splits)

lemma DispatchPacket_bunch_length:
  assumes "DispatchPacket_bunch s c R h = Some (c', R', e, le)"
  shows "length (BView R') \<le> length (BView R)"
proof (cases h)
  case (fields f i q n p)
  obtain R2 v where v: "ReadView R (unat p) = (R2, v)"
    by force
  then have "R' = R \<or> R' = R2"
    using assms by (auto simp: fields DispatchPacket_bunch_def Let_def bind_eq_Some_conv split: if_splits option.splits)
  then show ?thesis
    using ReadView_length [OF v] by auto
qed

lemma DispatchPacket_step_consumes:
  assumes "DispatchPacket_step s c R = Some (c', R', e, Continue)"
  shows "length (BView R') < length (BView R)"
proof (cases "BView R")
  case Nil
  then show ?thesis
    using assms by (simp add: DispatchPacket_step_def BufferReader_Read_def)
next
  case (Cons b bs)
  obtain R2 v where v: "ReadView (R\<lparr>BView := bs\<rparr>) (unat b - Suc 0) = (R2, v)"
    by force
  obtain h where "DispatchPacket_bunch s c R2 h = Some (c', R', e, Continue)"
    using assms by (auto simp: DispatchPacket_step_def BufferReader_Read_def Cons v bind_eq_Some_conv split: if_splits)
  then show ?thesis
    using DispatchPacket_bunch_length ReadView_length [OF v] by (fastforce simp: Cons)
qed

function DispatchPacket_loop :: "bool \<Rightarrow> NetConnection \<Rightarrow> BufferReader \<Rightarrow> bool \<Rightarrow> (NetConnection \<times> bool) option" where
  "DispatchPacket_loop bIsServer c PacketReader bHasBunchErrors =
     (if CanRead PacketReader 1 \<and> CState c \<noteq> USOCK_Closed then
        (case DispatchPacket_step bIsServer c PacketReader of
           None \<Rightarrow> None
         | Some (c, PacketReader, e, Break) \<Rightarrow> Some (c, bHasBunchErrors \<or> e)
         | Some (c, PacketReader, e, Continue) \<Rightarrow> DispatchPacket_loop bIsServer c PacketReader (bHasBunchErrors \<or> e))
      else Some (c, bHasBunchErrors))"
  by pat_completeness auto
termination
  by (relation "measure (\<lambda>(_, _, R, _). length (BView R))") (auto simp: DispatchPacket_step_consumes)

declare DispatchPacket_loop.simps [simp del]

definition DispatchPacket :: "bool \<Rightarrow> NetConnection \<Rightarrow> RecvPacketReader \<Rightarrow> (NetConnection \<times> bool) option" where
  "DispatchPacket bIsServer c Reader = do {
     Payload \<leftarrow> GetPayload Reader;
     DispatchPacket_loop bIsServer c (BufferReader_ctor Payload) False }"

text \<open>\<open>bSkipAck\<close> is never set, so a packet is acknowledged whatever its bunches were.\<close>

fun dispatch_readers :: "bool \<Rightarrow> NetConnection \<Rightarrow> RecvPacketReader list \<Rightarrow> NetConnection option" where
  "dispatch_readers bIsServer c [] = Some (c\<lparr>PendingReaders := []\<rparr>)"
| "dispatch_readers bIsServer c (QReader # rest) = do {
     (c, _) \<leftarrow> DispatchPacket bIsServer c QReader;
     dispatch_readers bIsServer (c\<lparr>CNotify := AckSeq (CNotify c) (seq_of_int (InPacketId c))\<rparr>) rest }"

definition DispatchPendingPacket :: "bool \<Rightarrow> NetConnection \<Rightarrow> NetConnection option" where
  "DispatchPendingPacket bIsServer c = dispatch_readers bIsServer c (PendingReaders c)"

definition GetOpenChannelByType :: "NetConnection \<Rightarrow> string \<Rightarrow> NetChannel option" where
  "GetOpenChannelByType c Type =
     (case List.find (\<lambda>ch. case ch of None \<Rightarrow> False | Some ch \<Rightarrow> bOpen ch \<and> ChName ch = Type) (Channels c) of
        Some ch \<Rightarrow> ch | None \<Rightarrow> None)"

end
