(* ===== verification/Assembly.thy ===== *)
theory Assembly
  imports ConnectionM
begin

text \<open>
  What \<open>AssembleOutgoingPackets\<close> does: the queued bunches, channel by channel, are split into numbered
  packets, and each bunch is remembered under the number of its packet.
\<close>

section \<open>Assembling packets\<close>

text \<open>Bunches that are dropped, and those the assembly handles as meant: dropped or fitting a fresh packet.\<close>

definition dropped :: "OutReadyBunch \<Rightarrow> bool" where
  "dropped B \<longleftrightarrow> IsHeaderOnlyBunch B \<or> PacketMaxSize < TotalSize B"

definition kept :: "OutReadyBunch list \<Rightarrow> OutReadyBunch list" where
  "kept bs = filter (\<lambda>B. \<not> dropped B) bs"

definition packable :: "OutReadyBunch \<Rightarrow> bool" where
  "packable B \<longleftrightarrow> dropped B \<or> bunch_sized B \<and> length (bunch_bytes B) \<le> 1014"

text \<open>The reference: bunches in order, a new packet when the next bunch does not fit.\<close>

definition fits_packet :: "OutReadyBunch list \<Rightarrow> bool" where
  "fits_packet xs \<longleftrightarrow> 10 + length (concat (map bunch_bytes xs)) \<le> 1024"

fun split_packets :: "OutReadyBunch list \<Rightarrow> OutReadyBunch list \<Rightarrow> OutReadyBunch list list" where
  "split_packets cur [] = (if cur = [] then [] else [cur])"
| "split_packets cur (B # bs) =
     (if cur = [] \<or> fits_packet (cur @ [B]) then split_packets (cur @ [B]) bs else cur # split_packets [B] bs)"

definition numbered :: "int \<Rightarrow> OutReadyBunch list list \<Rightarrow> OutReadyPacket list" where
  "numbered n xss = map (\<lambda>(k, xs). (build_packet xs)\<lparr>OutPacketId := word_of_int (n + int k)\<rparr>) (enumerate 0 xss)"

text \<open>The bunches with the number of the packet each is in.\<close>

definition tagged :: "int \<Rightarrow> OutReadyBunch list list \<Rightarrow> (int \<times> OutReadyBunch) list" where
  "tagged n xss = concat (map (\<lambda>(k, xs). map (Pair (n + int k)) xs) (enumerate 0 xss))"

lemma numbered_snoc: "numbered n (xss @ [xs]) = numbered n xss @ [(build_packet xs)\<lparr>OutPacketId := word_of_int (n + int (length xss))\<rparr>]"
  by (simp add: numbered_def enumerate_append_eq)

lemma tagged_snoc: "tagged n (xss @ [xs]) = tagged n xss @ map (Pair (n + int (length xss))) xs"
  by (simp add: tagged_def enumerate_append_eq)

lemma tagged_Nil [simp]: "tagged n [] = []"
  by (simp add: tagged_def)

definition open_packet :: "OutReadyBunch list \<Rightarrow> OutReadyPacket" where
  "open_packet xs = fold (\<lambda>x p. fst (ConnectionPacketBuilder_Append p x)) xs BuildStart"

lemma PacketSealed_id: "PacketSealed (p\<lparr>OutPacketId := i\<rparr>) = (PacketSealed p)\<lparr>OutPacketId := i\<rparr>"
  by (cases p) (simp add: PacketSealed_def Let_def)

lemma Append_id: "fst (ConnectionPacketBuilder_Append (p\<lparr>OutPacketId := i\<rparr>) x) = (fst (ConnectionPacketBuilder_Append p x))\<lparr>OutPacketId := i\<rparr>"
  by (cases p) (simp add: ConnectionPacketBuilder_Append_def Push_def Let_def)

lemma build_open: "build_packet xs = PacketSealed (open_packet xs)"
  by (simp add: build_packet_def open_packet_def)

lemma open_snoc: "fst (ConnectionPacketBuilder_Append (open_packet xs) x) = open_packet (xs @ [x])"
  by (simp add: open_packet_def)

lemma open_packet_size:
  assumes "\<forall>x\<in>set xs. bunch_sized x" and "fits_packet xs"
  shows "unat (PktTotalSize (open_packet xs)) = 10 + length (concat (map bunch_bytes xs))" "Bunchs (open_packet xs) = xs"
proof -
  have s: "DirtyFlag BuildStart" "PktTotalSize BuildStart = 10" "Bunchs BuildStart = []" "length (PktHeader BuildStart) = 10"
    by (simp_all add: BuildStart_def BuildBegin_def OutReadyPacket_ctor_def PacketHeaderSize_def)
  have "packet_wf (open_packet xs) \<and> Bunchs (open_packet xs) = xs \<and> length (PktHeader (open_packet xs)) = 10"
    using Append_all [OF BuildStart_wf s(1) assms(1)] assms(2) s by (simp add: open_packet_def fits_packet_def)
  then show "unat (PktTotalSize (open_packet xs)) = 10 + length (concat (map bunch_bytes xs))" "Bunchs (open_packet xs) = xs"
    by (auto simp: packet_wf_def packet_bytes_def)
qed

definition assembling :: "int \<Rightarrow> NetConnection \<Rightarrow> OutReadyPacket option \<Rightarrow> OutReadyPacket list \<Rightarrow> OutReadyBunch list list
    \<Rightarrow> OutReadyBunch list \<Rightarrow> bool" where
  "assembling n c Packet ready dn cur \<longleftrightarrow> ready = numbered n dn \<and> COutPacketId c = n + int (length dn)
     \<and> (case Packet of
          None \<Rightarrow> dn = [] \<and> cur = []
        | Some p \<Rightarrow> cur \<noteq> [] \<and> p = (open_packet cur)\<lparr>OutPacketId := word_of_int (COutPacketId c)\<rparr>
            \<and> (\<forall>x\<in>set cur. bunch_sized x) \<and> fits_packet cur)"

definition place :: "NetChannel \<Rightarrow> (int \<times> OutReadyBunch) list \<Rightarrow> NetChannel" where
  "place ch pl = fold (\<lambda>(i, B) ch. fst (AddUnAckedOutBunch ch (word_of_int i) B)) pl ch"

definition note_packets :: "int \<Rightarrow> (int \<times> OutReadyBunch) list \<Rightarrow> ConnectionChannelRecord \<Rightarrow> ConnectionChannelRecord" where
  "note_packets k pl r = fold (\<lambda>(i, B) r. PushChannelRecord r i k) pl r"

lemma place_bunch_mono:
  "place_bunch c ch Packet ready Bunch = (c', ch', Packet', ready', ok) \<Longrightarrow> COutPacketId c \<le> COutPacketId c'"
  by (auto simp: place_bunch_def createNewPacket_def Close_def Let_def split: if_splits prod.splits option.splits)

lemma bunch_loop_Nil: "OutBunchQueue ch = [] \<Longrightarrow> bunch_loop c ch Packet ready took = (c, ch, Packet, ready, took, False)"
  by (simp add: bunch_loop.simps)

lemma bunch_loop_drop:
  "OutBunchQueue ch = B # rest \<Longrightarrow> dropped B \<Longrightarrow> bunch_loop c ch Packet ready took =
     bunch_loop (c\<lparr>Released := Released c @ DiscardOutReadyBunch B\<rparr>) (ch\<lparr>OutBunchQueue := rest\<rparr>) Packet ready True"
  by (subst bunch_loop.simps) (simp add: dropped_def)

lemma bunch_loop_place:
  "OutBunchQueue ch = B # rest \<Longrightarrow> \<not> dropped B \<Longrightarrow>
   place_bunch c (ch\<lparr>OutBunchQueue := rest\<rparr>) Packet ready B = (c2, ch2, P2, r2, ok) \<Longrightarrow>
   bunch_loop c ch Packet ready took = (if ok then bunch_loop c2 ch2 P2 r2 True else (c2, ch2, P2, r2, True, True))"
  by (subst bunch_loop.simps) (simp add: dropped_def)

lemma bunch_loop_mono:
  "bunch_loop c ch Packet ready took = (c', ch', Packet', ready', took', stop) \<Longrightarrow> COutPacketId c \<le> COutPacketId c'"
proof (induction "OutBunchQueue ch" arbitrary: c ch Packet ready took)
  case Nil
  then show ?case
    by (simp add: bunch_loop_Nil)
next
  case (Cons B rest)
  show ?case
  proof (cases "dropped B")
    case True
    then show ?thesis
      using Cons(1) [of "ch\<lparr>OutBunchQueue := rest\<rparr>"] Cons(3) by (fastforce simp: bunch_loop_drop [OF Cons(2) [symmetric]])
  next
    case False
    obtain c2 ch2 P2 r2 ok where pl: "place_bunch c (ch\<lparr>OutBunchQueue := rest\<rparr>) Packet ready B = (c2, ch2, P2, r2, ok)"
      by (metis prod_cases5)
    have "OutBunchQueue ch2 = rest"
      using place_bunch_queue [of c "ch\<lparr>OutBunchQueue := rest\<rparr>" Packet ready B] by (simp add: pl)
    then have "COutPacketId c2 \<le> COutPacketId c'"
      using Cons(1) [of ch2] Cons(3) by (auto simp: bunch_loop_place [OF Cons(2) [symmetric] False pl] split: if_splits)
    then show ?thesis
      using place_bunch_mono [OF pl] by linarith
  qed
qed

lemma PushChannelRecord_PushPacketId: "PushChannelRecord (PushPacketId r i) i k = PushChannelRecord r i k"
  by (simp add: PushChannelRecord_def PushPacketId_def Let_def)

lemma sint_id: "0 \<le> i \<Longrightarrow> i < 2 ^ 31 \<Longrightarrow> sint (word_of_int i :: u32) = i"
  by (simp add: sint_sbintrunc' signed_take_bit_int_eq_self)

lemma exceeds_iff:
  assumes "\<forall>x\<in>set cur. bunch_sized x" and "fits_packet cur" and "bunch_sized B" and "length (bunch_bytes B) \<le> 1014"
  shows "PacketMaxSize < PktTotalSize (open_packet cur) + TotalSize B \<longleftrightarrow> \<not> fits_packet (cur @ [B])"
proof -
  have t: "unat (TotalSize B) = length (bunch_bytes B)"
    using assms(3) by (simp add: bunch_sized_def)
  note p = open_packet_size(1) [OF assms(1,2)]
  have "unat (PktTotalSize (open_packet cur) + TotalSize B) = unat (PktTotalSize (open_packet cur)) + unat (TotalSize B)"
    using assms(2,4) p t by (intro unat_add_lem [THEN iffD1]) (simp add: fits_packet_def)
  then show ?thesis
    using p t by (auto simp: PacketMaxSize_def word_less_nat_alt fits_packet_def)
qed

lemma createNewPacket_eq: "createNewPacket c = (c\<lparr>Record := PushPacketId (Record c) (COutPacketId c)\<rparr>,
     (open_packet [])\<lparr>OutPacketId := word_of_int (COutPacketId c)\<rparr>)"
  by (simp add: createNewPacket_def open_packet_def)

lemma fits_single: "length (bunch_bytes B) \<le> 1014 \<Longrightarrow> fits_packet [B]" and fits_Nil: "fits_packet []"
  by (simp_all add: fits_packet_def)

text \<open>A bunch placed in packet \<open>i\<close>.\<close>

lemma place_bunch_in:
  assumes "place_bunch c ch Packet ready B = (c', ch', Packet', ready', True)"
    and "n + int (length dn) = COutPacketId c" and "0 \<le> n" and "COutPacketId c' < 2 ^ 31"
    and "assembling n c Packet ready dn cur" and "bunch_sized B" and "length (bunch_bytes B) \<le> 1014"
  shows "ch' = place ch [(COutPacketId c', B)] \<and> Record c' = note_packets (uint (ChIndex ch)) [(COutPacketId c', B)] (Record c)
    \<and> c' = c\<lparr>Record := Record c', COutPacketId := COutPacketId c'\<rparr>
    \<and> (if cur = [] \<or> fits_packet (cur @ [B])
       then COutPacketId c' = COutPacketId c \<and> ready' = ready \<and> Packet' = Some ((open_packet (cur @ [B]))\<lparr>OutPacketId := word_of_int (COutPacketId c')\<rparr>)
       else COutPacketId c' = COutPacketId c + 1 \<and> ready' = ready @ [(build_packet cur)\<lparr>OutPacketId := word_of_int (COutPacketId c)\<rparr>]
         \<and> Packet' = Some ((open_packet [B])\<lparr>OutPacketId := word_of_int (COutPacketId c')\<rparr>))"
proof -
  note mono = place_bunch_mono [OF assms(1)]
  have i: "0 \<le> COutPacketId c" "COutPacketId c < 2 ^ 31"
    using assms(2-4) mono by linarith+
  have empty: "\<not> PacketMaxSize < PktTotalSize (open_packet []) + TotalSize B"
    using exceeds_iff [of "[]" B] assms(6,7) by (simp add: fits_single fits_Nil)
  show ?thesis
  proof (cases Packet)
    case None
    then have "cur = []"
      using assms(5) by (simp add: assembling_def)
    then show ?thesis
      using assms(1) i empty None
      by (auto simp: place_bunch_def createNewPacket_eq sint_id place_def note_packets_def PushChannelRecord_PushPacketId
          Append_id open_snoc [of "[]" B, simplified] Let_def split: prod.splits if_splits)
  next
    case (Some p)
    then have p: "cur \<noteq> []" "p = (open_packet cur)\<lparr>OutPacketId := word_of_int (COutPacketId c)\<rparr>"
      "\<forall>x\<in>set cur. bunch_sized x" "fits_packet cur"
      using assms(5) by (auto simp: assembling_def)
    note ex = exceeds_iff [OF p(3,4) assms(6,7)]
    show ?thesis
    proof (cases "fits_packet (cur @ [B])")
      case True
      then show ?thesis
        using assms(1) i ex Some p(1,2)
        by (auto simp: place_bunch_def sint_id place_def note_packets_def Append_id open_snoc Let_def split: prod.splits if_splits)
    next
      case False
      have i1: "0 \<le> COutPacketId c + 1"
        using i by simp
      have "COutPacketId c' = COutPacketId c + 1"
        using assms(1) ex False Some p(2)
        by (auto simp: place_bunch_def createNewPacket_eq Close_def Let_def split: prod.splits if_splits)
      then have "sint (word_of_int (COutPacketId c) + 1 :: u32) = COutPacketId c + 1"
        using assms(4) sint_id [OF i1] by simp
      then show ?thesis
        using assms(1) ex False Some p(1,2) empty
        by (auto simp: place_bunch_def createNewPacket_eq sint_id place_def note_packets_def PushChannelRecord_PushPacketId
            Append_id open_snoc [of "[]" B, simplified] PacketSealed_id build_open Let_def split: prod.splits if_splits)
    qed
  qed
qed

lemma assembling_frame:
  "COutPacketId c' = COutPacketId c \<Longrightarrow> assembling n c' Packet ready dn cur \<longleftrightarrow> assembling n c Packet ready dn cur"
  by (cases Packet) (simp_all add: assembling_def)

lemma place_append: "place ch (pl @ pl') = place (place ch pl) pl'"
  by (simp add: place_def)

lemma note_packets_append: "note_packets k (pl @ pl') r = note_packets k pl' (note_packets k pl r)"
  by (simp add: note_packets_def)

lemma place_Cons: "place ch ((i, B) # pl) = place (place ch [(i, B)]) pl"
  by (simp add: place_def)

lemma note_packets_Cons: "note_packets k ((i, B) # pl) r = note_packets k pl (note_packets k [(i, B)] r)"
  by (simp add: note_packets_def)

lemma place_ChIndex [simp]: "ChIndex (place ch pl) = ChIndex ch"
  by (induction pl arbitrary: ch) (auto simp: place_def AddUnAckedOutBunch_def)

lemma place_queue [simp]: "OutBunchQueue (place ch pl) = OutBunchQueue ch"
  by (induction pl arbitrary: ch) (auto simp: place_def AddUnAckedOutBunch_def)

lemma place_set_queue: "(place ch pl)\<lparr>OutBunchQueue := x\<rparr> = place (ch\<lparr>OutBunchQueue := x\<rparr>) pl"
proof (induction pl arbitrary: ch)
  case (Cons p pl)
  have "(place ch [p])\<lparr>OutBunchQueue := x\<rparr> = place (ch\<lparr>OutBunchQueue := x\<rparr>) [p]"
    by (cases p) (simp add: place_def AddUnAckedOutBunch_def)
  then show ?case
    using Cons [of "place ch [p]"] by (cases p) (simp add: place_Cons [of _ _ _ pl])
qed (simp add: place_def)

lemma place_bunch_assembling:
  assumes "place_bunch c ch Packet ready B = (c', ch', Packet', ready', True)"
    and "assembling n c Packet ready dn cur" and "0 \<le> n" and "COutPacketId c' < 2 ^ 31"
    and "bunch_sized B" and "length (bunch_bytes B) \<le> 1014"
  shows "\<exists>dn' cur'. assembling n c' Packet' ready' dn' cur'
    \<and> tagged n (dn' @ [cur']) = tagged n (dn @ [cur]) @ [(COutPacketId c', B)]
    \<and> (\<forall>rest. dn @ split_packets cur (B # rest) = dn' @ split_packets cur' rest)"
proof -
  have A: "ready = numbered n dn" "COutPacketId c = n + int (length dn)" "\<forall>x\<in>set cur. bunch_sized x"
    using assms(2) by (auto simp: assembling_def split: option.splits)
  note P = place_bunch_in [OF assms(1) A(2) [symmetric] assms(3,4,2,5,6)]
  show ?thesis
  proof (cases "cur = [] \<or> fits_packet (cur @ [B])")
    case True
    then have "fits_packet (cur @ [B])"
      using fits_single [OF assms(6)] by auto
    then have "assembling n c' Packet' ready' dn (cur @ [B])"
      using P True A assms(5) by (auto simp: assembling_def)
    moreover have "tagged n (dn @ [cur @ [B]]) = tagged n (dn @ [cur]) @ [(COutPacketId c', B)]"
      using P True A(2) by (simp add: tagged_snoc)
    ultimately show ?thesis
      using True by (intro exI [of _ dn] exI [of _ "cur @ [B]"]) simp
  next
    case False
    then have "assembling n c' Packet' ready' (dn @ [cur]) [B]"
      using P A assms(5) fits_single [OF assms(6)] by (auto simp: assembling_def numbered_snoc)
    moreover have "tagged n ((dn @ [cur]) @ [[B]]) = tagged n (dn @ [cur]) @ [(COutPacketId c', B)]"
      using P False A(2) unfolding tagged_snoc [of n "dn @ [cur]"] by simp
    ultimately show ?thesis
      using False by (intro exI [of _ "dn @ [cur]"] exI [of _ "[B]"]) simp
  qed
qed

lemma bunch_loop_assembling:
  assumes "bunch_loop c ch Packet ready took = (c', ch', Packet', ready', took', False)"
    and "assembling n c Packet ready dn cur" and "0 \<le> n" and "COutPacketId c' < 2 ^ 31"
    and "\<forall>B\<in>set (OutBunchQueue ch). packable B"
  shows "\<exists>dn' cur' pl. assembling n c' Packet' ready' dn' cur' \<and> map snd pl = kept (OutBunchQueue ch)
    \<and> tagged n (dn' @ [cur']) = tagged n (dn @ [cur]) @ pl
    \<and> (\<forall>rest. dn @ split_packets cur (kept (OutBunchQueue ch) @ rest) = dn' @ split_packets cur' rest)
    \<and> ch' = place (ch\<lparr>OutBunchQueue := []\<rparr>) pl \<and> Record c' = note_packets (uint (ChIndex ch)) pl (Record c)
    \<and> c' = c\<lparr>Record := Record c', COutPacketId := COutPacketId c', Released := Released c'\<rparr>
    \<and> took' = (took \<or> OutBunchQueue ch \<noteq> [])"
  using assms
proof (induction "OutBunchQueue ch" arbitrary: c ch Packet ready took dn cur)
  case Nil
  then have "ch\<lparr>OutBunchQueue := []\<rparr> = ch"
    by simp
  then show ?case
    using Nil by (intro exI [of _ dn] exI [of _ cur] exI [of _ "[]"])
      (auto simp: bunch_loop_Nil kept_def place_def note_packets_def)
next
  case (Cons B rest)
  note q = Cons(2) [symmetric]
  show ?case
  proof (cases "dropped B")
    case True
    let ?c = "c\<lparr>Released := Released c @ DiscardOutReadyBunch B\<rparr>" and ?ch = "ch\<lparr>OutBunchQueue := rest\<rparr>"
    have l: "bunch_loop ?c ?ch Packet ready True = (c', ch', Packet', ready', took', False)"
      using Cons(3) by (simp add: bunch_loop_drop [OF q True])
    have k: "kept (OutBunchQueue ch) = kept rest"
      using True by (simp add: q [simplified] kept_def)
    have "assembling n ?c Packet ready dn cur"
      using Cons(4) assembling_frame [of ?c c] by simp
    from Cons(1) [OF _ l this Cons(5,6)] show ?thesis
      using Cons(7) k q by simp
  next
    case False
    obtain c2 ch2 P2 r2 ok where pl: "place_bunch c (ch\<lparr>OutBunchQueue := rest\<rparr>) Packet ready B = (c2, ch2, P2, r2, ok)"
      by (metis prod_cases5)
    then have ok: "ok" and l: "bunch_loop c2 ch2 P2 r2 True = (c', ch', Packet', ready', took', False)"
      using Cons(3) by (auto simp: bunch_loop_place [OF q False] split: if_splits)
    have B: "bunch_sized B" "length (bunch_bytes B) \<le> 1014"
      using Cons(7) False q by (auto simp: packable_def)
    have id2: "COutPacketId c2 < 2 ^ 31"
      using bunch_loop_mono [OF l] Cons(6) by linarith
    have n: "n + int (length dn) = COutPacketId c"
      using Cons(4) by (simp add: assembling_def)
    note P = place_bunch_in [OF pl [unfolded ok [THEN eqTrueI]] n Cons(5) id2 Cons(4) B]
    obtain dn2 cur2 where A2: "assembling n c2 P2 r2 dn2 cur2"
      "tagged n (dn2 @ [cur2]) = tagged n (dn @ [cur]) @ [(COutPacketId c2, B)]"
      "\<And>rest. dn @ split_packets cur (B # rest) = dn2 @ split_packets cur2 rest"
      using place_bunch_assembling [OF pl [unfolded ok [THEN eqTrueI]] Cons(4,5) id2 B] by blast
    have q2: "rest = OutBunchQueue ch2" "ch2 = place (ch\<lparr>OutBunchQueue := rest\<rparr>) [(COutPacketId c2, B)]"
      using P by simp_all
    obtain r x where c2: "c2 = c\<lparr>Record := r, COutPacketId := x\<rparr>"
      using P by blast
    have k: "kept (OutBunchQueue ch) = B # kept rest"
      using False q by (simp add: kept_def)
    obtain dn' cur' pl where I: "assembling n c' Packet' ready' dn' cur'" "map snd pl = kept (OutBunchQueue ch2)"
      "tagged n (dn' @ [cur']) = tagged n (dn2 @ [cur2]) @ pl"
      "\<forall>rest. dn2 @ split_packets cur2 (kept (OutBunchQueue ch2) @ rest) = dn' @ split_packets cur' rest"
      "ch' = place (ch2\<lparr>OutBunchQueue := []\<rparr>) pl" "Record c' = note_packets (uint (ChIndex ch2)) pl (Record c2)"
      "c' = c2\<lparr>Record := Record c', COutPacketId := COutPacketId c', Released := Released c'\<rparr>" "took'"
      using Cons(1) [OF q2(1) l A2(1) Cons(5,6)] Cons(7) q q2(1) by fastforce
    have "dn @ split_packets cur (kept (OutBunchQueue ch) @ r) = dn' @ split_packets cur' r" for r
      unfolding k append_Cons A2(3) using I(4) q2(1) by simp
    moreover have "tagged n (dn' @ [cur']) = tagged n (dn @ [cur]) @ (COutPacketId c2, B) # pl"
      using I(3) A2(2) by simp
    moreover have "ch' = place (ch\<lparr>OutBunchQueue := []\<rparr>) ((COutPacketId c2, B) # pl)"
      unfolding I(5) q2(2) place_set_queue by (simp add: place_Cons [of _ _ _ pl])
    moreover have "Record c' = note_packets (uint (ChIndex ch)) ((COutPacketId c2, B) # pl) (Record c)"
      using I(6) P by (simp add: note_packets_Cons [of _ _ _ pl])
    moreover have "c' = c\<lparr>Record := Record c', COutPacketId := COutPacketId c', Released := Released c'\<rparr>"
      by (subst I(7), subst c2) simp
    ultimately show ?thesis
      using I(1,2,8) k q q2(1) by (intro exI [of _ dn'] exI [of _ cur'] exI [of _ "(COutPacketId c2, B) # pl"]) auto
  qed
qed

section \<open>All channels\<close>

lemma Close_Channels [simp]: "Channels (Close c r) = Channels c" "CState (Close c r) = USOCK_Closed"
  by (auto simp: Close_def Let_def)

lemma place_bunch_frame:
  "place_bunch c ch Packet ready B = (c', ch', Packet', ready', ok) \<Longrightarrow> Channels c' = Channels c \<and> (\<not> ok \<longrightarrow> CState c' = USOCK_Closed)"
  by (auto simp: place_bunch_def createNewPacket_def Let_def split: if_splits prod.splits option.splits)

lemma bunch_loop_frame:
  "bunch_loop c ch Packet ready took = (c', ch', Packet', ready', took', stop) \<Longrightarrow> Channels c' = Channels c
     \<and> (if stop then CState c' = USOCK_Closed else OutBunchQueue ch' = [] \<and> took' = (took \<or> OutBunchQueue ch \<noteq> []))"
proof (induction "OutBunchQueue ch" arbitrary: c ch Packet ready took)
  case Nil
  then show ?case
    by (auto simp: bunch_loop_Nil)
next
  case (Cons B rest)
  note q = Cons(2) [symmetric]
  show ?case
  proof (cases "dropped B")
    case True
    then show ?thesis
      using Cons(1) [of "ch\<lparr>OutBunchQueue := rest\<rparr>"] Cons(3) by (fastforce simp: bunch_loop_drop [OF q] q)
  next
    case False
    obtain c2 ch2 P2 r2 ok where pl: "place_bunch c (ch\<lparr>OutBunchQueue := rest\<rparr>) Packet ready B = (c2, ch2, P2, r2, ok)"
      by (metis prod_cases5)
    have "OutBunchQueue ch2 = rest"
      using place_bunch_queue [of c "ch\<lparr>OutBunchQueue := rest\<rparr>" Packet ready B] by (simp add: pl)
    then show ?thesis
      using Cons(1) [of ch2 c2 P2 r2 True] Cons(3) place_bunch_frame [OF pl]
      by (auto simp: bunch_loop_place [OF q False pl] q [simplified] split: if_splits)
  qed
qed

definition queue_of :: "NetChannel option \<Rightarrow> OutReadyBunch list" where
  "queue_of slot = (case slot of None \<Rightarrow> [] | Some ch \<Rightarrow> OutBunchQueue ch)"

lemma queue_of_simps [simp]: "queue_of None = []" "queue_of (Some ch) = OutBunchQueue ch"
  by (simp_all add: queue_of_def)

lemma channel_loop_frame:
  "channel_loop idx c Packet ready took = (c', Packet', ready', took', stop) \<Longrightarrow> \<forall>i\<in>set idx. i < length (Channels c) \<Longrightarrow>
   length (Channels c') = length (Channels c) \<and> (if stop then CState c' = USOCK_Closed
     else (\<forall>i < length (Channels c). queue_of (Channels c' ! i) = (if i \<in> set idx then [] else queue_of (Channels c ! i)))
       \<and> took' = (took \<or> (\<exists>i\<in>set idx. queue_of (Channels c ! i) \<noteq> [])))"
proof (induction idx arbitrary: c Packet ready took)
  case (Cons i idx)
  show ?case
  proof (cases "Channels c ! i")
    case None
    then show ?thesis
      using Cons.IH [of c Packet ready took] Cons.prems by (auto split: if_splits)
  next
    case (Some ch)
    obtain c2 ch2 P2 r2 t2 stop2 where bl: "bunch_loop c ch Packet ready took = (c2, ch2, P2, r2, t2, stop2)"
      by (metis prod_cases6)
    note F = bunch_loop_frame [OF bl]
    show ?thesis
    proof (cases stop2)
      case True
      then show ?thesis
        using Cons.prems Some bl F by auto
    next
      case False
      let ?c = "c2\<lparr>Channels := (Channels c)[i := Some ch2]\<rparr>"
      have l: "channel_loop idx ?c P2 r2 t2 = (c', Packet', ready', took', stop)"
        using Cons.prems Some bl F False by simp
      have q: "queue_of (Channels ?c ! j) = (if j = i then [] else queue_of (Channels c ! j))" if "j < length (Channels c)" for j
        using that F False by (auto simp: nth_list_update)
      have e: "(OutBunchQueue ch \<noteq> [] \<or> (\<exists>j\<in>set idx. queue_of (Channels ?c ! j) \<noteq> []))
          \<longleftrightarrow> (\<exists>j\<in>set (i # idx). queue_of (Channels c ! j) \<noteq> [])"
        using q Cons.prems(2) Some by (metis list.set_intros queue_of_simps(2) set_ConsD)
      have t2: "t2 = (took \<or> OutBunchQueue ch \<noteq> [])"
        using F False by simp
      have len: "length (Channels ?c) = length (Channels c)"
        by simp
      have I: "length (Channels c') = length (Channels ?c) \<and> (if stop then CState c' = USOCK_Closed
         else (\<forall>i < length (Channels ?c). queue_of (Channels c' ! i) = (if i \<in> set idx then [] else queue_of (Channels ?c ! i)))
           \<and> took' = (t2 \<or> (\<exists>i\<in>set idx. queue_of (Channels ?c ! i) \<noteq> [])))"
        using Cons.IH [OF l] Cons.prems(2) len by simp
      show ?thesis
      proof (cases stop)
        case True
        then show ?thesis
          using I len by simp
      next
        case False
        then have "took' = (took \<or> (\<exists>j\<in>set (i # idx). queue_of (Channels c ! j) \<noteq> []))"
          using I e unfolding if_not_P [OF False] t2 by blast
        moreover have "queue_of (Channels c' ! j) = (if j \<in> set (i # idx) then [] else queue_of (Channels c ! j))"
          if "j < length (Channels c)" for j
          using I False q [OF that] that len by auto
        ultimately show ?thesis
          using I False len by auto
      qed
    qed
  qed
qed auto

lemma rotations: "set (round_robin rr n) = {..<n}"
proof (cases "n = 0")
  case False
  have "\<exists>i<n. (rr + i) mod n = j" if "j < n" for j
  proof (rule exI [of _ "(j + (n - rr mod n)) mod n"])
    have "(rr + (j + (n - rr mod n)) mod n) mod n = (rr mod n + (j + (n - rr mod n))) mod n"
      by (simp add: mod_simps)
    also have "rr mod n + (j + (n - rr mod n)) = j + n"
      using False mod_less_divisor [of n rr] by linarith
    finally show "(j + (n - rr mod n)) mod n < n \<and> (rr + (j + (n - rr mod n)) mod n) mod n = j"
      using that False by simp
  qed
  then have "{..<n} \<subseteq> set (round_robin rr n)"
    by (force simp: round_robin_def)
  moreover have "set (round_robin rr n) \<subseteq> {..<n}"
    using False by (auto simp: round_robin_def)
  ultimately show ?thesis
    by (rule equalityI [rotated])
qed (simp add: round_robin_def)

lemma assemble_two_rounds:
  assumes "channel_loop (round_robin rr (length (Channels c))) c Packet ready False = (c1, P1, r1, took1, stop1)"
  shows "assemble_loop (Suc (Suc fuel)) rr c Packet ready = Some (c1, P1, r1, stop1)"
proof (cases "stop1 \<or> \<not> took1")
  case False
  have F: "length (Channels c1) = length (Channels c)" "\<forall>i < length (Channels c). queue_of (Channels c1 ! i) = []"
    using channel_loop_frame [OF assms] False by (auto simp: rotations)
  have idle: "channel_loop idx c1 P r t = (c1, P, r, t, False)" if "\<forall>i\<in>set idx. i < length (Channels c1)" for idx P r t
    using that
  proof (induction idx arbitrary: P r t)
    case (Cons i idx)
    show ?case
    proof (cases "Channels c1 ! i")
      case (Some ch)
      then have "OutBunchQueue ch = []"
        using F Cons.prems by (metis list.set_intros(1) queue_of_simps(2))
      moreover have "c1\<lparr>Channels := (Channels c1)[i := Some ch]\<rparr> = c1"
        using list_update_id [of "Channels c1" i] Some by simp
      ultimately show ?thesis
        using Cons Some by (simp add: bunch_loop_Nil)
    qed (use Cons in simp)
  qed simp
  have "channel_loop (round_robin ((rr + 1) mod max 1 (length (Channels c))) (length (Channels c1))) c1 P1 r1 False = (c1, P1, r1, False, False)"
    using idle [of "round_robin ((rr + 1) mod max 1 (length (Channels c))) (length (Channels c1))"] by (simp add: rotations)
  then show ?thesis
    using assms False by simp
qed (use assms in auto)

lemma channel_loop_mono:
  "channel_loop idx c Packet ready took = (c', Packet', ready', took', stop) \<Longrightarrow> COutPacketId c \<le> COutPacketId c'"
proof (induction idx arbitrary: c Packet ready took)
  case (Cons i idx)
  show ?case
  proof (cases "Channels c ! i")
    case (Some ch)
    obtain c2 ch2 P2 r2 t2 stop2 where bl: "bunch_loop c ch Packet ready took = (c2, ch2, P2, r2, t2, stop2)"
      by (metis prod_cases6)
    have "COutPacketId c2 \<le> COutPacketId c'"
      using Cons.IH [of "c2\<lparr>Channels := (Channels c2)[i := Some ch2]\<rparr>" P2 r2 t2] Cons.prems Some bl
      by (auto simp: Let_def split: if_splits)
    then show ?thesis
      using bunch_loop_mono [OF bl] by linarith
  qed (use Cons in auto)
qed simp

definition note_all :: "NetConnection \<Rightarrow> (nat \<Rightarrow> (int \<times> OutReadyBunch) list) \<Rightarrow> nat list \<Rightarrow> ConnectionChannelRecord \<Rightarrow> ConnectionChannelRecord" where
  "note_all c pl idx r = fold (\<lambda>i r. case Channels c ! i of None \<Rightarrow> r | Some ch \<Rightarrow> note_packets (uint (ChIndex ch)) (pl i) r) idx r"

definition kept_at :: "NetConnection \<Rightarrow> nat \<Rightarrow> OutReadyBunch list" where
  "kept_at c i = kept (queue_of (Channels c ! i))"

definition placed_at :: "NetConnection \<Rightarrow> (nat \<Rightarrow> (int \<times> OutReadyBunch) list) \<Rightarrow> nat \<Rightarrow> NetChannel option" where
  "placed_at c pl i = map_option (\<lambda>ch. place (ch\<lparr>OutBunchQueue := []\<rparr>) (pl i)) (Channels c ! i)"

definition channels_assembled :: "int \<Rightarrow> NetConnection \<Rightarrow> OutReadyBunch list list \<Rightarrow> OutReadyBunch list \<Rightarrow> nat list \<Rightarrow>
    NetConnection \<Rightarrow> OutReadyPacket option \<Rightarrow> OutReadyPacket list \<Rightarrow> OutReadyBunch list list \<Rightarrow> OutReadyBunch list \<Rightarrow>
    (nat \<Rightarrow> (int \<times> OutReadyBunch) list) \<Rightarrow> bool" where
  "channels_assembled n c dn cur idx c' Packet' ready' dn' cur' pl \<longleftrightarrow>
     assembling n c' Packet' ready' dn' cur' \<and> (\<forall>i\<in>set idx. map snd (pl i) = kept_at c i)
    \<and> tagged n (dn' @ [cur']) = tagged n (dn @ [cur]) @ concat (map pl idx)
    \<and> (\<forall>rest. dn @ split_packets cur (concat (map (kept_at c) idx) @ rest) = dn' @ split_packets cur' rest)
    \<and> length (Channels c') = length (Channels c)
    \<and> (\<forall>i < length (Channels c). Channels c' ! i = (if i \<in> set idx then placed_at c pl i else Channels c ! i))
    \<and> Record c' = note_all c pl idx (Record c)
    \<and> c' = c\<lparr>Channels := Channels c', Record := Record c', COutPacketId := COutPacketId c', Released := Released c'\<rparr>"

lemma channels_assembledD:
  assumes "channels_assembled n c dn cur idx c' Packet' ready' dn' cur' pl"
  shows "assembling n c' Packet' ready' dn' cur'" "\<forall>i\<in>set idx. map snd (pl i) = kept_at c i"
    "tagged n (dn' @ [cur']) = tagged n (dn @ [cur]) @ concat (map pl idx)"
    "dn @ split_packets cur (concat (map (kept_at c) idx) @ rest) = dn' @ split_packets cur' rest"
    "length (Channels c') = length (Channels c)"
    "\<forall>i < length (Channels c). Channels c' ! i = (if i \<in> set idx then placed_at c pl i else Channels c ! i)"
    "Record c' = note_all c pl idx (Record c)"
    "c' = c\<lparr>Channels := Channels c', Record := Record c', COutPacketId := COutPacketId c', Released := Released c'\<rparr>"
  using assms unfolding channels_assembled_def by blast+

lemma channel_loop_assembling:
  assumes "channel_loop idx c Packet ready took = (c', Packet', ready', took', False)"
    and "distinct idx" and "\<forall>i\<in>set idx. i < length (Channels c)"
    and "\<forall>i\<in>set idx. \<forall>B\<in>set (queue_of (Channels c ! i)). packable B"
    and "assembling n c Packet ready dn cur" and "0 \<le> n" and "COutPacketId c' < 2 ^ 31"
  shows "\<exists>dn' cur' pl. channels_assembled n c dn cur idx c' Packet' ready' dn' cur' pl"
  using assms
proof (induction idx arbitrary: c Packet ready took dn cur)
  case Nil
  then show ?case
    by (intro exI [of _ dn] exI [of _ cur] exI [of _ "\<lambda>_. []"]) (auto simp: channels_assembled_def note_all_def)
next
  case (Cons i idx)
  show ?case
  proof (cases "Channels c ! i")
    case None
    then have l: "channel_loop idx c Packet ready took = (c', Packet', ready', took', False)"
      using Cons.prems(1) by simp
    obtain dn' cur' pl where H: "channels_assembled n c dn cur idx c' Packet' ready' dn' cur' pl"
      using Cons.IH [OF l _ _ _ Cons.prems(5-7)] Cons.prems(2-4) by auto
    note I = channels_assembledD [OF H]
    let ?pl = "pl(i := [])"
    have i: "i \<notin> set idx"
      using Cons.prems(2) by simp
    have k: "kept_at c i = []"
      by (simp add: kept_at_def None kept_def)
    have maps: "map ?pl (i # idx) = [] # map pl idx"
      using i by (auto intro!: map_cong)
    have recd: "note_all c ?pl (i # idx) (Record c) = note_all c pl idx (Record c)"
      unfolding note_all_def fold_Cons o_apply using i None by (simp, intro fold_cong) (auto split: option.splits)
    have "\<forall>j < length (Channels c). Channels c' ! j = (if j \<in> set (i # idx) then placed_at c ?pl j else Channels c ! j)"
      using I(6) i None by (auto simp: placed_at_def)
    moreover have "\<forall>j\<in>set (i # idx). map snd (?pl j) = kept_at c j"
      using I(2) i k by auto
    ultimately have "channels_assembled n c dn cur (i # idx) c' Packet' ready' dn' cur' ?pl"
      unfolding channels_assembled_def maps recd using I(1,3-5,7,8) k by simp
    then show ?thesis
      by blast
  next
    case (Some ch)
    obtain c2 ch2 P2 r2 t2 stop2 where bl: "bunch_loop c ch Packet ready took = (c2, ch2, P2, r2, t2, stop2)"
      by (metis prod_cases6)
    let ?c = "c2\<lparr>Channels := (Channels c)[i := Some ch2]\<rparr>"
    have ns: "\<not> stop2" and l: "channel_loop idx ?c P2 r2 t2 = (c', Packet', ready', took', False)"
      using Cons.prems(1) Some bl bunch_loop_frame [OF bl] by (auto split: if_splits)
    have bl2: "bunch_loop c ch Packet ready took = (c2, ch2, P2, r2, t2, False)"
      using bl ns by simp
    have id2: "COutPacketId c2 < 2 ^ 31"
      using channel_loop_mono [OF l] Cons.prems(7) by simp
    have pk: "\<forall>B\<in>set (OutBunchQueue ch). packable B"
      using Cons.prems(4) Some by auto
    obtain dn2 cur2 pl2 where B: "assembling n c2 P2 r2 dn2 cur2" "map snd pl2 = kept (OutBunchQueue ch)"
      "tagged n (dn2 @ [cur2]) = tagged n (dn @ [cur]) @ pl2"
      "\<forall>rest. dn @ split_packets cur (kept (OutBunchQueue ch) @ rest) = dn2 @ split_packets cur2 rest"
      "ch2 = place (ch\<lparr>OutBunchQueue := []\<rparr>) pl2" "Record c2 = note_packets (uint (ChIndex ch)) pl2 (Record c)"
      "c2 = c\<lparr>Record := Record c2, COutPacketId := COutPacketId c2, Released := Released c2\<rparr>"
      using bunch_loop_assembling [OF bl2 Cons.prems(5,6) id2 pk] by blast
    have i: "i \<notin> set idx" "i < length (Channels c)"
      using Cons.prems(2,3) by auto
    have same: "Channels ?c ! j = Channels c ! j" if "j \<in> set idx" for j
      using that i by (auto simp: nth_list_update)
    have A: "assembling n ?c P2 r2 dn2 cur2"
      using B(1) assembling_frame [of ?c c2] by simp
    obtain dn' cur' pl where H: "channels_assembled n ?c dn2 cur2 idx c' Packet' ready' dn' cur' pl"
      using Cons.IH [OF l _ _ _ A Cons.prems(6,7)] Cons.prems(2-4) same by auto
    note I = channels_assembledD [OF H]
    let ?pl = "pl(i := pl2)"
    have kept: "kept_at ?c j = kept_at c j" if "j \<in> set idx" for j
      using same [OF that] by (simp add: kept_at_def)
    have maps: "map ?pl idx = map pl idx" "map (kept_at ?c) idx = map (kept_at c) idx"
      using i kept by (auto intro!: map_cong)
    have ki: "kept_at c i = kept (OutBunchQueue ch)"
      by (simp add: kept_at_def Some)
    have recd: "note_all ?c pl idx (Record ?c) = note_all c ?pl (i # idx) (Record c)"
    proof -
      have "note_all ?c pl idx (Record ?c) = note_all c ?pl idx (Record ?c)"
        unfolding note_all_def using i same by (intro fold_cong) (auto split: option.splits)
      then show ?thesis
        using B(6) by (simp add: note_all_def Some)
    qed
    obtain r x y where c2: "c2 = c\<lparr>Record := r, COutPacketId := x, Released := y\<rparr>"
      using B(7) by blast
    have "c' = c\<lparr>Channels := Channels c', Record := Record c', COutPacketId := COutPacketId c', Released := Released c'\<rparr>"
      by (subst I(8), subst c2) simp
    moreover have "\<forall>j < length (Channels c). Channels c' ! j = (if j \<in> set (i # idx) then placed_at c ?pl j else Channels c ! j)"
      using I(6) i same B(5) Some by (auto simp: placed_at_def nth_list_update)
    moreover have "dn @ split_packets cur (concat (map (kept_at c) (i # idx)) @ rest) = dn' @ split_packets cur' rest" for rest
      using B(4) I(4) unfolding maps ki by (simp add: ki)
    moreover have "\<forall>j\<in>set (i # idx). map snd (?pl j) = kept_at c j"
      using I(2) B(2) kept i ki by auto
    moreover have "tagged n (dn' @ [cur']) = tagged n (dn @ [cur]) @ concat (map ?pl (i # idx))"
      unfolding list.map concat.simps maps(1) using I(3) B(3) by simp
    ultimately have "channels_assembled n c dn cur (i # idx) c' Packet' ready' dn' cur' ?pl"
      unfolding channels_assembled_def recd [symmetric] using I(1,5,7) by simp
    then show ?thesis
      by blast
  qed
qed

lemma assemble_result:
  assumes "IsRequireAssembleBunch c"
    and "channel_loop (round_robin 0 (length (Channels c))) c None [] False = (c1, P1, r1, t1, s1)"
  shows "AssembleOutgoingPackets S c Now = Some (if s1 then c1 else
      (case P1 of
         Some p \<Rightarrow> if Bunchs p \<noteq> [] then c1\<lparr>COutPacketId := COutPacketId c1 + 1, OutPacketQueue := OutPacketQueue c1 @ r1 @ [PacketSealed p]\<rparr>
           else c1\<lparr>OutPacketQueue := OutPacketQueue c1 @ r1\<rparr>
       | None \<Rightarrow> c1\<lparr>OutPacketQueue := OutPacketQueue c1 @ r1\<rparr>))"
proof -
  obtain ch where ch: "Some ch \<in> set (Channels c)" "OutBunchQueue ch \<noteq> []"
    using assms(1) by (auto simp: IsRequireAssembleBunch_def list_ex_iff HasReadyBunch_def split: option.splits)
  then have "length (OutBunchQueue ch) \<le> queued c"
    unfolding queued_def by (intro member_le_sum_list) (auto simp: image_iff intro!: bexI [of _ "Some ch"])
  then obtain k where k: "queued c = Suc k"
    using ch(2) by (cases "queued c") auto
  show ?thesis
    using assemble_two_rounds [OF assms(2), of k] assms(1)
    by (simp add: AssembleOutgoingPackets_def k Let_def del: assemble_loop.simps split: option.splits)
qed

text \<open>
  C33. The loop over the channels ends after two rounds at most, whatever is queued: for every larger bound
  on the number of rounds its result is the same. The first round empties every queue or stops at a full
  buffer, which has closed the connection, and the assembly has a result.
\<close>

theorem assembly_terminates:
  "\<exists>c1 Packet ready stop c'. (\<forall>k. assemble_loop (k + 2) 0 c None [] = Some (c1, Packet, ready, stop))
    \<and> (if stop then CState c1 = USOCK_Closed else list_all (\<lambda>slot. queue_of slot = []) (Channels c1))
    \<and> AssembleOutgoingPackets S c Now = Some c'"
proof -
  obtain c1 P1 r1 t1 s1 where r: "channel_loop (round_robin 0 (length (Channels c))) c None [] False = (c1, P1, r1, t1, s1)"
    by (metis prod_cases5)
  have "assemble_loop (k + 2) 0 c None [] = Some (c1, P1, r1, s1)" for k
    using assemble_two_rounds [OF r, of k] by simp
  moreover have "if s1 then CState c1 = USOCK_Closed else list_all (\<lambda>slot. queue_of slot = []) (Channels c1)"
    using channel_loop_frame [OF r] by (auto simp: rotations list_all_iff in_set_conv_nth split: if_splits)
  moreover have "\<exists>c'. AssembleOutgoingPackets S c Now = Some c'"
  proof (cases "IsRequireAssembleBunch c")
    case True
    from assemble_result [OF True r] show ?thesis
      by (rule exI)
  qed (simp add: AssembleOutgoingPackets_def Let_def)
  ultimately show ?thesis by blast
qed

lemma round_robin_0: "round_robin 0 n = [0..<n]"
  unfolding round_robin_def by (rule map_idI) simp

text \<open>
  C17. The packets of a connection that no full buffer closes and none of whose queued bunches has 1015 to
  1024 bytes, the sizes that are not dropped but leave no room for the header of a packet: the bunches of
  all channels, in the order of the channels and without those that are dropped (bunches with no payload
  and bunches of more than 1024 bytes), are split greedily into packets of at most 1024 bytes, which get
  consecutive numbers and are appended to the send queue; each channel remembers each of its bunches under
  the number of the packet the bunch is in, and its queue is empty.
\<close>

theorem assembly_packs_every_bunch:
  assumes "AssembleOutgoingPackets S c Now = Some c'" and "IsRequireAssembleBunch c" and "CState c' \<noteq> USOCK_Closed"
    and "\<forall>slot\<in>set (Channels c). \<forall>B\<in>set (queue_of slot). packable B"
    and "0 \<le> COutPacketId c" and "COutPacketId c' < 2 ^ 31"
  defines "xss \<equiv> split_packets [] (concat (map (\<lambda>slot. kept (queue_of slot)) (Channels c)))"
  shows "\<exists>pl. OutPacketQueue c' = OutPacketQueue c @ numbered (COutPacketId c) xss
    \<and> COutPacketId c' = COutPacketId c + int (length xss)
    \<and> concat (map pl [0..<length (Channels c)]) = tagged (COutPacketId c) xss
    \<and> length (Channels c') = length (Channels c)
    \<and> (\<forall>i < length (Channels c). map snd (pl i) = kept_at c i \<and> Channels c' ! i = placed_at c pl i)
    \<and> Record c' = note_all c pl [0..<length (Channels c)] (Record c)"
proof -
  let ?n = "length (Channels c)"
  obtain c1 P1 r1 t1 s1 where r: "channel_loop (round_robin 0 ?n) c None [] False = (c1, P1, r1, t1, s1)"
    by (metis prod_cases5)
  note E = assemble_result [OF assms(2) r, of S Now]
  have ns: "\<not> s1"
    using channel_loop_frame [OF r] E assms(1,3) by (auto simp: rotations)
  have id1: "COutPacketId c1 < 2 ^ 31"
    using E assms(1,6) ns by (auto split: option.splits if_splits)
  have r0: "channel_loop [0..<?n] c None [] False = (c1, P1, r1, t1, False)"
    using r ns by (simp add: round_robin_0)
  have A0: "assembling (COutPacketId c) c None [] [] []"
    by (simp add: assembling_def numbered_def)
  have pk: "\<forall>i\<in>set [0..<?n]. \<forall>B\<in>set (queue_of (Channels c ! i)). packable B"
    using assms(4) nth_mem by (metis atLeastLessThan_iff set_upt)
  obtain dn cur pl where H: "channels_assembled (COutPacketId c) c [] [] [0..<?n] c1 P1 r1 dn cur pl"
    using channel_loop_assembling [OF r0 _ _ pk A0 assms(5) id1] by auto
  note I = channels_assembledD [OF H]
  have km: "map (kept_at c) [0..<?n] = map (\<lambda>slot. kept (queue_of slot)) (Channels c)"
    by (rule nth_equalityI) (auto simp: kept_at_def)
  have split: "xss = dn @ (if cur = [] then [] else [cur])"
    using I(4) [of "[]"] by (simp add: xss_def km)
  have q: "OutPacketQueue c1 = OutPacketQueue c"
    by (subst I(8)) simp
  have final: "OutPacketQueue c' = OutPacketQueue c @ numbered (COutPacketId c) xss"
    "COutPacketId c' = COutPacketId c + int (length xss)" "Channels c' = Channels c1" "Record c' = Record c1"
    "tagged (COutPacketId c) (dn @ [cur]) = tagged (COutPacketId c) xss"
  proof -
    show "OutPacketQueue c' = OutPacketQueue c @ numbered (COutPacketId c) xss"
      "COutPacketId c' = COutPacketId c + int (length xss)" "Channels c' = Channels c1" "Record c' = Record c1"
      "tagged (COutPacketId c) (dn @ [cur]) = tagged (COutPacketId c) xss"
      using E assms(1) ns I(1) q open_packet_size(2) [of cur]
      by (auto simp: split assembling_def numbered_snoc tagged_snoc PacketSealed_id build_open split: option.splits if_splits)
  qed
  show ?thesis
    using final I(2,3,5,6,7) by (intro exI [of _ pl]) (auto simp: tagged_def [of _ "[[]]"])
qed

definition sample_connection :: NetConnection where
  "sample_connection = (NetConnection_ctor 0)\<lparr>Channels := [None,
     Some ((ControlChannel_Init ControlChannel_ctor 0 0 0)\<lparr>OutBunchQueue := [sample_bunch, sample_bunch]\<rparr>)]\<rparr>"

lemma sample_bunch_facts: "\<not> IsHeaderOnlyBunch sample_bunch" "\<not> PacketMaxSize < TotalSize sample_bunch" "bunch_sized sample_bunch"
  "length (bunch_bytes sample_bunch) = 13" "TotalSize sample_bunch = 13"
  by (simp_all add: IsHeaderOnlyBunch_def PacketMaxSize_def sample_bunch_def bunch_sized_def bunch_bytes_def)

lemma sample_assembly:
  "\<exists>c'. AssembleOutgoingPackets S sample_connection 0 = Some c' \<and> CState c' = USOCK_Invalid \<and> COutPacketId c' = 1"
  by (simp add: AssembleOutgoingPackets_def sample_connection_def NetConnection_ctor_def ControlChannel_Init_def ControlChannel_ctor_def
    NetChannel_ctor_def IsRequireAssembleBunch_def HasReadyBunch_def queued_def round_robin_def Let_def bunch_loop.simps sample_bunch_facts place_bunch_def
    AddUnAckedOutBunch_def RELIABLE_BUFFER_def createNewPacket_def BuildStart_def BuildBegin_def OutReadyPacket_ctor_def PacketMaxSize_def
    PacketHeaderSize_def ConnectionPacketBuilder_Append_def Push_def)

theorem assembly_packs_every_bunch_witness:
  "\<exists>c'. AssembleOutgoingPackets (DriverSetting_init ModeServer ClientNone ServerNone) sample_connection 0 = Some c'
    \<and> OutPacketQueue c' = [(build_packet [sample_bunch, sample_bunch])\<lparr>OutPacketId := 0\<rparr>]"
proof -
  obtain c' where c': "AssembleOutgoingPackets (DriverSetting_init ModeServer ClientNone ServerNone) sample_connection 0 = Some c'" "CState c' = USOCK_Invalid" "COutPacketId c' = 1"
    using sample_assembly by blast
  have "\<not> dropped sample_bunch" "fits_packet [sample_bunch, sample_bunch]"
    using sample_bunch_facts by (simp_all add: dropped_def fits_packet_def)
  then have x: "split_packets [] (concat (map (\<lambda>slot. kept (queue_of slot)) (Channels sample_connection))) = [[sample_bunch, sample_bunch]]"
    by (simp add: sample_connection_def kept_def)
  have "\<forall>slot\<in>set (Channels sample_connection). \<forall>B\<in>set (queue_of slot). packable B"
    using sample_bunch_facts by (simp add: sample_connection_def packable_def)
  moreover have "IsRequireAssembleBunch sample_connection" "COutPacketId sample_connection = 0" "OutPacketQueue sample_connection = []"
    by (simp_all add: sample_connection_def IsRequireAssembleBunch_def HasReadyBunch_def NetConnection_ctor_def ControlChannel_Init_def Let_def)
  ultimately have "OutPacketQueue c' = numbered 0 [[sample_bunch, sample_bunch]]"
    using assembly_packs_every_bunch [OF c'(1)] c'(2,3) x by auto
  then show ?thesis
    using c'(1) by (simp add: numbered_def)
qed

section \<open>Messages that no packet can carry\<close>

lemma bunch_loop_all_dropped:
  "\<forall>B\<in>set (OutBunchQueue ch). dropped B \<Longrightarrow> \<exists>r t. bunch_loop c ch Packet ready took =
     (c\<lparr>Released := r\<rparr>, ch\<lparr>OutBunchQueue := []\<rparr>, Packet, ready, t, False)"
proof (induction "OutBunchQueue ch" arbitrary: c ch took)
  case Nil
  then have "ch\<lparr>OutBunchQueue := []\<rparr> = ch" "c\<lparr>Released := Released c\<rparr> = c"
    by simp_all
  then show ?case
    using Nil by (metis bunch_loop_Nil)
next
  case (Cons B rest)
  have "dropped B"
    using Cons(2,3) by (metis list.set_intros(1))
  then show ?case
    using Cons(1) [of "ch\<lparr>OutBunchQueue := rest\<rparr>" "c\<lparr>Released := Released c @ DiscardOutReadyBunch B\<rparr>" True] Cons(3)
    by (auto simp: bunch_loop_drop [OF Cons(2) [symmetric]] Cons(2) [symmetric])
qed

lemma good_from_mem: "good_from b s bs \<Longrightarrow> x \<in> set bs \<Longrightarrow> \<exists>k. bunch_good b k x"
  by (induction bs arbitrary: s) auto

lemma Pump_loop_empty: "QueuedMessage b = [] \<Longrightarrow> Pump_loop k b s t = Some (b, s)"
  by (cases k) (simp_all add: queue_try_pop_def)

lemma Pump_single:
  assumes "builder_wf b" "ActiveMsgs b = []" "QueuedMessage b = [m]" "MSize m \<le> MaxBunchPayload b"
  shows "\<exists>b'. Pump b s (Suc k) True t0 t1 t2 = Some (b', s + 1)
    \<and> QueuedOutBunch b' = QueuedOutBunch b @ [bunch_of b (s + 1) [m] (MSize m)]"
proof -
  define b0 where "b0 = (if \<not> ActiveHasInit b then ResetActive b t0 else b)"
  have "ActivePayload b = 0"
    using assms(1,2) by (simp add: builder_wf_def msgs_size_def unat_eq_0)
  then have b0: "ActiveMsgs b0 = []" "ActivePayload b0 = 0" "QueuedMessage b0 = [m]" "QueuedOutBunch b0 = QueuedOutBunch b" "config b0 = config b"
    "Policy b0 = Policy b" "MaxBunchPayload b0 = MaxBunchPayload b"
    using assms(2,3) by (simp_all add: b0_def ResetActive_def config_def)
  define b1 where "b1 = b0\<lparr>QueuedMessage := [], ActiveMsgs := [m], ActivePayload := MSize m\<rparr>"
  have ins: "TryInsert (b0\<lparr>QueuedMessage := []\<rparr>) m = (b1, True)"
    using assms(1,4) b0 by (simp add: TryInsert_def b1_def builder_wf_def not_less)
  have one: "bunch_of b1 (s + 1) [m] (MSize m) = bunch_of b (s + 1) [m] (MSize m)"
    using b0(5) by (intro bunch_of_cong) (simp add: b1_def config_def)
  have b1: "ActiveMsgs b1 = [m]" "ActivePayload b1 = MSize m" "QueuedOutBunch b1 = QueuedOutBunch b" "QueuedMessage b1 = []"
    using b0 by (simp_all add: b1_def)
  have pop: "queue_try_pop (QueuedMessage b0) = ([], Some m)"
    by (simp add: b0(3) queue_try_pop_def)
  let ?sealed = "b1\<lparr>ActiveMsgs := [], QueuedOutBunch := QueuedOutBunch b @ [bunch_of b (s + 1) [m] (MSize m)]\<rparr>"
  have seal: "SealAndPush b1 s = Some (?sealed, s + 1)"
    by (simp add: SealAndPush_eq b1 one)
  have "Pump_loop (Suc k) b0 s t0 = (if IsFull b1 then Some (ResetActive ?sealed t0, s + 1) else Some (b1, s))"
    using b1(4) by (simp add: pop Pump_step_def ins seal Pump_loop_empty ResetActive_def)
  then show ?thesis
    using b1(1) seal unfolding Pump_def b0_def [symmetric] by (auto simp: Let_def ResetActive_def)
qed

lemma TickFlush_single:
  assumes "BunchBuilder ch = Some b" "builder_wf b" "ActiveMsgs b = []" "QueuedOutBunch b = []" "QueuedMessage b = [m]" "MSize m \<le> MaxBunchPayload b"
  shows "\<exists>b'. TickFlush ch t0 t1 t2 = Some (ch\<lparr>BunchBuilder := Some b', OutReliable := OutReliable ch + 1,
    OutBunchQueue := OutBunchQueue ch @ [bunch_of b (OutReliable ch + 1) [m] (MSize m)]\<rparr>)"
proof -
  obtain b' where "Pump b (OutReliable ch) (Suc 255) True t0 t1 t2 = Some (b', OutReliable ch + 1)"
    "QueuedOutBunch b' = [bunch_of b (OutReliable ch + 1) [m] (MSize m)]"
    using Pump_single [OF assms(2,3,5,6), of "OutReliable ch" 255 t0 t1 t2] assms(4) by auto
  then show ?thesis
    by (intro exI [of _ "b'\<lparr>QueuedOutBunch := []\<rparr>"]) (simp add: TickFlush_def PumpBunch_def assms(1) move_ready_eq)
qed

text \<open>
  C34. The builder of a channel takes messages of up to 1176 bytes, a packet holds 1014: a message between
  these sizes is registered, and the next pump puts it into a bunch with the next sequence number of the
  channel; the assembly drops that bunch, so that no packet carries it and it is not kept for
  retransmission, while the channel counts its number as used.
\<close>

theorem large_message_never_sent:
  assumes "Channels c = [Some ch]" and "bOpen ch" and "OutBunchQueue ch = []"
    and b: "BunchBuilder ch = Some b" "builder_wf b" "ActiveMsgs b = []" "QueuedOutBunch b = []" "QueuedMessage b = []"
    and m: "1014 < unat (MSize m)" "MSize m \<le> MaxBunchPayload b"
  shows "\<exists>ch0 ch' c' ch''. RegisterMessage ch m = Some ch0 \<and> TickFlush ch0 t0 t1 t2 = Some ch'
    \<and> OutBunchQueue ch' = [bunch_of b (OutReliable ch + 1) [m] (MSize m)] \<and> OutReliable ch' = OutReliable ch + 1
    \<and> AssembleOutgoingPackets S (c\<lparr>Channels := [Some ch']\<rparr>) Now = Some c'
    \<and> OutPacketQueue c' = OutPacketQueue c \<and> COutPacketId c' = COutPacketId c
    \<and> Channels c' = [Some ch''] \<and> OutBunchQueue ch'' = [] \<and> OutUnAckedBunches ch'' = OutUnAckedBunches ch
    \<and> OutReliable ch'' = OutReliable ch + 1"
proof -
  let ?b = "Submit b m" and ?B = "bunch_of b (OutReliable ch + 1) [m] (MSize m)"
  define ch0 where "ch0 = ch\<lparr>BunchBuilder := Some ?b\<rparr>"
  have reg: "RegisterMessage ch m = Some ch0"
    by (simp add: RegisterMessage_def b(1) ch0_def)
  have "bunch_of ?b (OutReliable ch + 1) [m] (MSize m) = ?B"
    by (intro bunch_of_cong) (simp add: Submit_def config_def)
  moreover have "BunchBuilder ch0 = Some ?b" "builder_wf ?b" "ActiveMsgs ?b = []" "QueuedOutBunch ?b = []" "QueuedMessage ?b = [m]"
      "MSize m \<le> MaxBunchPayload ?b" "OutReliable ch0 = OutReliable ch" "OutBunchQueue ch0 = []"
    using b m(2) assms(3) by (simp_all add: ch0_def Submit_def builder_wf_def queue_push_def)
  ultimately obtain b' where T: "TickFlush ch0 t0 t1 t2 = Some (ch0\<lparr>BunchBuilder := Some b', OutReliable := OutReliable ch + 1, OutBunchQueue := [?B]\<rparr>)"
    using TickFlush_single [of ch0 ?b m t0 t1 t2] by auto
  define ch' where "ch' = ch0\<lparr>BunchBuilder := Some b', OutReliable := OutReliable ch + 1, OutBunchQueue := [?B]\<rparr>"
  have "unat (MSize m + 10) = unat (MSize m) + 10"
    using m(2) b(2) by (subst unat_add_lem [THEN iffD1]) (simp_all add: builder_wf_def word_le_nat_alt word_less_nat_alt)
  then have d: "dropped ?B"
    using m(1) by (simp add: dropped_def PacketMaxSize_def bunch_of_def word_less_nat_alt)
  let ?c = "c\<lparr>Channels := [Some ch']\<rparr>"
  have "IsRequireAssembleBunch ?c"
    using assms(2) by (simp add: IsRequireAssembleBunch_def HasReadyBunch_def ch'_def ch0_def)
  moreover obtain r t where "bunch_loop ?c ch' None [] False = (?c\<lparr>Released := r\<rparr>, ch'\<lparr>OutBunchQueue := []\<rparr>, None, [], t, False)"
    using bunch_loop_all_dropped [of ch' ?c None "[]" False] d by (auto simp: ch'_def)
  then have "channel_loop (round_robin 0 (length (Channels ?c))) ?c None [] False
      = (?c\<lparr>Released := r, Channels := [Some (ch'\<lparr>OutBunchQueue := []\<rparr>)]\<rparr>, None, [], t, False)"
    by (simp add: round_robin_def)
  moreover define c' where "c' = ?c\<lparr>Released := r, Channels := [Some (ch'\<lparr>OutBunchQueue := []\<rparr>)],
      OutPacketQueue := OutPacketQueue c\<rparr>"
  ultimately have "AssembleOutgoingPackets S ?c Now = Some c'"
    using assemble_result by fastforce
  with reg T show ?thesis
    by (intro exI [of _ ch0] exI [of _ ch'] exI [of _ c'] exI [of _ "ch'\<lparr>OutBunchQueue := []\<rparr>"]) (simp add: ch'_def c'_def ch0_def)
qed

definition sample_channel :: NetChannel where
  "sample_channel = (ControlChannel_Init ControlChannel_ctor 0 5 0)\<lparr>BunchBuilder := Some
     (Builder_ctor 0 True True False True (BunchPolicy_default\<lparr>MaxPacketBytes := 1200\<rparr>))\<rparr>"

theorem large_message_never_sent_witness:
  "\<exists>ch0 ch' c'. RegisterMessage sample_channel \<lparr>MBuffer = [], MSize = 1100, MCallback = False\<rparr> = Some ch0 \<and> TickFlush ch0 0 5 6 = Some ch'
    \<and> OutReliable ch' = OutReliable sample_channel + 1
    \<and> AssembleOutgoingPackets (DriverSetting_init ModeServer ClientNone ServerNone) ((NetConnection_ctor 0)\<lparr>Channels := [Some ch']\<rparr>) 0 = Some c'
    \<and> OutPacketQueue c' = []"
proof -
  have b: "BunchBuilder sample_channel = Some (Builder_ctor 0 True True False True (BunchPolicy_default\<lparr>MaxPacketBytes := 1200\<rparr>))"
    and o: "bOpen sample_channel" "OutBunchQueue sample_channel = []"
    by (simp_all add: sample_channel_def ControlChannel_Init_def ControlChannel_ctor_def NetChannel_ctor_def Let_def)
  have q: "OutPacketQueue ((NetConnection_ctor 0)\<lparr>Channels := [Some sample_channel]\<rparr>) = []"
    by (simp add: NetConnection_ctor_def)
  show ?thesis
    using large_message_never_sent [of "(NetConnection_ctor 0)\<lparr>Channels := [Some sample_channel]\<rparr>" sample_channel _
        "\<lparr>MBuffer = [], MSize = 1100, MCallback = False\<rparr>" 0 5 6 "DriverSetting_init ModeServer ClientNone ServerNone" 0, OF _ o b] q
    by (fastforce simp: Builder_ctor_def BunchPolicy_default_def builder_wf_def msgs_size_def)
qed

end
