(* ===== verification/Receiving.thy ===== *)
theory Receiving
  imports ConnectionM
begin

text \<open>
  What a connection does with received packets: the bunches of a payload are read back and reach their
  channels, and packets are acknowledged.
\<close>

section \<open>Relative sequence numbers\<close>

lemma and_1023: "x AND 1023 = take_bit 10 x" for x :: u32
  by (simp add: take_bit_eq_mask mask_eq_exp_minus_1)

lemma take_bit_10_word: "take_bit 10 (word_of_int x :: u32) = word_of_int (take_bit 10 x)"
  by (rule bit_word_eqI) (auto simp: bit_take_bit_iff bit_word_of_int_iff)

lemma BestSignedDifference_eq:
  "BestSignedDifference v r MAX_CHSEQUENCE = word_of_int ((uint v - uint r + 512) mod 1024 - 512)"
proof -
  have "(v - r + 512) AND 1023 = word_of_int ((uint v - uint r + 512) mod 1024)"
  proof -
    have "v - r + 512 = word_of_int (uint v - uint r + 512)"
      by simp
    then have "(v - r + 512) AND 1023 = take_bit 10 (word_of_int (uint v - uint r + 512) :: u32)"
      by (simp only: and_1023)
    also have "\<dots> = word_of_int (take_bit 10 (uint v - uint r + 512))"
      by (rule take_bit_10_word)
    finally show ?thesis
      by (simp add: take_bit_eq_mod)
  qed
  then show ?thesis
    by (simp add: BestSignedDifference_def MAX_CHSEQUENCE_def)
qed



section \<open>Reading bunches back\<close>

lemma reads_u32: "reads (\<lambda>r. stream_u32 BitReader_Serialize r v0) (word_bits 32 v) v"
  using stream_u32_reads by (fastforce simp: reads_def)

lemma reads_u16: "reads (\<lambda>r. stream_u16 BitReader_Serialize r v0) (word_bits 16 v) v"
  using stream_u16_reads by (fastforce simp: reads_def)

text \<open>The bytes of a bunch header after its size byte are read back as its fields.\<close>

lemma read_bunch_header_ok:
  "read_bunch_header (drop 1 (header_bytes f))
     = Some (bunch_flags f, FChIndex f, FChSequence f, FMessageCount f, FPayloadSize f)"
proof -
  let ?V = "drop 1 (header_bytes f)"
  have V: "?V = bunch_flags f # FChIndex f # le_bytes 4 (FChSequence f) @ [FMessageCount f] @ le_bytes 2 (FPayloadSize f)"
    by (simp add: header_bytes_def)
  obtain r where r: "BitReader_ctor (Some ?V) 72 = Some r" "BitReader_wf r" "\<not> ArIsError r" "\<not> ArForceByteSwapping r"
    "rbits r = bitslice ?V 0 72"
    using BitReader_ctor_ok [of 72 ?V] by auto
  have bits: "rbits r = bitslice [bunch_flags f] 0 8 @ bitslice [FChIndex f] 0 8 @ word_bits 32 (FChSequence f)
      @ word_bits 8 (FMessageCount f) @ word_bits 16 (FPayloadSize f)"
    using word_bits_le [of 4 "FChSequence f"] word_bits_le [of 2 "FPayloadSize f"] word_bits_le [of 1 "FMessageCount f"]
      bitslice_Cons [of "bunch_flags f" _ 64] bitslice_Cons [of "FChIndex f" _ 56]
      bitslice_append [of "le_bytes 4 (FChSequence f)" _ 24] bitslice_Cons [of "FMessageCount f" _ 16]
    unfolding r(5) V by (simp add: le_bytes_def)
  obtain r1 where r1: "BitReader_Serialize r [0] 1 = Some (r1, [bunch_flags f])" "BitReader_wf r1" "\<not> ArIsError r1"
    "\<not> ArForceByteSwapping r1" "rbits r1 = bitslice [FChIndex f] 0 8 @ word_bits 32 (FChSequence f)
      @ word_bits 8 (FMessageCount f) @ word_bits 16 (FPayloadSize f)"
    by (rule readsD [OF reads_bytes [of "[bunch_flags f]" 1 "[0]"] r(2-4)]) (use bits in auto)
  obtain r2 where r2: "BitReader_Serialize r1 [0] 1 = Some (r2, [FChIndex f])" "BitReader_wf r2" "\<not> ArIsError r2"
    "\<not> ArForceByteSwapping r2" "rbits r2 = word_bits 32 (FChSequence f) @ word_bits 8 (FMessageCount f) @ word_bits 16 (FPayloadSize f)"
    by (rule readsD [OF reads_bytes [of "[FChIndex f]" 1 "[0]"] r1(2-4)]) (use r1(5) in auto)
  obtain r3 where r3: "stream_u32 BitReader_Serialize r2 0 = Some (r3, FChSequence f)" "BitReader_wf r3" "\<not> ArIsError r3"
    "\<not> ArForceByteSwapping r3" "rbits r3 = word_bits 8 (FMessageCount f) @ word_bits 16 (FPayloadSize f)"
    by (rule readsD [OF reads_u32 r2(2-5)])
  obtain r4 where r4: "stream_u8 BitReader_Serialize r3 0 = Some (r4, FMessageCount f)" "BitReader_wf r4" "\<not> ArIsError r4"
    "\<not> ArForceByteSwapping r4" "rbits r4 = word_bits 16 (FPayloadSize f) @ []"
    by (rule readsD [OF reads_u8 r3(2-5)]) auto
  obtain r5 where r5: "stream_u16 BitReader_Serialize r4 0 = Some (r5, FPayloadSize f)"
    by (rule readsD [OF reads_u16 r4(2-5)])
  show ?thesis
    using r(1) r1(1) r2(1) r3(1) r4(1) r5 by (simp add: read_bunch_header_def)
qed

lemma bunch_flags_bits:
  "bit (bunch_flags f) 1 = FOpen f" "bit (bunch_flags f) 3 = FReliable f"
  by (auto simp: bunch_flags_def bit_simps)

lemma DispatchPacket_step_bunch:
  assumes "i = unat (FChIndex f)" and "i < 128" and "i < length (Channels c)" and "Channels c ! i = Some ch"
    and "ChIndex ch = 0 \<or> ChIndex ch = 1" and "FReliable f" and "length payload = unat (FPayloadSize f)"
  shows "DispatchPacket_step srv c \<lparr>BView = header_bytes f @ payload @ rest, BError = False\<rparr>
    = Some (c\<lparr>Channels := (Channels c)[i := Some (ReceiveBunch ch True (MakeRelative (FChSequence f) (InReliable ch) MAX_CHSEQUENCE)
              payload (FMessageCount f))]\<rparr>, \<lparr>BView = rest, BError = False\<rparr>, False, Continue)"
proof -
  have h: "header_bytes f = 10 # drop 1 (header_bytes f)"
    by (simp add: header_bytes_def)
  have r1: "BufferReader_Read \<lparr>BView = header_bytes f @ payload @ rest, BError = False\<rparr> 1
      = (\<lparr>BView = drop 1 (header_bytes f) @ payload @ rest, BError = False\<rparr>, Some [10])"
    by (subst h) (simp add: BufferReader_Read_def)
  have r2: "ReadView \<lparr>BView = drop 1 (header_bytes f) @ payload @ rest, BError = False\<rparr> 9
      = (\<lparr>BView = payload @ rest, BError = False\<rparr>, drop 1 (header_bytes f))"
    by (simp add: ReadView_def)
  have r3: "ReadView \<lparr>BView = payload @ rest, BError = False\<rparr> (unat (FPayloadSize f)) = (\<lparr>BView = rest, BError = False\<rparr>, payload)"
    using assms(7) by (simp add: ReadView_def)
  have ne: "drop 1 (header_bytes f) \<noteq> []"
    using length_header_bytes [of f] by (metis length_drop length_0_conv one_less_numeral_iff semiring_norm(76) zero_less_diff less_irrefl)
  show ?thesis
    unfolding DispatchPacket_step_def r1 using assms ne
    by (simp add: r2 [simplified] read_bunch_header_ok [simplified] DispatchPacket_bunch_def bunch_flags_bits [simplified] r3 Let_def)
qed

text \<open>The next bunch in order of a reliable channel with nothing buffered hands on its messages.\<close>

lemma ReceiveBunch_next:
  assumes "\<forall>m\<in>set ms. message_ok m" and "length ms \<le> 255" and "InUnreadBunchMap ch = []"
  shows "ReceiveBunch ch True (InReliable ch + 1) (bunch_payload ms) (word_of_nat (length ms))
    = ch\<lparr>PendingDispatch := PendingDispatch ch @ ms, InReliable := InReliable ch + 1\<rparr>"
proof -
  have n: "unat (word_of_nat (length ms) :: u8) = length ms"
    using assms(2) by (simp add: unat_of_nat)
  show ?thesis
    using Interanl_messages [OF assms(1), of ch "[]"] assms(3)
    by (simp add: ReceiveBunch_def DispatchRawBunch_def BufferReader_ctor_def n drain.simps omap_first_def)
qed

text \<open>A bunch whose messages have the bytes of \<open>ms\<close>.\<close>

definition carries :: "OutReadyBunch \<Rightarrow> RecvMessageReader list \<Rightarrow> bool" where
  "carries x ms \<longleftrightarrow> map MBuffer (Messages x) = map message_bytes ms \<and> (\<forall>m\<in>set ms. message_ok m)
     \<and> (\<forall>m\<in>set (Messages x). length (MBuffer m) = unat (MSize m))"

lemma carries_facts:
  assumes "bunch_good b s x" and "carries x ms" and "MaxBunchPayload b < 0x10000"
  shows "bunch_bytes x = header_bytes (fields_of b s (Messages x) (PayloadBytes x)) @ bunch_payload ms"
    "length (bunch_payload ms) = unat (FPayloadSize (fields_of b s (Messages x) (PayloadBytes x)))"
    "FMessageCount (fields_of b s (Messages x) (PayloadBytes x)) = word_of_nat (length ms)" "length ms \<le> 255"
proof -
  have c: "concat (map MBuffer (Messages x)) = bunch_payload ms"
    using assms(2) by (simp add: carries_def bunch_payload_def)
  have "HeaderBytes x = header_bytes (fields_of b s (Messages x) (PayloadBytes x))"
    using assms(1) by (auto simp: bunch_good_def bunch_of_def) (metis OutReadyBunch.select_convs(1))
  then show "bunch_bytes x = header_bytes (fields_of b s (Messages x) (PayloadBytes x)) @ bunch_payload ms"
    using c by (simp add: bunch_bytes_def)
  have l: "length ms = length (Messages x)"
    using assms(2) by (metis carries_def length_map)
  then show "FMessageCount (fields_of b s (Messages x) (PayloadBytes x)) = word_of_nat (length ms)" "length ms \<le> 255"
    using assms(1) by (simp_all add: fields_of_def bunch_good_def)
  have "length (concat (map MBuffer ns)) = msgs_size ns" if "\<forall>m\<in>set ns. length (MBuffer m) = unat (MSize m)" for ns
    using that by (induction ns) (auto simp: msgs_size_def)
  then have "length (bunch_payload ms) = msgs_size (Messages x)"
    using assms(2) c by (metis carries_def)
  moreover have "PayloadBytes x < 0x10000"
    using assms(1,3) by (auto simp: bunch_good_def)
  ultimately show "length (bunch_payload ms) = unat (FPayloadSize (fields_of b s (Messages x) (PayloadBytes x)))"
    using assms(1) by (simp add: bunch_good_def fields_of_def word_less_nat_alt unsigned_ucast_eq take_bit_eq_mod)
qed

lemma MakeRelative_next: "MakeRelative (r + 1) r MAX_CHSEQUENCE = r + 1"
proof -
  have "uint (r + 1) - uint r = 1 \<or> uint (r + 1) - uint r = 1 - 2 ^ 32"
    by (auto simp: uint_plus_if' word_size) 
  then show ?thesis
    by (auto simp: MakeRelative_def BestSignedDifference_eq)
qed

lemma DispatchPacket_loop_bunches:
  assumes "good_from b s bs" and "list_all2 carries bs mss" and "MaxBunchPayload b < 0x10000"
    and "BReliable b" and "BChIndex b = word_of_nat i" and "i < 128" and "i < length (Channels c)"
    and "Channels c ! i = Some ch" and "ChIndex ch = 0 \<or> ChIndex ch = 1" and "InReliable ch = s"
    and "InUnreadBunchMap ch = []" and "CState c \<noteq> USOCK_Closed"
  shows "DispatchPacket_loop srv c \<lparr>BView = concat (map bunch_bytes bs), BError = False\<rparr> False
    = Some (c\<lparr>Channels := (Channels c)[i := Some (ch\<lparr>PendingDispatch := PendingDispatch ch @ concat mss,
        InReliable := s + word_of_nat (length bs)\<rparr>)]\<rparr>, False)"
  using assms
proof (induction bs arbitrary: s c ch mss)
  case Nil
  have e: "c\<lparr>Channels := (Channels c)[i := Some (ch\<lparr>InReliable := s\<rparr>)]\<rparr> = c"
    using Nil.prems(8,10) list_update_id [of "Channels c" i] by (cases ch) simp
  show ?case
    using Nil.prems(2) e by (simp add: DispatchPacket_loop.simps CanRead_def)
next
  case (Cons x bs)
  obtain ms mss' where mss: "mss = ms # mss'" "carries x ms" "list_all2 carries bs mss'"
    using Cons.prems(2) by (cases mss) auto
  have g: "bunch_good b (s + 1) x" "good_from b (s + 1) bs"
    using Cons.prems(1) by simp_all
  let ?f = "fields_of b (s + 1) (Messages x) (PayloadBytes x)"
  note F = carries_facts [OF g(1) mss(2) Cons.prems(3)]
  have i: "i = unat (FChIndex ?f)"
    using Cons.prems(5,6) by (simp add: fields_of_def unat_of_nat)
  have f: "FReliable ?f" "FChSequence ?f = s + 1"
    using Cons.prems(4) by (simp_all add: fields_of_def)
  let ?ch = "ch\<lparr>PendingDispatch := PendingDispatch ch @ ms, InReliable := s + 1\<rparr>"
  let ?c = "c\<lparr>Channels := (Channels c)[i := Some ?ch]\<rparr>"
  have ok: "\<forall>m\<in>set ms. message_ok m"
    using mss(2) by (simp add: carries_def)
  have "DispatchPacket_step srv c \<lparr>BView = concat (map bunch_bytes (x # bs)), BError = False\<rparr>
      = Some (?c, \<lparr>BView = concat (map bunch_bytes bs), BError = False\<rparr>, False, Continue)"
    using DispatchPacket_step_bunch [OF i Cons.prems(6-9) f(1) F(2), of srv "concat (map bunch_bytes bs)"]
      MakeRelative_next [of s] ReceiveBunch_next [OF ok F(4) Cons.prems(11)] F(3) f(2) Cons.prems(10)
    by (simp add: F(1))
  moreover have "CanRead \<lparr>BView = concat (map bunch_bytes (x # bs)), BError = False\<rparr> 1"
    by (simp add: CanRead_def F(1) Suc_le_eq)
  moreover have "DispatchPacket_loop srv ?c \<lparr>BView = concat (map bunch_bytes bs), BError = False\<rparr> False
    = Some (?c\<lparr>Channels := (Channels ?c)[i := Some (?ch\<lparr>PendingDispatch := PendingDispatch ?ch @ concat mss',
        InReliable := s + 1 + word_of_nat (length bs)\<rparr>)]\<rparr>, False)"
    by (rule Cons.IH [OF g(2) mss(3)]) (use Cons.prems in auto)
  ultimately show ?case
    using Cons.prems(12) mss(1) by (subst DispatchPacket_loop.simps) (simp add: ac_simps)
qed

lemma DispatchPacket_bunches:
  assumes "GetPayload Reader = Some (concat (map bunch_bytes bs))"
    and "good_from b s bs" and "list_all2 carries bs mss" and "MaxBunchPayload b < 0x10000"
    and "BReliable b" and "BChIndex b = word_of_nat i" and "i < 128" and "i < length (Channels c)"
    and "Channels c ! i = Some ch" and "ChIndex ch = 0 \<or> ChIndex ch = 1" and "InReliable ch = s"
    and "InUnreadBunchMap ch = []" and "CState c \<noteq> USOCK_Closed"
  shows "DispatchPacket srv c Reader
    = Some (c\<lparr>Channels := (Channels c)[i := Some (ch\<lparr>PendingDispatch := PendingDispatch ch @ concat mss,
        InReliable := s + word_of_nat (length bs)\<rparr>)]\<rparr>, False)"
  using DispatchPacket_loop_bunches [OF assms(2-13)] assms(1) by (simp add: DispatchPacket_def BufferReader_ctor_def)

text \<open>
  C16. From the sender's builder to the receiver's channel: the payload of a packet with the bunches a pump
  produced for a reliable channel, received when the channel expects the first of them, is dispatched
  without an error, and the channel has all their messages, in order, and expects the bunch after them.
\<close>

theorem packet_delivers_messages:
  assumes "GetPayload Reader = Some (concat (map bunch_bytes bs))"
    and "good_from b s bs" and "list_all2 carries bs mss" and "MaxBunchPayload b < 0x10000"
    and "BReliable b" and "BChIndex b = word_of_nat i" and "i < 128" and "i < length (Channels c)"
    and "Channels c ! i = Some ch" and "ChIndex ch = 0 \<or> ChIndex ch = 1" and "InReliable ch = s"
    and "InUnreadBunchMap ch = []" and "CState c \<noteq> USOCK_Closed"
  shows "DispatchPacket srv c Reader
    = Some (c\<lparr>Channels := (Channels c)[i := Some (ch\<lparr>PendingDispatch := PendingDispatch ch @ concat mss,
        InReliable := s + word_of_nat (length bs)\<rparr>)]\<rparr>, False)"
  using assms by (rule DispatchPacket_bunches)

definition sample_message :: RecvMessageReader where
  "sample_message = \<lparr>RView = [1, 2], RMessageId = 7\<rparr>"

definition sample_sender :: ChannelBunchBuilder where
  "sample_sender = Builder_ctor 0 False False False True BunchPolicy_default"

definition wire_bunch :: OutReadyBunch where
  "wire_bunch = bunch_of sample_sender 6 [\<lparr>MBuffer = message_bytes sample_message, MSize = 6, MCallback = False\<rparr>] 6"

definition sample_receiver :: NetConnection where
  "sample_receiver = (NetConnection_ctor 0)\<lparr>Channels := [Some (ControlChannel_Init ControlChannel_ctor 0 5 0)]\<rparr>"

definition sample_reader :: "u8 list \<Rightarrow> RecvPacketReader" where
  "sample_reader Payload = \<lparr>RHeader = \<lparr>ArIsSaving = False, ArIsPersistent = True, ArIsNetArchive = True, ArIsLoading = True,
     ArForceByteSwapping = False, ArIsError = False, RBuffer = [], RMax = 0, RPos = 0\<rparr>, RPayload = Payload,
     RPayloadSize = word_of_nat (length Payload), RHashKey = 0, RAddress = \<lparr>ss_family = 2, sin_addr = 0, sin_port = 0\<rparr>,
     bConnectionlessPacket = False, bFromRecentlyDisconnected = False\<rparr>"

theorem packet_delivers_messages_witness:
  "map_option (\<lambda>(c, e). (map (map_option PendingDispatch) (Channels c), e))
     (DispatchPacket True sample_receiver (sample_reader (bunch_bytes wire_bunch))) = Some ([Some [sample_message]], False)"
proof -
  have len: "length (bunch_bytes wire_bunch) = 16"
    by (simp add: wire_bunch_def bunch_of_def bunch_bytes_def message_bytes_def sample_message_def le_bytes_def)
  let ?ch = "ControlChannel_Init ControlChannel_ctor 0 5 0"
  have 1: "GetPayload (sample_reader (bunch_bytes wire_bunch)) = Some (concat (map bunch_bytes [wire_bunch]))"
    by (simp add: GetPayload_def sample_reader_def len)
  have 2: "good_from sample_sender 5 [wire_bunch]"
    by (simp add: bunch_good_def wire_bunch_def bunch_of_def msgs_size_def sample_sender_def Builder_ctor_def BunchPolicy_default_def Let_def)
  have 3: "list_all2 carries [wire_bunch] [[sample_message]]"
    by (simp add: carries_def wire_bunch_def bunch_of_def message_ok_def sample_message_def message_bytes_def le_bytes_def)
  have 4: "MaxBunchPayload sample_sender < 0x10000" "BReliable sample_sender" "BChIndex sample_sender = word_of_nat 0"
    by (simp_all add: sample_sender_def Builder_ctor_def BunchPolicy_default_def Let_def)
  have 5: "0 < length (Channels sample_receiver)" "Channels sample_receiver ! 0 = Some ?ch" "CState sample_receiver \<noteq> USOCK_Closed"
    by (simp_all add: sample_receiver_def NetConnection_ctor_def)
  have 6: "ChIndex ?ch = 0 \<or> ChIndex ?ch = 1" "InReliable ?ch = 5" "InUnreadBunchMap ?ch = []" "PendingDispatch ?ch = []"
    by (simp_all add: ControlChannel_Init_def ControlChannel_ctor_def NetChannel_ctor_def Let_def)
  have "length (Channels sample_receiver) = 1"
    by (simp add: sample_receiver_def)
  then show ?thesis
    using packet_delivers_messages [OF 1 2 3 4 _ 5(1,2) 6(1-3) 5(3), of True] 6(4) by (cases "Channels sample_receiver") simp_all
qed

section \<open>Acknowledging\<close>

lemma CreateChannelByName_frame:
  "CreateChannelByName c Name i = Some (c', b) \<Longrightarrow> \<exists>C. c' = c\<lparr>Channels := C\<rparr>"
  by (auto simp: CreateChannelByName_def bind_eq_Some_conv split: option.splits intro: exI [of _ "Channels c"])

lemma DispatchPacket_bunch_frame:
  assumes "DispatchPacket_bunch srv c R h = Some (c', R', e, le)"
  shows "\<exists>C. c' = c\<lparr>Channels := C\<rparr>"
proof -
  obtain f i q n p where h: "h = (f, i, q, n, p)"
    by (metis prod_cases5)
  consider "c' = c" | c1 where "\<exists>C. c1 = c\<lparr>Channels := C\<rparr>" "c' = c1 \<or> (\<exists>C. c' = c1\<lparr>Channels := C\<rparr>)"
  proof (cases "128 \<le> unat i \<or> length (Channels c) \<le> unat i")
    case True
    then show thesis
      using assms that(1) by (auto simp: h DispatchPacket_bunch_def Let_def)
  next
    case False
    obtain R2 v where rv: "ReadView R (unat p) = (R2, v)"
      by force
    let ?slot = "(if Channels c ! unat i = None
        then map_option fst (CreateChannelByName c (if bit f 3 \<or> bit f (Suc 0) then channel_name (unat i) else []) (unat i)) else Some c)"
    obtain c1 where c1: "?slot = Some c1"
      "(case Channels c1 ! unat i of
            None \<Rightarrow> Some (c1, R, True, Break)
          | Some ch \<Rightarrow>
              let ChSequence = (if bit f 3 then MakeRelative q (InReliable ch) MAX_CHSEQUENCE else q);
                  (PacketReader, View) = ReadView R (unat p)
              in if (bit f 3 \<and> ChSequence \<noteq> InReliable ch + 1) \<or> ChIndex ch = 0 \<or> ChIndex ch = 1
                 then Some (c1\<lparr>Channels := (Channels c1)[unat i := Some (ReceiveBunch ch (bit f 3) ChSequence View n)]\<rparr>,
                            PacketReader, False, Continue)
                 else Some (c1, PacketReader, True, if srv then Break else Continue)) = Some (c', R', e, le)"
      using assms False by (cases ?slot) (auto simp: h DispatchPacket_bunch_def Let_def)
    have "c' = c1 \<or> (\<exists>C. c' = c1\<lparr>Channels := C\<rparr>)"
      using c1(2) by (cases "Channels c1 ! unat i") (auto simp: Let_def rv split: if_splits)
    moreover have "\<exists>C. c1 = c\<lparr>Channels := C\<rparr>"
      using c1(1) CreateChannelByName_frame by (auto split: if_splits intro: exI [of _ "Channels c"])
    ultimately show thesis
      using that(2) by blast
  qed
  then show ?thesis
  proof cases
    case 1
    then show ?thesis
      by (intro exI [of _ "Channels c"]) simp
  next
    case 2
    then show ?thesis
      by (auto intro: exI [of _ "Channels c'"])
  qed
qed

lemma DispatchPacket_step_frame:
  assumes "DispatchPacket_step srv c R = Some (c', R', e, le)"
  shows "\<exists>C. c' = c\<lparr>Channels := C\<rparr>"
proof -
  consider "c' = c" | R2 h where "DispatchPacket_bunch srv c R2 h = Some (c', R', e, le)"
    using assms by (auto simp: DispatchPacket_step_def Let_def bind_eq_Some_conv split: option.splits prod.splits if_splits)
  then show ?thesis
  proof cases
    case 1
    then show ?thesis
      by (intro exI [of _ "Channels c"]) simp
  qed (rule DispatchPacket_bunch_frame)
qed

lemma DispatchPacket_loop_frame:
  "DispatchPacket_loop srv c R e = Some (c', e') \<Longrightarrow> \<exists>C. c' = c\<lparr>Channels := C\<rparr>"
proof (induction srv c R e rule: DispatchPacket_loop.induct)
  case (1 srv c R e)
  show ?case
  proof (cases "CanRead R 1 \<and> CState c \<noteq> USOCK_Closed")
    case True
    obtain c2 R2 e2 le where s: "DispatchPacket_step srv c R = Some (c2, R2, e2, le)"
      using 1(2) True by (subst (asm) DispatchPacket_loop.simps) (auto split: option.splits)
    obtain C where C: "c2 = c\<lparr>Channels := C\<rparr>"
      using DispatchPacket_step_frame [OF s] by blast
    show ?thesis
    proof (cases le)
      case Break
      then show ?thesis
        using 1(2) True s C by (subst (asm) DispatchPacket_loop.simps) auto
    next
      case Continue
      have "\<exists>C. c' = c2\<lparr>Channels := C\<rparr>"
        by (rule 1(1) [OF True s refl refl refl Continue]) (use 1(2) True s Continue in \<open>simp add: DispatchPacket_loop.simps [of srv c]\<close>)
      then show ?thesis
        unfolding C by auto
    qed
  next
    case False
    then show ?thesis
      using 1(2) by (subst (asm) DispatchPacket_loop.simps) (auto intro: exI [of _ "Channels c"])
  qed
qed

lemma DispatchPacket_frame: "DispatchPacket srv c r = Some (c', e) \<Longrightarrow> \<exists>C. c' = c\<lparr>Channels := C\<rparr>"
  by (auto simp: DispatchPacket_def bind_eq_Some_conv intro: DispatchPacket_loop_frame)

lemma AckSeq_again:
  assumes "seq_wf (InAckSeq n)" and "0 < k" and "k < 8192"
  defines "t \<equiv> seq_fwd (InAckSeq n) k"
  shows "AckSeq (AckSeq n t) t = AckSeq n t"
proof -
  have "InAckSeq (AckSeq n t) = t"
    by (simp add: AckSeq_def AckSeq_gen_def t_def AckSeq_loop_log [OF assms(1-3)])
  then have "\<not> seq_gt t (InAckSeq (AckSeq n t))"
    by (simp add: seq_gt_iff)
  then show ?thesis
    unfolding AckSeq_def [of "AckSeq n t"] by (rule AckSeq_gen_skip)
qed

lemma dispatch_readers_frame:
  "dispatch_readers srv c rs = Some c' \<Longrightarrow> AckSeq (CNotify c) (seq_of_int (InPacketId c)) = CNotify c
    \<Longrightarrow> CNotify c' = CNotify c \<and> InPacketId c' = InPacketId c \<and> PendingReaders c' = []"
proof (induction rs arbitrary: c)
  case (Cons r rs)
  then obtain c1 e where c1: "DispatchPacket srv c r = Some (c1, e)"
    "dispatch_readers srv (c1\<lparr>CNotify := AckSeq (CNotify c1) (seq_of_int (InPacketId c1))\<rparr>) rs = Some c'"
    by (auto simp: bind_eq_Some_conv)
  obtain C where C: "c1 = c\<lparr>Channels := C\<rparr>"
    using DispatchPacket_frame [OF c1(1)] by blast
  show ?case
    using Cons.IH [OF c1(2)] Cons.prems(2) by (simp add: C)
qed auto

text \<open>All waiting packets are acknowledged by the number of the last one.\<close>

lemma waiting_packets_acknowledged:
  assumes "DispatchPendingPacket srv c = Some c'" and "PendingReaders c \<noteq> []"
    and "records (CNotify c) init ds" and "seq_wf init"
    and "seq_of_int (InPacketId c) = seq_fwd (InAckSeq (CNotify c)) k" and "0 < k" and "k < 8192"
  shows "records (CNotify c') init (ds @ replicate (k - 1) False @ [True]) \<and> PendingReaders c' = []"
proof -
  obtain r rs where rs: "PendingReaders c = r # rs"
    using assms(2) by (cases "PendingReaders c") auto
  obtain c1 e where c1: "DispatchPacket srv c r = Some (c1, e)"
    "dispatch_readers srv (c1\<lparr>CNotify := AckSeq (CNotify c1) (seq_of_int (InPacketId c1))\<rparr>) rs = Some c'"
    using assms(1) by (auto simp: DispatchPendingPacket_def rs bind_eq_Some_conv)
  obtain C where C: "c1 = c\<lparr>Channels := C\<rparr>"
    using DispatchPacket_frame [OF c1(1)] by blast
  have wf: "seq_wf (InAckSeq (CNotify c))"
    using assms(3,4) by (simp add: records_def)
  have "CNotify c' = AckSeq (CNotify c) (seq_fwd (InAckSeq (CNotify c)) k) \<and> PendingReaders c' = []"
    using dispatch_readers_frame [OF c1(2)] AckSeq_again [OF wf assms(6,7)] assms(5) by (simp add: C)
  moreover have "AckSeq (CNotify c) (seq_fwd (InAckSeq (CNotify c)) k) = (CNotify c)\<lparr>InAckSeq := seq_fwd (InAckSeq (CNotify c)) k,
      InSeqHistory := foldl AddDeliveryStatus (InSeqHistory (CNotify c)) (replicate (k - 1) False @ [True])\<rparr>"
    by (simp only: AckSeq_def AckSeq_gen_def AckSeq_loop_log [OF wf assms(6,7)] prod.case Let_def)
  then have "records (AckSeq (CNotify c) (seq_fwd (InAckSeq (CNotify c)) k)) init (ds @ replicate (k - 1) False @ [True])"
    using assms(3,6) by (simp add: records_def seq_fwd_add)
  ultimately show ?thesis
    by simp
qed

text \<open>The bunches of the waiting packets go to their channel, packet by packet.\<close>

lemma dispatch_readers_bunches:
  assumes "list_all2 (\<lambda>r bs. GetPayload r = Some (concat (map bunch_bytes bs))) rs bss"
    and "good_from b s (concat bss)" and "list_all2 carries (concat bss) mss" and "MaxBunchPayload b < 0x10000"
    and "BReliable b" and "BChIndex b = word_of_nat i" and "i < 128" and "i < length (Channels c)"
    and "Channels c ! i = Some ch" and "ChIndex ch = 0 \<or> ChIndex ch = 1" and "InReliable ch = s"
    and "InUnreadBunchMap ch = []" and "CState c \<noteq> USOCK_Closed"
  shows "\<exists>c'. dispatch_readers srv c rs = Some c' \<and> Channels c' = (Channels c)[i := Some (ch\<lparr>PendingDispatch := PendingDispatch ch @ concat mss,
        InReliable := s + word_of_nat (length (concat bss))\<rparr>)]"
  using assms
proof (induction rs arbitrary: bss mss s c ch)
  case Nil
  have "Channels c = (Channels c)[i := Some (ch\<lparr>InReliable := s\<rparr>)]"
    using Nil.prems(9,11) list_update_id [of "Channels c" i] by (cases ch) simp
  then show ?case
    using Nil.prems(1,3) by simp
next
  case (Cons r rs)
  obtain bs bss' where bss: "bss = bs # bss'" "GetPayload r = Some (concat (map bunch_bytes bs))"
    "list_all2 (\<lambda>r bs. GetPayload r = Some (concat (map bunch_bytes bs))) rs bss'"
    using Cons.prems(1) by (cases bss) auto
  obtain ms1 ms2 where mss: "mss = ms1 @ ms2" "list_all2 carries bs ms1" "list_all2 carries (concat bss') ms2"
    using Cons.prems(3) unfolding bss(1) by (auto simp: list_all2_append1)
  have g: "good_from b s bs" "good_from b (s + word_of_nat (length bs)) (concat bss')"
    using Cons.prems(2) unfolding bss(1) by (simp_all add: good_from_append)
  let ?ch = "ch\<lparr>PendingDispatch := PendingDispatch ch @ concat ms1, InReliable := s + word_of_nat (length bs)\<rparr>"
  let ?c = "c\<lparr>Channels := (Channels c)[i := Some ?ch]\<rparr>"
  have d: "DispatchPacket srv c r = Some (?c, False)"
    by (rule DispatchPacket_bunches [OF bss(2) g(1) mss(2) Cons.prems(4-13)])
  let ?c2 = "?c\<lparr>CNotify := AckSeq (CNotify ?c) (seq_of_int (InPacketId ?c))\<rparr>"
  have "\<exists>c'. dispatch_readers srv ?c2 rs = Some c' \<and> Channels c' = (Channels ?c2)[i := Some (?ch\<lparr>PendingDispatch := PendingDispatch ?ch @ concat ms2,
        InReliable := s + word_of_nat (length bs) + word_of_nat (length (concat bss'))\<rparr>)]"
    by (rule Cons.IH [OF bss(3) g(2) mss(3)]) (use Cons.prems in auto)
  then show ?case
    using d by (auto simp: bss(1) mss(1) add.assoc)
qed

text \<open>
  C35. Several packets of a sender wait, in the order of their numbers and without a gap, when they are
  dispatched: the messages of all of them are handed to their channel, in order, but all are acknowledged
  by the number of the last one, so that in the history that is sent back every packet but the last is
  recorded as lost.
\<close>

theorem waiting_packets_recorded_lost:
  assumes "PendingReaders c = rs" and "1 < length rs" and "length rs < 8192"
    and "list_all2 (\<lambda>r bs. GetPayload r = Some (concat (map bunch_bytes bs))) rs bss"
    and "good_from b s (concat bss)" and "list_all2 carries (concat bss) mss" and "MaxBunchPayload b < 0x10000"
    and "BReliable b" and "BChIndex b = word_of_nat i" and "i < 128" and "i < length (Channels c)"
    and "Channels c ! i = Some ch" and "ChIndex ch = 0 \<or> ChIndex ch = 1" and "InReliable ch = s"
    and "InUnreadBunchMap ch = []" and "CState c \<noteq> USOCK_Closed"
    and "records (CNotify c) init ds" and "seq_wf init"
    and "seq_of_int (InPacketId c) = seq_fwd (InAckSeq (CNotify c)) (length rs)"
  shows "\<exists>c'. DispatchPendingPacket srv c = Some c' \<and> PendingReaders c' = []
    \<and> Channels c' = (Channels c)[i := Some (ch\<lparr>PendingDispatch := PendingDispatch ch @ concat mss,
        InReliable := s + word_of_nat (length (concat bss))\<rparr>)]
    \<and> records (CNotify c') init (ds @ replicate (length rs - 1) False @ [True])"
proof -
  obtain c' where c': "DispatchPendingPacket srv c = Some c'" "Channels c' = (Channels c)[i := Some (ch\<lparr>PendingDispatch := PendingDispatch ch @ concat mss,
        InReliable := s + word_of_nat (length (concat bss))\<rparr>)]"
    using dispatch_readers_bunches [OF assms(4-16), of srv] assms(1) by (auto simp: DispatchPendingPacket_def)
  have "PendingReaders c \<noteq> []" "0 < length rs"
    using assms(1,2) by auto
  from waiting_packets_acknowledged [OF c'(1) this(1) assms(17-19) this(2) assms(3)] c' show ?thesis
    by blast
qed

text \<open>Two packets with one message each.\<close>

definition next_wire_bunch :: OutReadyBunch where
  "next_wire_bunch = bunch_of sample_sender 7 [\<lparr>MBuffer = message_bytes sample_message, MSize = 6, MCallback = False\<rparr>] 6"

theorem waiting_packets_recorded_lost_witness:
  "\<exists>c'. DispatchPendingPacket True (sample_receiver\<lparr>PendingReaders := [sample_reader (bunch_bytes wire_bunch), sample_reader (bunch_bytes next_wire_bunch)],
      InPacketId := 1, CNotify := Notify_Init NetPacketNotify_ctor (MkSeq 16383) (MkSeq 0)\<rparr>) = Some c'
    \<and> map (map_option PendingDispatch) (Channels c') = [Some [sample_message, sample_message]]
    \<and> records (CNotify c') (MkSeq 16383) [False, True]"
proof -
  let ?n = "Notify_Init NetPacketNotify_ctor (MkSeq 16383) (MkSeq 0)"
  let ?rs = "[sample_reader (bunch_bytes wire_bunch), sample_reader (bunch_bytes next_wire_bunch)]" and ?bss = "[[wire_bunch], [next_wire_bunch]]"
  let ?c = "sample_receiver\<lparr>PendingReaders := ?rs, InPacketId := 1, CNotify := ?n\<rparr>" and ?ch = "ControlChannel_Init ControlChannel_ctor 0 5 0"
  have len: "length (bunch_bytes wire_bunch) = 16" "length (bunch_bytes next_wire_bunch) = 16"
    by (simp_all add: wire_bunch_def next_wire_bunch_def bunch_of_def bunch_bytes_def message_bytes_def sample_message_def le_bytes_def)
  have 1: "list_all2 (\<lambda>r bs. GetPayload r = Some (concat (map bunch_bytes bs))) ?rs ?bss"
    by (simp add: GetPayload_def sample_reader_def len)
  have 2: "good_from sample_sender 5 (concat ?bss)"
    by (simp add: bunch_good_def wire_bunch_def next_wire_bunch_def bunch_of_def msgs_size_def sample_sender_def Builder_ctor_def BunchPolicy_default_def Let_def)
  have 3: "list_all2 carries (concat ?bss) [[sample_message], [sample_message]]"
    by (simp add: carries_def wire_bunch_def next_wire_bunch_def bunch_of_def message_ok_def sample_message_def message_bytes_def le_bytes_def)
  have 4: "MaxBunchPayload sample_sender < 0x10000" "BReliable sample_sender" "BChIndex sample_sender = word_of_nat 0"
    by (simp_all add: sample_sender_def Builder_ctor_def BunchPolicy_default_def Let_def)
  have C: "Channels ?c = [Some ?ch]"
    by (simp add: sample_receiver_def)
  then have 5: "0 < length (Channels ?c)" "Channels ?c ! 0 = Some ?ch" "CState ?c \<noteq> USOCK_Closed"
    by (simp_all add: sample_receiver_def NetConnection_ctor_def)
  have 6: "ChIndex ?ch = 0 \<or> ChIndex ?ch = 1" "InReliable ?ch = 5" "InUnreadBunchMap ?ch = []" "PendingDispatch ?ch = []"
    by (simp_all add: ControlChannel_Init_def ControlChannel_ctor_def NetChannel_ctor_def Let_def)
  have 7: "records (CNotify ?c) (MkSeq 16383) []" "seq_wf (MkSeq 16383)"
    by (simp_all add: records_Init)
  have 8: "seq_of_int (InPacketId ?c) = seq_fwd (InAckSeq (CNotify ?c)) (length ?rs)"
    by (intro seq_eqI) (simp_all add: seq_of_int_def Notify_Init_def Let_def sval_seq_fwd sval_MkSeq)
  have "PendingReaders ?c = ?rs" "1 < length ?rs" "length ?rs < 8192"
    by simp_all
  from waiting_packets_recorded_lost [OF this 1 2 3 4 _ 5(1,2) 6(1-3) 5(3) 7 8, of True] 6(4) C show ?thesis
    by auto
qed

text \<open>
  C36. A duplicate of a packet is queued and dispatched once more: its bunch, which the channel has had, is
  put into the channel's reordering buffer, where it stays first, so that the channel is blocked for bunches
  that arrive early.
\<close>

theorem duplicate_packet_blocks_channel:
  assumes "ReadHeader NotificationHeader_ctor (RHeader r) = Some (H, B, True)" and "GetSequenceDelta (CNotify c) H = 0"
    and "PendingReaders c = []" and "GetPayload r = Some (bunch_bytes x)"
    and "bunch_good b s x" and "carries x ms" and "MaxBunchPayload b < 0x10000"
    and "BReliable b" and "BChIndex b = word_of_nat i" and "i < 128" and "i < length (Channels c)"
    and "Channels c ! i = Some ch" and "ChIndex ch = 0 \<or> ChIndex ch = 1" and "InReliable ch = s"
    and "InUnreadBunchMap ch = []" and "CState c \<noteq> USOCK_Closed"
  shows "\<exists>c1 c2 ch2. ReceivedPacket c r Now us = Some c1 \<and> DispatchPendingPacket srv c1 = Some c2
    \<and> Channels c2 ! i = Some ch2 \<and> blocked s ch2 \<and> InReliable ch2 = s"
proof -
  let ?r = "r\<lparr>RHeader := B\<rparr>" and ?c1 = "c\<lparr>LastReceiveTime := Now, PendingReaders := [r\<lparr>RHeader := B\<rparr>]\<rparr>"
  have c1: "ReceivedPacket c r Now us = Some ?c1"
    using assms(1-3) by (simp add: ReceivedPacket_def Let_def)
  let ?f = "fields_of b s (Messages x) (PayloadBytes x)"
  note F = carries_facts [OF assms(5-7)]
  have i: "i = unat (FChIndex ?f)"
    using assms(9,10) by (simp add: fields_of_def unat_of_nat)
  have f: "FReliable ?f" "FChSequence ?f = s"
    using assms(8) by (simp_all add: fields_of_def)
  have rel: "MakeRelative s s MAX_CHSEQUENCE = s"
    by (simp add: MakeRelative_def BestSignedDifference_eq)
  define ch2 where "ch2 = AddUnreadInCopyBunch ch s (InBunchReader_ctor (bunch_payload ms) s (word_of_nat (length ms)))"
  have "ReceiveBunch ch True s (bunch_payload ms) (word_of_nat (length ms)) = ch2"
    using assms(14) by (simp add: ReceiveBunch_def ch2_def)
  then have "DispatchPacket_step srv ?c1 \<lparr>BView = bunch_bytes x, BError = False\<rparr>
      = Some (?c1\<lparr>Channels := (Channels c)[i := Some ch2]\<rparr>, \<lparr>BView = [], BError = False\<rparr>, False, Continue)"
    using DispatchPacket_step_bunch [OF i assms(10) _ _ assms(13) f(1) F(2), of ?c1 srv "[]"] assms(11,12,14) rel F(3) f(2)
    by (simp add: F(1))
  moreover have "Suc 0 \<le> length (bunch_bytes x)"
    by (simp add: F(1) Suc_le_eq)
  moreover have p: "GetPayload ?r = Some (bunch_bytes x)"
    using assms(4) by (simp add: GetPayload_def split: if_splits)
  ultimately have "DispatchPacket srv ?c1 ?r = Some (?c1\<lparr>Channels := (Channels c)[i := Some ch2]\<rparr>, False)"
    using p assms(16) by (simp add: DispatchPacket_def BufferReader_ctor_def DispatchPacket_loop.simps [of srv ?c1]
        DispatchPacket_loop.simps [of srv "?c1\<lparr>Channels := (Channels c)[i := Some ch2]\<rparr>"] CanRead_def)
  then have "\<exists>c2. DispatchPendingPacket srv ?c1 = Some c2 \<and> Channels c2 = (Channels c)[i := Some ch2]"
    by (simp add: DispatchPendingPacket_def)
  moreover have "blocked s ch2 \<and> InReliable ch2 = s"
    using assms(14,15) by (simp add: ch2_def blocked_def AddUnreadInCopyBunch_def omap_ok_def omap_first_def)
  ultimately show ?thesis
    using c1 assms(11) by fastforce
qed

definition stale_reader :: RecvPacketReader where
  "stale_reader = (sample_reader (bunch_bytes wire_bunch))\<lparr>RHeader := (RHeader (sample_reader []))\<lparr>RBuffer := replicate 8 0, RMax := 64\<rparr>\<rparr>"

lemma stale_header:
  "\<exists>H B. ReadHeader NotificationHeader_ctor (RHeader stale_reader) = Some (H, B, True) \<and> GetSequenceDelta NetPacketNotify_ctor H = 0"
proof -
  let ?r = "RHeader stale_reader" and ?n = NetPacketNotify_ctor
  have hw: "header_words ?n = 1"
    by (simp add: header_words_def GetCurrentSequenceHistoryLength_def NetPacketNotify_ctor_def seq_ge_iff Diff_eq
        BitsPerWord_def WordCount_def)
  have "Pack (OutSeq ?n) (InAckSeq ?n) 0 = 0"
    by (simp add: Pack_def NetPacketNotify_ctor_def seq_default_def)
  moreover have "map (bot :: nat \<Rightarrow> bool) [0..<32] = replicate 32 False"
    by (rule nth_equalityI) auto
  ultimately have "header_bits ?n = replicate 64 False"
    unfolding header_bits_def hw using replicate_add [of 32 32 False]
    by (simp add: word_bits_def SequenceHistory_Reset_def NetPacketNotify_ctor_def WordCount_def)
  moreover have "rbits ?r = replicate 64 False"
    by (rule nth_equalityI) (auto simp: rbits_def stale_reader_def sample_reader_def buf_bit_def)
  ultimately have b: "rbits ?r = header_bits ?n @ []"
    by simp
  have w: "BitReader_wf ?r" "\<not> ArIsError ?r" "\<not> ArForceByteSwapping ?r"
    by (simp_all add: BitReader_wf_def stale_reader_def sample_reader_def)
  have "notify_wf ?n"
    by (simp add: notify_wf_def NetPacketNotify_ctor_def)
  from ReadHeader_front [OF this NotificationHeader_ctor_wf w b] obtain H B
    where "ReadHeader NotificationHeader_ctor ?r = Some (H, B, True)" "NSeq H = OutSeq ?n"
    by auto
  moreover have "GetSequenceDelta ?n H = 0" if "NSeq H = OutSeq ?n"
    using that by (simp add: GetSequenceDelta_def NetPacketNotify_ctor_def seq_gt_iff)
  ultimately show ?thesis
    by blast
qed

theorem duplicate_packet_blocks_channel_witness:
  "\<exists>c1 c2 ch2. ReceivedPacket (sample_receiver\<lparr>Channels := [Some (ControlChannel_Init ControlChannel_ctor 0 6 0)]\<rparr>) stale_reader 0 0 = Some c1
    \<and> DispatchPendingPacket True c1 = Some c2 \<and> Channels c2 ! 0 = Some ch2 \<and> blocked 6 ch2 \<and> InReliable ch2 = 6"
proof -
  let ?ch = "ControlChannel_Init ControlChannel_ctor 0 6 0"
  let ?c = "sample_receiver\<lparr>Channels := [Some ?ch]\<rparr>"
  obtain H B where H: "ReadHeader NotificationHeader_ctor (RHeader stale_reader) = Some (H, B, True)" "GetSequenceDelta NetPacketNotify_ctor H = 0"
    using stale_header by blast
  have len: "length (bunch_bytes wire_bunch) = 16"
    by (simp add: wire_bunch_def bunch_of_def bunch_bytes_def message_bytes_def sample_message_def le_bytes_def)
  have 1: "CNotify ?c = NetPacketNotify_ctor" "PendingReaders ?c = []" "0 < length (Channels ?c)" "Channels ?c ! 0 = Some ?ch"
    "CState ?c \<noteq> USOCK_Closed"
    by (simp_all add: sample_receiver_def NetConnection_ctor_def)
  have 2: "GetPayload stale_reader = Some (bunch_bytes wire_bunch)"
    by (simp add: GetPayload_def stale_reader_def sample_reader_def len)
  have 3: "bunch_good sample_sender 6 wire_bunch" "carries wire_bunch [sample_message]"
    by (simp_all add: bunch_good_def wire_bunch_def bunch_of_def msgs_size_def sample_sender_def Builder_ctor_def BunchPolicy_default_def Let_def
      carries_def message_ok_def sample_message_def message_bytes_def le_bytes_def)
  have 4: "MaxBunchPayload sample_sender < 0x10000" "BReliable sample_sender" "BChIndex sample_sender = word_of_nat 0"
    by (simp_all add: sample_sender_def Builder_ctor_def BunchPolicy_default_def Let_def)
  have 6: "ChIndex ?ch = 0 \<or> ChIndex ?ch = 1" "InReliable ?ch = 6" "InUnreadBunchMap ?ch = []"
    by (simp_all add: ControlChannel_Init_def ControlChannel_ctor_def NetChannel_ctor_def Let_def)
  show ?thesis
    using duplicate_packet_blocks_channel [OF H(1) H(2) [folded 1(1)] 1(2) 2 3 4 _ 1(3,4) 6 1(5), of 0 0 True] by simp
qed

section \<open>The header of a packet\<close>

text \<open>The bits of a packet's header: flags, the packed numbers and the words of history there is room for.\<close>

definition packet_header_bits :: "NetPacketNotify \<Rightarrow> bool list" where
  "packet_header_bits n = flag_bits default_cfg 0 0 False @ word_bits 32 (Pack (OutSeq n) (InAckSeq n) (header_words n - 1))
     @ word_bits 32 (hd (InSeqHistory n))"

lemma length_flags: "length (flag_bits default_cfg 0 0 False) = 7"
  by (simp add: flag_bits_def magic_bits_def default_cfg_def)

lemma WriteHeaderCallback_bits:
  assumes n: "notify_wf n" and w: "BitWriter_wf w" "\<not> ArForceByteSwapping w" "WPos w = 8" "WMax w = 80"
  shows "\<exists>w' n'. WriteHeaderCallback default_cfg n w = Some (w', n') \<and> appended w (packet_header_bits n) w'"
proof -
  have "WPos w + 38 \<le> WMax w" "ExpectMagicHeader default_cfg = 0"
    using w(3,4) by (simp_all add: default_cfg_def)
  then obtain w1 where w1: "Outgoing default_cfg w = Some w1" "appended w (flag_bits default_cfg 0 0 False) w1"
    using writesD [OF writes_Outgoing [OF default_cfg_ok] w(1,2)] by blast
  note d1 = appendedD [OF w1(2)]
  have p1: "WPos w1 = 15" "WMax w1 = 80" "\<not> ArForceByteSwapping w1"
    using d1 w by (simp_all add: length_flags)
  let ?p = "Pack (OutSeq n) (InAckSeq n) (header_words n - 1)"
  obtain w2 where w2: "stream_u32 BitWriter_Serialize w1 ?p = Some (w2, ?p)" "appended w1 (word_bits 32 ?p) w2"
    using stream_u32_writes [OF d1(1), of ?p] p1 by auto
  note d2 = appendedD [OF w2(2)]
  have p2: "WPos w2 = 47" "WMax w2 = 80" "\<not> ArForceByteSwapping w2"
    using d2 p1 by simp_all
  obtain x xs where h: "InSeqHistory n = x # xs"
    using n by (cases "InSeqHistory n") (auto simp: notify_wf_def hist_wf_def WordCount_def)
  obtain w3 where w3: "stream_u32 BitWriter_Serialize w2 x = Some (w3, x)" "appended w2 (word_bits 32 x) w3"
    using stream_u32_writes [OF d2(1), of x] p2 by auto
  note d3 = appendedD [OF w3(2)]
  have "History_Write_loop w3 ws = Some w3" for ws
    using d3 p2 by (intro History_Write_loop_full) simp_all
  then have "History_Write (InSeqHistory n) w2 (header_words n) = Some w3"
    using header_words_bounds [of n] w3(1) by (cases "header_words n") (simp_all add: History_Write_def h WordCount_def min_def)
  then have "WriteHeaderCallback default_cfg n w = Some (w3, n\<lparr>WrittenHistoryWordCount := header_words n, WrittenInAckSeq := InAckSeq n\<rparr>)"
    using w1(1) w2(1) by (simp add: WriteHeaderCallback_def WriteHeader_unfold)
  moreover have "appended w (packet_header_bits n) w3"
    using appended_trans [OF w1(2) appended_trans [OF w2(2) w3(2)]] by (simp add: packet_header_bits_def h)
  ultimately show ?thesis
    by blast
qed

lemma ReadHeader_short:
  assumes r: "BitReader_wf r" "\<not> ArIsError r" "\<not> ArForceByteSwapping r"
    and bits: "rbits r = word_bits 32 (Pack s a (k - 1)) @ word_bits 32 (x :: u32) @ pad" "length pad < 32"
    and wf: "seq_wf s" "seq_wf a" and k: "2 \<le> k" "k \<le> 8"
  shows "\<exists>H B. ReadHeader NotificationHeader_ctor r = Some (H, B, False)"
proof -
  let ?p = "Pack s a (k - 1)" and ?d = NotificationHeader_ctor
  obtain r1 where r1: "stream_u32 BitReader_Serialize r 0 = Some (r1, ?p)" "BitReader_wf r1" "\<not> ArIsError r1"
    "\<not> ArForceByteSwapping r1" "rbits r1 = word_bits 32 x @ pad"
    by (rule readsD [OF reads_u32 r bits(1)])
  have k1: "k - 1 < 16"
    using k by simp
  have words: "Suc (GetHistoryWordCount ?p) = k"
    using Pack_fields(3) [OF wf k1] k by simp
  obtain r2 where r2: "stream_u32 BitReader_Serialize r1 0 = Some (r2, x)" "\<not> ArForceByteSwapping r2" "rbits r2 = pad"
    by (rule readsD [OF reads_u32 r1(2-5)])
  have "length (rbits r2) < 32"
    using r2(3) bits(2) by simp
  then have "ArIsError r2 \<or> RMax r2 < RPos r2 + 32"
    by (simp add: rbits_def less_diff_conv2) linarith
  then obtain v where v: "stream_u32 BitReader_Serialize r2 0 = Some (SetError r2, v)"
    using stream_u32_short [OF _ r2(2)] by blast
  obtain j where j: "k = Suc (Suc j)" "j \<le> 6"
    using k by (cases k rule: nat.exhaust; cases "k - 1") auto
  have t: "take k SequenceHistory_Reset = 0 # 0 # replicate j 0"
    using j by (simp add: SequenceHistory_Reset_def WordCount_def min_def)
  obtain r3 ws where r3: "History_Read_loop (SetError r2) (replicate j 0) = Some (r3, ws)" "ArIsError r3"
    using History_Read_loop_error [of "SetError r2"] r2(2) by (metis SetError_fields(1,2))
  have "History_Read (NHistory ?d) r1 k = Some (r3, (x # v # ws) @ drop k (NHistory ?d))"
    using k r2(1) v r3(1) by (simp add: History_Read_def NotificationHeader_ctor_def t WordCount_def min_def)
  then show ?thesis
    using r1(1) r3(2) words by (simp add: ReadHeader_def Let_def NotificationHeader_ctor_def)
qed

lemma ReadHeader_one:
  assumes r: "BitReader_wf r" "\<not> ArIsError r" "\<not> ArForceByteSwapping r"
    and bits: "rbits r = header_bits n @ pad" and n: "notify_wf n"
  shows "\<exists>H B. ReadHeader NotificationHeader_ctor r = Some (H, B, True) \<and> NSeq H = OutSeq n \<and> NAckedSeq H = InAckSeq n"
  using ReadHeader_front [OF n NotificationHeader_ctor_wf r bits] by auto

text \<open>
  C37. The header of a packet is ten bytes: flags, packed numbers and one word of history fit. With up to
  32 packets between the last acknowledged one and the last one the peer is known to know about, the peer
  reads the header; beyond that, the packed numbers announce words that were not written, the peer's reading
  fails, and the packet changes nothing but the time of the last packet: none of its bunches and no
  acknowledgement arrives, while the peer does not time out either.
\<close>

theorem long_history_header_unreadable:
  assumes n: "notify_wf n" and p: "length (PktHeader p) = 10"
  shows "\<exists>p' n' r. BuildEnd p (WriteHeaderCallback default_cfg n) us = Some (p', n')
    \<and> RecvPacketReader_ctor \<lparr>EData = PktHeader p' @ rest, remoteAddr = a\<rparr> m = Some r
    \<and> take 7 (rbits (RHeader r)) = flag_bits default_cfg 0 0 False
    \<and> (\<forall>r1. BitReader_wf r1 \<and> \<not> ArIsError r1 \<and> \<not> ArForceByteSwapping r1 \<and> rbits r1 = drop 7 (rbits (RHeader r)) \<longrightarrow>
        (if GetCurrentSequenceHistoryLength n \<le> 32
         then \<exists>H B. ReadHeader NotificationHeader_ctor r1 = Some (H, B, True) \<and> NSeq H = OutSeq n \<and> NAckedSeq H = InAckSeq n
         else ReceivedPacket c (r\<lparr>RHeader := r1\<rparr>) Now NowUs = Some (c\<lparr>LastReceiveTime := Now\<rparr>)))"
proof -
  obtain h where h: "PacketHeader_ctor 80 = Some h" "BitWriter_wf (PhBuffer h)" "\<not> ArForceByteSwapping (PhBuffer h)"
    "WPos (PhBuffer h) = 8" "WMax (PhBuffer h) = 80" "\<not> bSealed h"
    using PacketHeader_ctor_ok [of 80] by auto
  obtain B n' where B: "WriteHeaderCallback default_cfg n (PhBuffer h) = Some (B, n')" "appended (PhBuffer h) (packet_header_bits n) B"
    using WriteHeaderCallback_bits [OF n h(2-5)] by blast
  obtain h' where h': "HeaderSealed (h\<lparr>PhBuffer := B\<rparr>) = Some h'" "sealed_header (WBuffer (PhBuffer h')) 10 (packet_header_bits n)"
    using HeaderSealed_ok [OF B(2) h(4) _ _ h(6), of 10] h(5) by auto
  let ?hdr = "WBuffer (PhBuffer h')"
  have len: "length ?hdr = 10"
    using h'(2) by (simp add: sealed_header_def)
  obtain p' where build: "BuildEnd p (WriteHeaderCallback default_cfg n) us = Some (p', n')" and p': "PktHeader p' = ?hdr"
    using h(1) B(1) h'(1) len p by (simp add: BuildEnd_def PacketHeaderSize_def OutReadyPacket_BuildEnd_def)
  obtain r pad where r: "RecvPacketReader_ctor \<lparr>EData = PktHeader p' @ rest, remoteAddr = a\<rparr> m = Some r"
    "rbits (RHeader r) = packet_header_bits n @ pad" "length pad < 8"
    using sealed_header_received [OF h'(2), of rest a m] by (auto simp: p')
  have take7: "take 7 (rbits (RHeader r)) = flag_bits default_cfg 0 0 False"
    and drop7: "drop 7 (rbits (RHeader r)) = word_bits 32 (Pack (OutSeq n) (InAckSeq n) (header_words n - 1))
      @ word_bits 32 (hd (InSeqHistory n)) @ pad"
    unfolding r(2) packet_header_bits_def by (simp_all add: length_flags)
  have "(if GetCurrentSequenceHistoryLength n \<le> 32
         then \<exists>H B. ReadHeader NotificationHeader_ctor r1 = Some (H, B, True) \<and> NSeq H = OutSeq n \<and> NAckedSeq H = InAckSeq n
         else ReceivedPacket c (r\<lparr>RHeader := r1\<rparr>) Now NowUs = Some (c\<lparr>LastReceiveTime := Now\<rparr>))"
    if r1: "BitReader_wf r1" "\<not> ArIsError r1" "\<not> ArForceByteSwapping r1" "rbits r1 = drop 7 (rbits (RHeader r))" for r1
  proof (cases "GetCurrentSequenceHistoryLength n \<le> 32")
    case True
    then have w: "header_words n = 1"
      by (simp add: header_words_def BitsPerWord_def WordCount_def)
    have "InSeqHistory n \<noteq> []"
      using n by (auto simp: notify_wf_def hist_wf_def WordCount_def)
    then have "take 1 (InSeqHistory n) = [hd (InSeqHistory n)]"
      by (cases "InSeqHistory n") simp_all
    then have "rbits r1 = header_bits n @ pad"
      unfolding r1(4) drop7 header_bits_def w by simp
    then show ?thesis
      using ReadHeader_one [OF r1(1-3) _ n] True by simp
  next
    case False
    then have k: "2 \<le> header_words n" "header_words n \<le> 8"
      using header_words_bounds [of n] by (simp_all add: header_words_def BitsPerWord_def WordCount_def)
    have "seq_wf (OutSeq n)" "seq_wf (InAckSeq n)" "length pad < 32"
      using n r(3) by (simp_all add: notify_wf_def)
    then obtain H B where "ReadHeader NotificationHeader_ctor r1 = Some (H, B, False)"
      using ReadHeader_short [OF r1(1-3) _ _ _ _ k] r1(4) unfolding drop7 by blast
    then show ?thesis
      using False by (simp add: ReceivedPacket_def Let_def)
  qed
  then show ?thesis
    using build r(1) take7 by blast
qed

definition busy_notify :: NetPacketNotify where
  "busy_notify = NetPacketNotify_ctor\<lparr>InSeq := MkSeq 40, InAckSeq := MkSeq 40\<rparr>"

theorem long_history_header_unreadable_witness:
  "GetCurrentSequenceHistoryLength busy_notify = 40 \<and> (\<exists>p' n' r. BuildEnd BuildStart (WriteHeaderCallback default_cfg busy_notify) 0 = Some (p', n')
    \<and> RecvPacketReader_ctor \<lparr>EData = PktHeader p' @ [], remoteAddr = loopback\<rparr> 10 = Some r)"
proof -
  have "sval seq_default = 0"
    by (simp add: sval_def seq_default_def)
  then have l: "GetCurrentSequenceHistoryLength busy_notify = 40"
    by (simp add: GetCurrentSequenceHistoryLength_def busy_notify_def NetPacketNotify_ctor_def seq_ge_iff Diff_eq
        sval_MkSeq HistorySize_def)
  have "notify_wf busy_notify"
    by (simp add: notify_wf_def busy_notify_def NetPacketNotify_ctor_def)
  moreover have "length (PktHeader BuildStart) = 10"
    by (simp add: BuildStart_def BuildBegin_def OutReadyPacket_ctor_def PacketHeaderSize_def)
  ultimately show ?thesis
    using long_history_header_unreadable [of busy_notify BuildStart 0 "[]" loopback 10] l by blast
qed

end
