(* ===== verification/UdpProc.thy ===== *)
theory UdpProc
  imports ConnectionM
begin

text \<open>
  Network, \<open>processor/UdpPacketProcessor\<close>, \<open>PacketProcessor\<close> and \<open>PacketPipeline\<close>: the three way
  handshake of a client and a server. The server keeps no connection for a client before the client has
  returned a cookie, a keyed digest of its address and of the time the cookie was made. The calls a
  handler makes on the driver (a datagram sent, a client admitted, the completion reported) are returned
  as a list in their order. The digest and the numeric host name are functions of the environment, the
  random filler and every clock value read are arguments.
\<close>

datatype EProcessorMode = ProcNone | ProcClient | ProcServer

datatype EProcessorState = ProcUnInitialized | ProcInitializedOnLocal | ProcInitializeOnRemote | ProcInitialized

datatype EProcessorType = ProcTcp | ProcUdp

record UdpConnectionProcessor =
  UCfg :: UdpConfig
  UMode :: EProcessorMode
  UState :: EProcessorState
  bInitialized :: bool
  PendingClientIDManager :: IDAllocator
  RemoteManager :: PendingConnectionManager
  ClientTimeId :: u8

record UdpEnv =
  ESetting :: DriverSetting
  EHmac :: "u8 list \<Rightarrow> string \<Rightarrow> u8 list"
  ENameinfo :: "SockAddr \<Rightarrow> string option"

datatype UdpEffect =
    SendToRemote SockAddr OutSendPacketEvent
  | AddClient u64 PendingRemoteConnection
  | BeginNMTHello

text \<open>\<open>UMode\<close> is the mode of the pipeline the processor belongs to.\<close>

definition UdpConnectionProcessor_ctor :: "EProcessorMode \<Rightarrow> UdpConnectionProcessor" where
  "UdpConnectionProcessor_ctor Mode = \<lparr>UCfg = \<lparr>MagicHeaderSizeBits = 1, MagicHeaderOffset = 0, ExpectMagicHeader = 0,
       ExpectedSessionId = 0, HandshakeSecret = []\<rparr>,
     UMode = Mode, UState = ProcUnInitialized, bInitialized = False, PendingClientIDManager = IDAllocator_ctor 1,
     RemoteManager = PendingConnectionManager_ctor, ClientTimeId = 59\<rparr>"

text \<open>\<open>memcpy\<close> of twenty bytes; a shorter secret is read past its end.\<close>

definition SetSupervisor :: "DriverSetting \<Rightarrow> UdpConnectionProcessor \<Rightarrow> UdpConnectionProcessor option" where
  "SetSupervisor S U =
     (if length (SetHandshakeSecret S) < COOKIE_BYTE_SIZE then None
      else Some (U\<lparr>UCfg := (UCfg U)\<lparr>MagicHeaderSizeBits := SetMagicHeaderSizeBits S, ExpectMagicHeader := SetMagicHeader S,
             MagicHeaderOffset := SetMagicHeaderOffset S,
             HandshakeSecret := take COOKIE_BYTE_SIZE (SetHandshakeSecret S)\<rparr>\<rparr>))"

definition UdpInitialize :: "UdpConnectionProcessor \<Rightarrow> UdpConnectionProcessor" where
  "UdpInitialize U = (if UMode U = ProcServer then U\<lparr>bInitialized := True, UState := ProcInitialized\<rparr> else U)"

definition SetState :: "EProcessorState \<Rightarrow> UdpConnectionProcessor \<Rightarrow> UdpConnectionProcessor" where
  "SetState st U = U\<lparr>UState := st\<rparr>"

text \<open>Changing the pending connection at an address, and reading it.\<close>

definition on_pending :: "nat \<Rightarrow> (PendingRemoteConnection \<Rightarrow> PendingRemoteConnection) \<Rightarrow> UdpConnectionProcessor \<Rightarrow> UdpConnectionProcessor option" where
  "on_pending p f U = do { m \<leftarrow> pupd (RemoteManager U) p f; Some (U\<lparr>RemoteManager := m\<rparr>) }"

definition pending :: "UdpConnectionProcessor \<Rightarrow> nat \<Rightarrow> PendingRemoteConnection option" where
  "pending U p = pget (RemoteManager U) p"

section \<open>Sending\<close>

definition PrepLastHandshakePacket :: "UdpConnectionProcessor \<Rightarrow> nat \<Rightarrow> OutReadyPacket \<Rightarrow> (UdpConnectionProcessor \<times> OutSendPacketEvent) option" where
  "PrepLastHandshakePacket U p Packet = do {
     U \<leftarrow> on_pending p (PrepLastSendPacket Packet) U;
     SendEvent \<leftarrow> OutSendPacketEvent_Create Packet;
     Some (U, SendEvent) }"

text \<open>What the three functions that send a handshake packet share after its header writer is fixed.\<close>

definition SendHandshake :: "(BitWriter \<Rightarrow> BitWriter option) \<Rightarrow> UdpConnectionProcessor \<Rightarrow> nat \<Rightarrow> SockAddr \<Rightarrow> u64
    \<Rightarrow> (UdpConnectionProcessor \<times> UdpEffect list) option" where
  "SendHandshake Process U p Addr NowUs = do {
     (ReadyPacket, _) \<leftarrow> ProcessorPacketBuilder_Build (\<lambda>B. map_option (\<lambda>B. (B, ())) (Process B)) NowUs;
     (U, CopyPacket) \<leftarrow> PrepLastHandshakePacket U p (PacketSealed ReadyPacket);
     Some (U, [SendToRemote Addr CopyPacket]) }"

definition SendInitialPacket :: "UdpConnectionProcessor \<Rightarrow> NetConnection option \<Rightarrow> u64 \<Rightarrow> u8 list \<Rightarrow> u64
    \<Rightarrow> (UdpConnectionProcessor \<times> UdpEffect list) option" where
  "SendInitialPacket U ServerConn Now Rand NowUs =
     (if UMode U = ProcClient then
        (case ServerConn of
           None \<Rightarrow> Some (U, [])
         | Some s \<Rightarrow> do {
             let (m, p) = CreatePendingClient (RemoteManager U) Now 0 0 (ConnAddr s) 0;
             m \<leftarrow> AddConnection m 0 0 p;
             let U = U\<lparr>RemoteManager := m\<rparr>;
             c \<leftarrow> pending U p;
             SendHandshake (HandshakePacket_Initial (UCfg U) Rand c) U p (ConnAddr s) NowUs })
      else Some (U, []))"

text \<open>The challenge: the header is written before the time of the cookie is set, the cookie after it.\<close>

definition SendConnectChallengeProcess :: "UdpEnv \<Rightarrow> UdpConfig \<Rightarrow> u64 \<Rightarrow> u8 list \<Rightarrow> PendingRemoteConnection \<Rightarrow> BitWriter
    \<Rightarrow> (BitWriter \<times> PendingRemoteConnection) option" where
  "SendConnectChallengeProcess E cfg Now Rand c ChallengeHeader = do {
     B \<leftarrow> BeginHandshakePacket cfg ChallengeHeader (HandshakePacketType c) (ucast (HandshakeTryCount c)) (SessionId c) (ClientID c);
     let c = UpdateCookieTime Now c;
     Cookie \<leftarrow> GenerateCookie (EHmac E) (ENameinfo E) cfg (Address c) (ucast (ActiveSecret (ESetting E))) (CookieTime c);
     B \<leftarrow> WriteBit B (ActiveSecret (ESetting E));
     (B, _) \<leftarrow> stream_u64 BitWriter_Serialize B (CookieTime c);
     (B, _) \<leftarrow> BitWriter_Serialize B Cookie COOKIE_BYTE_SIZE;
     B \<leftarrow> CapHandshakePacket Rand B;
     Some (B, c) }"

definition SendConnectChallenge :: "UdpEnv \<Rightarrow> UdpConnectionProcessor \<Rightarrow> nat \<Rightarrow> u64 \<Rightarrow> u8 list \<Rightarrow> u64
    \<Rightarrow> (UdpConnectionProcessor \<times> UdpEffect list) option" where
  "SendConnectChallenge E U p Now Rand NowUs = do {
     c \<leftarrow> pending U p;
     (ReadyPacket, c) \<leftarrow> ProcessorPacketBuilder_Build (SendConnectChallengeProcess E (UCfg U) Now Rand c) NowUs;
     U \<leftarrow> on_pending p (\<lambda>_. c) U;
     (U, CopyPacket) \<leftarrow> PrepLastHandshakePacket U p (PacketSealed ReadyPacket);
     Some (U, [SendToRemote (Address c) CopyPacket]) }"

definition SendChallengeResponse :: "UdpEnv \<Rightarrow> UdpConnectionProcessor \<Rightarrow> NetConnection option \<Rightarrow> ParsedHandshakeData \<Rightarrow> nat \<Rightarrow> u8 list \<Rightarrow> u64
    \<Rightarrow> (UdpConnectionProcessor \<times> UdpEffect list) option" where
  "SendChallengeResponse E U ServerConn HandshakeData p Rand NowUs =
     (if IsClient (ESetting E) then do {
        c \<leftarrow> pending U p;
        s \<leftarrow> ServerConn;
        SendHandshake (HandshakePacket_Cookie (UCfg U) Rand Response c (HsSecretId HandshakeData) (HsTimeStamp HandshakeData)
          (HsCookie HandshakeData)) U p (ConnAddr s) NowUs }
      else Some (U, []))"

definition minus_one :: u64 where "minus_one = 0xBFF0000000000000"

definition SendChallengeAck :: "UdpConnectionProcessor \<Rightarrow> nat \<Rightarrow> u8 list \<Rightarrow> u8 list \<Rightarrow> u64 \<Rightarrow> (UdpConnectionProcessor \<times> UdpEffect list) option" where
  "SendChallengeAck U p InCookie Rand NowUs = do {
     c \<leftarrow> pending U p;
     SendHandshake (HandshakePacket_Cookie (UCfg U) Rand (HandshakePacketType c) c 1 minus_one InCookie) U p (Address c) NowUs }"

section \<open>The server's answer\<close>

text \<open>\<open>MAX_COOKIE_LIFETIME\<close>: (15 + 5) * 2 seconds. \<open>MAX_PACKETID\<close>: the number of sequence numbers.\<close>

definition MAX_COOKIE_LIFETIME :: u64 where "MAX_COOKIE_LIFETIME = 0x4044000000000000"
definition MAX_PACKETID :: u32 where "MAX_PACKETID = 16384"

text \<open>A sequence number is taken from a single byte of the cookie.\<close>

definition cookie_seq :: "u8 list \<Rightarrow> nat \<Rightarrow> u32" where
  "cookie_seq Cookie i = ucast (Cookie ! i) AND (MAX_PACKETID - 1)"

definition valid_lifetime :: "u64 \<Rightarrow> PendingRemoteConnection \<Rightarrow> bool" where
  "valid_lifetime Now c =
     (let CookieDelta = dsub Now (CookieTime c)
      in dle 0 CookieDelta \<and> dlt 0 (dsub MAX_COOKIE_LIFETIME CookieDelta))"

definition regen_cookie :: "UdpEnv \<Rightarrow> UdpConfig \<Rightarrow> PendingRemoteConnection \<Rightarrow> u8 list option" where
  "regen_cookie E cfg c = GenerateCookie (EHmac E) (ENameinfo E) cfg (Address c) (ucast (ActiveSecret (ESetting E))) (CookieTime c)"

definition FindOrCreateClient :: "UdpEnv \<Rightarrow> UdpConnectionProcessor \<Rightarrow> RecvPacketReader \<Rightarrow> u64 \<Rightarrow> (UdpConnectionProcessor \<times> nat) option" where
  "FindOrCreateClient E U r Now =
     (case FindConnection (RemoteManager U) (RHashKey r) of
        Some p \<Rightarrow> do { U \<leftarrow> on_pending p (IncreaseHandshakeCount 1) U; Some (U, p) }
      | None \<Rightarrow> do {
          (m, a, p) \<leftarrow> accept_client (RemoteManager U) (PendingClientIDManager U) Now (SetSessionID (ESetting E)) (RAddress r)
             (ClientTimeId U) (RHashKey r);
          Some (U\<lparr>RemoteManager := m, PendingClientIDManager := a\<rparr>, p) })"

definition AdmitClient :: "UdpConnectionProcessor \<Rightarrow> nat \<Rightarrow> RecvPacketReader \<Rightarrow> u8 list \<Rightarrow> u8 list \<Rightarrow> u8 list \<Rightarrow> u64
    \<Rightarrow> (UdpConnectionProcessor \<times> UdpEffect list) option" where
  "AdmitClient U p r Cookie RegenCookie Rand NowUs = do {
     U \<leftarrow> on_pending p (UpdateHanshakePacketType HsAck) U;
     U \<leftarrow> on_pending p (UpdateServerSeq (cookie_seq Cookie 0)) U;
     U \<leftarrow> on_pending p (UpdateClientSeq (cookie_seq Cookie 1)) U;
     U \<leftarrow> on_pending p (UpdateHandshakeComplete True) U;
     c \<leftarrow> pending U p;
     (U, fx) \<leftarrow> SendChallengeAck U p RegenCookie Rand NowUs;
     Some (U, AddClient (RHashKey r) c # fx) }"

definition AnswerHandshake :: "UdpEnv \<Rightarrow> UdpConnectionProcessor \<Rightarrow> RecvPacketReader \<Rightarrow> ParsedHandshakeData \<Rightarrow> u64 \<Rightarrow> u64 \<Rightarrow> u64 \<Rightarrow> u8 list \<Rightarrow> u64
    \<Rightarrow> (UdpConnectionProcessor \<times> UdpEffect list) option" where
  "AnswerHandshake E U r HandshakeData TCreate TTouch TCookie Rand NowUs = do {
     let bInitialConnect = (HsPacketType HandshakeData = InitialPacket \<and> deq (HsTimeStamp HandshakeData) 0);
     (U, p) \<leftarrow> FindOrCreateClient E U r TCreate;
     U \<leftarrow> on_pending p (Touch TTouch) U;
     if bInitialConnect then do {
       U \<leftarrow> on_pending p (UpdateHanshakePacketType Challenge) U;
       SendConnectChallenge E U p TCookie Rand NowUs }
     else if HsPacketType HandshakeData = Response then do {
       c \<leftarrow> pending U p;
       if valid_lifetime TCookie c then do {
         RegenCookie \<leftarrow> regen_cookie E (UCfg U) c;
         if HsCookie HandshakeData = RegenCookie then AdmitClient U p r (HsCookie HandshakeData) RegenCookie Rand NowUs
         else Some (U, []) }
       else Some (U, []) }
     else Some (U, []) }"

section \<open>Incoming packets\<close>

definition IncomingConnectionless :: "UdpEnv \<Rightarrow> UdpConnectionProcessor \<Rightarrow> RecvPacketReader \<Rightarrow> u64 \<Rightarrow> u64 \<Rightarrow> u64 \<Rightarrow> u8 list \<Rightarrow> u64
    \<Rightarrow> (UdpConnectionProcessor \<times> RecvPacketReader \<times> UdpEffect list) option" where
  "IncomingConnectionless E U r TCreate TTouch TCookie Rand NowUs = do {
     (H, MagicHeader) \<leftarrow> ReadMagic (UCfg U) (RHeader r);
     if MagicHeader \<noteq> ExpectMagicHeader (UCfg U) then Some (U, r\<lparr>RHeader := SetError H\<rparr>, [])
     else do {
       (H, SessionID) \<leftarrow> BitReader_SerializeBits H [0] SessionIDSizeBits;
       (H, ClientID) \<leftarrow> BitReader_SerializeBits H [0] ClientIDSizeBits;
       s \<leftarrow> rd SessionID 0;
       if \<not> (ucast s = ExpectedSessionId (UCfg U) \<and> \<not> ArIsError H) then Some (U, r\<lparr>RHeader := SetError H\<rparr>, [])
       else do {
         (H, b) \<leftarrow> ReadBit H;
         let bHandshakePacket = (b \<noteq> 0);
         (H, HandshakeData, bParsePass) \<leftarrow>
           (if bHandshakePacket then ParseHandshakePacket H else Some (H, ParsedHandshakeData_ctor, False));
         let r = r\<lparr>RHeader := H\<rparr>;
         if bHandshakePacket \<and> bParsePass then do {
           let r = SetConnectionlessPacket r True;
           (U, fx) \<leftarrow> (if UMode U = ProcServer
                      then AnswerHandshake E U r HandshakeData TCreate TTouch TCookie Rand NowUs
                      else Some (U, []));
           Some (U, r, fx) }
         else Some (U, r, []) } } }"

text \<open>What a client does with a handshake packet of its server.\<close>

definition ClientHandshake :: "UdpEnv \<Rightarrow> UdpConnectionProcessor \<Rightarrow> NetConnection option \<Rightarrow> ParsedHandshakeData \<Rightarrow> nat \<Rightarrow> u8 list \<Rightarrow> u64
    \<Rightarrow> (UdpConnectionProcessor \<times> NetConnection option \<times> UdpEffect list) option" where
  "ClientHandshake E U ServerConn HandshakeData p Rand NowUs =
     (if UState U = ProcUnInitialized \<or> UState U = ProcInitializedOnLocal then
        if HsPacketType HandshakeData = Challenge \<and> dlt 0 (HsTimeStamp HandshakeData) then do {
          U \<leftarrow> on_pending p (UpdateHanshakePacketType Response) U;
          (U, fx) \<leftarrow> SendChallengeResponse E U ServerConn HandshakeData p Rand NowUs;
          Some (SetState ProcInitializedOnLocal U, ServerConn, fx) }
        else if HsPacketType HandshakeData = HsAck \<and> dlt (HsTimeStamp HandshakeData) 0 then
          (case ServerConn of
             None \<Rightarrow> Some (U, ServerConn, [])
           | Some s \<Rightarrow> do {
               let ServerSequence = uint (cookie_seq (HsCookie HandshakeData) 0);
               let ClientSequence = uint (cookie_seq (HsCookie HandshakeData) 1);
               let (s, ok) = InitSequence s ServerSequence ClientSequence;
               if ok then do {
                 U \<leftarrow> on_pending p (UpdateHanshakePacketType HsAck) U;
                 U \<leftarrow> on_pending p (UpdateHandshakeComplete True) U;
                 Some (SetState ProcInitialized U, Some s, [BeginNMTHello]) }
               else Some (U, Some s, []) })
        else Some (U, ServerConn, [])
      else Some (U, ServerConn, []))"

definition ServerResendAck :: "UdpEnv \<Rightarrow> UdpConnectionProcessor \<Rightarrow> ParsedHandshakeData \<Rightarrow> nat \<Rightarrow> u8 list \<Rightarrow> u64
    \<Rightarrow> (UdpConnectionProcessor \<times> UdpEffect list) option" where
  "ServerResendAck E U HandshakeData p Rand NowUs = do {
     c \<leftarrow> pending U p;
     if HsPacketType HandshakeData = Response \<and> HandshakePacketType c = HsAck then do {
       RegenCookie \<leftarrow> regen_cookie E (UCfg U) c;
       if HsCookie HandshakeData = RegenCookie then SendChallengeAck U p RegenCookie Rand NowUs else Some (U, []) }
     else Some (U, []) }"

definition Incoming :: "UdpEnv \<Rightarrow> UdpConnectionProcessor \<Rightarrow> NetConnection option \<Rightarrow> RecvPacketReader \<Rightarrow> u64 \<Rightarrow> u8 list \<Rightarrow> u64
    \<Rightarrow> (UdpConnectionProcessor \<times> NetConnection option \<times> RecvPacketReader \<times> UdpEffect list) option" where
  "Incoming E U ServerConn r TTouch Rand NowUs = do {
     (H, MagicHeader) \<leftarrow> ReadMagic (UCfg U) (RHeader r);
     if MagicHeader \<noteq> ExpectMagicHeader (UCfg U) then Some (U, ServerConn, r\<lparr>RHeader := SetError H\<rparr>, [])
     else do {
       (H, SessionID) \<leftarrow> BitReader_SerializeBits H [0] SessionIDSizeBits;
       (H, ClientID) \<leftarrow> BitReader_SerializeBits H [0] ClientIDSizeBits;
       (H, b) \<leftarrow> ReadBit H;
       (H, HandshakeData, bHandshakePacket) \<leftarrow>
         (if b \<noteq> 0 \<and> \<not> ArIsError H then ParseHandshakePacket H else Some (H, ParsedHandshakeData_ctor, False));
       let r = r\<lparr>RHeader := H\<rparr>;
       if bHandshakePacket then do {
         let r = SetConnectionlessPacket r True;
         let Key = (if IsServer (ESetting E) then RHashKey r else 0);
         case FindConnection (RemoteManager U) Key of
           None \<Rightarrow> Some (U, ServerConn, r, [])
         | Some p \<Rightarrow> do {
             U \<leftarrow> on_pending p (Touch TTouch) U;
             (U, ServerConn, fx) \<leftarrow>
               (if UMode U = ProcClient then ClientHandshake E U ServerConn HandshakeData p Rand NowUs
                else if UMode U = ProcServer then do {
                  (U, fx) \<leftarrow> ServerResendAck E U HandshakeData p Rand NowUs;
                  Some (U, ServerConn, fx) }
                else Some (U, ServerConn, []));
             Some (U, ServerConn, r\<lparr>RHeader := SetAtEnd (RHeader r)\<rparr>, fx) } }
       else Some (U, ServerConn, r, []) } }"

section \<open>The periodic update\<close>

text \<open>The last packet of every pending connection of the first map; a connection without one is a null pointer.\<close>

fun Resend_loop :: "UdpConnectionProcessor \<Rightarrow> ClientHashMap \<Rightarrow> (UdpConnectionProcessor \<times> UdpEffect list) option" where
  "Resend_loop U [] = Some (U, [])"
| "Resend_loop U ((k, p) # es) = do {
     c \<leftarrow> pending U p;
     Packet \<leftarrow> LastReadyPacket c;
     (U, SendPacket) \<leftarrow> PrepLastHandshakePacket U p Packet;
     (U, fx) \<leftarrow> Resend_loop U es;
     Some (U, SendToRemote (Address c) SendPacket # fx) }"

definition ResendHandshake :: "UdpEnv \<Rightarrow> UdpConnectionProcessor \<Rightarrow> (UdpConnectionProcessor \<times> UdpEffect list) option" where
  "ResendHandshake E U =
     (if IsClient (ESetting E) then do {
        RemoteHashMap \<leftarrow> GetHashMapbyTimeId (RemoteManager U) 0;
        Resend_loop U RemoteHashMap }
      else Some (U, []))"

definition next_time_id :: "u8 \<Rightarrow> u8" where
  "next_time_id t = t + word_of_nat ((unat t + 1) mod 60)"

definition ConnectionsUpdate :: "UdpEnv \<Rightarrow> UdpConnectionProcessor \<Rightarrow> u8 \<Rightarrow> u64 \<Rightarrow> (UdpConnectionProcessor \<times> UdpEffect list) option" where
  "ConnectionsUpdate E U TimeId Now = do {
     U \<leftarrow> (if IsServer (ESetting E) then do {
            (m, a) \<leftarrow> TimeKillEvent (RemoteManager U) TimeId (PendingClientIDManager U) Now (PendingInactivityTimeoutSec (ESetting E));
            Some (U\<lparr>RemoteManager := m, PendingClientIDManager := a\<rparr>) }
          else Some U);
     (U, fx) \<leftarrow> ResendHandshake E U;
     Some (U\<lparr>ClientTimeId := next_time_id (ClientTimeId U)\<rparr>, fx) }"

definition HasPassedChallenge :: "UdpConnectionProcessor \<Rightarrow> u64 \<Rightarrow> nat option" where
  "HasPassedChallenge U Key = FindConnection (RemoteManager U) Key"

section \<open>The pipeline\<close>

text \<open>
  The processors of a driver, in order. \<open>HandshakeCompleteDel\<close> tells whether the function to call at the
  end of the handshake is set.
\<close>

record PacketPipeline =
  PipeMode :: EProcessorMode
  ProcessorContainer :: "UdpConnectionProcessor list"
  HandshakeCompleteDel :: bool

definition PacketPipeline_ctor :: "EProcessorMode \<Rightarrow> PacketPipeline" where
  "PacketPipeline_ctor Mode = \<lparr>PipeMode = Mode, ProcessorContainer = [], HandshakeCompleteDel = False\<rparr>"

definition AddProcessor :: "PacketPipeline \<Rightarrow> EProcessorType \<Rightarrow> bool \<Rightarrow> PacketPipeline \<times> bool" where
  "AddProcessor P ProcessorType bDefaultInitialize =
     (if ProcessorType = ProcUdp then
        (let U = UdpConnectionProcessor_ctor (PipeMode P);
             U = (if \<not> bDefaultInitialize then UdpInitialize U else U)
         in (P\<lparr>ProcessorContainer := ProcessorContainer P @ [U]\<rparr>, True))
      else (P, False))"

definition BeginHandShake :: "PacketPipeline \<Rightarrow> NetConnection option \<Rightarrow> u64 \<Rightarrow> u8 list \<Rightarrow> u64 \<Rightarrow> (PacketPipeline \<times> UdpEffect list) option" where
  "BeginHandShake P ServerConn Now Rand NowUs =
     (let P = P\<lparr>HandshakeCompleteDel := True\<rparr>
      in case ProcessorContainer P of
           [] \<Rightarrow> Some (P, [])
         | U # Us \<Rightarrow> do {
             (U, fx) \<leftarrow> SendInitialPacket U ServerConn Now Rand NowUs;
             Some (P\<lparr>ProcessorContainer := U # Us\<rparr>, fx) })"

text \<open>\<open>BeginNMTHello\<close> of the pipeline: the function is called at most once.\<close>

definition CompleteHandshake :: "PacketPipeline \<Rightarrow> PacketPipeline \<times> bool" where
  "CompleteHandshake P =
     (if HandshakeCompleteDel P then (P\<lparr>HandshakeCompleteDel := False\<rparr>, True) else (P, False))"

fun Incoming_loop :: "UdpEnv \<Rightarrow> UdpConnectionProcessor list \<Rightarrow> NetConnection option \<Rightarrow> RecvPacketReader \<Rightarrow> u64 \<Rightarrow> u64 \<Rightarrow> u64 \<Rightarrow> u8 list \<Rightarrow> u64
    \<Rightarrow> (UdpConnectionProcessor list \<times> NetConnection option \<times> RecvPacketReader \<times> UdpEffect list) option" where
  "Incoming_loop E [] ServerConn r T1 T2 T3 Rand NowUs = Some ([], ServerConn, r, [])"
| "Incoming_loop E (U # Us) ServerConn r T1 T2 T3 Rand NowUs = do {
     (U, ServerConn, r, fx) \<leftarrow>
       (if bConnectionlessPacket r then do {
          (U, r, fx) \<leftarrow> IncomingConnectionless E U r T1 T2 T3 Rand NowUs;
          Some (U, ServerConn, r, fx) }
        else Incoming E U ServerConn r T2 Rand NowUs);
     (Us, ServerConn, r, fxs) \<leftarrow> Incoming_loop E Us ServerConn r T1 T2 T3 Rand NowUs;
     Some (U # Us, ServerConn, r, fx @ fxs) }"

definition PacketPipeline_Incoming :: "UdpEnv \<Rightarrow> PacketPipeline \<Rightarrow> NetConnection option \<Rightarrow> RecvPacketReader \<Rightarrow> u64 \<Rightarrow> u64 \<Rightarrow> u64 \<Rightarrow> u8 list \<Rightarrow> u64
    \<Rightarrow> (PacketPipeline \<times> NetConnection option \<times> RecvPacketReader \<times> UdpEffect list) option" where
  "PacketPipeline_Incoming E P ServerConn r T1 T2 T3 Rand NowUs = do {
     (Us, ServerConn, r, fx) \<leftarrow> Incoming_loop E (ProcessorContainer P) ServerConn r T1 T2 T3 Rand NowUs;
     Some (P\<lparr>ProcessorContainer := Us\<rparr>, ServerConn, r, fx) }"

definition PacketPipeline_IncomingConnectionless :: "UdpEnv \<Rightarrow> PacketPipeline \<Rightarrow> NetConnection option \<Rightarrow> RecvPacketReader \<Rightarrow> u64 \<Rightarrow> u64 \<Rightarrow> u64 \<Rightarrow> u8 list \<Rightarrow> u64
    \<Rightarrow> (PacketPipeline \<times> NetConnection option \<times> RecvPacketReader \<times> UdpEffect list) option" where
  "PacketPipeline_IncomingConnectionless E P ServerConn r T1 T2 T3 Rand NowUs =
     PacketPipeline_Incoming E P ServerConn (SetConnectionlessPacket r True) T1 T2 T3 Rand NowUs"

end
