(* ===== verification/Handshake.thy ===== *)
theory Handshake
  imports UdpProc
begin

text \<open>
  What the handshake of \<open>UdpProc\<close> achieves: whom a server admits, that a client and a server that
  exchange their packets end with matching sequence numbers, and what they do afterwards.
\<close>

section \<open>Shared objects\<close>

text \<open>A pending connection is reached by its address, from the maps and from the handler that uses it.\<close>

locale shared_object =
  fixes get :: "'s \<Rightarrow> nat \<Rightarrow> 'c option" and put :: "'s \<Rightarrow> nat \<Rightarrow> 'c \<Rightarrow> 's"
  assumes get_put: "get s p = Some c \<Longrightarrow> get (put s p d) q = (if q = p then Some d else get s q)"
    and put_put: "put (put s p c) p d = put s p d"
begin

lemma get_put_same: "get s p = Some c \<Longrightarrow> get (put s p d) p = Some d"
  by (simp add: get_put)

lemma put_keeps:
  assumes "get s p = Some c" "v d = v c" "get s q = Some x"
  shows "\<exists>y. get (put s p d) q = Some y \<and> v y = v x"
  using assms by (cases "q = p") (auto simp: get_put)

lemma put_twice_get: "get s p = Some c \<Longrightarrow> get (put (put s p d) p e) p = Some e"
  by (simp add: put_put get_put)

end

definition put_pending :: "UdpConnectionProcessor \<Rightarrow> nat \<Rightarrow> PendingRemoteConnection \<Rightarrow> UdpConnectionProcessor" where
  "put_pending U p c = U\<lparr>RemoteManager := (RemoteManager U)\<lparr>PStore := (PStore (RemoteManager U))[p := c]\<rparr>\<rparr>"

interpretation obj: shared_object pending put_pending
  by unfold_locales (auto simp: pending_def put_pending_def pget_def rd_def nth_list_update split: if_splits)

lemma put_fields [simp]:
  "UCfg (put_pending U p c) = UCfg U" "UMode (put_pending U p c) = UMode U" "UState (put_pending U p c) = UState U"
  "ClientTimeId (put_pending U p c) = ClientTimeId U" "PendingClientIDManager (put_pending U p c) = PendingClientIDManager U"
  "ClientCache (RemoteManager (put_pending U p c)) = ClientCache (RemoteManager U)"
  "FindConnection (RemoteManager (put_pending U p c)) k = FindConnection (RemoteManager U) k"
  by (simp_all add: put_pending_def FindConnection_def)

lemmas pending_put [simp] = obj.get_put_same obj.put_twice_get
lemmas put_put [simp] = obj.put_put

lemma on_pending_put: "pending U p = Some c \<Longrightarrow> on_pending p f U = Some (put_pending U p (f c))"
  by (auto simp: on_pending_def pending_def pget_def pupd_def put_pending_def rd_def split: if_splits)

lemma on_pendingD:
  assumes "on_pending p f U = Some U'"
  obtains c where "pending U p = Some c" "U' = put_pending U p (f c)"
proof -
  from assms obtain c where "pending U p = Some c"
    by (auto simp: on_pending_def pupd_def pending_def pget_def bind_eq_Some_conv)
  with assms that show thesis
    by (auto simp: on_pending_put)
qed

lemmas pending_updates = IncreaseHandshakeCount_def UpdateCookieTime_def UpdateHanshakePacketType_def UpdateHandshakeComplete_def
  UpdateServerSeq_def UpdateClientSeq_def PrepLastSendPacket_def Touch_def

section \<open>Handshake packets on the wire\<close>

definition handshake_event :: "UdpConfig \<Rightarrow> OutSendPacketEvent \<Rightarrow> EHandshakePacketType \<Rightarrow> PendingRemoteConnection \<Rightarrow> u8 \<Rightarrow> u64 \<Rightarrow> u8 list \<Rightarrow> bool" where
  "handshake_event cfg e t c Secret Time Cookie \<longleftrightarrow>
     (\<exists>hdr Rand. wsaBufs e = [hdr] \<and> sealed_header hdr 100 (cookie_bits cfg Rand t c Secret Time Cookie))"

text \<open>A datagram in the receive buffer of the peer: \<open>junk\<close> is what the buffer held after it.\<close>

definition deliver :: "OutSendPacketEvent \<Rightarrow> SockAddr \<Rightarrow> u8 list \<Rightarrow> RecvPacketReader option" where
  "deliver e addr junk = RecvPacketReader_ctor \<lparr>EData = concat (wsaBufs e) @ junk, remoteAddr = addr\<rparr> (length (concat (wsaBufs e)))"

lemma Build_state:
  "ProcessorPacketBuilder_Build (\<lambda>B. map_option (\<lambda>B. (B, s)) (W B)) NowUs
     = map_option (\<lambda>(p, _). (p, s)) (ProcessorPacketBuilder_Build (\<lambda>B. map_option (\<lambda>B. (B, ())) (W B)) NowUs)"
  by (cases "PacketHeader_ctor (unat ConnectionlessPacketHeaderSize * 8)")
    (auto simp: ProcessorPacketBuilder_Build_def bind_eq_Some_conv split: option.splits bind_splits)

lemma Build_event:
  assumes "writes W 409 (cookie_bits cfg Rand t c Secret Time Cookie)"
  shows "\<exists>pk e. ProcessorPacketBuilder_Build (\<lambda>B. map_option (\<lambda>B. (B, ())) (W B)) NowUs = Some (pk, ())
    \<and> OutSendPacketEvent_Create (PacketSealed pk) = Some e \<and> handshake_event cfg e t c Secret Time Cookie"
proof -
  obtain pk where pk: "ProcessorPacketBuilder_Build (\<lambda>B. map_option (\<lambda>B. (B, ())) (W B)) NowUs = Some (pk, ())"
    "sealed_header (PktHeader pk) 100 (cookie_bits cfg Rand t c Secret Time Cookie)" "PktHeaderSize pk = 100" "bProcessorPacket pk" "DirtyFlag pk"
    using Build_ok [OF assms, of NowUs] by auto
  have "length (PktHeader pk) = 100"
    using pk(2) by (simp add: sealed_header_def)
  then have "OutSendPacketEvent_Create (PacketSealed pk) = Some \<lparr>wsaBufs = [PktHeader pk], TotalByteSize = 100\<rparr>"
    using pk(3-5) by (simp add: OutSendPacketEvent_Create_def PacketSealed_def view_bytes_def)
  with pk(1,2) show ?thesis
    by (auto simp: handshake_event_def)
qed

lemma SendHandshake_ok:
  assumes W: "writes W 409 (cookie_bits cfg Rand t c Secret Time Cookie)" and p: "pending U p = Some x"
  shows "\<exists>pk e. SendHandshake W U p Addr NowUs = Some (put_pending U p (PrepLastSendPacket pk x), [SendToRemote Addr e])
    \<and> OutSendPacketEvent_Create pk = Some e \<and> handshake_event cfg e t c Secret Time Cookie"
  using Build_event [OF W, of NowUs] on_pending_put [OF p]
  by (auto simp: SendHandshake_def PrepLastHandshakePacket_def)

lemma challenge_process:
  assumes "regen_cookie E cfg (UpdateCookieTime Now c) = Some Cookie"
  shows "SendConnectChallengeProcess E cfg Now Rand c B =
    map_option (\<lambda>B. (B, UpdateCookieTime Now c)) (HandshakePacket_Cookie cfg Rand (HandshakePacketType c) c (ActiveSecret (ESetting E)) Now Cookie B)"
proof -
  have k: "GenerateCookie (EHmac E) (ENameinfo E) cfg (Address c) (ucast (ActiveSecret (ESetting E))) Now = Some Cookie"
    using assms by (simp add: regen_cookie_def UpdateCookieTime_def)
  show ?thesis
    using k by (auto simp: SendConnectChallengeProcess_def HandshakePacket_Cookie_def UpdateCookieTime_def Let_def
        split: bind_splits option.splits)
qed

lemma SendConnectChallenge_ok:
  assumes cfg: "magic_ok (UCfg U)" and Rand: "filler_ok Rand" and p: "pending U p = Some c"
    and k: "regen_cookie E (UCfg U) (UpdateCookieTime Now c) = Some Cookie" "length Cookie = 20"
  shows "\<exists>pk e. SendConnectChallenge E U p Now Rand NowUs =
      Some (put_pending U p (PrepLastSendPacket pk (UpdateCookieTime Now c)), [SendToRemote (Address c) e])
    \<and> OutSendPacketEvent_Create pk = Some e
    \<and> handshake_event (UCfg U) e (HandshakePacketType c) c (ActiveSecret (ESetting E)) Now Cookie"
proof -
  let ?W = "HandshakePacket_Cookie (UCfg U) Rand (HandshakePacketType c) c (ActiveSecret (ESetting E)) Now Cookie"
  obtain pk e where e: "ProcessorPacketBuilder_Build (\<lambda>B. map_option (\<lambda>B. (B, ())) (?W B)) NowUs = Some (pk, ())"
    "OutSendPacketEvent_Create (PacketSealed pk) = Some e"
    "handshake_event (UCfg U) e (HandshakePacketType c) c (ActiveSecret (ESetting E)) Now Cookie"
    using Build_event [OF writes_Cookie [OF cfg Rand k(2)]] by blast
  have "ProcessorPacketBuilder_Build (SendConnectChallengeProcess E (UCfg U) Now Rand c) NowUs = Some (pk, UpdateCookieTime Now c)"
    unfolding challenge_process [OF k(1), abs_def] Build_state [of "UpdateCookieTime Now c" ?W] e(1) by simp
  with e(2,3) p show ?thesis
    by (auto simp: SendConnectChallenge_def PrepLastHandshakePacket_def on_pending_put pending_updates)
qed

section \<open>Receiving a handshake packet\<close>

lemma deliver_handshake:
  assumes cfg: "magic_ok cfg" and C: "length Cookie = 20" and t: "t \<in> {InitialPacket, Challenge, Response, HsAck}"
    and e: "handshake_event cfg e t c Secret Time Cookie"
  shows "\<exists>r ra rb rc rd re. deliver e addr junk = Some r \<and> RHashKey r = MakeIPv4PortKeyFromStorage addr \<and> RAddress r = addr
    \<and> ReadMagic cfg (RHeader r) = Some (ra, ExpectMagicHeader cfg)
    \<and> BitReader_SerializeBits ra [0] SessionIDSizeBits = Some (rb, [take_bit 2 (ucast (SessionId c))])
    \<and> BitReader_SerializeBits rb [0] ClientIDSizeBits = Some (rc, [take_bit 3 (ucast (ClientID c))]) \<and> \<not> ArIsError rc
    \<and> ReadBit rc = Some (rd, 1) \<and> \<not> ArIsError rd
    \<and> ParseHandshakePacket rd = Some (re, parsed (ucast (HandshakeTryCount c)) t Secret Time Cookie, True)"
proof -
  from e obtain hdr Rand where hdr: "wsaBufs e = [hdr]" "sealed_header hdr 100 (cookie_bits cfg Rand t c Secret Time Cookie)"
    by (auto simp: handshake_event_def)
  from handshake_header_received [OF cfg C t hdr(2)] show ?thesis
    unfolding deliver_def hdr(1) by simp
qed

lemma IncomingConnectionless_deliver:
  assumes "magic_ok (UCfg U)" "length Cookie = 20" "t \<in> {InitialPacket, Challenge, Response, HsAck}"
    and "handshake_event (UCfg U) e t c Secret Time Cookie"
    and "take_bit 2 (ucast (SessionId c) :: u8) = 0" "ExpectedSessionId (UCfg U) = 0" "UMode U = ProcServer"
  shows "\<exists>r re. deliver e addr junk = Some r \<and> RHashKey r = MakeIPv4PortKeyFromStorage addr \<and> RAddress r = addr
    \<and> IncomingConnectionless E U r T1 T2 T3 Rand NowUs =
       (AnswerHandshake E U (r\<lparr>RHeader := re, bConnectionlessPacket := True\<rparr>) (parsed (ucast (HandshakeTryCount c)) t Secret Time Cookie) T1 T2 T3 Rand NowUs
         \<bind> (\<lambda>(U, fx). Some (U, r\<lparr>RHeader := re, bConnectionlessPacket := True\<rparr>, fx)))"
proof -
  from deliver_handshake [OF assms(1-4), of addr junk] obtain r ra rb rc rd re where
    r: "deliver e addr junk = Some r" "RHashKey r = MakeIPv4PortKeyFromStorage addr" "RAddress r = addr"
    "ReadMagic (UCfg U) (RHeader r) = Some (ra, ExpectMagicHeader (UCfg U))"
    "BitReader_SerializeBits ra [0] SessionIDSizeBits = Some (rb, [take_bit 2 (ucast (SessionId c))])"
    "BitReader_SerializeBits rb [0] ClientIDSizeBits = Some (rc, [take_bit 3 (ucast (ClientID c))])" "\<not> ArIsError rc"
    "ReadBit rc = Some (rd, 1)"
    "ParseHandshakePacket rd = Some (re, parsed (ucast (HandshakeTryCount c)) t Secret Time Cookie, True)"
    by blast
  have "IncomingConnectionless E U r T1 T2 T3 Rand NowUs =
       (AnswerHandshake E U (r\<lparr>RHeader := re, bConnectionlessPacket := True\<rparr>) (parsed (ucast (HandshakeTryCount c)) t Secret Time Cookie) T1 T2 T3 Rand NowUs
         \<bind> (\<lambda>(U, fx). Some (U, r\<lparr>RHeader := re, bConnectionlessPacket := True\<rparr>, fx)))"
    unfolding IncomingConnectionless_def SetConnectionlessPacket_def using r(4-) assms(5-7) by (simp add: Let_def)
  with r(1-3) show ?thesis by blast
qed

lemma Incoming_deliver:
  assumes "magic_ok (UCfg U)" "length Cookie = 20" "t \<in> {InitialPacket, Challenge, Response, HsAck}"
    and "handshake_event (UCfg U) e t c Secret Time Cookie"
    and "FindConnection (RemoteManager U) (if IsServer (ESetting E) then MakeIPv4PortKeyFromStorage addr else 0) = Some p"
    and "pending U p = Some x"
  shows "\<exists>r r'. deliver e addr junk = Some r \<and> Incoming E U ServerConn r TTouch Rand NowUs =
      ((if UMode U = ProcClient
        then ClientHandshake E (put_pending U p (Touch TTouch x)) ServerConn (parsed (ucast (HandshakeTryCount c)) t Secret Time Cookie) p Rand NowUs
        else if UMode U = ProcServer
        then ServerResendAck E (put_pending U p (Touch TTouch x)) (parsed (ucast (HandshakeTryCount c)) t Secret Time Cookie) p Rand NowUs
            \<bind> (\<lambda>(U, fx). Some (U, ServerConn, fx))
        else Some (put_pending U p (Touch TTouch x), ServerConn, []))
       \<bind> (\<lambda>(U, ServerConn, fx). Some (U, ServerConn, r', fx)))"
proof -
  from deliver_handshake [OF assms(1-4), of addr junk] obtain r ra rb rc rd re where
    r: "deliver e addr junk = Some r" "RHashKey r = MakeIPv4PortKeyFromStorage addr" "RAddress r = addr"
    "ReadMagic (UCfg U) (RHeader r) = Some (ra, ExpectMagicHeader (UCfg U))"
    "BitReader_SerializeBits ra [0] SessionIDSizeBits = Some (rb, [take_bit 2 (ucast (SessionId c))])"
    "BitReader_SerializeBits rb [0] ClientIDSizeBits = Some (rc, [take_bit 3 (ucast (ClientID c))])" "\<not> ArIsError rc"
    "ReadBit rc = Some (rd, 1)" "\<not> ArIsError rd"
    "ParseHandshakePacket rd = Some (re, parsed (ucast (HandshakeTryCount c)) t Secret Time Cookie, True)"
    by blast
  have f: "IsServer (ESetting E) \<Longrightarrow> FindConnection (RemoteManager U) (MakeIPv4PortKeyFromStorage addr) = Some p"
    "\<not> IsServer (ESetting E) \<Longrightarrow> FindConnection (RemoteManager U) 0 = Some p"
    using assms(5) by auto
  let ?r = "r\<lparr>bConnectionlessPacket := True, RHeader := SetAtEnd re\<rparr>"
  have "Incoming E U ServerConn r TTouch Rand NowUs =
      ((if UMode U = ProcClient
        then ClientHandshake E (put_pending U p (Touch TTouch x)) ServerConn (parsed (ucast (HandshakeTryCount c)) t Secret Time Cookie) p Rand NowUs
        else if UMode U = ProcServer
        then ServerResendAck E (put_pending U p (Touch TTouch x)) (parsed (ucast (HandshakeTryCount c)) t Secret Time Cookie) p Rand NowUs
            \<bind> (\<lambda>(U, fx). Some (U, ServerConn, fx))
        else Some (put_pending U p (Touch TTouch x), ServerConn, []))
       \<bind> (\<lambda>(U, ServerConn, fx). Some (U, ServerConn, ?r, fx)))"
    unfolding Incoming_def SetConnectionlessPacket_def
    by (cases "IsServer (ESetting E)") (simp_all add: r(2,4-) f on_pending_put [OF assms(6)] Let_def)
  with r(1) show ?thesis by blast
qed

section \<open>The steps of a handshake\<close>

lemma accept_client_ok:
  assumes "FindConnection m k = None" "unat TimeId < length (ClientCache m)"
  shows "\<exists>m' a' c. accept_client m a Now SId Addr TimeId k = Some (m', a', length (PStore m)) \<and> FindConnection m' k = Some (length (PStore m))
    \<and> PStore m' = PStore m @ [c] \<and> c = PendingRemoteConnection_ctor Now SId (snd (Allocate a)) Addr TimeId"
proof -
  let ?c = "PendingRemoteConnection_ctor Now SId (snd (Allocate a)) Addr TimeId" and ?p = "length (PStore m)"
  obtain m' where m': "AddConnection (m\<lparr>PStore := PStore m @ [?c]\<rparr>) TimeId k ?p = Some m'"
    using assms(2) by (auto simp: AddConnection_def rd_def wr_def)
  have "FindConnection (m\<lparr>PStore := PStore m @ [?c]\<rparr>) k = None"
    using assms(1) by (simp add: FindConnection_def)
  note new = AddConnection_new [OF this m']
  show ?thesis
    using m' new(2,5) by (auto simp: accept_client_def CreatePendingClient_def split: prod.splits)
qed

lemma client_starts:
  assumes C: "UMode C = ProcClient" "FindConnection (RemoteManager C) 0 = None" "0 < length (ClientCache (RemoteManager C))"
    and cfg: "magic_ok (UCfg C)" "filler_ok Rand"
  shows "\<exists>C' p x e. SendInitialPacket C (Some s) Now Rand NowUs = Some (C', [SendToRemote (ConnAddr s) e])
    \<and> FindConnection (RemoteManager C') 0 = Some p \<and> pending C' p = Some x \<and> SessionId x = 0 \<and> HandshakeTryCount x = 0 \<and> Address x = ConnAddr s
    \<and> ClientCache (RemoteManager C') = (ClientCache (RemoteManager C))[0 := ClientCache (RemoteManager C) ! 0 @ [(0, p)]]
    \<and> UCfg C' = UCfg C \<and> UMode C' = UMode C \<and> UState C' = UState C
    \<and> handshake_event (UCfg C) e InitialPacket x 0 0 (replicate 20 0)"
proof -
  let ?m = "RemoteManager C" and ?x = "PendingRemoteConnection_ctor Now 0 0 (ConnAddr s) 0"
  let ?m1 = "?m\<lparr>PStore := PStore ?m @ [?x]\<rparr>" and ?p = "length (PStore (RemoteManager C))"
  obtain m2 where m2: "AddConnection ?m1 0 0 ?p = Some m2"
    using C(3) by (auto simp: AddConnection_def rd_def wr_def)
  have "FindConnection ?m1 0 = None"
    using C(2) by (simp add: FindConnection_def)
  note new = AddConnection_new [OF this m2]
  have "map_of (ClientCache ?m ! 0) 0 = None"
    using C(2,3) by (cases "ClientCache ?m") (auto simp: FindConnection_def split: option.splits)
  then have cache: "ClientCache m2 = (ClientCache ?m)[0 := ClientCache ?m ! 0 @ [(0, ?p)]]"
    using m2 C(3) by (auto simp: AddConnection_def rd_def wr_def)
  let ?C = "C\<lparr>RemoteManager := m2\<rparr>"
  have x: "pending ?C ?p = Some ?x"
    by (simp add: pending_def pget_def new(2) rd_def)
  have cfg': "magic_ok (UCfg ?C)"
    using cfg(1) by simp
  obtain pk e where e: "SendHandshake (HandshakePacket_Initial (UCfg ?C) Rand ?x) ?C ?p (ConnAddr s) NowUs
      = Some (put_pending ?C ?p (PrepLastSendPacket pk ?x), [SendToRemote (ConnAddr s) e])"
    "handshake_event (UCfg ?C) e InitialPacket ?x 0 0 (replicate 20 0)"
    using SendHandshake_ok [OF writes_Initial [OF cfg' cfg(2)] x] by blast
  have "SendInitialPacket C (Some s) Now Rand NowUs = Some (put_pending ?C ?p (PrepLastSendPacket pk ?x), [SendToRemote (ConnAddr s) e])"
    using C(1) m2 x e(1) by (simp add: SendInitialPacket_def CreatePendingClient_def)
  moreover have "handshake_event (UCfg C) e InitialPacket (PrepLastSendPacket pk ?x) 0 0 (replicate 20 0)"
    using e(2) by (simp add: handshake_event_def cookie_bits_def PrepLastSendPacket_def)
  ultimately show ?thesis
    using x new(5) cache by (intro exI [of _ "put_pending ?C ?p (PrepLastSendPacket pk ?x)"] exI [of _ ?p] exI [of _ "PrepLastSendPacket pk ?x"] exI [of _ e])
      (simp add: PrepLastSendPacket_def PendingRemoteConnection_ctor_def)
qed

text \<open>The cookie of a pending connection, when the environment is one the server runs in.\<close>

definition server_env :: "UdpEnv \<Rightarrow> bool" where
  "server_env E \<longleftrightarrow> IsServer (ESetting E) \<and> ActiveSecret (ESetting E) < 2 \<and> (\<forall>k m. length (EHmac E k m) = COOKIE_BYTE_SIZE)"

definition cookie_of :: "UdpEnv \<Rightarrow> UdpConfig \<Rightarrow> SockAddr \<Rightarrow> u64 \<Rightarrow> u8 list" where
  "cookie_of E cfg Addr Time = EHmac E (HandshakeSecret cfg) (d_text Time @ Addr_ToString (ENameinfo E) Addr)"

lemma regen_cookie_ok:
  assumes "server_env E"
  shows "regen_cookie E cfg c = Some (cookie_of E cfg (Address c) (CookieTime c))" "length (cookie_of E cfg Addr Time) = 20"
proof -
  have "ucast (ActiveSecret (ESetting E)) < SECRET_COUNT"
  proof -
    have "unat (ActiveSecret (ESetting E)) < 2"
      using assms by (simp add: server_env_def word_less_nat_alt)
    then show ?thesis
      by (simp add: SECRET_COUNT_def word_less_nat_alt unsigned_ucast_eq take_bit_nat_eq_self)
  qed
  then show "regen_cookie E cfg c = Some (cookie_of E cfg (Address c) (CookieTime c))"
    by (simp add: regen_cookie_def GenerateCookie_def GetHandShakeSecret_def cookie_of_def)
  show "length (cookie_of E cfg Addr Time) = 20"
    using assms by (simp add: server_env_def cookie_of_def COOKIE_BYTE_SIZE_def)
qed

lemma server_challenges:
  assumes S: "UMode S = ProcServer" "FindConnection (RemoteManager S) k = None" "unat (ClientTimeId S) < length (ClientCache (RemoteManager S))"
    and cfg: "magic_ok (UCfg S)" "filler_ok Rand" and E: "server_env E"
    and H: "HsPacketType H = InitialPacket" "HsTimeStamp H = 0" and r: "RHashKey r = k" "RAddress r = ca"
  shows "\<exists>S' p y e. AnswerHandshake E S r H T1 T2 T3 Rand NowUs = Some (S', [SendToRemote ca e])
    \<and> FindConnection (RemoteManager S') k = Some p \<and> pending S' p = Some y \<and> Address y = ca \<and> CookieTime y = T3
    \<and> UCfg S' = UCfg S \<and> UMode S' = UMode S
    \<and> handshake_event (UCfg S) e Challenge y (ActiveSecret (ESetting E)) T3 (cookie_of E (UCfg S) ca T3)"
proof -
  let ?m = "RemoteManager S" and ?p = "length (PStore (RemoteManager S))"
  obtain m' a' c where m': "accept_client ?m (PendingClientIDManager S) T1 (SetSessionID (ESetting E)) ca (ClientTimeId S) k = Some (m', a', ?p)"
    "FindConnection m' k = Some ?p" "PStore m' = PStore ?m @ [c]"
    and c: "c = PendingRemoteConnection_ctor T1 (SetSessionID (ESetting E)) (snd (Allocate (PendingClientIDManager S))) ca (ClientTimeId S)"
    using accept_client_ok [OF S(2,3)] by blast
  let ?S = "S\<lparr>RemoteManager := m', PendingClientIDManager := a'\<rparr>" and ?y = "UpdateHanshakePacketType Challenge (Touch T2 c)"
  have p: "pending ?S ?p = Some c"
    by (simp add: pending_def pget_def m'(3) rd_def)
  let ?S2 = "put_pending ?S ?p ?y"
  have y: "pending ?S2 ?p = Some ?y"
    using p by simp
  have "Address ?y = ca"
    by (simp add: pending_updates c PendingRemoteConnection_ctor_def)
  have "regen_cookie E (UCfg ?S2) (UpdateCookieTime T3 ?y) = Some (cookie_of E (UCfg S) ca T3)"
    using \<open>Address ?y = ca\<close> by (simp add: regen_cookie_ok [OF E] UpdateCookieTime_def)
  note k = this
  have cfg2: "magic_ok (UCfg ?S2)"
    using cfg(1) by simp
  obtain pk e where "SendConnectChallenge E ?S2 ?p T3 Rand NowUs
      = Some (put_pending ?S2 ?p (PrepLastSendPacket pk (UpdateCookieTime T3 ?y)), [SendToRemote (Address ?y) e])"
    "handshake_event (UCfg ?S2) e (HandshakePacketType ?y) ?y (ActiveSecret (ESetting E)) T3 (cookie_of E (UCfg S) ca T3)"
    using SendConnectChallenge_ok [OF cfg2 cfg(2) y k regen_cookie_ok(2) [OF E]] by blast
  then have e: "SendConnectChallenge E ?S2 ?p T3 Rand NowUs
      = Some (put_pending ?S2 ?p (PrepLastSendPacket pk (UpdateCookieTime T3 ?y)), [SendToRemote ca e])"
    "handshake_event (UCfg S) e (HandshakePacketType ?y) ?y (ActiveSecret (ESetting E)) T3 (cookie_of E (UCfg S) ca T3)"
    using \<open>Address ?y = ca\<close> by simp_all
  have "deq 0 0"
    by (simp add: deq_def)
  moreover have "put_pending (put_pending ?S ?p (Touch T2 c)) ?p ?y = ?S2"
    by simp
  ultimately have "AnswerHandshake E S r H T1 T2 T3 Rand NowUs
      = Some (put_pending ?S2 ?p (PrepLastSendPacket pk (UpdateCookieTime T3 ?y)), [SendToRemote ca e])"
    using m'(1) H r S(2) e(1) p
    by (simp add: AnswerHandshake_def FindOrCreateClient_def on_pending_put)
  moreover have "handshake_event (UCfg S) e Challenge (PrepLastSendPacket pk (UpdateCookieTime T3 ?y)) (ActiveSecret (ESetting E)) T3 (cookie_of E (UCfg S) ca T3)"
    using e(2) by (simp add: handshake_event_def cookie_bits_def pending_updates)
  ultimately show ?thesis
    using p m'(2) \<open>Address ?y = ca\<close> by (fastforce simp: pending_updates)
qed

definition holds_packet :: "PendingRemoteConnection \<Rightarrow> OutSendPacketEvent \<Rightarrow> bool" where
  "holds_packet x e \<longleftrightarrow> (\<exists>pk. LastReadyPacket x = Some pk \<and> OutSendPacketEvent_Create pk = Some e)"

lemma event_same_header:
  assumes "HandshakeTryCount y = HandshakeTryCount c" "SessionId y = SessionId c" "ClientID y = ClientID c"
  shows "handshake_event cfg e t y Secret Time Cookie = handshake_event cfg e t c Secret Time Cookie"
  using assms by (simp add: handshake_event_def cookie_bits_def)

lemma client_responds:
  assumes C: "UState C = ProcUnInitialized \<or> UState C = ProcInitializedOnLocal" "pending C p = Some x"
    and cfg: "magic_ok (UCfg C)" "filler_ok Rand" and E: "IsClient (ESetting E)"
    and H: "HsPacketType H = Challenge" "dlt 0 (HsTimeStamp H)" "length (HsCookie H) = 20"
  shows "\<exists>C' x' e. ClientHandshake E C (Some s) H p Rand NowUs = Some (C', Some s, [SendToRemote (ConnAddr s) e])
    \<and> pending C' p = Some x' \<and> holds_packet x' e \<and> SessionId x' = SessionId x \<and> Address x' = Address x
    \<and> UCfg C' = UCfg C \<and> UMode C' = UMode C \<and> UState C' = ProcInitializedOnLocal \<and> RemoteManager C' = RemoteManager (put_pending C p x')
    \<and> handshake_event (UCfg C) e Response x' (HsSecretId H) (HsTimeStamp H) (HsCookie H)"
proof -
  let ?x = "UpdateHanshakePacketType Response x"
  let ?C = "put_pending C p ?x"
  have x: "pending ?C p = Some ?x" and cfg': "magic_ok (UCfg ?C)"
    using C(2) cfg(1) by simp_all
  obtain pk e where e: "SendHandshake (HandshakePacket_Cookie (UCfg ?C) Rand Response ?x (HsSecretId H) (HsTimeStamp H) (HsCookie H)) ?C p (ConnAddr s) NowUs
      = Some (put_pending ?C p (PrepLastSendPacket pk ?x), [SendToRemote (ConnAddr s) e])"
    "OutSendPacketEvent_Create pk = Some e"
    "handshake_event (UCfg ?C) e Response ?x (HsSecretId H) (HsTimeStamp H) (HsCookie H)"
    using SendHandshake_ok [OF writes_Cookie [OF cfg' cfg(2) H(3)] x] by blast
  let ?x' = "PrepLastSendPacket pk ?x" and ?C' = "put_pending C p (PrepLastSendPacket pk ?x)"
  have "ClientHandshake E C (Some s) H p Rand NowUs = Some (SetState ProcInitializedOnLocal ?C', Some s, [SendToRemote (ConnAddr s) e])"
    using C H(1,2) E e(1) x by (simp add: ClientHandshake_def on_pending_put SendChallengeResponse_def)
  moreover have "pending (SetState ProcInitializedOnLocal ?C') p = Some ?x'"
    using obj.get_put_same [OF C(2), of ?x'] by (simp add: pending_def SetState_def)
  moreover have "handshake_event (UCfg C) e Response ?x' (HsSecretId H) (HsTimeStamp H) (HsCookie H)"
    using e(3) by (subst event_same_header [where c = ?x]) (simp_all add: PrepLastSendPacket_def)
  ultimately show ?thesis
    using e(2) by (fastforce simp: SetState_def holds_packet_def pending_updates)
qed

lemma server_admits:
  assumes S: "FindConnection (RemoteManager S) (RHashKey r) = Some p" "pending S p = Some y"
    and cfg: "magic_ok (UCfg S)" "filler_ok Rand" and E: "server_env E"
    and H: "HsPacketType H = Response" "HsCookie H = cookie_of E (UCfg S) (Address y) (CookieTime y)" and T: "valid_lifetime T3 y"
  shows "\<exists>S' c c' e. AnswerHandshake E S r H T1 T2 T3 Rand NowUs = Some (S', [AddClient (RHashKey r) c, SendToRemote (Address y) e])
    \<and> Address c = Address y \<and> CookieTime c = CookieTime y \<and> bHandshakeComplete c \<and> HandshakePacketType c = HsAck
    \<and> ServerSequence c = cookie_seq (HsCookie H) 0 \<and> ClientSequence c = cookie_seq (HsCookie H) 1
    \<and> pending S' p = Some c' \<and> Address c' = Address c \<and> CookieTime c' = CookieTime c \<and> HandshakePacketType c' = HsAck
    \<and> UCfg S' = UCfg S \<and> UMode S' = UMode S \<and> RemoteManager S' = RemoteManager (put_pending S p c')
    \<and> handshake_event (UCfg S) e HsAck c' 1 minus_one (HsCookie H)"
proof -
  let ?y = "Touch T2 (IncreaseHandshakeCount 1 y)"
  let ?c = "UpdateHandshakeComplete True (UpdateClientSeq (cookie_seq (HsCookie H) 1) (UpdateServerSeq (cookie_seq (HsCookie H) 0)
      (UpdateHanshakePacketType HsAck ?y)))"
  let ?S = "put_pending S p ?c"
  have c: "pending ?S p = Some ?c" and cfg': "magic_ok (UCfg ?S)" and l: "length (HsCookie H) = 20"
    using S(2) cfg(1) by (simp_all add: H(2) regen_cookie_ok [OF E])
  obtain pk e where e: "SendHandshake (HandshakePacket_Cookie (UCfg ?S) Rand HsAck ?c 1 minus_one (HsCookie H)) ?S p (Address ?c) NowUs
      = Some (put_pending ?S p (PrepLastSendPacket pk ?c), [SendToRemote (Address ?c) e])"
    "handshake_event (UCfg ?S) e HsAck ?c 1 minus_one (HsCookie H)"
    using SendHandshake_ok [OF writes_Cookie [OF cfg' cfg(2) l] c] by blast
  have keep: "Address ?y = Address y" "CookieTime ?y = CookieTime y"
    by (simp_all add: pending_updates)
  then have "valid_lifetime T3 ?y" "regen_cookie E (UCfg S) ?y = Some (HsCookie H)"
    using T by (simp_all add: valid_lifetime_def regen_cookie_ok [OF E] H(2))
  moreover have "HandshakePacketType ?c = HsAck" "Address ?c = Address y"
    by (simp_all add: pending_updates)
  ultimately have "AnswerHandshake E S r H T1 T2 T3 Rand NowUs
      = Some (put_pending S p (PrepLastSendPacket pk ?c), [AddClient (RHashKey r) ?c, SendToRemote (Address y) e])"
    using S H(1) e(1) by (simp add: AnswerHandshake_def FindOrCreateClient_def on_pending_put AdmitClient_def SendChallengeAck_def)
  moreover have "handshake_event (UCfg S) e HsAck (PrepLastSendPacket pk ?c) 1 minus_one (HsCookie H)"
    using e(2) by (subst event_same_header [where c = ?c]) (simp_all add: PrepLastSendPacket_def)
  ultimately show ?thesis
    using S(2) by (intro exI [of _ "put_pending S p (PrepLastSendPacket pk ?c)"] exI [of _ ?c] exI [of _ "PrepLastSendPacket pk ?c"] exI [of _ e])
      (simp add: pending_updates)
qed

lemma client_finishes:
  assumes C: "UState C = ProcInitializedOnLocal" "pending C p = Some x" and s: "InPacketId s = - 1"
    and H: "HsPacketType H = HsAck" "HsTimeStamp H = minus_one"
  shows "\<exists>C' x'. ClientHandshake E C (Some s) H p Rand NowUs =
      Some (C', Some (fst (InitSequence s (uint (cookie_seq (HsCookie H) 0)) (uint (cookie_seq (HsCookie H) 1)))), [BeginNMTHello])
    \<and> UState C' = ProcInitialized \<and> UCfg C' = UCfg C \<and> UMode C' = UMode C \<and> RemoteManager C' = RemoteManager (put_pending C p x')
    \<and> pending C' p = Some x' \<and> LastReadyPacket x' = LastReadyPacket x \<and> Address x' = Address x \<and> SessionId x' = SessionId x \<and> bHandshakeComplete x'"
proof -
  let ?x = "UpdateHandshakeComplete True (UpdateHanshakePacketType HsAck x)"
  let ?C = "SetState ProcInitialized (put_pending C p ?x)"
  have "snd (InitSequence s a b)" for a b
    using s by (simp add: InitSequence_def)
  moreover have "dlt minus_one 0"
    by (simp add: minus_one_def dlt_def dnan_def dint_def dmag_def dneg_def dexp_def dman_def)
  ultimately have "ClientHandshake E C (Some s) H p Rand NowUs =
      Some (?C, Some (fst (InitSequence s (uint (cookie_seq (HsCookie H) 0)) (uint (cookie_seq (HsCookie H) 1)))), [BeginNMTHello])"
    using C H by (auto simp: ClientHandshake_def on_pending_put split: prod.splits) (metis snd_conv)+
  moreover have "pending ?C p = Some ?x"
    using obj.get_put_same [OF C(2), of ?x] by (simp add: pending_def SetState_def)
  ultimately show ?thesis
    by (intro exI [of _ ?C] exI [of _ ?x]) (simp add: SetState_def pending_updates)
qed

section \<open>From datagram to datagram\<close>

lemma challenge_way:
  assumes S: "UMode S = ProcServer" "FindConnection (RemoteManager S) (MakeIPv4PortKeyFromStorage ca) = None"
      "unat (ClientTimeId S) < length (ClientCache (RemoteManager S))"
    and cfg: "magic_ok (UCfg S)" "ExpectedSessionId (UCfg S) = 0" "filler_ok Rand" and E: "server_env E"
    and e: "handshake_event (UCfg S) e InitialPacket x 0 0 (replicate 20 0)" "SessionId x = 0"
  shows "\<exists>r r' S' p y e'. deliver e ca junk = Some r \<and> IncomingConnectionless E S r T1 T2 T3 Rand NowUs = Some (S', r', [SendToRemote ca e'])
    \<and> FindConnection (RemoteManager S') (MakeIPv4PortKeyFromStorage ca) = Some p \<and> pending S' p = Some y \<and> Address y = ca \<and> CookieTime y = T3
    \<and> UCfg S' = UCfg S \<and> UMode S' = UMode S
    \<and> handshake_event (UCfg S) e' Challenge y (ActiveSecret (ESetting E)) T3 (cookie_of E (UCfg S) ca T3)"
proof -
  let ?H = "parsed (ucast (HandshakeTryCount x)) InitialPacket 0 0 (replicate 20 0)"
  have H: "HsPacketType ?H = InitialPacket" "HsTimeStamp ?H = 0"
    by (simp_all add: parsed_def)
  obtain r h where r: "deliver e ca junk = Some r" "RHashKey r = MakeIPv4PortKeyFromStorage ca" "RAddress r = ca"
    "IncomingConnectionless E S r T1 T2 T3 Rand NowUs =
       (AnswerHandshake E S (r\<lparr>RHeader := h, bConnectionlessPacket := True\<rparr>) ?H T1 T2 T3 Rand NowUs
         \<bind> (\<lambda>(U, fx). Some (U, r\<lparr>RHeader := h, bConnectionlessPacket := True\<rparr>, fx)))"
    using IncomingConnectionless_deliver [OF cfg(1) length_replicate _ e(1) _ cfg(2) S(1), of ca junk E T1 T2 T3 Rand NowUs] e(2) by auto
  let ?r = "r\<lparr>RHeader := h, bConnectionlessPacket := True\<rparr>"
  have "RHashKey ?r = MakeIPv4PortKeyFromStorage ca" "RAddress ?r = ca"
    using r(2,3) by simp_all
  then obtain S' p y e' where "AnswerHandshake E S ?r ?H T1 T2 T3 Rand NowUs = Some (S', [SendToRemote ca e'])"
    "FindConnection (RemoteManager S') (MakeIPv4PortKeyFromStorage ca) = Some p" "pending S' p = Some y" "Address y = ca" "CookieTime y = T3"
    "UCfg S' = UCfg S" "UMode S' = UMode S"
    "handshake_event (UCfg S) e' Challenge y (ActiveSecret (ESetting E)) T3 (cookie_of E (UCfg S) ca T3)"
    using server_challenges [OF S cfg(1,3) E H] by blast
  then show ?thesis
    using r(1,4) by (intro exI [of _ r] exI [of _ ?r] exI [of _ S'] exI [of _ p] exI [of _ y] exI [of _ e']) simp
qed

lemma response_way:
  assumes C: "UMode C = ProcClient" "UState C = ProcUnInitialized \<or> UState C = ProcInitializedOnLocal"
      "FindConnection (RemoteManager C) 0 = Some p" "pending C p = Some x"
    and cfg: "magic_ok (UCfg C)" "filler_ok Rand" and E: "IsClient (ESetting E)"
    and e: "handshake_event (UCfg C) e Challenge y Secret Time Cookie" "length Cookie = 20" "dlt 0 Time"
  shows "\<exists>r r' C' x' e'. deliver e sa junk = Some r \<and> Incoming E C (Some s) r T Rand NowUs = Some (C', Some s, r', [SendToRemote (ConnAddr s) e'])
    \<and> FindConnection (RemoteManager C') 0 = Some p \<and> pending C' p = Some x' \<and> holds_packet x' e' \<and> SessionId x' = SessionId x \<and> Address x' = Address x
    \<and> ClientCache (RemoteManager C') = ClientCache (RemoteManager C)
    \<and> UCfg C' = UCfg C \<and> UMode C' = UMode C \<and> UState C' = ProcInitializedOnLocal
    \<and> (\<exists>Sec. handshake_event (UCfg C) e' Response x' Sec Time Cookie)"
proof -
  let ?H = "parsed (ucast (HandshakeTryCount y)) Challenge Secret Time Cookie" and ?C = "put_pending C p (Touch T x)"
  have H: "HsPacketType ?H = Challenge" "HsTimeStamp ?H = Time" "HsCookie ?H = Cookie"
    by (simp_all add: parsed_def)
  have key: "FindConnection (RemoteManager C) (if IsServer (ESetting E) then MakeIPv4PortKeyFromStorage sa else 0) = Some p"
    using C(3) E by (simp add: IsServer_def IsClient_def)
  obtain r r' where r: "deliver e sa junk = Some r"
    "Incoming E C (Some s) r T Rand NowUs = (ClientHandshake E ?C (Some s) ?H p Rand NowUs \<bind> (\<lambda>(U, ServerConn, fx). Some (U, ServerConn, r', fx)))"
    using Incoming_deliver [OF cfg(1) e(2) _ e(1) key C(4), of junk "Some s" T Rand NowUs] C(1) by auto
  have C': "UState ?C = ProcUnInitialized \<or> UState ?C = ProcInitializedOnLocal" "pending ?C p = Some (Touch T x)" "magic_ok (UCfg ?C)"
    using C cfg by simp_all
  have H': "dlt 0 (HsTimeStamp ?H)" "length (HsCookie ?H) = 20"
    using e(2,3) H by simp_all
  obtain C' x' e' where c: "ClientHandshake E ?C (Some s) ?H p Rand NowUs = Some (C', Some s, [SendToRemote (ConnAddr s) e'])"
    "pending C' p = Some x'" "holds_packet x' e'" "SessionId x' = SessionId (Touch T x)" "Address x' = Address (Touch T x)"
    "UCfg C' = UCfg ?C" "UMode C' = UMode ?C" "UState C' = ProcInitializedOnLocal" "RemoteManager C' = RemoteManager (put_pending ?C p x')"
    "handshake_event (UCfg ?C) e' Response x' (HsSecretId ?H) (HsTimeStamp ?H) (HsCookie ?H)"
    using client_responds [OF C'(1,2,3) cfg(2) E H(1) H'] by blast
  moreover have "FindConnection (RemoteManager C') 0 = Some p" "ClientCache (RemoteManager C') = ClientCache (RemoteManager C)"
    using C(3) c(9) by simp_all
  moreover have "handshake_event (UCfg C) e' Response x' (HsSecretId ?H) Time Cookie"
    using c(10) H by simp
  ultimately show ?thesis
    using r by (intro exI [of _ r] exI [of _ r'] exI [of _ C'] exI [of _ x'] exI [of _ e']) (auto simp: Touch_def)
qed

lemma admission_way:
  assumes S: "UMode S = ProcServer" "FindConnection (RemoteManager S) (MakeIPv4PortKeyFromStorage ca) = Some p" "pending S p = Some y" "Address y = ca"
    and cfg: "magic_ok (UCfg S)" "ExpectedSessionId (UCfg S) = 0" "filler_ok Rand" and E: "server_env E" and T: "valid_lifetime T3 y"
    and e: "handshake_event (UCfg S) e Response x Secret Time (cookie_of E (UCfg S) ca (CookieTime y))" "SessionId x = 0"
  shows "\<exists>r r' S' c y' e'. deliver e ca junk = Some r
    \<and> IncomingConnectionless E S r T1 T2 T3 Rand NowUs = Some (S', r', [AddClient (MakeIPv4PortKeyFromStorage ca) c, SendToRemote ca e'])
    \<and> Address c = ca \<and> bHandshakeComplete c
    \<and> ServerSequence c = cookie_seq (cookie_of E (UCfg S) ca (CookieTime y)) 0 \<and> ClientSequence c = cookie_seq (cookie_of E (UCfg S) ca (CookieTime y)) 1
    \<and> FindConnection (RemoteManager S') (MakeIPv4PortKeyFromStorage ca) = Some p \<and> pending S' p = Some y' \<and> Address y' = ca
    \<and> CookieTime y' = CookieTime y \<and> HandshakePacketType y' = HsAck \<and> UCfg S' = UCfg S \<and> UMode S' = UMode S
    \<and> handshake_event (UCfg S) e' HsAck y' 1 minus_one (cookie_of E (UCfg S) ca (CookieTime y))"
proof -
  let ?ck = "cookie_of E (UCfg S) ca (CookieTime y)"
  let ?H = "parsed (ucast (HandshakeTryCount x)) Response Secret Time ?ck"
  have H: "HsPacketType ?H = Response" "HsCookie ?H = ?ck"
    by (simp_all add: parsed_def)
  obtain r h where r: "deliver e ca junk = Some r" "RHashKey r = MakeIPv4PortKeyFromStorage ca" "RAddress r = ca"
    "IncomingConnectionless E S r T1 T2 T3 Rand NowUs =
       (AnswerHandshake E S (r\<lparr>RHeader := h, bConnectionlessPacket := True\<rparr>) ?H T1 T2 T3 Rand NowUs
         \<bind> (\<lambda>(U, fx). Some (U, r\<lparr>RHeader := h, bConnectionlessPacket := True\<rparr>, fx)))"
    using IncomingConnectionless_deliver [OF cfg(1) regen_cookie_ok(2) [OF E] _ e(1) _ cfg(2) S(1), of ca junk E T1 T2 T3 Rand NowUs] e(2) by auto
  let ?r = "r\<lparr>RHeader := h, bConnectionlessPacket := True\<rparr>"
  have k: "RHashKey ?r = MakeIPv4PortKeyFromStorage ca"
    using r(2) by simp
  have S': "FindConnection (RemoteManager S) (RHashKey ?r) = Some p" "HsCookie ?H = cookie_of E (UCfg S) (Address y) (CookieTime y)"
    using S(2,4) k H by simp_all
  obtain S' c y' e' where s: "AnswerHandshake E S ?r ?H T1 T2 T3 Rand NowUs = Some (S', [AddClient (RHashKey ?r) c, SendToRemote (Address y) e'])"
    "Address c = Address y" "bHandshakeComplete c" "ServerSequence c = cookie_seq (HsCookie ?H) 0" "ClientSequence c = cookie_seq (HsCookie ?H) 1"
    "pending S' p = Some y'" "Address y' = Address c" "CookieTime y' = CookieTime c" "CookieTime c = CookieTime y" "HandshakePacketType y' = HsAck"
    "UCfg S' = UCfg S" "UMode S' = UMode S" "RemoteManager S' = RemoteManager (put_pending S p y')"
    "handshake_event (UCfg S) e' HsAck y' 1 minus_one (HsCookie ?H)"
    using server_admits [OF S'(1) S(3) cfg(1,3) E H(1) S'(2) T] by blast
  then show ?thesis
    using r(1,4) S(2,4) k unfolding H(2)
    by (intro exI [of _ r] exI [of _ ?r] exI [of _ S'] exI [of _ c] exI [of _ y'] exI [of _ e']) simp
qed

lemma finish_way:
  assumes C: "UMode C = ProcClient" "UState C = ProcInitializedOnLocal" "FindConnection (RemoteManager C) 0 = Some p" "pending C p = Some x"
    and cfg: "magic_ok (UCfg C)" and E: "IsClient (ESetting E)" and s: "InPacketId s = - 1"
    and e: "handshake_event (UCfg C) e HsAck y Secret minus_one Cookie" "length Cookie = 20"
  shows "\<exists>r r' C' x'. deliver e sa junk = Some r \<and> Incoming E C (Some s) r T Rand NowUs =
      Some (C', Some (fst (InitSequence s (uint (cookie_seq Cookie 0)) (uint (cookie_seq Cookie 1)))), r', [BeginNMTHello])
    \<and> ClientCache (RemoteManager C') = ClientCache (RemoteManager C)
    \<and> UState C' = ProcInitialized \<and> UCfg C' = UCfg C \<and> UMode C' = UMode C \<and> FindConnection (RemoteManager C') 0 = Some p
    \<and> pending C' p = Some x' \<and> LastReadyPacket x' = LastReadyPacket x \<and> Address x' = Address x \<and> SessionId x' = SessionId x \<and> bHandshakeComplete x'"
proof -
  let ?H = "parsed (ucast (HandshakeTryCount y)) HsAck Secret minus_one Cookie" and ?C = "put_pending C p (Touch T x)"
  have H: "HsPacketType ?H = HsAck" "HsTimeStamp ?H = minus_one" "HsCookie ?H = Cookie"
    by (simp_all add: parsed_def)
  have key: "FindConnection (RemoteManager C) (if IsServer (ESetting E) then MakeIPv4PortKeyFromStorage sa else 0) = Some p"
    using C(3) E by (simp add: IsServer_def IsClient_def)
  obtain r r' where r: "deliver e sa junk = Some r"
    "Incoming E C (Some s) r T Rand NowUs = (ClientHandshake E ?C (Some s) ?H p Rand NowUs \<bind> (\<lambda>(U, ServerConn, fx). Some (U, ServerConn, r', fx)))"
    using Incoming_deliver [OF cfg e(2) _ e(1) key C(4), of junk "Some s" T Rand NowUs] C(1) by auto
  have C': "UState ?C = ProcInitializedOnLocal" "pending ?C p = Some (Touch T x)"
    using C by simp_all
  obtain C' x' where c: "ClientHandshake E ?C (Some s) ?H p Rand NowUs =
      Some (C', Some (fst (InitSequence s (uint (cookie_seq (HsCookie ?H) 0)) (uint (cookie_seq (HsCookie ?H) 1)))), [BeginNMTHello])"
    "UState C' = ProcInitialized" "UCfg C' = UCfg ?C" "UMode C' = UMode ?C" "RemoteManager C' = RemoteManager (put_pending ?C p x')"
    "pending C' p = Some x'" "LastReadyPacket x' = LastReadyPacket (Touch T x)" "Address x' = Address (Touch T x)"
    "SessionId x' = SessionId (Touch T x)" "bHandshakeComplete x'"
    using client_finishes [OF C' s H(1,2)] by blast
  then show ?thesis
    using r C(3) unfolding H(3) by (intro exI [of _ r] exI [of _ r'] exI [of _ C'] exI [of _ x']) (simp add: Touch_def)
qed

end
