(* ===== verification/Admission.thy ===== *)
theory Admission
  imports Handshake
begin

text \<open>
  Whom a server admits: over all runs of the server's processor, a client is reported to the driver only
  in answer to a response that carries the cookie of its own address.
\<close>

section \<open>What the handlers keep\<close>

text \<open>Every entry of the maps is a connection whose address has the key it is found under.\<close>

definition keyed :: "UdpConnectionProcessor \<Rightarrow> bool" where
  "keyed U \<longleftrightarrow> (\<forall>(k, p)\<in>set (entries (RemoteManager U)). \<exists>c. pending U p = Some c \<and> MakeIPv4PortKeyFromStorage (Address c) = k)"

definition steady :: "UdpConnectionProcessor \<Rightarrow> UdpConnectionProcessor \<Rightarrow> bool" where
  "steady U U' \<longleftrightarrow> ClientCache (RemoteManager U') = ClientCache (RemoteManager U) \<and> UCfg U' = UCfg U \<and> UMode U' = UMode U
     \<and> (\<forall>p c. pending U p = Some c \<longrightarrow> (\<exists>c'. pending U' p = Some c' \<and> Address c' = Address c))"

lemma steady_refl [simp]: "steady U U"
  by (auto simp: steady_def)

lemma steady_trans: "steady U V \<Longrightarrow> steady V W \<Longrightarrow> steady U W"
  unfolding steady_def by metis

lemma steady_put: "pending U p = Some c \<Longrightarrow> Address d = Address c \<Longrightarrow> steady U (put_pending U p d)"
  using obj.put_keeps [of U p c Address d] by (auto simp: steady_def)

lemma steady_on_pending:
  assumes "on_pending p f U = Some U'" "\<And>c. Address (f c) = Address c"
  shows "steady U U'"
  using assms(1) by (rule on_pendingD) (auto intro: steady_put simp: assms(2))

lemma steady_state: "steady U (U\<lparr>UState := st\<rparr>)" "steady U (U\<lparr>ClientTimeId := t\<rparr>)"
  by (simp_all add: steady_def pending_def)

lemma keyed_steady: "keyed U \<Longrightarrow> steady U U' \<Longrightarrow> keyed U'"
  unfolding keyed_def steady_def entries_def by fastforce

lemma Build_result:
  assumes "ProcessorPacketBuilder_Build W NowUs = Some (pk, s)"
  shows "\<exists>B B'. W B = Some (B', s)"
  using assms by (auto simp: ProcessorPacketBuilder_Build_def bind_eq_Some_conv)

lemma steady_Prep: "PrepLastHandshakePacket U p Packet = Some (U', e) \<Longrightarrow> steady U U'"
  by (auto simp: PrepLastHandshakePacket_def bind_eq_Some_conv PrepLastSendPacket_def intro!: steady_on_pending)

lemma steady_SendHandshake:
  "SendHandshake W U p Addr NowUs = Some (U', fx) \<Longrightarrow> steady U U' \<and> (\<exists>e. fx = [SendToRemote Addr e])"
  by (auto simp: SendHandshake_def bind_eq_Some_conv intro: steady_Prep)

lemma steady_Challenge:
  assumes "SendConnectChallenge E U p Now Rand NowUs = Some (U', fx)"
  shows "steady U U' \<and> (\<exists>a e. fx = [SendToRemote a e])"
proof -
  obtain c pk d U1 e where c: "pending U p = Some c"
    "ProcessorPacketBuilder_Build (SendConnectChallengeProcess E (UCfg U) Now Rand c) NowUs = Some (pk, d)"
    "on_pending p (\<lambda>_. d) U = Some U1" "PrepLastHandshakePacket U1 p (PacketSealed pk) = Some (U', e)" "fx = [SendToRemote (Address d) e]"
    using assms by (auto simp: SendConnectChallenge_def bind_eq_Some_conv)
  obtain B B' where "SendConnectChallengeProcess E (UCfg U) Now Rand c B = Some (B', d)"
    using Build_result [OF c(2)] by blast
  then have "Address d = Address c"
    by (auto simp: SendConnectChallengeProcess_def bind_eq_Some_conv UpdateCookieTime_def)
  then have "steady U U1"
    using c(1,3) on_pending_put [OF c(1)] by (auto intro: steady_put)
  with steady_trans [OF this steady_Prep [OF c(4)]] c(5) show ?thesis by blast
qed

lemma steady_Ack:
  "SendChallengeAck U p Cookie Rand NowUs = Some (U', fx) \<Longrightarrow> steady U U' \<and> (\<exists>a e. fx = [SendToRemote a e])"
  by (auto simp: SendChallengeAck_def bind_eq_Some_conv dest: steady_SendHandshake)

text \<open>Admitting a client: what is reported and what is sent.\<close>

lemma AdmitClient_effects:
  assumes "AdmitClient U p r Cookie Regen Rand NowUs = Some (U', fx)"
  shows "steady U U' \<and> (\<exists>c0 c a e. pending U p = Some c0 \<and> fx = [AddClient (RHashKey r) c, SendToRemote a e]
    \<and> Address c = Address c0 \<and> CookieTime c = CookieTime c0 \<and> bHandshakeComplete c
    \<and> ServerSequence c = cookie_seq Cookie 0 \<and> ClientSequence c = cookie_seq Cookie 1)"
proof -
  obtain c0 where c0: "pending U p = Some c0"
    using assms by (auto simp: AdmitClient_def bind_eq_Some_conv elim: on_pendingD)
  let ?c = "UpdateHandshakeComplete True (UpdateClientSeq (cookie_seq Cookie 1) (UpdateServerSeq (cookie_seq Cookie 0) (UpdateHanshakePacketType HsAck c0)))"
  have "steady U (put_pending U p ?c)"
    by (rule steady_put [OF c0]) (simp add: pending_updates)
  moreover obtain fx' where "SendChallengeAck (put_pending U p ?c) p Regen Rand NowUs = Some (U', fx')" "fx = AddClient (RHashKey r) ?c # fx'"
    using assms c0 by (auto simp: AdmitClient_def on_pending_put bind_eq_Some_conv)
  ultimately show ?thesis
    using c0 steady_Ack steady_trans by (fastforce simp: pending_updates)
qed

section \<open>Clients are entered under their own key\<close>

lemma FindOrCreate_keyed:
  assumes "keyed U" and r: "RHashKey r = MakeIPv4PortKeyFromStorage (RAddress r)" and f: "FindOrCreateClient E U r Now = Some (U', p)"
  shows "keyed U' \<and> UCfg U' = UCfg U \<and> UMode U' = UMode U \<and> (\<exists>c. pending U' p = Some c \<and> MakeIPv4PortKeyFromStorage (Address c) = RHashKey r)"
proof (cases "FindConnection (RemoteManager U) (RHashKey r)")
  case (Some q)
  then have q: "q = p" "on_pending p (IncreaseHandshakeCount 1) U = Some U'"
    using f by (auto simp: FindOrCreateClient_def bind_eq_Some_conv)
  have st: "steady U U'"
    using q(2) by (rule steady_on_pending) (simp add: IncreaseHandshakeCount_def)
  have "(RHashKey r, p) \<in> set (entries (RemoteManager U))"
    using Find_loop_Some Some q(1) by (fastforce simp: FindConnection_def entries_def)
  with assms(1) st show ?thesis
    using keyed_steady [OF assms(1) st] unfolding keyed_def steady_def by fastforce
next
  case None
  let ?m = "RemoteManager U"
  obtain m a where m: "accept_client ?m (PendingClientIDManager U) Now (SetSessionID (ESetting E)) (RAddress r) (ClientTimeId U) (RHashKey r) = Some (m, a, p)"
    "U' = U\<lparr>RemoteManager := m, PendingClientIDManager := a\<rparr>"
    using f None by (auto simp: FindOrCreateClient_def bind_eq_Some_conv)
  let ?c = "PendingRemoteConnection_ctor Now (SetSessionID (ESetting E)) (snd (Allocate (PendingClientIDManager U))) (RAddress r) (ClientTimeId U)"
  let ?m1 = "?m\<lparr>PStore := PStore ?m @ [?c]\<rparr>"
  have p: "p = length (PStore ?m)" and add: "AddConnection ?m1 (ClientTimeId U) (RHashKey r) p = Some m"
    using m(1) by (auto simp: accept_client_def CreatePendingClient_def bind_eq_Some_conv split: prod.splits)
  have "FindConnection ?m1 (RHashKey r) = None"
    using None by (simp add: FindConnection_def)
  note new = AddConnection_new [OF this add]
  have pend: "pending U' q = (if q = p then Some ?c else pending U q)" for q
    using m(2) new(2) p by (auto simp: pending_def pget_def rd_def nth_append)
  have "set (entries m) = insert (RHashKey r, p) (set (entries ?m))"
    using arg_cong [OF new(4), of set_mset] by (simp add: entries_def)
  then have entry: "(k, q) = (RHashKey r, p) \<or> (k, q) \<in> set (entries ?m)" if "(k, q) \<in> set (entries (RemoteManager U'))" for k q
    using that m(2) by auto
  have "\<exists>c. pending U' q = Some c \<and> MakeIPv4PortKeyFromStorage (Address c) = k" if "(k, q) \<in> set (entries (RemoteManager U'))" for k q
    using entry [OF that]
  proof
    assume "(k, q) = (RHashKey r, p)"
    then show ?thesis
      using r pend [of p] by (simp add: PendingRemoteConnection_ctor_def)
  next
    assume "(k, q) \<in> set (entries ?m)"
    then obtain c where c: "pending U q = Some c" "MakeIPv4PortKeyFromStorage (Address c) = k"
      using assms(1) by (auto simp: keyed_def)
    then have "q \<noteq> p"
      using p by (auto simp: pending_def pget_def rd_def split: if_splits)
    with c show ?thesis
      by (simp add: pend)
  qed
  then have "keyed U'"
    by (auto simp: keyed_def)
  then show ?thesis
    using m(2) r pend [of p] by (simp add: PendingRemoteConnection_ctor_def)
qed

section \<open>Answers\<close>

lemma AnswerHandshake_effects:
  assumes k: "keyed U" and r: "RHashKey r = MakeIPv4PortKeyFromStorage (RAddress r)"
    and a: "AnswerHandshake E U r H T1 T2 T3 Rand NowUs = Some (U', fx)"
  shows "keyed U' \<and> UCfg U' = UCfg U \<and> UMode U' = UMode U \<and> (\<forall>k c. AddClient k c \<in> set fx \<longrightarrow>
    k = RHashKey r \<and> MakeIPv4PortKeyFromStorage (Address c) = RHashKey r \<and> HsPacketType H = Response \<and> valid_lifetime T3 c
    \<and> regen_cookie E (UCfg U) c = Some (HsCookie H) \<and> bHandshakeComplete c
    \<and> ServerSequence c = cookie_seq (HsCookie H) 0 \<and> ClientSequence c = cookie_seq (HsCookie H) 1)"
proof -
  obtain U1 p U2 where 1: "FindOrCreateClient E U r T1 = Some (U1, p)" and 2: "on_pending p (Touch T2) U1 = Some U2"
    using a by (auto simp: AnswerHandshake_def bind_eq_Some_conv)
  note f = FindOrCreate_keyed [OF k r 1]
  have s12: "steady U1 U2"
    using 2 by (rule steady_on_pending) (simp add: Touch_def)
  obtain c2 where U2: "keyed U2" "UCfg U2 = UCfg U" "UMode U2 = UMode U" "pending U2 p = Some c2" "MakeIPv4PortKeyFromStorage (Address c2) = RHashKey r"
    using f s12 keyed_steady [of U1 U2] unfolding steady_def by (metis (no_types, lifting))
  have keep: "keyed U' \<and> UCfg U' = UCfg U \<and> UMode U' = UMode U" if "steady U2 U'"
    using keyed_steady [OF U2(1) that] that U2(2,3) by (simp add: steady_def)
  consider (challenge) U3 where "on_pending p (UpdateHanshakePacketType Challenge) U2 = Some U3" "SendConnectChallenge E U3 p T3 Rand NowUs = Some (U', fx)"
    | (admit) "HsPacketType H = Response" "valid_lifetime T3 c2" "regen_cookie E (UCfg U) c2 = Some (HsCookie H)"
        "AdmitClient U2 p r (HsCookie H) (HsCookie H) Rand NowUs = Some (U', fx)"
    | (drop) "U' = U2" "fx = []"
    using a 1 2 U2(2,4) by (auto simp: AnswerHandshake_def bind_eq_Some_conv Let_def split: if_splits)
  then show ?thesis
  proof cases
    case challenge
    have "steady U2 U3"
      using challenge(1) by (rule steady_on_pending) (simp add: UpdateHanshakePacketType_def)
    with steady_Challenge [OF challenge(2)] show ?thesis
      using keep steady_trans by fastforce
  next
    case admit
    from AdmitClient_effects [OF admit(4)] obtain c a e where c: "steady U2 U'" "fx = [AddClient (RHashKey r) c, SendToRemote a e]"
      "Address c = Address c2" "CookieTime c = CookieTime c2" "bHandshakeComplete c"
      "ServerSequence c = cookie_seq (HsCookie H) 0" "ClientSequence c = cookie_seq (HsCookie H) 1"
      using U2(4) by auto
    have "valid_lifetime T3 c" "regen_cookie E (UCfg U) c = Some (HsCookie H)"
      using admit(2,3) c(3,4) by (simp_all add: valid_lifetime_def regen_cookie_def)
    with c admit(1) U2(5) keep [OF c(1)] show ?thesis by simp
  next
    case drop
    then show ?thesis using keep by simp
  qed
qed

text \<open>What a datagram says: the flags are right and a handshake packet follows.\<close>

definition received_handshake :: "UdpConfig \<Rightarrow> BitReader \<Rightarrow> ParsedHandshakeData option" where
  "received_handshake cfg H = do {
     (H, m) \<leftarrow> ReadMagic cfg H;
     (H, s) \<leftarrow> BitReader_SerializeBits H [0] SessionIDSizeBits;
     (H, cl) \<leftarrow> BitReader_SerializeBits H [0] ClientIDSizeBits;
     (H, b) \<leftarrow> ReadBit H;
     (H, D, ok) \<leftarrow> ParseHandshakePacket H;
     if m = ExpectMagicHeader cfg \<and> b \<noteq> 0 \<and> ok then Some D else None }"

lemma IncomingConnectionless_cases:
  assumes "IncomingConnectionless E U r T1 T2 T3 Rand NowUs = Some (U', r', fx)"
  obtains (ignored) "U' = U" "fx = []"
    | (answered) H rh where "received_handshake (UCfg U) (RHeader r) = Some H" "UMode U = ProcServer"
        "AnswerHandshake E U (r\<lparr>RHeader := rh, bConnectionlessPacket := True\<rparr>) H T1 T2 T3 Rand NowUs = Some (U', fx)"
  using assms unfolding IncomingConnectionless_def received_handshake_def SetConnectionlessPacket_def
  by (auto simp: bind_eq_Some_conv Let_def split: if_splits) (metis (full_types))+

section \<open>Runs of a server\<close>

text \<open>
  The processor of a server: any datagram of an unknown sender, any datagram on a connection, the
  periodic update, at any times and with any fillers. A reader has the key of its sender's address.
\<close>

inductive server_run :: "UdpEnv \<Rightarrow> UdpConnectionProcessor \<Rightarrow> bool" for E where
  start: "SetSupervisor (ESetting E) (UdpConnectionProcessor_ctor ProcServer) = Some U \<Longrightarrow> server_run E U"
| connectionless: "server_run E U \<Longrightarrow> RHashKey r = MakeIPv4PortKeyFromStorage (RAddress r)
    \<Longrightarrow> IncomingConnectionless E U r T1 T2 T3 Rand NowUs = Some (U', r', fx) \<Longrightarrow> server_run E U'"
| connected: "server_run E U \<Longrightarrow> Incoming E U sc r T Rand NowUs = Some (U', sc', r', fx) \<Longrightarrow> server_run E U'"
| update: "server_run E U \<Longrightarrow> ConnectionsUpdate E U i Now = Some (U', fx) \<Longrightarrow> server_run E U'"

definition server_inv :: "UdpEnv \<Rightarrow> UdpConnectionProcessor \<Rightarrow> bool" where
  "server_inv E U \<longleftrightarrow> keyed U \<and> UMode U = ProcServer \<and> HandshakeSecret (UCfg U) = take COOKIE_BYTE_SIZE (SetHandshakeSecret (ESetting E))"

lemma server_inv_steady: "server_inv E U \<Longrightarrow> steady U U' \<Longrightarrow> server_inv E U'"
  using keyed_steady [of U U'] by (auto simp: server_inv_def steady_def)

lemma Incoming_steady:
  assumes "Incoming E U sc r T Rand NowUs = Some (U', sc', r', fx)" "UMode U = ProcServer"
  shows "steady U U' \<and> (\<forall>f\<in>set fx. \<exists>a e. f = SendToRemote a e)"
proof -
  have resend: "steady V W \<and> (\<forall>f\<in>set gx. \<exists>a e. f = SendToRemote a e)" if "ServerResendAck E V H p Rand NowUs = Some (W, gx)" for V W H p gx
    using that by (fastforce simp: ServerResendAck_def bind_eq_Some_conv split: if_splits dest: steady_Ack)
  have mode: "UMode V = ProcServer" if "on_pending p f U = Some V" for p f V
    using that assms(2) by (auto elim: on_pendingD)
  consider "U' = U" "fx = []" | p V H where "on_pending p (Touch T) U = Some V" "ServerResendAck E V H p Rand NowUs = Some (U', fx)"
    using assms(1) unfolding Incoming_def
    by (auto simp: bind_eq_Some_conv Let_def split: if_splits option.splits dest: mode)
  then show ?thesis
  proof cases
    case 2
    have "steady U V"
      using 2(1) by (rule steady_on_pending) (simp add: Touch_def)
    with resend [OF 2(2)] steady_trans show ?thesis by blast
  qed simp
qed

lemma Resend_steady: "Resend_loop U es = Some (U', fx) \<Longrightarrow> steady U U'"
proof (induction es arbitrary: U U' fx)
  case (Cons e es)
  then show ?case
    by (cases e) (fastforce simp: bind_eq_Some_conv dest: steady_Prep intro: steady_trans)
qed simp

lemma Kill_loop_subset: "Kill_loop St Now Timeout es = Some (es', ids) \<Longrightarrow> set es' \<subseteq> set es"
proof (induction es arbitrary: es' ids)
  case (Cons e es)
  then show ?case
    by (cases e) (fastforce simp: bind_eq_Some_conv Let_def split: if_splits)
qed simp

lemma TimeKill_keyed:
  assumes "server_inv E U" "TimeKillEvent (RemoteManager U) i a Now Timeout = Some (m, a')"
  shows "server_inv E (U\<lparr>RemoteManager := m, PendingClientIDManager := a'\<rparr>)"
proof -
  obtain c c' ids where c: "rd (ClientCache (RemoteManager U)) (unat i) = Some c" "Kill_loop (PStore (RemoteManager U)) Now Timeout c = Some (c', ids)"
    "wr (ClientCache (RemoteManager U)) (unat i) c' = Some (ClientCache m)" "PStore m = PStore (RemoteManager U)"
    using assms(2) by (auto simp: TimeKillEvent_def bind_eq_Some_conv)
  let ?C = "ClientCache (RemoteManager U)"
  have C: "ClientCache m = ?C[unat i := c']" "unat i < length ?C" "c = ?C ! unat i"
    using c(1,3) by (auto simp: rd_def wr_def split: if_splits)
  have "x \<in> set ?C \<or> x = c'" if "x \<in> set (ClientCache m)" for x
    using that C(1) set_update_subset_insert by fastforce
  moreover have "c \<in> set ?C"
    using C(2,3) by simp
  ultimately have "set (entries m) \<subseteq> set (entries (RemoteManager U))"
    using Kill_loop_subset [OF c(2)] by (fastforce simp: entries_def)
  then show ?thesis
    using assms(1) c(4) unfolding server_inv_def keyed_def by (auto simp: pending_def pget_def)
qed

lemma ConnectionsUpdate_inv:
  assumes "server_inv E U" "ConnectionsUpdate E U i Now = Some (U', fx)"
  shows "server_inv E U'"
proof -
  obtain U1 U2 where 1: "server_inv E U1" and 2: "ResendHandshake E U1 = Some (U2, fx)" "U' = U2\<lparr>ClientTimeId := next_time_id (ClientTimeId U2)\<rparr>"
  proof (cases "IsServer (ESetting E)")
    case True
    then obtain m a V where "TimeKillEvent (RemoteManager U) i (PendingClientIDManager U) Now (PendingInactivityTimeoutSec (ESetting E)) = Some (m, a)"
      and V: "ResendHandshake E (U\<lparr>RemoteManager := m, PendingClientIDManager := a\<rparr>) = Some (V, fx)" "U' = V\<lparr>ClientTimeId := next_time_id (ClientTimeId V)\<rparr>"
      using assms(2) by (auto simp: ConnectionsUpdate_def bind_eq_Some_conv)
    then show ?thesis
      using that [OF _ V] TimeKill_keyed [OF assms(1)] by blast
  next
    case False
    then show ?thesis
      using that assms by (auto simp: ConnectionsUpdate_def bind_eq_Some_conv)
  qed
  have "steady U1 U2"
    using 2(1) by (auto simp: ResendHandshake_def bind_eq_Some_conv split: if_splits dest: Resend_steady)
  then have "steady U1 U'"
    using 2(2) steady_state(2) steady_trans by blast
  with 1 show ?thesis
    by (rule server_inv_steady)
qed

lemma server_run_inv: "server_run E U \<Longrightarrow> server_inv E U"
proof (induction rule: server_run.induct)
  case (start U)
  then show ?case
    by (auto simp: SetSupervisor_def UdpConnectionProcessor_ctor_def server_inv_def keyed_def entries_def PendingConnectionManager_ctor_def split: if_splits)
next
  case (connectionless U r T1 T2 T3 Rand NowUs U' r' fx)
  from connectionless.hyps(3) show ?case
  proof (cases rule: IncomingConnectionless_cases)
    case (answered H rh)
    have "keyed U" "RHashKey (r\<lparr>RHeader := rh, bConnectionlessPacket := True\<rparr>) =
        MakeIPv4PortKeyFromStorage (RAddress (r\<lparr>RHeader := rh, bConnectionlessPacket := True\<rparr>))"
      using connectionless.IH connectionless.hyps(2) by (simp_all add: server_inv_def)
    from AnswerHandshake_effects [OF this answered(3)] connectionless.IH show ?thesis
      by (simp add: server_inv_def)
  qed (use connectionless.IH in simp)
next
  case (connected U sc r T Rand NowUs U' sc' r' fx)
  have "steady U U'"
    using Incoming_steady [OF connected.hyps(2)] connected.IH by (simp add: server_inv_def)
  with connected.IH show ?case
    by (rule server_inv_steady)
next
  case (update U i Now U' fx)
  then show ?case by (blast intro: ConnectionsUpdate_inv)
qed

text \<open>
  C2. Only a client that returns the cookie of its address is admitted: in any run of a server, a client
  is reported to the driver under the key of the sender of the datagram, whose address has that key, and
  the datagram carries a response with the digest, under the secret of the settings, of the time the
  server last set for this client and of the client's address; that time lies less than forty seconds
  back. The two sequence numbers are bytes of the cookie.
\<close>

theorem server_admits_only_cookie_holders:
  assumes "server_run E U" and "RHashKey r = MakeIPv4PortKeyFromStorage (RAddress r)"
    and step: "IncomingConnectionless E U r T1 T2 T3 Rand NowUs = Some (U', r', fx)" and fx: "AddClient k c \<in> set fx"
  shows "k = MakeIPv4PortKeyFromStorage (RAddress r) \<and> MakeIPv4PortKeyFromStorage (Address c) = k
    \<and> (\<exists>H. received_handshake (UCfg U) (RHeader r) = Some H \<and> HsPacketType H = Response
         \<and> HsCookie H = EHmac E (take 20 (SetHandshakeSecret (ESetting E))) (d_text (CookieTime c) @ Addr_ToString (ENameinfo E) (Address c))
         \<and> ServerSequence c = cookie_seq (HsCookie H) 0 \<and> ClientSequence c = cookie_seq (HsCookie H) 1)
    \<and> dle 0 (dsub T3 (CookieTime c)) \<and> dlt 0 (dsub MAX_COOKIE_LIFETIME (dsub T3 (CookieTime c)))
    \<and> bHandshakeComplete c"
proof -
  note inv = server_run_inv [OF assms(1)]
  from step obtain H rh where H: "received_handshake (UCfg U) (RHeader r) = Some H"
    "AnswerHandshake E U (r\<lparr>RHeader := rh, bConnectionlessPacket := True\<rparr>) H T1 T2 T3 Rand NowUs = Some (U', fx)"
    using fx by (cases rule: IncomingConnectionless_cases) auto
  have "keyed U" "RHashKey (r\<lparr>RHeader := rh, bConnectionlessPacket := True\<rparr>) =
      MakeIPv4PortKeyFromStorage (RAddress (r\<lparr>RHeader := rh, bConnectionlessPacket := True\<rparr>))"
    using inv assms(2) by (simp_all add: server_inv_def)
  from AnswerHandshake_effects [OF this H(2)] fx
  have "k = RHashKey r" "MakeIPv4PortKeyFromStorage (Address c) = RHashKey r" "HsPacketType H = Response" "valid_lifetime T3 c"
    "regen_cookie E (UCfg U) c = Some (HsCookie H)" "bHandshakeComplete c"
    "ServerSequence c = cookie_seq (HsCookie H) 0" "ClientSequence c = cookie_seq (HsCookie H) 1"
    by simp_all
  then show ?thesis
    using H(1) inv assms(2)
    by (auto simp: valid_lifetime_def Let_def regen_cookie_def GenerateCookie_def GetHandShakeSecret_def server_inv_def COOKIE_BYTE_SIZE_def
        split: if_splits)
qed

definition demo_env :: UdpEnv where
  "demo_env = \<lparr>ESetting = (DriverSetting_init ModeServer ClientNone GameServer)\<lparr>SetHandshakeSecret := replicate 20 0\<rparr>,
     EHmac = \<lambda>_ m. replicate 19 7 @ [word_of_nat (length m)], ENameinfo = \<lambda>_. Some ''10.0.0.1''\<rparr>"

definition demo_server :: UdpConnectionProcessor where
  "demo_server = (UdpConnectionProcessor_ctor ProcServer)\<lparr>UCfg := default_cfg\<rparr>"

lemma demo_ok:
  "server_env demo_env" "server_run demo_env demo_server" "magic_ok (UCfg demo_server)" "ExpectedSessionId (UCfg demo_server) = 0"
  "UMode demo_server = ProcServer" "FindConnection (RemoteManager demo_server) k = None"
  "unat (ClientTimeId demo_server) < length (ClientCache (RemoteManager demo_server))"
proof -
  have "SetSupervisor (ESetting demo_env) (UdpConnectionProcessor_ctor ProcServer) = Some demo_server"
    by (simp add: SetSupervisor_def demo_env_def demo_server_def DriverSetting_init_def UdpConnectionProcessor_ctor_def default_cfg_def COOKIE_BYTE_SIZE_def
        del: replicate.simps)
  then show "server_run demo_env demo_server"
    by (rule server_run.start)
  show "server_env demo_env"
    by (simp add: server_env_def demo_env_def DriverSetting_init_def IsServer_def COOKIE_BYTE_SIZE_def)
  show "magic_ok (UCfg demo_server)"
    using default_cfg_ok by (simp add: demo_server_def)
  show "ExpectedSessionId (UCfg demo_server) = 0" "UMode demo_server = ProcServer" "FindConnection (RemoteManager demo_server) k = None"
    "unat (ClientTimeId demo_server) < length (ClientCache (RemoteManager demo_server))"
    by (simp_all add: demo_server_def UdpConnectionProcessor_ctor_def default_cfg_def PendingConnectionManager_ctor_def FindConnection_def Find_loop_None)
qed

text \<open>A client of the loopback address that answers the challenge within the same clock value.\<close>

lemma demo_admission:
  "\<exists>U r U' r' fx c. server_run demo_env U \<and> RHashKey r = MakeIPv4PortKeyFromStorage (RAddress r) \<and> RAddress r = loopback
     \<and> IncomingConnectionless demo_env U r 0 0 0 (replicate 9 5) 0 = Some (U', r', fx)
     \<and> AddClient (MakeIPv4PortKeyFromStorage loopback) c \<in> set fx"
proof -
  let ?x = "PendingRemoteConnection_ctor 0 0 0 loopback 0" and ?F = "replicate 9 (5 :: u8)" and ?ck = "cookie_of demo_env (UCfg demo_server) loopback 0"
  have F: "filler_ok ?F"
    by (simp add: filler_ok_def BaseRandomDataLengthBytes_def RandomDataLengthVarianceBytes_def)
  have x: "SessionId ?x = 0"
    by (simp add: PendingRemoteConnection_ctor_def)
  obtain e1 where "handshake_event (UCfg demo_server) e1 InitialPacket ?x 0 0 (replicate 20 0)"
    using Build_event [OF writes_Initial [OF demo_ok(3) F]] by blast
  from challenge_way [OF demo_ok(5-7,3,4) F demo_ok(1) this x, where ?T1.0 = 0 and ?T2.0 = 0 and ?T3.0 = 0 and NowUs = 0 and junk = "[]"]
  obtain r1 r1' S1 p y e2 where s1: "deliver e1 loopback [] = Some r1" "IncomingConnectionless demo_env demo_server r1 0 0 0 ?F 0 = Some (S1, r1', [SendToRemote loopback e2])"
    "FindConnection (RemoteManager S1) (MakeIPv4PortKeyFromStorage loopback) = Some p" "pending S1 p = Some y" "Address y = loopback" "CookieTime y = 0"
    "UCfg S1 = UCfg demo_server" "UMode S1 = UMode demo_server"
    by blast
  have key: "RHashKey r = MakeIPv4PortKeyFromStorage (RAddress r)" "RAddress r = loopback" if "deliver e loopback [] = Some r" for e r
    using that by (auto simp: deliver_def RecvPacketReader_ctor_def bind_eq_Some_conv)
  have run: "server_run demo_env S1"
    by (rule server_run.connectionless [OF demo_ok(2) key(1) [OF s1(1)] s1(2)])
  obtain e3 where e3: "handshake_event (UCfg S1) e3 Response ?x 1 0 (cookie_of demo_env (UCfg S1) loopback (CookieTime y))"
    using Build_event [OF writes_Cookie [OF demo_ok(3) F regen_cookie_ok(2) [OF demo_ok(1)]], where t = Response and Secret = 1 and c = ?x]
    unfolding s1(6,7) by blast
  have "dsub 0 0 = 0"
    by (simp add: dsub_def Let_def dneg_def dinf_def dexp_def dman_def)
  moreover have "dlt 0 (dsub MAX_COOKIE_LIFETIME 0)"
    by (subst dsub_positive)
      (simp_all add: dlt_def dnan_def dinf_def dneg_def dint_def dmag_def dexp_def dman_def MAX_COOKIE_LIFETIME_def)
  ultimately have T: "valid_lifetime 0 y"
    by (simp add: valid_lifetime_def s1(6) dle_def)
  have S1: "UMode S1 = ProcServer" "magic_ok (UCfg S1)" "ExpectedSessionId (UCfg S1) = 0"
    using demo_ok s1(7,8) by simp_all
  from admission_way [OF S1(1) s1(3-5) S1(2,3) F demo_ok(1) T e3 x, where ?T1.0 = 0 and ?T2.0 = 0 and NowUs = 0 and junk = "[]"]
  obtain r r' S' c e' where "deliver e3 loopback [] = Some r"
    "IncomingConnectionless demo_env S1 r 0 0 0 ?F 0 = Some (S', r', [AddClient (MakeIPv4PortKeyFromStorage loopback) c, SendToRemote loopback e'])"
    by blast
  with run key show ?thesis
    by (intro exI [of _ S1] exI [of _ r] exI [of _ S'] exI [of _ r'] exI conjI) auto
qed

theorem server_admits_only_cookie_holders_witness:
  "\<exists>U r U' r' fx c H. server_run demo_env U \<and> IncomingConnectionless demo_env U r 0 0 0 (replicate 9 5) 0 = Some (U', r', fx)
     \<and> AddClient (MakeIPv4PortKeyFromStorage loopback) c \<in> set fx \<and> received_handshake (UCfg U) (RHeader r) = Some H \<and> HsPacketType H = Response"
proof -
  obtain U r U' r' fx c where d: "server_run demo_env U" "RHashKey r = MakeIPv4PortKeyFromStorage (RAddress r)"
    "IncomingConnectionless demo_env U r 0 0 0 (replicate 9 5) 0 = Some (U', r', fx)" "AddClient (MakeIPv4PortKeyFromStorage loopback) c \<in> set fx"
    using demo_admission by blast
  from server_admits_only_cookie_holders [OF d] d show ?thesis
    by blast
qed

end
