(* ===== verification/ThreeWay.thy ===== *)
theory ThreeWay
  imports Handshake
begin

text \<open>
  The properties of the handshake: whom the server admits, what both sides agree on when the datagrams
  arrive, and that the exchange of handshake packets goes on afterwards.
\<close>

section \<open>The three ways\<close>

text \<open>
  A handshake whose datagrams all arrive: the values of the clocks (of the client, of the server when the
  first packet and when the response arrive), the random fillers, and what the receive buffers hold
  after a datagram.
\<close>

record HandshakeInputs =
  ClientNow :: u64
  ServerNow :: u64
  CookieNow :: u64
  CheckNow :: u64
  Filler :: "nat \<Rightarrow> u8 list"
  WireUs :: u64
  Junk :: "u8 list"

fun sent_packet :: "UdpEffect list \<Rightarrow> OutSendPacketEvent option" where
  "sent_packet [SendToRemote a e] = Some e"
| "sent_packet _ = None"

fun admitted :: "UdpEffect list \<Rightarrow> (u64 \<times> PendingRemoteConnection \<times> OutSendPacketEvent) option" where
  "admitted [AddClient k c, SendToRemote a e] = Some (k, c, e)"
| "admitted _ = None"

definition three_way :: "UdpEnv \<Rightarrow> UdpEnv \<Rightarrow> UdpConnectionProcessor \<Rightarrow> UdpConnectionProcessor \<Rightarrow> NetConnection \<Rightarrow> SockAddr \<Rightarrow> HandshakeInputs
    \<Rightarrow> (UdpConnectionProcessor \<times> NetConnection option \<times> UdpConnectionProcessor \<times> u64 \<times> PendingRemoteConnection \<times> UdpEffect list) option" where
  "three_way Ec Es C S s ca I = do {
     (C, fx) \<leftarrow> SendInitialPacket C (Some s) (ClientNow I) (Filler I 0) (WireUs I);
     e \<leftarrow> sent_packet fx;
     r \<leftarrow> deliver e ca (Junk I);
     (S, _, fx) \<leftarrow> IncomingConnectionless Es S r (ServerNow I) (ServerNow I) (CookieNow I) (Filler I 1) (WireUs I);
     e \<leftarrow> sent_packet fx;
     r \<leftarrow> deliver e (ConnAddr s) (Junk I);
     (C, sc, _, fx) \<leftarrow> Incoming Ec C (Some s) r (ClientNow I) (Filler I 2) (WireUs I);
     e \<leftarrow> sent_packet fx;
     r \<leftarrow> deliver e ca (Junk I);
     (S, _, fx) \<leftarrow> IncomingConnectionless Es S r (CheckNow I) (CheckNow I) (CheckNow I) (Filler I 3) (WireUs I);
     (k, c, e) \<leftarrow> admitted fx;
     r \<leftarrow> deliver e (ConnAddr s) (Junk I);
     (C, sc, _, fx) \<leftarrow> Incoming Ec C sc r (ClientNow I) (Filler I 4) (WireUs I);
     Some (C, sc, S, k, c, fx) }"

text \<open>Two processors and a client's connection that have not begun, and inputs under which the cookie is fresh.\<close>

definition handshake_ready :: "UdpEnv \<Rightarrow> UdpEnv \<Rightarrow> UdpConnectionProcessor \<Rightarrow> UdpConnectionProcessor \<Rightarrow> NetConnection \<Rightarrow> SockAddr \<Rightarrow> bool" where
  "handshake_ready Ec Es C S s ca \<longleftrightarrow>
     IsClient (ESetting Ec) \<and> server_env Es \<and> magic_ok (UCfg S) \<and> ExpectedSessionId (UCfg S) = 0
     \<and> (\<exists>key. UCfg C = (UCfg S)\<lparr>HandshakeSecret := key\<rparr>)
     \<and> UMode C = ProcClient \<and> UState C = ProcUnInitialized \<and> RemoteManager C = PendingConnectionManager_ctor
     \<and> UMode S = ProcServer \<and> FindConnection (RemoteManager S) (MakeIPv4PortKeyFromStorage ca) = None
     \<and> unat (ClientTimeId S) < length (ClientCache (RemoteManager S)) \<and> InPacketId s = - 1"

definition fresh_inputs :: "HandshakeInputs \<Rightarrow> bool" where
  "fresh_inputs I \<longleftrightarrow> (\<forall>i. filler_ok (Filler I i)) \<and> dlt 0 (CookieNow I) \<and> dle 0 (dsub (CheckNow I) (CookieNow I))
     \<and> dlt 0 (dsub MAX_COOKIE_LIFETIME (dsub (CheckNow I) (CookieNow I)))"

text \<open>The secret of a processor plays no part in the packets it writes and reads.\<close>

lemma secret_irrelevant:
  "magic_ok (cfg\<lparr>HandshakeSecret := key\<rparr>) = magic_ok cfg"
  "handshake_event (cfg\<lparr>HandshakeSecret := key\<rparr>) e t c Secret Time Cookie = handshake_event cfg e t c Secret Time Cookie"
  by (simp_all add: magic_ok_def handshake_event_def cookie_bits_def begin_bits_def flag_bits_def magic_bits_def)

lemma three_way_run:
  assumes R: "handshake_ready Ec Es C S s ca" and I: "fresh_inputs I" and ck: "ck = cookie_of Es (UCfg S) ca (CookieNow I)"
  shows "\<exists>C' S' c x p q y e x0 Sec. three_way Ec Es C S s ca I =
      Some (C', Some (fst (InitSequence s (uint (cookie_seq ck 0)) (uint (cookie_seq ck 1)))), S', MakeIPv4PortKeyFromStorage ca, c, [BeginNMTHello])
    \<and> UState C' = ProcInitialized \<and> UMode C' = ProcClient \<and> UCfg C' = UCfg C \<and> GetHashMapbyTimeId (RemoteManager C') 0 = Some [(0, p)] \<and> FindConnection (RemoteManager C') 0 = Some p
    \<and> pending C' p = Some x \<and> Address x = ConnAddr s \<and> holds_packet x e \<and> SessionId x0 = 0
    \<and> handshake_event (UCfg S) e Response x0 Sec (CookieNow I) ck
    \<and> UMode S' = ProcServer \<and> UCfg S' = UCfg S \<and> FindConnection (RemoteManager S') (MakeIPv4PortKeyFromStorage ca) = Some q
    \<and> pending S' q = Some y \<and> Address y = ca \<and> CookieTime y = CookieNow I \<and> HandshakePacketType y = HsAck
    \<and> Address c = ca \<and> ServerSequence c = cookie_seq ck 0 \<and> ClientSequence c = cookie_seq ck 1 \<and> bHandshakeComplete c"
proof -
  let ?k = "MakeIPv4PortKeyFromStorage ca"
  have fill: "filler_ok (Filler I i)" for i
    using I by (simp add: fresh_inputs_def)
  obtain key where Ck: "UCfg C = (UCfg S)\<lparr>HandshakeSecret := key\<rparr>"
    using R by (auto simp: handshake_ready_def)
  have E: "IsClient (ESetting Ec)" "server_env Es" and m: "magic_ok (UCfg S)" "magic_ok (UCfg C)" and z: "ExpectedSessionId (UCfg S) = 0"
    and s: "InPacketId s = - 1" and C: "UMode C = ProcClient" "FindConnection (RemoteManager C) 0 = None" "0 < length (ClientCache (RemoteManager C))"
    and U: "UState C = ProcUnInitialized"
    and S: "UMode S = ProcServer" "FindConnection (RemoteManager S) ?k = None" "unat (ClientTimeId S) < length (ClientCache (RemoteManager S))"
    and fresh: "RemoteManager C = PendingConnectionManager_ctor"
    using R by (auto simp: handshake_ready_def Ck secret_irrelevant FindConnection_def PendingConnectionManager_ctor_def Find_loop_None)
  have l: "length ck = 20"
    by (simp add: ck regen_cookie_ok(2) [OF E(2)])
  note same = secret_irrelevant(2) [where cfg = "UCfg S" and key = key, folded Ck]
  obtain C1 p x1 e1 where c1: "SendInitialPacket C (Some s) (ClientNow I) (Filler I 0) (WireUs I) = Some (C1, [SendToRemote (ConnAddr s) e1])"
    "FindConnection (RemoteManager C1) 0 = Some p" "pending C1 p = Some x1" "SessionId x1 = 0"
    "ClientCache (RemoteManager C1) = (ClientCache (RemoteManager C))[0 := ClientCache (RemoteManager C) ! 0 @ [(0, p)]]" "Address x1 = ConnAddr s"
    "UCfg C1 = UCfg C" "UMode C1 = UMode C" "UState C1 = UState C" "handshake_event (UCfg C) e1 InitialPacket x1 0 0 (replicate 20 0)"
    using client_starts [OF C m(2) fill] by blast
  obtain r1 r1' S1 q y1 e2 where s1: "deliver e1 ca (Junk I) = Some r1"
    "IncomingConnectionless Es S r1 (ServerNow I) (ServerNow I) (CookieNow I) (Filler I 1) (WireUs I) = Some (S1, r1', [SendToRemote ca e2])"
    "FindConnection (RemoteManager S1) ?k = Some q" "pending S1 q = Some y1" "Address y1 = ca" "CookieTime y1 = CookieNow I"
    "UCfg S1 = UCfg S" "UMode S1 = UMode S" "handshake_event (UCfg S) e2 Challenge y1 (ActiveSecret (ESetting Es)) (CookieNow I) ck"
    using challenge_way [OF S m(1) z fill E(2) c1(10) [unfolded same] c1(4)] ck by blast
  have C1: "UMode C1 = ProcClient" "UState C1 = ProcUnInitialized \<or> UState C1 = ProcInitializedOnLocal" "magic_ok (UCfg C1)"
    "handshake_event (UCfg C1) e2 Challenge y1 (ActiveSecret (ESetting Es)) (CookieNow I) ck" "dlt 0 (CookieNow I)"
    using c1 C(1) U m(2) s1(9) same I by (simp_all add: fresh_inputs_def)
  obtain r2 r2' C2 x2 e3 Sec where c2: "deliver e2 (ConnAddr s) (Junk I) = Some r2"
    "Incoming Ec C1 (Some s) r2 (ClientNow I) (Filler I 2) (WireUs I) = Some (C2, Some s, r2', [SendToRemote (ConnAddr s) e3])"
    "FindConnection (RemoteManager C2) 0 = Some p" "pending C2 p = Some x2" "holds_packet x2 e3" "SessionId x2 = SessionId x1" "Address x2 = Address x1"
    "ClientCache (RemoteManager C2) = ClientCache (RemoteManager C1)"
    "UCfg C2 = UCfg C1" "UMode C2 = UMode C1" "UState C2 = ProcInitializedOnLocal" "handshake_event (UCfg C1) e3 Response x2 Sec (CookieNow I) ck"
    using response_way [OF C1(1,2) c1(2,3) C1(3) fill E(1) C1(4) l C1(5)] by blast
  have S1: "UMode S1 = ProcServer" "magic_ok (UCfg S1)" "ExpectedSessionId (UCfg S1) = 0" "valid_lifetime (CheckNow I) y1" "SessionId x2 = 0"
    "handshake_event (UCfg S1) e3 Response x2 Sec (CookieNow I) (cookie_of Es (UCfg S1) ca (CookieTime y1))"
    using s1 S(1) m z c2(6,12) c1(4,7) same ck I by (simp_all add: fresh_inputs_def valid_lifetime_def)
  obtain r3 r3' S2 c y2 e4 where s2: "deliver e3 ca (Junk I) = Some r3"
    "IncomingConnectionless Es S1 r3 (CheckNow I) (CheckNow I) (CheckNow I) (Filler I 3) (WireUs I) = Some (S2, r3', [AddClient ?k c, SendToRemote ca e4])"
    "Address c = ca" "bHandshakeComplete c" "ServerSequence c = cookie_seq ck 0" "ClientSequence c = cookie_seq ck 1"
    "FindConnection (RemoteManager S2) ?k = Some q" "pending S2 q = Some y2" "Address y2 = ca" "CookieTime y2 = CookieNow I" "HandshakePacketType y2 = HsAck"
    "UCfg S2 = UCfg S" "UMode S2 = UMode S1" "handshake_event (UCfg S) e4 HsAck y2 1 minus_one ck"
    using admission_way [OF S1(1) s1(3,4,5) S1(2,3) fill E(2) S1(4,6,5)] ck unfolding s1(6,7) by blast
  have C2: "UMode C2 = ProcClient" "magic_ok (UCfg C2)" "handshake_event (UCfg C2) e4 HsAck y2 1 minus_one ck"
    using c1(7,8) c2(9,10) C(1) m(2) s2(14) same by simp_all
  obtain r4 r4' C3 x3 where c3: "deliver e4 (ConnAddr s) (Junk I) = Some r4" "Incoming Ec C2 (Some s) r4 (ClientNow I) (Filler I 4) (WireUs I) =
      Some (C3, Some (fst (InitSequence s (uint (cookie_seq ck 0)) (uint (cookie_seq ck 1)))), r4', [BeginNMTHello])"
    "UState C3 = ProcInitialized" "UCfg C3 = UCfg C2" "UMode C3 = UMode C2" "FindConnection (RemoteManager C3) 0 = Some p"
    "ClientCache (RemoteManager C3) = ClientCache (RemoteManager C2)"
    "pending C3 p = Some x3" "LastReadyPacket x3 = LastReadyPacket x2" "Address x3 = Address x2"
    using finish_way [OF C2(1) c2(11,3,4) C2(2) E(1) s C2(3) l] by blast
  have "three_way Ec Es C S s ca I = Some (C3, Some (fst (InitSequence s (uint (cookie_seq ck 0)) (uint (cookie_seq ck 1)))), S2, ?k, c, [BeginNMTHello])"
    by (simp add: three_way_def c1(1) s1(1) s1(2) [simplified] c2(1,2) s2(1,2) c3(1,2))
  moreover have "handshake_event (UCfg S) e3 Response x2 Sec (CookieNow I) ck" "holds_packet x3 e3"
    using c2(5,12) c1(7) same c3(9) by (simp_all add: holds_packet_def)
  moreover have cache: "GetHashMapbyTimeId (RemoteManager C3) 0 = Some [(0, p)]"
    using C(3) by (simp add: GetHashMapbyTimeId_def rd_def c1(5) c2(8) c3(7) fresh) (simp add: PendingConnectionManager_ctor_def del: replicate.simps)
  ultimately show ?thesis
    using c1(6-8) c2(7,9,10) c3(3-6,8-) s1(8) s2(3-13) S(1) C(1) S1(5)
    by (intro exI [of _ C3] exI [of _ S2] exI [of _ c] exI [of _ x3] exI [of _ p] exI [of _ q] exI [of _ y2] exI [of _ e3] exI [of _ x2] exI [of _ Sec]) simp
qed

lemma cookie_seq_small: "uint (cookie_seq ck i) < 256"
proof -
  have "uint (cookie_seq ck i) \<le> uint (ucast (ck ! i) :: u32)"
    unfolding cookie_seq_def by (simp add: uint_and AND_upper1)
  also have "\<dots> = uint (ck ! i)"
    using uint_lt2p [of "ck ! i"] by (simp add: unsigned_ucast_eq take_bit_int_eq_self)
  also have "\<dots> < 256"
    using uint_lt2p [of "ck ! i"] by simp
  finally show ?thesis .
qed

text \<open>
  C11. When the datagrams of a handshake arrive and the response comes within the lifetime of the cookie,
  the handshake completes: the client is initialised, the server admits exactly the client's address,
  and the sequence numbers mirror each other: the connection the server makes (which starts from
  \<open>InitSequence\<close> with the two numbers of the admitted client) sends what the client expects and
  expects what the client sends, for packets and for the channels. Each number is one byte of the
  cookie, so it is below 256.
\<close>

theorem handshake_completes:
  assumes "handshake_ready Ec Es C S s ca" and "fresh_inputs I"
  shows "\<exists>C' s' S' c. three_way Ec Es C S s ca I = Some (C', Some s', S', MakeIPv4PortKeyFromStorage ca, c, [BeginNMTHello])
    \<and> UState C' = ProcInitialized \<and> Address c = ca \<and> bHandshakeComplete c
    \<and> InPacketId s' = uint (ServerSequence c) - 1 \<and> COutPacketId s' = uint (ClientSequence c)
    \<and> (\<forall>conn. InPacketId conn = - 1 \<longrightarrow> (case InitSequence conn (uint (ClientSequence c)) (uint (ServerSequence c)) of (n, ok) \<Rightarrow>
         ok \<and> COutPacketId n = InPacketId s' + 1 \<and> COutPacketId s' = InPacketId n + 1
         \<and> InitOutReliable n = InitInReliable s' \<and> InitInReliable n = InitOutReliable s'))
    \<and> uint (ServerSequence c) < 256 \<and> uint (ClientSequence c) < 256"
proof -
  have s: "InPacketId s = - 1"
    using assms(1) by (simp add: handshake_ready_def)
  from three_way_run [OF assms refl] s show ?thesis
    by (fastforce simp: InitSequence_def Let_def cookie_seq_small)
qed

section \<open>Afterwards\<close>

text \<open>
  One second later: the client's update, the server's answer to what it sends, and what the client makes
  of the answer. The effects of the three handlers are collected.
\<close>

definition resend_round :: "UdpEnv \<Rightarrow> UdpEnv \<Rightarrow> UdpConnectionProcessor \<Rightarrow> UdpConnectionProcessor \<Rightarrow> NetConnection \<Rightarrow> SockAddr \<Rightarrow> HandshakeInputs
    \<Rightarrow> (UdpConnectionProcessor \<times> UdpConnectionProcessor \<times> UdpEffect list) option" where
  "resend_round Ec Es C S s ca I = do {
     (C, fx1) \<leftarrow> ConnectionsUpdate Ec C 0 (ClientNow I);
     e \<leftarrow> sent_packet fx1;
     r \<leftarrow> deliver e ca (Junk I);
     (S, _, _, fx2) \<leftarrow> Incoming Es S None r (ServerNow I) (Filler I 0) (WireUs I);
     e \<leftarrow> sent_packet fx2;
     r \<leftarrow> deliver e (ConnAddr s) (Junk I);
     (C, _, _, fx3) \<leftarrow> Incoming Ec C (Some s) r (ClientNow I) (Filler I 1) (WireUs I);
     Some (C, S, fx1 @ fx2 @ fx3) }"

fun resend_rounds :: "UdpEnv \<Rightarrow> UdpEnv \<Rightarrow> UdpConnectionProcessor \<Rightarrow> UdpConnectionProcessor \<Rightarrow> NetConnection \<Rightarrow> SockAddr \<Rightarrow> HandshakeInputs list
    \<Rightarrow> (UdpConnectionProcessor \<times> UdpConnectionProcessor \<times> UdpEffect list) option" where
  "resend_rounds Ec Es C S s ca [] = Some (C, S, [])"
| "resend_rounds Ec Es C S s ca (I # Is) = do {
     (C, S, fx) \<leftarrow> resend_round Ec Es C S s ca I;
     (C, S, fxs) \<leftarrow> resend_rounds Ec Es C S s ca Is;
     Some (C, S, fx @ fxs) }"

text \<open>Both sides after a completed handshake with cookie \<open>ck\<close> of time \<open>T\<close>; \<open>y\<close> is the server's entry.\<close>

definition chatting :: "UdpEnv \<Rightarrow> UdpEnv \<Rightarrow> UdpConnectionProcessor \<Rightarrow> UdpConnectionProcessor \<Rightarrow> NetConnection \<Rightarrow> SockAddr \<Rightarrow> PendingRemoteConnection \<Rightarrow> bool" where
  "chatting Ec Es C S s ca y \<longleftrightarrow>
     IsClient (ESetting Ec) \<and> server_env Es \<and> magic_ok (UCfg S) \<and> (\<exists>key. UCfg C = (UCfg S)\<lparr>HandshakeSecret := key\<rparr>)
     \<and> UMode C = ProcClient \<and> UState C = ProcInitialized \<and> UMode S = ProcServer
     \<and> (\<exists>p x e x0 Sec T. GetHashMapbyTimeId (RemoteManager C) 0 = Some [(0, p)] \<and> FindConnection (RemoteManager C) 0 = Some p
          \<and> pending C p = Some x \<and> Address x = ConnAddr s \<and> holds_packet x e
          \<and> handshake_event (UCfg S) e Response x0 Sec T (cookie_of Es (UCfg S) ca (CookieTime y)))
     \<and> (\<exists>q. FindConnection (RemoteManager S) (MakeIPv4PortKeyFromStorage ca) = Some q \<and> pending S q = Some y)
     \<and> Address y = ca \<and> HandshakePacketType y = HsAck"

lemma GetHashMap_put: "GetHashMapbyTimeId (RemoteManager (put_pending U p c)) t = GetHashMapbyTimeId (RemoteManager U) t"
  by (simp add: GetHashMapbyTimeId_def)

lemma client_resends:
  assumes E: "IsClient (ESetting Ec)" and C: "GetHashMapbyTimeId (RemoteManager C) 0 = Some [(0, p)]" "pending C p = Some x" "holds_packet x e"
  shows "\<exists>x'. ConnectionsUpdate Ec C i Now =
      Some ((put_pending C p x')\<lparr>ClientTimeId := next_time_id (ClientTimeId C)\<rparr>, [SendToRemote (Address x) e])
    \<and> holds_packet x' e \<and> Address x' = Address x"
proof -
  obtain pk where pk: "LastReadyPacket x = Some pk" "OutSendPacketEvent_Create pk = Some e"
    using C(3) by (auto simp: holds_packet_def)
  have "\<not> IsServer (ESetting Ec)"
    using E by (simp add: IsServer_def IsClient_def)
  then show ?thesis
    using E C pk
    by (auto simp: ConnectionsUpdate_def ResendHandshake_def PrepLastHandshakePacket_def on_pending_put holds_packet_def PrepLastSendPacket_def)
qed

lemma server_answers:
  assumes S: "UMode S = ProcServer" "FindConnection (RemoteManager S) (MakeIPv4PortKeyFromStorage ca) = Some q" "pending S q = Some y"
      "Address y = ca" "HandshakePacketType y = HsAck" and cfg: "magic_ok (UCfg S)" "filler_ok Rand" and E: "server_env Es"
    and e: "handshake_event (UCfg S) e Response x0 Sec T (cookie_of Es (UCfg S) ca (CookieTime y))"
  shows "\<exists>r r' S' y' e'. deliver e ca junk = Some r \<and> Incoming Es S None r Now Rand NowUs = Some (S', None, r', [SendToRemote ca e'])
    \<and> UMode S' = ProcServer \<and> UCfg S' = UCfg S \<and> FindConnection (RemoteManager S') (MakeIPv4PortKeyFromStorage ca) = Some q \<and> pending S' q = Some y'
    \<and> Address y' = ca \<and> HandshakePacketType y' = HsAck \<and> CookieTime y' = CookieTime y \<and> LastActivityTime y' = Now
    \<and> handshake_event (UCfg S) e' HsAck y' 1 minus_one (cookie_of Es (UCfg S) ca (CookieTime y))"
proof -
  let ?ck = "cookie_of Es (UCfg S) ca (CookieTime y)" and ?y = "Touch Now y"
  let ?H = "parsed (ucast (HandshakeTryCount x0)) Response Sec T ?ck" and ?S = "put_pending S q (Touch Now y)"
  have l: "length ?ck = 20"
    by (rule regen_cookie_ok(2) [OF E])
  have key: "FindConnection (RemoteManager S) (if IsServer (ESetting Es) then MakeIPv4PortKeyFromStorage ca else 0) = Some q"
    using S(2) E by (simp add: server_env_def)
  obtain r r' where r: "deliver e ca junk = Some r" "Incoming Es S None r Now Rand NowUs =
      (ServerResendAck Es ?S ?H q Rand NowUs \<bind> (\<lambda>(U, fx). Some (U, None, fx)) \<bind> (\<lambda>(U, ServerConn, fx). Some (U, ServerConn, r', fx)))"
    using Incoming_deliver [OF cfg(1) l _ e key S(3), of junk None Now Rand NowUs] S(1) by auto
  have y: "pending ?S q = Some ?y" "magic_ok (UCfg ?S)" "Address ?y = ca" "HandshakePacketType ?y = HsAck" "regen_cookie Es (UCfg ?S) ?y = Some ?ck"
    "HsPacketType ?H = Response" "HsCookie ?H = ?ck"
    using S cfg by (simp_all add: Touch_def regen_cookie_ok [OF E] parsed_def)
  obtain pk e' where e': "SendHandshake (HandshakePacket_Cookie (UCfg ?S) Rand HsAck ?y 1 minus_one ?ck) ?S q ca NowUs
      = Some (put_pending ?S q (PrepLastSendPacket pk ?y), [SendToRemote ca e'])" "handshake_event (UCfg ?S) e' HsAck ?y 1 minus_one ?ck"
    using SendHandshake_ok [OF writes_Cookie [OF y(2) cfg(2) l] y(1)] by blast
  let ?y' = "PrepLastSendPacket pk ?y"
  have "ServerResendAck Es ?S ?H q Rand NowUs = Some (put_pending S q ?y', [SendToRemote ca e'])"
    using y e'(1) by (simp add: ServerResendAck_def SendChallengeAck_def)
  moreover have "handshake_event (UCfg S) e' HsAck ?y' 1 minus_one ?ck"
    using e'(2) by (subst event_same_header [where c = ?y]) (simp_all add: PrepLastSendPacket_def)
  ultimately show ?thesis
    using r S by (intro exI [of _ r] exI [of _ r'] exI [of _ "put_pending S q ?y'"] exI [of _ ?y'] exI [of _ e'])
      (simp add: pending_updates)
qed

lemma ClientTimeId_update:
  "pending (U\<lparr>ClientTimeId := t\<rparr>) p = pending U p" "UCfg (U\<lparr>ClientTimeId := t\<rparr>) = UCfg U"
  "RemoteManager (U\<lparr>ClientTimeId := t\<rparr>) = RemoteManager U"
  by (simp_all add: pending_def)

text \<open>A response and an acknowledgement with the cookie of the handshake.\<close>

definition repeats :: "UdpConfig \<Rightarrow> u8 list \<Rightarrow> OutSendPacketEvent \<Rightarrow> OutSendPacketEvent \<Rightarrow> bool" where
  "repeats cfg ck e e' \<longleftrightarrow> (\<exists>x Sec T. handshake_event cfg e Response x Sec T ck) \<and> (\<exists>y. handshake_event cfg e' HsAck y 1 minus_one ck)"

lemma round_chats:
  assumes ch: "chatting Ec Es C S s ca y" and fill: "\<And>i. filler_ok (Filler I i)"
  shows "\<exists>C' S' y' e e'. resend_round Ec Es C S s ca I = Some (C', S', [SendToRemote (ConnAddr s) e, SendToRemote ca e'])
    \<and> chatting Ec Es C' S' s ca y' \<and> LastActivityTime y' = ServerNow I \<and> CookieTime y' = CookieTime y \<and> UCfg S' = UCfg S
    \<and> repeats (UCfg S) (cookie_of Es (UCfg S) ca (CookieTime y)) e e'"
proof -
  obtain key where Ck: "UCfg C = (UCfg S)\<lparr>HandshakeSecret := key\<rparr>"
    using ch by (auto simp: chatting_def)
  note same = secret_irrelevant(2) [where cfg = "UCfg S" and key = key, folded Ck]
  obtain p x e x0 Sec T q where E: "IsClient (ESetting Ec)" "server_env Es" and m: "magic_ok (UCfg S)" "magic_ok (UCfg C)"
    and C: "UMode C = ProcClient" "UState C = ProcInitialized" "GetHashMapbyTimeId (RemoteManager C) 0 = Some [(0, p)]"
      "FindConnection (RemoteManager C) 0 = Some p" "pending C p = Some x" "Address x = ConnAddr s" "holds_packet x e"
    and ev: "handshake_event (UCfg S) e Response x0 Sec T (cookie_of Es (UCfg S) ca (CookieTime y))"
    and S: "UMode S = ProcServer" "FindConnection (RemoteManager S) (MakeIPv4PortKeyFromStorage ca) = Some q" "pending S q = Some y"
      "Address y = ca" "HandshakePacketType y = HsAck"
    using ch by (auto simp: chatting_def Ck secret_irrelevant)
  let ?t = "next_time_id (ClientTimeId C)"
  obtain x1 where c1: "ConnectionsUpdate Ec C 0 (ClientNow I) = Some ((put_pending C p x1)\<lparr>ClientTimeId := ?t\<rparr>, [SendToRemote (Address x) e])"
    "holds_packet x1 e" "Address x1 = Address x"
    using client_resends [OF E(1) C(3,5,7)] by blast
  obtain r r' S1 y1 e1 where s1: "deliver e ca (Junk I) = Some r"
    "Incoming Es S None r (ServerNow I) (Filler I 0) (WireUs I) = Some (S1, None, r', [SendToRemote ca e1])"
    "UMode S1 = ProcServer" "UCfg S1 = UCfg S" "FindConnection (RemoteManager S1) (MakeIPv4PortKeyFromStorage ca) = Some q" "pending S1 q = Some y1"
    "Address y1 = ca" "HandshakePacketType y1 = HsAck" "CookieTime y1 = CookieTime y" "LastActivityTime y1 = ServerNow I"
    "handshake_event (UCfg S) e1 HsAck y1 1 minus_one (cookie_of Es (UCfg S) ca (CookieTime y))"
    using server_answers [OF S m(1) fill E(2) ev] by blast
  let ?C1 = "(put_pending C p x1)\<lparr>ClientTimeId := ?t\<rparr>"
  have C1: "magic_ok (UCfg ?C1)" "handshake_event (UCfg ?C1) e1 HsAck y1 1 minus_one (cookie_of Es (UCfg S) ca (CookieTime y))"
    "FindConnection (RemoteManager ?C1) (if IsServer (ESetting Ec) then MakeIPv4PortKeyFromStorage (ConnAddr s) else 0) = Some p" "pending ?C1 p = Some x1"
    using m s1(11) same C(4,5) E(1) by (simp_all add: ClientTimeId_update IsServer_def IsClient_def)
  let ?C2 = "put_pending ?C1 p (Touch (ClientNow I) x1)"
  obtain r2 r2' where c2: "deliver e1 (ConnAddr s) (Junk I) = Some r2"
    "Incoming Ec ?C1 (Some s) r2 (ClientNow I) (Filler I 1) (WireUs I) = Some (?C2, Some s, r2', [])"
    using Incoming_deliver [OF C1(1) regen_cookie_ok(2) [OF E(2)] _ C1(2,3,4), of "Junk I" "Some s" "ClientNow I" "Filler I 1" "WireUs I"] C(1,2)
    by (auto simp: ClientHandshake_def)
  have "resend_round Ec Es C S s ca I = Some (?C2, S1, [SendToRemote (ConnAddr s) e, SendToRemote ca e1])"
    using C(6) by (simp add: resend_round_def c1(1) s1(1,2) c2(1) c2(2) [simplified])
  moreover have "chatting Ec Es ?C2 S1 s ca y1"
  proof -
    have "pending ?C2 p = Some (Touch (ClientNow I) x1)" "holds_packet (Touch (ClientNow I) x1) e" "Address (Touch (ClientNow I) x1) = ConnAddr s"
      using C1(4) c1(2,3) C(6) by (simp_all add: holds_packet_def Touch_def)
    moreover have "handshake_event (UCfg S1) e Response x0 Sec T (cookie_of Es (UCfg S1) ca (CookieTime y1))"
      using ev s1(4,9) by simp
    moreover have "UCfg ?C2 = (UCfg S1)\<lparr>HandshakeSecret := key\<rparr>"
      using Ck s1(4) by simp
    ultimately show ?thesis
      unfolding chatting_def using E m(1) C(1-4) s1(3-8) by (auto simp: GetHashMap_put ClientTimeId_update)
  qed
  moreover have "repeats (UCfg S) (cookie_of Es (UCfg S) ca (CookieTime y)) e e1"
    unfolding repeats_def using ev s1(11) by blast
  ultimately show ?thesis
    using s1(4,9,10) by blast
qed

definition round_effects :: "SockAddr \<Rightarrow> SockAddr \<Rightarrow> (OutSendPacketEvent \<times> OutSendPacketEvent) list \<Rightarrow> UdpEffect list" where
  "round_effects sa ca es = concat (map (\<lambda>(e, e'). [SendToRemote sa e, SendToRemote ca e']) es)"

lemma chatting_entry:
  "chatting Ec Es C S s ca y \<Longrightarrow> \<exists>q. FindConnection (RemoteManager S) (MakeIPv4PortKeyFromStorage ca) = Some q \<and> pending S q = Some y \<and> server_env Es"
  unfolding chatting_def by blast

lemma rounds_chat:
  assumes "chatting Ec Es C S s ca y" and "\<And>I i. I \<in> set Is \<Longrightarrow> filler_ok (Filler I i)"
  shows "\<exists>C' S' es y'. resend_rounds Ec Es C S s ca Is = Some (C', S', round_effects (ConnAddr s) ca es) \<and> chatting Ec Es C' S' s ca y'
    \<and> length es = length Is \<and> (\<forall>(e, e')\<in>set es. repeats (UCfg S) (cookie_of Es (UCfg S) ca (CookieTime y)) e e')
    \<and> (Is \<noteq> [] \<longrightarrow> LastActivityTime y' = ServerNow (last Is))"
  using assms
proof (induction Is arbitrary: C S y)
  case Nil
  then show ?case by (auto simp: round_effects_def intro!: exI [of _ "[]"])
next
  case (Cons I Is)
  have "\<And>i. filler_ok (Filler I i)"
    using Cons.prems(2) by simp
  from round_chats [OF Cons.prems(1) this] obtain C1 S1 y1 e e' where
    1: "resend_round Ec Es C S s ca I = Some (C1, S1, [SendToRemote (ConnAddr s) e, SendToRemote ca e'])"
    "chatting Ec Es C1 S1 s ca y1" "LastActivityTime y1 = ServerNow I" "CookieTime y1 = CookieTime y" "UCfg S1 = UCfg S"
    "repeats (UCfg S) (cookie_of Es (UCfg S) ca (CookieTime y)) e e'"
    by blast
  have rest: "filler_ok (Filler J i)" if "J \<in> set Is" for J i
    using Cons.prems(2) that by simp
  obtain C' S' es y' where 2: "resend_rounds Ec Es C1 S1 s ca Is = Some (C', S', round_effects (ConnAddr s) ca es)" "chatting Ec Es C' S' s ca y'"
    "length es = length Is" "\<forall>(e, e')\<in>set es. repeats (UCfg S) (cookie_of Es (UCfg S) ca (CookieTime y)) e e'"
    "Is \<noteq> [] \<longrightarrow> LastActivityTime y' = ServerNow (last Is)"
    using Cons.IH [OF 1(2) rest] unfolding 1(4,5) by blast
  have "resend_rounds Ec Es C S s ca (I # Is) = Some (C', S', round_effects (ConnAddr s) ca ((e, e') # es))"
    using 1(1) 2(1) by (simp add: round_effects_def)
  moreover have "LastActivityTime y' = ServerNow (last (I # Is))"
  proof (cases "Is = []")
    case True
    then have "S' = S1"
      using 2(1) by simp
    then have "y' = y1"
      using chatting_entry [OF 1(2)] chatting_entry [OF 2(2)] by auto
    then show ?thesis
      using True 1(3) by simp
  next
    case False
    then show ?thesis
      using 2(5) by simp
  qed
  moreover have "length ((e, e') # es) = length (I # Is)"
    using 2(3) by simp
  moreover have "\<forall>(e, e')\<in>set ((e, e') # es). repeats (UCfg S) (cookie_of Es (UCfg S) ca (CookieTime y)) e e'"
    using 1(6) 2(4) by simp
  ultimately show ?case
    using 2(2) by blast
qed

text \<open>A sweep of the server keeps the entries that are not due.\<close>

lemma Kill_loop_keeps:
  assumes "Kill_loop ps Now T c = Some (c', ids)" "map_of c k = Some p" "\<not> dle T (dsub Now (LastActivityTime (ps ! p)))"
  shows "map_of c' k = Some p"
  using assms
  by (induction c arbitrary: c' ids) (auto simp: bind_eq_Some_conv rd_def split: if_splits)

lemma Kill_loop_none: "Kill_loop ps Now T c = Some (c', ids) \<Longrightarrow> map_of c k = None \<Longrightarrow> map_of c' k = None"
  by (induction c arbitrary: c' ids) (auto simp: bind_eq_Some_conv split: if_splits)

lemma Find_loop_update:
  "Find_loop cs k = Some p \<Longrightarrow> (map_of (cs ! i) k = None \<Longrightarrow> map_of c' k = None) \<Longrightarrow> (map_of (cs ! i) k = Some p \<Longrightarrow> map_of c' k = Some p)
    \<Longrightarrow> Find_loop (cs[i := c']) k = Some p"
proof (induction cs arbitrary: i)
  case (Cons c cs)
  show ?case
  proof (cases i)
    case 0
    then show ?thesis
      using Cons.prems by (cases "map_of c k") auto
  next
    case (Suc m)
    then show ?thesis
      using Cons.IH [of m] Cons.prems by (cases "map_of c k") auto
  qed
qed simp

lemma sweep_keeps_active:
  assumes u: "ConnectionsUpdate Es S t Now = Some (S', fx)" and E: "server_env Es" and f: "FindConnection (RemoteManager S) k = Some q"
    and y: "pending S q = Some y" "\<not> dle (PendingInactivityTimeoutSec (ESetting Es)) (dsub Now (LastActivityTime y))"
  shows "FindConnection (RemoteManager S') k = Some q"
proof -
  have sv: "IsServer (ESetting Es)" "\<not> IsClient (ESetting Es)"
    using E by (auto simp: server_env_def IsServer_def IsClient_def)
  obtain m a where m: "TimeKillEvent (RemoteManager S) t (PendingClientIDManager S) Now (PendingInactivityTimeoutSec (ESetting Es)) = Some (m, a)"
    "RemoteManager S' = m"
    using u sv by (auto simp: ConnectionsUpdate_def ResendHandshake_def bind_eq_Some_conv)
  let ?m = "RemoteManager S" and ?i = "unat t"
  obtain c' ids where c': "Kill_loop (PStore ?m) Now (PendingInactivityTimeoutSec (ESetting Es)) (ClientCache ?m ! ?i) = Some (c', ids)"
    "ClientCache m = (ClientCache ?m)[?i := c']"
    using m(1) by (auto simp: TimeKillEvent_def bind_eq_Some_conv rd_def wr_def split: if_splits)
  have "PStore ?m ! q = y"
    using y(1) by (auto simp: pending_def pget_def rd_def split: if_splits)
  then have "Find_loop (ClientCache m) k = Some q"
    using f y(2) unfolding c'(2) FindConnection_def
    by (intro Find_loop_update) (auto intro: Kill_loop_none [OF c'(1)] Kill_loop_keeps [OF c'(1)])
  then show ?thesis
    by (simp add: FindConnection_def m(2))
qed

lemma ConnAddr_InitSequence: "ConnAddr (fst (InitSequence s a b)) = ConnAddr s"
  by (simp add: InitSequence_def Let_def)

text \<open>
  C38. The handshake packets never stop: after a completed handshake every update of the client sends a
  response with the cookie of the handshake to the server's address and the server answers it with one more
  acknowledgement to the client's address (while the datagrams arrive), for any number of updates. Each of
  them renews the time of the server's entry, so that no sweep removes the entry until the time allowed has
  passed since the last of them.
\<close>

theorem handshake_packets_never_stop:
  assumes "handshake_ready Ec Es C S s ca" and "fresh_inputs I" and "\<forall>J\<in>set Is. \<forall>i. filler_ok (Filler J i)"
  shows "\<exists>C1 s1 S1 k c fx C2 S2 es. three_way Ec Es C S s ca I = Some (C1, Some s1, S1, k, c, fx)
    \<and> resend_rounds Ec Es C1 S1 s1 ca Is = Some (C2, S2, concat (map (\<lambda>(e, e'). [SendToRemote (ConnAddr s) e, SendToRemote ca e']) es))
    \<and> length es = length Is
    \<and> (\<forall>(e, e')\<in>set es. (\<exists>x Sec T. handshake_event (UCfg S) e Response x Sec T (cookie_of Es (UCfg S) ca (CookieNow I)))
         \<and> (\<exists>y. handshake_event (UCfg S) e' HsAck y 1 minus_one (cookie_of Es (UCfg S) ca (CookieNow I))))
    \<and> (Is \<noteq> [] \<longrightarrow> (\<exists>q. FindConnection (RemoteManager S2) k = Some q
         \<and> (\<forall>t Now S3 fx3. ConnectionsUpdate Es S2 t Now = Some (S3, fx3)
              \<and> \<not> dle (PendingInactivityTimeoutSec (ESetting Es)) (dsub Now (ServerNow (last Is)))
              \<longrightarrow> FindConnection (RemoteManager S3) k = Some q)))"
proof -
  let ?ck = "cookie_of Es (UCfg S) ca (CookieNow I)"
  let ?s = "fst (InitSequence s (uint (cookie_seq ?ck 0)) (uint (cookie_seq ?ck 1)))"
  obtain C1 S1 c x p q y e x0 Sec where run: "three_way Ec Es C S s ca I = Some (C1, Some ?s, S1, MakeIPv4PortKeyFromStorage ca, c, [BeginNMTHello])"
    and C1: "UState C1 = ProcInitialized" "UMode C1 = ProcClient" "UCfg C1 = UCfg C" "GetHashMapbyTimeId (RemoteManager C1) 0 = Some [(0, p)]"
      "FindConnection (RemoteManager C1) 0 = Some p" "pending C1 p = Some x" "Address x = ConnAddr s" "holds_packet x e"
      "handshake_event (UCfg S) e Response x0 Sec (CookieNow I) ?ck"
    and S1: "UMode S1 = ProcServer" "UCfg S1 = UCfg S" "FindConnection (RemoteManager S1) (MakeIPv4PortKeyFromStorage ca) = Some q"
      "pending S1 q = Some y" "Address y = ca" "CookieTime y = CookieNow I" "HandshakePacketType y = HsAck"
    using three_way_run [OF assms(1,2) refl] by blast
  have "chatting Ec Es C1 S1 ?s ca y"
    using assms(1) C1 S1 unfolding chatting_def handshake_ready_def by (auto simp: ConnAddr_InitSequence)
  from rounds_chat [OF this, of Is] assms(3) obtain C2 S2 es y' where
    r: "resend_rounds Ec Es C1 S1 ?s ca Is = Some (C2, S2, round_effects (ConnAddr s) ca es)" "chatting Ec Es C2 S2 ?s ca y'" "length es = length Is"
    "\<forall>(e, e')\<in>set es. repeats (UCfg S) ?ck e e'" "Is \<noteq> [] \<longrightarrow> LastActivityTime y' = ServerNow (last Is)"
    unfolding S1(2,6) ConnAddr_InitSequence by blast
  obtain q' where q': "FindConnection (RemoteManager S2) (MakeIPv4PortKeyFromStorage ca) = Some q'" "pending S2 q' = Some y'" "server_env Es"
    using chatting_entry [OF r(2)] by blast
  have "FindConnection (RemoteManager S3) (MakeIPv4PortKeyFromStorage ca) = Some q'"
    if "Is \<noteq> []" "ConnectionsUpdate Es S2 t Now = Some (S3, fx3)" "\<not> dle (PendingInactivityTimeoutSec (ESetting Es)) (dsub Now (ServerNow (last Is)))"
    for t Now S3 fx3
    using sweep_keeps_active [OF that(2) q'(3,1,2)] that(1,3) r(5) by simp
  with run r(1,3,4) q'(1) show ?thesis
    unfolding round_effects_def repeats_def
    by (intro exI [of _ C1] exI [of _ ?s] exI [of _ S1] exI [of _ "MakeIPv4PortKeyFromStorage ca"] exI [of _ c] exI [of _ "[BeginNMTHello]"]
        exI [of _ C2] exI [of _ S2] exI [of _ es]) auto
qed

section \<open>A sample handshake\<close>

definition sample_client_env :: UdpEnv where
  "sample_client_env = \<lparr>ESetting = DriverSetting_init ModeClient ClientNone ServerNone, EHmac = \<lambda>_ _. replicate 20 7, ENameinfo = \<lambda>_. None\<rparr>"

definition sample_server_env :: UdpEnv where
  "sample_server_env = \<lparr>ESetting = DriverSetting_init ModeServer ClientNone GameServer, EHmac = \<lambda>_ m. replicate 19 7 @ [word_of_nat (length m)],
     ENameinfo = \<lambda>_. Some ''10.0.0.1''\<rparr>"

definition sample_inputs :: HandshakeInputs where
  "sample_inputs = \<lparr>ClientNow = 0, ServerNow = 0x3FF0000000000000, CookieNow = 0x3FF0000000000000, CheckNow = 0x3FF0000000000000,
     Filler = \<lambda>_. replicate 9 5, WireUs = 0, Junk = []\<rparr>"

lemma sample_ready:
  "handshake_ready sample_client_env sample_server_env (UdpConnectionProcessor_ctor ProcClient) (UdpConnectionProcessor_ctor ProcServer)
     (NetConnection_ctor 0) loopback"
  by (simp add: handshake_ready_def sample_client_env_def sample_server_env_def server_env_def DriverSetting_init_def IsClient_def IsServer_def
      UdpConnectionProcessor_ctor_def magic_ok_def PendingConnectionManager_ctor_def FindConnection_def Find_loop_None NetConnection_ctor_def
      COOKIE_BYTE_SIZE_def)

lemma sample_fresh: "fresh_inputs sample_inputs"
proof -
  have "filler_ok (replicate 9 5)"
    by (simp add: filler_ok_def BaseRandomDataLengthBytes_def RandomDataLengthVarianceBytes_def)
  moreover have one: "\<not> dnan 0x3FF0000000000000" "\<not> dinf 0x3FF0000000000000" "\<not> dneg 0x3FF0000000000000" "dlt 0 0x3FF0000000000000"
    by (simp_all add: dlt_def dnan_def dinf_def dneg_def dint_def dmag_def dexp_def dman_def)
  moreover from one have "dsub 0x3FF0000000000000 0x3FF0000000000000 = 0"
    by (simp add: dsub_def Let_def)
  moreover have "dlt 0 (dsub MAX_COOKIE_LIFETIME 0)"
    by (subst dsub_positive)
      (simp_all add: dlt_def dnan_def dinf_def dneg_def dint_def dmag_def dexp_def dman_def MAX_COOKIE_LIFETIME_def)
  moreover have "dle 0 0"
    by (simp add: dle_def)
  ultimately show ?thesis
    using one(4) by (simp add: fresh_inputs_def sample_inputs_def)
qed

theorem handshake_completes_witness:
  "\<exists>C' s' S' c. three_way sample_client_env sample_server_env (UdpConnectionProcessor_ctor ProcClient) (UdpConnectionProcessor_ctor ProcServer)
     (NetConnection_ctor 0) loopback sample_inputs = Some (C', Some s', S', MakeIPv4PortKeyFromStorage loopback, c, [BeginNMTHello])
     \<and> UState C' = ProcInitialized \<and> Address c = loopback"
  using handshake_completes [OF sample_ready sample_fresh] by blast

theorem handshake_packets_never_stop_witness:
  "\<exists>C1 s1 S1 k c fx C2 S2 es. three_way sample_client_env sample_server_env (UdpConnectionProcessor_ctor ProcClient)
     (UdpConnectionProcessor_ctor ProcServer) (NetConnection_ctor 0) loopback sample_inputs = Some (C1, Some s1, S1, k, c, fx)
     \<and> resend_rounds sample_client_env sample_server_env C1 S1 s1 loopback [sample_inputs, sample_inputs, sample_inputs]
         = Some (C2, S2, concat (map (\<lambda>(e, e'). [SendToRemote (ConnAddr (NetConnection_ctor 0)) e, SendToRemote loopback e']) es)) \<and> length es = 3
     \<and> FindConnection (RemoteManager S2) k \<noteq> None"
proof -
  let ?Is = "[sample_inputs, sample_inputs, sample_inputs]"
  have fill: "\<forall>J\<in>set ?Is. \<forall>i. filler_ok (Filler J i)" and three: "?Is \<noteq> []" "length ?Is = 3"
    using sample_fresh by (simp_all add: fresh_inputs_def)
  from handshake_packets_never_stop [OF sample_ready sample_fresh fill] show ?thesis
  proof (elim exE conjE, goal_cases)
    case (1 C1 s1 S1 k c fx C2 S2 es)
    from 1(5) three(1) have "FindConnection (RemoteManager S2) k \<noteq> None"
      by blast
    with 1(1-3) three(2) show ?case
      by metis
  qed
qed

end
