(* ===== verification/Simulator.thy ===== *)
theory Simulator
  imports Prelude "HOL-Library.Multiset"
begin

text \<open>
  Network, \<open>simulation/PacketSimulator\<close>: datagrams dropped, duplicated and reordered on purpose. The
  datagrams are shared pointers, so the simulator holds addresses. The draws of the random generator
  are arguments (a permille draw lies below 1000, an index is the draw of a distribution over the
  window), times are nanoseconds of the steady clock.
\<close>

record PacketSimulationSettings =
  DropPermille :: u32
  DuplicatePermille :: u32
  ReorderWindowSize :: u32
  ReorderMaxHoldMs :: u32

record PacketSimulator =
  SimSettings :: PacketSimulationSettings
  ReorderWindow :: "nat list"
  LastWindowActivity :: int

definition PacketSimulationSettings_init :: PacketSimulationSettings where
  "PacketSimulationSettings_init = \<lparr>DropPermille = 0, DuplicatePermille = 0, ReorderWindowSize = 0, ReorderMaxHoldMs = 50\<rparr>"

definition PacketSimulator_ctor :: "PacketSimulationSettings \<Rightarrow> PacketSimulator" where
  "PacketSimulator_ctor InSettings = \<lparr>SimSettings = InSettings, ReorderWindow = [], LastWindowActivity = 0\<rparr>"

definition Reconfigure :: "PacketSimulator \<Rightarrow> PacketSimulationSettings \<Rightarrow> PacketSimulator" where
  "Reconfigure Sim InSettings = Sim\<lparr>SimSettings := InSettings\<rparr>"

definition IsEnabled :: "PacketSimulator \<Rightarrow> bool" where
  "IsEnabled Sim \<longleftrightarrow> 0 < DropPermille (SimSettings Sim) \<or> 0 < DuplicatePermille (SimSettings Sim) \<or> 0 < ReorderWindowSize (SimSettings Sim)"

definition RollPermille :: "u32 \<Rightarrow> u32 \<Rightarrow> bool" where
  "RollPermille Permille Draw = (if Permille = 0 then False else Draw < Permille)"

text \<open>An index outside the window is no draw of the distribution.\<close>

definition Process :: "PacketSimulator \<Rightarrow> nat \<Rightarrow> u32 \<Rightarrow> u32 \<Rightarrow> nat \<Rightarrow> int \<Rightarrow> (PacketSimulator \<times> nat list) option" where
  "Process Sim Received DropDraw DuplicateDraw PickIndex Now =
     (if RollPermille (DropPermille (SimSettings Sim)) DropDraw then Some (Sim, [])
      else do {
        let ToDispatch = (if RollPermille (DuplicatePermille (SimSettings Sim)) DuplicateDraw then [Received, Received] else [Received]);
        if ReorderWindowSize (SimSettings Sim) = 0 then Some (Sim, ToDispatch)
        else do {
          let Sim = Sim\<lparr>LastWindowActivity := Now, ReorderWindow := ReorderWindow Sim @ ToDispatch\<rparr>;
          if length (ReorderWindow Sim) < unat (ReorderWindowSize (SimSettings Sim)) then Some (Sim, [])
          else do {
            x \<leftarrow> rd (ReorderWindow Sim) PickIndex;
            let Window = take PickIndex (ReorderWindow Sim) @ drop (Suc PickIndex) (ReorderWindow Sim);
            Some (Sim\<lparr>ReorderWindow := Window\<rparr>, [x]) } } })"

definition ShouldDropOutbound :: "PacketSimulator \<Rightarrow> u32 \<Rightarrow> bool" where
  "ShouldDropOutbound Sim Draw = RollPermille (DropPermille (SimSettings Sim)) Draw"

text \<open>Milliseconds are the nanoseconds divided by a million, rounded towards zero.\<close>

definition millis :: "int \<Rightarrow> int" where
  "millis ns = (if 0 \<le> ns then ns div 1000000 else - ((- ns) div 1000000))"

definition FlushStale :: "PacketSimulator \<Rightarrow> int \<Rightarrow> PacketSimulator \<times> nat list" where
  "FlushStale Sim Now =
     (if ReorderWindow Sim = [] \<or> ReorderWindowSize (SimSettings Sim) = 0 then (Sim, [])
      else if millis (Now - LastWindowActivity Sim) < uint (ReorderMaxHoldMs (SimSettings Sim)) then (Sim, [])
      else (Sim\<lparr>ReorderWindow := []\<rparr>, ReorderWindow Sim))"

section \<open>Runs\<close>

text \<open>
  The datagrams a run accepted (each as often as it passed the drop and the duplication), and those it
  dispatched, over any sequence of receptions, flushes and changes of the settings.
\<close>

inductive simulator_run :: "PacketSimulator \<Rightarrow> nat list \<Rightarrow> nat list \<Rightarrow> bool" where
  start: "simulator_run (PacketSimulator_ctor s) [] []"
| received: "simulator_run Sim acc out \<Longrightarrow> Process Sim r d1 d2 i Now = Some (Sim', out')
    \<Longrightarrow> n = (if RollPermille (DropPermille (SimSettings Sim)) d1 then 0 else if RollPermille (DuplicatePermille (SimSettings Sim)) d2 then 2 else 1)
    \<Longrightarrow> simulator_run Sim' (acc @ replicate n r) (out @ out')"
| flushed: "simulator_run Sim acc out \<Longrightarrow> FlushStale Sim Now = (Sim', out') \<Longrightarrow> simulator_run Sim' acc (out @ out')"
| reconfigured: "simulator_run Sim acc out \<Longrightarrow> simulator_run (Reconfigure Sim s) acc out"

lemma mset_remove_nth: "i < length xs \<Longrightarrow> mset xs = add_mset (xs ! i) (mset (take i xs @ drop (Suc i) xs))"
  by (subst id_take_nth_drop [of i xs]) simp_all

lemma Process_conserves:
  assumes "Process Sim r d1 d2 i Now = Some (Sim', out)"
    and "n = (if RollPermille (DropPermille (SimSettings Sim)) d1 then 0 else if RollPermille (DuplicatePermille (SimSettings Sim)) d2 then 2 else 1)"
  shows "mset out + mset (ReorderWindow Sim') = mset (ReorderWindow Sim) + mset (replicate n r)" "SimSettings Sim' = SimSettings Sim"
proof -
  let ?To = "replicate n r" and ?W = "ReorderWindow Sim @ replicate n r"
  consider "Sim' = Sim" "out = ?To" | "ReorderWindow Sim' = ?W" "out = []" "SimSettings Sim' = SimSettings Sim"
    | "i < length ?W" "ReorderWindow Sim' = take i ?W @ drop (Suc i) ?W" "out = [?W ! i]" "SimSettings Sim' = SimSettings Sim"
  proof (cases "RollPermille (DropPermille (SimSettings Sim)) d1 \<or> ReorderWindowSize (SimSettings Sim) = 0")
    case True
    then show ?thesis
      using that(1) assms
      by (cases "RollPermille (DropPermille (SimSettings Sim)) d1"; cases "RollPermille (DuplicatePermille (SimSettings Sim)) d2")
        (simp_all add: Process_def Let_def numeral_2_eq_2)
  next
    case False
    then have drop: "RollPermille (DropPermille (SimSettings Sim)) d1 = False" "(ReorderWindowSize (SimSettings Sim) = 0) = False"
      by simp_all
    show ?thesis
    proof (cases "RollPermille (DuplicatePermille (SimSettings Sim)) d2")
      case True
      then have n: "n = 2" "replicate n r = [r, r]"
        using assms(2) by (simp_all add: drop numeral_2_eq_2)
      from assms(1) True show ?thesis
        using that(2,3) unfolding n(2) by (simp add: Process_def drop Let_def rd_def split: if_splits) auto
    next
      case False
      then have n: "n = 1" "replicate n r = [r]"
        using assms(2) by (simp_all add: drop)
      from assms(1) False show ?thesis
        using that(2,3) unfolding n(2) by (simp add: Process_def drop Let_def rd_def split: if_splits) auto
    qed
  qed
  note c = this
  show "mset out + mset (ReorderWindow Sim') = mset (ReorderWindow Sim) + mset (replicate n r)"
  proof (cases rule: c)
    case 3
    then show ?thesis
      using mset_remove_nth [of i ?W] by simp
  qed simp_all
  show "SimSettings Sim' = SimSettings Sim"
    by (cases rule: c) simp_all
qed

lemma run_conserves: "simulator_run Sim acc out \<Longrightarrow> mset acc = mset out + mset (ReorderWindow Sim)"
proof (induction rule: simulator_run.induct)
  case (received Sim acc out r d1 d2 i Now Sim' out' n)
  from Process_conserves(1) [OF received.hyps(2,3)] received.IH show ?case
    by (simp add: union_ac)
qed (auto simp: PacketSimulator_ctor_def FlushStale_def Reconfigure_def split: if_splits)

text \<open>
  What happens while the window is off: datagrams arrive, flushes run and the settings change, but the
  window is not switched on. The lists hold the datagrams that arrived and those that were dispatched.
\<close>

inductive off_run :: "PacketSimulator \<Rightarrow> nat list \<Rightarrow> nat list \<Rightarrow> PacketSimulator \<Rightarrow> bool" for Sim where
  off_start: "off_run Sim [] [] Sim"
| off_received: "off_run Sim rs out Sim1 \<Longrightarrow> Process Sim1 r d1 d2 i Now = Some (Sim', out')
    \<Longrightarrow> off_run Sim (rs @ [r]) (out @ out') Sim'"
| off_flushed: "off_run Sim rs out Sim1 \<Longrightarrow> FlushStale Sim1 Now = (Sim', out') \<Longrightarrow> off_run Sim rs (out @ out') Sim'"
| off_reconfigured: "off_run Sim rs out Sim1 \<Longrightarrow> ReorderWindowSize s = 0 \<Longrightarrow> off_run Sim rs out (Reconfigure Sim1 s)"

lemma Process_off:
  assumes "Process Sim r d1 d2 i Now = Some (Sim', out)" and "ReorderWindowSize (SimSettings Sim) = 0"
  shows "Sim' = Sim" "set out \<subseteq> {r}"
  using assms by (auto simp: Process_def Let_def split: if_splits)

lemma off_run_keeps_window:
  "off_run Sim rs out Sim' \<Longrightarrow> ReorderWindowSize (SimSettings Sim) = 0
    \<Longrightarrow> ReorderWindowSize (SimSettings Sim') = 0 \<and> ReorderWindow Sim' = ReorderWindow Sim \<and> set out \<subseteq> set rs"
proof (induction rule: off_run.induct)
  case (off_received rs out Sim1 r d1 d2 i Now Sim' out')
  then have "ReorderWindowSize (SimSettings Sim1) = 0"
    by blast
  from Process_off [OF off_received.hyps(2) this] off_received show ?case
    by auto
qed (auto simp: FlushStale_def Reconfigure_def)

text \<open>
  C24. The simulator neither invents nor forgets a datagram: over any run every datagram it accepted has been
  dispatched as often as it was accepted or waits in the window. But a datagram that waits when the
  window is switched off stays there as long as the window is off: whatever arrives, however often the window is
  flushed and however the other settings change, the window stays as it is and only datagrams that arrive
  are dispatched. When the window is switched on again, the next flush after the hold time releases them all.
\<close>

theorem simulator_conserves:
  assumes "simulator_run Sim acc out"
  shows "mset acc = mset out + mset (ReorderWindow Sim)
    \<and> (ReorderWindowSize (SimSettings Sim) = 0 \<longrightarrow>
        (\<forall>rs out' Sim'. off_run Sim rs out' Sim' \<longrightarrow> ReorderWindow Sim' = ReorderWindow Sim \<and> set out' \<subseteq> set rs))
    \<and> (\<forall>s Now. ReorderWindowSize s \<noteq> 0 \<and> uint (ReorderMaxHoldMs s) \<le> millis (Now - LastWindowActivity Sim) \<longrightarrow>
        FlushStale (Reconfigure Sim s) Now = ((Reconfigure Sim s)\<lparr>ReorderWindow := []\<rparr>, ReorderWindow Sim))"
proof (intro conjI impI allI)
  fix rs out' Sim'
  assume "ReorderWindowSize (SimSettings Sim) = 0" "off_run Sim rs out' Sim'"
  then show "ReorderWindow Sim' = ReorderWindow Sim" "set out' \<subseteq> set rs"
    using off_run_keeps_window by blast+
next
  fix s :: PacketSimulationSettings and Now :: int
  assume "ReorderWindowSize s \<noteq> 0 \<and> uint (ReorderMaxHoldMs s) \<le> millis (Now - LastWindowActivity Sim)"
  then show "FlushStale (Reconfigure Sim s) Now = ((Reconfigure Sim s)\<lparr>ReorderWindow := []\<rparr>, ReorderWindow Sim)"
    by (cases "ReorderWindow Sim") (simp_all add: FlushStale_def Reconfigure_def)
qed (rule run_conserves [OF assms])

text \<open>
  Two datagrams wait in a window of three when it is switched off; a third one is dispatched, a flush a
  second later releases nothing; switched on again, the flush does.
\<close>

theorem simulator_conserves_witness:
  "\<exists>Sim. simulator_run Sim [7, 8] [] \<and> off_run Sim [9] [9] Sim \<and> ReorderWindow Sim = [7, 8] \<and> FlushStale Sim 1000000000 = (Sim, [])
    \<and> snd (FlushStale (Reconfigure Sim (PacketSimulationSettings_init\<lparr>ReorderWindowSize := 3\<rparr>)) 1000000000) = [7, 8]"
proof -
  let ?on = "PacketSimulationSettings_init\<lparr>ReorderWindowSize := 3\<rparr>"
  let ?S = "\<lparr>SimSettings = ?on, ReorderWindow = [7, 8], LastWindowActivity = 0\<rparr>"
  let ?T = "Reconfigure ?S PacketSimulationSettings_init"
  have "simulator_run \<lparr>SimSettings = ?on, ReorderWindow = [7], LastWindowActivity = 0\<rparr> ([] @ replicate 1 7) ([] @ [])"
    by (rule simulator_run.received [OF simulator_run.start [of ?on], where r = 7 and ?d1.0 = 5 and ?d2.0 = 5 and i = 0 and Now = 0])
      (simp_all add: Process_def PacketSimulator_ctor_def RollPermille_def PacketSimulationSettings_init_def)
  then have "simulator_run ?S (([] @ replicate 1 7) @ replicate 1 8) (([] @ []) @ [])"
    by (rule simulator_run.received [where r = 8 and ?d1.0 = 5 and ?d2.0 = 5 and i = 0 and Now = 0])
      (simp_all add: Process_def RollPermille_def PacketSimulationSettings_init_def)
  from simulator_run.reconfigured [OF this, of PacketSimulationSettings_init]
  have run: "simulator_run ?T [7, 8] []"
    by simp
  have "off_run ?T ([] @ [9]) ([] @ [9]) ?T"
    by (rule off_run.off_received [OF off_run.off_start, where r = 9 and ?d1.0 = 5 and ?d2.0 = 5 and i = 0 and Now = 0])
      (simp add: Process_def RollPermille_def Reconfigure_def PacketSimulationSettings_init_def)
  then have off: "off_run ?T [9] [9] ?T"
    by simp
  have "ReorderWindowSize ?on \<noteq> 0 \<and> uint (ReorderMaxHoldMs ?on) \<le> millis (1000000000 - LastWindowActivity ?T)"
    by (simp add: PacketSimulationSettings_init_def Reconfigure_def millis_def)
  with simulator_conserves [OF run] have "FlushStale (Reconfigure ?T ?on) 1000000000 = ((Reconfigure ?T ?on)\<lparr>ReorderWindow := []\<rparr>, ReorderWindow ?T)"
    by blast
  with run off show ?thesis
    by (intro exI [of _ ?T]) (simp add: Reconfigure_def FlushStale_def PacketSimulationSettings_init_def)
qed

end
