(* ===== verification/SListM.thy ===== *)
theory SListM
  imports BufReader "HOL-Library.Multiset"
begin

text \<open>
  Network, \<open>thread/SListQueue.h\<close>: a queue made of two interlocked stacks. Producers push on the first;
  a consumer pops from the second and, when that is empty, moves the first onto it inside a critical
  section. The operations are given twice: as functions, for a caller that is not interrupted, and as
  the steps of a relation in which producers and consumers interleave after every access to a stack.
\<close>

section \<open>The operations\<close>

text \<open>A stack is the list of its entries from the top.\<close>

record 'a SListQueue =
  push_stack :: "'a list"
  pop_stack :: "'a list"

definition SListQueue_ctor :: "'a SListQueue" where
  "SListQueue_ctor = \<lparr>push_stack = [], pop_stack = []\<rparr>"

definition PushBack :: "'a SListQueue \<Rightarrow> 'a \<Rightarrow> 'a SListQueue" where
  "PushBack q x = q\<lparr>push_stack := x # push_stack q\<rparr>"

fun Transition_loop :: "'a list \<Rightarrow> 'a list \<Rightarrow> 'a list" where
  "Transition_loop [] pop = pop"
| "Transition_loop (list_head # rest) pop = Transition_loop rest (list_head # pop)"

definition Transition :: "'a SListQueue \<Rightarrow> 'a SListQueue" where
  "Transition q = \<lparr>push_stack = [], pop_stack = Transition_loop (push_stack q) (pop_stack q)\<rparr>"

definition pop_entry :: "'a SListQueue \<Rightarrow> 'a SListQueue \<times> 'a option" where
  "pop_entry q = (case pop_stack q of [] \<Rightarrow> (q, None) | x # rest \<Rightarrow> (q\<lparr>pop_stack := rest\<rparr>, Some x))"

text \<open>Undisturbed, the second look at the pop stack finds what the first one found.\<close>

definition TryPopFront :: "'a SListQueue \<Rightarrow> 'a SListQueue \<times> 'a option" where
  "TryPopFront q =
     (case pop_entry q of
        (q, Some x) \<Rightarrow> (q, Some x)
      | (q, None) \<Rightarrow>
          (case pop_entry q of
             (q, Some x) \<Rightarrow> (q, Some x)
           | (q, None) \<Rightarrow> pop_entry (Transition q)))"

definition slist_items :: "'a SListQueue \<Rightarrow> 'a list" where
  "slist_items q = pop_stack q @ rev (push_stack q)"

lemma Transition_loop_eq: "Transition_loop xs pop = rev xs @ pop"
  by (induction xs pop rule: Transition_loop.induct) auto

lemma TryPopFront_items:
  "TryPopFront q = (case slist_items q of [] \<Rightarrow> (\<lparr>push_stack = [], pop_stack = []\<rparr>, None)
     | x # rest \<Rightarrow> (fst (TryPopFront q), Some x))"
  "slist_items (fst (TryPopFront q)) = tl (slist_items q)"
  by (cases q; cases "pop_stack q"; cases "rev (push_stack q)";
      auto simp: TryPopFront_def pop_entry_def Transition_def Transition_loop_eq slist_items_def)+

text \<open>The queue of the job system keeps the contract of a queue.\<close>

interpretation slist: fifo PushBack TryPopFront slist_items
proof unfold_locales
  fix q :: "'a SListQueue" and x xs
  show "slist_items (PushBack q x) = slist_items q @ [x]"
    by (simp add: slist_items_def PushBack_def)
  assume "slist_items q = x # xs"
  then show "\<exists>q'. TryPopFront q = (q', Some x) \<and> slist_items q' = xs"
    using TryPopFront_items [of q] by (intro exI [of _ "fst (TryPopFront q)"]) simp
next
  fix q :: "'a SListQueue"
  assume "slist_items q = []"
  then show "snd (TryPopFront q) = None"
    by (subst TryPopFront_items(1)) simp
qed

section \<open>Interleaved producers and consumers\<close>

text \<open>
  Where a consumer stands in \<open>TryPopFront\<close>: outside, having found the pop stack empty, inside the
  critical section before the second look, before the flush, moving the entries it flushed, or about
  to leave with its result.
\<close>

datatype 'a pop_pc = Outside | Missed | Entered | Flushing | Moving "'a list" | Leaving "'a option"

record 'a slist_state =
  SQueue :: "'a SListQueue"
  SLock :: "nat option"
  SPc :: "nat \<Rightarrow> 'a pop_pc"
  SPushed :: "'a list"
  STaken :: "'a list"

definition slist_start :: "'a slist_state" where
  "slist_start = \<lparr>SQueue = SListQueue_ctor, SLock = None, SPc = (\<lambda>_. Outside), SPushed = [], STaken = []\<rparr>"

definition goto :: "nat \<Rightarrow> 'a pop_pc \<Rightarrow> 'a slist_state \<Rightarrow> 'a slist_state" where
  "goto c pc s = s\<lparr>SPc := (SPc s)(c := pc)\<rparr>"

text \<open>Each step is one interlocked operation, or the entry to or exit from the critical section.\<close>

inductive slist_step :: "nat set \<Rightarrow> 'a slist_state \<Rightarrow> 'a slist_state \<Rightarrow> bool" for C where
  push: "slist_step C s (s\<lparr>SQueue := PushBack (SQueue s) x, SPushed := SPushed s @ [x]\<rparr>)"
| hit: "c \<in> C \<Longrightarrow> SPc s c = Outside \<Longrightarrow> pop_entry (SQueue s) = (q, Some x)
    \<Longrightarrow> slist_step C s (s\<lparr>SQueue := q, STaken := STaken s @ [x]\<rparr>)"
| miss: "c \<in> C \<Longrightarrow> SPc s c = Outside \<Longrightarrow> pop_entry (SQueue s) = (q, None) \<Longrightarrow> slist_step C s (goto c Missed s)"
| enter: "c \<in> C \<Longrightarrow> SPc s c = Missed \<Longrightarrow> SLock s = None \<Longrightarrow> slist_step C s (goto c Entered s\<lparr>SLock := Some c\<rparr>)"
| again_hit: "c \<in> C \<Longrightarrow> SPc s c = Entered \<Longrightarrow> pop_entry (SQueue s) = (q, Some x)
    \<Longrightarrow> slist_step C s (goto c (Leaving (Some x)) s\<lparr>SQueue := q, STaken := STaken s @ [x]\<rparr>)"
| again_miss: "c \<in> C \<Longrightarrow> SPc s c = Entered \<Longrightarrow> pop_entry (SQueue s) = (q, None) \<Longrightarrow> slist_step C s (goto c Flushing s)"
| flush: "c \<in> C \<Longrightarrow> SPc s c = Flushing
    \<Longrightarrow> slist_step C s (goto c (Moving (push_stack (SQueue s))) s\<lparr>SQueue := (SQueue s)\<lparr>push_stack := []\<rparr>\<rparr>)"
| move: "c \<in> C \<Longrightarrow> SPc s c = Moving (x # L)
    \<Longrightarrow> slist_step C s (goto c (Moving L) s\<lparr>SQueue := (SQueue s)\<lparr>pop_stack := x # pop_stack (SQueue s)\<rparr>\<rparr>)"
| last_hit: "c \<in> C \<Longrightarrow> SPc s c = Moving [] \<Longrightarrow> pop_entry (SQueue s) = (q, Some x)
    \<Longrightarrow> slist_step C s (goto c (Leaving (Some x)) s\<lparr>SQueue := q, STaken := STaken s @ [x]\<rparr>)"
| last_miss: "c \<in> C \<Longrightarrow> SPc s c = Moving [] \<Longrightarrow> pop_entry (SQueue s) = (q, None) \<Longrightarrow> slist_step C s (goto c (Leaving None) s)"
| leave: "c \<in> C \<Longrightarrow> SPc s c = Leaving r \<Longrightarrow> slist_step C s (goto c Outside s\<lparr>SLock := None\<rparr>)"

inductive slist_run :: "nat set \<Rightarrow> 'a slist_state \<Rightarrow> bool" for C where
  start: "slist_run C slist_start"
| step: "slist_run C s \<Longrightarrow> slist_step C s s' \<Longrightarrow> slist_run C s'"

text \<open>The entries a consumer has taken off the push stack and not yet put on the pop stack.\<close>

fun moving :: "'a pop_pc \<Rightarrow> 'a list" where
  "moving (Moving L) = L"
| "moving _ = []"

fun critical :: "'a pop_pc \<Rightarrow> bool" where
  "critical Outside = False"
| "critical Missed = False"
| "critical _ = True"

definition in_flight :: "'a slist_state \<Rightarrow> 'a list" where
  "in_flight s = (case SLock s of None \<Rightarrow> [] | Some c \<Rightarrow> moving (SPc s c))"

lemma moving_not_critical: "\<not> critical pc \<Longrightarrow> moving pc = []"
  by (cases pc) auto

lemma pop_entry_cases:
  "pop_entry q = (q', None) \<Longrightarrow> q' = q \<and> pop_stack q = []"
  "pop_entry q = (q', Some x) \<Longrightarrow> pop_stack q = x # pop_stack q' \<and> push_stack q' = push_stack q"
  by (auto simp: pop_entry_def split: list.splits)

text \<open>At most one consumer is in the critical section, the owner of the lock.\<close>

lemma critical_goto: "critical (SPc (goto c pc s) c') \<longleftrightarrow> (if c' = c then critical pc else critical (SPc s c'))"
  by (simp add: goto_def)

lemma goto_simps [simp]:
  "SLock (goto c pc s) = SLock s" "SQueue (goto c pc s) = SQueue s" "SPushed (goto c pc s) = SPushed s"
  "STaken (goto c pc s) = STaken s" "SPc (goto c pc s) c = pc" "c' \<noteq> c \<Longrightarrow> SPc (goto c pc s) c' = SPc s c'"
  by (simp_all add: goto_def)

lemma step_exclusive:
  assumes ex: "\<And>c. critical (SPc s c) = (SLock s = Some c)" and st: "slist_step C s s'"
  shows "critical (SPc s' c) = (SLock s' = Some c)"
  using st
proof cases
  case (enter d)
  then show ?thesis
    using ex [of c] by (simp add: critical_goto)
next
  case (leave d r)
  then show ?thesis
    using ex [of d] ex [of c] by (simp add: critical_goto)
next
  case (again_hit d q x)
  then show ?thesis
    using ex [of d] ex [of c] by (simp add: critical_goto)
next
  case (again_miss d q)
  then show ?thesis
    using ex [of d] ex [of c] by (simp add: critical_goto)
next
  case (flush d)
  then show ?thesis
    using ex [of d] ex [of c] by (simp add: critical_goto)
next
  case (move d x L)
  then show ?thesis
    using ex [of d] ex [of c] by (simp add: critical_goto)
next
  case (last_hit d q x)
  then show ?thesis
    using ex [of d] ex [of c] by (simp add: critical_goto)
next
  case (last_miss d q)
  then show ?thesis
    using ex [of d] ex [of c] by (simp add: critical_goto)
next
  case (miss d q)
  then show ?thesis
    using ex [of d] ex [of c] by (simp add: critical_goto)
qed (simp_all add: ex)

lemma run_exclusive: "slist_run C s \<Longrightarrow> critical (SPc s c) \<longleftrightarrow> SLock s = Some c"
proof (induction arbitrary: c rule: slist_run.induct)
  case (step s s')
  show ?case
    by (rule step_exclusive [OF step.IH step.hyps(2)])
qed (simp add: slist_start_def)

lemma in_flight_upd [simp]:
  "in_flight (s\<lparr>SQueue := q, SPushed := p\<rparr>) = in_flight s" "in_flight (s\<lparr>SQueue := q, STaken := t\<rparr>) = in_flight s"
  "in_flight (s\<lparr>SQueue := q\<rparr>) = in_flight s"
  by (simp_all add: in_flight_def split: option.splits)

lemma in_flight_owner: "SLock s = Some c \<Longrightarrow> in_flight s = moving (SPc s c)"
  by (simp add: in_flight_def)

lemma in_flight_other: "SLock s \<noteq> Some c \<Longrightarrow> in_flight (goto c pc s) = in_flight s"
  by (auto simp: in_flight_def split: option.splits)

text \<open>
  How a step changes the four places of an entry, in the order of the queue: taken, in flight, on the pop
  stack and on the push stack.
\<close>

definition places :: "'a slist_state \<Rightarrow> 'a list \<times> 'a list \<times> 'a list \<times> 'a list" where
  "places s = (STaken s, in_flight s, pop_stack (SQueue s), push_stack (SQueue s))"

lemma step_places:
  assumes "slist_run C s" and "slist_step C s s'" and "places s = (t, f, p, q)"
  obtains (pushed) x where "places s' = (t, f, p, x # q)" "SPushed s' = SPushed s @ [x]"
  | (hit) x p' where "p = x # p'" "places s' = (t @ [x], f, p', q)" "SPushed s' = SPushed s" "f = [] \<or> (\<exists>c\<in>C. SPc s c = Outside)"
  | (flushed) c where "f = []" "places s' = (t, q, p, [])" "SPushed s' = SPushed s" "SPc s c = Flushing"
  | (moved) x f' where "f = x # f'" "places s' = (t, f', x # p, q)" "SPushed s' = SPushed s"
  | (same) "places s' = places s" "SPushed s' = SPushed s"
proof -
  note own = run_exclusive [OF assms(1)]
  from assms(2) show ?thesis
  proof cases
    case (push x)
    then show ?thesis
      using assms(3) by (intro pushed [of x]) (simp_all add: places_def PushBack_def)
  next
    case (hit c Q x)
    then show ?thesis
      using assms(3) pop_entry_cases(2) [OF hit(4)] by (intro that(2) [of x]) (auto simp: places_def)
  next
    case (miss c Q)
    then show ?thesis
      using own [of c] by (intro same) (simp_all add: places_def in_flight_other)
  next
    case (enter c)
    then show ?thesis
      by (intro same) (simp_all add: places_def in_flight_def)
  next
    case (again_hit c Q x)
    then have l: "SLock s = Some c"
      using own [of c] by simp
    show ?thesis
      using again_hit assms(3) pop_entry_cases(2) [OF again_hit(4)] l
      by (intro that(2) [of x]) (simp_all add: places_def in_flight_owner [of _ c])
  next
    case (again_miss c Q)
    then have l: "SLock s = Some c"
      using own [of c] by simp
    show ?thesis
      using again_miss l by (intro same) (simp_all add: places_def in_flight_owner [of _ c])
  next
    case (flush c)
    then have l: "SLock s = Some c"
      using own [of c] by simp
    show ?thesis
      using flush assms(3) l by (intro flushed [of c]) (auto simp add: places_def in_flight_owner [of _ c])
  next
    case (move c x L)
    then have l: "SLock s = Some c"
      using own [of c] by simp
    show ?thesis
      using move assms(3) l by (intro moved [of x L]) (auto simp add: places_def in_flight_owner [of _ c])
  next
    case (last_hit c Q x)
    then have l: "SLock s = Some c"
      using own [of c] by simp
    show ?thesis
      using last_hit assms(3) pop_entry_cases(2) [OF last_hit(4)] l
      by (intro that(2) [of x]) (auto simp add: places_def in_flight_owner [of _ c])
  next
    case (last_miss c Q)
    then have l: "SLock s = Some c"
      using own [of c] by simp
    show ?thesis
      using last_miss l by (intro same) (simp_all add: places_def in_flight_owner [of _ c])
  next
    case (leave c r)
    then have l: "SLock s = Some c"
      using own [of c] by simp
    show ?thesis
      using leave l by (intro same) (simp_all add: places_def in_flight_def)
  qed
qed

text \<open>No entry is lost and none appears, whatever the number of consumers.\<close>

lemma run_conserves_entries:
  "slist_run C s \<Longrightarrow> places s = (t, f, p, q) \<Longrightarrow> mset (SPushed s) = mset t + mset f + mset p + mset q"
proof (induction arbitrary: t f p q rule: slist_run.induct)
  case (step s s')
  obtain t0 f0 p0 q0 where pl: "places s = (t0, f0, p0, q0)"
    by (metis prod_cases4)
  from step_places [OF step.hyps pl] show ?case
    by cases (use step.IH [OF pl] step.prems pl in \<open>auto simp: union_ac\<close>)
qed (auto simp: slist_start_def places_def in_flight_def SListQueue_ctor_def)

section \<open>One consumer, or several\<close>

lemma run_participants: "slist_run C s \<Longrightarrow> SPc s c \<noteq> Outside \<Longrightarrow> c \<in> C"
proof (induction arbitrary: c rule: slist_run.induct)
  case (step s s')
  from step.hyps(2) show ?case
    by cases (use step in \<open>auto simp: goto_def split: if_splits\<close>)
qed (simp add: slist_start_def)

lemma run_flushing: "slist_run C s \<Longrightarrow> SPc s c = Flushing \<Longrightarrow> pop_stack (SQueue s) = []"
proof (induction arbitrary: c rule: slist_run.induct)
  case (step s s')
  note ex = run_exclusive [OF step.hyps(1)]
  from step.hyps(2) show ?case
  proof cases
    case (move d x L)
    then have "c \<noteq> d" "SLock s = Some d"
      using step.prems ex [of d] by auto
    then show ?thesis
      using move step.prems ex [of c] by simp
  qed (use step in \<open>auto simp: goto_def PushBack_def pop_entry_def split: if_splits list.splits\<close>)
qed (simp add: slist_start_def)

lemma single_consumer_order:
  "slist_run {c} s \<Longrightarrow> places s = (t, f, p, q) \<Longrightarrow> SPushed s = t @ rev f @ p @ rev q"
proof (induction arbitrary: t f p q rule: slist_run.induct)
  case (step s s')
  obtain t0 f0 p0 q0 where pl: "places s = (t0, f0, p0, q0)"
    by (metis prod_cases4)
  note IH = step.IH [OF pl]
  from step.hyps pl show ?case
  proof (cases rule: step_places)
    case (hit x p')
    have "f0 = []" if "SPc s c = Outside"
    proof -
      have "SLock s = None"
        using run_exclusive [OF step.hyps(1)] run_participants [OF step.hyps(1)] that
        by (metis critical.simps(1) option.exhaust singletonD)
      then show ?thesis
        using pl by (simp add: places_def in_flight_def)
    qed
    with hit IH step.prems show ?thesis
      by auto
  next
    case (flushed d)
    then have "p0 = []"
      using run_flushing [OF step.hyps(1), of d] pl by (simp add: places_def)
    with flushed IH step.prems show ?thesis
      by simp
  qed (use IH step.prems pl in auto)
qed (auto simp: slist_start_def places_def in_flight_def SListQueue_ctor_def)

lemma run_missed: "slist_run C s \<Longrightarrow> SPc s c = Leaving None \<Longrightarrow> pop_stack (SQueue s) = []"
proof (induction arbitrary: c rule: slist_run.induct)
  case (step s s')
  note ex = run_exclusive [OF step.hyps(1)]
  from step.hyps(2) show ?case
  proof cases
    case (move d x L)
    then have "c \<noteq> d" "SLock s = Some d"
      using step.prems ex [of d] by auto
    then show ?thesis
      using move step.prems ex [of c] by simp
  qed (use step in \<open>auto simp: goto_def PushBack_def pop_entry_def split: if_splits list.splits\<close>)
qed (simp add: slist_start_def)

text \<open>The entries that wait in the queue or in the hands of a consumer, oldest first.\<close>

definition waiting :: "'a slist_state \<Rightarrow> 'a list" where
  "waiting s = rev (in_flight s) @ slist_items (SQueue s)"

lemma places_waiting: "places s = (STaken s, in_flight s, pop_stack (SQueue s), push_stack (SQueue s))"
  by (simp add: places_def)

text \<open>
  C14. A queue of the job system with any number of producers and one consumer is first in, first out,
  however their accesses interleave: what was pushed is what was taken followed by what waits. The
  consumer returns nothing only when all that is left was pushed after it looked.
\<close>

theorem single_consumer_fifo:
  assumes "slist_run {c} s"
  shows "SPushed s = STaken s @ waiting s \<and> (SPc s c = Leaving None \<longrightarrow> SPushed s = STaken s @ rev (push_stack (SQueue s)))"
proof -
  have fifo: "SPushed s = STaken s @ waiting s"
    using single_consumer_order [OF assms places_waiting] by (simp add: waiting_def slist_items_def)
  moreover have "waiting s = rev (push_stack (SQueue s))" if "SPc s c = Leaving None"
    using run_missed [OF assms that] in_flight_owner [of s c] run_exclusive [OF assms, of c] that
    by (simp add: waiting_def slist_items_def)
  ultimately show ?thesis
    by simp
qed

text \<open>Two entries are pushed and moved by a consumer; \<open>s\<close> is the state in which one of them is moved.\<close>

definition half_moved :: "nat slist_state" where
  "half_moved = \<lparr>SQueue = \<lparr>push_stack = [], pop_stack = [8]\<rparr>, SLock = Some 0, SPc = (\<lambda>_. Outside)(0 := Moving [7]),
     SPushed = [7, 8], STaken = []\<rparr>"

lemma reach_half_moved:
  assumes "0 \<in> C"
  shows "slist_run C half_moved"
proof -
  let ?q = "\<lambda>q s pc. \<lparr>SQueue = q, SLock = s, SPc = (\<lambda>_. Outside)(0 := pc), SPushed = [7, 8], STaken = []\<rparr> :: nat slist_state"
  let ?full = "\<lparr>push_stack = [8, 7], pop_stack = []\<rparr> :: nat SListQueue"
  have "slist_run C (slist_start\<lparr>SQueue := PushBack SListQueue_ctor (7 :: nat), SPushed := [7]\<rparr>)"
    using slist_run.step [OF slist_run.start slist_step.push [of C slist_start "7::nat"]] by (simp add: slist_start_def)
  then have "slist_run C (?q ?full None Outside)"
    by (rule slist_run.step)
      (use slist_step.push [of C "slist_start\<lparr>SQueue := PushBack SListQueue_ctor 7, SPushed := [7]\<rparr>" "8::nat"] in
        \<open>simp add: slist_start_def PushBack_def SListQueue_ctor_def fun_upd_idem\<close>)
  then have "slist_run C (?q ?full None Missed)"
    by (rule slist_run.step) (use slist_step.miss [OF assms, of "?q ?full None Outside" ?full] in \<open>simp add: goto_def pop_entry_def\<close>)
  then have "slist_run C (?q ?full (Some 0) Entered)"
    by (rule slist_run.step) (use slist_step.enter [OF assms, of "?q ?full None Missed"] in \<open>simp add: goto_def\<close>)
  then have "slist_run C (?q ?full (Some 0) Flushing)"
    by (rule slist_run.step) (use slist_step.again_miss [OF assms, of "?q ?full (Some 0) Entered" ?full] in \<open>simp add: goto_def pop_entry_def\<close>)
  then have "slist_run C (?q \<lparr>push_stack = [], pop_stack = []\<rparr> (Some 0) (Moving [8, 7]))"
    by (rule slist_run.step) (use slist_step.flush [OF assms, of "?q ?full (Some 0) Flushing"] in \<open>simp add: goto_def\<close>)
  then have "slist_run C (?q \<lparr>push_stack = [], pop_stack = [8]\<rparr> (Some 0) (Moving [7]))"
    by (rule slist_run.step) (use slist_step.move [OF assms, of "?q \<lparr>push_stack = [], pop_stack = []\<rparr> (Some 0) (Moving [8, 7])" 8 "[7]"] in \<open>simp add: goto_def\<close>)
  then show ?thesis
    by (simp add: half_moved_def)
qed

theorem single_consumer_fifo_witness:
  "slist_run {0} half_moved \<and> waiting half_moved = [7, 8] \<and> SPushed half_moved = STaken half_moved @ waiting half_moved"
proof -
  have "slist_run {0} half_moved"
    by (rule reach_half_moved) simp
  from this single_consumer_fifo [OF this] show ?thesis
    by (simp add: waiting_def half_moved_def in_flight_def slist_items_def)
qed

text \<open>
  With several consumers no entry is lost or taken twice, but the order is not kept: while one
  consumer moves the entries, the pop stack shows the newest first, and another takes it without the lock.
\<close>

theorem several_consumers_reorder:
  assumes "slist_run C s"
  shows "mset (SPushed s) = mset (STaken s) + mset (waiting s)
    \<and> (\<exists>t. slist_run {0, 1} t \<and> SPushed t = [7, 8 :: nat] \<and> STaken t = [8, 7])"
proof
  show "mset (SPushed s) = mset (STaken s) + mset (waiting s)"
    using run_conserves_entries [OF assms places_waiting] by (simp add: waiting_def slist_items_def)
  let ?q = "\<lambda>p pc t. \<lparr>SQueue = \<lparr>push_stack = [], pop_stack = p\<rparr>, SLock = Some 0, SPc = (\<lambda>_. Outside)(0 := pc),
    SPushed = [7, 8], STaken = t\<rparr> :: nat slist_state"
  have "slist_run {0, 1} half_moved"
    by (rule reach_half_moved) simp
  then have "slist_run {0, 1} (?q [] (Moving [7]) [8])"
    by (rule slist_run.step)
      (use slist_step.hit [of 1 "{0, 1}" half_moved "\<lparr>push_stack = [], pop_stack = []\<rparr>" 8] in
        \<open>simp add: half_moved_def pop_entry_def\<close>)
  then have "slist_run {0, 1} (?q [7] (Moving []) [8])"
    by (rule slist_run.step) (use slist_step.move [of 0 "{0, 1}" "?q [] (Moving [7]) [8]" 7 "[]"] in \<open>simp add: goto_def\<close>)
  then have "slist_run {0, 1} (?q [] (Leaving (Some 7)) [8, 7])"
    by (rule slist_run.step)
      (use slist_step.last_hit [of 0 "{0, 1}" "?q [7] (Moving []) [8]" "\<lparr>push_stack = [], pop_stack = []\<rparr>" 7] in
        \<open>simp add: goto_def pop_entry_def\<close>)
  then show "\<exists>t. slist_run {0, 1} t \<and> SPushed t = [7, 8 :: nat] \<and> STaken t = [8, 7]"
    by (intro exI conjI, assumption) simp_all
qed

theorem several_consumers_reorder_witness:
  "mset (SPushed half_moved) = mset (STaken half_moved) + mset (waiting half_moved) \<and> slist_run {0, 1} half_moved"
  using several_consumers_reorder [OF reach_half_moved, of "{0, 1}"] reach_half_moved [of "{0, 1}"] by simp

end
