(* ===== verification/JobM.thy ===== *)
theory JobM
  imports SListM
begin

text \<open>
  Network, \<open>thread/JobSystem\<close>: the worker threads that run the jobs of the engine. Each worker has a queue
  of functions and a queue of coroutines for jobs pinned to it and two more for the others. A coroutine
  that waits for a group of jobs counts them in its task; the last of them puts it back into a queue.

  Tasks live in a store and are named by their positions; a task that was deleted stays there with
  \<open>Alive\<close> false and using it is \<open>None\<close>. A function is given by the jobs it adds while it runs, a
  coroutine by the points at which it waits. The run of a job is one step.
\<close>

section \<open>Tasks\<close>

text \<open>
  A function with the jobs it adds, each with the worker it is pinned to or \<open>- 1\<close>; a coroutine with its
  \<open>co_await\<close> expressions, which wait for jobs and vectors of jobs or ask for a worker. The awaited
  coroutines are temporaries of the expression.
\<close>

datatype JobSpec = FuncJob "(int \<times> JobSpec) list" | CoroJob "Suspension list"
and Suspension = AwaitJobs "AwaitArg list" | ResumeOn int
and AwaitArg = One JobSpec | Many "JobSpec list"

record Task =
  RootTask :: "nat option"
  ChildrenTaskCount :: u32
  is_function_task :: bool
  TaskThread :: int
  FuncBody :: "(int \<times> JobSpec) list"
  CoroRest :: "Suspension list"
  Awaited :: "nat list"
  CoroDone :: bool
  Alive :: bool

definition FuncTask_ctor :: "(int \<times> JobSpec) list \<Rightarrow> int \<Rightarrow> Task" where
  "FuncTask_ctor body ThreadIndex = \<lparr>RootTask = None, ChildrenTaskCount = 0, is_function_task = True, TaskThread = ThreadIndex,
     FuncBody = body, CoroRest = [], Awaited = [], CoroDone = False, Alive = True\<rparr>"

definition CoroutineTask_ctor :: "Suspension list \<Rightarrow> Task" where
  "CoroutineTask_ctor rest = \<lparr>RootTask = None, ChildrenTaskCount = 0, is_function_task = False, TaskThread = - 1,
     FuncBody = [], CoroRest = rest, Awaited = [], CoroDone = False, Alive = True\<rparr>"

section \<open>The job system\<close>

text \<open>\<open>JobLog\<close> lists the functions that have run and the coroutines that have been resumed.\<close>

datatype JobEvent = RanFunction nat | ResumedCoroutine nat

record JobSystem =
  system_thread_count :: u32
  local_func_task_queues :: "nat SListQueue list"
  local_coroutine_task_queues :: "nat SListQueue list"
  global_func_task_queues :: "nat SListQueue list"
  global_coroutine_task_queues :: "nat SListQueue list"
  pending_task_count :: "u64 list"
  next_thread_index :: u64
  jobs_run :: "u64 list"
  thread_current_job :: "nat option list"
  Tasks :: "Task list"
  JobLog :: "JobEvent list"

definition JobSystem_ctor :: "u32 \<Rightarrow> JobSystem" where
  "JobSystem_ctor thread_count =
     (let n = unat thread_count in
      \<lparr>system_thread_count = thread_count, local_func_task_queues = replicate n SListQueue_ctor,
       local_coroutine_task_queues = replicate n SListQueue_ctor, global_func_task_queues = replicate n SListQueue_ctor,
       global_coroutine_task_queues = replicate n SListQueue_ctor, pending_task_count = replicate n 0, next_thread_index = 0,
       jobs_run = replicate n 0, thread_current_job = replicate n None, Tasks = [], JobLog = []\<rparr>)"

definition get_task :: "JobSystem \<Rightarrow> nat \<Rightarrow> Task option" where
  "get_task J t = do { T \<leftarrow> rd (Tasks J) t; if Alive T then Some T else None }"

definition upd_task :: "JobSystem \<Rightarrow> nat \<Rightarrow> (Task \<Rightarrow> Task) \<Rightarrow> JobSystem option" where
  "upd_task J t f = do { T \<leftarrow> get_task J t; Some (J\<lparr>Tasks := (Tasks J)[t := f T]\<rparr>) }"

definition new_task :: "JobSystem \<Rightarrow> Task \<Rightarrow> JobSystem \<times> nat" where
  "new_task J T = (J\<lparr>Tasks := Tasks J @ [T]\<rparr>, length (Tasks J))"

text \<open>The job the calling thread runs; a thread outside the system runs none.\<close>

definition GetThreadCurrentJob :: "JobSystem \<Rightarrow> nat option \<Rightarrow> nat option" where
  "GetThreadCurrentJob J w = (case w of None \<Rightarrow> None | Some w \<Rightarrow> thread_current_job J ! w)"

definition NextThreadIndex :: "JobSystem \<Rightarrow> JobSystem \<times> int" where
  "NextThreadIndex J =
     (if system_thread_count J = 0 then (J, 0)
      else (J\<lparr>next_thread_index := next_thread_index J + 1\<rparr>, uint (next_thread_index J mod ucast (system_thread_count J))))"

definition push_queue :: "nat SListQueue list \<Rightarrow> nat \<Rightarrow> nat \<Rightarrow> nat SListQueue list option" where
  "push_queue qs i t = do { q \<leftarrow> rd qs i; wr qs i (PushBack q t) }"

definition Internal_AddJob :: "JobSystem \<Rightarrow> nat \<Rightarrow> nat option \<Rightarrow> int \<Rightarrow> JobSystem option" where
  "Internal_AddJob J job root_task children_count = do {
     J \<leftarrow> upd_task J job (\<lambda>T. T\<lparr>RootTask := root_task\<rparr>);
     J \<leftarrow> (case root_task of
            None \<Rightarrow> Some J
          | Some r \<Rightarrow>
              if children_count \<noteq> 0
              then upd_task J r (\<lambda>T. T\<lparr>ChildrenTaskCount := ChildrenTaskCount T + word_of_int (if children_count < 0 then 1 else children_count)\<rparr>)
              else Some J);
     T \<leftarrow> get_task J job;
     let pinned = (0 \<le> TaskThread T);
     let (J, next) = (if pinned then (J, TaskThread T) else NextThreadIndex J);
     let i = nat next;
     J \<leftarrow> upd_task J job (\<lambda>T. T\<lparr>ChildrenTaskCount := (if is_function_task T then 1 else 0)\<rparr>);
     J \<leftarrow> (if is_function_task T
          then if pinned
               then do { Q \<leftarrow> push_queue (local_func_task_queues J) i job; Some (J\<lparr>local_func_task_queues := Q\<rparr>) }
               else do { Q \<leftarrow> push_queue (global_func_task_queues J) i job; Some (J\<lparr>global_func_task_queues := Q\<rparr>) }
          else if pinned
               then do { Q \<leftarrow> push_queue (local_coroutine_task_queues J) i job; Some (J\<lparr>local_coroutine_task_queues := Q\<rparr>) }
               else do { Q \<leftarrow> push_queue (global_coroutine_task_queues J) i job; Some (J\<lparr>global_coroutine_task_queues := Q\<rparr>) });
     c \<leftarrow> rd (pending_task_count J) i;
     P \<leftarrow> wr (pending_task_count J) i (c + 1);
     Some (J\<lparr>pending_task_count := P\<rparr>) }"

text \<open>The overload of \<open>AddAsyncJob\<close> for tasks that exist; \<open>w\<close> is the calling worker.\<close>

definition AddAsyncJob_task :: "JobSystem \<Rightarrow> nat option \<Rightarrow> nat \<Rightarrow> nat option \<Rightarrow> int \<Rightarrow> JobSystem option" where
  "AddAsyncJob_task J w task current_task task_count =
     Internal_AddJob J task (case current_task of Some c \<Rightarrow> Some c | None \<Rightarrow> GetThreadCurrentJob J w) task_count"

text \<open>The overloads for functions, with and without a worker, and for new coroutines; the task made is returned.\<close>

definition AddAsyncJob :: "JobSystem \<Rightarrow> nat option \<Rightarrow> int \<Rightarrow> JobSpec \<Rightarrow> nat option \<Rightarrow> int \<Rightarrow> (JobSystem \<times> nat) option" where
  "AddAsyncJob J w pinned_thread_index spec current_task task_count = do {
     let (J, t) = new_task J (case spec of FuncJob body \<Rightarrow> FuncTask_ctor body pinned_thread_index | CoroJob rest \<Rightarrow> CoroutineTask_ctor rest);
     J \<leftarrow> AddAsyncJob_task J w t current_task task_count;
     Some (J, t) }"

text \<open>The overload for vectors: the count goes with the first job.\<close>

fun AddAsyncJob_vector :: "JobSystem \<Rightarrow> nat option \<Rightarrow> JobSpec list \<Rightarrow> nat option \<Rightarrow> int \<Rightarrow> (JobSystem \<times> nat list) option" where
  "AddAsyncJob_vector J w [] current_task job_count = Some (J, [])"
| "AddAsyncJob_vector J w (spec # specs) current_task job_count = do {
     (J, t) \<leftarrow> AddAsyncJob J w (- 1) spec current_task job_count;
     (J, ts) \<leftarrow> AddAsyncJob_vector J w specs current_task 0;
     Some (J, t # ts) }"

section \<open>Running jobs\<close>

definition NotifyRootTask :: "JobSystem \<Rightarrow> nat \<Rightarrow> nat \<Rightarrow> JobSystem option" where
  "NotifyRootTask J w job = do {
     T \<leftarrow> get_task J job;
     J \<leftarrow> upd_task J job (\<lambda>T. T\<lparr>Alive := False\<rparr>);
     case RootTask T of
       None \<Rightarrow> Some J
     | Some r \<Rightarrow> do {
         R \<leftarrow> get_task J r;
         J \<leftarrow> upd_task J r (\<lambda>R. R\<lparr>ChildrenTaskCount := ChildrenTaskCount R - 1\<rparr>);
         if ChildrenTaskCount R = 1 \<and> \<not> is_function_task R
         then Internal_AddJob (J\<lparr>thread_current_job := (thread_current_job J)[w := None]\<rparr>) r (RootTask R) 0
         else Some J } }"

fun FuncTask_calls :: "JobSystem \<Rightarrow> nat \<Rightarrow> (int \<times> JobSpec) list \<Rightarrow> JobSystem option" where
  "FuncTask_calls J w [] = Some J"
| "FuncTask_calls J w ((pin, spec) # calls) = do {
     (J, _) \<leftarrow> AddAsyncJob J (Some w) pin spec None (- 1);
     FuncTask_calls J w calls }"

definition FuncTask_DoTask :: "JobSystem \<Rightarrow> nat \<Rightarrow> nat \<Rightarrow> JobSystem option" where
  "FuncTask_DoTask J w job = do {
     T \<leftarrow> get_task J job;
     FuncTask_calls (J\<lparr>JobLog := JobLog J @ [RanFunction job]\<rparr>) w (FuncBody T) }"

text \<open>\<open>AwaitableTuple\<close>: the number of jobs, and their scheduling when it is not zero.\<close>

definition GetArgSize :: "AwaitArg \<Rightarrow> nat" where
  "GetArgSize a = (case a of One _ \<Rightarrow> 1 | Many specs \<Rightarrow> length specs)"

fun await_suspend :: "JobSystem \<Rightarrow> nat \<Rightarrow> nat \<Rightarrow> AwaitArg list \<Rightarrow> int \<Rightarrow> (JobSystem \<times> nat list) option" where
  "await_suspend J w handle [] job_count = Some (J, [])"
| "await_suspend J w handle (One spec # args) job_count = do {
     (J, t) \<leftarrow> AddAsyncJob J (Some w) (- 1) spec (Some handle) job_count;
     (J, ts) \<leftarrow> await_suspend J w handle args 0;
     Some (J, t # ts) }"
| "await_suspend J w handle (Many specs # args) job_count = do {
     (J, ts) \<leftarrow> AddAsyncJob_vector J (Some w) specs (Some handle) job_count;
     (J, ts') \<leftarrow> await_suspend J w handle args 0;
     Some (J, ts @ ts') }"

text \<open>The destructor of \<open>CoroutineObject\<close>: a coroutine that is done and has a root is destroyed.\<close>

fun destroy_objects :: "JobSystem \<Rightarrow> nat list \<Rightarrow> JobSystem" where
  "destroy_objects J [] = J"
| "destroy_objects J (t # ts) =
     (case get_task J t of
        Some T \<Rightarrow> destroy_objects (if \<not> is_function_task T \<and> CoroDone T \<and> RootTask T \<noteq> None
                                  then J\<lparr>Tasks := (Tasks J)[t := T\<lparr>Alive := False\<rparr>]\<rparr> else J) ts
      | None \<Rightarrow> destroy_objects J ts)"

definition FinalAwaiter :: "JobSystem \<Rightarrow> nat \<Rightarrow> nat \<Rightarrow> JobSystem option" where
  "FinalAwaiter J w handle = do {
     J \<leftarrow> upd_task J handle (\<lambda>T. T\<lparr>CoroDone := True\<rparr>);
     T \<leftarrow> get_task J handle;
     case RootTask T of
       None \<Rightarrow> Some J
     | Some r \<Rightarrow> do {
         R \<leftarrow> get_task J r;
         J \<leftarrow> upd_task J r (\<lambda>R. R\<lparr>ChildrenTaskCount := ChildrenTaskCount R - 1\<rparr>);
         if ChildrenTaskCount R = 1 then AddAsyncJob_task J (Some w) r (RootTask R) 0 else Some J } }"

text \<open>A coroutine runs from one point at which it is suspended to the next, or to its end.\<close>

fun coroutine_loop :: "JobSystem \<Rightarrow> nat \<Rightarrow> nat \<Rightarrow> Suspension list \<Rightarrow> JobSystem option" where
  "coroutine_loop J w handle [] = FinalAwaiter J w handle"
| "coroutine_loop J w handle (AwaitJobs args # rest) =
     (let job_count = sum_list (map GetArgSize args)
      in if job_count = 0 then coroutine_loop J w handle rest
         else do {
           J \<leftarrow> upd_task J handle (\<lambda>T. T\<lparr>CoroRest := rest\<rparr>);
           (J, ts) \<leftarrow> await_suspend J w handle args (int job_count);
           upd_task J handle (\<lambda>T. T\<lparr>Awaited := ts\<rparr>) })"
| "coroutine_loop J w handle (ResumeOn i # rest) = do {
     ready \<leftarrow> (case GetThreadCurrentJob J (Some w) of
                None \<Rightarrow> Some False
              | Some c \<Rightarrow> do { C \<leftarrow> get_task J c; Some (TaskThread C = i) });
     if ready then coroutine_loop J w handle rest
     else do {
       J \<leftarrow> upd_task J handle (\<lambda>T. T\<lparr>CoroRest := rest, TaskThread := i\<rparr>);
       T \<leftarrow> get_task J handle;
       AddAsyncJob_task J (Some w) handle (RootTask T) (- 1) } }"

definition Coroutine_DoTask :: "JobSystem \<Rightarrow> nat \<Rightarrow> nat \<Rightarrow> JobSystem option" where
  "Coroutine_DoTask J w handle = do {
     T \<leftarrow> get_task J handle;
     if CoroDone T then Some J
     else do {
       J \<leftarrow> upd_task (destroy_objects J (Awaited T)) handle (\<lambda>T. T\<lparr>Awaited := []\<rparr>);
       coroutine_loop (J\<lparr>JobLog := JobLog J @ [ResumedCoroutine handle]\<rparr>) w handle (CoroRest T) } }"

text \<open>Taking a job off a queue counts it and makes it the current one.\<close>

definition take_job :: "JobSystem \<Rightarrow> nat \<Rightarrow> nat \<Rightarrow> JobSystem option" where
  "take_job J w job = do {
     c \<leftarrow> rd (pending_task_count J) w;
     P \<leftarrow> wr (pending_task_count J) w (c - 1);
     C \<leftarrow> wr (thread_current_job J) w (Some job);
     n \<leftarrow> rd (jobs_run J) w;
     R \<leftarrow> wr (jobs_run J) w (n + 1);
     Some (J\<lparr>pending_task_count := P, thread_current_job := C, jobs_run := R\<rparr>) }"

definition RunFunction :: "JobSystem \<Rightarrow> nat \<Rightarrow> nat \<Rightarrow> JobSystem option" where
  "RunFunction J w job = do { J \<leftarrow> take_job J w job; J \<leftarrow> FuncTask_DoTask J w job; NotifyRootTask J w job }"

definition RunCoroutine :: "JobSystem \<Rightarrow> nat \<Rightarrow> nat \<Rightarrow> JobSystem option" where
  "RunCoroutine J w job = do { J \<leftarrow> take_job J w job; Coroutine_DoTask J w job }"

text \<open>Each gives the state and whether a job was found.\<close>

definition RunJobFromLocalQueue :: "JobSystem \<Rightarrow> nat \<Rightarrow> (JobSystem \<times> bool) option" where
  "RunJobFromLocalQueue J w = do {
     q \<leftarrow> rd (local_func_task_queues J) w;
     let (q, opt_job) = TryPopFront q;
     let J = J\<lparr>local_func_task_queues := (local_func_task_queues J)[w := q]\<rparr>;
     case opt_job of None \<Rightarrow> Some (J, False) | Some job \<Rightarrow> do { J \<leftarrow> RunFunction J w job; Some (J, True) } }"

definition RunCoroutineFromLocalQueue :: "JobSystem \<Rightarrow> nat \<Rightarrow> (JobSystem \<times> bool) option" where
  "RunCoroutineFromLocalQueue J w = do {
     q \<leftarrow> rd (local_coroutine_task_queues J) w;
     let (q, opt_job) = TryPopFront q;
     let J = J\<lparr>local_coroutine_task_queues := (local_coroutine_task_queues J)[w := q]\<rparr>;
     case opt_job of None \<Rightarrow> Some (J, False) | Some job \<Rightarrow> do { J \<leftarrow> RunCoroutine J w job; Some (J, True) } }"

definition RunJobFromGlobalQueue :: "JobSystem \<Rightarrow> nat \<Rightarrow> (JobSystem \<times> bool) option" where
  "RunJobFromGlobalQueue J w = do {
     q \<leftarrow> rd (global_func_task_queues J) w;
     let (q, opt_job) = TryPopFront q;
     let J = J\<lparr>global_func_task_queues := (global_func_task_queues J)[w := q]\<rparr>;
     case opt_job of None \<Rightarrow> Some (J, False) | Some job \<Rightarrow> do { J \<leftarrow> RunFunction J w job; Some (J, True) } }"

definition RunCoroutineFromGlobalQueue :: "JobSystem \<Rightarrow> nat \<Rightarrow> (JobSystem \<times> bool) option" where
  "RunCoroutineFromGlobalQueue J w = do {
     q \<leftarrow> rd (global_coroutine_task_queues J) w;
     let (q, opt_job) = TryPopFront q;
     let J = J\<lparr>global_coroutine_task_queues := (global_coroutine_task_queues J)[w := q]\<rparr>;
     case opt_job of None \<Rightarrow> Some (J, False) | Some job \<Rightarrow> do { J \<leftarrow> RunCoroutine J w job; Some (J, True) } }"

text \<open>One turn of the loop of a worker: the first of the four queues that has a job; whether one was found.\<close>

definition RunPendingTsak :: "JobSystem \<Rightarrow> nat \<Rightarrow> (JobSystem \<times> bool) option" where
  "RunPendingTsak J w = do {
     (J, found) \<leftarrow> RunJobFromLocalQueue J w;
     if found then Some (J, True) else do {
     (J, found) \<leftarrow> RunCoroutineFromLocalQueue J w;
     if found then Some (J, True) else do {
     (J, found) \<leftarrow> RunJobFromGlobalQueue J w;
     if found then Some (J, True) else RunCoroutineFromGlobalQueue J w } } }"

section \<open>Jobs pinned to a worker\<close>

text \<open>
  The engine adds, from threads outside the system, functions pinned to the worker that owns a
  connection, which add no jobs themselves: the three calls of \<open>AddAsyncJob\<close> in the library, all in
  \<open>GameNetConnection.cpp\<close> (a received packet, the dispatch and the flush of a tick), are of this kind.
\<close>

inductive engine_jobs :: "u32 \<Rightarrow> JobSystem \<Rightarrow> bool" for n where
  start: "engine_jobs n (JobSystem_ctor n)"
| add: "engine_jobs n J \<Longrightarrow> w < unat n \<Longrightarrow> AddAsyncJob J None (int w) (FuncJob []) None (- 1) = Some (J', t) \<Longrightarrow> engine_jobs n J'"
| turn: "engine_jobs n J \<Longrightarrow> w < unat n \<Longrightarrow> RunPendingTsak J w = Some (J', b) \<Longrightarrow> engine_jobs n J'"

text \<open>The functions pinned to a worker in the order they were added, and in the order they ran.\<close>

definition pinned_to :: "JobSystem \<Rightarrow> nat \<Rightarrow> nat list" where
  "pinned_to J w = filter (\<lambda>t. TaskThread (Tasks J ! t) = int w) [0..<length (Tasks J)]"

fun ran_functions :: "JobEvent list \<Rightarrow> nat list" where
  "ran_functions [] = []"
| "ran_functions (RanFunction t # es) = t # ran_functions es"
| "ran_functions (ResumedCoroutine t # es) = ran_functions es"

definition ran_on :: "JobSystem \<Rightarrow> nat \<Rightarrow> nat list" where
  "ran_on J w = filter (\<lambda>t. TaskThread (Tasks J ! t) = int w) (ran_functions (JobLog J))"

definition queue_of :: "JobSystem \<Rightarrow> nat \<Rightarrow> nat list" where
  "queue_of J w = slist_items (local_func_task_queues J ! w)"

definition leaf_task :: "Task \<Rightarrow> bool" where
  "leaf_task T \<longleftrightarrow> is_function_task T \<and> FuncBody T = [] \<and> RootTask T = None"

definition no_items :: "nat SListQueue list \<Rightarrow> nat \<Rightarrow> bool" where
  "no_items qs n \<longleftrightarrow> length qs = n \<and> (\<forall>w < n. slist_items (qs ! w) = [])"

definition jobs_inv :: "u32 \<Rightarrow> JobSystem \<Rightarrow> bool" where
  "jobs_inv n J \<longleftrightarrow>
     system_thread_count J = n \<and> length (local_func_task_queues J) = unat n \<and> length (pending_task_count J) = unat n
     \<and> length (thread_current_job J) = unat n \<and> length (jobs_run J) = unat n
     \<and> no_items (local_coroutine_task_queues J) (unat n) \<and> no_items (global_func_task_queues J) (unat n)
     \<and> no_items (global_coroutine_task_queues J) (unat n)
     \<and> (\<forall>T\<in>set (Tasks J). leaf_task T) \<and> (\<forall>t\<in>set (ran_functions (JobLog J)). t < length (Tasks J))
     \<and> (\<forall>w < unat n. ran_on J w @ queue_of J w = pinned_to J w
          \<and> (\<forall>t\<in>set (queue_of J w). t < length (Tasks J) \<and> Alive (Tasks J ! t))
          \<and> pending_task_count J ! w = word_of_nat (length (queue_of J w)))"

lemma ran_functions_append [simp]: "ran_functions (xs @ ys) = ran_functions xs @ ran_functions ys"
  by (induction xs rule: ran_functions.induct) auto

lemma jobs_inv_start: "jobs_inv n (JobSystem_ctor n)"
  by (simp add: jobs_inv_def JobSystem_ctor_def Let_def no_items_def ran_on_def queue_of_def pinned_to_def slist_items_def SListQueue_ctor_def)

text \<open>What adding a pinned function does.\<close>

lemma add_pinned:
  assumes "jobs_inv n J" "w < unat n"
  shows "AddAsyncJob J None (int w) (FuncJob []) None (- 1) = Some
    (J\<lparr>Tasks := Tasks J @ [(FuncTask_ctor [] (int w))\<lparr>ChildrenTaskCount := 1\<rparr>],
       local_func_task_queues := (local_func_task_queues J)[w := PushBack (local_func_task_queues J ! w) (length (Tasks J))],
       pending_task_count := (pending_task_count J)[w := pending_task_count J ! w + 1]\<rparr>, length (Tasks J))"
  using assms
  by (simp add: jobs_inv_def AddAsyncJob_def new_task_def AddAsyncJob_task_def GetThreadCurrentJob_def Internal_AddJob_def
      upd_task_def get_task_def FuncTask_ctor_def push_queue_def Let_def list_update_append)

lemma jobs_inv_add:
  assumes inv: "jobs_inv n J" and w: "w < unat n"
    and add: "AddAsyncJob J None (int w) (FuncJob []) None (- 1) = Some (J', t)"
  shows "jobs_inv n J'"
proof -
  let ?t = "length (Tasks J)" and ?T = "(FuncTask_ctor [] (int w))\<lparr>ChildrenTaskCount := 1\<rparr>"
  have J': "J' = J\<lparr>Tasks := Tasks J @ [?T],
       local_func_task_queues := (local_func_task_queues J)[w := PushBack (local_func_task_queues J ! w) ?t],
       pending_task_count := (pending_task_count J)[w := pending_task_count J ! w + 1]\<rparr>"
    using add unfolding add_pinned [OF inv w] by (metis option.inject prod.inject)
  have len: "length (local_func_task_queues J) = unat n" "length (pending_task_count J) = unat n"
    and log: "\<And>t. t \<in> set (ran_functions (JobLog J)) \<Longrightarrow> t < ?t"
    and per: "\<And>v. v < unat n \<Longrightarrow> ran_on J v @ queue_of J v = pinned_to J v"
      "\<And>v t. v < unat n \<Longrightarrow> t \<in> set (queue_of J v) \<Longrightarrow> t < ?t \<and> Alive (Tasks J ! t)"
      "\<And>v. v < unat n \<Longrightarrow> pending_task_count J ! v = word_of_nat (length (queue_of J v))"
    using inv unfolding jobs_inv_def by auto
  have ran: "ran_on J' v = ran_on J v" for v
    using log by (auto simp: J' ran_on_def nth_append intro!: filter_cong)
  have queue: "queue_of J' v = queue_of J v @ (if v = w then [?t] else [])" if "v < unat n" for v
    using that len w by (simp add: J' queue_of_def nth_list_update slist.push_items)
  have pinned: "pinned_to J' v = pinned_to J v @ (if v = w then [?t] else [])" for v
    by (auto simp: J' pinned_to_def nth_append FuncTask_ctor_def intro!: filter_cong)
  have per': "ran_on J' v @ queue_of J' v = pinned_to J' v
      \<and> (\<forall>t\<in>set (queue_of J' v). t < length (Tasks J') \<and> Alive (Tasks J' ! t))
      \<and> pending_task_count J' ! v = word_of_nat (length (queue_of J' v))" if v: "v < unat n" for v
  proof (intro conjI ballI)
    show "ran_on J' v @ queue_of J' v = pinned_to J' v"
      using per(1) [OF v] by (simp add: ran queue [OF v] pinned)
    show "pending_task_count J' ! v = word_of_nat (length (queue_of J' v))"
    proof -
      have "pending_task_count J' ! v = (if v = w then pending_task_count J ! v + 1 else pending_task_count J ! v)"
        using len v by (cases "v = w") (simp_all add: J')
      then show ?thesis
        using per(3) [OF v] unfolding queue [OF v] by (cases "v = w") simp_all
    qed
    fix u
    assume "u \<in> set (queue_of J' v)"
    then have "u = ?t \<or> u \<in> set (queue_of J v)"
      by (auto simp: queue [OF v] split: if_splits)
    with per(2) [OF v, of u] have "u = ?t \<or> u < ?t \<and> Alive (Tasks J ! u)"
      by auto
    then show "u < length (Tasks J')" "Alive (Tasks J' ! u)"
      by (auto simp: J' nth_append FuncTask_ctor_def)
  qed
  have "leaf_task ?T"
    by (simp add: leaf_task_def FuncTask_ctor_def)
  moreover have "\<forall>t\<in>set (ran_functions (JobLog J')). t < length (Tasks J')"
    using log by (auto simp: J' less_Suc_eq)
  ultimately show ?thesis
    using inv per' unfolding jobs_inv_def by (simp add: J')
qed

text \<open>A turn of a worker runs the first function of its queue.\<close>

lemma RunFunction_leaf:
  assumes "w < length (pending_task_count J)" "w < length (thread_current_job J)" "w < length (jobs_run J)"
    "t < length (Tasks J)" "Alive (Tasks J ! t)" "FuncBody (Tasks J ! t) = []" "RootTask (Tasks J ! t) = None"
  shows "RunFunction J w t = Some (J\<lparr>pending_task_count := (pending_task_count J)[w := pending_task_count J ! w - 1],
       thread_current_job := (thread_current_job J)[w := Some t], jobs_run := (jobs_run J)[w := jobs_run J ! w + 1],
       JobLog := JobLog J @ [RanFunction t], Tasks := (Tasks J)[t := (Tasks J ! t)\<lparr>Alive := False\<rparr>]\<rparr>)"
  using assms by (simp add: RunFunction_def take_job_def FuncTask_DoTask_def NotifyRootTask_def get_task_def upd_task_def)

lemma turn_pinned:
  assumes inv: "jobs_inv n J" and w: "w < unat n" and q: "queue_of J w = t # ts"
  shows "RunPendingTsak J w = Some
    (J\<lparr>local_func_task_queues := (local_func_task_queues J)[w := fst (TryPopFront (local_func_task_queues J ! w))],
       pending_task_count := (pending_task_count J)[w := pending_task_count J ! w - 1],
       thread_current_job := (thread_current_job J)[w := Some t],
       jobs_run := (jobs_run J)[w := jobs_run J ! w + 1],
       JobLog := JobLog J @ [RanFunction t],
       Tasks := (Tasks J)[t := (Tasks J ! t)\<lparr>Alive := False\<rparr>]\<rparr>, True)"
proof -
  let ?Q = "local_func_task_queues J ! w"
  have t: "t < length (Tasks J)" "Alive (Tasks J ! t)"
    and len: "w < length (local_func_task_queues J)" "w < length (pending_task_count J)" "w < length (thread_current_job J)" "w < length (jobs_run J)"
    using inv w q unfolding jobs_inv_def by auto
  then have leaf: "FuncBody (Tasks J ! t) = []" "RootTask (Tasks J ! t) = None"
    using inv unfolding jobs_inv_def leaf_task_def by (auto dest: nth_mem)
  obtain q' where pop: "TryPopFront ?Q = (q', Some t)"
    using slist.pop_items [of ?Q t ts] q by (auto simp: queue_of_def)
  show ?thesis
    using t leaf len by (simp add: RunPendingTsak_def RunJobFromLocalQueue_def pop RunFunction_leaf)
qed

lemma no_items_pop:
  assumes "no_items qs n" "w < n"
  shows "\<exists>q'. TryPopFront (qs ! w) = (q', None) \<and> no_items (qs[w := q']) n" "rd qs w = Some (qs ! w)"
proof -
  have e: "slist_items (qs ! w) = []" "w < length qs"
    using assms by (auto simp: no_items_def)
  then have "TryPopFront (qs ! w) = (\<lparr>push_stack = [], pop_stack = []\<rparr>, None)"
    by (subst TryPopFront_items(1)) simp
  then show "\<exists>q'. TryPopFront (qs ! w) = (q', None) \<and> no_items (qs[w := q']) n" "rd qs w = Some (qs ! w)"
    using assms e by (auto simp: no_items_def nth_list_update slist_items_def)
qed

lemma turn_idle:
  assumes inv: "jobs_inv n J" and w: "w < unat n" and q: "queue_of J w = []"
  shows "\<exists>q l g k. RunPendingTsak J w = Some
    (J\<lparr>local_func_task_queues := (local_func_task_queues J)[w := q], local_coroutine_task_queues := l,
       global_func_task_queues := g, global_coroutine_task_queues := k\<rparr>, False)
    \<and> slist_items q = [] \<and> no_items l (unat n) \<and> no_items g (unat n) \<and> no_items k (unat n)"
proof -
  let ?Q = "local_func_task_queues J ! w"
  have len: "w < length (local_func_task_queues J)"
    and e: "no_items (local_coroutine_task_queues J) (unat n)" "no_items (global_func_task_queues J) (unat n)"
      "no_items (global_coroutine_task_queues J) (unat n)"
    using inv w unfolding jobs_inv_def by auto
  have pop: "TryPopFront ?Q = (\<lparr>push_stack = [], pop_stack = []\<rparr>, None)"
    using q by (subst TryPopFront_items(1)) (simp add: queue_of_def)
  obtain l g k where "TryPopFront (local_coroutine_task_queues J ! w) = (l, None)" "no_items ((local_coroutine_task_queues J)[w := l]) (unat n)"
    "TryPopFront (global_func_task_queues J ! w) = (g, None)" "no_items ((global_func_task_queues J)[w := g]) (unat n)"
    "TryPopFront (global_coroutine_task_queues J ! w) = (k, None)" "no_items ((global_coroutine_task_queues J)[w := k]) (unat n)"
    using no_items_pop(1) [OF e(1) w] no_items_pop(1) [OF e(2) w] no_items_pop(1) [OF e(3) w] by blast
  then show ?thesis
    using len no_items_pop(2) [OF e(1) w] no_items_pop(2) [OF e(2) w] no_items_pop(2) [OF e(3) w]
    by (intro exI [of _ "\<lparr>push_stack = [], pop_stack = []\<rparr>"] exI [of _ "(local_coroutine_task_queues J)[w := l]"]
        exI [of _ "(global_func_task_queues J)[w := g]"] exI [of _ "(global_coroutine_task_queues J)[w := k]"])
      (simp add: RunPendingTsak_def RunJobFromLocalQueue_def RunCoroutineFromLocalQueue_def RunJobFromGlobalQueue_def
        RunCoroutineFromGlobalQueue_def pop slist_items_def)
qed

lemma ran_on_cong:
  assumes "JobLog J' = JobLog J" "Tasks J' = Tasks J"
  shows "ran_on J' = ran_on J" "pinned_to J' = pinned_to J"
  using assms by (auto simp: ran_on_def pinned_to_def fun_eq_iff)

lemma jobs_inv_turn:
  assumes inv: "jobs_inv n J" and w: "w < unat n"
  shows "\<exists>J' b. RunPendingTsak J w = Some (J', b) \<and> jobs_inv n J' \<and> b = (queue_of J w \<noteq> [])
    \<and> ran_functions (JobLog J') = ran_functions (JobLog J) @ take 1 (queue_of J w)"
proof -
  have len: "length (local_func_task_queues J) = unat n" "length (pending_task_count J) = unat n"
    and leaf: "\<And>T. T \<in> set (Tasks J) \<Longrightarrow> leaf_task T"
    and per: "\<And>v. v < unat n \<Longrightarrow> ran_on J v @ queue_of J v = pinned_to J v"
      "\<And>v t. v < unat n \<Longrightarrow> t \<in> set (queue_of J v) \<Longrightarrow> t < length (Tasks J) \<and> Alive (Tasks J ! t)"
      "\<And>v. v < unat n \<Longrightarrow> pending_task_count J ! v = word_of_nat (length (queue_of J v))"
    using inv unfolding jobs_inv_def by auto
  show ?thesis
  proof (cases "queue_of J w")
    case Nil
    then obtain q l g k where run: "RunPendingTsak J w = Some
        (J\<lparr>local_func_task_queues := (local_func_task_queues J)[w := q], local_coroutine_task_queues := l,
           global_func_task_queues := g, global_coroutine_task_queues := k\<rparr>, False)" (is "_ = Some (?J, False)")
      and e: "slist_items q = []" "no_items l (unat n)" "no_items g (unat n)" "no_items k (unat n)"
      using turn_idle [OF inv w] by blast
    have queue: "queue_of ?J v = queue_of J v" if "v < unat n" for v
      using that e(1) Nil len by (cases "v = w") (simp_all add: queue_of_def)
    have "ran_on ?J = ran_on J" "pinned_to ?J = pinned_to J"
      by (rule ran_on_cong; simp)+
    with queue have "jobs_inv n ?J"
      using inv e(2-4) unfolding jobs_inv_def by simp
    with run Nil show ?thesis
      by auto
  next
    case (Cons t ts)
    let ?Q = "local_func_task_queues J ! w"
    let ?J = "J\<lparr>local_func_task_queues := (local_func_task_queues J)[w := fst (TryPopFront ?Q)],
       pending_task_count := (pending_task_count J)[w := pending_task_count J ! w - 1],
       thread_current_job := (thread_current_job J)[w := Some t],
       jobs_run := (jobs_run J)[w := jobs_run J ! w + 1],
       JobLog := JobLog J @ [RanFunction t],
       Tasks := (Tasks J)[t := (Tasks J ! t)\<lparr>Alive := False\<rparr>]\<rparr>"
    have t: "t < length (Tasks J)" "Alive (Tasks J ! t)"
      using per(2) [OF w, of t] Cons by auto
    have thread: "TaskThread ((Tasks J)[t := (Tasks J ! t)\<lparr>Alive := False\<rparr>] ! u) = TaskThread (Tasks J ! u)" for u
      by (cases "u = t") (simp_all add: t)
    have pinned: "pinned_to ?J v = pinned_to J v" for v
      by (simp add: pinned_to_def thread)
    have member: "u \<in> set (queue_of J v) \<Longrightarrow> v < unat n \<Longrightarrow> TaskThread (Tasks J ! u) = int v" for u v
    proof -
      assume "u \<in> set (queue_of J v)" "v < unat n"
      then have "u \<in> set (pinned_to J v)"
        using per(1) [of v] by (metis Un_iff set_append)
      then show ?thesis
        by (simp add: pinned_to_def)
    qed
    have tw: "TaskThread (Tasks J ! t) = int w"
      using member [of t w] w Cons by simp
    have ran: "ran_on ?J v = ran_on J v @ (if v = w then [t] else [])" for v
      using tw by (simp add: ran_on_def thread)
    have queue: "queue_of ?J v = (if v = w then ts else queue_of J v)" if "v < unat n" for v
      using that len TryPopFront_items(2) [of ?Q] Cons by (simp add: queue_of_def nth_list_update)
    have dist: "distinct (queue_of J w)"
      using per(1) [OF w] by (metis distinct_append distinct_filter distinct_upt pinned_to_def)
    have "leaf_task ((Tasks J ! t)\<lparr>Alive := False\<rparr>)"
      using leaf [OF nth_mem [OF t(1)]] by (simp add: leaf_task_def)
    then have leaves: "\<forall>T\<in>set (Tasks ?J). leaf_task T"
      using leaf set_update_subset_insert [of "Tasks J" t] by auto
    have per': "ran_on ?J v @ queue_of ?J v = pinned_to ?J v
        \<and> (\<forall>u\<in>set (queue_of ?J v). u < length (Tasks ?J) \<and> Alive (Tasks ?J ! u))
        \<and> pending_task_count ?J ! v = word_of_nat (length (queue_of ?J v))" if v: "v < unat n" for v
    proof (intro conjI ballI)
      show "ran_on ?J v @ queue_of ?J v = pinned_to ?J v"
        using per(1) [OF v] Cons unfolding ran queue [OF v] pinned by (cases "v = w") auto
      show "pending_task_count ?J ! v = word_of_nat (length (queue_of ?J v))"
        using per(3) [OF v] per(3) [OF w] Cons len v unfolding queue [OF v] by (cases "v = w") auto
      fix u
      assume "u \<in> set (queue_of ?J v)"
      then have u: "u \<in> set (queue_of J v)" "v = w \<Longrightarrow> u \<noteq> t"
        using Cons dist unfolding queue [OF v] by (auto split: if_splits)
      moreover have "v \<noteq> w \<Longrightarrow> u \<noteq> t"
        using member [OF u(1) v] tw by auto
      ultimately show "u < length (Tasks ?J)" "Alive (Tasks ?J ! u)"
        using per(2) [OF v u(1)] by (cases "v = w"; auto)+
    qed
    have "\<forall>u\<in>set (ran_functions (JobLog ?J)). u < length (Tasks ?J)"
      using inv t unfolding jobs_inv_def by auto
    then have "jobs_inv n ?J"
      using inv leaves per' unfolding jobs_inv_def by simp
    with turn_pinned [OF inv w Cons] Cons show ?thesis
      by auto
  qed
qed

lemma engine_jobs_inv: "engine_jobs n J \<Longrightarrow> jobs_inv n J"
proof (induction rule: engine_jobs.induct)
  case (turn J w J' b)
  then show ?case
    using jobs_inv_turn [OF turn.IH turn.hyps(2)] by auto
qed (auto intro: jobs_inv_start jobs_inv_add)

text \<open>
  C20. The jobs of connections run in order. They are functions that are added from threads outside the job
  system, each pinned to a worker, and that add no jobs themselves, and the engine adds no other jobs. Over
  any run of such additions and of turns of any workers, what a worker ran followed by what waits in its
  queue is what was added for it; its count of pending tasks is the length of the queue; and its next turn
  succeeds and runs exactly the first of them. Coroutines, jobs that are not pinned and functions that add
  jobs are outside this claim; the last can fail (\<open>joins_that_fail\<close>).
\<close>

theorem pinned_jobs_in_order:
  assumes "engine_jobs n J" and "w < unat n"
  shows "ran_on J w @ queue_of J w = pinned_to J w
    \<and> pending_task_count J ! w = word_of_nat (length (queue_of J w))
    \<and> (\<exists>J' b. RunPendingTsak J w = Some (J', b) \<and> b = (queue_of J w \<noteq> [])
          \<and> ran_functions (JobLog J') = ran_functions (JobLog J) @ take 1 (queue_of J w))"
  using engine_jobs_inv [OF assms(1)] jobs_inv_turn [OF engine_jobs_inv [OF assms(1)] assms(2)] assms(2)
  unfolding jobs_inv_def by blast

text \<open>Two jobs for worker 1 of two and one for worker 0, and a turn of worker 1.\<close>

definition two_workers :: "JobSystem option" where
  "two_workers = do {
     (J, _) \<leftarrow> AddAsyncJob (JobSystem_ctor 2) None (int 1) (FuncJob []) None (- 1);
     (J, _) \<leftarrow> AddAsyncJob J None (int 0) (FuncJob []) None (- 1);
     (J, _) \<leftarrow> AddAsyncJob J None (int 1) (FuncJob []) None (- 1);
     (J, _) \<leftarrow> RunPendingTsak J 1;
     Some J }"

lemmas job_run_simps = AddAsyncJob_def AddAsyncJob_task_def GetThreadCurrentJob_def Internal_AddJob_def NextThreadIndex_def
  push_queue_def upd_task_def get_task_def new_task_def JobSystem_ctor_def FuncTask_ctor_def CoroutineTask_ctor_def Let_def
  PushBack_def SListQueue_ctor_def TryPopFront_def pop_entry_def Transition_def RunPendingTsak_def RunJobFromLocalQueue_def
  RunCoroutineFromLocalQueue_def RunJobFromGlobalQueue_def RunCoroutineFromGlobalQueue_def RunFunction_def RunCoroutine_def
  take_job_def FuncTask_DoTask_def Coroutine_DoTask_def NotifyRootTask_def FinalAwaiter_def GetArgSize_def numeral_2_eq_2

lemma two_workers_reached: "\<exists>J. two_workers = Some J \<and> engine_jobs 2 J"
proof -
  obtain J1 t1 where 1: "AddAsyncJob (JobSystem_ctor 2) None (int 1) (FuncJob []) None (- 1) = Some (J1, t1)"
    using add_pinned [OF jobs_inv_start [of 2], of 1] by simp
  have e1: "engine_jobs 2 J1"
    by (rule engine_jobs.add [OF engine_jobs.start _ 1]) simp
  obtain J2 t2 where 2: "AddAsyncJob J1 None (int 0) (FuncJob []) None (- 1) = Some (J2, t2)"
    using add_pinned [OF engine_jobs_inv [OF e1], of 0] by simp
  have e2: "engine_jobs 2 J2"
    by (rule engine_jobs.add [OF e1 _ 2]) simp
  obtain J3 t3 where 3: "AddAsyncJob J2 None (int 1) (FuncJob []) None (- 1) = Some (J3, t3)"
    using add_pinned [OF engine_jobs_inv [OF e2], of 1] by simp
  have e3: "engine_jobs 2 J3"
    by (rule engine_jobs.add [OF e2 _ 3]) simp
  obtain J4 b where 4: "RunPendingTsak J3 1 = Some (J4, b)"
    using jobs_inv_turn [OF engine_jobs_inv [OF e3], of 1] by auto
  have "engine_jobs 2 J4"
    by (rule engine_jobs.turn [OF e3 _ 4]) simp
  then show ?thesis
    using 1 2 3 4 by (simp add: two_workers_def)
qed

theorem pinned_jobs_in_order_witness:
  "\<exists>J. two_workers = Some J \<and> ran_on J 1 @ queue_of J 1 = pinned_to J 1 \<and> pending_task_count J ! 1 = word_of_nat (length (queue_of J 1))"
proof -
  obtain J where J: "two_workers = Some J" "engine_jobs 2 J"
    using two_workers_reached by blast
  have "(1::nat) < unat (2 :: u32)"
    by simp
  from J(1) pinned_jobs_in_order [OF J(2) this] show ?thesis
    by blast
qed

section \<open>Groups of jobs that are not joined\<close>

text \<open>Turns of worker 0 as long as it finds jobs, \<open>k\<close> at most.\<close>

fun turns :: "nat \<Rightarrow> JobSystem \<Rightarrow> (JobSystem \<times> bool) option" where
  "turns 0 J = Some (J, True)"
| "turns (Suc k) J = (case RunPendingTsak J 0 of
     None \<Rightarrow> None
   | Some (J, found) \<Rightarrow> if found then turns k J else Some (J, False))"

definition run_alone :: "JobSpec \<Rightarrow> nat \<Rightarrow> (JobSystem \<times> bool) option" where
  "run_alone spec k = do { (J, _) \<leftarrow> AddAsyncJob (JobSystem_ctor 1) None (- 1) spec None (- 1); turns k J }"

text \<open>A coroutine that waits for functions is resumed when they have run.\<close>

lemma functions_are_joined:
  "\<exists>J. run_alone (CoroJob [AwaitJobs [Many [FuncJob [], FuncJob []], One (FuncJob [])]]) 9 = Some (J, False)
    \<and> JobLog J = [ResumedCoroutine 0, RanFunction 1, RanFunction 2, RanFunction 3, ResumedCoroutine 0] \<and> CoroDone (Tasks J ! 0)"
  by (simp add: run_alone_def job_run_simps eval_nat_numeral)

text \<open>
  Four ways in which waiting goes wrong. When the first element of an awaited group is an empty vector,
  the jobs run but are not counted, and the coroutine is never resumed. When an awaited coroutine moves
  to another worker it is counted twice, and the one that waits is never resumed. A coroutine that was
  added from outside and awaits a coroutine gets it as its root, and counts down the destroyed task at
  its own end. A function that adds a job is deleted before that job counts it down.
\<close>

lemma joins_that_fail:
  "(\<exists>J. run_alone (CoroJob (AwaitJobs [Many [], One (FuncJob [])] # rest)) 9 = Some (J, False)
      \<and> JobLog J = [ResumedCoroutine 0, RanFunction 1] \<and> \<not> CoroDone (Tasks J ! 0) \<and> CoroRest (Tasks J ! 0) = rest)
   \<and> (\<exists>J. run_alone (CoroJob (AwaitJobs [One (CoroJob [ResumeOn 0])] # rest)) 9 = Some (J, False)
      \<and> JobLog J = [ResumedCoroutine 0, ResumedCoroutine 1, ResumedCoroutine 1] \<and> CoroDone (Tasks J ! 1)
      \<and> \<not> CoroDone (Tasks J ! 0) \<and> CoroRest (Tasks J ! 0) = rest)
   \<and> (\<exists>J. run_alone (CoroJob [AwaitJobs [One (CoroJob [])]]) 2 = Some (J, True) \<and> RootTask (Tasks J ! 0) = Some 1
      \<and> RunPendingTsak J 0 = None)
   \<and> (\<exists>J. run_alone (FuncJob [(0, FuncJob [])]) 1 = Some (J, True) \<and> RunPendingTsak J 0 = None)"
proof (intro conjI)
  show "\<exists>J. run_alone (CoroJob (AwaitJobs [Many [], One (FuncJob [])] # rest)) 9 = Some (J, False)
      \<and> JobLog J = [ResumedCoroutine 0, RanFunction 1] \<and> \<not> CoroDone (Tasks J ! 0) \<and> CoroRest (Tasks J ! 0) = rest"
    by (simp add: run_alone_def job_run_simps eval_nat_numeral)
  show "\<exists>J. run_alone (CoroJob (AwaitJobs [One (CoroJob [ResumeOn 0])] # rest)) 9 = Some (J, False)
      \<and> JobLog J = [ResumedCoroutine 0, ResumedCoroutine 1, ResumedCoroutine 1] \<and> CoroDone (Tasks J ! 1)
      \<and> \<not> CoroDone (Tasks J ! 0) \<and> CoroRest (Tasks J ! 0) = rest"
    by (simp add: run_alone_def job_run_simps eval_nat_numeral)
  show "\<exists>J. run_alone (CoroJob [AwaitJobs [One (CoroJob [])]]) 2 = Some (J, True) \<and> RootTask (Tasks J ! 0) = Some 1
      \<and> RunPendingTsak J 0 = None"
    by (simp add: run_alone_def job_run_simps eval_nat_numeral)
  show "\<exists>J. run_alone (FuncJob [(0, FuncJob [])]) 1 = Some (J, True) \<and> RunPendingTsak J 0 = None"
    by (simp add: run_alone_def job_run_simps eval_nat_numeral)
qed

section \<open>Waiting for work\<close>

text \<open>
  A worker that found its queues empty waits, under the mutex of its signal, until the count of pending
  tasks is positive; a producer pushes a task, then counts it under the mutex, then notifies. \<open>Uncounted\<close>
  and \<open>Unnotified\<close> are the producers between these steps. The worker pops a task and then takes it off the
  count; \<open>Taken\<close> says that it is between the two. The predicate is looked at when the wait begins and at each
  notification. The end of the engine, which also wakes the worker, is left out.
\<close>

record WorkerSignal =
  Queued :: nat
  PendingCount :: u64
  Uncounted :: nat
  Unnotified :: nat
  Taken :: bool
  Asleep :: bool

inductive signal_step :: "WorkerSignal \<Rightarrow> WorkerSignal \<Rightarrow> bool" where
  push: "signal_step s (s\<lparr>Queued := Queued s + 1, Uncounted := Uncounted s + 1\<rparr>)"
| counted: "0 < Uncounted s \<Longrightarrow>
    signal_step s (s\<lparr>PendingCount := PendingCount s + 1, Uncounted := Uncounted s - 1, Unnotified := Unnotified s + 1\<rparr>)"
| notify: "0 < Unnotified s \<Longrightarrow>
    signal_step s (s\<lparr>Unnotified := Unnotified s - 1, Asleep := Asleep s \<and> \<not> 0 < PendingCount s\<rparr>)"
| pop: "\<not> Asleep s \<Longrightarrow> \<not> Taken s \<Longrightarrow> 0 < Queued s \<Longrightarrow> signal_step s (s\<lparr>Queued := Queued s - 1, Taken := True\<rparr>)"
| subtract: "Taken s \<Longrightarrow> signal_step s (s\<lparr>PendingCount := PendingCount s - 1, Taken := False\<rparr>)"
| wait: "\<not> Asleep s \<Longrightarrow> \<not> Taken s \<Longrightarrow> \<not> 0 < PendingCount s \<Longrightarrow> signal_step s (s\<lparr>Asleep := True\<rparr>)"

inductive signal_run :: "WorkerSignal \<Rightarrow> bool" where
  start: "signal_run \<lparr>Queued = 0, PendingCount = 0, Uncounted = 0, Unnotified = 0, Taken = False, Asleep = False\<rparr>"
| step: "signal_run s \<Longrightarrow> signal_step s s' \<Longrightarrow> signal_run s'"

lemma signal_invariant:
  "signal_run s \<Longrightarrow> PendingCount s = word_of_nat (Queued s) + (if Taken s then 1 else 0) - word_of_nat (Uncounted s)
     \<and> (Asleep s \<longrightarrow> \<not> Taken s) \<and> (Asleep s \<and> 0 < PendingCount s \<longrightarrow> 0 < Unnotified s)"
proof (induction rule: signal_run.induct)
  case (step s s')
  from step.hyps(2) step.IH show ?case
    by cases (auto simp: of_nat_diff algebra_simps)
qed simp

text \<open>
  C15. No wake-up is lost: while a worker sleeps and a task waits in its queues, a producer is on its way
  that will count the task or notify the worker; and the notification that finds the task counted wakes
  the worker. A count below zero, of a task taken before it was counted, does not put a worker to sleep.
\<close>

theorem no_lost_wakeup:
  assumes "signal_run s" and "Queued s < 2 ^ 64" and "0 < Queued s" and "Asleep s"
  shows "0 < Uncounted s \<or> 0 < Unnotified s \<and> signal_step s (s\<lparr>Unnotified := Unnotified s - 1, Asleep := False\<rparr>)"
proof (cases "Uncounted s = 0")
  case True
  then have "PendingCount s = word_of_nat (Queued s)"
    using signal_invariant [OF assms(1)] assms(4) by simp
  then have "unat (PendingCount s) = Queued s"
    using assms(2) by (simp add: unat_of_nat)
  then have pos: "0 < PendingCount s"
    using assms(3) by (simp add: word_gt_0 unat_eq_0 [symmetric])
  then have "0 < Unnotified s"
    using signal_invariant [OF assms(1)] assms(4) by simp
  then show ?thesis
    using pos signal_step.notify [of s] by simp
qed simp

text \<open>A task is pushed and counted while the worker sleeps.\<close>

theorem no_lost_wakeup_witness:
  "\<exists>s. signal_run s \<and> Asleep s \<and> Queued s = 1 \<and> 0 < Unnotified s"
proof -
  let ?s = "\<lambda>q c u n a. \<lparr>Queued = q, PendingCount = c, Uncounted = u, Unnotified = n, Taken = False, Asleep = a\<rparr>"
  have "signal_run (?s 0 0 0 0 True)"
    by (rule signal_run.step [OF signal_run.start]) (use signal_step.wait [of "?s 0 0 0 0 False"] in simp)
  then have "signal_run (?s 1 0 1 0 True)"
    by (rule signal_run.step) (use signal_step.push [of "?s 0 0 0 0 True"] in simp)
  then have run: "signal_run (?s 1 1 0 1 True)"
    by (rule signal_run.step) (use signal_step.counted [of "?s 1 0 1 0 True"] in simp)
  from no_lost_wakeup [OF this] have "0 < Unnotified (?s 1 1 0 1 True)"
    by simp
  with run show ?thesis
    by (intro exI [of _ "?s 1 1 0 1 True"]) simp
qed

end
