(* ===== verification/DriverM.thy ===== *)
theory DriverM
  imports UdpProc Simulator
begin

text \<open>
  Network, \<open>driver/NetDriver\<close> and \<open>IpNetDriver\<close>: the driver owns the connections of a host. A datagram
  passes the simulator and goes to the connection of its address or, when there is none, to the
  handshake; a client that completes it becomes a connection, and a connection that closes leaves all the
  tables. What a connection does with a datagram and at a tick are jobs of the worker that owns it.

  Connections and readers are shared objects in two stores. A job holds a weak pointer to its connection and
  is one step, so it does nothing when the connection is in none of the tables any more. The messages that
  the protocol handlers send while a channel hands them its messages are an input of the job of a tick. The jobs of a worker are a list, taken from the front
  (theory \<open>JobM\<close>). Clock values and random draws are inputs. Calls out of the driver, to the socket and
  to the protocol handler, are outputs in their order. The storage of an address has no place for an
  IPv6 address: the sockets of the engine are IPv4 sockets.
\<close>

datatype DriverJob = ReceivedRawPacketJob nat nat | TickDispatchJob nat | TickFlushJob nat

datatype DriverOut =
    Datagram SockAddr OutSendPacketEvent
  | AddPlayerConnection u32
  | RemovePlayerConnection u32
  | HandshakeCompleted
  | HandleMessages u32 "(string \<times> RecvMessageReader) list"

record IpNetDriver =
  DEnv :: UdpEnv
  ConnectionlessHandler :: PacketPipeline
  ServerConnection :: "nat option"
  CStore :: "NetConnection list"
  OwnerThreadId :: "nat list"
  RemoteConnections :: "nat list"
  HashToConnectionMap :: "(u64 \<times> nat) list"
  ConnectionMap :: "(u32 \<times> nat) list"
  PlayerUniqueIdAllocator :: IDAllocator
  InboundSimulator :: PacketSimulator
  OutboundSimulator :: PacketSimulator
  RStore :: "RecvPacketReader list"
  WorkerJobs :: "DriverJob list list"
  NextOwnerIndex :: u32
  LastTickTime :: int
  LastCacheCleanupTime :: int
  LastDeltaTimeMs :: u32
  ElapsedTimeUsCount :: u64
  CacheCleanupIndex :: u32
  StatDatagramsReceived :: u64
  StatBytesReceived :: u64
  StatDatagramsSent :: u64
  StatBytesSent :: u64

text \<open>
  The inputs of one operation: clocks, the filler of handshake packets, draws, uninitialised memory, and
  the messages a protocol handler sends while it handles those of a channel.
\<close>

record DriverInputs =
  INow :: int
  INowUs :: u64
  IRand :: "u8 list"
  IDropDraw :: u32
  IDuplicateDraw :: u32
  IPick :: nat
  ISendDraw :: "nat \<Rightarrow> u32"
  IJunk :: int
  ITicks :: "u64 \<times> u64 \<times> u64"
  ISent :: "nat \<Rightarrow> (NetMessage \<times> u8 \<times> u32) list"

abbreviation DSetting :: "IpNetDriver \<Rightarrow> DriverSetting" where
  "DSetting D \<equiv> ESetting (DEnv D)"

section \<open>Time\<close>

text \<open>\<open>1e-6\<close> as a double.\<close>

definition GetElapsedTimeSec :: "IpNetDriver \<Rightarrow> u64" where
  "GetElapsedTimeSec D = dmul_pos (d_of_u64 (ElapsedTimeUsCount D)) 0x3EB0C6F7A0B5ED8D"

definition GetLastDeltaTimeMs :: "IpNetDriver \<Rightarrow> u32" where
  "GetLastDeltaTimeMs D = LastDeltaTimeMs D"

section \<open>The tables of connections\<close>

text \<open>
  The members that hold a connection. A step of this model is a whole operation, so the copies of these
  references that an operation makes, as the one \<open>GetClientConnections\<close> returns or the one a running job
  gets from its weak pointer, are gone when the next step begins.
\<close>

definition conn_alive :: "IpNetDriver \<Rightarrow> nat \<Rightarrow> bool" where
  "conn_alive D c \<longleftrightarrow> ServerConnection D = Some c \<or> c \<in> set (RemoteConnections D)
     \<or> c \<in> snd ` set (HashToConnectionMap D) \<or> c \<in> snd ` set (ConnectionMap D)"

definition GetServerConnection :: "IpNetDriver \<Rightarrow> nat option" where
  "GetServerConnection D = (if IsClient (DSetting D) then ServerConnection D else None)"

definition IpNetDriver_FindConnection :: "IpNetDriver \<Rightarrow> u32 \<Rightarrow> nat option" where
  "IpNetDriver_FindConnection D PlayerId = map_of (ConnectionMap D) PlayerId"

definition IpNetDriver_RemoveConnection :: "IpNetDriver \<Rightarrow> nat \<Rightarrow> (IpNetDriver \<times> DriverOut list) option" where
  "IpNetDriver_RemoveConnection D c = do {
     conn \<leftarrow> rd (CStore D) c;
     let D = D\<lparr>HashToConnectionMap := filter (\<lambda>Entry. snd Entry \<noteq> c) (HashToConnectionMap D),
               ConnectionMap := filter (\<lambda>Entry. fst Entry \<noteq> UniqueConnectionId conn) (ConnectionMap D),
               RemoteConnections := filter (\<lambda>Existing. Existing \<noteq> c) (RemoteConnections D)\<rparr>;
     Some (D, [RemovePlayerConnection (UniqueConnectionId conn)]) }"

text \<open>A connection after an operation on it; when the operation has closed it the driver removes it.\<close>

definition store_connection :: "IpNetDriver \<Rightarrow> nat \<Rightarrow> NetConnection \<Rightarrow> (IpNetDriver \<times> DriverOut list) option" where
  "store_connection D c conn = do {
     old \<leftarrow> rd (CStore D) c;
     S \<leftarrow> wr (CStore D) c conn;
     let D = D\<lparr>CStore := S\<rparr>;
     if length (RemoveCalls old) < length (RemoveCalls conn) then IpNetDriver_RemoveConnection D c else Some (D, []) }"

definition CreateInitialChannels :: "NetConnection \<Rightarrow> NetConnection option" where
  "CreateInitialChannels c = do {
     (c, _) \<leftarrow> CreateChannelByName c ''Control'' 0;
     (c, _) \<leftarrow> CreateChannelByName c ''Actor'' 1;
     Some c }"

definition AssignConnectionThreadIndex :: "IpNetDriver \<Rightarrow> nat \<Rightarrow> IpNetDriver option" where
  "AssignConnectionThreadIndex D c =
     (let ThreadCount = word_of_nat (length (WorkerJobs D)) :: u32;
          (D, Assigned) = (if ThreadCount = 0 then (D, 0)
                           else (D\<lparr>NextOwnerIndex := NextOwnerIndex D + 1\<rparr>, NextOwnerIndex D mod ThreadCount))
      in do { Os \<leftarrow> wr (OwnerThreadId D) c (unat Assigned); Some (D\<lparr>OwnerThreadId := Os\<rparr>) })"

text \<open>\<open>insert\<close> of the two maps keeps an entry that is there.\<close>

definition AddClient_Internal :: "IpNetDriver \<Rightarrow> u64 \<Rightarrow> u32 \<Rightarrow> nat \<Rightarrow> IpNetDriver option" where
  "AddClient_Internal D Key NewConnectionId c =
     AssignConnectionThreadIndex
       (D\<lparr>HashToConnectionMap := (if map_of (HashToConnectionMap D) Key = None then HashToConnectionMap D @ [(Key, c)] else HashToConnectionMap D),
          ConnectionMap := (if map_of (ConnectionMap D) NewConnectionId = None then ConnectionMap D @ [(NewConnectionId, c)] else ConnectionMap D),
          RemoteConnections := RemoteConnections D @ [c]\<rparr>) c"

definition IpNetDriver_AddClient :: "DriverInputs \<Rightarrow> IpNetDriver \<Rightarrow> u64 \<Rightarrow> PendingRemoteConnection \<Rightarrow> (IpNetDriver \<times> DriverOut list) option" where
  "IpNetDriver_AddClient inp D Key PendingConnection = do {
     let (a, NewConnectionId) = Allocate (PlayerUniqueIdAllocator D);
     let ReturnVal = InitRemoteConnection (DSetting D) (NetConnection_ctor (IJunk inp)) (Address PendingConnection) USOCK_Open NewConnectionId (INow inp);
     let ReturnVal = (if ProcessorContainer (ConnectionlessHandler D) \<noteq> []
                      then fst (InitSequence ReturnVal (sint (ClientSequence PendingConnection)) (sint (ServerSequence PendingConnection)))
                      else ReturnVal);
     ReturnVal \<leftarrow> CreateInitialChannels ReturnVal;
     let c = length (CStore D);
     let D = D\<lparr>PlayerUniqueIdAllocator := a, CStore := CStore D @ [ReturnVal], OwnerThreadId := OwnerThreadId D @ [0]\<rparr>;
     D \<leftarrow> AddClient_Internal D Key NewConnectionId c;
     Some (D, [AddPlayerConnection NewConnectionId]) }"

section \<open>Sending\<close>

definition IpNetDriver_SendToRemote :: "IpNetDriver \<Rightarrow> SockAddr \<Rightarrow> OutSendPacketEvent \<Rightarrow> u32 \<Rightarrow> IpNetDriver \<times> DriverOut list" where
  "IpNetDriver_SendToRemote D RemoteAddress Packet Draw =
     (if ShouldDropOutbound (OutboundSimulator D) Draw then (D, [])
      else (D\<lparr>StatDatagramsSent := StatDatagramsSent D + 1,
              StatBytesSent := StatBytesSent D + word_of_nat (length (concat (wsaBufs Packet)))\<rparr>,
            [Datagram RemoteAddress Packet]))"

definition SendRawNetMessage :: "IpNetDriver \<Rightarrow> NetMessage \<Rightarrow> u8 \<Rightarrow> u32 \<Rightarrow> (IpNetDriver \<times> bool) option" where
  "SendRawNetMessage D Message ChannelId PlayerId =
     (case (if IsServer (DSetting D) then IpNetDriver_FindConnection D PlayerId else GetServerConnection D) of
        None \<Rightarrow> Some (D, False)
      | Some c \<Rightarrow> do {
          conn \<leftarrow> rd (CStore D) c;
          (conn, sent) \<leftarrow> SendNetMessage conn Message (ucast ChannelId);
          Some (D\<lparr>CStore := (CStore D)[c := conn]\<rparr>, sent) })"

section \<open>Effects of the handshake\<close>

text \<open>The calls the packet pipeline makes on the driver, in their order.\<close>

fun exec_effects :: "DriverInputs \<Rightarrow> nat \<Rightarrow> IpNetDriver \<Rightarrow> UdpEffect list \<Rightarrow> (IpNetDriver \<times> DriverOut list) option" where
  "exec_effects inp k D [] = Some (D, [])"
| "exec_effects inp k D (SendToRemote a e # fx) = do {
     let (D, out) = IpNetDriver_SendToRemote D a e (ISendDraw inp k);
     (D, outs) \<leftarrow> exec_effects inp (Suc k) D fx;
     Some (D, out @ outs) }"
| "exec_effects inp k D (AddClient Key p # fx) = do {
     (D, out) \<leftarrow> IpNetDriver_AddClient inp D Key p;
     (D, outs) \<leftarrow> exec_effects inp (Suc k) D fx;
     Some (D, out @ outs) }"
| "exec_effects inp k D (BeginNMTHello # fx) = do {
     let (P, called) = CompleteHandshake (ConnectionlessHandler D);
     (D, outs) \<leftarrow> exec_effects inp (Suc k) (D\<lparr>ConnectionlessHandler := P\<rparr>) fx;
     Some (D, (if called then [HandshakeCompleted] else []) @ outs) }"

text \<open>
  The pipeline with a reader, its effects on the server connection, the reader and the driver. The
  elapsed time does not change during the call.
\<close>

definition HandlerIncoming :: "DriverInputs \<Rightarrow> bool \<Rightarrow> IpNetDriver \<Rightarrow> nat \<Rightarrow> (IpNetDriver \<times> DriverOut list) option" where
  "HandlerIncoming inp bConnectionless D r = do {
     Reader \<leftarrow> rd (RStore D) r;
     let T = GetElapsedTimeSec D;
     let s = GetServerConnection D;
     let ServerConn = (case s of None \<Rightarrow> None | Some s \<Rightarrow> rd (CStore D) s);
     (P, ServerConn, Reader, fx) \<leftarrow>
       (if bConnectionless
        then PacketPipeline_IncomingConnectionless (DEnv D) (ConnectionlessHandler D) ServerConn Reader T T T (IRand inp) (INowUs inp)
        else PacketPipeline_Incoming (DEnv D) (ConnectionlessHandler D) ServerConn Reader T T T (IRand inp) (INowUs inp));
     let D = D\<lparr>ConnectionlessHandler := P, RStore := (RStore D)[r := Reader],
               CStore := (case (s, ServerConn) of (Some s, Some conn) \<Rightarrow> (CStore D)[s := conn] | _ \<Rightarrow> CStore D)\<rparr>;
     exec_effects inp 0 D fx }"

section \<open>Receiving\<close>

definition CompareEndpoints :: "SockAddr \<Rightarrow> SockAddr \<Rightarrow> bool" where
  "CompareEndpoints a b \<longleftrightarrow> ByteSwap16 (sin_port a) = ByteSwap16 (sin_port b) \<and> ss_family a = ss_family b
     \<and> ss_family a = AF_INET \<and> sin_addr a = sin_addr b"

definition ProcessConnectionlessPacket :: "DriverInputs \<Rightarrow> IpNetDriver \<Rightarrow> nat \<Rightarrow> (IpNetDriver \<times> DriverOut list) option" where
  "ProcessConnectionlessPacket inp D r =
     (if ProcessorContainer (ConnectionlessHandler D) \<noteq> [] then HandlerIncoming inp True D r else Some (D, []))"

text \<open>A job for the worker that owns the connection.\<close>

definition AddConnectionJob :: "IpNetDriver \<Rightarrow> nat \<Rightarrow> DriverJob \<Rightarrow> IpNetDriver option" where
  "AddConnectionJob D c job = do {
     w \<leftarrow> rd (OwnerThreadId D) c;
     q \<leftarrow> rd (WorkerJobs D) w;
     W \<leftarrow> wr (WorkerJobs D) w (queue_push q job);
     Some (D\<lparr>WorkerJobs := W\<rparr>) }"

definition ReceivedRawPacket :: "IpNetDriver \<Rightarrow> nat \<Rightarrow> nat \<Rightarrow> IpNetDriver option" where
  "ReceivedRawPacket D c r = AddConnectionJob D c (ReceivedRawPacketJob c r)"

text \<open>
  The dispatch of a datagram: the connection that is found under the lock of the tables, and the call on
  it. The two are one step here; the plain pointer the code keeps after the lock is not followed across
  the steps of other threads.
\<close>

definition DispatchLookup :: "IpNetDriver \<Rightarrow> nat \<Rightarrow> nat option option" where
  "DispatchLookup D r = do {
     Reader \<leftarrow> rd (RStore D) r;
     Some (map_of (HashToConnectionMap D) (RHashKey Reader)) }"

definition DispatchDeliver :: "DriverInputs \<Rightarrow> IpNetDriver \<Rightarrow> nat option \<Rightarrow> nat \<Rightarrow> (IpNetDriver \<times> DriverOut list) option" where
  "DispatchDeliver inp D Connection r =
     (case Connection of
        None \<Rightarrow> ProcessConnectionlessPacket inp D r
      | Some c \<Rightarrow> do { D \<leftarrow> ReceivedRawPacket D c r; Some (D, []) })"

text \<open>A server connection whose address was never set has a null pointer for it.\<close>

definition DispatchReceivedDatagram :: "DriverInputs \<Rightarrow> IpNetDriver \<Rightarrow> nat \<Rightarrow> (IpNetDriver \<times> DriverOut list) option" where
  "DispatchReceivedDatagram inp D r = do {
     Reader \<leftarrow> rd (RStore D) r;
     let MyServerConnection = (case GetServerConnection D of None \<Rightarrow> None | Some s \<Rightarrow> rd (CStore D) s);
     if IsClient (DSetting D) \<and> MyServerConnection \<noteq> None \<and> ss_family (ConnAddr (the MyServerConnection)) = 0 then None
     else if IsClient (DSetting D) \<and> MyServerConnection \<noteq> None \<and> CompareEndpoints (ConnAddr (the MyServerConnection)) (RAddress Reader)
     then do { D \<leftarrow> ReceivedRawPacket D (the (GetServerConnection D)) r; Some (D, []) }
     else if IsServer (DSetting D) then do {
       Connection \<leftarrow> DispatchLookup D r;
       DispatchDeliver inp D Connection r }
     else Some (D, []) }"

fun dispatch_all :: "(nat \<Rightarrow> DriverInputs) \<Rightarrow> nat \<Rightarrow> IpNetDriver \<Rightarrow> nat list \<Rightarrow> (IpNetDriver \<times> DriverOut list) option" where
  "dispatch_all inp k D [] = Some (D, [])"
| "dispatch_all inp k D (r # rs) = do {
     (D, out) \<leftarrow> DispatchReceivedDatagram (inp k) D r;
     (D, outs) \<leftarrow> dispatch_all inp (Suc k) D rs;
     Some (D, out @ outs) }"

definition RecvCompletionEvent :: "(nat \<Rightarrow> DriverInputs) \<Rightarrow> IpNetDriver \<Rightarrow> InRecvPacketEvent \<Rightarrow> nat \<Rightarrow> (IpNetDriver \<times> DriverOut list) option" where
  "RecvCompletionEvent inp D Event NumOfBytes = do {
     let D = D\<lparr>StatDatagramsReceived := StatDatagramsReceived D + 1, StatBytesReceived := StatBytesReceived D + word_of_nat NumOfBytes\<rparr>;
     Reader \<leftarrow> RecvPacketReader_ctor Event NumOfBytes;
     let r = length (RStore D);
     (Sim, rs) \<leftarrow> Process (InboundSimulator D) r (IDropDraw (inp 0)) (IDuplicateDraw (inp 0)) (IPick (inp 0)) (INow (inp 0));
     dispatch_all inp 0 (D\<lparr>RStore := RStore D @ [Reader], InboundSimulator := Sim\<rparr>) rs }"

section \<open>Jobs\<close>

text \<open>The reader is shared: the header a connection reads from it is consumed for everyone who holds it.\<close>

definition RunReceivedRawPacket :: "DriverInputs \<Rightarrow> IpNetDriver \<Rightarrow> nat \<Rightarrow> nat \<Rightarrow> (IpNetDriver \<times> DriverOut list) option" where
  "RunReceivedRawPacket inp D c r = do {
     (D, out) \<leftarrow> HandlerIncoming inp False D r;
     Reader \<leftarrow> rd (RStore D) r;
     if bConnectionlessPacket Reader then Some (D, out)
     else do {
       conn \<leftarrow> rd (CStore D) c;
       (_, Buffer, _) \<leftarrow> ReadHeader NotificationHeader_ctor (RHeader Reader);
       conn \<leftarrow> ReceivedPacket conn Reader (INow inp) (INowUs inp);
       (D, out') \<leftarrow> store_connection (D\<lparr>RStore := (RStore D)[r := Reader\<lparr>RHeader := Buffer\<rparr>]\<rparr>) c conn;
       Some (D, out @ out') } }"

text \<open>
  The tick of a channel: its messages go to the protocol handler, which may send messages of its own
  before the channel packs what is registered into bunches.
\<close>

fun send_messages :: "IpNetDriver \<Rightarrow> (NetMessage \<times> u8 \<times> u32) list \<Rightarrow> IpNetDriver option" where
  "send_messages D [] = Some D"
| "send_messages D ((Message, ChannelId, PlayerId) # ms) = do {
     (D, _) \<leftarrow> SendRawNetMessage D Message ChannelId PlayerId;
     send_messages D ms }"

definition set_channel :: "NetConnection \<Rightarrow> nat \<Rightarrow> NetChannel \<Rightarrow> NetConnection" where
  "set_channel conn i ch = conn\<lparr>Channels := (Channels conn)[i := Some ch]\<rparr>"

definition Channel_Tick :: "DriverInputs \<Rightarrow> IpNetDriver \<Rightarrow> nat \<Rightarrow> nat \<Rightarrow> (IpNetDriver \<times> DriverOut list) option" where
  "Channel_Tick inp D c i = do {
     conn \<leftarrow> rd (CStore D) c;
     slot \<leftarrow> rd (Channels conn) i;
     case slot of
       None \<Rightarrow> Some (D, [])
     | Some ch \<Rightarrow> do {
         let (ch, handled) = DispatchPendingMessage ch;
         D \<leftarrow> send_messages (D\<lparr>CStore := (CStore D)[c := set_channel conn i ch]\<rparr>) (ISent inp i);
         conn \<leftarrow> rd (CStore D) c;
         slot \<leftarrow> rd (Channels conn) i;
         ch \<leftarrow> slot;
         let (t0, t1, t2) = ITicks inp;
         ch \<leftarrow> TickFlush ch t0 t1 t2;
         Some (D\<lparr>CStore := (CStore D)[c := set_channel conn i ch]\<rparr>,
               if handled = [] then [] else [HandleMessages (UniqueConnectionId conn) (map (Pair (ChName ch)) handled)]) } }"

fun tick_channels :: "DriverInputs \<Rightarrow> IpNetDriver \<Rightarrow> nat \<Rightarrow> nat list \<Rightarrow> (IpNetDriver \<times> DriverOut list) option" where
  "tick_channels inp D c [] = Some (D, [])"
| "tick_channels inp D c (i # is) = do {
     (D, out) \<leftarrow> Channel_Tick inp D c i;
     (D, outs) \<leftarrow> tick_channels inp D c is;
     Some (D, out @ outs) }"

definition RunTickDispatch :: "DriverInputs \<Rightarrow> IpNetDriver \<Rightarrow> nat \<Rightarrow> (IpNetDriver \<times> DriverOut list) option" where
  "RunTickDispatch inp D c = do {
     conn \<leftarrow> rd (CStore D) c;
     conn \<leftarrow> DispatchPendingPacket (IsServer (DSetting D)) conn;
     (D, out) \<leftarrow> store_connection D c conn;
     (D, handled) \<leftarrow> tick_channels inp D c [0..<length (Channels conn)];
     conn \<leftarrow> rd (CStore D) c;
     conn \<leftarrow> AssembleOutgoingPackets (DSetting D) conn (INow inp);
     (D, out') \<leftarrow> store_connection D c conn;
     Some (D, out @ handled @ out') }"

fun send_all :: "DriverInputs \<Rightarrow> nat \<Rightarrow> IpNetDriver \<Rightarrow> SockAddr \<Rightarrow> OutSendPacketEvent list \<Rightarrow> IpNetDriver \<times> DriverOut list" where
  "send_all inp k D a [] = (D, [])"
| "send_all inp k D a (e # es) =
     (let (D, out) = IpNetDriver_SendToRemote D a e (ISendDraw inp k); (D, outs) = send_all inp (Suc k) D a es in (D, out @ outs))"

text \<open>The headers are written by the only processor of the pipeline.\<close>

definition RunTickFlush :: "DriverInputs \<Rightarrow> IpNetDriver \<Rightarrow> nat \<Rightarrow> (IpNetDriver \<times> DriverOut list) option" where
  "RunTickFlush inp D c = do {
     conn \<leftarrow> rd (CStore D) c;
     U \<leftarrow> rd (ProcessorContainer (ConnectionlessHandler D)) 0;
     (conn, es) \<leftarrow> GameNetConnection_TickFlush (UCfg U) conn (INowUs inp) (INow inp);
     Some (send_all inp 0 (D\<lparr>CStore := (CStore D)[c := conn]\<rparr>) (ConnAddr conn) es) }"

definition job_connection :: "DriverJob \<Rightarrow> nat" where
  "job_connection job = (case job of ReceivedRawPacketJob c r \<Rightarrow> c | TickDispatchJob c \<Rightarrow> c | TickFlushJob c \<Rightarrow> c)"

text \<open>The next job of a worker, if it has one.\<close>

definition RunConnectionJob :: "DriverInputs \<Rightarrow> IpNetDriver \<Rightarrow> nat \<Rightarrow> (IpNetDriver \<times> DriverOut list) option" where
  "RunConnectionJob inp D w = do {
     q \<leftarrow> rd (WorkerJobs D) w;
     let (q, opt_job) = queue_try_pop q;
     let D = D\<lparr>WorkerJobs := (WorkerJobs D)[w := q]\<rparr>;
     case opt_job of
       None \<Rightarrow> Some (D, [])
     | Some job \<Rightarrow>
         if \<not> conn_alive D (job_connection job) then Some (D, [])
         else (case job of
                 ReceivedRawPacketJob c r \<Rightarrow> RunReceivedRawPacket inp D c r
               | TickDispatchJob c \<Rightarrow> RunTickDispatch inp D c
               | TickFlushJob c \<Rightarrow> RunTickFlush inp D c) }"

section \<open>Ticks\<close>

fun add_jobs :: "IpNetDriver \<Rightarrow> DriverJob list \<Rightarrow> IpNetDriver option" where
  "add_jobs D [] = Some D"
| "add_jobs D (job # jobs) = do { D \<leftarrow> AddConnectionJob D (job_connection job) job; add_jobs D jobs }"

definition IpNetDriver_TickDispatch :: "IpNetDriver \<Rightarrow> IpNetDriver option" where
  "IpNetDriver_TickDispatch D = add_jobs D (map TickDispatchJob (RemoteConnections D))"

definition IpNetDriver_TickFlush :: "IpNetDriver \<Rightarrow> IpNetDriver option" where
  "IpNetDriver_TickFlush D = add_jobs D (map TickFlushJob (RemoteConnections D))"

definition timed_out :: "DriverSetting \<Rightarrow> int \<Rightarrow> NetConnection \<Rightarrow> bool" where
  "timed_out S Now Conn \<longleftrightarrow>
     (case GetTimeoutValue S Conn of None \<Rightarrow> False | Some T \<Rightarrow> secs_gt (Now - LastReceiveTime Conn) T)"

text \<open>The loop runs over a copy of the list of connections.\<close>

fun timeouts_loop :: "int \<Rightarrow> IpNetDriver \<Rightarrow> nat list \<Rightarrow> (IpNetDriver \<times> DriverOut list) option" where
  "timeouts_loop Now D [] = Some (D, [])"
| "timeouts_loop Now D (c # cs) = do {
     Conn \<leftarrow> rd (CStore D) c;
     (D, out) \<leftarrow> (if CState Conn \<noteq> USOCK_Closed \<and> timed_out (DSetting D) Now Conn
                then store_connection D c (Close Conn ''Timeout'') else Some (D, []));
     (D, outs) \<leftarrow> timeouts_loop Now D cs;
     Some (D, out @ outs) }"

definition CheckConnectionTimeouts :: "int \<Rightarrow> IpNetDriver \<Rightarrow> (IpNetDriver \<times> DriverOut list) option" where
  "CheckConnectionTimeouts Now D =
     (if bNoTimeouts (DSetting D) then Some (D, []) else timeouts_loop Now D (RemoteConnections D))"

text \<open>Durations are cut to whole units towards zero.\<close>

definition micros :: "int \<Rightarrow> int" where
  "micros ns = (if 0 \<le> ns then ns div 1000 else - ((- ns) div 1000))"

definition NetDriver_TickHousekeeping :: "(nat \<Rightarrow> DriverInputs) \<Rightarrow> IpNetDriver \<Rightarrow> (IpNetDriver \<times> DriverOut list) option" where
  "NetDriver_TickHousekeeping inp D = do {
     let now = INow (inp 0);
     let delta = now - LastTickTime D;
     let D = D\<lparr>LastDeltaTimeMs := word_of_int (millis delta), ElapsedTimeUsCount := ElapsedTimeUsCount D + word_of_int (micros delta),
               LastTickTime := now\<rparr>;
     if 1000000000 \<le> now - LastCacheCleanupTime D
     then do {
       let D = D\<lparr>LastCacheCleanupTime := now, CacheCleanupIndex := (CacheCleanupIndex D + 1) mod 60\<rparr>;
       (D, out) \<leftarrow>
         (case ProcessorContainer (ConnectionlessHandler D) of
            [] \<Rightarrow> Some (D, [])
          | U # Us \<Rightarrow> do {
              (U, fx) \<leftarrow> ConnectionsUpdate (DEnv D) U (ucast (CacheCleanupIndex D)) (GetElapsedTimeSec D);
              exec_effects (inp 0) 0 (D\<lparr>ConnectionlessHandler := (ConnectionlessHandler D)\<lparr>ProcessorContainer := U # Us\<rparr>\<rparr>) fx });
       (D, out') \<leftarrow> CheckConnectionTimeouts (INow (inp 1)) D;
       Some (D, out @ out') }
     else Some (D, []) }"

definition IpNetDriver_TickHousekeeping :: "(nat \<Rightarrow> DriverInputs) \<Rightarrow> IpNetDriver \<Rightarrow> (IpNetDriver \<times> DriverOut list) option" where
  "IpNetDriver_TickHousekeeping inp D = do {
     (D, out) \<leftarrow> NetDriver_TickHousekeeping inp D;
     let (Sim, Stale) = FlushStale (InboundSimulator D) (INow (inp 2));
     (D, outs) \<leftarrow> dispatch_all inp 3 (D\<lparr>InboundSimulator := Sim\<rparr>) Stale;
     Some (D, out @ outs) }"

section \<open>Start\<close>

text \<open>The number of workers, with the value of an environment variable that may override it.\<close>

definition ResolveWorkerCount :: "int option \<Rightarrow> u32 \<Rightarrow> u32" where
  "ResolveWorkerCount Override DefaultCount =
     (case Override of None \<Rightarrow> DefaultCount
      | Some Parsed \<Rightarrow> if Parsed < 1 \<or> 64 < Parsed then DefaultCount else word_of_int Parsed)"

definition IpNetDriver_ctor :: "UdpEnv \<Rightarrow> int \<Rightarrow> IpNetDriver" where
  "IpNetDriver_ctor E now = \<lparr>DEnv = E, ConnectionlessHandler = PacketPipeline_ctor ProcNone, ServerConnection = None, CStore = [],
     OwnerThreadId = [], RemoteConnections = [], HashToConnectionMap = [], ConnectionMap = [],
     PlayerUniqueIdAllocator = IDAllocator_ctor 1, InboundSimulator = PacketSimulator_ctor PacketSimulationSettings_init,
     OutboundSimulator = PacketSimulator_ctor PacketSimulationSettings_init, RStore = [], WorkerJobs = [], NextOwnerIndex = 0,
     LastTickTime = now, LastCacheCleanupTime = now, LastDeltaTimeMs = 0, ElapsedTimeUsCount = 0, CacheCleanupIndex = 0,
     StatDatagramsReceived = 0, StatBytesReceived = 0, StatDatagramsSent = 0, StatBytesSent = 0\<rparr>"

text \<open>\<open>InitBase\<close> of both classes; \<open>bound\<close> tells whether the socket could be opened and bound.\<close>

definition NetDriver_InitBase :: "int option \<Rightarrow> int \<Rightarrow> IpNetDriver \<Rightarrow> IpNetDriver" where
  "NetDriver_InitBase Override junk D =
     (let S = DSetting D;
          D = D\<lparr>WorkerJobs := replicate (unat (ResolveWorkerCount Override (if IsClient S then 1 else 8))) []\<rparr>;
          D = (if IsClient S
               then D\<lparr>ServerConnection := Some (length (CStore D)), RemoteConnections := RemoteConnections D @ [length (CStore D)],
                      CStore := CStore D @ [NetConnection_ctor junk], OwnerThreadId := OwnerThreadId D @ [0]\<rparr>
               else D)
      in D\<lparr>ConnectionlessHandler := PacketPipeline_ctor (if IsServer S then ProcServer else ProcClient)\<rparr>)"

definition InitSimulators :: "IpNetDriver \<Rightarrow> IpNetDriver" where
  "InitSimulators D =
     (let S = DSetting D in
      D\<lparr>InboundSimulator := Reconfigure (InboundSimulator D)
          \<lparr>DropPermille = PacketDropPermille S, DuplicatePermille = PacketDuplicatePermille S,
           ReorderWindowSize = PacketReorderWindow S, ReorderMaxHoldMs = 50\<rparr>,
        OutboundSimulator := Reconfigure (OutboundSimulator D)
          \<lparr>DropPermille = PacketDropPermilleOutbound S, DuplicatePermille = 0, ReorderWindowSize = 0, ReorderMaxHoldMs = 50\<rparr>\<rparr>)"

definition InitConnectionlessHandler :: "IpNetDriver \<Rightarrow> IpNetDriver option" where
  "InitConnectionlessHandler D =
     (let (P, added) = AddProcessor (ConnectionlessHandler D) ProcUdp True
      in if \<not> added then Some (D\<lparr>ConnectionlessHandler := P\<rparr>)
         else do {
           U \<leftarrow> SetSupervisor (DSetting D) (last (ProcessorContainer P));
           Some (D\<lparr>ConnectionlessHandler := P\<lparr>ProcessorContainer := butlast (ProcessorContainer P) @ [U]\<rparr>\<rparr>) })"

definition InitListen :: "int option \<Rightarrow> bool \<Rightarrow> int \<Rightarrow> IpNetDriver \<Rightarrow> (IpNetDriver \<times> bool) option" where
  "InitListen Override bound junk D =
     (let D = NetDriver_InitBase Override junk D
      in if \<not> bound then Some (D, False)
         else do { D \<leftarrow> InitConnectionlessHandler (InitSimulators D); Some (D, True) })"

text \<open>The client's connection id is the port of its socket; \<open>resolve\<close> parses the configured address.\<close>

definition InitConnect :: "int option \<Rightarrow> bool \<Rightarrow> (string \<Rightarrow> SockAddr option) \<Rightarrow> u16 option \<Rightarrow> DriverInputs \<Rightarrow> IpNetDriver \<Rightarrow> (IpNetDriver \<times> bool) option" where
  "InitConnect Override bound resolve LocalPort inp D =
     (let D = NetDriver_InitBase Override (IJunk inp) D
      in if \<not> bound then Some (D, False)
         else do {
           D \<leftarrow> InitConnectionlessHandler (InitSimulators D);
           let LocalClientConnectionId = (case LocalPort of None \<Rightarrow> 0 | Some p \<Rightarrow> ucast p);
           s \<leftarrow> GetServerConnection D;
           c \<leftarrow> rd (CStore D) s;
           let c = InitLocalConnection (DSetting D) resolve c USOCK_Pending LocalClientConnectionId (INow inp);
           c \<leftarrow> CreateInitialChannels c;
           D \<leftarrow> AssignConnectionThreadIndex (D\<lparr>CStore := (CStore D)[s := c]\<rparr>) s;
           Some (D, True) })"

text \<open>\<open>StartOnlineGame\<close> of the service begins the handshake of a client.\<close>

definition StartOnlineGame :: "DriverInputs \<Rightarrow> IpNetDriver \<Rightarrow> (IpNetDriver \<times> DriverOut list) option" where
  "StartOnlineGame inp D =
     (if IsClient (DSetting D) then do {
        let ServerConn = (case GetServerConnection D of None \<Rightarrow> None | Some s \<Rightarrow> rd (CStore D) s);
        (P, fx) \<leftarrow> BeginHandShake (ConnectionlessHandler D) ServerConn (GetElapsedTimeSec D) (IRand inp) (INowUs inp);
        exec_effects inp 0 (D\<lparr>ConnectionlessHandler := P\<rparr>) fx }
      else Some (D, []))"

end
