(* ===== verification/ConnLife.thy ===== *)
theory ConnLife
  imports ConnectionM
begin

text \<open>
  The life of a connection: whatever an operation of \<open>connection/NetConnection\<close> does, the identity of the
  connection stays, and its state changes only by closing, which is reported to the driver once.
\<close>

definition conn_evolves :: "NetConnection \<Rightarrow> NetConnection \<Rightarrow> bool" where
  "conn_evolves c c' \<longleftrightarrow> UniqueConnectionId c' = UniqueConnectionId c \<and> bHasDriver c' = bHasDriver c \<and> ConnAddr c' = ConnAddr c
     \<and> length (Channels c') = length (Channels c)
     \<and> (CState c' = CState c \<and> RemoveCalls c' = RemoveCalls c
        \<or> CState c \<noteq> USOCK_Closed \<and> CState c' = USOCK_Closed
          \<and> (bHasDriver c \<longrightarrow> (\<exists>Reason. RemoveCalls c' = RemoveCalls c @ [Reason])))"

lemma conn_evolves_refl [simp]: "conn_evolves c c"
  by (simp add: conn_evolves_def)

lemma conn_evolves_trans [trans]: "conn_evolves a b \<Longrightarrow> conn_evolves b c \<Longrightarrow> conn_evolves a c"
  unfolding conn_evolves_def by auto

lemma conn_evolves_fields:
  assumes "UniqueConnectionId c' = UniqueConnectionId c" "bHasDriver c' = bHasDriver c" "ConnAddr c' = ConnAddr c"
    "length (Channels c') = length (Channels c)" "CState c' = CState c" "RemoveCalls c' = RemoveCalls c"
  shows "conn_evolves c c'"
  using assms by (simp add: conn_evolves_def)

lemma Close_evolves: "conn_evolves c (Close c Reason)"
  by (simp add: conn_evolves_def Close_def Let_def)

text \<open>Changes of the other fields before an operation do not matter.\<close>

lemma conn_evolves_from:
  assumes "conn_evolves b c" "UniqueConnectionId b = UniqueConnectionId a" "bHasDriver b = bHasDriver a" "ConnAddr b = ConnAddr a"
    "length (Channels b) = length (Channels a)" "CState b = CState a" "RemoveCalls b = RemoveCalls a"
  shows "conn_evolves a c"
  using assms by (simp add: conn_evolves_def)

section \<open>Receiving\<close>

lemma on_channel_evolves: "on_channel c i f = Some c' \<Longrightarrow> conn_evolves c c'"
  by (auto simp: on_channel_def bind_eq_Some_conv intro!: conn_evolves_fields)

lemma on_channels_evolves: "on_channels c is f = Some c' \<Longrightarrow> conn_evolves c c'"
  by (induction "is" arbitrary: c) (auto simp: bind_eq_Some_conv dest: on_channel_evolves intro: conn_evolves_trans)

lemma close_unless_evolves: "conn_evolves c (if found then c else Close c Reason)"
  by (simp add: Close_evolves)

lemma RecivedAck_evolves:
  assumes "RecivedAck c i t = Some c'" shows "conn_evolves c c'"
proof -
  obtain r found calls where r: "ConsumeChannelRecordsForPacket (Record c) i = (r, found, calls)"
    by (rule prod_cases3)
  obtain tr c1 where h: "on_channels (c\<lparr>OutAckPacketId := i, CRtt := tr, Record := r\<rparr>) calls (\<lambda>ch. Acked ch (word_of_int i)) = Some c1"
    "c' = (if found then c1 else Close c1 ''ChannelRecordDesync'')"
    using assms by (auto simp: RecivedAck_def bind_eq_Some_conv r)
  from on_channels_evolves [OF h(1)] have "conn_evolves c c1"
    by (rule conn_evolves_from) simp_all
  then show ?thesis
    unfolding h(2) by (rule conn_evolves_trans [OF _ close_unless_evolves])
qed

lemma RecivedNack_evolves:
  assumes "RecivedNack c i = Some c'" shows "conn_evolves c c'"
proof -
  obtain r found calls where r: "ConsumeChannelRecordsForPacket (Record c) i = (r, found, calls)"
    by (rule prod_cases3)
  obtain tr c1 where h: "on_channels (c\<lparr>CRtt := tr, Record := r\<rparr>) calls (\<lambda>ch. Nacked ch (word_of_int i)) = Some c1"
    "c' = (if found then c1 else Close c1 ''ChannelRecordDesync'')"
    using assms by (auto simp: RecivedNack_def bind_eq_Some_conv r)
  from on_channels_evolves [OF h(1)] have "conn_evolves c c1"
    by (rule conn_evolves_from) simp_all
  then show ?thesis
    unfolding h(2) by (rule conn_evolves_trans [OF _ close_unless_evolves])
qed

lemma HandlePacketNotification_evolves:
  assumes "HandlePacketNotification c s d t = Some c'" shows "conn_evolves c c'"
proof -
  let ?c = "c\<lparr>LastNotifiedSendPacketId := LastNotifiedSendPacketId c + 1\<rparr>"
  have "conn_evolves ?c c'"
    using assms RecivedAck_evolves RecivedNack_evolves
    by (auto simp: HandlePacketNotification_def Let_def simp del: conn_evolves_refl split: if_splits intro: conn_evolves_refl)
  then show ?thesis
    by (rule conn_evolves_from) simp_all
qed

lemma handle_all_evolves: "handle_all c es t = Some c' \<Longrightarrow> conn_evolves c c'"
  by (induction c es t rule: handle_all.induct)
    (auto simp: bind_eq_Some_conv dest: HandlePacketNotification_evolves intro: conn_evolves_trans)

lemma ReceivedPacket_evolves:
  assumes "ReceivedPacket c Reader Now t = Some c'" shows "conn_evolves c c'"
proof -
  let ?c = "c\<lparr>LastReceiveTime := Now\<rparr>"
  obtain Header Buffer ok where "ReadHeader NotificationHeader_ctor (RHeader Reader) = Some (Header, Buffer, ok)"
    using assms by (cases "ReadHeader NotificationHeader_ctor (RHeader Reader)") (auto simp: ReceivedPacket_def)
  note s = assms [unfolded ReceivedPacket_def this, simplified]
  show ?thesis
  proof (cases "ok")
    case False
    then show ?thesis
      using s by (auto intro!: conn_evolves_fields)
  next
    case True
    let ?d = "GetSequenceDelta (CNotify c) Header"
    show ?thesis
    proof (cases "0 < ?d")
      case False
      then show ?thesis
        using s True by (auto intro!: conn_evolves_fields)
    next
      case pos: True
      obtain n events d where u: "Notify_Update (CNotify c) Header = Some (n, events, d)"
        using s True pos by (auto simp: bind_eq_Some_conv)
      then obtain c1 where h: "handle_all (?c\<lparr>CNotify := n\<rparr>) events t = Some c1"
        using s True pos by (auto simp: bind_eq_Some_conv)
      from handle_all_evolves [OF h] have "conn_evolves c c1"
        by (rule conn_evolves_from) simp_all
      moreover have "conn_evolves c1 c'"
        using s True pos u h by (cases "IsWaitingForSequenceHistoryFlush (CNotify c1)") (auto intro!: conn_evolves_fields)
      ultimately show ?thesis
        by (rule conn_evolves_trans)
    qed
  qed
qed

section \<open>Dispatching\<close>

lemma CreateChannelByName_evolves: "CreateChannelByName c Name i = Some (c', b) \<Longrightarrow> conn_evolves c c'"
  by (auto simp: CreateChannelByName_def bind_eq_Some_conv Let_def dest: wr_length intro!: conn_evolves_fields split: option.splits)

lemma DispatchPacket_bunch_evolves:
  assumes "DispatchPacket_bunch s c R h = Some (c', R', e, le)"
  shows "conn_evolves c c'"
proof -
  obtain f i q n p where h: "h = (f, i, q, n, p)"
    by (rule prod_cases5)
  show ?thesis
  proof (cases "128 \<le> unat i \<or> length (Channels c) \<le> unat i")
    case True
    then show ?thesis
      using assms by (auto simp: DispatchPacket_bunch_def h)
  next
    case False
    obtain c1 where c1: "(if Channels c ! unat i = None
        then map_option fst (CreateChannelByName c (if bit f 3 \<or> bit f (Suc 0) then channel_name (unat i) else []) (unat i)) else Some c) = Some c1"
      using assms False by (auto simp: DispatchPacket_bunch_def h bind_eq_Some_conv Let_def)
    then have "conn_evolves c c1"
      by (auto dest: CreateChannelByName_evolves split: if_splits)
    moreover have "conn_evolves c1 c'"
    proof (cases "Channels c1 ! unat i")
      case None
      then show ?thesis
        using assms False c1 by (auto simp: DispatchPacket_bunch_def h)
    next
      case (Some ch)
      obtain R2 v where v: "ReadView R (unat p) = (R2, v)"
        by force
      from assms False c1 Some v show ?thesis
        by (auto simp: DispatchPacket_bunch_def h Let_def split: if_splits intro!: conn_evolves_fields)
    qed
    ultimately show ?thesis
      by (rule conn_evolves_trans)
  qed
qed

lemma DispatchPacket_step_evolves:
  assumes "DispatchPacket_step s c R = Some (c', R', e, le)"
  shows "conn_evolves c c'"
proof -
  obtain R1 b where b: "BufferReader_Read R 1 = (R1, b)"
    by force
  obtain R2 v where v: "ReadView R1 (unat (hd (the b)) - 1) = (R2, v)"
    by force
  show ?thesis
    using assms b v by (cases b) (auto simp: DispatchPacket_step_def bind_eq_Some_conv split: if_splits dest: DispatchPacket_bunch_evolves)
qed

lemma DispatchPacket_loop_evolves: "DispatchPacket_loop s c R e = Some (c', e') \<Longrightarrow> conn_evolves c c'"
proof (induction s c R e rule: DispatchPacket_loop.induct)
  case (1 s c R e)
  show ?case
  proof (cases "CanRead R 1 \<and> CState c \<noteq> USOCK_Closed")
    case False
    then show ?thesis
      using "1.prems" by (subst (asm) DispatchPacket_loop.simps) auto
  next
    case True
    then obtain c1 R1 e1 le where st: "DispatchPacket_step s c R = Some (c1, R1, e1, le)"
      using "1.prems" by (subst (asm) DispatchPacket_loop.simps) (auto split: option.splits)
    then have ev: "conn_evolves c c1"
      by (rule DispatchPacket_step_evolves)
    show ?thesis
    proof (cases le)
      case Break
      then show ?thesis
        using "1.prems" True st ev by (subst (asm) DispatchPacket_loop.simps) auto
    next
      case Continue
      then have "DispatchPacket_loop s c1 R1 (e \<or> e1) = Some (c', e')"
        using "1.prems" True st by (subst (asm) DispatchPacket_loop.simps) auto
      with "1.IH" [OF True st refl refl refl Continue] ev show ?thesis
        by (auto intro: conn_evolves_trans)
    qed
  qed
qed

lemma dispatch_readers_evolves: "dispatch_readers s c rs = Some c' \<Longrightarrow> conn_evolves c c'"
proof (induction rs arbitrary: c)
  case Nil
  then show ?case
    by (auto intro!: conn_evolves_fields)
next
  case (Cons r rs)
  then obtain c1 e where c1: "DispatchPacket s c r = Some (c1, e)"
    and rest: "dispatch_readers s (c1\<lparr>CNotify := AckSeq (CNotify c1) (seq_of_int (InPacketId c1))\<rparr>) rs = Some c'"
    by (auto simp: bind_eq_Some_conv)
  from c1 have "conn_evolves c c1"
    by (auto simp: DispatchPacket_def bind_eq_Some_conv dest: DispatchPacket_loop_evolves)
  moreover from Cons.IH [OF rest] have "conn_evolves c1 c'"
    by (rule conn_evolves_from) simp_all
  ultimately show ?case
    by (rule conn_evolves_trans)
qed

section \<open>Sending\<close>

lemma createNewPacket_evolves: "createNewPacket c = (c', p) \<Longrightarrow> conn_evolves c c'"
  by (auto simp: createNewPacket_def intro!: conn_evolves_fields)

lemma place_bunch_evolves:
  assumes "place_bunch c ch Packet ready Bunch = (c', ch', Packet', ready', ok)"
  shows "conn_evolves c c'"
proof -
  obtain c1 p1 where 1: "(case Packet of None \<Rightarrow> createNewPacket c | Some p \<Rightarrow> (c, p)) = (c1, p1)"
    by force
  then have e1: "conn_evolves c c1"
    by (auto split: option.splits dest: createNewPacket_evolves)
  obtain c2 p2 ready2 where 2: "(if PacketMaxSize < PktTotalSize p1 + TotalSize Bunch
             then let c = c1\<lparr>COutPacketId := COutPacketId c1 + 1\<rparr>; ready = ready @ [PacketSealed p1];
                      (c, p) = createNewPacket c
                  in (c, p, ready)
             else (c1, p1, ready)) = (c2, p2, ready2)"
    by (rule prod_cases3)
  have e2: "conn_evolves c1 c2"
  proof (cases "PacketMaxSize < PktTotalSize p1 + TotalSize Bunch")
    case True
    then have "createNewPacket (c1\<lparr>COutPacketId := COutPacketId c1 + 1\<rparr>) = (c2, p2)"
      using 2 by (auto simp: Let_def split: prod.splits)
    from createNewPacket_evolves [OF this] show ?thesis
      by (rule conn_evolves_from) simp_all
  qed (use 2 in simp)
  obtain ch3 b where 3: "AddUnAckedOutBunch ch (OutPacketId p2) Bunch = (ch3, b)"
    by force
  let ?c3 = "c2\<lparr>Record := PushChannelRecord (Record c2) (sint (OutPacketId p2)) (uint (ChIndex ch))\<rparr>"
  have "c' = (if b then ?c3 else Close ?c3 ''ReliableBufferOverflow'')"
    using assms unfolding place_bunch_def 1 Let_def by (auto simp: 2 [unfolded Let_def] 3)
  then have "conn_evolves ?c3 c'"
    by (simp add: Close_evolves)
  then have "conn_evolves c2 c'"
    by (rule conn_evolves_from) simp_all
  with e1 e2 show ?thesis
    by (blast intro: conn_evolves_trans)
qed

lemma bunch_loop_evolves: "bunch_loop c ch Packet ready took = (c', r) \<Longrightarrow> conn_evolves c c'"
proof (induction c ch Packet ready took rule: bunch_loop.induct)
  case (1 c ch Packet ready took)
  show ?case
  proof (cases "OutBunchQueue ch")
    case Nil
    then show ?thesis
      using "1.prems" by (subst (asm) bunch_loop.simps) simp
  next
    case (Cons Bunch rest)
    show ?thesis
    proof (cases "IsHeaderOnlyBunch Bunch \<or> PacketMaxSize < TotalSize Bunch")
      case True
      then have "bunch_loop (c\<lparr>Released := Released c @ DiscardOutReadyBunch Bunch\<rparr>) (ch\<lparr>OutBunchQueue := rest\<rparr>) Packet ready True = (c', r)"
        using "1.prems" Cons by (subst (asm) bunch_loop.simps) simp
      from "1.IH"(1) [OF Cons True this] show ?thesis
        by (rule conn_evolves_from) simp_all
    next
      case False
      obtain c1 ch1 P1 ready1 ok where p: "place_bunch c (ch\<lparr>OutBunchQueue := rest\<rparr>) Packet ready Bunch = (c1, ch1, P1, ready1, ok)"
        by (rule prod_cases5)
      show ?thesis
      proof (cases ok)
        case True
        then have "bunch_loop c1 ch1 P1 ready1 True = (c', r)"
          using "1.prems" Cons False p by (subst (asm) bunch_loop.simps) simp
        from "1.IH"(2) [OF Cons False p [symmetric] refl refl refl True this] place_bunch_evolves [OF p] show ?thesis
          by (blast intro: conn_evolves_trans)
      next
        case no: False
        then have "c' = c1"
          using "1.prems" Cons False p by (subst (asm) bunch_loop.simps) simp
        then show ?thesis
          using place_bunch_evolves [OF p] by simp
      qed
    qed
  qed
qed

lemma channel_loop_evolves: "channel_loop idx c Packet ready took = (c', r) \<Longrightarrow> conn_evolves c c'"
proof (induction idx arbitrary: c Packet ready took)
  case (Cons i idx)
  show ?case
  proof (cases "Channels c ! i")
    case None
    then show ?thesis
      using Cons by auto
  next
    case (Some ch)
    obtain c1 ch1 P1 ready1 took1 stop where b: "bunch_loop c ch Packet ready took = (c1, ch1, P1, ready1, took1, stop)"
      by (rule prod_cases6)
    let ?c = "c1\<lparr>Channels := (Channels c1)[i := Some ch1]\<rparr>"
    have "conn_evolves c1 ?c"
      by (auto intro!: conn_evolves_fields)
    then have e: "conn_evolves c ?c"
      using bunch_loop_evolves [OF b] by (rule conn_evolves_trans [rotated])
    show ?thesis
    proof (cases stop)
      case True
      then have "c' = ?c"
        using Cons.prems Some b by simp
      then show ?thesis
        using e by simp
    next
      case False
      then have "channel_loop idx ?c P1 ready1 took1 = (c', r)"
        using Cons.prems Some b by simp
      from Cons.IH [OF this] e show ?thesis
        by (blast intro: conn_evolves_trans)
    qed
  qed
qed simp

lemma assemble_loop_evolves: "assemble_loop fuel rr c Packet ready = Some (c', r) \<Longrightarrow> conn_evolves c c'"
proof (induction fuel arbitrary: rr c Packet ready)
  case (Suc fuel)
  obtain c1 P1 ready1 took stop where b: "channel_loop (round_robin rr (length (Channels c))) c Packet ready False = (c1, P1, ready1, took, stop)"
    by (rule prod_cases5)
  note e = channel_loop_evolves [OF b]
  show ?case
  proof (cases "took \<and> \<not> stop")
    case True
    then have "assemble_loop fuel ((rr + 1) mod max 1 (length (Channels c))) c1 P1 ready1 = Some (c', r)"
      using Suc.prems b by (simp add: Let_def)
    from Suc.IH [OF this] e show ?thesis
      by (blast intro: conn_evolves_trans)
  next
    case False
    then have "c' = c1"
      using Suc.prems b by (auto simp: Let_def split: if_splits)
    then show ?thesis
      using e by simp
  qed
qed simp

lemma AssembleOutgoingPackets_evolves:
  assumes "AssembleOutgoingPackets S c Now = Some c'" shows "conn_evolves c c'"
proof (cases "IsRequireAssembleBunch c")
  case False
  then show ?thesis
    using assms by (auto simp: AssembleOutgoingPackets_def Let_def split: if_splits intro!: conn_evolves_fields)
next
  case True
  obtain c1 P ready stop where l: "assemble_loop (queued c + 1) 0 c None [] = Some (c1, P, ready, stop)"
    using assms True by (cases "assemble_loop (queued c + 1) 0 c None []") (auto simp: AssembleOutgoingPackets_def)
  note e = assemble_loop_evolves [OF l]
  have "conn_evolves c1 c'"
    using assms True l
    by (cases P) (auto simp: AssembleOutgoingPackets_def Let_def split: if_splits intro!: conn_evolves_fields)
  with e show ?thesis
    by (rule conn_evolves_trans)
qed

lemma DispatchPendingPacket_evolves: "DispatchPendingPacket b c = Some c' \<Longrightarrow> conn_evolves c c'"
  by (simp add: DispatchPendingPacket_def dispatch_readers_evolves)

lemma flush_loop_evolves: "flush_loop k cfg c t Now = Some (c', es) \<Longrightarrow> conn_evolves c c'"
proof (induction k arbitrary: c es)
  case (Suc k)
  show ?case
  proof (cases "OutPacketQueue c")
    case Nil
    then show ?thesis
      using Suc.prems by (simp add: TryDequeuePacket_def)
  next
    case (Cons p rest)
    then obtain c1 p1 e es1 where u: "UpdatePacketHeader cfg (c\<lparr>OutPacketQueue := rest\<rparr>) p t = Some (c1, p1)"
      and f: "flush_loop k cfg (c1\<lparr>LastSendTime := Now\<rparr>) t Now = Some (c', es1)"
      using Suc.prems by (auto simp: TryDequeuePacket_def bind_eq_Some_conv)
    from u have "conn_evolves c c1"
      by (auto simp: UpdatePacketHeader_def bind_eq_Some_conv Let_def intro!: conn_evolves_fields)
    moreover from Suc.IH [OF f] have "conn_evolves c1 c'"
      by (rule conn_evolves_from) simp_all
    ultimately show ?thesis
      by (rule conn_evolves_trans)
  qed
qed simp

lemma GameNetConnection_TickFlush_evolves: "GameNetConnection_TickFlush cfg c t Now = Some (c', es) \<Longrightarrow> conn_evolves c c'"
  by (auto simp: GameNetConnection_TickFlush_def dest: flush_loop_evolves)

lemma SendNetMessage_evolves: "SendNetMessage c M i = Some (c', b) \<Longrightarrow> conn_evolves c c'"
  by (auto simp: SendNetMessage_def bind_eq_Some_conv split: option.splits prod.splits intro!: conn_evolves_fields)

lemmas operations_evolve = ReceivedPacket_evolves DispatchPendingPacket_evolves AssembleOutgoingPackets_evolves GameNetConnection_TickFlush_evolves SendNetMessage_evolves

end
