(* ===== verification/DriverRun.thy ===== *)
theory DriverRun
  imports DriverM ConnLife Admission
begin

text \<open>
  The tables of a server's driver over all its runs: received datagrams, jobs of the workers in any
  order, ticks and messages sent by the application.
\<close>

section \<open>The invariant\<close>

text \<open>The players a protocol handler knows after a sequence of calls.\<close>

fun players_after :: "u32 list \<Rightarrow> DriverOut list \<Rightarrow> u32 list" where
  "players_after ps [] = ps"
| "players_after ps (AddPlayerConnection i # os) = players_after (ps @ [i]) os"
| "players_after ps (RemovePlayerConnection i # os) = players_after (filter (\<lambda>p. p \<noteq> i) ps) os"
| "players_after ps (_ # os) = players_after ps os"

lemma players_after_append: "players_after ps (xs @ ys) = players_after (players_after ps xs) ys"
  by (induction ps xs rule: players_after.induct) auto

text \<open>The players it was told about.\<close>

fun added_ids :: "DriverOut list \<Rightarrow> u32 list" where
  "added_ids [] = []"
| "added_ids (AddPlayerConnection i # os) = i # added_ids os"
| "added_ids (_ # os) = added_ids os"

lemma added_ids_append: "added_ids (xs @ ys) = added_ids xs @ added_ids ys"
  by (induction xs rule: added_ids.induct) auto

lemma in_added_ids: "i \<in> set (added_ids outs) \<longleftrightarrow> AddPlayerConnection i \<in> set outs"
  by (induction outs rule: added_ids.induct) auto

lemma silent_adds_none:
  assumes "\<forall>x\<in>set out. \<forall>ps. players_after ps [x] = ps" shows "added_ids out = []"
  using assms
proof (induction out)
  case (Cons x xs)
  then have "players_after [] [x] = []"
    by simp
  with Cons show ?case
    by (cases x) simp_all
qed simp

definition conn_open :: "IpNetDriver \<Rightarrow> nat \<Rightarrow> bool" where
  "conn_open D c \<longleftrightarrow> CState (CStore D ! c) \<noteq> USOCK_Closed"

definition reader_keyed :: "RecvPacketReader \<Rightarrow> bool" where
  "reader_keyed r \<longleftrightarrow> RHashKey r = MakeIPv4PortKeyFromStorage (RAddress r)"

definition max_clients :: nat where "max_clients = 2 ^ 32 - 1"

definition conn_id :: "nat \<Rightarrow> u32" where "conn_id c = word_of_nat (Suc c)"

definition env_ok :: "UdpEnv \<Rightarrow> IpNetDriver \<Rightarrow> bool" where
  "env_ok E D \<longleftrightarrow> DEnv D = E \<and> IsServer (ESetting E) \<and> ServerConnection D = None
     \<and> (\<exists>U. ProcessorContainer (ConnectionlessHandler D) = [U] \<and> server_inv E U) \<and> (\<forall>r\<in>set (RStore D). reader_keyed r)"

definition ids_ok :: "IpNetDriver \<Rightarrow> bool" where
  "ids_ok D \<longleftrightarrow> length (OwnerThreadId D) = length (CStore D) \<and> freeIDs (PlayerUniqueIdAllocator D) = []
     \<and> IDcounter (PlayerUniqueIdAllocator D) = conn_id (length (CStore D))
     \<and> (\<forall>c < length (CStore D). UniqueConnectionId (CStore D ! c) = conn_id c \<and> bHasDriver (CStore D ! c))"

definition tables_ok :: "IpNetDriver \<Rightarrow> bool" where
  "tables_ok D \<longleftrightarrow> RemoteConnections D = filter (conn_open D) [0..<length (CStore D)]
     \<and> ConnectionMap D = map (\<lambda>c. (conn_id c, c)) (RemoteConnections D)"

definition hash_ok :: "IpNetDriver \<Rightarrow> bool" where
  "hash_ok D \<longleftrightarrow> distinct (map fst (HashToConnectionMap D))
     \<and> (\<forall>k c. (k, c) \<in> set (HashToConnectionMap D) \<longrightarrow>
          c \<in> set (RemoteConnections D) \<and> MakeIPv4PortKeyFromStorage (ConnAddr (CStore D ! c)) = k)"

text \<open>
  An open connection is found under the key of its address, unless another connection with that key was
  open when it joined: the insertion into the map keeps an entry that is there.
\<close>

definition conn_key :: "IpNetDriver \<Rightarrow> nat \<Rightarrow> u64" where
  "conn_key D c = MakeIPv4PortKeyFromStorage (ConnAddr (CStore D ! c))"

definition open_when_joined :: "DriverOut list \<Rightarrow> nat \<Rightarrow> nat \<Rightarrow> bool" where
  "open_when_joined outs c d \<longleftrightarrow> conn_id d \<in> set (players_after [] (takeWhile (\<lambda>e. e \<noteq> AddPlayerConnection (conn_id c)) outs))"

definition found_ok :: "IpNetDriver \<Rightarrow> DriverOut list \<Rightarrow> bool" where
  "found_ok D outs \<longleftrightarrow> (\<forall>c\<in>set (RemoteConnections D). map_of (HashToConnectionMap D) (conn_key D c) = Some c
     \<or> (\<exists>d<c. conn_key D d = conn_key D c \<and> open_when_joined outs c d))"

definition driver_inv :: "UdpEnv \<Rightarrow> IpNetDriver \<Rightarrow> DriverOut list \<Rightarrow> bool" where
  "driver_inv E D outs \<longleftrightarrow> env_ok E D \<and> ids_ok D \<and> tables_ok D \<and> hash_ok D \<and> found_ok D outs \<and> players_after [] outs = map fst (ConnectionMap D)
     \<and> added_ids outs = map conn_id [0..<length (CStore D)]"

lemma found_ok_append:
  assumes "tables_ok D" "added_ids outs = map conn_id [0..<length (CStore D)]" "found_ok D outs"
  shows "found_ok D (outs @ out)"
proof -
  have "open_when_joined (outs @ out) c d = open_when_joined outs c d" if "c \<in> set (RemoteConnections D)" for c d
  proof -
    have "conn_id c \<in> set (added_ids outs)"
      using that assms(1) by (auto simp: assms(2) tables_ok_def)
    then have "takeWhile (\<lambda>e. e \<noteq> AddPlayerConnection (conn_id c)) (outs @ out) = takeWhile (\<lambda>e. e \<noteq> AddPlayerConnection (conn_id c)) outs"
      by (intro takeWhile_append1 [of "AddPlayerConnection (conn_id c)"]) (simp_all add: in_added_ids)
    then show ?thesis
      by (simp add: open_when_joined_def)
  qed
  with assms(3) show ?thesis
    by (simp add: found_ok_def)
qed

text \<open>An operation keeps the invariant as long as the identifiers do not wrap around.\<close>

definition keeps :: "UdpEnv \<Rightarrow> IpNetDriver \<Rightarrow> IpNetDriver \<Rightarrow> DriverOut list \<Rightarrow> bool" where
  "keeps E D D' out \<longleftrightarrow> length (CStore D) \<le> length (CStore D')
     \<and> (\<forall>outs. driver_inv E D outs \<longrightarrow> length (CStore D') < max_clients \<longrightarrow> driver_inv E D' (outs @ out))"

lemma keeps_refl [simp]: "keeps E D D []"
  by (simp add: keeps_def)

lemma keeps_trans: "keeps E D D1 out \<Longrightarrow> keeps E D1 D2 out' \<Longrightarrow> keeps E D D2 (out @ out')"
  unfolding keeps_def by (auto simp flip: append_assoc)

lemma keeps_trans_silent: "keeps E D D1 [] \<Longrightarrow> keeps E D1 D2 out \<Longrightarrow> keeps E D D2 out"
  using keeps_trans [of E D D1 "[]"] by simp

text \<open>What the invariant looks at.\<close>

definition same_conns :: "IpNetDriver \<Rightarrow> IpNetDriver \<Rightarrow> bool" where
  "same_conns D D' \<longleftrightarrow> CStore D' = CStore D \<and> length (OwnerThreadId D') = length (OwnerThreadId D)
     \<and> PlayerUniqueIdAllocator D' = PlayerUniqueIdAllocator D \<and> RemoteConnections D' = RemoteConnections D
     \<and> ConnectionMap D' = ConnectionMap D \<and> HashToConnectionMap D' = HashToConnectionMap D"

definition same_tables :: "IpNetDriver \<Rightarrow> IpNetDriver \<Rightarrow> bool" where
  "same_tables D D' \<longleftrightarrow> same_conns D D' \<and> DEnv D' = DEnv D \<and> ServerConnection D' = ServerConnection D
     \<and> ProcessorContainer (ConnectionlessHandler D') = ProcessorContainer (ConnectionlessHandler D) \<and> RStore D' = RStore D"

lemma driver_inv_conns:
  assumes "same_conns D D'" "env_ok E D'" "driver_inv E D outs"
  shows "driver_inv E D' outs"
proof -
  note e = assms(1) [unfolded same_conns_def]
  have "conn_open D' = conn_open D"
    using e by (simp add: conn_open_def fun_eq_iff)
  with e have "ids_ok D' = ids_ok D" "tables_ok D' = tables_ok D" "hash_ok D' = hash_ok D" "found_ok D' outs = found_ok D outs"
    by (simp_all add: ids_ok_def tables_ok_def hash_ok_def found_ok_def conn_key_def)
  then show ?thesis
    using assms(2,3) e by (simp add: driver_inv_def)
qed

lemma driver_inv_same: "same_tables D D' \<Longrightarrow> driver_inv E D outs \<Longrightarrow> driver_inv E D' outs"
  by (rule driver_inv_conns [of D]) (simp_all add: same_tables_def driver_inv_def env_ok_def)

lemma keeps_same: "same_tables D D' \<Longrightarrow> keeps E D D' []"
  unfolding keeps_def using driver_inv_same by (auto simp: same_tables_def same_conns_def)

lemma keeps_env:
  assumes "same_conns D D'" "env_ok E D \<Longrightarrow> env_ok E D'"
  shows "keeps E D D' []"
proof -
  have "driver_inv E D' outs" if "driver_inv E D outs" for outs
  proof -
    have "env_ok E D"
      using that by (simp add: driver_inv_def)
    from driver_inv_conns [OF assms(1) assms(2) [OF this] that] show ?thesis .
  qed
  then show ?thesis
    using assms(1) by (simp add: keeps_def same_conns_def)
qed

lemma keeps_silent:
  assumes "\<forall>x\<in>set out. \<forall>ps. players_after ps [x] = ps" and "keeps E D D' []"
  shows "keeps E D D' out"
proof -
  have "players_after ps out = ps" for ps
    using assms(1)
  proof (induction out arbitrary: ps)
    case (Cons x xs)
    then show ?case
      using players_after_append [of ps "[x]" xs] by simp
  qed simp
  then show ?thesis
    using assms(2) silent_adds_none [OF assms(1)] found_ok_append unfolding keeps_def driver_inv_def
    by (auto simp: players_after_append added_ids_append)
qed

section \<open>Connections that change\<close>

lemma conn_id_inject:
  assumes "c < max_clients" "d < max_clients"
  shows "conn_id c = conn_id d \<longleftrightarrow> c = d"
proof
  assume "conn_id c = conn_id d"
  then have "unat (conn_id c) = unat (conn_id d)"
    by simp
  then show "c = d"
    using assms by (simp add: conn_id_def unat_of_nat max_clients_def del: of_nat_Suc)
qed simp

lemma filter_other: "filter (\<lambda>d. d \<noteq> c) (filter P xs) = filter (\<lambda>d. P d \<and> d \<noteq> c) xs"
  by (induction xs) auto

text \<open>A connection that is replaced by one with the same value of a field.\<close>

lemma field_of_update: "f conn = f (S ! c) \<Longrightarrow> f (S[c := conn] ! d) = f (S ! d)"
  by (cases "d = c"; cases "c < length S") (simp_all add: list_update_beyond)

lemma keep_connection:
  assumes inv: "driver_inv E D outs" and ev: "UniqueConnectionId conn = UniqueConnectionId (CStore D ! c)"
    "bHasDriver conn = bHasDriver (CStore D ! c)" "ConnAddr conn = ConnAddr (CStore D ! c)" "CState conn = CState (CStore D ! c)"
  shows "driver_inv E (D\<lparr>CStore := (CStore D)[c := conn]\<rparr>) outs"
proof -
  let ?D = "D\<lparr>CStore := (CStore D)[c := conn]\<rparr>"
  note same = field_of_update [where S = "CStore D" and c = c and conn = conn]
  have "conn_open ?D = conn_open D"
    using same [of CState] ev by (simp add: conn_open_def fun_eq_iff)
  then have "env_ok E ?D = env_ok E D" "ids_ok ?D = ids_ok D" "tables_ok ?D = tables_ok D" "hash_ok ?D = hash_ok D"
      "found_ok ?D outs = found_ok D outs"
    using same [of UniqueConnectionId] same [of bHasDriver] same [of ConnAddr] ev
    by (simp_all add: env_ok_def ids_ok_def tables_ok_def hash_ok_def found_ok_def conn_key_def)
  then show ?thesis
    using inv by (simp add: driver_inv_def)
qed

text \<open>A connection that closes leaves every table.\<close>

lemma remove_connection:
  assumes inv: "driver_inv E D outs" and len: "length (CStore D) < max_clients" and c: "c < length (CStore D)"
    and ev: "UniqueConnectionId conn = UniqueConnectionId (CStore D ! c)" "bHasDriver conn = bHasDriver (CStore D ! c)"
      "ConnAddr conn = ConnAddr (CStore D ! c)" "CState conn = USOCK_Closed"
  shows "driver_inv E (D\<lparr>CStore := (CStore D)[c := conn], HashToConnectionMap := filter (\<lambda>Entry. snd Entry \<noteq> c) (HashToConnectionMap D),
      ConnectionMap := filter (\<lambda>Entry. fst Entry \<noteq> UniqueConnectionId conn) (ConnectionMap D),
      RemoteConnections := filter (\<lambda>Existing. Existing \<noteq> c) (RemoteConnections D)\<rparr>) (outs @ [RemovePlayerConnection (UniqueConnectionId conn)])"
    (is "driver_inv E ?D _")
proof -
  note same = field_of_update [where S = "CStore D" and c = c and conn = conn]
  have op: "conn_open ?D d \<longleftrightarrow> conn_open D d \<and> d \<noteq> c" for d
    using c ev(4) by (cases "d = c") (simp_all add: conn_open_def)
  have id: "UniqueConnectionId conn = conn_id c"
    using inv c ev(1) by (simp add: driver_inv_def ids_ok_def)
  have rc: "RemoteConnections D = filter (conn_open D) [0..<length (CStore D)]"
    and cm: "ConnectionMap D = map (\<lambda>c. (conn_id c, c)) (RemoteConnections D)"
    using inv by (simp_all add: driver_inv_def tables_ok_def)
  have inj: "conn_id d \<noteq> conn_id c \<longleftrightarrow> d \<noteq> c" if "d \<in> set (RemoteConnections D)" for d
    using that c len conn_id_inject [of d c] by (auto simp: rc)
  have "filter (\<lambda>Entry. fst Entry \<noteq> conn_id c) (ConnectionMap D) = map (\<lambda>c. (conn_id c, c)) (filter (\<lambda>d. d \<noteq> c) (RemoteConnections D))"
    by (simp add: cm filter_map o_def inj cong: filter_cong)
  moreover have "filter (\<lambda>d. d \<noteq> c) (RemoteConnections D) = filter (conn_open ?D) [0..<length (CStore D)]"
    using op by (subst rc, subst filter_other) (intro filter_cong; simp)
  ultimately have "tables_ok ?D"
    by (simp add: tables_ok_def id)
  moreover have "players_after [] (outs @ [RemovePlayerConnection (UniqueConnectionId conn)]) = map fst (ConnectionMap ?D)"
    using inv by (simp add: driver_inv_def players_after_append filter_map o_def)
  moreover have "hash_ok ?D"
    using inv same [of ConnAddr] ev unfolding driver_inv_def hash_ok_def by (auto intro: distinct_map_filter)
  moreover have "found_ok ?D (outs @ [RemovePlayerConnection (UniqueConnectionId conn)])"
  proof -
    have "conn_key ?D d = conn_key D d" for d
      using same [of ConnAddr] ev by (simp add: conn_key_def)
    moreover have "map_of (filter (\<lambda>Entry. snd Entry \<noteq> c) (HashToConnectionMap D)) k = Some d" if "map_of (HashToConnectionMap D) k = Some d" "d \<noteq> c" for k d
    proof -
      have "distinct (map fst (HashToConnectionMap D))"
        using inv by (simp add: driver_inv_def hash_ok_def)
      with that show ?thesis
        by (auto simp: map_of_eq_Some_iff distinct_map_filter)
    qed
    moreover have "found_ok D (outs @ [RemovePlayerConnection (UniqueConnectionId conn)])"
      using found_ok_append inv by (simp add: driver_inv_def)
    ultimately show ?thesis
      by (auto simp: found_ok_def)
  qed
  moreover have "env_ok E ?D" "ids_ok ?D"
    using inv same [of UniqueConnectionId] same [of bHasDriver] ev by (simp_all add: driver_inv_def env_ok_def ids_ok_def)
  moreover have "added_ids (outs @ [RemovePlayerConnection (UniqueConnectionId conn)]) = map conn_id [0..<length (CStore ?D)]"
    using inv by (simp add: driver_inv_def added_ids_append)
  ultimately show ?thesis
    by (simp add: driver_inv_def)
qed

lemma store_connection_keeps:
  assumes ev: "conn_evolves (CStore D ! c) conn" and st: "store_connection D c conn = Some (D', out)"
  shows "keeps E D D' out"
proof -
  let ?old = "CStore D ! c" and ?D = "D\<lparr>CStore := (CStore D)[c := conn]\<rparr>"
  have c: "c < length (CStore D)"
    using st by (auto simp: store_connection_def rd_def split: if_splits)
  have fields: "UniqueConnectionId conn = UniqueConnectionId ?old" "bHasDriver conn = bHasDriver ?old" "ConnAddr conn = ConnAddr ?old"
    using ev by (simp_all add: conn_evolves_def)
  show ?thesis
  proof (cases "length (RemoveCalls ?old) < length (RemoveCalls conn)")
    case False
    then have D': "D' = ?D" "out = []"
      using st c by (simp_all add: store_connection_def Let_def)
    have "CState conn = CState ?old" if "driver_inv E D outs" for outs
      using that ev c False unfolding conn_evolves_def driver_inv_def ids_ok_def by auto
    then show ?thesis
      using keep_connection fields unfolding keeps_def D' by simp
  next
    case True
    then have closed: "CState conn = USOCK_Closed"
      using ev by (auto simp: conn_evolves_def)
    have D': "D' = ?D\<lparr>HashToConnectionMap := filter (\<lambda>Entry. snd Entry \<noteq> c) (HashToConnectionMap D),
               ConnectionMap := filter (\<lambda>Entry. fst Entry \<noteq> UniqueConnectionId conn) (ConnectionMap D),
               RemoteConnections := filter (\<lambda>Existing. Existing \<noteq> c) (RemoteConnections D)\<rparr>"
      "out = [RemovePlayerConnection (UniqueConnectionId conn)]"
      using st c True by (simp_all add: store_connection_def IpNetDriver_RemoveConnection_def Let_def)
    show ?thesis
      using remove_connection [OF _ _ c fields closed] unfolding keeps_def D' by simp
  qed
qed

section \<open>Clients that are admitted\<close>

lemma SendToRemote_same: "same_tables D (fst (IpNetDriver_SendToRemote D a e d))"
  by (simp add: IpNetDriver_SendToRemote_def same_tables_def same_conns_def)

lemma SendToRemote_silent: "\<forall>x\<in>set (snd (IpNetDriver_SendToRemote D a e d)). \<forall>ps. players_after ps [x] = ps"
  by (simp add: IpNetDriver_SendToRemote_def)

lemma SendToRemote_keeps:
  assumes "IpNetDriver_SendToRemote D a e d = (D', out)"
  shows "keeps E D D' out"
  using keeps_silent [OF SendToRemote_silent keeps_same [OF SendToRemote_same]] assms by (metis fst_conv snd_conv)

text \<open>Operations that leave the fields the driver looks at.\<close>

definition same_identity :: "NetConnection \<Rightarrow> NetConnection \<Rightarrow> bool" where
  "same_identity c c' \<longleftrightarrow> UniqueConnectionId c' = UniqueConnectionId c \<and> bHasDriver c' = bHasDriver c \<and> ConnAddr c' = ConnAddr c
     \<and> CState c' = CState c"

lemma InitSequence_identity: "same_identity c (fst (InitSequence c i k))"
  by (simp add: same_identity_def InitSequence_def Let_def)

lemma CreateInitialChannels_identity: "CreateInitialChannels c = Some c' \<Longrightarrow> same_identity c c'"
  by (auto simp: CreateInitialChannels_def CreateChannelByName_def same_identity_def bind_eq_Some_conv Let_def split: option.splits)

lemma AddClient_keeps:
  assumes add: "IpNetDriver_AddClient inp D k p = Some (D', out)" and k: "MakeIPv4PortKeyFromStorage (Address p) = k"
  shows "keeps E D D' out"
proof -
  obtain a i where al: "Allocate (PlayerUniqueIdAllocator D) = (a, i)"
    by force
  let ?n = "length (CStore D)"
  let ?x = "InitRemoteConnection (DSetting D) (NetConnection_ctor (IJunk inp)) (Address p) USOCK_Open i (INow inp)"
  let ?y = "if ProcessorContainer (ConnectionlessHandler D) \<noteq> []
    then fst (InitSequence ?x (sint (ClientSequence p)) (sint (ServerSequence p))) else ?x"
  obtain c D1 where c: "CreateInitialChannels ?y = Some c" and out: "out = [AddPlayerConnection i]"
    and D1: "AddClient_Internal (D\<lparr>PlayerUniqueIdAllocator := a, CStore := CStore D @ [c], OwnerThreadId := OwnerThreadId D @ [0]\<rparr>) k i ?n = Some D'"
    using add al by (auto simp: IpNetDriver_AddClient_def bind_eq_Some_conv Let_def)
  have "same_identity ?x c"
    using CreateInitialChannels_identity [OF c] InitSequence_identity [of ?x] by (simp add: same_identity_def split: if_splits)
  then have new: "UniqueConnectionId c = i" "bHasDriver c" "ConnAddr c = Address p" "CState c = USOCK_Open"
    by (simp_all add: same_identity_def InitRemoteConnection_def NetConnection_InitBase_def InitChannelData_def Let_def)
  let ?H = "if map_of (HashToConnectionMap D) k = None then HashToConnectionMap D @ [(k, ?n)] else HashToConnectionMap D"
  let ?M = "if map_of (ConnectionMap D) i = None then ConnectionMap D @ [(i, ?n)] else ConnectionMap D"
  have D': "DEnv D' = DEnv D" "ServerConnection D' = ServerConnection D" "ConnectionlessHandler D' = ConnectionlessHandler D"
    "RStore D' = RStore D" "PlayerUniqueIdAllocator D' = a" "CStore D' = CStore D @ [c]" "length (OwnerThreadId D') = Suc (length (OwnerThreadId D))"
    "HashToConnectionMap D' = ?H" "ConnectionMap D' = ?M" "RemoteConnections D' = RemoteConnections D @ [?n]"
    using D1 by (auto simp: AddClient_Internal_def AssignConnectionThreadIndex_def bind_eq_Some_conv Let_def dest!: wr_length split: if_splits)
  have "driver_inv E D' (outs @ out)" if inv: "driver_inv E D outs" and len: "Suc ?n < max_clients" for outs
  proof -
    have ids: "freeIDs (PlayerUniqueIdAllocator D) = []" "IDcounter (PlayerUniqueIdAllocator D) = conn_id ?n"
      and rc: "RemoteConnections D = filter (conn_open D) [0..<?n]" and cm: "ConnectionMap D = map (\<lambda>c. (conn_id c, c)) (RemoteConnections D)"
      using inv by (simp_all add: driver_inv_def ids_ok_def tables_ok_def)
    have a: "i = conn_id ?n" "freeIDs a = []" "IDcounter a = conn_id (Suc ?n)"
      using al ids by (auto simp: Allocate_def conn_id_def)
    have "i \<notin> fst ` set (ConnectionMap D)"
      using len by (auto simp: cm rc a(1) conn_id_inject [of ?n])
    then have M: "?M = ConnectionMap D @ [(i, ?n)]"
      by (simp add: map_of_eq_None_iff)
    have op: "conn_open D' d \<longleftrightarrow> (if d = ?n then True else conn_open D d)" if "d \<le> ?n" for d
      using that new(4) by (auto simp: conn_open_def D' nth_append)
    have "RemoteConnections D' = filter (conn_open D') [0..<Suc ?n]"
      using rc by (auto simp: D'(10) op intro!: filter_cong)
    moreover have "ConnectionMap D' = map (\<lambda>c. (conn_id c, c)) (RemoteConnections D')"
      unfolding D'(9,10) M using cm a(1) by simp
    ultimately have "tables_ok D'"
      by (simp only: tables_ok_def D'(6) length_append_singleton)
    moreover have "ids_ok D'"
      using inv a new by (auto simp: driver_inv_def ids_ok_def D' nth_append less_Suc_eq)
    moreover have "hash_ok D'"
    proof -
      have "c' \<in> set (RemoteConnections D') \<and> MakeIPv4PortKeyFromStorage (ConnAddr (CStore D' ! c')) = k'" if e: "(k', c') \<in> set ?H" for k' c'
      proof (cases "(k', c') \<in> set (HashToConnectionMap D)")
        case True
        then have "c' \<in> set (RemoteConnections D)" "MakeIPv4PortKeyFromStorage (ConnAddr (CStore D ! c')) = k'"
          using inv by (auto simp: driver_inv_def hash_ok_def)
        moreover then have "c' < ?n"
          by (auto simp: rc)
        ultimately show ?thesis
          by (simp add: D' nth_append)
      next
        case False
        then have "k' = k" "c' = ?n"
          using e by (auto split: if_splits)
        then show ?thesis
          using k new(3) by (simp add: D')
      qed
      moreover have "distinct (map fst ?H)"
        using inv by (auto simp: driver_inv_def hash_ok_def map_of_eq_None_iff)
      ultimately show ?thesis
        by (simp add: hash_ok_def D'(8))
    qed
    moreover have "found_ok D' (outs @ out)"
    proof -
      have key: "conn_key D' ?n = k" "c' < ?n \<Longrightarrow> conn_key D' c' = conn_key D c'" for c'
        using k new(3) by (simp_all add: conn_key_def D' nth_append)
      have old: "found_ok D (outs @ out)"
        using found_ok_append inv by (simp add: driver_inv_def)
      have "conn_id ?n \<notin> set (added_ids outs)"
      proof
        assume "conn_id ?n \<in> set (added_ids outs)"
        then obtain d where d: "d < ?n" "conn_id ?n = conn_id d"
          using inv by (auto simp: driver_inv_def)
        then have "?n = d"
          using len conn_id_inject [of ?n d] by simp
        with d(1) show False by simp
      qed
      then have "takeWhile (\<lambda>e. e \<noteq> AddPlayerConnection (conn_id ?n)) (outs @ out) =
          outs @ takeWhile (\<lambda>e. e \<noteq> AddPlayerConnection (conn_id ?n)) out"
        by (intro takeWhile_append2) (auto simp: in_added_ids)
      then have "takeWhile (\<lambda>e. e \<noteq> AddPlayerConnection (conn_id ?n)) (outs @ out) = outs"
        by (simp add: out a(1))
      then have joined: "open_when_joined (outs @ out) ?n d" if "d \<in> set (RemoteConnections D)" for d
        using inv that cm by (auto simp: open_when_joined_def driver_inv_def)
      have new_found: "map_of ?H k = Some ?n \<or> (\<exists>d<?n. conn_key D' d = k \<and> open_when_joined (outs @ out) ?n d)"
      proof (cases "map_of (HashToConnectionMap D) k")
        case (Some d)
        then have d: "d \<in> set (RemoteConnections D)" "conn_key D d = k"
          using inv by (auto simp: driver_inv_def hash_ok_def conn_key_def dest: map_of_SomeD)
        then show ?thesis
          using joined [OF d(1)] key(2) [of d] by (auto simp: rc)
      qed (simp add: map_add_def)
      have kept: "map_of ?H k' = Some c'" if "map_of (HashToConnectionMap D) k' = Some c'" for k' c'
        using that by (simp add: map_add_def)
      have "map_of ?H (conn_key D' c') = Some c' \<or> (\<exists>d<c'. conn_key D' d = conn_key D' c' \<and> open_when_joined (outs @ out) c' d)"
        if c': "c' \<in> set (RemoteConnections D)" for c'
      proof -
        have n: "c' < ?n"
          using c' by (auto simp: rc)
        consider "map_of (HashToConnectionMap D) (conn_key D c') = Some c'"
          | d where "d < c'" "conn_key D d = conn_key D c'" "open_when_joined (outs @ out) c' d"
          using old c' unfolding found_ok_def by blast
        then show ?thesis
        proof cases
          case 1
          then show ?thesis
            by (simp add: key(2) [OF n] kept)
        next
          case 2
          with n show ?thesis
            by (intro disjI2 exI [of _ d]) (simp add: key(2))
        qed
      qed
      with new_found show ?thesis
        unfolding found_ok_def D'(8,10) key(1) [symmetric] by auto
    qed
    moreover have "env_ok E D'"
      using inv by (simp add: driver_inv_def env_ok_def D')
    moreover have "players_after [] (outs @ out) = map fst (ConnectionMap D')"
      using inv M by (simp add: driver_inv_def players_after_append out D')
    moreover have "added_ids (outs @ out) = map conn_id [0..<length (CStore D')]"
      using inv a(1) by (simp add: driver_inv_def added_ids_append out D')
    ultimately show ?thesis
      by (simp add: driver_inv_def)
  qed
  then show ?thesis
    by (simp add: keeps_def D')
qed

text \<open>The effects of the handshake, whose clients have the key of their address.\<close>

lemma exec_effects_keeps:
  "exec_effects inp n D fx = Some (D', out) \<Longrightarrow> \<forall>k p. AddClient k p \<in> set fx \<longrightarrow> MakeIPv4PortKeyFromStorage (Address p) = k
    \<Longrightarrow> keeps E D D' out"
proof (induction inp n D fx arbitrary: D' out rule: exec_effects.induct)
  case (2 inp n D a e fx)
  obtain D1 o1 where 1: "IpNetDriver_SendToRemote D a e (ISendDraw inp n) = (D1, o1)"
    by force
  then obtain o2 where 2: "exec_effects inp (Suc n) D1 fx = Some (D', o2)" "out = o1 @ o2"
    using "2.prems"(1) by (auto simp: bind_eq_Some_conv)
  with "2.IH" [OF 1 [symmetric] refl 2(1)] "2.prems"(2) SendToRemote_keeps [OF 1] show ?case
    by (auto intro: keeps_trans)
next
  case (3 inp n D k p fx)
  then obtain D1 o1 o2 where 1: "IpNetDriver_AddClient inp D k p = Some (D1, o1)" and 2: "exec_effects inp (Suc n) D1 fx = Some (D', o2)" "out = o1 @ o2"
    by (auto simp: bind_eq_Some_conv)
  have "keeps E D D1 o1"
    using AddClient_keeps [OF 1] "3.prems"(2) by simp
  with "3.IH" 1 2 "3.prems"(2) show ?case
    by (auto intro: keeps_trans)
next
  case (4 inp n D fx)
  obtain P called where 1: "CompleteHandshake (ConnectionlessHandler D) = (P, called)"
    by force
  let ?D = "D\<lparr>ConnectionlessHandler := P\<rparr>"
  obtain o2 where 2: "exec_effects inp (Suc n) ?D fx = Some (D', o2)" "out = (if called then [HandshakeCompleted] else []) @ o2"
    using "4.prems"(1) 1 by (auto simp: bind_eq_Some_conv)
  have "ProcessorContainer P = ProcessorContainer (ConnectionlessHandler D)"
    using 1 by (auto simp: CompleteHandshake_def split: if_splits)
  then have "keeps E D ?D []"
    by (intro keeps_same) (simp add: same_tables_def same_conns_def)
  then have "keeps E D ?D (if called then [HandshakeCompleted] else [])"
    by (rule keeps_silent [rotated]) simp
  moreover have "keeps E ?D D' o2"
    using "4.IH" [OF 1 [symmetric] refl 2(1)] "4.prems"(2) by simp
  ultimately show ?case
    unfolding 2(2) by (rule keeps_trans)
qed simp

text \<open>The number of connections only grows.\<close>

lemma AddClient_length:
  assumes "IpNetDriver_AddClient inp D k p = Some (D', out)"
  shows "length (CStore D') = Suc (length (CStore D))"
  using assms
  by (auto simp: IpNetDriver_AddClient_def AddClient_Internal_def AssignConnectionThreadIndex_def bind_eq_Some_conv Let_def split: prod.splits if_splits)

lemma exec_effects_length: "exec_effects inp n D fx = Some (D', out) \<Longrightarrow> length (CStore D) \<le> length (CStore D')"
proof (induction inp n D fx arbitrary: D' out rule: exec_effects.induct)
  case (2 inp n D a e fx)
  obtain D1 o1 where 1: "IpNetDriver_SendToRemote D a e (ISendDraw inp n) = (D1, o1)"
    by force
  then have "CStore D1 = CStore D"
    using SendToRemote_same [of D a e] by (metis fst_conv same_conns_def same_tables_def)
  then show ?case
    using "2.IH" [OF 1 [symmetric] refl] "2.prems" 1 by (auto simp: bind_eq_Some_conv)
next
  case (3 inp n D k p fx)
  then show ?case
    by (fastforce simp: bind_eq_Some_conv dest: AddClient_length)
next
  case (4 inp n D fx)
  then show ?case
    by (fastforce simp: bind_eq_Some_conv split: prod.splits)
qed simp

section \<open>The handler of packets\<close>

lemma opt_all_bind: "(\<And>x. m = Some x \<Longrightarrow> pred_option P (f x)) \<Longrightarrow> pred_option P (m \<bind> f)"
  by (cases m) auto

lemma IncomingConnectionless_reader:
  assumes "IncomingConnectionless E U r T1 T2 T3 Rand NowUs = Some (U', r', fx)"
  shows "RHashKey r' = RHashKey r" "RAddress r' = RAddress r"
proof -
  have "pred_option (\<lambda>(U', r', fx). RHashKey r' = RHashKey r \<and> RAddress r' = RAddress r) (IncomingConnectionless E U r T1 T2 T3 Rand NowUs)"
    unfolding IncomingConnectionless_def SetConnectionlessPacket_def Let_def
    by (auto intro!: opt_all_bind split: prod.split)
  then show "RHashKey r' = RHashKey r" "RAddress r' = RAddress r"
    by (simp_all add: assms)
qed

lemma Incoming_reader:
  assumes "Incoming E U sc r T Rand NowUs = Some (U', sc', r', fx)"
  shows "RHashKey r' = RHashKey r" "RAddress r' = RAddress r"
proof -
  have "pred_option (\<lambda>(U', sc', r', fx). RHashKey r' = RHashKey r \<and> RAddress r' = RAddress r) (Incoming E U sc r T Rand NowUs)"
    unfolding Incoming_def SetConnectionlessPacket_def Let_def
    by (auto intro!: opt_all_bind split: prod.split option.split)
  then show "RHashKey r' = RHashKey r" "RAddress r' = RAddress r"
    by (simp_all add: assms)
qed

lemma IncomingConnectionless_inv:
  assumes inv: "server_inv E U" and r: "reader_keyed r"
    and i: "IncomingConnectionless E U r T1 T2 T3 Rand NowUs = Some (U', r', fx)"
  shows "server_inv E U' \<and> reader_keyed r' \<and> (\<forall>k p. AddClient k p \<in> set fx \<longrightarrow> MakeIPv4PortKeyFromStorage (Address p) = k)"
proof -
  have "server_inv E U' \<and> (\<forall>k p. AddClient k p \<in> set fx \<longrightarrow> MakeIPv4PortKeyFromStorage (Address p) = k)"
    using i
  proof (cases rule: IncomingConnectionless_cases)
    case (answered H rh)
    have "keyed U" "RHashKey (r\<lparr>RHeader := rh, bConnectionlessPacket := True\<rparr>) =
        MakeIPv4PortKeyFromStorage (RAddress (r\<lparr>RHeader := rh, bConnectionlessPacket := True\<rparr>))"
      using inv r by (simp_all add: server_inv_def reader_keyed_def)
    from AnswerHandshake_effects [OF this answered(3)] inv show ?thesis
      by (auto simp: server_inv_def)
  qed (use inv in simp)
  then show ?thesis
    using IncomingConnectionless_reader [OF i] r by (simp add: reader_keyed_def)
qed

text \<open>The pipeline of a server, which has one processor and no server connection.\<close>

lemma Incoming_loop_inv:
  assumes inv: "server_inv E U" and r: "reader_keyed r"
    and i: "Incoming_loop E [U] None r T1 T2 T3 Rand NowUs = Some (Us, sc, r', fx)"
  shows "\<exists>U'. Us = [U'] \<and> server_inv E U' \<and> reader_keyed r' \<and> (\<forall>k p. AddClient k p \<in> set fx \<longrightarrow> MakeIPv4PortKeyFromStorage (Address p) = k)"
proof (cases "bConnectionlessPacket r")
  case True
  then show ?thesis
    using i IncomingConnectionless_inv [OF inv r] by (auto simp: bind_eq_Some_conv)
next
  case False
  then obtain U' where U': "Us = [U']" "Incoming E U None r T2 Rand NowUs = Some (U', sc, r', fx)"
    using i by (auto simp: bind_eq_Some_conv)
  have "steady U U'" "\<forall>f\<in>set fx. \<exists>a e. f = SendToRemote a e"
    using Incoming_steady [OF U'(2)] inv by (simp_all add: server_inv_def)
  then show ?thesis
    using U' server_inv_steady [OF inv] Incoming_reader [OF U'(2)] r by (fastforce simp: reader_keyed_def)
qed

lemma HandlerIncoming_keeps_inv:
  assumes h: "HandlerIncoming inp b D r = Some (D', out)" and inv: "driver_inv E D outs"
  shows "keeps E D D' out"
proof -
  have env: "DEnv D = E" "IsServer (ESetting E)" "\<forall>r\<in>set (RStore D). reader_keyed r"
    using inv by (simp_all add: driver_inv_def env_ok_def)
  obtain U where U: "ProcessorContainer (ConnectionlessHandler D) = [U]" "server_inv E U"
    using inv by (auto simp: driver_inv_def env_ok_def)
  have sc: "GetServerConnection D = None"
    using env by (simp add: GetServerConnection_def IsServer_def IsClient_def)
  obtain R where R: "r < length (RStore D)" "R = RStore D ! r"
    using h by (auto simp: HandlerIncoming_def rd_def split: if_splits)
  let ?R = "if b then SetConnectionlessPacket R True else R" and ?T = "GetElapsedTimeSec D"
  obtain Us s R' fx where l: "Incoming_loop E [U] None ?R ?T ?T ?T (IRand inp) (INowUs inp) = Some (Us, s, R', fx)"
    and e: "exec_effects inp 0 (D\<lparr>ConnectionlessHandler := (ConnectionlessHandler D)\<lparr>ProcessorContainer := Us\<rparr>, RStore := (RStore D)[r := R']\<rparr>) fx = Some (D', out)"
    using h R(1) U(1) unfolding HandlerIncoming_def PacketPipeline_Incoming_def PacketPipeline_IncomingConnectionless_def sc env(1) Let_def
    by (cases b) (auto simp: bind_eq_Some_conv R(2) simp del: Incoming_loop.simps)
  have "reader_keyed ?R"
    using env(3) R by (auto simp: reader_keyed_def SetConnectionlessPacket_def)
  from Incoming_loop_inv [OF U(2) this l] obtain U' where U': "Us = [U']" "server_inv E U'" "reader_keyed R'"
    and fx: "\<forall>k p. AddClient k p \<in> set fx \<longrightarrow> MakeIPv4PortKeyFromStorage (Address p) = k"
    by blast
  let ?D = "D\<lparr>ConnectionlessHandler := (ConnectionlessHandler D)\<lparr>ProcessorContainer := Us\<rparr>, RStore := (RStore D)[r := R']\<rparr>"
  have "env_ok E ?D" if "env_ok E D"
    using that U' set_update_subset_insert [of "RStore D" r R'] by (auto simp: env_ok_def)
  then have "keeps E D ?D []"
    by (intro keeps_env) (simp_all add: same_conns_def)
  then show ?thesis
    using exec_effects_keeps [OF e fx] keeps_trans_silent by blast
qed

lemma HandlerIncoming_length:
  assumes "HandlerIncoming inp b D r = Some (D', out)"
  shows "length (CStore D) \<le> length (CStore D')"
proof -
  have "pred_option (\<lambda>(D', out). length (CStore D) \<le> length (CStore D')) (HandlerIncoming inp b D r)"
    unfolding HandlerIncoming_def Let_def
    by (auto intro!: opt_all_bind simp: option.pred_set dest!: exec_effects_length split: prod.split option.splits)
  then show ?thesis
    by (simp add: assms)
qed

lemma keeps_from:
  assumes "length (CStore D) \<le> length (CStore D')" "\<And>outs. driver_inv E D outs \<Longrightarrow> keeps E D D' out"
  shows "keeps E D D' out"
  using assms unfolding keeps_def by blast

lemma HandlerIncoming_keeps: "HandlerIncoming inp b D r = Some (D', out) \<Longrightarrow> keeps E D D' out"
  by (rule keeps_from [OF HandlerIncoming_length HandlerIncoming_keeps_inv])

section \<open>Datagrams, jobs and ticks\<close>

lemma AddConnectionJob_same: "AddConnectionJob D c job = Some D' \<Longrightarrow> same_tables D D'"
  by (auto simp: AddConnectionJob_def bind_eq_Some_conv same_tables_def same_conns_def)

lemma DispatchReceivedDatagram_keeps:
  assumes "DispatchReceivedDatagram inp D r = Some (D', out)"
  shows "keeps E D D' out"
proof -
  consider (ignored) "D' = D" "out = []" | (handler) "HandlerIncoming inp True D r = Some (D', out)"
    | (job) c where "AddConnectionJob D c (ReceivedRawPacketJob c r) = Some D'" "out = []"
    using assms
    by (auto simp: DispatchReceivedDatagram_def DispatchDeliver_def ProcessConnectionlessPacket_def ReceivedRawPacket_def bind_eq_Some_conv
        Let_def split: if_splits option.splits)
  then show ?thesis
    by cases (auto intro: HandlerIncoming_keeps keeps_same AddConnectionJob_same)
qed

lemma dispatch_all_keeps: "dispatch_all inp k D rs = Some (D', out) \<Longrightarrow> keeps E D D' out"
proof (induction inp k D rs arbitrary: D' out rule: dispatch_all.induct)
  case (2 inp k D r rs)
  then obtain D1 o1 o2 where 1: "DispatchReceivedDatagram (inp k) D r = Some (D1, o1)" and 2: "dispatch_all inp (Suc k) D1 rs = Some (D', o2)" "out = o1 @ o2"
    by (auto simp: bind_eq_Some_conv)
  from DispatchReceivedDatagram_keeps [OF 1] "2.IH" [OF 1 refl 2(1)] show ?case
    unfolding 2(2) by (rule keeps_trans)
qed simp

lemma reader_ctor_keyed: "RecvPacketReader_ctor ev n = Some r \<Longrightarrow> reader_keyed r"
  by (auto simp: RecvPacketReader_ctor_def reader_keyed_def bind_eq_Some_conv Let_def)

lemma RecvCompletionEvent_keeps:
  assumes "RecvCompletionEvent inp D ev n = Some (D', out)"
  shows "keeps E D D' out"
proof -
  obtain R Sim rs where R: "RecvPacketReader_ctor ev n = Some R"
    and d: "dispatch_all inp 0 (D\<lparr>StatDatagramsReceived := StatDatagramsReceived D + 1, StatBytesReceived := StatBytesReceived D + word_of_nat n,
       RStore := RStore D @ [R], InboundSimulator := Sim\<rparr>) rs = Some (D', out)" (is "dispatch_all _ _ ?D _ = _")
    using assms by (auto simp: RecvCompletionEvent_def bind_eq_Some_conv Let_def)
  have "env_ok E D \<Longrightarrow> env_ok E ?D"
    using reader_ctor_keyed [OF R] by (auto simp: env_ok_def)
  then have "keeps E D ?D []"
    by (intro keeps_env) (simp_all add: same_conns_def)
  then show ?thesis
    using dispatch_all_keeps [OF d] by (rule keeps_trans_silent)
qed

lemma RunReceivedRawPacket_keeps:
  assumes "RunReceivedRawPacket inp D c r = Some (D', out)"
  shows "keeps E D D' out"
proof -
  obtain D1 o1 R where 1: "HandlerIncoming inp False D r = Some (D1, o1)" "rd (RStore D1) r = Some R"
    using assms by (auto simp: RunReceivedRawPacket_def bind_eq_Some_conv)
  note k1 = HandlerIncoming_keeps [OF 1(1)]
  show ?thesis
  proof (cases "bConnectionlessPacket R")
    case True
    then show ?thesis
      using assms 1 k1 by (simp add: RunReceivedRawPacket_def)
  next
    case False
    then obtain conn H B ok conn' o2 where 2: "rd (CStore D1) c = Some conn" "ReadHeader NotificationHeader_ctor (RHeader R) = Some (H, B, ok)"
      "ReceivedPacket conn R (INow inp) (INowUs inp) = Some conn'"
      "store_connection (D1\<lparr>RStore := (RStore D1)[r := R\<lparr>RHeader := B\<rparr>]\<rparr>) c conn' = Some (D', o2)" "out = o1 @ o2"
      using assms 1 by (auto simp: RunReceivedRawPacket_def bind_eq_Some_conv)
    let ?D = "D1\<lparr>RStore := (RStore D1)[r := R\<lparr>RHeader := B\<rparr>]\<rparr>"
    have "R = RStore D1 ! r" "r < length (RStore D1)"
      using 1(2) by (auto simp: rd_def split: if_splits)
    then have "env_ok E D1 \<Longrightarrow> env_ok E ?D"
      using set_update_subset_insert [of "RStore D1" r "R\<lparr>RHeader := B\<rparr>"] by (auto simp: env_ok_def reader_keyed_def)
    then have k2: "keeps E D1 ?D []"
      by (intro keeps_env) (simp_all add: same_conns_def)
    have "conn_evolves (CStore ?D ! c) conn'"
      using ReceivedPacket_evolves [OF 2(3)] 2(1) by (auto simp: rd_def split: if_splits)
    from keeps_trans_silent [OF k2 store_connection_keeps [OF this 2(4)]] k1 show ?thesis
      unfolding 2(5) by (blast intro: keeps_trans)
  qed
qed

text \<open>Sending does not close a connection.\<close>

lemma flush_loop_identity: "flush_loop k cfg c t Now = Some (c', es) \<Longrightarrow> same_identity c c'"
proof (induction k arbitrary: c es)
  case (Suc k)
  show ?case
  proof (cases "OutPacketQueue c")
    case Nil
    then show ?thesis
      using Suc.prems by (simp add: TryDequeuePacket_def same_identity_def)
  next
    case (Cons p rest)
    then obtain c1 p1 es1 where u: "UpdatePacketHeader cfg (c\<lparr>OutPacketQueue := rest\<rparr>) p t = Some (c1, p1)"
      and f: "flush_loop k cfg (c1\<lparr>LastSendTime := Now\<rparr>) t Now = Some (c', es1)"
      using Suc.prems by (auto simp: TryDequeuePacket_def bind_eq_Some_conv)
    from u have "same_identity c c1"
      by (auto simp: UpdatePacketHeader_def bind_eq_Some_conv Let_def same_identity_def)
    with Suc.IH [OF f] show ?thesis
      by (simp add: same_identity_def)
  qed
qed (simp add: same_identity_def)

lemma SendNetMessage_identity: "SendNetMessage c M i = Some (c', b) \<Longrightarrow> same_identity c c'"
  by (auto simp: SendNetMessage_def bind_eq_Some_conv same_identity_def split: option.splits prod.splits)

lemma keeps_identity:
  assumes "same_identity (CStore D ! c) conn"
  shows "keeps E D (D\<lparr>CStore := (CStore D)[c := conn]\<rparr>) []"
  using assms keep_connection by (simp add: keeps_def same_identity_def)

lemma SendRawNetMessage_keeps:
  assumes "SendRawNetMessage D M ch i = Some (D', b)"
  shows "keeps E D D' []"
proof -
  define t where "t = (if IsServer (DSetting D) then IpNetDriver_FindConnection D i else GetServerConnection D)"
  note step = assms [unfolded SendRawNetMessage_def t_def [symmetric]]
  show ?thesis
  proof (cases t)
    case None
    then show ?thesis
      using step by simp
  next
    case (Some c)
    then obtain conn where c: "rd (CStore D) c = Some conn"
      using step by (cases "rd (CStore D) c") auto
    then obtain conn' where conn': "SendNetMessage conn M (ucast ch) = Some (conn', b)" "D' = D\<lparr>CStore := (CStore D)[c := conn']\<rparr>"
      using step Some by (cases "SendNetMessage conn M (ucast ch)") auto
    have "same_identity (CStore D ! c) conn'"
      using SendNetMessage_identity [OF conn'(1)] c by (auto simp: rd_def split: if_splits)
    then show ?thesis
      unfolding conn'(2) by (rule keeps_identity)
  qed
qed

lemma send_messages_keeps: "send_messages D ms = Some D' \<Longrightarrow> keeps E D D' []"
proof (induction D ms arbitrary: D' rule: send_messages.induct)
  case (2 D M ch i ms)
  then obtain D1 b where 1: "SendRawNetMessage D M ch i = Some (D1, b)" and 2: "send_messages D1 ms = Some D'"
    by (auto simp: bind_eq_Some_conv)
  have "keeps E D1 D' []"
    by (rule "2.IH" [OF 1 refl 2])
  with SendRawNetMessage_keeps [OF 1] show ?case
    by (rule keeps_trans_silent)
qed simp

lemma set_channel_identity: "same_identity conn (set_channel conn i ch)"
  by (simp add: set_channel_def same_identity_def)

lemma rd_nth: "rd S c = Some x \<Longrightarrow> S ! c = x"
  by (simp add: rd_def split: if_splits)

lemma Channel_Tick_keeps:
  assumes "Channel_Tick inp D c i = Some (D', out)"
  shows "keeps E D D' out"
proof -
  obtain t0 t1 t2 where t: "ITicks inp = (t0, t1, t2)"
    by (rule prod_cases3)
  obtain conn slot where 1: "rd (CStore D) c = Some conn" "rd (Channels conn) i = Some slot"
    using assms by (auto simp: Channel_Tick_def bind_eq_Some_conv)
  show ?thesis
  proof (cases slot)
    case None
    then show ?thesis
      using assms 1 by (simp add: Channel_Tick_def)
  next
    case (Some ch)
    let ?D = "D\<lparr>CStore := (CStore D)[c := set_channel conn i (ch\<lparr>PendingDispatch := []\<rparr>)]\<rparr>"
    obtain D1 conn1 ch1 where 2: "send_messages ?D (ISent inp i) = Some D1" "rd (CStore D1) c = Some conn1"
      "D' = D1\<lparr>CStore := (CStore D1)[c := set_channel conn1 i ch1]\<rparr>" and out: "out = [] \<or> (\<exists>i ms. out = [HandleMessages i ms])"
      using assms 1 Some t by (auto simp: Channel_Tick_def DispatchPendingMessage_def bind_eq_Some_conv split: if_splits)
    have "keeps E D ?D []"
      by (rule keeps_identity) (simp add: rd_nth [OF 1(1)] set_channel_identity)
    moreover have "keeps E ?D D1 []"
      by (rule send_messages_keeps [OF 2(1)])
    moreover have "keeps E D1 D' []"
      unfolding 2(3) by (rule keeps_identity) (simp add: rd_nth [OF 2(2)] set_channel_identity)
    ultimately have "keeps E D D' []"
      by (rule keeps_trans_silent [OF keeps_trans_silent])
    moreover have "\<forall>x\<in>set out. \<forall>ps. players_after ps [x] = ps"
      using out by auto
    ultimately show ?thesis
      by (rule keeps_silent [rotated])
  qed
qed

lemma tick_channels_keeps: "tick_channels inp D c is = Some (D', out) \<Longrightarrow> keeps E D D' out"
proof (induction inp D c "is" arbitrary: D' out rule: tick_channels.induct)
  case (2 inp D c i "is")
  then obtain D1 o1 o2 where 1: "Channel_Tick inp D c i = Some (D1, o1)" and 2: "tick_channels inp D1 c is = Some (D', o2)" "out = o1 @ o2"
    by (auto simp: bind_eq_Some_conv)
  from Channel_Tick_keeps [OF 1] "2.IH" [OF 1 refl 2(1)] show ?case
    unfolding 2(2) by (rule keeps_trans)
qed simp

lemma RunTickDispatch_keeps:
  assumes "RunTickDispatch inp D c = Some (D', out)"
  shows "keeps E D D' out"
proof -
  obtain conn0 conn1 D1 o1 D2 o2 conn2 conn3 o3 where 1: "rd (CStore D) c = Some conn0" "DispatchPendingPacket (IsServer (DSetting D)) conn0 = Some conn1"
      "store_connection D c conn1 = Some (D1, o1)" "tick_channels inp D1 c [0..<length (Channels conn1)] = Some (D2, o2)"
      "rd (CStore D2) c = Some conn2" "AssembleOutgoingPackets (DSetting D2) conn2 (INow inp) = Some conn3"
      "store_connection D2 c conn3 = Some (D', o3)" and out: "out = o1 @ o2 @ o3"
    using assms by (auto simp: RunTickDispatch_def bind_eq_Some_conv)
  have "conn_evolves (CStore D ! c) conn1" "conn_evolves (CStore D2 ! c) conn3"
    using DispatchPendingPacket_evolves [OF 1(2)] AssembleOutgoingPackets_evolves [OF 1(6)] rd_nth [OF 1(1)] rd_nth [OF 1(5)] by simp_all
  from store_connection_keeps [OF this(1) 1(3)] tick_channels_keeps [OF 1(4)] store_connection_keeps [OF this(2) 1(7)] show ?thesis
    unfolding out by (blast intro: keeps_trans)
qed

lemma send_all_keeps: "send_all inp k D a es = (D', out) \<Longrightarrow> keeps E D D' out"
proof (induction inp k D a es arbitrary: D' out rule: send_all.induct)
  case (2 inp k D a e es)
  obtain D1 o1 where 1: "IpNetDriver_SendToRemote D a e (ISendDraw inp k) = (D1, o1)"
    by force
  obtain D2 o2 where 2: "send_all inp (Suc k) D1 a es = (D2, o2)"
    by force
  have "D' = D2" "out = o1 @ o2"
    using "2.prems" 1 2 by simp_all
  with SendToRemote_keeps [OF 1] "2.IH" [OF 1 [symmetric] refl 2] show ?case
    by (auto intro: keeps_trans)
qed simp

lemma RunTickFlush_keeps:
  assumes "RunTickFlush inp D c = Some (D', out)"
  shows "keeps E D D' out"
proof -
  obtain conn U where "rd (CStore D) c = Some conn" "rd (ProcessorContainer (ConnectionlessHandler D)) 0 = Some U"
    using assms by (auto simp: RunTickFlush_def bind_eq_Some_conv)
  then obtain conn' es where 1: "rd (CStore D) c = Some conn" "GameNetConnection_TickFlush (UCfg U) conn (INowUs inp) (INow inp) = Some (conn', es)"
    "send_all inp 0 (D\<lparr>CStore := (CStore D)[c := conn']\<rparr>) (ConnAddr conn') es = (D', out)"
    using assms by (auto simp: RunTickFlush_def bind_eq_Some_conv)
  have "same_identity (CStore D ! c) conn'"
    using flush_loop_identity 1(1,2) by (auto simp: GameNetConnection_TickFlush_def rd_def split: if_splits)
  from keeps_trans_silent [OF keeps_identity [OF this] send_all_keeps [OF 1(3)]] show ?thesis .
qed

lemma RunConnectionJob_keeps:
  assumes "RunConnectionJob inp D w = Some (D', out)"
  shows "keeps E D D' out"
proof -
  obtain q opt where q: "queue_try_pop (WorkerJobs D ! w) = (q, opt)"
    by force
  let ?D = "D\<lparr>WorkerJobs := (WorkerJobs D)[w := q]\<rparr>"
  have k: "keeps E D ?D []"
    by (intro keeps_same) (simp add: same_tables_def same_conns_def)
  have w: "w < length (WorkerJobs D)"
    using assms by (auto simp: RunConnectionJob_def rd_def split: if_splits)
  show ?thesis
  proof (cases opt)
    case None
    then show ?thesis
      using assms w q k by (simp add: RunConnectionJob_def Let_def)
  next
    case (Some job)
    note step = assms [unfolded RunConnectionJob_def rd_in [OF w] bind_simps Let_def q prod.case Some option.case]
    show ?thesis
    proof (cases "conn_alive ?D (job_connection job)")
      case False
      then show ?thesis
        using step k by simp
    next
      case True
      then have "(\<not> conn_alive ?D (job_connection job)) = False"
        by simp
      note step = step [unfolded this if_False]
      show ?thesis
      proof (cases job)
        case (ReceivedRawPacketJob c r)
        with step have "RunReceivedRawPacket inp ?D c r = Some (D', out)" by simp
        with k show ?thesis by (blast intro: keeps_trans_silent RunReceivedRawPacket_keeps)
      next
        case (TickDispatchJob c)
        with step have "RunTickDispatch inp ?D c = Some (D', out)" by simp
        with k show ?thesis by (blast intro: keeps_trans_silent RunTickDispatch_keeps)
      next
        case (TickFlushJob c)
        with step have "RunTickFlush inp ?D c = Some (D', out)" by simp
        with k show ?thesis by (blast intro: keeps_trans_silent RunTickFlush_keeps)
      qed
    qed
  qed
qed

lemma add_jobs_same: "add_jobs D jobs = Some D' \<Longrightarrow> same_tables D D'"
proof (induction jobs arbitrary: D)
  case (Cons job jobs)
  then show ?case
    by (fastforce simp: bind_eq_Some_conv same_tables_def same_conns_def dest: AddConnectionJob_same)
qed (simp add: same_tables_def same_conns_def)

lemma timeouts_loop_keeps: "timeouts_loop Now D cs = Some (D', out) \<Longrightarrow> keeps E D D' out"
proof (induction Now D cs arbitrary: D' out rule: timeouts_loop.induct)
  case (2 Now D c cs)
  obtain conn where conn: "rd (CStore D) c = Some conn"
    using "2.prems" by (auto simp: bind_eq_Some_conv)
  then obtain D1 o1 o2 where 1: "(if CState conn \<noteq> USOCK_Closed \<and> timed_out (DSetting D) Now conn
                then store_connection D c (Close conn ''Timeout'') else Some (D, [])) = Some (D1, o1)"
    and 2: "timeouts_loop Now D1 cs = Some (D', o2)" "out = o1 @ o2"
    using "2.prems" by (auto simp: bind_eq_Some_conv)
  have "conn_evolves (CStore D ! c) (Close conn ''Timeout'')"
    using conn by (auto simp: rd_def Close_evolves split: if_splits)
  then have "keeps E D D1 o1"
    using 1 by (auto intro: store_connection_keeps split: if_splits)
  then show ?case
    using "2.IH" [OF conn 1 refl 2(1)] unfolding 2(2) by (rule keeps_trans)
qed simp

lemma ConnectionsUpdate_silent:
  assumes "ConnectionsUpdate E U i Now = Some (U', fx)" shows "\<forall>k p. AddClient k p \<notin> set fx"
proof -
  have "\<forall>k p. AddClient k p \<notin> set fx" if "Resend_loop V es = Some (W, fx)" for V W es fx
    using that by (induction es arbitrary: V W fx) (auto simp: bind_eq_Some_conv)
  then show ?thesis
    using assms by (auto simp: ConnectionsUpdate_def ResendHandshake_def bind_eq_Some_conv split: if_splits)
qed

lemma update_keeps:
  assumes P: "ProcessorContainer (ConnectionlessHandler D) = U # Us"
    and u: "ConnectionsUpdate (DEnv D) U i Now = Some (U', fx)"
    and e: "exec_effects inp 0 (D\<lparr>ConnectionlessHandler := (ConnectionlessHandler D)\<lparr>ProcessorContainer := U' # Us\<rparr>\<rparr>) fx = Some (D', out)"
  shows "keeps E D D' out"
proof -
  let ?D = "D\<lparr>ConnectionlessHandler := (ConnectionlessHandler D)\<lparr>ProcessorContainer := U' # Us\<rparr>\<rparr>"
  have "env_ok E ?D" if "env_ok E D"
    using that P ConnectionsUpdate_inv [of E U i Now U' fx] u by (auto simp: env_ok_def)
  then have "keeps E D ?D []"
    by (intro keeps_env) (simp_all add: same_conns_def)
  moreover have "keeps E ?D D' out"
    using ConnectionsUpdate_silent [OF u] by (intro exec_effects_keeps [OF e]) blast
  ultimately show ?thesis
    by (rule keeps_trans_silent)
qed

lemma CheckConnectionTimeouts_keeps: "CheckConnectionTimeouts Now D = Some (D', out) \<Longrightarrow> keeps E D D' out"
  by (auto simp: CheckConnectionTimeouts_def intro: timeouts_loop_keeps split: if_splits)

lemma NetDriver_TickHousekeeping_keeps:
  assumes "NetDriver_TickHousekeeping inp D = Some (D', out)"
  shows "keeps E D D' out"
proof -
  let ?D1 = "D\<lparr>LastDeltaTimeMs := word_of_int (millis (INow (inp 0) - LastTickTime D)),
      ElapsedTimeUsCount := ElapsedTimeUsCount D + word_of_int (micros (INow (inp 0) - LastTickTime D)), LastTickTime := INow (inp 0)\<rparr>"
  let ?D2 = "?D1\<lparr>LastCacheCleanupTime := INow (inp 0), CacheCleanupIndex := (CacheCleanupIndex D + 1) mod 60\<rparr>"
  have k1: "keeps E D ?D1 []" "keeps E D ?D2 []"
    by (intro keeps_same; simp add: same_tables_def same_conns_def)+
  show ?thesis
  proof (cases "1000000000 \<le> INow (inp 0) - LastCacheCleanupTime D")
    case False
    then show ?thesis
      using assms k1(1) by (simp add: NetDriver_TickHousekeeping_def Let_def)
  next
    case True
    obtain D3 o3 o4 where 3: "(case ProcessorContainer (ConnectionlessHandler ?D2) of
            [] \<Rightarrow> Some (?D2, [])
          | U # Us \<Rightarrow> do {
              (U, fx) \<leftarrow> ConnectionsUpdate (DEnv ?D2) U (ucast (CacheCleanupIndex ?D2)) (GetElapsedTimeSec ?D2);
              exec_effects (inp 0) 0 (?D2\<lparr>ConnectionlessHandler := (ConnectionlessHandler ?D2)\<lparr>ProcessorContainer := U # Us\<rparr>\<rparr>) fx }) = Some (D3, o3)"
      and 4: "CheckConnectionTimeouts (INow (inp 1)) D3 = Some (D', o4)" "out = o3 @ o4"
      using assms True by (auto simp: NetDriver_TickHousekeeping_def Let_def bind_eq_Some_conv)
    have "keeps E ?D2 D3 o3"
    proof (cases "ProcessorContainer (ConnectionlessHandler ?D2)")
      case Nil
      then show ?thesis
        using 3 by simp
    next
      case (Cons U Us)
      then obtain U' fx where "ConnectionsUpdate (DEnv ?D2) U (ucast (CacheCleanupIndex ?D2)) (GetElapsedTimeSec ?D2) = Some (U', fx)"
        "exec_effects (inp 0) 0 (?D2\<lparr>ConnectionlessHandler := (ConnectionlessHandler ?D2)\<lparr>ProcessorContainer := U' # Us\<rparr>\<rparr>) fx = Some (D3, o3)"
        using 3 unfolding Cons by (auto simp: bind_eq_Some_conv)
      then show ?thesis
        by (rule update_keeps [OF Cons])
    qed
    then have "keeps E ?D2 D' out"
      using CheckConnectionTimeouts_keeps [OF 4(1)] unfolding 4(2) by (rule keeps_trans)
    with k1(2) show ?thesis
      by (rule keeps_trans_silent)
  qed
qed

lemma IpNetDriver_TickHousekeeping_keeps:
  assumes "IpNetDriver_TickHousekeeping inp D = Some (D', out)"
  shows "keeps E D D' out"
proof -
  obtain D1 o1 where 1: "NetDriver_TickHousekeeping inp D = Some (D1, o1)"
    using assms by (auto simp: IpNetDriver_TickHousekeeping_def bind_eq_Some_conv)
  obtain Sim rs where f: "FlushStale (InboundSimulator D1) (INow (inp 2)) = (Sim, rs)"
    by force
  then obtain o2 where 2: "dispatch_all inp 3 (D1\<lparr>InboundSimulator := Sim\<rparr>) rs = Some (D', o2)" "out = o1 @ o2"
    using assms 1 by (auto simp: IpNetDriver_TickHousekeeping_def bind_eq_Some_conv)
  have "keeps E D1 (D1\<lparr>InboundSimulator := Sim\<rparr>) []"
    by (intro keeps_same) (simp add: same_tables_def same_conns_def)
  from keeps_trans_silent [OF this dispatch_all_keeps [OF 2(1)]] NetDriver_TickHousekeeping_keeps [OF 1] show ?thesis
    unfolding 2(2) by (blast intro: keeps_trans)
qed

lemma ticks_keep:
  "IpNetDriver_TickDispatch D = Some D' \<Longrightarrow> keeps E D D' []" "IpNetDriver_TickFlush D = Some D' \<Longrightarrow> keeps E D D' []"
  by (auto simp: IpNetDriver_TickDispatch_def IpNetDriver_TickFlush_def intro: keeps_same add_jobs_same)

section \<open>Runs of a server's driver\<close>

inductive driver_run :: "UdpEnv \<Rightarrow> IpNetDriver \<Rightarrow> DriverOut list \<Rightarrow> bool" for E where
  listen: "IsServer (ESetting E) \<Longrightarrow> InitListen Override True junk (IpNetDriver_ctor E now) = Some (D, True) \<Longrightarrow> driver_run E D []"
| received: "driver_run E D outs \<Longrightarrow> RecvCompletionEvent inp D ev n = Some (D', out) \<Longrightarrow> driver_run E D' (outs @ out)"
| job: "driver_run E D outs \<Longrightarrow> RunConnectionJob ins D w = Some (D', out) \<Longrightarrow> driver_run E D' (outs @ out)"
| housekeeping: "driver_run E D outs \<Longrightarrow> IpNetDriver_TickHousekeeping inp D = Some (D', out) \<Longrightarrow> driver_run E D' (outs @ out)"
| dispatch: "driver_run E D outs \<Longrightarrow> IpNetDriver_TickDispatch D = Some D' \<Longrightarrow> driver_run E D' outs"
| flush: "driver_run E D outs \<Longrightarrow> IpNetDriver_TickFlush D = Some D' \<Longrightarrow> driver_run E D' outs"
| message: "driver_run E D outs \<Longrightarrow> SendRawNetMessage D M ch i = Some (D', b) \<Longrightarrow> driver_run E D' outs"

lemma listen_inv:
  assumes "IsServer (ESetting E)" "InitListen Override True junk (IpNetDriver_ctor E now) = Some (D, True)"
  shows "driver_inv E D []"
proof -
  have client: "\<not> IsClient (ESetting E)"
    using assms(1) by (simp add: IsServer_def IsClient_def)
  obtain U where U: "SetSupervisor (ESetting E) (UdpConnectionProcessor_ctor ProcServer) = Some U"
    and D: "ProcessorContainer (ConnectionlessHandler D) = [U]" "DEnv D = E" "ServerConnection D = None" "CStore D = []"
      "OwnerThreadId D = []" "RemoteConnections D = []" "HashToConnectionMap D = []" "ConnectionMap D = []" "RStore D = []"
      "PlayerUniqueIdAllocator D = IDAllocator_ctor 1"
    using assms client
    by (auto simp: InitListen_def NetDriver_InitBase_def InitSimulators_def InitConnectionlessHandler_def AddProcessor_def IpNetDriver_ctor_def
        PacketPipeline_ctor_def bind_eq_Some_conv Let_def)
  have "server_inv E U"
    using server_run.start [OF U] by (rule server_run_inv)
  then show ?thesis
    using assms(1) by (simp add: driver_inv_def env_ok_def ids_ok_def tables_ok_def hash_ok_def found_ok_def D IDAllocator_ctor_def conn_id_def)
qed

lemma driver_run_inv:
  "driver_run E D outs \<Longrightarrow> length (CStore D) < max_clients \<Longrightarrow> driver_inv E D outs"
proof (induction rule: driver_run.induct)
  case (listen Override junk now D)
  then show ?case
    by (blast intro: listen_inv)
next
  case (received D outs inp ev n D' out)
  then show ?case
    using RecvCompletionEvent_keeps [OF received.hyps(2), of E] by (simp add: keeps_def)
next
  case (job D outs ins w D' out)
  then show ?case
    using RunConnectionJob_keeps [OF job.hyps(2), of E] by (simp add: keeps_def)
next
  case (housekeeping D outs inp D' out)
  then show ?case
    using IpNetDriver_TickHousekeeping_keeps [OF housekeeping.hyps(2), of E] by (simp add: keeps_def)
next
  case (dispatch D outs D')
  then show ?case
    using ticks_keep(1) [OF dispatch.hyps(2), of E] by (simp add: keeps_def)
next
  case (flush D outs D')
  then show ?case
    using ticks_keep(2) [OF flush.hyps(2), of E] by (simp add: keeps_def)
next
  case (message D outs M ch i D' b)
  then show ?case
    using SendRawNetMessage_keeps [OF message.hyps(2), of E] by (simp add: keeps_def)
qed

end
