(* ===== verification/LaDeltaM.thy ===== *)
theory LaDeltaM
  imports DriverRun
begin

text \<open>
  Network, \<open>service/LaDelta\<close>: the facade of the library. It reads the configuration, starts the driver and
  runs its ticks at the configured rate. Reading the configuration file, the handlers of the application
  and waiting for the completion port are outside; the file is \<open>None\<close> when it does not exist.
\<close>

section \<open>Initialisation\<close>

record LaDelta =
  LSetting :: "DriverSetting option"
  LDriver :: "IpNetDriver option"
  NextTickTime :: int
  HasNotify :: bool
  HasService :: bool

definition LaDelta_ctor :: "int \<Rightarrow> LaDelta" where
  "LaDelta_ctor now = \<lparr>LSetting = None, LDriver = None, NextTickTime = now, HasNotify = False, HasService = False\<rparr>"

text \<open>The four functions that register a factory do the same with their own variable.\<close>

definition RegisterFactory :: "'f option \<Rightarrow> 'f option \<Rightarrow> 'f option \<times> bool" where
  "RegisterFactory G fn = (if G \<noteq> None then (G, False) else (fn, fn \<noteq> None))"

definition CreateHandler :: "(unit \<Rightarrow> 'h option) option \<Rightarrow> 'h option" where
  "CreateHandler factory = (case factory of None \<Rightarrow> None | Some f \<Rightarrow> f ())"

text \<open>The global handler after the call; the manager gets it when there is one.\<close>

definition InitProtocolHandler :: "'h option \<Rightarrow> (unit \<Rightarrow> 'h option) option \<Rightarrow> 'h option" where
  "InitProtocolHandler G factory = (case G of None \<Rightarrow> CreateHandler factory | Some h \<Rightarrow> Some h)"

definition InitNetworkSetting :: "LaDelta \<Rightarrow> ServerConfig option \<Rightarrow> EClientType \<Rightarrow> EServerType \<Rightarrow> LaDelta" where
  "InitNetworkSetting L NetConfig ct0 st0 =
     (case NetConfig of None \<Rightarrow> L | Some NetSetting \<Rightarrow> L\<lparr>LSetting := Some (DriverSetting_ctor NetSetting ct0 st0)\<rparr>)"

text \<open>What the operating system answers: the workers asked for, whether the socket is bound, the resolver, the port.\<close>

record InitAnswers =
  AOverride :: "int option"
  ABound :: bool
  AResolve :: "string \<Rightarrow> SockAddr option"
  APort :: "u16 option"
  AInputs :: DriverInputs
  ANow :: int

text \<open>A setting that is missing is a null pointer; what the start of the driver returns is not looked at.\<close>

definition InitDriver :: "UdpEnv \<Rightarrow> InitAnswers \<Rightarrow> LaDelta \<Rightarrow> LaDelta option" where
  "InitDriver X A L = do {
     S \<leftarrow> LSetting L;
     let Driver = IpNetDriver_ctor (X\<lparr>ESetting := S\<rparr>) (ANow A);
     if IsClient S then do {
       (Driver, _) \<leftarrow> InitConnect (AOverride A) (ABound A) (AResolve A) (APort A) (AInputs A) Driver;
       Some (L\<lparr>LDriver := Some Driver\<rparr>) }
     else if IsServer S \<and> ServerType S = LoginServer then do {
       (Driver, _) \<leftarrow> InitListen (AOverride A) (ABound A) (IJunk (AInputs A)) Driver;
       Some (L\<lparr>LDriver := Some Driver\<rparr>) }
     else Some L }"

definition InitInterface :: "LaDelta \<Rightarrow> bool \<Rightarrow> bool \<Rightarrow> LaDelta" where
  "InitInterface L Notify Service = L\<lparr>HasNotify := HasNotify L \<or> Notify, HasService := HasService L \<or> Service\<rparr>"

definition CheckDefaultInitialize :: "LaDelta \<Rightarrow> u32" where
  "CheckDefaultInitialize L =
     (if LSetting L \<noteq> None \<and> LDriver L \<noteq> None then 0
      else (if LSetting L = None then 0x00000001 else 0) OR (if LDriver L = None then 0x00000010 else 0)
        OR (if \<not> HasNotify L then 0x00010000 else 0) OR (if \<not> HasService L then 0x00100000 else 0))"

definition InitAPI :: "UdpEnv \<Rightarrow> InitAnswers \<Rightarrow> ServerConfig option \<Rightarrow> EClientType \<Rightarrow> EServerType \<Rightarrow> bool \<Rightarrow> bool \<Rightarrow> LaDelta \<Rightarrow> (LaDelta \<times> u32) option" where
  "InitAPI X A NetConfig ct0 st0 Notify Service L = do {
     L \<leftarrow> InitDriver X A (InitNetworkSetting L NetConfig ct0 st0);
     let L = InitInterface L Notify Service;
     Some (L, CheckDefaultInitialize L) }"

section \<open>Ticks\<close>

text \<open>Times and durations are in nanoseconds.\<close>

definition GetMaxTickRate :: "LaDelta \<Rightarrow> nat" where
  "GetMaxTickRate L = (case LDriver L of None \<Rightarrow> 0 | Some D \<Rightarrow> unat (MaxTickRate (DSetting D)))"

definition GetTickInterval :: "LaDelta \<Rightarrow> int" where
  "GetTickInterval L = (let Hz = GetMaxTickRate L in if Hz = 0 then 0 else int (1000000 div Hz) * 1000)"

definition TickSweep :: "(nat \<Rightarrow> DriverInputs) \<Rightarrow> int \<Rightarrow> LaDelta \<Rightarrow> (LaDelta \<times> DriverOut list) option" where
  "TickSweep inp Now L =
     (if Now < NextTickTime L then Some (L, [])
      else do {
        D \<leftarrow> LDriver L;
        (D, out) \<leftarrow> IpNetDriver_TickHousekeeping inp D;
        D \<leftarrow> IpNetDriver_TickDispatch D;
        D \<leftarrow> IpNetDriver_TickFlush D;
        let L = L\<lparr>LDriver := Some D\<rparr>;
        let Interval = GetTickInterval L;
        let Next = NextTickTime L + Interval;
        Some (L\<lparr>NextTickTime := (if Next < Now then Now + Interval else Next)\<rparr>, out) })"

text \<open>A duration in a coarser unit, rounded up.\<close>

definition ceil_to :: "int \<Rightarrow> int \<Rightarrow> int" where
  "ceil_to u ns = - ((- ns) div u)"

definition clamp :: "int \<Rightarrow> int \<Rightarrow> int \<Rightarrow> int" where
  "clamp x lo hi = (if x < lo then lo else if hi < x then hi else x)"

definition MsUntilNextTick :: "LaDelta \<Rightarrow> int \<Rightarrow> int" where
  "MsUntilNextTick L Now =
     (let Remaining = NextTickTime L - Now in if Remaining \<le> 0 then 0 else clamp (ceil_to 1000000 Remaining) 1 100)"

definition UsUntilNextTick :: "LaDelta \<Rightarrow> int \<Rightarrow> int" where
  "UsUntilNextTick L Now =
     (let Remaining = NextTickTime L - Now in if Remaining \<le> 0 then 0 else clamp (ceil_to 1000 Remaining) 1 100000)"

text \<open>One turn of a client: the sweep and the time to wait for datagrams.\<close>

definition TickOnce :: "(nat \<Rightarrow> DriverInputs) \<Rightarrow> int \<Rightarrow> int \<Rightarrow> LaDelta \<Rightarrow> (LaDelta \<times> DriverOut list \<times> int) option" where
  "TickOnce inp Now Now' L = do {
     (L, out) \<leftarrow> TickSweep inp Now L;
     _ \<leftarrow> LDriver L;
     Some (L, out, MsUntilNextTick L Now') }"

definition GetSyntheticTrafficHz :: "LaDelta \<Rightarrow> u32" where
  "GetSyntheticTrafficHz L = (case LDriver L of None \<Rightarrow> 1 | Some D \<Rightarrow> SyntheticTrafficHz (DSetting D))"

definition GetClientConnectionId :: "LaDelta \<Rightarrow> u32" where
  "GetClientConnectionId L =
     (case LDriver L of None \<Rightarrow> 0
      | Some D \<Rightarrow> if \<not> IsClient (DSetting D) then 0
         else (case GetServerConnection D of None \<Rightarrow> 0 | Some s \<Rightarrow> UniqueConnectionId (CStore D ! s)))"

definition EnqueueMessageBuffer :: "LaDelta \<Rightarrow> NetMessage \<Rightarrow> u8 \<Rightarrow> u32 \<Rightarrow> (LaDelta \<times> bool) option" where
  "EnqueueMessageBuffer L Message ChannelId PlayerId = do {
     D \<leftarrow> LDriver L;
     (D, ok) \<leftarrow> SendRawNetMessage D Message ChannelId PlayerId;
     Some (L\<lparr>LDriver := Some D\<rparr>, ok) }"

section \<open>The settings of a driver do not change\<close>

definition env_kept :: "UdpEnv \<Rightarrow> (IpNetDriver \<times> DriverOut list) option \<Rightarrow> bool" where
  "env_kept E res \<longleftrightarrow> pred_option (\<lambda>r. DEnv (fst r) = E) res"

lemma env_kept_simps [simp]:
  "env_kept E None" "env_kept E (Some r) \<longleftrightarrow> DEnv (fst r) = E"
  by (simp_all add: env_kept_def)

lemma env_bind: "(\<And>x. m = Some x \<Longrightarrow> env_kept E (f x)) \<Longrightarrow> env_kept E (m \<bind> f)"
  by (cases m) auto

lemma env_seq: "env_kept E m \<Longrightarrow> (\<And>r. DEnv (fst r) = E \<Longrightarrow> env_kept E (f r)) \<Longrightarrow> env_kept E (m \<bind> f)"
  by (cases m) auto

lemma env_IpNetDriver_AddClient: "DEnv D = E \<Longrightarrow> env_kept E (IpNetDriver_AddClient inp D k p)"
  unfolding IpNetDriver_AddClient_def AddClient_Internal_def AssignConnectionThreadIndex_def Let_def
  by (auto intro!: env_bind simp: bind_eq_Some_conv split: prod.split if_splits)

lemma env_exec_effects: "DEnv D = E \<Longrightarrow> env_kept E (exec_effects inp n D fx)"
proof (induction inp n D fx rule: exec_effects.induct)
  case (2 inp n D a e fx)
  obtain D1 o1 where 1: "IpNetDriver_SendToRemote D a e (ISendDraw inp n) = (D1, o1)"
    by force
  then have "DEnv D1 = E"
    using "2.prems" by (auto simp: IpNetDriver_SendToRemote_def split: if_splits)
  from "2.IH" [OF 1 [symmetric] refl this] 1 show ?case
    by (auto intro!: env_seq)
next
  case (3 inp n D k p fx)
  show ?case
  proof (cases "IpNetDriver_AddClient inp D k p")
    case (Some x)
    then show ?thesis
      using "3.IH" [OF Some prod.collapse] env_IpNetDriver_AddClient [OF "3.prems", of inp k p]
      by (cases x) (auto intro!: env_seq)
  qed simp
next
  case (4 inp n D fx)
  obtain P c where 1: "CompleteHandshake (ConnectionlessHandler D) = (P, c)"
    by force
  with "4.IH" [OF 1 [symmetric] refl] "4.prems" show ?case
    by (auto intro!: env_seq)
qed simp

lemma env_HandlerIncoming: "DEnv D = E \<Longrightarrow> env_kept E (HandlerIncoming inp b D r)"
  unfolding HandlerIncoming_def Let_def
  by (auto intro!: env_bind env_exec_effects split: prod.split)

lemma env_Dispatch: "DEnv D = E \<Longrightarrow> env_kept E (DispatchReceivedDatagram inp D r)"
  unfolding DispatchReceivedDatagram_def DispatchDeliver_def ProcessConnectionlessPacket_def ReceivedRawPacket_def AddConnectionJob_def Let_def
  by (auto intro!: env_bind env_HandlerIncoming simp: bind_eq_Some_conv split: option.split)

lemma env_dispatch_all: "DEnv D = E \<Longrightarrow> env_kept E (dispatch_all inp k D rs)"
proof (induction rs arbitrary: D k)
  case (Cons r rs)
  then show ?case
    using env_Dispatch [OF Cons.prems] by (auto intro!: env_seq split: prod.split)
qed simp

lemma env_timeouts_loop: "DEnv D = E \<Longrightarrow> env_kept E (timeouts_loop Now D cs)"
proof (induction cs arbitrary: D)
  case (Cons c cs)
  have "env_kept E (store_connection D c conn)" for conn
    using Cons.prems unfolding store_connection_def IpNetDriver_RemoveConnection_def Let_def
    by (auto intro!: env_bind)
  then show ?case
    using Cons by (auto intro!: env_bind [where m = "rd _ _"] env_seq split: prod.split)
qed simp

lemma env_NetDriver_TickHousekeeping: "DEnv D = E \<Longrightarrow> env_kept E (NetDriver_TickHousekeeping inp D)"
  unfolding NetDriver_TickHousekeeping_def CheckConnectionTimeouts_def Let_def
  by (auto intro!: env_seq env_bind [where m = "ConnectionsUpdate _ _ _ _"] env_exec_effects env_timeouts_loop split: prod.split list.split)

lemma env_TickHousekeeping: "DEnv D = E \<Longrightarrow> env_kept E (IpNetDriver_TickHousekeeping inp D)"
  unfolding IpNetDriver_TickHousekeeping_def Let_def
  by (auto intro!: env_seq env_NetDriver_TickHousekeeping env_dispatch_all split: prod.split)

lemma TickSweep_interval:
  assumes "TickSweep inp Now L = Some (L', out)" shows "GetTickInterval L' = GetTickInterval L"
proof (cases "Now < NextTickTime L")
  case False
  obtain D D1 out1 D2 D3 where D: "LDriver L = Some D" "IpNetDriver_TickHousekeeping inp D = Some (D1, out1)"
    "IpNetDriver_TickDispatch D1 = Some D2" "IpNetDriver_TickFlush D2 = Some D3" "LDriver L' = Some D3"
    using assms False by (auto simp: TickSweep_def bind_eq_Some_conv Let_def)
  have "DEnv D1 = DEnv D"
    using env_TickHousekeeping [of D "DEnv D" inp] D(2) by simp
  moreover have "DEnv D2 = DEnv D1" "DEnv D3 = DEnv D2"
    using add_jobs_same D(3,4) by (auto simp: IpNetDriver_TickDispatch_def IpNetDriver_TickFlush_def same_tables_def)
  ultimately show ?thesis
    using D(1,5) by (simp add: GetTickInterval_def GetMaxTickRate_def)
qed (use assms in \<open>simp add: TickSweep_def\<close>)

section \<open>The rate of the sweeps\<close>

text \<open>Calls of \<open>TickSweep\<close> with a clock that does not go back; \<open>ts\<close> are the times of those that swept.\<close>

inductive tick_run :: "LaDelta \<Rightarrow> LaDelta \<Rightarrow> int \<Rightarrow> int list \<Rightarrow> bool" for L0 where
  start: "tick_run L0 L0 clock []"
| idle: "tick_run L0 L clock ts \<Longrightarrow> clock \<le> Now \<Longrightarrow> Now < NextTickTime L \<Longrightarrow> TickSweep inp Now L = Some (L', out) \<Longrightarrow> tick_run L0 L' Now ts"
| sweep: "tick_run L0 L clock ts \<Longrightarrow> clock \<le> Now \<Longrightarrow> NextTickTime L \<le> Now \<Longrightarrow> TickSweep inp Now L = Some (L', out)
    \<Longrightarrow> tick_run L0 L' Now (ts @ [Now])"

lemma TickSweep_next:
  assumes "TickSweep inp Now L = Some (L', out)"
  shows "NextTickTime L' = (if Now < NextTickTime L then NextTickTime L
    else if NextTickTime L + GetTickInterval L < Now then Now + GetTickInterval L else NextTickTime L + GetTickInterval L)"
  using assms TickSweep_interval [OF assms]
  by (auto simp: TickSweep_def bind_eq_Some_conv Let_def GetTickInterval_def GetMaxTickRate_def split: if_splits)

lemma GetTickInterval_nonneg: "0 \<le> GetTickInterval L"
  by (simp add: GetTickInterval_def Let_def)

text \<open>What holds of the scheduled time and of the sweeps so far.\<close>

definition on_time :: "LaDelta \<Rightarrow> int list \<Rightarrow> bool" where
  "on_time L0 ts \<longleftrightarrow> (\<forall>i < length ts. ts ! i \<le> NextTickTime L0 + int (Suc i) * GetTickInterval L0)"

definition spaced :: "int \<Rightarrow> int list \<Rightarrow> bool" where
  "spaced I ts \<longleftrightarrow> (\<forall>i j. i < j \<and> j < length ts \<longrightarrow> int (j - i - 1) * I \<le> ts ! j - ts ! i)"

definition tick_inv :: "LaDelta \<Rightarrow> LaDelta \<Rightarrow> int list \<Rightarrow> bool" where
  "tick_inv L0 L ts \<longleftrightarrow> GetTickInterval L = GetTickInterval L0 \<and> spaced (GetTickInterval L0) ts
     \<and> (\<forall>i < length ts. ts ! i + int (length ts - i - 1) * GetTickInterval L0 \<le> NextTickTime L)
     \<and> (ts \<noteq> [] \<longrightarrow> NextTickTime L \<le> last ts + GetTickInterval L0)
     \<and> (on_time L0 ts \<longrightarrow> NextTickTime L = NextTickTime L0 + int (length ts) * GetTickInterval L0)"

lemma tick_run_inv: "tick_run L0 L clock ts \<Longrightarrow> tick_inv L0 L ts"
proof (induction rule: tick_run.induct)
  case (start clock)
  show ?case by (simp add: tick_inv_def spaced_def)
next
  case (idle L clock ts Now inp L' out)
  then have "L' = L"
    by (simp add: TickSweep_def)
  with idle show ?case by simp
next
  case (sweep L clock ts Now inp L' out)
  let ?I = "GetTickInterval L0" and ?ts = "ts @ [Now]"
  have I: "GetTickInterval L = ?I" "GetTickInterval L' = ?I"
    using sweep.IH TickSweep_interval [OF sweep.hyps(4)] by (simp_all add: tick_inv_def)
  have due: "ts ! i + int (length ts - i - 1) * ?I \<le> NextTickTime L" if "i < length ts" for i
    using sweep.IH that by (simp add: tick_inv_def)
  have nxt: "NextTickTime L' = (if NextTickTime L + ?I < Now then Now + ?I else NextTickTime L + ?I)"
    using TickSweep_next [OF sweep.hyps(4)] sweep.hyps(3) I by simp
  have "spaced ?I ?ts"
    using sweep.IH due sweep.hyps(3) unfolding spaced_def tick_inv_def
    by (auto simp: nth_append less_Suc_eq intro: order_trans [OF _ diff_right_mono])
  moreover have "?ts ! i + int (length ?ts - i - 1) * ?I \<le> NextTickTime L'" if i: "i < length ?ts" for i
  proof (cases "i < length ts")
    case True
    have "int (length ?ts - i - 1) * ?I = int (length ts - i - 1) * ?I + ?I"
      using True by (simp add: Suc_diff_Suc of_nat_diff algebra_simps)
    with True due [OF True] nxt sweep.hyps(3) show ?thesis
      by (auto simp: nth_append)
  next
    case False
    then have "i = length ts"
      using i by simp
    with nxt sweep.hyps(3) GetTickInterval_nonneg [of L0] show ?thesis by auto
  qed
  moreover have "NextTickTime L' \<le> Now + ?I"
    using nxt sweep.hyps(3) by auto
  moreover have "NextTickTime L' = NextTickTime L0 + int (length ?ts) * ?I" if ot: "on_time L0 ?ts"
  proof -
    have "on_time L0 ts"
      using ot unfolding on_time_def by (metis length_append_singleton less_SucI nth_append)
    then have "NextTickTime L = NextTickTime L0 + int (length ts) * ?I"
      using sweep.IH by (simp add: tick_inv_def)
    moreover have "Now \<le> NextTickTime L0 + int (Suc (length ts)) * ?I"
      using ot unfolding on_time_def by (metis length_append_singleton lessI nth_append_length)
    ultimately show ?thesis
      using nxt by (simp add: algebra_simps)
  qed
  ultimately show ?case
    using I by (simp add: tick_inv_def)
qed

lemma interval_of_rate:
  assumes "0 < GetMaxTickRate L"
  shows "GetTickInterval L * int (GetMaxTickRate L) \<le> 1000000000 \<and> 1000000000 < (GetTickInterval L + 1000) * int (GetMaxTickRate L)"
proof -
  define h p where "h = GetMaxTickRate L" and "p = (1000000 div h) * h"
  have "p + 1000000 mod h = 1000000" "1000000 mod h < h"
    using assms by (simp_all add: p_def h_def)
  then have q: "p \<le> 1000000" "1000000 < p + h"
    by linarith+
  have I: "GetTickInterval L = int (1000000 div h) * 1000"
    using assms by (simp add: GetTickInterval_def Let_def h_def)
  have "GetTickInterval L * int h = int p * 1000" "(GetTickInterval L + 1000) * int h = int p * 1000 + int h * 1000"
    by (simp_all add: I p_def algebra_simps)
  with q show ?thesis
    unfolding h_def [symmetric] by linarith
qed

text \<open>
  C27. The sweeps keep the rate of their interval, which is a second divided by the configured rate and cut
  to whole microseconds, so that it is short by less than one of them and the rate may be exceeded. Over any
  calls with a clock that does not go back, the n-th sweep after a given one comes at least n - 1 intervals
  later, so a time of k intervals sees at most k + 2 sweeps; the next one is due at most one interval after
  the last; and as long as no sweep comes more than one interval late the k-th is scheduled exactly k
  intervals after the start, without drift. The wait that is computed is zero exactly when a sweep is due and
  at most 100 ms; unless it is cut to these 100 ms it ends when the sweep is due or less than a millisecond
  after it.
\<close>

theorem sweeps_keep_the_rate:
  assumes "tick_run L0 L clock ts"
  shows "(i < j \<and> j < length ts \<longrightarrow> int (j - i - 1) * GetTickInterval L0 \<le> ts ! j - ts ! i)
    \<and> (ts \<noteq> [] \<longrightarrow> last ts \<le> NextTickTime L \<and> NextTickTime L \<le> last ts + GetTickInterval L0)
    \<and> (on_time L0 ts \<longrightarrow> NextTickTime L = NextTickTime L0 + int (length ts) * GetTickInterval L0)
    \<and> (MsUntilNextTick L Now = 0 \<longleftrightarrow> NextTickTime L \<le> Now) \<and> MsUntilNextTick L Now \<in> {0..100}
    \<and> (Now < NextTickTime L \<longrightarrow> Now + (MsUntilNextTick L Now - 1) * 1000000 < NextTickTime L
         \<and> (MsUntilNextTick L Now < 100 \<longrightarrow> NextTickTime L \<le> Now + MsUntilNextTick L Now * 1000000))
    \<and> (0 < GetMaxTickRate L0 \<longrightarrow> GetTickInterval L0 * int (GetMaxTickRate L0) \<le> 1000000000
         \<and> 1000000000 < (GetTickInterval L0 + 1000) * int (GetMaxTickRate L0))"
proof -
  note inv = tick_run_inv [OF assms]
  have "last ts \<le> NextTickTime L" if "ts \<noteq> []"
  proof -
    from that have "ts ! (length ts - 1) + int (length ts - (length ts - 1) - 1) * GetTickInterval L0 \<le> NextTickTime L"
      using inv unfolding tick_inv_def by (metis diff_less length_greater_0_conv zero_less_one)
    with that show ?thesis by (simp add: last_conv_nth)
  qed
  moreover have "MsUntilNextTick L Now = 0 \<longleftrightarrow> NextTickTime L \<le> Now" "MsUntilNextTick L Now \<in> {0..100}"
    by (auto simp: MsUntilNextTick_def clamp_def Let_def)
  moreover have "Now + (MsUntilNextTick L Now - 1) * 1000000 < NextTickTime L" if "Now < NextTickTime L"
    using that by (auto simp: MsUntilNextTick_def clamp_def Let_def ceil_to_def)
  moreover have "NextTickTime L \<le> Now + MsUntilNextTick L Now * 1000000" if "Now < NextTickTime L" "MsUntilNextTick L Now < 100"
    using that by (auto simp: MsUntilNextTick_def clamp_def Let_def ceil_to_def split: if_splits)
  moreover have "GetTickInterval L0 * int (GetMaxTickRate L0) \<le> 1000000000 \<and> 1000000000 < (GetTickInterval L0 + 1000) * int (GetMaxTickRate L0)"
    if "0 < GetMaxTickRate L0"
    by (rule interval_of_rate [OF that])
  ultimately show ?thesis
    using inv by (auto simp: tick_inv_def spaced_def)
qed

text \<open>A server of the login type, whose sweeps come every sixtieth of a second, late once.\<close>

definition demo_setting :: DriverSetting where
  "demo_setting = (DriverSetting_init ModeServer ClientNone LoginServer)\<lparr>SetHandshakeSecret := replicate 20 0\<rparr>"

definition demo_ladelta :: "int \<Rightarrow> LaDelta" where
  "demo_ladelta nxt = (LaDelta_ctor nxt)\<lparr>LSetting := Some demo_setting, LDriver := Some (IpNetDriver_ctor (demo_env\<lparr>ESetting := demo_setting\<rparr>) 0)\<rparr>"

lemma demo_interval: "GetTickInterval (demo_ladelta n) = 16666000"
  by (simp add: GetTickInterval_def GetMaxTickRate_def demo_ladelta_def IpNetDriver_ctor_def demo_setting_def DriverSetting_init_def)

theorem sweeps_keep_the_rate_witness:
  "\<exists>L0 L. tick_run L0 L 0 [0] \<and> GetTickInterval L0 = 16666000 \<and> NextTickTime L = 16666000 \<and> MsUntilNextTick L 0 = 17"
proof -
  let ?i = "\<lambda>_. \<lparr>INow = 0, INowUs = 0, IRand = [], IDropDraw = 0, IDuplicateDraw = 0, IPick = 0, ISendDraw = (\<lambda>_. 0), IJunk = 0, ITicks = (0, 0, 0), ISent = (\<lambda>_. [])\<rparr>"
  obtain L out where L: "TickSweep ?i 0 (demo_ladelta 0) = Some (L, out)"
    by (simp add: TickSweep_def demo_ladelta_def LaDelta_ctor_def IpNetDriver_TickHousekeeping_def NetDriver_TickHousekeeping_def
        IpNetDriver_ctor_def FlushStale_def PacketSimulator_ctor_def IpNetDriver_TickDispatch_def IpNetDriver_TickFlush_def Let_def)
  have n: "NextTickTime (demo_ladelta 0) = 0"
    by (simp add: demo_ladelta_def LaDelta_ctor_def)
  have run: "tick_run (demo_ladelta 0) L 0 [0]"
    using tick_run.sweep [OF tick_run.start _ _ L, of 0] n by simp
  have "on_time (demo_ladelta 0) [0]"
    by (simp add: on_time_def n demo_interval)
  with sweeps_keep_the_rate [OF run, of 0 0 0] have "NextTickTime L = 16666000"
    by (simp add: n demo_interval)
  then show ?thesis
    using run demo_interval by (intro exI [of _ "demo_ladelta 0"] exI [of _ L])
      (simp add: MsUntilNextTick_def ceil_to_def clamp_def)
qed

section \<open>What initialisation does not notice\<close>

text \<open>
  Two failures of the start. Without a configuration file there is no setting, and the driver is made
  from a null pointer, so the code for a missing setting is never returned. When the socket cannot be
  bound, the start of the driver fails but the library reports success.
\<close>

lemma initialisation_hides_failures:
  "InitAPI X A None ct0 st0 n s (LaDelta_ctor t) = None"
  "ABound A = False \<Longrightarrow> CfgDriverMode c = ModeServer \<Longrightarrow> CfgServerType c = LoginServer
    \<Longrightarrow> map_option snd (InitAPI X A (Some c) ct0 st0 n s (LaDelta_ctor t)) = Some 0"
proof -
  show "InitAPI X A None ct0 st0 n s (LaDelta_ctor t) = None"
    by (simp add: InitAPI_def InitDriver_def InitNetworkSetting_def LaDelta_ctor_def)
  assume b: "ABound A = False" "CfgDriverMode c = ModeServer" "CfgServerType c = LoginServer"
  have "ServerType (DriverSetting_ctor c ct0 st0) = LoginServer"
    using b(2,3) by (simp add: DriverSetting_ctor_def DriverSetting_init_def Let_def)
  moreover have "IsServer (DriverSetting_ctor c ct0 st0)" "\<not> IsClient (DriverSetting_ctor c ct0 st0)"
    using b(2) by (simp_all add: IsServer_def IsClient_def ctor_fields_set)
  ultimately show "map_option snd (InitAPI X A (Some c) ct0 st0 n s (LaDelta_ctor t)) = Some 0"
    using b(1) by (simp add: InitAPI_def InitDriver_def InitNetworkSetting_def LaDelta_ctor_def InitListen_def Let_def CheckDefaultInitialize_def InitInterface_def)
qed

end
