(* ===== verification/DriverTables.thy ===== *)
theory DriverTables
  imports DriverRun
begin

text \<open>
  What the tables of a server's driver promise: the connections in them are the open ones, connections
  that fall silent are closed and leave, and a client that completes the handshake enters.
\<close>

section \<open>The tables agree\<close>

lemma map_of_keyed: "inj_on f (set xs) \<Longrightarrow> map_of (map (\<lambda>c. (f c, c)) xs) i = Some c \<longleftrightarrow> c \<in> set xs \<and> f c = i"
  by (induction xs) (auto simp: inj_on_def)

lemma driver_invD:
  assumes "driver_inv E D outs"
  shows "c \<in> set (RemoteConnections D) \<longleftrightarrow> c < length (CStore D) \<and> conn_open D c" "c < length (CStore D) \<Longrightarrow> UniqueConnectionId (CStore D ! c) = conn_id c"
    "c < length (CStore D) \<Longrightarrow> bHasDriver (CStore D ! c)"
  using assms by (auto simp: driver_inv_def tables_ok_def ids_ok_def)

text \<open>
  C3. In every run of a server's driver, as long as fewer than \<open>2 ^ 32 - 1\<close> clients have joined, the
  list of connections holds the open connections in the order they joined, a lookup by player finds
  exactly the open connection with that identifier, an address that is found leads to an open connection
  of that address, every open connection is found under its address unless an earlier one with that
  address was open when it joined, and the players that the protocol handler was told about and not told
  to drop are the open connections.
\<close>

theorem driver_tables_consistent:
  assumes "driver_run E D outs" and "length (CStore D) < max_clients"
  shows "RemoteConnections D = filter (conn_open D) [0..<length (CStore D)]
    \<and> (IpNetDriver_FindConnection D i = Some c \<longleftrightarrow> c < length (CStore D) \<and> conn_open D c \<and> UniqueConnectionId (CStore D ! c) = i)
    \<and> (map_of (HashToConnectionMap D) k = Some d \<longrightarrow>
         d < length (CStore D) \<and> conn_open D d \<and> conn_key D d = k)
    \<and> (\<forall>e < length (CStore D). conn_open D e \<longrightarrow> map_of (HashToConnectionMap D) (conn_key D e) = Some e
         \<or> (\<exists>d<e. conn_key D d = conn_key D e \<and> open_when_joined outs e d))
    \<and> players_after [] outs = map (\<lambda>c. UniqueConnectionId (CStore D ! c)) (RemoteConnections D)"
proof -
  note inv = driver_run_inv [OF assms]
  have cm: "ConnectionMap D = map (\<lambda>c. (conn_id c, c)) (RemoteConnections D)"
    using inv by (simp add: driver_inv_def tables_ok_def)
  have "inj_on conn_id (set (RemoteConnections D))"
    using assms(2) conn_id_inject by (auto simp: inj_on_def driver_invD(1) [OF inv])
  then have "IpNetDriver_FindConnection D i = Some c \<longleftrightarrow> c \<in> set (RemoteConnections D) \<and> conn_id c = i"
    unfolding IpNetDriver_FindConnection_def cm by (rule map_of_keyed)
  moreover have "players_after [] outs = map (\<lambda>c. UniqueConnectionId (CStore D ! c)) (RemoteConnections D)"
    using inv cm by (auto simp: driver_inv_def driver_invD [OF inv])
  ultimately show ?thesis
    using inv driver_invD(1) [OF inv] by (auto simp: driver_inv_def tables_ok_def hash_ok_def found_ok_def conn_key_def dest: map_of_SomeD)
qed

section \<open>Timeouts\<close>

definition silent :: "int \<Rightarrow> IpNetDriver \<Rightarrow> nat \<Rightarrow> bool" where
  "silent Now D c \<longleftrightarrow> timed_out (DSetting D) Now (CStore D ! c)"

lemma timeouts_loop_result:
  assumes "driver_inv E D outs" "length (CStore D) < max_clients" "set cs \<subseteq> set (RemoteConnections D)" "distinct cs"
  shows "\<exists>D'. timeouts_loop Now D cs = Some (D', map (\<lambda>c. RemovePlayerConnection (UniqueConnectionId (CStore D ! c))) (filter (silent Now D) cs))
    \<and> RemoteConnections D' = filter (\<lambda>c. c \<in> set cs \<longrightarrow> \<not> silent Now D c) (RemoteConnections D) \<and> length (CStore D') = length (CStore D)
    \<and> (\<forall>c. CStore D' ! c = (if c \<in> set cs \<and> silent Now D c then Close (CStore D ! c) ''Timeout'' else CStore D ! c))"
  using assms
proof (induction cs arbitrary: D outs)
  case (Cons c cs)
  note inv = driver_invD [OF Cons.prems(1)]
  have c: "c < length (CStore D)" "CState (CStore D ! c) \<noteq> USOCK_Closed" "bHasDriver (CStore D ! c)"
    using Cons.prems(3) inv by (simp_all add: conn_open_def)
  have r: "rd (CStore D) c = Some (CStore D ! c)"
    using c(1) by (simp add: rd_def)
  show ?case
  proof (cases "silent Now D c")
    case False
    have "set cs \<subseteq> set (RemoteConnections D)" "distinct cs"
      using Cons.prems(3,4) by simp_all
    note ih = Cons.IH [OF Cons.prems(1,2) this]
    have "timeouts_loop Now D (c # cs) = timeouts_loop Now D cs"
      using False r by (simp add: silent_def split: bind_splits)
    moreover have "d \<in> set (c # cs) \<and> silent Now D d \<longleftrightarrow> d \<in> set cs \<and> silent Now D d"
      "(d \<in> set (c # cs) \<longrightarrow> \<not> silent Now D d) \<longleftrightarrow> (d \<in> set cs \<longrightarrow> \<not> silent Now D d)" for d
      using False by auto
    ultimately show ?thesis
      using ih False by (simp only: filter.simps if_False)
  next
    case True
    let ?x = "Close (CStore D ! c) ''Timeout''"
    obtain D1 where st: "store_connection D c ?x = Some (D1, [RemovePlayerConnection (UniqueConnectionId (CStore D ! c))])"
      and D1: "RemoteConnections D1 = filter (\<lambda>d. d \<noteq> c) (RemoteConnections D)" "CStore D1 = (CStore D)[c := ?x]" "DEnv D1 = DEnv D"
      using c by (simp add: store_connection_def IpNetDriver_RemoveConnection_def Close_def Let_def)
    have inv1: "driver_inv E D1 (outs @ [RemovePlayerConnection (UniqueConnectionId (CStore D ! c))])"
      using store_connection_keeps [OF Close_evolves st] Cons.prems(1,2) by (simp add: keeps_def D1)
    have sil: "silent Now D1 d = silent Now D d" if "d \<noteq> c" for d
      using that by (simp add: silent_def D1)
    have "set cs \<subseteq> set (RemoteConnections D1)" "c \<notin> set cs" "distinct cs"
      using Cons.prems(3,4) by (auto simp: D1)
    from Cons.IH [OF inv1 _ this(1,3)] Cons.prems(2) this(2) obtain D' where
      D': "timeouts_loop Now D1 cs = Some (D', map (\<lambda>c. RemovePlayerConnection (UniqueConnectionId (CStore D1 ! c))) (filter (silent Now D1) cs))"
      "RemoteConnections D' = filter (\<lambda>c. c \<in> set cs \<longrightarrow> \<not> silent Now D1 c) (RemoteConnections D1)" "length (CStore D') = length (CStore D1)"
      "\<forall>c. CStore D' ! c = (if c \<in> set cs \<and> silent Now D1 c then Close (CStore D1 ! c) ''Timeout'' else CStore D1 ! c)"
      and nin: "c \<notin> set cs"
      by (auto simp: D1)
    have other: "x \<noteq> c" if "x \<in> set cs" for x
      using that nin by blast
    have id: "UniqueConnectionId (CStore D1 ! x) = UniqueConnectionId (CStore D ! x)" for x
      unfolding D1 by (rule field_of_update) (simp add: Close_def Let_def)
    have "map (\<lambda>c. RemovePlayerConnection (UniqueConnectionId (CStore D1 ! c))) (filter (silent Now D1) cs)
        = map (\<lambda>c. RemovePlayerConnection (UniqueConnectionId (CStore D ! c))) (filter (silent Now D) cs)"
      by (intro map_cong filter_cong) (simp_all add: sil id other)
    then have "timeouts_loop Now D (c # cs) =
        Some (D', map (\<lambda>c. RemovePlayerConnection (UniqueConnectionId (CStore D ! c))) (filter (silent Now D) (c # cs)))"
      using r c True st D'(1) by (simp add: silent_def)
    moreover have "RemoteConnections D' = filter (\<lambda>d. d \<in> set (c # cs) \<longrightarrow> \<not> silent Now D d) (RemoteConnections D)"
      unfolding D'(2) D1 using True by (auto simp: sil intro: filter_cong)
    moreover have "CStore D' ! d = (if d \<in> set (c # cs) \<and> silent Now D d then Close (CStore D ! d) ''Timeout'' else CStore D ! d)" for d
      using D'(4) True nin c(1) by (cases "d = c") (simp_all add: D1 sil)
    moreover have "length (CStore D') = length (CStore D)"
      by (simp add: D'(3) D1)
    ultimately show ?thesis by blast
  qed
qed simp

text \<open>
  C19. In every run of a server's driver with timeouts enabled, a check of the timeouts closes exactly
  the open connections from which nothing was received for longer than the time allowed in their state,
  removes exactly these from the list of connections and reports their players to the protocol handler in
  the order they joined; every other connection is left as it is.
\<close>

theorem timeouts_close_silent_connections:
  assumes "driver_run E D outs" and "length (CStore D) < max_clients" and "\<not> bNoTimeouts (DSetting D)"
  shows "\<exists>D'. CheckConnectionTimeouts Now D =
      Some (D', map (\<lambda>c. RemovePlayerConnection (UniqueConnectionId (CStore D ! c))) (filter (silent Now D) (RemoteConnections D)))
    \<and> RemoteConnections D' = filter (\<lambda>c. \<not> silent Now D c) (RemoteConnections D)
    \<and> (\<forall>c. CStore D' ! c = (if c \<in> set (RemoteConnections D) \<and> silent Now D c then Close (CStore D ! c) ''Timeout'' else CStore D ! c))"
proof -
  note inv = driver_run_inv [OF assms(1,2)]
  have "distinct (RemoteConnections D)"
    using inv by (simp add: driver_inv_def tables_ok_def)
  then show ?thesis
    using timeouts_loop_result [OF inv assms(2), of "RemoteConnections D" Now] assms(3)
    by (auto simp: CheckConnectionTimeouts_def cong: filter_cong)
qed

section \<open>A client that is admitted\<close>

lemma map_option_bind: "map_option g (m \<bind> f) = m \<bind> (\<lambda>x. map_option g (f x))"
  by (cases m) simp_all

lemma connectionless_flag:
  "IncomingConnectionless E U (SetConnectionlessPacket r True) T1 T2 T3 Rand NowUs =
     map_option (\<lambda>(U, r, fx). (U, SetConnectionlessPacket r True, fx)) (IncomingConnectionless E U r T1 T2 T3 Rand NowUs)"
proof -
  have swap: "r\<lparr>bConnectionlessPacket := b, RHeader := h\<rparr> = r\<lparr>RHeader := h, bConnectionlessPacket := b\<rparr>" for h b
    by simp
  show ?thesis
    by (simp add: IncomingConnectionless_def SetConnectionlessPacket_def map_option_bind case_prod_unfold Let_def swap if_distrib [of "map_option _"]
        cong: if_cong)
qed

text \<open>A datagram of an unknown sender when no datagrams are dropped, duplicated or reordered.\<close>

lemma received_unknown:
  assumes D: "IsServer (DSetting D)" "\<not> IsClient (DSetting D)" "ProcessorContainer (ConnectionlessHandler D) = [U]"
    and sim: "\<not> IsEnabled (InboundSimulator D)" and r: "RecvPacketReader_ctor ev n = Some r" and k: "map_of (HashToConnectionMap D) (RHashKey r) = None"
    and inc: "IncomingConnectionless (DEnv D) U r (GetElapsedTimeSec D) (GetElapsedTimeSec D) (GetElapsedTimeSec D) (IRand (inp 0)) (INowUs (inp 0)) = Some (U', r', fx)"
  shows "RecvCompletionEvent inp D ev n = exec_effects (inp 0) 0
    (D\<lparr>StatDatagramsReceived := StatDatagramsReceived D + 1, StatBytesReceived := StatBytesReceived D + word_of_nat n,
       ConnectionlessHandler := (ConnectionlessHandler D)\<lparr>ProcessorContainer := [U']\<rparr>,
       RStore := RStore D @ [SetConnectionlessPacket r' True]\<rparr>) fx"
proof -
  let ?i = "length (RStore D)"
  have P: "Process (InboundSimulator D) ?i d1 d2 i Now = Some (InboundSimulator D, [?i])" for d1 d2 i Now
    using sim by (simp add: Process_def IsEnabled_def RollPermille_def word_gt_0)
  show ?thesis
    using D r k connectionless_flag [of "DEnv D" U r] inc
    by (simp add: RecvCompletionEvent_def P DispatchReceivedDatagram_def GetServerConnection_def rd_def DispatchLookup_def DispatchDeliver_def
        ProcessConnectionlessPacket_def HandlerIncoming_def PacketPipeline_IncomingConnectionless_def PacketPipeline_Incoming_def
        GetElapsedTimeSec_def SetConnectionlessPacket_def)
qed

text \<open>The connection of a new client.\<close>

definition fresh_connection :: "DriverInputs \<Rightarrow> DriverSetting \<Rightarrow> PendingRemoteConnection \<Rightarrow> u32 \<Rightarrow> NetConnection" where
  "fresh_connection inp S p i =
     fst (InitSequence (InitRemoteConnection S (NetConnection_ctor (IJunk inp)) (Address p) USOCK_Open i (INow inp))
       (sint (ClientSequence p)) (sint (ServerSequence p)))"

lemma fresh_connection:
  shows "UniqueConnectionId (fresh_connection inp S p i) = i" "CState (fresh_connection inp S p i) = USOCK_Open"
    "ConnAddr (fresh_connection inp S p i) = Address p" "InPacketId (fresh_connection inp S p i) = sint (ClientSequence p) - 1"
    "COutPacketId (fresh_connection inp S p i) = sint (ServerSequence p)"
    "InitInReliable (fresh_connection inp S p i) = ClientSequence p AND (MAX_CHSEQUENCE - 1)"
    "InitOutReliable (fresh_connection inp S p i) = ServerSequence p AND (MAX_CHSEQUENCE - 1)"
    "length (Channels (fresh_connection inp S p i)) = unat (MaxChannelsSize S)"
  by (simp_all add: fresh_connection_def InitSequence_def InitRemoteConnection_def NetConnection_InitBase_def InitChannelData_def
      NetConnection_ctor_def Let_def)

definition with_channels :: "NetConnection \<Rightarrow> NetConnection" where
  "with_channels c = c\<lparr>Channels := (Channels c)
     [0 := Some (Channel_Init ControlChannel_ctor 0 (InitInReliable c) (InitOutReliable c)),
      Suc 0 := Some (Channel_Init ActorChannel_ctor 1 (InitInReliable c) (InitOutReliable c))]\<rparr>"

lemma CreateInitialChannels_total: "2 \<le> length (Channels c) \<Longrightarrow> CreateInitialChannels c = Some (with_channels c)"
  by (auto simp: CreateInitialChannels_def CreateChannelByName_def InternalCreateChannelByName_def wr_def with_channels_def)

lemma AddClient_enters:
  assumes i: "ProcessorContainer (ConnectionlessHandler D) \<noteq> []" "freeIDs (PlayerUniqueIdAllocator D) = []"
      "IDcounter (PlayerUniqueIdAllocator D) = conn_id (length (CStore D))" "length (OwnerThreadId D) = length (CStore D)"
    and ch: "2 \<le> unat (MaxChannelsSize (DSetting D))"
    and w: "0 < length (WorkerJobs D)" "length (WorkerJobs D) < 2 ^ 32"
  shows "\<exists>D'. IpNetDriver_AddClient inp D k p = Some (D', [AddPlayerConnection (conn_id (length (CStore D)))])
    \<and> CStore D' = CStore D @ [with_channels (fresh_connection inp (DSetting D) p (conn_id (length (CStore D))))]
    \<and> HashToConnectionMap D' = (if map_of (HashToConnectionMap D) k = None then HashToConnectionMap D @ [(k, length (CStore D))] else HashToConnectionMap D)
    \<and> length (OwnerThreadId D') = Suc (length (CStore D)) \<and> OwnerThreadId D' ! length (CStore D) < length (WorkerJobs D)
    \<and> WorkerJobs D' = WorkerJobs D \<and> DEnv D' = DEnv D \<and> RStore D' = RStore D \<and> ConnectionlessHandler D' = ConnectionlessHandler D
    \<and> RemoteConnections D' = RemoteConnections D @ [length (CStore D)]"
proof -
  let ?n = "length (CStore D)" and ?x = "fresh_connection inp (DSetting D) p (conn_id (length (CStore D)))"
  have C: "CreateInitialChannels ?x = Some (with_channels ?x)"
    using CreateInitialChannels_total [of ?x] ch by (simp add: fresh_connection)
  have T: "unat (word_of_nat (length (WorkerJobs D)) :: u32) = length (WorkerJobs D)"
    using w by (simp add: unat_of_nat)
  then have T0: "(word_of_nat (length (WorkerJobs D)) :: u32) \<noteq> 0"
    using w by auto
  from T have "unat (NextOwnerIndex D mod word_of_nat (length (WorkerJobs D))) < length (WorkerJobs D)"
    using w by (simp add: unat_mod_distrib)
  with i C T0 show ?thesis
    by (auto simp: IpNetDriver_AddClient_def Allocate_def AddClient_Internal_def AssignConnectionThreadIndex_def wr_def Let_def nth_append
        fresh_connection_def [symmetric])
qed

text \<open>
  C18. A client that completes the handshake enters the driver of a server: when no connection has the
  key of its address, the call makes an open connection with the next identifier and the client's
  address, whose packet numbers are the two of the handshake and whose control and actor channels exist;
  it is found under its identifier and its key, the protocol handler is told of the player, and the next
  datagram with that key becomes the last job of one worker of the driver.
\<close>

theorem admitted_client_joins:
  assumes "driver_run E D outs" and "Suc (length (CStore D)) < max_clients" and "2 \<le> unat (MaxChannelsSize (ESetting E))"
    and "0 < length (WorkerJobs D)" "length (WorkerJobs D) < 2 ^ 32" and "map_of (HashToConnectionMap D) k = None"
    and "MakeIPv4PortKeyFromStorage (Address p) = k"
  shows "\<exists>D' c conn w. IpNetDriver_AddClient inp D k p = Some (D', [AddPlayerConnection (conn_id c)]) \<and> c = length (CStore D)
    \<and> IpNetDriver_FindConnection D' (conn_id c) = Some c \<and> map_of (HashToConnectionMap D') k = Some c
    \<and> rd (CStore D') c = Some conn \<and> CState conn = USOCK_Open \<and> ConnAddr conn = Address p
    \<and> InPacketId conn = sint (ClientSequence p) - 1 \<and> COutPacketId conn = sint (ServerSequence p)
    \<and> Channels conn ! 0 \<noteq> None \<and> Channels conn ! 1 \<noteq> None
    \<and> w < length (WorkerJobs D)
    \<and> (\<forall>r < length (RStore D). RHashKey (RStore D ! r) = k \<longrightarrow>
         DispatchReceivedDatagram inp' D' r =
           Some (D'\<lparr>WorkerJobs := (WorkerJobs D')[w := WorkerJobs D' ! w @ [ReceivedRawPacketJob c r]]\<rparr>, []))"
proof -
  let ?c = "length (CStore D)"
  have inv: "driver_inv E D outs"
    using driver_run_inv [OF assms(1)] assms(2) by simp
  then have E: "DEnv D = E" "IsServer (ESetting E)"
    by (simp_all add: driver_inv_def env_ok_def)
  then have client: "\<not> IsClient (ESetting E)"
    by (simp add: IsServer_def IsClient_def)
  let ?x = "with_channels (fresh_connection inp (ESetting E) p (conn_id ?c))"
  have "ProcessorContainer (ConnectionlessHandler D) \<noteq> []" "freeIDs (PlayerUniqueIdAllocator D) = []"
      "IDcounter (PlayerUniqueIdAllocator D) = conn_id ?c" "length (OwnerThreadId D) = ?c" "2 \<le> unat (MaxChannelsSize (DSetting D))"
    using inv assms(3) E by (auto simp: driver_inv_def ids_ok_def env_ok_def)
  from AddClient_enters [OF this assms(4,5), of inp k p] assms(6) E(1)
  obtain D' where D': "IpNetDriver_AddClient inp D k p = Some (D', [AddPlayerConnection (conn_id ?c)])"
      "CStore D' = CStore D @ [?x]" "HashToConnectionMap D' = HashToConnectionMap D @ [(k, ?c)]"
      "length (OwnerThreadId D') = Suc ?c" "OwnerThreadId D' ! ?c < length (WorkerJobs D)" "WorkerJobs D' = WorkerJobs D" "DEnv D' = E"
      "RStore D' = RStore D"
    by auto
  have "driver_inv E D' (outs @ [AddPlayerConnection (conn_id ?c)])"
    using AddClient_keeps [OF D'(1) assms(7)] inv assms(2) by (simp add: keeps_def D'(2))
  then have tab: "ConnectionMap D' = map (\<lambda>c. (conn_id c, c)) (RemoteConnections D')" "?c \<in> set (RemoteConnections D')" "ServerConnection D' = None"
    and rc: "\<forall>d\<in>set (RemoteConnections D'). d < Suc ?c"
    by (auto simp: driver_inv_def tables_ok_def env_ok_def driver_invD(1) conn_open_def D'(2) with_channels_def fresh_connection)
  have "inj_on conn_id (set (RemoteConnections D'))"
  proof (rule inj_onI)
    fix d e
    assume de: "d \<in> set (RemoteConnections D')" "e \<in> set (RemoteConnections D')" "conn_id d = conn_id e"
    then have "d < max_clients" "e < max_clients"
      using rc assms(2) by fastforce+
    with de(3) show "d = e"
      using conn_id_inject by blast
  qed
  then have find: "IpNetDriver_FindConnection D' (conn_id ?c) = Some ?c"
    unfolding IpNetDriver_FindConnection_def tab(1) by (subst map_of_keyed) (simp_all add: tab(2))
  have hash: "map_of (HashToConnectionMap D') k = Some ?c"
    using assms(6) by (simp add: D'(3) map_add_def)
  have x: "rd (CStore D') ?c = Some ?x" "CState ?x = USOCK_Open" "ConnAddr ?x = Address p" "InPacketId ?x = sint (ClientSequence p) - 1"
      "COutPacketId ?x = sint (ServerSequence p)" "Channels ?x ! 0 \<noteq> None" "Channels ?x ! 1 \<noteq> None"
    using assms(3) by (simp_all add: D'(2) with_channels_def fresh_connection)
  have "DispatchReceivedDatagram inp' D' r = Some (D'\<lparr>WorkerJobs := (WorkerJobs D')[OwnerThreadId D' ! ?c :=
      WorkerJobs D' ! (OwnerThreadId D' ! ?c) @ [ReceivedRawPacketJob ?c r]]\<rparr>, [])" if "r < length (RStore D)" "RHashKey (RStore D ! r) = k" for r
    using that D'(4-8) E(2) client hash tab(2)
    by (simp add: DispatchReceivedDatagram_def DispatchLookup_def DispatchDeliver_def GetServerConnection_def
        ReceivedRawPacket_def AddConnectionJob_def wr_def queue_push_def)
  with D'(1,5) find hash x show ?thesis by blast
qed

section \<open>A server with one client\<close>

definition demo_inputs :: DriverInputs where
  "demo_inputs = \<lparr>INow = 0, INowUs = 0, IRand = replicate 9 5, IDropDraw = 0, IDuplicateDraw = 0, IPick = 0, ISendDraw = (\<lambda>_. 0), IJunk = 0, ITicks = (0, 0, 0), ISent = (\<lambda>_. [])\<rparr>"

lemma demo_start: "SetSupervisor (ESetting demo_env) (UdpConnectionProcessor_ctor ProcServer) = Some demo_server"
  by (simp add: SetSupervisor_def demo_env_def demo_server_def DriverSetting_init_def UdpConnectionProcessor_ctor_def default_cfg_def COOKIE_BYTE_SIZE_def
      del: replicate.simps)

lemma dround_zero: "dround False 0 d = 0"
  by (simp add: dround_def dround_bits_def nat_len.simps [of 0] Let_def)

lemma elapsed_zero: "ElapsedTimeUsCount D = 0 \<Longrightarrow> GetElapsedTimeSec D = 0"
  by (simp add: GetElapsedTimeSec_def dmul_pos_def d_of_u64_def dround_zero dmag_def dman_def dexp_def)

lemma demo_listen:
  "\<exists>D. InitListen None True 0 (IpNetDriver_ctor demo_env 0) = Some (D, True) \<and> ProcessorContainer (ConnectionlessHandler D) = [demo_server]
     \<and> \<not> IsEnabled (InboundSimulator D) \<and> ElapsedTimeUsCount D = 0 \<and> HashToConnectionMap D = [] \<and> CStore D = []
     \<and> length (WorkerJobs D) = 8 \<and> DEnv D = demo_env \<and> RStore D = [] \<and> RemoteConnections D = []"
  using demo_start
  by (simp add: InitListen_def NetDriver_InitBase_def InitSimulators_def InitConnectionlessHandler_def AddProcessor_def IpNetDriver_ctor_def
      PacketPipeline_ctor_def Let_def IsEnabled_def Reconfigure_def PacketSimulator_ctor_def ResolveWorkerCount_def)
    (simp add: demo_env_def DriverSetting_init_def IsServer_def IsClient_def)

lemma demo_lifetime: "CookieTime y = 0 \<Longrightarrow> valid_lifetime 0 y"
proof -
  have "dsub 0 0 = 0"
    by (simp add: dsub_def Let_def dneg_def dinf_def dexp_def dman_def)
  moreover have "dlt 0 (dsub MAX_COOKIE_LIFETIME 0)"
    by (subst dsub_positive)
      (simp_all add: dlt_def dnan_def dinf_def dneg_def dint_def dmag_def dexp_def dman_def MAX_COOKIE_LIFETIME_def)
  ultimately show "CookieTime y = 0 \<Longrightarrow> valid_lifetime 0 y"
    by (simp add: valid_lifetime_def dle_def)
qed

lemma send_only:
  "\<exists>D' out. exec_effects inp k D [SendToRemote a e] = Some (D', out) \<and> same_tables D D' \<and> WorkerJobs D' = WorkerJobs D
     \<and> InboundSimulator D' = InboundSimulator D \<and> ElapsedTimeUsCount D' = ElapsedTimeUsCount D
     \<and> ConnectionlessHandler D' = ConnectionlessHandler D \<and> (\<forall>ps. players_after ps out = ps) \<and> (\<forall>e\<in>set out. \<exists>a d. e = Datagram a d)"
  by (simp add: IpNetDriver_SendToRemote_def same_tables_def same_conns_def)

text \<open>The client of the loopback address sends its first packet and the response to the challenge.\<close>

lemma demo_driver:
  "\<exists>D outs k. driver_run demo_env D outs \<and> length (CStore D) = Suc 0 \<and> RemoteConnections D = [0] \<and> map_of (HashToConnectionMap D) k = Some 0
     \<and> (\<exists>r < length (RStore D). RHashKey (RStore D ! r) = k) \<and> CState (CStore D ! 0) = USOCK_Open \<and> LastReceiveTime (CStore D ! 0) = 0
     \<and> players_after [] outs = [1] \<and> (\<forall>i ms. HandleMessages i ms \<notin> set outs)"
proof -
  let ?x = "PendingRemoteConnection_ctor 0 0 0 loopback 0" and ?F = "replicate 9 (5 :: u8)" and ?k = "MakeIPv4PortKeyFromStorage loopback"
  have F: "filler_ok ?F"
    by (simp add: filler_ok_def BaseRandomDataLengthBytes_def RandomDataLengthVarianceBytes_def)
  have x: "SessionId ?x = 0"
    by (simp add: PendingRemoteConnection_ctor_def)
  have key: "RHashKey r = ?k" if "deliver e loopback [] = Some r" for e r
    using that by (auto simp: deliver_def RecvPacketReader_ctor_def bind_eq_Some_conv)
  note ctor = deliver_def [symmetric, where addr = loopback and junk = "[]"]
  obtain D0 where D0: "InitListen None True 0 (IpNetDriver_ctor demo_env 0) = Some (D0, True)" "ProcessorContainer (ConnectionlessHandler D0) = [demo_server]"
      "\<not> IsEnabled (InboundSimulator D0)" "ElapsedTimeUsCount D0 = 0" "HashToConnectionMap D0 = []" "CStore D0 = []"
      "length (WorkerJobs D0) = 8" "DEnv D0 = demo_env" "RStore D0 = []" "RemoteConnections D0 = []"
    using demo_listen by blast
  have sv: "IsServer (ESetting demo_env)" "\<not> IsClient (ESetting demo_env)" "2 \<le> unat (MaxChannelsSize (ESetting demo_env))"
    by (simp_all add: demo_env_def DriverSetting_init_def IsServer_def IsClient_def)
  have run0: "driver_run demo_env D0 []"
    by (rule driver_run.listen [OF sv(1) D0(1)])
  obtain e1 where "handshake_event (UCfg demo_server) e1 InitialPacket ?x 0 0 (replicate 20 0)"
    using Build_event [OF writes_Initial [OF demo_ok(3) F]] by blast
  from challenge_way [OF demo_ok(5-7,3,4) F demo_ok(1) this x, where ?T1.0 = 0 and ?T2.0 = 0 and ?T3.0 = 0 and NowUs = 0 and junk = "[]"]
  obtain r1 r1' S1 p y e2 where s1: "deliver e1 loopback [] = Some r1" "IncomingConnectionless demo_env demo_server r1 0 0 0 ?F 0 = Some (S1, r1', [SendToRemote loopback e2])"
    "FindConnection (RemoteManager S1) ?k = Some p" "pending S1 p = Some y" "Address y = loopback" "CookieTime y = 0"
    "UCfg S1 = UCfg demo_server" "UMode S1 = UMode demo_server"
    by blast
  let ?ev = "\<lambda>e. \<lparr>EData = concat (wsaBufs e), remoteAddr = loopback\<rparr>" and ?n = "\<lambda>e. length (concat (wsaBufs e))"
  have inp: "IRand demo_inputs = ?F" "INowUs demo_inputs = 0"
    by (simp_all add: demo_inputs_def)
  have r1: "RecvPacketReader_ctor (?ev e1) (?n e1) = Some r1"
    using s1(1) by (simp add: deliver_def)
  have R1: "RecvCompletionEvent (\<lambda>_. demo_inputs) D0 (?ev e1) (?n e1) = exec_effects demo_inputs 0
    (D0\<lparr>StatDatagramsReceived := StatDatagramsReceived D0 + 1, StatBytesReceived := StatBytesReceived D0 + word_of_nat (?n e1),
       ConnectionlessHandler := (ConnectionlessHandler D0)\<lparr>ProcessorContainer := [S1]\<rparr>, RStore := RStore D0 @ [SetConnectionlessPacket r1' True]\<rparr>)
    [SendToRemote loopback e2]"
    by (rule received_unknown [OF _ _ D0(2,3) r1]) (use sv s1(2) D0 elapsed_zero [OF D0(4)] inp in simp_all)
  let ?A = "D0\<lparr>StatDatagramsReceived := StatDatagramsReceived D0 + 1, StatBytesReceived := StatBytesReceived D0 + word_of_nat (?n e1),
       ConnectionlessHandler := (ConnectionlessHandler D0)\<lparr>ProcessorContainer := [S1]\<rparr>, RStore := RStore D0 @ [SetConnectionlessPacket r1' True]\<rparr>"
  from send_only [of demo_inputs 0 ?A loopback e2] obtain D1 o1 where D1: "RecvCompletionEvent (\<lambda>_. demo_inputs) D0 (?ev e1) (?n e1) = Some (D1, o1)"
      "same_tables ?A D1" "WorkerJobs D1 = WorkerJobs D0" "InboundSimulator D1 = InboundSimulator D0" "ElapsedTimeUsCount D1 = 0"
      "ProcessorContainer (ConnectionlessHandler D1) = [S1]" "\<And>ps. players_after ps o1 = ps"
      "\<forall>e\<in>set o1. \<exists>a d. e = Datagram a d"
    using R1 D0(4) by auto
  have d1: "HashToConnectionMap D1 = []" "CStore D1 = []" "DEnv D1 = demo_env" "length (RStore D1) = 1" "RemoteConnections D1 = []"
    using D1(2) D0 by (simp_all add: same_tables_def same_conns_def)
  have run1: "driver_run demo_env D1 o1"
    using driver_run.received [OF run0 D1(1)] by simp
  obtain e3 where e3: "handshake_event (UCfg S1) e3 Response ?x 1 0 (cookie_of demo_env (UCfg S1) loopback (CookieTime y))"
    using Build_event [OF writes_Cookie [OF demo_ok(3) F regen_cookie_ok(2) [OF demo_ok(1)]], where t = Response and Secret = 1 and c = ?x]
    unfolding s1(6,7) by blast
  have S1: "UMode S1 = ProcServer" "magic_ok (UCfg S1)" "ExpectedSessionId (UCfg S1) = 0"
    using demo_ok s1(7,8) by simp_all
  have T: "valid_lifetime 0 y"
    using demo_lifetime s1(6) by simp
  from admission_way [OF S1(1) s1(3-5) S1(2,3) F demo_ok(1) T e3 x, where ?T1.0 = 0 and ?T2.0 = 0 and NowUs = 0 and junk = "[]"]
  obtain r r' S2 c e4 where s2: "deliver e3 loopback [] = Some r" "Address c = loopback"
    "IncomingConnectionless demo_env S1 r 0 0 0 ?F 0 = Some (S2, r', [AddClient ?k c, SendToRemote loopback e4])"
    by blast
  have r: "RecvPacketReader_ctor (?ev e3) (?n e3) = Some r"
    using s2(1) by (simp add: deliver_def)
  have rk: "RHashKey (SetConnectionlessPacket r' True) = ?k"
    using IncomingConnectionless_reader [OF s2(3)] key [OF s2(1)] by (simp add: SetConnectionlessPacket_def)
  let ?B = "D1\<lparr>StatDatagramsReceived := StatDatagramsReceived D1 + 1, StatBytesReceived := StatBytesReceived D1 + word_of_nat (?n e3),
       ConnectionlessHandler := (ConnectionlessHandler D1)\<lparr>ProcessorContainer := [S2]\<rparr>, RStore := RStore D1 @ [SetConnectionlessPacket r' True]\<rparr>"
  have R2: "RecvCompletionEvent (\<lambda>_. demo_inputs) D1 (?ev e3) (?n e3) = exec_effects demo_inputs 0 ?B [AddClient ?k c, SendToRemote loopback e4]"
    by (rule received_unknown [OF _ _ D1(6) _ r]) (use sv s2(3) D0(3) D1 d1 elapsed_zero [OF D1(5)] inp in simp_all)
  have "driver_inv demo_env D1 o1"
    using driver_run_inv [OF run1] by (simp add: d1 max_clients_def)
  then have "ProcessorContainer (ConnectionlessHandler ?B) \<noteq> []" "freeIDs (PlayerUniqueIdAllocator ?B) = []"
      "IDcounter (PlayerUniqueIdAllocator ?B) = conn_id (length (CStore ?B))" "length (OwnerThreadId ?B) = length (CStore ?B)"
      "2 \<le> unat (MaxChannelsSize (DSetting ?B))" "0 < length (WorkerJobs ?B)" "length (WorkerJobs ?B) < 2 ^ 32"
    using sv(3) D0(7) D1(3) by (simp_all add: d1 driver_inv_def ids_ok_def)
  from AddClient_enters [OF this, of demo_inputs ?k c] obtain D2 where
    D2: "IpNetDriver_AddClient demo_inputs ?B ?k c = Some (D2, [AddPlayerConnection (conn_id 0)])"
      "CStore D2 = [with_channels (fresh_connection demo_inputs (ESetting demo_env) c (conn_id 0))]" "HashToConnectionMap D2 = [(?k, 0)]"
      "RStore D2 = RStore ?B" "RemoteConnections D2 = [0]" "DEnv D2 = demo_env"
    by (auto simp: d1)
  obtain D3 o3 where D3: "exec_effects demo_inputs (Suc 0) D2 [SendToRemote loopback e4] = Some (D3, o3)" "same_tables D2 D3" "\<And>ps. players_after ps o3 = ps"
      "\<forall>e\<in>set o3. \<exists>a d. e = Datagram a d"
    using send_only by blast
  have "RecvCompletionEvent (\<lambda>_. demo_inputs) D1 (?ev e3) (?n e3) = Some (D3, AddPlayerConnection (conn_id 0) # o3)"
    using D2(1) D3(1) unfolding R2 by simp
  then have "driver_run demo_env D3 (o1 @ AddPlayerConnection (conn_id 0) # o3)"
    by (rule driver_run.received [OF run1])
  moreover have "CStore D3 = CStore D2" "RemoteConnections D3 = [0]" "HashToConnectionMap D3 = [(?k, 0)]" "RStore D3 = RStore D1 @ [SetConnectionlessPacket r' True]"
    using D3(2) D2(3-5) by (simp_all add: same_tables_def same_conns_def)
  moreover have "LastReceiveTime (CStore D2 ! 0) = 0" "CState (CStore D2 ! 0) = USOCK_Open"
    by (simp_all add: D2(2) with_channels_def fresh_connection)
      (simp add: fresh_connection_def InitSequence_def InitRemoteConnection_def NetConnection_InitBase_def InitChannelData_def NetConnection_ctor_def Let_def demo_inputs_def)
  moreover have "players_after [] (o1 @ AddPlayerConnection (conn_id 0) # o3) = [1]"
    using D1(7) D3(3) by (simp add: players_after_append conn_id_def)
  moreover have "\<forall>i ms. HandleMessages i ms \<notin> set (o1 @ AddPlayerConnection (conn_id 0) # o3)"
    using D1(8) D3(4) by auto
  moreover have "\<exists>r < length (RStore D1 @ [SetConnectionlessPacket r' True]). RHashKey ((RStore D1 @ [SetConnectionlessPacket r' True]) ! r) = ?k"
    using rk by (intro exI [of _ "length (RStore D1)"]) simp
  ultimately show ?thesis
    by (intro exI [of _ D3] exI [of _ "o1 @ AddPlayerConnection (conn_id 0) # o3"] exI [of _ ?k]) (simp add: D2(2))
qed

theorem driver_tables_consistent_witness:
  "\<exists>D outs. driver_run demo_env D outs \<and> players_after [] outs = [1] \<and> IpNetDriver_FindConnection D 1 = Some 0 \<and> conn_open D 0
    \<and> RemoteConnections D = filter (conn_open D) [0..<length (CStore D)]"
proof -
  obtain D outs where d: "driver_run demo_env D outs" "length (CStore D) = Suc 0" "RemoteConnections D = [0]" "CState (CStore D ! 0) = USOCK_Open"
    "players_after [] outs = [1]"
    using demo_driver by blast
  have "length (CStore D) < max_clients"
    by (simp add: d(2) max_clients_def)
  from driver_tables_consistent [OF d(1) this, of 1 0] d show ?thesis
    by (intro exI [of _ D] exI [of _ outs]) (simp add: conn_open_def)
qed

lemma ninety_seconds: "secs_gt 90000000000 60"
  by (simp add: secs_gt_def f_secs_def round_sig_def nat_len.simps Let_def)

text \<open>A minute and a half of silence closes the client's connection.\<close>

theorem timeouts_close_silent_connections_witness:
  "\<exists>D outs D' out. driver_run demo_env D outs \<and> RemoteConnections D = [0] \<and> CheckConnectionTimeouts 90000000000 D = Some (D', out)
    \<and> length out = 1 \<and> RemoteConnections D' = []"
proof -
  obtain D outs where d: "driver_run demo_env D outs" "length (CStore D) = Suc 0" "RemoteConnections D = [0]" "CState (CStore D ! 0) = USOCK_Open"
    "LastReceiveTime (CStore D ! 0) = 0"
    using demo_driver by blast
  have len: "length (CStore D) < max_clients"
    by (simp add: d(2) max_clients_def)
  note inv = driver_run_inv [OF d(1) len]
  then have E: "DEnv D = demo_env"
    by (simp add: driver_inv_def env_ok_def)
  then have no: "\<not> bNoTimeouts (DSetting D)"
    by (simp add: demo_env_def DriverSetting_init_def)
  have "silent 90000000000 D 0"
    using d(4,5) driver_invD(3) [OF inv, of 0] d(2)
    by (simp add: silent_def timed_out_def GetTimeoutValue_def E demo_env_def DriverSetting_init_def ninety_seconds)
  with timeouts_close_silent_connections [OF d(1) len no, of 90000000000] d(3) obtain D' where
    "CheckConnectionTimeouts 90000000000 D = Some (D', [RemovePlayerConnection (UniqueConnectionId (CStore D ! 0))])" "RemoteConnections D' = []"
    by auto
  with d(1,3) show ?thesis
    by (metis One_nat_def length_Cons list.size(3))
qed

theorem admitted_client_joins_witness:
  "\<exists>D D' k. driver_run demo_env D [] \<and> IpNetDriver_AddClient demo_inputs D k (PendingRemoteConnection_ctor 0 0 0 loopback 0) = Some (D', [AddPlayerConnection 1])
    \<and> map_of (HashToConnectionMap D') k = Some 0"
proof -
  obtain D where D: "InitListen None True 0 (IpNetDriver_ctor demo_env 0) = Some (D, True)" "HashToConnectionMap D = []" "CStore D = []" "length (WorkerJobs D) = 8"
    using demo_listen by blast
  have ch: "IsServer (ESetting demo_env)" "2 \<le> unat (MaxChannelsSize (ESetting demo_env))"
    by (simp_all add: demo_env_def DriverSetting_init_def IsServer_def)
  note run = driver_run.listen [OF ch(1) D(1)]
  let ?p = "PendingRemoteConnection_ctor 0 0 0 loopback 0"
  have "Suc (length (CStore D)) < max_clients" "0 < length (WorkerJobs D)" "length (WorkerJobs D) < 2 ^ 32"
      "map_of (HashToConnectionMap D) (MakeIPv4PortKeyFromStorage loopback) = None" "MakeIPv4PortKeyFromStorage (Address ?p) = MakeIPv4PortKeyFromStorage loopback"
    by (simp_all add: D max_clients_def PendingRemoteConnection_ctor_def)
  from admitted_client_joins [OF run this(1) ch(2) this(2-5), of demo_inputs demo_inputs] run show ?thesis
    by (auto simp: D conn_id_def)
qed

end
