(* ===== verification/RoomM.thy ===== *)
theory RoomM
  imports Pending
begin

text \<open>
  GameServer, \<open>room/Room\<close>, \<open>room/RoomManager\<close> and \<open>actor/Player\<close>: the rooms of the game server and the
  players in them. Players are shared objects in a store and named by their positions. The allocator of
  the game server is the same code as that of the engine (theory \<open>Pending\<close>).
\<close>

section \<open>Players and rooms\<close>

record Player =
  PlayerConnection :: u32
  PlayerId :: int
  PlayerVerified :: bool

definition Player_ctor :: "u32 \<Rightarrow> Player" where
  "Player_ctor ConnectionId = \<lparr>PlayerConnection = ConnectionId, PlayerId = 0, PlayerVerified = False\<rparr>"

definition Player_VerifiedUser :: "Player \<Rightarrow> int \<Rightarrow> Player" where
  "Player_VerifiedUser p InplayerId = p\<lparr>PlayerVerified := True, PlayerId := InplayerId\<rparr>"

record Room =
  maxPlayer :: u32
  roomId :: int
  Players :: "nat list"
  playerMap :: "(u32 \<times> nat) list"

definition Room_ctor :: "int \<Rightarrow> Room" where
  "Room_ctor room_id = \<lparr>maxPlayer = 1024, roomId = room_id, Players = [], playerMap = []\<rparr>"

definition GetPlayerCount :: "Room \<Rightarrow> u32" where
  "GetPlayerCount r = word_of_nat (length (playerMap r))"

definition IsAddPlayer :: "Room \<Rightarrow> bool" where
  "IsAddPlayer r \<longleftrightarrow> word_of_nat (length (playerMap r)) < maxPlayer r"

definition Room_AddPlayer :: "Player list \<Rightarrow> Room \<Rightarrow> nat \<Rightarrow> (Room \<times> bool) option" where
  "Room_AddPlayer S r newPlayer =
     (if maxPlayer r \<le> word_of_nat (length (playerMap r)) then Some (r, False)
      else do {
        P \<leftarrow> rd S newPlayer;
        let ConnectionId = PlayerConnection P;
        if map_of (playerMap r) ConnectionId = None
        then Some (r\<lparr>playerMap := playerMap r @ [(ConnectionId, newPlayer)], Players := Players r @ [newPlayer]\<rparr>, True)
        else Some (r, False) })"

definition Room_RemovePlayer :: "Player list \<Rightarrow> Room \<Rightarrow> u32 \<Rightarrow> Room \<times> bool" where
  "Room_RemovePlayer S r playerId =
     (if map_of (playerMap r) playerId \<noteq> None
      then (r\<lparr>playerMap := filter (\<lambda>Entry. fst Entry \<noteq> playerId) (playerMap r),
             Players := filter (\<lambda>P. map_option PlayerConnection (rd S P) \<noteq> Some playerId) (Players r)\<rparr>, True)
      else (r, False))"

definition GetPlayer :: "Room \<Rightarrow> u32 \<Rightarrow> nat option" where
  "GetPlayer r player_id = map_of (playerMap r) player_id"

text \<open>A broadcast sends one captured message to every player; the sends are listed.\<close>

definition Room_BroadCast :: "Player list \<Rightarrow> Room \<Rightarrow> 'm \<Rightarrow> (u32 \<times> 'm) list option" where
  "Room_BroadCast S r message = those (map (\<lambda>it. map_option (\<lambda>P. (PlayerConnection P, message)) (rd S it)) (Players r))"

section \<open>The manager of the rooms\<close>

record RoomManager =
  Rooms :: "Room list"
  RoomMap :: "(int \<times> nat) list"
  RoomIdAllocator :: IDAllocator
  CredentialStore :: "(string \<times> string) list"
  PlayerIdAllocator :: IDAllocator
  PlayerStore :: "Player list"

definition AddNewRoom :: "RoomManager \<Rightarrow> RoomManager" where
  "AddNewRoom M =
     (let (a, new_id) = Allocate (RoomIdAllocator M);
          room_id = sint new_id
      in M\<lparr>RoomIdAllocator := a, Rooms := Rooms M @ [Room_ctor room_id],
           RoomMap := (if map_of (RoomMap M) room_id = None then RoomMap M @ [(room_id, length (Rooms M))] else RoomMap M)\<rparr>)"

definition RoomManager_ctor :: RoomManager where
  "RoomManager_ctor =
     (AddNewRoom \<lparr>Rooms = [], RoomMap = [], RoomIdAllocator = IDAllocator_ctor 1, CredentialStore = [],
        PlayerIdAllocator = IDAllocator_ctor 1, PlayerStore = []\<rparr>)\<lparr>CredentialStore := [(''test_id_1'', ''test_pw_1'')]\<rparr>"

text \<open>The loop over the rooms: the rooms after it, and whether one took the player.\<close>

fun add_to_rooms :: "Player list \<Rightarrow> Room list \<Rightarrow> nat \<Rightarrow> (Room list \<times> bool) option" where
  "add_to_rooms S [] newPlayer = Some ([], False)"
| "add_to_rooms S (it # rooms) newPlayer = do {
     (it, added) \<leftarrow> (if IsAddPlayer it then Room_AddPlayer S it newPlayer else Some (it, False));
     if added then Some (it # rooms, True)
     else do { (rooms, added) \<leftarrow> add_to_rooms S rooms newPlayer; Some (it # rooms, added) } }"

text \<open>The new player is made by the caller; here it enters the store.\<close>

definition RoomManager_AddPlayer :: "RoomManager \<Rightarrow> Player \<Rightarrow> RoomManager option" where
  "RoomManager_AddPlayer M P = do {
     let newPlayer = length (PlayerStore M);
     let M = M\<lparr>PlayerStore := PlayerStore M @ [P]\<rparr>;
     (rooms, added) \<leftarrow> add_to_rooms (PlayerStore M) (Rooms M) newPlayer;
     let M = M\<lparr>Rooms := rooms\<rparr>;
     if added then Some M
     else do {
       let M = AddNewRoom M;
       (room, _) \<leftarrow> Room_AddPlayer (PlayerStore M) (last (Rooms M)) newPlayer;
       Some (M\<lparr>Rooms := butlast (Rooms M) @ [room]\<rparr>) } }"

fun find_room :: "Room list \<Rightarrow> nat \<Rightarrow> u32 \<Rightarrow> nat option" where
  "find_room [] i ConnectionId = None"
| "find_room (RoomPtr # rooms) i ConnectionId =
     (if GetPlayer RoomPtr ConnectionId \<noteq> None then Some i else find_room rooms (Suc i) ConnectionId)"

definition FindRoomWithConnection :: "RoomManager \<Rightarrow> u32 \<Rightarrow> nat option" where
  "FindRoomWithConnection M ConnectionId = find_room (Rooms M) 0 ConnectionId"

definition RoomManager_RemovePlayer :: "RoomManager \<Rightarrow> u32 \<Rightarrow> RoomManager option" where
  "RoomManager_RemovePlayer M ConnectionId =
     (case FindRoomWithConnection M ConnectionId of
        None \<Rightarrow> Some M
      | Some i \<Rightarrow> do {
          r \<leftarrow> rd (Rooms M) i;
          Some (M\<lparr>Rooms := (Rooms M)[i := fst (Room_RemovePlayer (PlayerStore M) r ConnectionId)]\<rparr>) })"

definition RoomManager_VerifiedUser :: "RoomManager \<Rightarrow> string \<Rightarrow> string \<Rightarrow> u32 \<Rightarrow> (RoomManager \<times> bool) option" where
  "RoomManager_VerifiedUser M UserId Password ConnectionId =
     (if map_of (CredentialStore M) UserId \<noteq> Some Password then Some (M, False)
      else case FindRoomWithConnection M ConnectionId of
        None \<Rightarrow> Some (M, False)
      | Some i \<Rightarrow> do {
          r \<leftarrow> rd (Rooms M) i;
          case GetPlayer r ConnectionId of
            None \<Rightarrow> Some (M, False)
          | Some p \<Rightarrow> do {
              P \<leftarrow> rd (PlayerStore M) p;
              let (a, NewPlayerId) = Allocate (PlayerIdAllocator M);
              Some (M\<lparr>PlayerIdAllocator := a, PlayerStore := (PlayerStore M)[p := Player_VerifiedUser P (sint NewPlayerId)]\<rparr>, True) } })"

definition RoomManager_BroadCast :: "RoomManager \<Rightarrow> int \<Rightarrow> 'm \<Rightarrow> (u32 \<times> 'm) list option" where
  "RoomManager_BroadCast M room_id message =
     (case map_of (RoomMap M) room_id of
        None \<Rightarrow> Some []
      | Some i \<Rightarrow> do { Target \<leftarrow> rd (Rooms M) i; Room_BroadCast (PlayerStore M) Target message })"

definition GetRoomsId :: "RoomManager \<Rightarrow> int list" where
  "GetRoomsId M = map roomId (Rooms M)"

section \<open>Invariant\<close>

text \<open>The connections in a room, in the order in which they joined.\<close>

definition room_conns :: "Room \<Rightarrow> u32 list" where
  "room_conns r = map fst (playerMap r)"

definition room_ok :: "Player list \<Rightarrow> Room \<Rightarrow> bool" where
  "room_ok S r \<longleftrightarrow> maxPlayer r = 1024 \<and> length (playerMap r) \<le> 1024 \<and> distinct (room_conns r) \<and> Players r = map snd (playerMap r)
     \<and> (\<forall>(k, p)\<in>set (playerMap r). p < length S \<and> PlayerConnection (S ! p) = k)"

definition all_conns :: "RoomManager \<Rightarrow> u32 list" where
  "all_conns M = concat (map room_conns (Rooms M))"

definition rooms_ok :: "RoomManager \<Rightarrow> bool" where
  "rooms_ok M \<longleftrightarrow> (\<forall>r\<in>set (Rooms M). room_ok (PlayerStore M) r) \<and> distinct (all_conns M)"

lemma room_ok_new: "room_ok S (Room_ctor i)"
  by (simp add: room_ok_def Room_ctor_def room_conns_def)

lemma AddNewRoom_fields:
  "Rooms (AddNewRoom M) = Rooms M @ [Room_ctor (sint (snd (Allocate (RoomIdAllocator M))))]" "PlayerStore (AddNewRoom M) = PlayerStore M"
  "CredentialStore (AddNewRoom M) = CredentialStore M"
  by (simp_all add: AddNewRoom_def Let_def split: prod.split)

lemma rooms_ok_start: "rooms_ok RoomManager_ctor" "all_conns RoomManager_ctor = []"
  by (simp_all add: rooms_ok_def all_conns_def RoomManager_ctor_def AddNewRoom_fields room_ok_new room_conns_def)
    (simp_all add: Room_ctor_def)

lemma room_ok_append: "room_ok S r \<Longrightarrow> room_ok (S @ T) r"
  by (auto simp: room_ok_def nth_append)

lemma room_ok_update:
  assumes "room_ok S r" "PlayerConnection P = PlayerConnection (S ! p)"
  shows "room_ok (S[p := P]) r"
proof -
  have "PlayerConnection (S[p := P] ! q) = PlayerConnection (S ! q)" for q
    using assms(2) by (cases "p = q"; cases "q < length S") (simp_all add: list_update_beyond)
  then show ?thesis
    using assms(1) by (simp add: room_ok_def)
qed

lemma Room_AddPlayer_new:
  assumes ok: "room_ok S r" and p: "p < length S" and fresh: "PlayerConnection (S ! p) \<notin> set (room_conns r)" and room: "IsAddPlayer r"
  shows "\<exists>r'. Room_AddPlayer S r p = Some (r', True) \<and> room_ok S r' \<and> room_conns r' = room_conns r @ [PlayerConnection (S ! p)]"
proof -
  have "map_of (playerMap r) (PlayerConnection (S ! p)) = None"
    using fresh by (simp add: room_conns_def map_of_eq_None_iff)
  moreover have "length (playerMap r) < 1024"
  proof -
    have "length (playerMap r) \<noteq> 1024"
      using ok room by (auto simp: room_ok_def IsAddPlayer_def)
    then show ?thesis
      using ok by (simp add: room_ok_def)
  qed
  ultimately show ?thesis
    using ok p fresh room by (auto simp: Room_AddPlayer_def IsAddPlayer_def room_ok_def room_conns_def not_le)
qed

lemma add_to_rooms_new:
  assumes "\<forall>r\<in>set rs. room_ok S r" "p < length S" "PlayerConnection (S ! p) \<notin> set (concat (map room_conns rs))"
  shows "\<exists>rs' b. add_to_rooms S rs p = Some (rs', b) \<and> (\<forall>r\<in>set rs'. room_ok S r)
    \<and> mset (concat (map room_conns rs')) = mset (concat (map room_conns rs)) + (if b then {#PlayerConnection (S ! p)#} else {#})"
  using assms
proof (induction rs)
  case (Cons r rs)
  show ?case
  proof (cases "IsAddPlayer r")
    case True
    with Cons.prems obtain r' where "Room_AddPlayer S r p = Some (r', True)" "room_ok S r'" "room_conns r' = room_conns r @ [PlayerConnection (S ! p)]"
      using Room_AddPlayer_new [of S r p] by auto
    with True Cons.prems show ?thesis
      by (intro exI [of _ "r' # rs"] exI [of _ True]) simp
  next
    case False
    from Cons.prems have "\<forall>r\<in>set rs. room_ok S r" "PlayerConnection (S ! p) \<notin> set (concat (map room_conns rs))"
      by simp_all
    from Cons.IH [OF this(1) assms(2) this(2)] obtain rs' b where "add_to_rooms S rs p = Some (rs', b)" "\<forall>r\<in>set rs'. room_ok S r"
      "mset (concat (map room_conns rs')) = mset (concat (map room_conns rs)) + (if b then {#PlayerConnection (S ! p)#} else {#})"
      by blast
    with False Cons.prems(1) show ?thesis
      by (intro exI [of _ "r # rs'"] exI [of _ b]) simp
  qed
qed auto

lemma concat_mset_cong: "mset xs = mset ys \<Longrightarrow> distinct xs \<longleftrightarrow> distinct ys"
  by (metis distinct_count_atmost_1 mset_eq_setD)

lemma AddPlayer_joins:
  assumes ok: "rooms_ok M" and fresh: "PlayerConnection P \<notin> set (all_conns M)"
  shows "\<exists>M'. RoomManager_AddPlayer M P = Some M' \<and> rooms_ok M' \<and> mset (all_conns M') = add_mset (PlayerConnection P) (mset (all_conns M))
    \<and> PlayerStore M' = PlayerStore M @ [P] \<and> CredentialStore M' = CredentialStore M"
proof -
  let ?S = "PlayerStore M @ [P]" and ?p = "length (PlayerStore M)"
  have "\<forall>r\<in>set (Rooms M). room_ok ?S r" "?p < length ?S" "PlayerConnection (?S ! ?p) \<notin> set (concat (map room_conns (Rooms M)))"
    using ok fresh by (auto simp: rooms_ok_def all_conns_def intro: room_ok_append)
  from add_to_rooms_new [OF this] obtain rs b where rs: "add_to_rooms ?S (Rooms M) ?p = Some (rs, b)" "\<forall>r\<in>set rs. room_ok ?S r"
    "mset (concat (map room_conns rs)) = mset (all_conns M) + (if b then {#PlayerConnection P#} else {#})"
    by (auto simp: all_conns_def)
  let ?M = "M\<lparr>PlayerStore := ?S, Rooms := rs\<rparr>"
  obtain M' where M': "RoomManager_AddPlayer M P = Some M'" "PlayerStore M' = ?S" "CredentialStore M' = CredentialStore M"
    "\<forall>r\<in>set (Rooms M'). room_ok ?S r" "mset (all_conns M') = add_mset (PlayerConnection P) (mset (all_conns M))"
  proof (cases b)
    case True
    with rs that show ?thesis by (simp add: RoomManager_AddPlayer_def all_conns_def)
  next
    case False
    let ?r = "Room_ctor (sint (snd (Allocate (RoomIdAllocator ?M))))"
    have "IsAddPlayer ?r" "room_conns ?r = []"
      by (simp_all add: IsAddPlayer_def Room_ctor_def room_conns_def)
    then obtain r' where "Room_AddPlayer ?S ?r ?p = Some (r', True)" "room_ok ?S r'" "room_conns r' = [PlayerConnection P]"
      using Room_AddPlayer_new [OF room_ok_new, of ?p ?S "sint (snd (Allocate (RoomIdAllocator ?M)))"] by auto
    with rs False that show ?thesis by (simp add: RoomManager_AddPlayer_def AddNewRoom_fields all_conns_def)
  qed
  have "distinct (all_conns M') = distinct (PlayerConnection P # all_conns M)"
    using M'(5) by (intro concat_mset_cong) simp
  with M' ok fresh show ?thesis by (simp add: rooms_ok_def)
qed

text \<open>A broadcast goes to the players of the room, in the order in which they joined.\<close>

lemma broadcast_reaches_room: "room_ok S r \<Longrightarrow> Room_BroadCast S r m = Some (map (\<lambda>c. (c, m)) (room_conns r))"
proof -
  assume ok: "room_ok S r"
  have those_Some: "those (map (\<lambda>x. Some (f x)) xs) = Some (map f xs)" for f :: "u32 \<times> nat \<Rightarrow> u32 \<times> 'a" and xs
    by (induction xs) simp_all
  have "map_option (\<lambda>P. (PlayerConnection P, m)) (rd S (snd x)) = Some (fst x, m)" if "x \<in> set (playerMap r)" for x
    using ok that by (auto simp: room_ok_def)
  then have "map (\<lambda>it. map_option (\<lambda>P. (PlayerConnection P, m)) (rd S it)) (Players r) = map (\<lambda>x. Some (fst x, m)) (playerMap r)"
    using ok by (simp add: room_ok_def)
  then show ?thesis
    by (simp add: Room_BroadCast_def those_Some room_conns_def o_def)
qed

text \<open>The room found is the one that holds the connection.\<close>

lemma find_room_Some: "find_room rs j c = Some i \<Longrightarrow> j \<le> i \<and> i - j < length rs \<and> c \<in> set (room_conns (rs ! (i - j)))"
proof (induction rs arbitrary: j)
  case (Cons r rs)
  show ?case
  proof (cases "GetPlayer r c = None")
    case True
    with Cons show ?thesis by (fastforce simp: Suc_diff_le)
  next
    case False
    with Cons.prems show ?thesis
      by (auto simp: GetPlayer_def room_conns_def dest!: map_of_SomeD intro: image_eqI [rotated])
  qed
qed simp

lemma find_room_None: "find_room rs j c = None \<Longrightarrow> c \<notin> set (concat (map room_conns rs))"
  by (induction rs arbitrary: j) (auto simp: GetPlayer_def room_conns_def map_of_eq_None_iff split: if_splits)

lemma FindRoom_cases:
  obtains (found) i where "FindRoomWithConnection M c = Some i" "i < length (Rooms M)" "c \<in> set (room_conns (Rooms M ! i))"
    | (missing) "FindRoomWithConnection M c = None" "c \<notin> set (all_conns M)"
  using find_room_Some [of "Rooms M" 0 c] find_room_None [of "Rooms M" 0 c]
  by (cases "FindRoomWithConnection M c") (auto simp: FindRoomWithConnection_def all_conns_def)

lemma Room_RemovePlayer_ok:
  assumes ok: "room_ok S r" and c: "c \<in> set (room_conns r)"
  shows "room_ok S (fst (Room_RemovePlayer S r c)) \<and> room_conns (fst (Room_RemovePlayer S r c)) = filter (\<lambda>k. k \<noteq> c) (room_conns r)"
proof -
  have "map_of (playerMap r) c \<noteq> None"
    using c by (simp add: room_conns_def map_of_eq_None_iff)
  moreover have "filter (\<lambda>P. map_option PlayerConnection (rd S P) \<noteq> Some c) (map snd (playerMap r)) = map snd (filter (\<lambda>E. fst E \<noteq> c) (playerMap r))"
    using ok by (auto simp: filter_map o_def room_ok_def intro!: filter_cong arg_cong [where f = "map snd"])
  moreover have "length (filter (\<lambda>E. fst E \<noteq> c) (playerMap r)) \<le> 1024"
    using ok by (auto simp: room_ok_def intro: order_trans [OF length_filter_le])
  moreover have "map fst (filter (\<lambda>E. fst E \<noteq> c) (playerMap r)) = filter (\<lambda>k. k \<noteq> c) (map fst (playerMap r))"
    by (simp add: filter_map o_def)
  moreover have "room_conns (r\<lparr>playerMap := m, Players := q\<rparr>) = map fst m" for m q
    by (simp add: room_conns_def)
  ultimately show ?thesis
    using ok by (auto simp: Room_RemovePlayer_def room_ok_def room_conns_def)
qed

lemma RemovePlayer_leaves:
  assumes ok: "rooms_ok M"
  shows "\<exists>M'. RoomManager_RemovePlayer M c = Some M' \<and> rooms_ok M' \<and> set (all_conns M') = set (all_conns M) - {c}
    \<and> PlayerStore M' = PlayerStore M \<and> CredentialStore M' = CredentialStore M"
proof (cases rule: FindRoom_cases [of M c])
  case missing
  with ok show ?thesis by (simp add: RoomManager_RemovePlayer_def)
next
  case (found i)
  let ?r = "Rooms M ! i" and ?S = "PlayerStore M"
  let ?r' = "fst (Room_RemovePlayer ?S ?r c)" and ?rs = "Rooms M"
  have split: "?rs = take i ?rs @ ?r # drop (Suc i) ?rs"
    by (rule id_take_nth_drop [OF found(2)])
  have upd: "?rs[i := ?r'] = take i ?rs @ ?r' # drop (Suc i) ?rs"
    by (rule upd_conv_take_nth_drop [OF found(2)])
  let ?A = "concat (map room_conns (take i ?rs))" and ?B = "concat (map room_conns (drop (Suc i) ?rs))"
  have all: "all_conns M = ?A @ room_conns ?r @ ?B"
    unfolding all_conns_def by (subst split) simp
  have r: "room_ok ?S ?r" "room_ok ?S ?r'" "room_conns ?r' = filter (\<lambda>k. k \<noteq> c) (room_conns ?r)"
    using Room_RemovePlayer_ok [of ?S ?r c] ok found(2,3) by (auto simp: rooms_ok_def)
  have d: "distinct (?A @ room_conns ?r @ ?B)"
    using ok all by (simp add: rooms_ok_def)
  let ?M = "M\<lparr>Rooms := ?rs[i := ?r']\<rparr>"
  have M': "RoomManager_RemovePlayer M c = Some ?M"
    using found by (simp add: RoomManager_RemovePlayer_def)
  have all': "all_conns ?M = ?A @ room_conns ?r' @ ?B"
    unfolding all_conns_def by (simp add: upd)
  have "set (all_conns ?M) = set (all_conns M) - {c}"
    unfolding all all' r(3) using d found(3) by auto
  moreover have "distinct (all_conns ?M)"
    unfolding all' r(3) using d by auto
  moreover have "\<forall>x\<in>set (?rs[i := ?r']). room_ok ?S x"
    using ok r(2) set_update_subset_insert [of ?rs i ?r'] by (auto simp: rooms_ok_def)
  ultimately show ?thesis
    using M' by (simp add: rooms_ok_def)
qed

lemma VerifiedUser_cases:
  assumes ok: "rooms_ok M"
  obtains (refused) "RoomManager_VerifiedUser M UserId Password c = Some (M, False)"
      "map_of (CredentialStore M) UserId \<noteq> Some Password \<or> c \<notin> set (all_conns M)"
    | (verified) p P M' r where "RoomManager_VerifiedUser M UserId Password c = Some (M', True)" "map_of (CredentialStore M) UserId = Some Password"
      "p < length (PlayerStore M)" "PlayerConnection (PlayerStore M ! p) = c" "PlayerConnection P = c"
      "PlayerStore M' = (PlayerStore M)[p := P]" "Rooms M' = Rooms M" "CredentialStore M' = CredentialStore M"
      "r \<in> set (Rooms M)" "GetPlayer r c = Some p" "PlayerVerified P"
proof (cases "map_of (CredentialStore M) UserId = Some Password")
  case False
  then show ?thesis
    by (intro refused) (simp_all add: RoomManager_VerifiedUser_def)
next
  case True
  show ?thesis
  proof (cases rule: FindRoom_cases [of M c])
    case missing
    with True show ?thesis
      by (intro refused) (simp_all add: RoomManager_VerifiedUser_def)
  next
    case (found i)
    then have "map_of (playerMap (Rooms M ! i)) c \<noteq> None"
      by (simp add: room_conns_def map_of_eq_None_iff)
    then obtain p where p: "map_of (playerMap (Rooms M ! i)) c = Some p"
      by blast
    then have "(c, p) \<in> set (playerMap (Rooms M ! i))"
      by (rule map_of_SomeD)
    then have "p < length (PlayerStore M)" "PlayerConnection (PlayerStore M ! p) = c"
      using ok found(2) by (auto simp: rooms_ok_def room_ok_def dest!: nth_mem)
    moreover obtain a i' where "Allocate (PlayerIdAllocator M) = (a, i')"
      by force
    ultimately show ?thesis
      using True found p
      by (intro verified [of "M\<lparr>PlayerIdAllocator := a, PlayerStore := (PlayerStore M)[p := Player_VerifiedUser (PlayerStore M ! p) (sint i')]\<rparr>" p
            "Player_VerifiedUser (PlayerStore M ! p) (sint i')" "Rooms M ! i"])
        (simp_all add: RoomManager_VerifiedUser_def GetPlayer_def Player_VerifiedUser_def)
  qed
qed

end
