(* ===== verification/Listener.thy ===== *)
theory Listener
  imports DriverRun
begin

text \<open>
  The interface through which the driver talks to a program, \<open>Network/include/ControlProtocolHandler.h\<close>
  and \<open>ActorProtocolHandler.h\<close>: players that join and leave, and their messages. What a program may rely
  on and has to keep, and what follows for every run of a server's driver.
\<close>

section \<open>Handling the calls of the driver\<close>

text \<open>The calls one after the other; the answers the program wants to send are collected.\<close>

fun serve_all :: "('g \<Rightarrow> DriverOut \<Rightarrow> ('g \<times> 'o list) option) \<Rightarrow> 'g \<Rightarrow> DriverOut list \<Rightarrow> ('g \<times> 'o list) option" where
  "serve_all react g [] = Some (g, [])"
| "serve_all react g (e # es) = do {
     (g, out) \<leftarrow> react g e;
     (g, outs) \<leftarrow> serve_all react g es;
     Some (g, out @ outs) }"

text \<open>
  The program is told of a player it does not know. It then survives, knows the players it was told about
  and not told to drop, and gives marks, such as that of a logged in player, only where a call grants them.
\<close>

locale player_listener =
  fixes react :: "'g \<Rightarrow> DriverOut \<Rightarrow> ('g \<times> 'o list) option"
    and good :: "'g \<Rightarrow> bool"
    and players :: "'g \<Rightarrow> u32 set"
    and marks :: "'g \<Rightarrow> u32 set"
    and accepts :: "DriverOut \<Rightarrow> bool"
    and grants :: "DriverOut \<Rightarrow> u32 set"
  assumes react_ok: "good g \<Longrightarrow> accepts e \<Longrightarrow> players g = set ps \<Longrightarrow> set (added_ids [e]) \<inter> set ps = {} \<Longrightarrow>
    \<exists>g' out. react g e = Some (g', out) \<and> good g' \<and> players g' = set (players_after ps [e]) \<and> marks g' \<subseteq> marks g \<union> grants e"
begin

lemma serves:
  assumes "good g" "\<forall>e\<in>set es. accepts e" "players g = set ps" "distinct (added_ids es)" "set (added_ids es) \<inter> set ps = {}"
  shows "\<exists>g' out. serve_all react g es = Some (g', out) \<and> good g' \<and> players g' = set (players_after ps es)
    \<and> marks g' \<subseteq> marks g \<union> (\<Union>e\<in>set es. grants e)"
  using assms
proof (induction es arbitrary: g ps)
  case (Cons e es)
  have split: "added_ids (e # es) = added_ids [e] @ added_ids es" "players_after ps (e # es) = players_after (players_after ps [e]) es"
    using added_ids_append [of "[e]" es] players_after_append [of ps "[e]" es] by simp_all
  have "accepts e" "set (added_ids [e]) \<inter> set ps = {}" "\<forall>e\<in>set es. accepts e"
    using Cons.prems by (auto simp: split)
  from react_ok [OF Cons.prems(1) this(1) Cons.prems(3) this(2)] obtain g1 o1 where
    1: "react g e = Some (g1, o1)" "good g1" "players g1 = set (players_after ps [e])" "marks g1 \<subseteq> marks g \<union> grants e"
    by blast
  have "set (players_after ps [e]) \<subseteq> set ps \<union> set (added_ids [e])"
    by (cases e) auto
  then have "set (added_ids es) \<inter> set (players_after ps [e]) = {}" "distinct (added_ids es)"
    using Cons.prems(4,5) by (auto simp: split)
  from Cons.IH [OF 1(2) \<open>\<forall>e\<in>set es. accepts e\<close> 1(3) this(2,1)] obtain g2 o2 where
    2: "serve_all react g1 es = Some (g2, o2)" "good g2" "players g2 = set (players_after ps (e # es))"
      "marks g2 \<subseteq> marks g1 \<union> (\<Union>e\<in>set es. grants e)"
    unfolding split by blast
  with 1 show ?case
    by (auto intro!: exI [of _ g2] exI [of _ "o1 @ o2"])
qed simp

text \<open>A program that starts without players knows the open connections after any run of a server's driver.\<close>

lemma serves_driver:
  assumes "driver_run E D outs" "length (CStore D) < max_clients" "\<forall>e\<in>set outs. accepts e" "good g" "players g = {}"
  shows "\<exists>g' out. serve_all react g outs = Some (g', out) \<and> good g'
    \<and> players g' = {UniqueConnectionId (CStore D ! c) |c. c < length (CStore D) \<and> conn_open D c}"
proof -
  have inv: "driver_inv E D outs"
    by (rule driver_run_inv [OF assms(1,2)])
  have "inj_on conn_id {0..<length (CStore D)}"
    using assms(2) conn_id_inject by (auto simp: inj_on_def)
  then have "distinct (added_ids outs)"
    using inv by (simp add: driver_inv_def distinct_map)
  then obtain g' out where g': "serve_all react g outs = Some (g', out)" "good g'" "players g' = set (players_after [] outs)"
    using serves [OF assms(4,3), of "[]"] assms(5) by auto
  have "set (players_after [] outs) = conn_id ` {c. c < length (CStore D) \<and> conn_open D c}"
    and "\<And>c. c < length (CStore D) \<Longrightarrow> UniqueConnectionId (CStore D ! c) = conn_id c"
    using inv by (auto simp: driver_inv_def tables_ok_def ids_ok_def)
  then have "players g' = {UniqueConnectionId (CStore D ! c) |c. c < length (CStore D) \<and> conn_open D c}"
    unfolding g'(3) by (auto simp: image_def) metis
  with g' show ?thesis by blast
qed

end

end
