(* ===== verification/GameServer.thy ===== *)
theory GameServer
  imports DriverTables RoomM Listener
begin

text \<open>
  GameServer, \<open>service/NetworkService\<close> and \<open>packet_handler\<close>: what the game server does with the calls of
  the engine, which tell it of players that join and leave and of their messages. The protocol buffer
  library is outside: \<open>enc\<close> is the serialisation of a message and \<open>parse\<close> the parser for a message type.
  Calls to the engine to send are listed with the player, the channel and the bytes.
\<close>

section \<open>Messages\<close>

datatype ControlMessage =
    NMT_Hello string int
  | NMT_Challenge string string
  | NMT_Login string string
  | NMT_Welcome string string
  | NMT_Join int
  | NMT_NetSpeed u64
  | NMT_Failure int int

text \<open>The traits of the messages: all go through the control channel.\<close>

definition ProtocolId :: "ControlMessage \<Rightarrow> u16" where
  "ProtocolId Pkt = (case Pkt of NMT_Hello _ _ \<Rightarrow> 1 | NMT_Challenge _ _ \<Rightarrow> 2 | NMT_Login _ _ \<Rightarrow> 3 | NMT_Welcome _ _ \<Rightarrow> 4
     | NMT_Join _ \<Rightarrow> 5 | NMT_NetSpeed _ \<Rightarrow> 6 | NMT_Failure _ _ \<Rightarrow> 7)"

definition ProtocolCategory :: "ControlMessage \<Rightarrow> u8" where
  "ProtocolCategory Pkt = 0"

type_synonym Sent = "u32 \<times> u8 \<times> u8 list"

text \<open>
  The sizes are 16 bits wide. The header and the payload are written into a buffer of \<open>TotalSize\<close> bytes;
  a payload longer than \<open>PayloadSize\<close> is not serialised.
\<close>

definition SendPacket :: "(ControlMessage \<Rightarrow> u8 list) \<Rightarrow> ControlMessage \<Rightarrow> u32 \<Rightarrow> Sent list option" where
  "SendPacket enc Pkt ConnectionId =
     (let payload = enc Pkt;
          PayloadSize = (word_of_nat (length payload) :: u16);
          TotalSize = 4 + PayloadSize
      in if unat TotalSize < 4 then None
         else if unat PayloadSize < length payload then Some []
         else if unat TotalSize < 4 + length payload then None
         else Some [(ConnectionId, ProtocolCategory Pkt, le_bytes 2 TotalSize @ le_bytes 2 (ProtocolId Pkt) @ payload)])"

section \<open>The state of the server\<close>

text \<open>The counters are 32 bit integers; \<open>- 1\<close> stands for no message yet.\<close>

record RUdpStatus =
  expectedReliable :: u32
  totalPacket :: u32
  passCount :: u32
  failCount :: u32

definition RUdpStatus_ctor :: RUdpStatus where
  "RUdpStatus_ctor = \<lparr>expectedReliable = - 1, totalPacket = 0, passCount = 0, failCount = 0\<rparr>"

record GameService =
  roomManager :: RoomManager
  ConnectionReliableMap :: "(u32 \<times> u32) list"
  ConnectionRUDPMap :: "(u32 \<times> RUdpStatus) list"
  LastStatusCheckTime :: int

definition GameService_ctor :: GameService where
  "GameService_ctor = \<lparr>roomManager = RoomManager_ctor, ConnectionReliableMap = [], ConnectionRUDPMap = [], LastStatusCheckTime = 0\<rparr>"

text \<open>\<open>map[key]\<close> makes the entry.\<close>

definition status_of :: "GameService \<Rightarrow> u32 \<Rightarrow> RUdpStatus" where
  "status_of G ConnectionId = (case map_of (ConnectionRUDPMap G) ConnectionId of None \<Rightarrow> RUdpStatus_ctor | Some s \<Rightarrow> s)"

definition NetworkService_AddPlayer :: "GameService \<Rightarrow> u32 \<Rightarrow> GameService option" where
  "NetworkService_AddPlayer G connectionId = do {
     let m = ConnectionReliableMap G;
     let G = G\<lparr>ConnectionReliableMap := (if map_of m connectionId = None then m @ [(connectionId, 0)] else m)\<rparr>;
     R \<leftarrow> RoomManager_AddPlayer (roomManager G) (Player_ctor connectionId);
     Some (G\<lparr>roomManager := R\<rparr>) }"

definition NetworkService_RemovePlayer :: "GameService \<Rightarrow> u32 \<Rightarrow> GameService option" where
  "NetworkService_RemovePlayer G connectionId = do {
     let G = G\<lparr>ConnectionReliableMap := filter (\<lambda>it. fst it \<noteq> connectionId) (ConnectionReliableMap G)\<rparr>;
     R \<leftarrow> RoomManager_RemovePlayer (roomManager G) connectionId;
     Some (G\<lparr>roomManager := R\<rparr>) }"

definition Handler_AddPlayerConnection :: "GameService \<Rightarrow> u32 \<Rightarrow> GameService option" where
  "Handler_AddPlayerConnection G ConnectionId =
     NetworkService_AddPlayer (G\<lparr>ConnectionRUDPMap := omap_put ConnectionId (status_of G ConnectionId) (ConnectionRUDPMap G)\<rparr>) ConnectionId"

definition Handler_RemovePlayerConnection :: "GameService \<Rightarrow> u32 \<Rightarrow> GameService option" where
  "Handler_RemovePlayerConnection G ConnectionId =
     NetworkService_RemovePlayer (G\<lparr>ConnectionRUDPMap := omap_erase ConnectionId (ConnectionRUDPMap G)\<rparr>) ConnectionId"

section \<open>Messages of players\<close>

definition Protocol_NMT_Hello :: "(ControlMessage \<Rightarrow> u8 list) \<Rightarrow> u32 \<Rightarrow> Sent list option" where
  "Protocol_NMT_Hello enc ConnectionId = SendPacket enc (NMT_Challenge ''hello'' ''try it'') ConnectionId"

definition Protocol_NMT_Login :: "(ControlMessage \<Rightarrow> u8 list) \<Rightarrow> GameService \<Rightarrow> u32 \<Rightarrow> string \<Rightarrow> string \<Rightarrow> (GameService \<times> Sent list) option" where
  "Protocol_NMT_Login enc G ConnectionId UserId Password = do {
     (R, bVerified) \<leftarrow> RoomManager_VerifiedUser (roomManager G) UserId Password ConnectionId;
     out \<leftarrow> SendPacket enc (if bVerified then NMT_Welcome ''road runner'' ''L_Default'' else NMT_Failure 0 1) ConnectionId;
     Some (G\<lparr>roomManager := R\<rparr>, out) }"

text \<open>Comparing the 32 bit counter with the 64 bit number of the message extends its sign.\<close>

definition NetSpeed_update :: "RUdpStatus \<Rightarrow> u64 \<Rightarrow> RUdpStatus" where
  "NetSpeed_update Status number =
     (let Status = Status\<lparr>totalPacket := totalPacket Status + 1\<rparr>
      in if expectedReliable Status = - 1
         then Status\<lparr>expectedReliable := ucast number + 1, passCount := passCount Status + 1\<rparr>
         else if (scast (expectedReliable Status) :: u64) = number
         then Status\<lparr>passCount := passCount Status + 1, expectedReliable := expectedReliable Status + 1\<rparr>
         else Status\<lparr>failCount := failCount Status + 1, expectedReliable := ucast number\<rparr>)"

definition Protocol_NMT_NetSpeed :: "GameService \<Rightarrow> u32 \<Rightarrow> u64 \<Rightarrow> GameService" where
  "Protocol_NMT_NetSpeed G ConnectionId number =
     G\<lparr>ConnectionRUDPMap := omap_put ConnectionId (NetSpeed_update (status_of G ConnectionId) number) (ConnectionRUDPMap G)\<rparr>"

text \<open>
  The table of handlers has 65535 entries. An entry with a handler parses the message as one of its type,
  any other entry does nothing; the index 65535 is outside.
\<close>

definition ControlProtocol :: "(u16 \<Rightarrow> u8 list \<Rightarrow> ControlMessage option) \<Rightarrow> (ControlMessage \<Rightarrow> u8 list) \<Rightarrow> GameService \<Rightarrow> u32 \<Rightarrow> u8 list \<Rightarrow> u16
    \<Rightarrow> (GameService \<times> Sent list) option" where
  "ControlProtocol parse enc G ConnectionId Buffer MessageType =
     (if 65535 \<le> unat MessageType then None
      else if MessageType \<notin> {1, 3, 5, 6, 7} then Some (G, [])
      else case parse MessageType Buffer of
        None \<Rightarrow> Some (G, [])
      | Some Message \<Rightarrow>
          if ProtocolId Message \<noteq> MessageType then Some (G, [])
          else case Message of
            NMT_Hello _ _ \<Rightarrow> do { out \<leftarrow> Protocol_NMT_Hello enc ConnectionId; Some (G, out) }
          | NMT_Login UserId Password \<Rightarrow> Protocol_NMT_Login enc G ConnectionId UserId Password
          | NMT_NetSpeed number \<Rightarrow> Some (Protocol_NMT_NetSpeed G ConnectionId number, [])
          | _ \<Rightarrow> Some (G, []))"

text \<open>The handlers the server registers for the actor channel do nothing.\<close>

definition ActorProtocol :: "u16 \<Rightarrow> unit option" where
  "ActorProtocol MessageType = (if 65535 \<le> unat MessageType then None else Some ())"

section \<open>Synthetic traffic\<close>

fun status_check :: "(ControlMessage \<Rightarrow> u8 list) \<Rightarrow> (u32 \<times> u32) list \<Rightarrow> ((u32 \<times> u32) list \<times> Sent list) option" where
  "status_check enc [] = Some ([], [])"
| "status_check enc ((ConnectionId, n) # rest) = do {
     out \<leftarrow> SendPacket enc (NMT_NetSpeed (scast n)) ConnectionId;
     (rest, outs) \<leftarrow> status_check enc rest;
     Some ((ConnectionId, n + 1) # rest, out @ outs) }"

definition NetworkStatusCheck :: "(ControlMessage \<Rightarrow> u8 list) \<Rightarrow> GameService \<Rightarrow> (GameService \<times> Sent list) option" where
  "NetworkStatusCheck enc G = do {
     (m, out) \<leftarrow> status_check enc (ConnectionReliableMap G);
     Some (G\<lparr>ConnectionReliableMap := m\<rparr>, out) }"

text \<open>At most \<open>k\<close> more checks; times are in nanoseconds.\<close>

fun pump_loop :: "(ControlMessage \<Rightarrow> u8 list) \<Rightarrow> nat \<Rightarrow> int \<Rightarrow> int \<Rightarrow> GameService \<Rightarrow> (GameService \<times> Sent list) option" where
  "pump_loop enc 0 Interval Now G = Some (G, [])"
| "pump_loop enc (Suc k) Interval Now G =
     (if Interval \<le> Now - LastStatusCheckTime G then do {
        (G, out) \<leftarrow> NetworkStatusCheck enc G;
        (G, outs) \<leftarrow> pump_loop enc k Interval Now (G\<lparr>LastStatusCheckTime := LastStatusCheckTime G + Interval\<rparr>);
        Some (G, out @ outs) }
      else Some (G, []))"

definition PumpSyntheticTraffic :: "(ControlMessage \<Rightarrow> u8 list) \<Rightarrow> u32 \<Rightarrow> int \<Rightarrow> GameService \<Rightarrow> (GameService \<times> Sent list) option" where
  "PumpSyntheticTraffic enc Hz Now G =
     (let Interval = int (1000000 div (if Hz = 0 then 1 else unat Hz)) * 1000
      in if LastStatusCheckTime G = 0 then Some (G\<lparr>LastStatusCheckTime := Now\<rparr>, [])
         else do {
           (G, out) \<leftarrow> pump_loop enc 64 Interval Now G;
           Some (if Interval \<le> Now - LastStatusCheckTime G then G\<lparr>LastStatusCheckTime := Now\<rparr> else G, out) })"

section \<open>Broadcasts\<close>

text \<open>One buffer is made and sent to every player of a room.\<close>

definition NetworkService_BroadCast :: "(ControlMessage \<Rightarrow> u8 list) \<Rightarrow> GameService \<Rightarrow> ControlMessage \<Rightarrow> u32 \<Rightarrow> Sent list option" where
  "NetworkService_BroadCast enc G Pkt RoomId = do {
     wrapped \<leftarrow> SendPacket enc Pkt 0;
     case wrapped of
       [] \<Rightarrow> Some []
     | (_, message) # _ \<Rightarrow> RoomManager_BroadCast (roomManager G) (sint RoomId) message }"

section \<open>The calls of the engine\<close>

text \<open>\<open>DispatchPendingMessage\<close> of the two channels hands a message to the handler of its channel.\<close>

definition handle_message :: "(u16 \<Rightarrow> u8 list \<Rightarrow> ControlMessage option) \<Rightarrow> (ControlMessage \<Rightarrow> u8 list) \<Rightarrow> GameService \<Rightarrow> u32 \<Rightarrow> string \<times> RecvMessageReader
    \<Rightarrow> (GameService \<times> Sent list) option" where
  "handle_message parse enc G i QMessage =
     (let (channel, m) = QMessage; size = (word_of_nat (length (RView m)) :: u16)
      in if channel = ''Control'' then ControlProtocol parse enc G i (take (unat size) (RView m)) (RMessageId m)
         else do { _ \<leftarrow> ActorProtocol (RMessageId m); Some (G, []) })"

fun handle_messages :: "(u16 \<Rightarrow> u8 list \<Rightarrow> ControlMessage option) \<Rightarrow> (ControlMessage \<Rightarrow> u8 list) \<Rightarrow> GameService \<Rightarrow> u32 \<Rightarrow> (string \<times> RecvMessageReader) list
    \<Rightarrow> (GameService \<times> Sent list) option" where
  "handle_messages parse enc G i [] = Some (G, [])"
| "handle_messages parse enc G i (m # ms) = do {
     (G, out) \<leftarrow> handle_message parse enc G i m;
     (G, outs) \<leftarrow> handle_messages parse enc G i ms;
     Some (G, out @ outs) }"

definition serve_one :: "(u16 \<Rightarrow> u8 list \<Rightarrow> ControlMessage option) \<Rightarrow> (ControlMessage \<Rightarrow> u8 list) \<Rightarrow> GameService \<Rightarrow> DriverOut \<Rightarrow> (GameService \<times> Sent list) option" where
  "serve_one parse enc G e =
     (case e of
        AddPlayerConnection i \<Rightarrow> do { G \<leftarrow> Handler_AddPlayerConnection G i; Some (G, []) }
      | RemovePlayerConnection i \<Rightarrow> do { G \<leftarrow> Handler_RemovePlayerConnection G i; Some (G, []) }
      | HandleMessages i ms \<Rightarrow> handle_messages parse enc G i ms
      | _ \<Rightarrow> Some (G, []))"

definition serve :: "(u16 \<Rightarrow> u8 list \<Rightarrow> ControlMessage option) \<Rightarrow> (ControlMessage \<Rightarrow> u8 list) \<Rightarrow> GameService \<Rightarrow> DriverOut list \<Rightarrow> (GameService \<times> Sent list) option" where
  "serve parse enc = serve_all (serve_one parse enc)"

section \<open>Rooms and connections\<close>

text \<open>The messages the server sends fit in a packet, and the types of received messages are in the tables.\<close>

definition packets_fit :: "(ControlMessage \<Rightarrow> u8 list) \<Rightarrow> bool" where
  "packets_fit enc \<longleftrightarrow> length (enc (NMT_Challenge ''hello'' ''try it'')) < 65532 \<and> length (enc (NMT_Welcome ''road runner'' ''L_Default'')) < 65532
     \<and> length (enc (NMT_Failure 0 1)) < 65532 \<and> (\<forall>n. length (enc (NMT_NetSpeed n)) < 65532)"

fun in_range :: "DriverOut \<Rightarrow> bool" where
  "in_range (HandleMessages i ms) \<longleftrightarrow> (\<forall>(ch, m)\<in>set ms. unat (RMessageId m) < 65535)"
| "in_range _ \<longleftrightarrow> True"

lemma SendPacket_fits:
  assumes "length (enc m) < 65532"
  shows "SendPacket enc m i = Some [(i, 0, le_bytes 2 (4 + word_of_nat (length (enc m)) :: u16) @ le_bytes 2 (ProtocolId m) @ enc m)]"
proof -
  have "unat (4 + word_of_nat (length (enc m)) :: u16) = 4 + length (enc m)" "unat (word_of_nat (length (enc m)) :: u16) = length (enc m)"
    using assms by (simp_all add: unat_word_ariths unat_of_nat)
  then show ?thesis
    by (simp add: SendPacket_def ProtocolCategory_def Let_def)
qed

text \<open>The connections of players that are verified, and of those that logged in with right credentials.\<close>

definition verified_conns :: "RoomManager \<Rightarrow> u32 set" where
  "verified_conns M = PlayerConnection ` {P \<in> set (PlayerStore M). PlayerVerified P}"

definition is_login :: "(u16 \<Rightarrow> u8 list \<Rightarrow> ControlMessage option) \<Rightarrow> string \<times> RecvMessageReader \<Rightarrow> bool" where
  "is_login parse QMessage \<longleftrightarrow> fst QMessage = ''Control'' \<and> RMessageId (snd QMessage) = 3
     \<and> parse 3 (take (unat (word_of_nat (length (RView (snd QMessage))) :: u16)) (RView (snd QMessage))) = Some (NMT_Login ''test_id_1'' ''test_pw_1'')"

definition logged_in :: "(u16 \<Rightarrow> u8 list \<Rightarrow> ControlMessage option) \<Rightarrow> DriverOut list \<Rightarrow> u32 set" where
  "logged_in parse outs = {i. \<exists>ms. HandleMessages i ms \<in> set outs \<and> (\<exists>m\<in>set ms. is_login parse m)}"

text \<open>A step of the server that leaves the rooms as they are and may verify the connections \<open>V\<close>.\<close>

definition rooms_kept :: "u32 set \<Rightarrow> GameService \<Rightarrow> (GameService \<times> Sent list) option \<Rightarrow> bool" where
  "rooms_kept V G res \<longleftrightarrow> (\<exists>G' out. res = Some (G', out) \<and> rooms_ok (roomManager G') \<and> all_conns (roomManager G') = all_conns (roomManager G)
     \<and> CredentialStore (roomManager G') = CredentialStore (roomManager G) \<and> verified_conns (roomManager G') \<subseteq> verified_conns (roomManager G) \<union> V)"

lemma rooms_ok_players:
  assumes "rooms_ok M" "Rooms M' = Rooms M" "PlayerStore M' = (PlayerStore M)[p := P]" "PlayerConnection P = PlayerConnection (PlayerStore M ! p)"
  shows "rooms_ok M' \<and> all_conns M' = all_conns M \<and> verified_conns M' \<subseteq> insert (PlayerConnection P) (verified_conns M)"
  using assms room_ok_update set_update_subset_insert [of "PlayerStore M" p P]
  by (auto simp: rooms_ok_def all_conns_def verified_conns_def)

lemma rooms_kept_same: "rooms_ok (roomManager G) \<Longrightarrow> roomManager G' = roomManager G \<Longrightarrow> rooms_kept V G (Some (G', out))"
  by (simp add: rooms_kept_def)

lemma login_kept:
  assumes ok: "rooms_ok (roomManager G)" and fit: "packets_fit enc"
    and V: "map_of (CredentialStore (roomManager G)) u = Some pw \<Longrightarrow> i \<in> V"
  shows "rooms_kept V G (Protocol_NMT_Login enc G i u pw)"
proof -
  obtain o1 o2 where send: "SendPacket enc (NMT_Welcome ''road runner'' ''L_Default'') i = Some o1" "SendPacket enc (NMT_Failure 0 1) i = Some o2"
    using SendPacket_fits fit by (auto simp: packets_fit_def)
  from ok show ?thesis
  proof (cases rule: VerifiedUser_cases [of "roomManager G" u pw i])
    case refused
    then show ?thesis
      using send ok by (auto simp: Protocol_NMT_Login_def rooms_kept_def)
  next
    case (verified p P M')
    then have "rooms_ok M' \<and> all_conns M' = all_conns (roomManager G) \<and> verified_conns M' \<subseteq> insert i (verified_conns (roomManager G))"
      using rooms_ok_players [OF ok, of M' p P] by simp
    with verified V show ?thesis
      using send by (auto simp: Protocol_NMT_Login_def rooms_kept_def)
  qed
qed

lemma message_kept:
  assumes ok: "rooms_ok (roomManager G)" and fit: "packets_fit enc" and ty: "unat (RMessageId (snd m)) < 65535"
    and cred: "CredentialStore (roomManager G) = [(''test_id_1'', ''test_pw_1'')]"
  shows "rooms_kept (if is_login parse m then {i} else {}) G (handle_message parse enc G i m)"
proof -
  obtain channel r where m: "m = (channel, r)"
    by force
  let ?buf = "take (unat (word_of_nat (length (RView r)) :: u16)) (RView r)" and ?t = "RMessageId r"
  obtain out where hello: "Protocol_NMT_Hello enc i = Some out"
    using SendPacket_fits fit by (auto simp: packets_fit_def Protocol_NMT_Hello_def)
  consider (actor) "channel \<noteq> ''Control''" | (other) "channel = ''Control''" "\<forall>u pw. parse ?t ?buf = Some (NMT_Login u pw) \<longrightarrow> ?t \<noteq> 3"
    | (login) u pw where "channel = ''Control''" "?t = 3" "parse ?t ?buf = Some (NMT_Login u pw)"
    by blast
  then show ?thesis
  proof cases
    case actor
    with ok ty m show ?thesis by (simp add: handle_message_def ActorProtocol_def rooms_kept_same)
  next
    case login
    have "rooms_kept (if is_login parse m then {i} else {}) G (Protocol_NMT_Login enc G i u pw)"
      using login m by (intro login_kept [OF ok fit]) (auto simp: cred is_login_def split: if_splits)
    with login m show ?thesis by (simp add: handle_message_def ControlProtocol_def ProtocolId_def Let_def)
  next
    case other
    show ?thesis
    proof (cases "parse ?t ?buf")
      case None
      with other ok ty m show ?thesis by (simp add: handle_message_def ControlProtocol_def rooms_kept_same Let_def)
    next
      case (Some x)
      with other ok ty m hello show ?thesis
        by (cases x) (auto simp: handle_message_def ControlProtocol_def ProtocolId_def Protocol_NMT_NetSpeed_def rooms_kept_same Let_def)
    qed
  qed
qed

lemma messages_kept:
  assumes "rooms_ok (roomManager G)" "packets_fit enc" "\<forall>m\<in>set ms. unat (RMessageId (snd m)) < 65535"
    and "CredentialStore (roomManager G) = [(''test_id_1'', ''test_pw_1'')]"
  shows "rooms_kept (if \<exists>m\<in>set ms. is_login parse m then {i} else {}) G (handle_messages parse enc G i ms)"
  using assms
proof (induction ms arbitrary: G)
  case (Cons m ms)
  have "unat (RMessageId (snd m)) < 65535" "\<forall>m\<in>set ms. unat (RMessageId (snd m)) < 65535"
    using Cons.prems(3) by simp_all
  from message_kept [OF Cons.prems(1,2) this(1) Cons.prems(4), of parse i] obtain G1 o1 where
    1: "handle_message parse enc G i m = Some (G1, o1)" "rooms_ok (roomManager G1)" "all_conns (roomManager G1) = all_conns (roomManager G)"
      "CredentialStore (roomManager G1) = CredentialStore (roomManager G)"
      "verified_conns (roomManager G1) \<subseteq> verified_conns (roomManager G) \<union> (if is_login parse m then {i} else {})"
    unfolding rooms_kept_def by blast
  with Cons.IH [OF 1(2) Cons.prems(2) \<open>\<forall>m\<in>set ms. _\<close>] Cons.prems(4) obtain G2 o2 where
    2: "handle_messages parse enc G1 i ms = Some (G2, o2)" "rooms_ok (roomManager G2)" "all_conns (roomManager G2) = all_conns (roomManager G1)"
      "CredentialStore (roomManager G2) = CredentialStore (roomManager G1)"
      "verified_conns (roomManager G2) \<subseteq> verified_conns (roomManager G1) \<union> (if \<exists>m\<in>set ms. is_login parse m then {i} else {})"
    unfolding rooms_kept_def by auto
  have "verified_conns (roomManager G2) \<subseteq> verified_conns (roomManager G) \<union> (if \<exists>m\<in>set (m # ms). is_login parse m then {i} else {})"
    using 1(5) 2(5) by (auto split: if_splits)
  with 1 2 show ?case
    by (simp add: rooms_kept_def)
qed (simp add: rooms_kept_def)

text \<open>After an event the rooms hold the players \<open>C\<close>, and only connections of \<open>V\<close> became verified.\<close>

definition served :: "u32 set \<Rightarrow> u32 set \<Rightarrow> GameService \<Rightarrow> (GameService \<times> Sent list) option \<Rightarrow> bool" where
  "served C V G res \<longleftrightarrow> (\<exists>G' out. res = Some (G', out) \<and> rooms_ok (roomManager G') \<and> set (all_conns (roomManager G')) = C
     \<and> CredentialStore (roomManager G') = CredentialStore (roomManager G) \<and> verified_conns (roomManager G') \<subseteq> verified_conns (roomManager G) \<union> V)"

lemma kept_served: "rooms_kept V G res \<Longrightarrow> V \<subseteq> V' \<Longrightarrow> served (set (all_conns (roomManager G))) V' G res"
  by (fastforce simp: rooms_kept_def served_def)

lemma join_served:
  assumes "rooms_ok (roomManager G)" "i \<notin> set (all_conns (roomManager G))"
  shows "served (insert i (set (all_conns (roomManager G)))) V G (serve_one parse enc G (AddPlayerConnection i))"
proof -
  obtain M' where M': "RoomManager_AddPlayer (roomManager G) (Player_ctor i) = Some M'" "rooms_ok M'"
      "mset (all_conns M') = add_mset i (mset (all_conns (roomManager G)))" "PlayerStore M' = PlayerStore (roomManager G) @ [Player_ctor i]"
      "CredentialStore M' = CredentialStore (roomManager G)"
    using AddPlayer_joins [of "roomManager G" "Player_ctor i"] assms by (auto simp: Player_ctor_def)
  then have "set (all_conns M') = insert i (set (all_conns (roomManager G)))"
    by (metis set_mset_mset set_mset_add_mset_insert)
  moreover have "verified_conns M' = verified_conns (roomManager G)"
    by (auto simp: verified_conns_def M'(4) Player_ctor_def)
  ultimately show ?thesis
    using M' by (simp add: served_def serve_one_def Handler_AddPlayerConnection_def NetworkService_AddPlayer_def Let_def)
qed

lemma leave_served:
  assumes "rooms_ok (roomManager G)"
  shows "served (set (all_conns (roomManager G)) - {i}) V G (serve_one parse enc G (RemovePlayerConnection i))"
  using RemovePlayer_leaves [OF assms, of i]
  by (auto simp: served_def serve_one_def Handler_RemovePlayerConnection_def NetworkService_RemovePlayer_def verified_conns_def)

lemma serve_one_ok:
  assumes ok: "rooms_ok (roomManager G)" and fit: "packets_fit enc" and e: "in_range e"
    and cred: "CredentialStore (roomManager G) = [(''test_id_1'', ''test_pw_1'')]"
    and ps: "set (all_conns (roomManager G)) = set ps" and fresh: "set (added_ids [e]) \<inter> set ps = {}"
  shows "served (set (players_after ps [e])) (logged_in parse [e]) G (serve_one parse enc G e)"
proof (cases e)
  case (AddPlayerConnection i)
  with join_served [OF ok, of i] ps fresh show ?thesis by simp
next
  case (RemovePlayerConnection i)
  with leave_served [OF ok, of i] ps show ?thesis by (simp add: set_diff_eq Collect_conj_eq [symmetric] conj_commute)
next
  case (HandleMessages i ms)
  have "\<forall>m\<in>set ms. unat (RMessageId (snd m)) < 65535"
    using e HandleMessages by auto
  from kept_served [OF messages_kept [OF ok fit this cred, of parse i], of "logged_in parse [e]"] HandleMessages ps show ?thesis
    by (simp add: serve_one_def logged_in_def)
qed (use ok ps in \<open>simp_all add: serve_one_def served_def\<close>)

section \<open>The server on top of the engine\<close>

definition server_good :: "GameService \<Rightarrow> bool" where
  "server_good G \<longleftrightarrow> rooms_ok (roomManager G) \<and> CredentialStore (roomManager G) = [(''test_id_1'', ''test_pw_1'')]"

definition server_accepts :: "(ControlMessage \<Rightarrow> u8 list) \<Rightarrow> DriverOut \<Rightarrow> bool" where
  "server_accepts enc e \<longleftrightarrow> packets_fit enc \<and> in_range e"

interpretation server: player_listener "serve_one parse enc" server_good "\<lambda>G. set (all_conns (roomManager G))"
    "\<lambda>G. verified_conns (roomManager G)" "server_accepts enc" "\<lambda>e. logged_in parse [e]" for parse enc
proof
  fix G e ps
  assume g: "server_good G" "server_accepts enc e" "set (all_conns (roomManager G)) = set ps" "set (added_ids [e]) \<inter> set ps = {}"
  then have "served (set (players_after ps [e])) (logged_in parse [e]) G (serve_one parse enc G e)"
    by (intro serve_one_ok) (simp_all add: server_good_def server_accepts_def)
  with g(1) show "\<exists>G' out. serve_one parse enc G e = Some (G', out) \<and> server_good G' \<and> set (all_conns (roomManager G')) = set (players_after ps [e])
      \<and> verified_conns (roomManager G') \<subseteq> verified_conns (roomManager G) \<union> logged_in parse [e]"
    by (auto simp: served_def server_good_def)
qed

lemma server_start: "server_good GameService_ctor" "set (all_conns (roomManager GameService_ctor)) = {}" "verified_conns (roomManager GameService_ctor) = {}"
  by (simp_all add: server_good_def GameService_ctor_def rooms_ok_start verified_conns_def)
    (simp_all add: RoomManager_ctor_def AddNewRoom_fields)

lemma logged_in_each: "(\<Union>e\<in>set outs. logged_in parse [e]) = logged_in parse outs"
  by (auto simp: logged_in_def)

fun_cases in_range_cases: "\<not> in_range e"

text \<open>
  C9. Take any run of a server's driver in which fewer than \<open>2 ^ 32 - 1\<close> clients have joined and no client
  has sent a message of the type 65535 (which is past the end of the table of handlers, so that the server
  does not survive it), and let what the server sends fit in a packet. Then the server survives all calls of
  the driver, every open connection is in exactly one room and nothing else is, no room holds more than
  1024 players, and the two tables of each room hold the same players.
\<close>

theorem rooms_hold_open_connections:
  assumes "driver_run E D outs" and "length (CStore D) < max_clients" and "packets_fit enc" and "\<forall>e\<in>set outs. in_range e"
  shows "\<exists>G sent. serve parse enc GameService_ctor outs = Some (G, sent)
    \<and> distinct (all_conns (roomManager G))
    \<and> set (all_conns (roomManager G)) = {UniqueConnectionId (CStore D ! c) |c. c < length (CStore D) \<and> conn_open D c}
    \<and> (\<forall>r\<in>set (Rooms (roomManager G)). length (playerMap r) \<le> 1024 \<and> Players r = map snd (playerMap r))"
proof -
  have "\<forall>e\<in>set outs. server_accepts enc e"
    using assms(3,4) by (simp add: server_accepts_def)
  from server.serves_driver [OF assms(1,2) this server_start(1,2), of parse] show ?thesis
    by (auto simp: serve_def server_good_def rooms_ok_def room_ok_def)
qed

text \<open>One client of the loopback address has joined.\<close>

theorem rooms_hold_open_connections_witness:
  "\<exists>D outs G sent. driver_run demo_env D outs \<and> serve (\<lambda>_ _. None) (\<lambda>_. []) GameService_ctor outs = Some (G, sent)
    \<and> all_conns (roomManager G) = [1]"
proof -
  obtain D outs where d: "driver_run demo_env D outs" "length (CStore D) = Suc 0" "CState (CStore D ! 0) = USOCK_Open" "\<forall>i ms. HandleMessages i ms \<notin> set outs"
    using demo_driver by blast
  have len: "length (CStore D) < max_clients"
    by (simp add: d(2) max_clients_def)
  have "packets_fit (\<lambda>_. [])"
    by (simp add: packets_fit_def)
  moreover have "\<forall>e\<in>set outs. in_range e"
  proof (intro ballI, rule ccontr)
    fix e assume "e \<in> set outs" "\<not> in_range e"
    with d(4) show False by (auto elim!: in_range_cases)
  qed
  ultimately obtain G sent where G: "serve (\<lambda>_ _. None) (\<lambda>_. []) GameService_ctor outs = Some (G, sent)" "distinct (all_conns (roomManager G))"
      "set (all_conns (roomManager G)) = {UniqueConnectionId (CStore D ! c) |c. c < length (CStore D) \<and> conn_open D c}"
    using rooms_hold_open_connections [OF d(1) len, of "\<lambda>_. []" "\<lambda>_ _. None"] by blast
  have "UniqueConnectionId (CStore D ! 0) = 1"
    using driver_run_inv [OF d(1) len] d(2) by (simp add: driver_inv_def ids_ok_def conn_id_def)
  then have "set (all_conns (roomManager G)) = {1}"
    using G(3) d(2,3) by (auto simp: conn_open_def)
  with G(2) have "length (all_conns (roomManager G)) = 1"
    using distinct_card by fastforce
  with \<open>set (all_conns (roomManager G)) = {1}\<close> have "all_conns (roomManager G) = [1]"
    by (auto simp: length_Suc_conv)
  with d(1) G(1) show ?thesis
    by blast
qed

text \<open>
  C28. When no identifier is given to two players, no message has the type 65535 and what the server
  sends fits in a packet, a player in a room counts as verified only if a control message that parses
  as a login with a known user and its password came from its connection.
\<close>

theorem verified_players_logged_in:
  assumes "distinct (added_ids outs)" and "packets_fit enc" and "\<forall>e\<in>set outs. in_range e"
    and "serve parse enc GameService_ctor outs = Some (G, sent)" and "r \<in> set (Rooms (roomManager G))" and "p \<in> set (Players r)"
    and "PlayerVerified (PlayerStore (roomManager G) ! p)"
  shows "\<exists>ms m. HandleMessages (PlayerConnection (PlayerStore (roomManager G) ! p)) ms \<in> set outs \<and> m \<in> set ms \<and> is_login parse m"
proof -
  have "\<forall>e\<in>set outs. server_accepts enc e"
    using assms(2,3) by (simp add: server_accepts_def)
  from server.serves [OF server_start(1) this _ assms(1), of "[]" parse]
  have G: "rooms_ok (roomManager G)" "verified_conns (roomManager G) \<subseteq> logged_in parse outs"
    using assms(4) server_start by (simp_all add: serve_def server_good_def logged_in_each)
  have "room_ok (PlayerStore (roomManager G)) r"
    using G(1) assms(5) by (simp add: rooms_ok_def)
  then have "p < length (PlayerStore (roomManager G))"
    using assms(6) by (auto simp: room_ok_def)
  then have "PlayerConnection (PlayerStore (roomManager G) ! p) \<in> verified_conns (roomManager G)"
    using assms(7) by (auto simp: verified_conns_def)
  with G(2) show ?thesis
    unfolding logged_in_def by blast
qed

definition demo_parse :: "u16 \<Rightarrow> u8 list \<Rightarrow> ControlMessage option" where
  "demo_parse t b = (if t = 3 then Some (NMT_Login ''test_id_1'' (if b = [1] then ''test_pw_1'' else ''1234'')) else None)"

definition demo_logins :: "DriverOut list" where
  "demo_logins = [AddPlayerConnection 1, AddPlayerConnection 2, HandleMessages 1 [(''Control'', \<lparr>RView = [7], RMessageId = 3\<rparr>)],
     HandleMessages 2 [(''Actor'', \<lparr>RView = [1], RMessageId = 1\<rparr>), (''Control'', \<lparr>RView = [1], RMessageId = 3\<rparr>)]]"

lemmas demo_defs = Handler_AddPlayerConnection_def NetworkService_AddPlayer_def RoomManager_AddPlayer_def Room_AddPlayer_def IsAddPlayer_def
  Player_ctor_def handle_message_def ActorProtocol_def ControlProtocol_def ProtocolId_def demo_parse_def Protocol_NMT_Login_def
  RoomManager_VerifiedUser_def FindRoomWithConnection_def GetPlayer_def Player_VerifiedUser_def SendPacket_def ProtocolCategory_def serve_one_def

lemma demo_rooms:
  "roomManager GameService_ctor = \<lparr>Rooms = [\<lparr>maxPlayer = 1024, roomId = 1, Players = [], playerMap = []\<rparr>], RoomMap = [(1, 0)],
     RoomIdAllocator = fst (Allocate (IDAllocator_ctor 1)), CredentialStore = [(''test_id_1'', ''test_pw_1'')],
     PlayerIdAllocator = IDAllocator_ctor 1, PlayerStore = []\<rparr>"
  "ConnectionReliableMap GameService_ctor = []" "ConnectionRUDPMap GameService_ctor = []"
  by (simp_all add: GameService_ctor_def RoomManager_ctor_def AddNewRoom_def Room_ctor_def Allocate_def IDAllocator_ctor_def)

lemma room_size: "\<not> (1024 :: u32) \<le> 1"
  by (simp add: word_le_nat_alt)

lemma demo_served:
  "\<exists>G sent. serve demo_parse (\<lambda>_. []) GameService_ctor demo_logins = Some (G, sent) \<and> Rooms (roomManager G) =
     [\<lparr>maxPlayer = 1024, roomId = 1, Players = [0, 1], playerMap = [(1, 0), (2, 1)]\<rparr>]
     \<and> map PlayerConnection (PlayerStore (roomManager G)) = [1, 2] \<and> map PlayerVerified (PlayerStore (roomManager G)) = [False, True]"
  by (simp add: serve_def demo_logins_def demo_rooms demo_defs Let_def Allocate_def IDAllocator_ctor_def room_size)

text \<open>Two players join and log in, the first with a wrong password.\<close>

theorem verified_players_logged_in_witness:
  "\<exists>G sent. serve demo_parse (\<lambda>_. []) GameService_ctor demo_logins = Some (G, sent)
    \<and> map PlayerVerified (PlayerStore (roomManager G)) = [False, True]
    \<and> (\<exists>ms m. HandleMessages 2 ms \<in> set demo_logins \<and> m \<in> set ms \<and> is_login demo_parse m)"
proof -
  obtain G sent where G: "serve demo_parse (\<lambda>_. []) GameService_ctor demo_logins = Some (G, sent)"
      "Rooms (roomManager G) = [\<lparr>maxPlayer = 1024, roomId = 1, Players = [0, 1], playerMap = [(1, 0), (2, 1)]\<rparr>]"
      "map PlayerConnection (PlayerStore (roomManager G)) = [1, 2]" "map PlayerVerified (PlayerStore (roomManager G)) = [False, True]"
    using demo_served by (elim exE conjE) (rule that)
  have "PlayerVerified (PlayerStore (roomManager G) ! 1)" "PlayerConnection (PlayerStore (roomManager G) ! 1) = 2"
    using G(3,4) by (auto simp: map_eq_Cons_conv)
  moreover have "distinct (added_ids demo_logins)" "\<forall>e\<in>set demo_logins. in_range e" "packets_fit (\<lambda>_. [])"
    by (simp_all add: demo_logins_def packets_fit_def)
  ultimately show ?thesis
    using verified_players_logged_in [OF _ _ _ G(1), of "Rooms (roomManager G) ! 0" 1] G by simp
qed

section \<open>The rate of the synthetic traffic\<close>

text \<open>The packets of one check and of \<open>k\<close> checks in a row, when the counters start at \<open>m\<close>.\<close>

definition check_packets :: "(ControlMessage \<Rightarrow> u8 list) \<Rightarrow> (u32 \<times> u32) list \<Rightarrow> Sent list" where
  "check_packets enc m = concat (map (\<lambda>(i, n). the (SendPacket enc (NMT_NetSpeed (scast n)) i)) m)"

definition bump :: "nat \<Rightarrow> (u32 \<times> u32) list \<Rightarrow> (u32 \<times> u32) list" where
  "bump k m = map (\<lambda>(i, n). (i, n + word_of_nat k)) m"

lemma bump_bump: "bump k (bump j m) = bump (j + k) m"
  by (auto simp: bump_def)

lemma bump_0 [simp]: "bump 0 m = m"
  by (simp add: bump_def case_prod_eta)

lemma status_check_ok: "packets_fit enc \<Longrightarrow> status_check enc m = Some (bump 1 m, check_packets enc m)"
  by (induction enc m rule: status_check.induct) (auto simp: bump_def check_packets_def packets_fit_def SendPacket_fits)

lemma pump_loop_ok:
  assumes "packets_fit enc" "0 < I" "LastStatusCheckTime G \<le> Now" "n = nat ((Now - LastStatusCheckTime G) div I)"
  shows "pump_loop enc fuel I Now G = Some
    (G\<lparr>ConnectionReliableMap := bump (min fuel n) (ConnectionReliableMap G), LastStatusCheckTime := LastStatusCheckTime G + int (min fuel n) * I\<rparr>,
     concat (map (\<lambda>j. check_packets enc (bump j (ConnectionReliableMap G))) [0..<min fuel n]))"
  using assms(3,4)
proof (induction fuel arbitrary: G n)
  case (Suc k)
  let ?L = "LastStatusCheckTime G" and ?m = "ConnectionReliableMap G"
  show ?case
  proof (cases "I \<le> Now - ?L")
    case False
    with Suc.prems have "n = 0" by (simp add: div_pos_pos_trivial)
    with False show ?thesis by simp
  next
    case True
    have "(Now - (?L + I)) div I = (Now - ?L) div I - 1"
      using assms(2) div_add_self2 [of I "Now - (?L + I)"] by (simp add: algebra_simps)
    moreover have "1 \<le> (Now - ?L) div I"
      using True assms(2) by (simp add: pos_imp_zdiv_pos_iff int_one_le_iff_zero_less)
    ultimately obtain j where j: "n = Suc j" "j = nat ((Now - (?L + I)) div I)"
      using Suc.prems(2) by (cases n) auto
    let ?G = "G\<lparr>ConnectionReliableMap := bump 1 ?m, LastStatusCheckTime := ?L + I\<rparr>"
    have "pump_loop enc k I Now ?G = Some (?G\<lparr>ConnectionReliableMap := bump (min k j) (bump 1 ?m), LastStatusCheckTime := ?L + I + int (min k j) * I\<rparr>,
        concat (map (\<lambda>i. check_packets enc (bump i (bump 1 ?m))) [0..<min k j]))"
      using Suc.IH [of ?G j] True j by simp
    moreover have "[0..<Suc (min k j)] = 0 # map Suc [0..<min k j]"
      by (simp add: upt_conv_Cons map_Suc_upt del: upt_Suc)
    ultimately show ?thesis
      using True j by (simp add: NetworkStatusCheck_def status_check_ok [OF assms(1)] bump_bump o_def algebra_simps del: upt_Suc)
  qed
qed simp

text \<open>
  A sweep sends every player as many numbered messages as whole intervals have passed since the last
  one, but no more than 64 each; time it cannot make up is dropped.
\<close>

lemma traffic_keeps_the_rate:
  assumes "packets_fit enc" "0 < unat Hz" "unat Hz \<le> 1000000" "LastStatusCheckTime G \<noteq> 0" "LastStatusCheckTime G \<le> Now"
    and "Interval = int (1000000 div unat Hz) * 1000" "n = nat ((Now - LastStatusCheckTime G) div Interval)"
  shows "PumpSyntheticTraffic enc Hz Now G = Some
    (G\<lparr>ConnectionReliableMap := bump (min 64 n) (ConnectionReliableMap G),
       LastStatusCheckTime := (if n \<le> 64 then LastStatusCheckTime G + int n * Interval else Now)\<rparr>,
     concat (map (\<lambda>j. check_packets enc (bump j (ConnectionReliableMap G))) [0..<min 64 n]))"
proof -
  have I: "0 < Interval"
    using assms(2,3,6) by (simp add: div_greater_zero_iff)
  let ?d = "Now - LastStatusCheckTime G"
  have n: "int n = ?d div Interval"
    using assms(5,7) I by (simp add: pos_imp_zdiv_nonneg_iff)
  have d: "?d = int n * Interval + ?d mod Interval" "?d mod Interval < Interval" "0 \<le> ?d mod Interval"
    using I by (simp_all add: n)
  have "(Interval \<le> Now - (LastStatusCheckTime G + int (min 64 n) * Interval)) = (\<not> n \<le> 64)"
  proof (cases "n \<le> 64")
    case True
    then have m: "min 64 n = n" by simp
    have "\<not> Interval \<le> Now - (LastStatusCheckTime G + int n * Interval)"
      using d by linarith
    with True show ?thesis unfolding m by blast
  next
    case False
    then have m: "int (min 64 n) = 64" by simp
    have "65 * Interval \<le> int n * Interval"
      by (intro mult_right_mono) (use I False in simp_all)
    then have "Interval \<le> Now - (LastStatusCheckTime G + 64 * Interval)"
      using d by linarith
    with False show ?thesis unfolding m by blast
  qed
  moreover have "Hz \<noteq> 0"
    using assms(2) by auto
  ultimately show ?thesis
    using assms(4) pump_loop_ok [OF assms(1) I assms(5,7), of 64] by (cases "n \<le> 64") (simp_all add: PumpSyntheticTraffic_def assms(6) [symmetric] Let_def min_absorb2 min_absorb1)
qed

section \<open>The check of the sequence\<close>

text \<open>
  Messages in order from the first pass. Once one is missing the counter is set to the number received,
  not to the one after it, so that every later message in order fails too.
\<close>

definition speeds :: "nat \<Rightarrow> nat \<Rightarrow> u64 list" where
  "speeds n k = map word_of_nat [n..<n + k]"

lemma speeds_Suc: "speeds n (Suc k) = word_of_nat n # speeds (Suc n) k"
  by (simp add: speeds_def upt_conv_Cons del: upt_Suc)

lemma counter_widens:
  assumes "n < 2 ^ 31" shows "(scast (word_of_nat n :: u32) :: u64) = word_of_nat n" "(word_of_nat n :: u32) \<noteq> - 1"
    "ucast (word_of_nat n :: u64) = (word_of_nat n :: u32)"
proof -
  have s: "sint (word_of_nat n :: u32) = int n"
    using assms by (simp add: signed_of_nat signed_take_bit_int_eq_self)
  show "(scast (word_of_nat n :: u32) :: u64) = word_of_nat n"
    by (metis s of_int_of_nat_eq scast_eq)
  show "(word_of_nat n :: u32) \<noteq> - 1"
    using s by auto
  show "ucast (word_of_nat n :: u64) = (word_of_nat n :: u32)"
    using assms by (simp add: unsigned_of_nat take_bit_nat_eq_self)
qed

lemma net_speed_in_order:
  assumes "expectedReliable S = word_of_nat n" "n + k < 2 ^ 31"
  shows "foldl NetSpeed_update S (speeds n k) = S\<lparr>totalPacket := totalPacket S + word_of_nat k, passCount := passCount S + word_of_nat k,
    expectedReliable := word_of_nat (n + k)\<rparr>"
  using assms
proof (induction k arbitrary: S n)
  case (Suc k)
  then have "NetSpeed_update S (word_of_nat n) = S\<lparr>totalPacket := totalPacket S + 1, passCount := passCount S + 1, expectedReliable := word_of_nat (Suc n)\<rparr>"
    by (simp add: NetSpeed_update_def counter_widens Let_def add.commute)
  with Suc.IH [of "NetSpeed_update S (word_of_nat n)" "Suc n"] Suc.prems show ?case
    by (simp add: speeds_Suc add.assoc)
qed (simp add: speeds_def)

lemma net_speed_after_gap:
  assumes "expectedReliable S = word_of_nat m" "m < n" "n + k < 2 ^ 31"
  shows "\<exists>e. foldl NetSpeed_update S (speeds n k) = S\<lparr>totalPacket := totalPacket S + word_of_nat k, failCount := failCount S + word_of_nat k,
    expectedReliable := e\<rparr>"
  using assms
proof (induction k arbitrary: S m n)
  case (Suc k)
  have "(word_of_nat m :: u64) \<noteq> word_of_nat n"
    using Suc.prems by (simp add: of_nat_inverse word_of_nat_eq_iff take_bit_nat_eq_self)
  then have "NetSpeed_update S (word_of_nat n) = S\<lparr>totalPacket := totalPacket S + 1, failCount := failCount S + 1, expectedReliable := word_of_nat n\<rparr>"
    using Suc.prems by (simp add: NetSpeed_update_def counter_widens Let_def)
  with Suc.IH [of "NetSpeed_update S (word_of_nat n)" n "Suc n"] Suc.prems show ?case
    by (simp add: speeds_Suc add.assoc)
next
  case 0
  show ?case by (rule exI [of _ "expectedReliable S"]) (simp add: speeds_def)
qed

end
