(* ===== verification/ClientM.thy ===== *)
theory ClientM
  imports GameServer
begin

text \<open>
  RemoteServer, \<open>service/NetworkService\<close> and \<open>packet_handler\<close>: the client program, and the login of a client
  at a game server. The messages are those of theory \<open>GameServer\<close>, and so are the code that sends a packet
  and the check of the message numbers, which the two programs share.
\<close>

section \<open>The client\<close>

text \<open>The registry of the process knows which connections have a service; one service is modelled.\<close>

record ClientService =
  ConnectionReliable :: u32
  CLastStatusCheckTime :: int
  ServerConnectionId :: u32
  ClientConnectionId :: u32
  Registry :: "u32 list"
  ClientRUDPMap :: "(u32 \<times> RUdpStatus) list"

definition ClientService_ctor :: ClientService where
  "ClientService_ctor = \<lparr>ConnectionReliable = 0, CLastStatusCheckTime = 0, ServerConnectionId = 0, ClientConnectionId = 0,
     Registry = [], ClientRUDPMap = []\<rparr>"

definition Registry_Register :: "ClientService \<Rightarrow> u32 \<Rightarrow> ClientService" where
  "Registry_Register K ConnectionId = K\<lparr>Registry := ConnectionId # removeAll ConnectionId (Registry K)\<rparr>"

definition Registry_Unregister :: "ClientService \<Rightarrow> u32 \<Rightarrow> ClientService" where
  "Registry_Unregister K ConnectionId = K\<lparr>Registry := removeAll ConnectionId (Registry K)\<rparr>"

definition Registry_Find :: "ClientService \<Rightarrow> u32 \<Rightarrow> bool" where
  "Registry_Find K ConnectionId \<longleftrightarrow> ConnectionId \<in> set (Registry K)"

text \<open>\<open>result\<close> is what starting the engine returns, and \<open>ConnId\<close> the identifier of the connection to the server.\<close>

definition Client_Initialize :: "ClientService \<Rightarrow> u32 \<Rightarrow> u32 \<Rightarrow> ClientService \<times> bool" where
  "Client_Initialize K result ConnId =
     (if result \<noteq> 0 then (K, False)
      else let K = K\<lparr>ClientConnectionId := ConnId\<rparr> in (Registry_Register K (ClientConnectionId K), True))"

definition Client_Shutdown :: "ClientService \<Rightarrow> ClientService" where
  "Client_Shutdown K = Registry_Unregister K (ClientConnectionId K)"

definition SetServerConnectionId :: "ClientService \<Rightarrow> u32 \<Rightarrow> ClientService" where
  "SetServerConnectionId K ConnId = K\<lparr>ServerConnectionId := ConnId\<rparr>"

definition SendInitialJoin :: "(ControlMessage \<Rightarrow> u8 list) \<Rightarrow> u32 \<Rightarrow> Sent list option" where
  "SendInitialJoin enc ConnectionId = SendPacket enc (NMT_Hello ''Hello World'' 1557) ConnectionId"

definition RemoteNetworkStatusCheck :: "(ControlMessage \<Rightarrow> u8 list) \<Rightarrow> ClientService \<Rightarrow> (ClientService \<times> Sent list) option" where
  "RemoteNetworkStatusCheck enc K = do {
     out \<leftarrow> SendPacket enc (NMT_NetSpeed (scast (ConnectionReliable K))) 0;
     Some (K\<lparr>ConnectionReliable := ConnectionReliable K + 1\<rparr>, out) }"

fun client_pump_loop :: "(ControlMessage \<Rightarrow> u8 list) \<Rightarrow> nat \<Rightarrow> int \<Rightarrow> int \<Rightarrow> ClientService \<Rightarrow> (ClientService \<times> Sent list) option" where
  "client_pump_loop enc 0 Interval Now K = Some (K, [])"
| "client_pump_loop enc (Suc k) Interval Now K =
     (if Interval \<le> Now - CLastStatusCheckTime K then do {
        (K, out) \<leftarrow> RemoteNetworkStatusCheck enc K;
        (K, outs) \<leftarrow> client_pump_loop enc k Interval Now (K\<lparr>CLastStatusCheckTime := CLastStatusCheckTime K + Interval\<rparr>);
        Some (K, out @ outs) }
      else Some (K, []))"

definition Client_PumpSyntheticTraffic :: "(ControlMessage \<Rightarrow> u8 list) \<Rightarrow> u32 \<Rightarrow> int \<Rightarrow> ClientService \<Rightarrow> (ClientService \<times> Sent list) option" where
  "Client_PumpSyntheticTraffic enc Hz Now K =
     (let Interval = int (1000000 div (if Hz = 0 then 1 else unat Hz)) * 1000
      in if CLastStatusCheckTime K = 0 then Some (K\<lparr>CLastStatusCheckTime := Now\<rparr>, [])
         else do {
           (K, out) \<leftarrow> client_pump_loop enc 64 Interval Now K;
           Some (if Interval \<le> Now - CLastStatusCheckTime K then K\<lparr>CLastStatusCheckTime := Now\<rparr> else K, out) })"

section \<open>Messages of the server\<close>

definition Client_NMT_Challenge :: "(ControlMessage \<Rightarrow> u8 list) \<Rightarrow> ClientService \<Rightarrow> u32 \<Rightarrow> Sent list option" where
  "Client_NMT_Challenge enc K ConnectionId =
     (if Registry_Find K ConnectionId then SendPacket enc (NMT_Login ''test_id_1'' ''test_pw_1'') ConnectionId else Some [])"

definition Client_NMT_Welcome :: "(ControlMessage \<Rightarrow> u8 list) \<Rightarrow> ClientService \<Rightarrow> u32 \<Rightarrow> Sent list option" where
  "Client_NMT_Welcome enc K ConnectionId =
     (if Registry_Find K ConnectionId then SendPacket enc (NMT_Join 1557) ConnectionId else Some [])"

definition Client_NMT_NetSpeed :: "ClientService \<Rightarrow> u32 \<Rightarrow> u64 \<Rightarrow> ClientService" where
  "Client_NMT_NetSpeed K ConnectionId number =
     (let Status = (case map_of (ClientRUDPMap K) ConnectionId of None \<Rightarrow> RUdpStatus_ctor | Some s \<Rightarrow> s)
      in K\<lparr>ClientRUDPMap := omap_put ConnectionId (NetSpeed_update Status number) (ClientRUDPMap K)\<rparr>)"

definition Client_ControlProtocol :: "(u16 \<Rightarrow> u8 list \<Rightarrow> ControlMessage option) \<Rightarrow> (ControlMessage \<Rightarrow> u8 list) \<Rightarrow> ClientService \<Rightarrow> u32 \<Rightarrow> u8 list
    \<Rightarrow> u16 \<Rightarrow> (ClientService \<times> Sent list) option" where
  "Client_ControlProtocol parse enc K ConnectionId Buffer MessageType =
     (if 65535 \<le> unat MessageType then None
      else if MessageType \<notin> {2, 4, 6, 7} then Some (K, [])
      else case parse MessageType Buffer of
        None \<Rightarrow> Some (K, [])
      | Some Message \<Rightarrow>
          if ProtocolId Message \<noteq> MessageType then Some (K, [])
          else case Message of
            NMT_Challenge _ _ \<Rightarrow> do { out \<leftarrow> Client_NMT_Challenge enc K ConnectionId; Some (K, out) }
          | NMT_Welcome _ _ \<Rightarrow> do { out \<leftarrow> Client_NMT_Welcome enc K ConnectionId; Some (K, out) }
          | NMT_NetSpeed number \<Rightarrow> Some (Client_NMT_NetSpeed K ConnectionId number, [])
          | _ \<Rightarrow> Some (K, []))"

definition Client_AddPlayerConnection :: "ClientService \<Rightarrow> u32 \<Rightarrow> ClientService" where
  "Client_AddPlayerConnection K ConnectionId =
     (let Status = (case map_of (ClientRUDPMap K) ConnectionId of None \<Rightarrow> RUdpStatus_ctor | Some s \<Rightarrow> s)
      in SetServerConnectionId (K\<lparr>ClientRUDPMap := omap_put ConnectionId Status (ClientRUDPMap K)\<rparr>) ConnectionId)"

definition Client_RemovePlayerConnection :: "ClientService \<Rightarrow> u32 \<Rightarrow> ClientService" where
  "Client_RemovePlayerConnection K ConnectionId = K\<lparr>ClientRUDPMap := omap_erase ConnectionId (ClientRUDPMap K)\<rparr>"

definition client_message :: "(u16 \<Rightarrow> u8 list \<Rightarrow> ControlMessage option) \<Rightarrow> (ControlMessage \<Rightarrow> u8 list) \<Rightarrow> ClientService \<Rightarrow> u32 \<Rightarrow> RecvMessageReader
    \<Rightarrow> (ClientService \<times> Sent list) option" where
  "client_message parse enc K ConnectionId m =
     (let size = (word_of_nat (length (RView m)) :: u16)
      in Client_ControlProtocol parse enc K ConnectionId (take (unat size) (RView m)) (RMessageId m))"

fun client_messages :: "(u16 \<Rightarrow> u8 list \<Rightarrow> ControlMessage option) \<Rightarrow> (ControlMessage \<Rightarrow> u8 list) \<Rightarrow> ClientService \<Rightarrow> u32 \<Rightarrow> RecvMessageReader list
    \<Rightarrow> (ClientService \<times> Sent list) option" where
  "client_messages parse enc K c [] = Some (K, [])"
| "client_messages parse enc K c (m # ms) = do {
     (K, out) \<leftarrow> client_message parse enc K c m;
     (K, outs) \<leftarrow> client_messages parse enc K c ms;
     Some (K, out @ outs) }"

section \<open>Logging in\<close>

text \<open>What a channel makes of a bunch with one message of a packet that was sent.\<close>

definition arrives :: "Sent list \<Rightarrow> RecvMessageReader list" where
  "arrives sent = concat (map (\<lambda>(i, ch, bytes).
     PendingDispatch (fst (DispatchRawBunch_Interanl ControlChannel_ctor (BufferReader_ctor bytes) 1))) sent)"

text \<open>
  Rounds of a conversation: the server handles what the client sent and the client handles the answers.
  The player is \<open>i\<close> to the server, the server is \<open>c\<close> to the client. The last component is what the client
  has sent and the server has not yet handled.
\<close>

fun talk_rounds :: "(u16 \<Rightarrow> u8 list \<Rightarrow> ControlMessage option) \<Rightarrow> (ControlMessage \<Rightarrow> u8 list) \<Rightarrow> u32 \<Rightarrow> u32 \<Rightarrow> nat \<Rightarrow> GameService \<times> ClientService \<times> Sent list
    \<Rightarrow> (GameService \<times> ClientService \<times> Sent list) option" where
  "talk_rounds parse enc i c 0 s = Some s"
| "talk_rounds parse enc i c (Suc n) (G, K, up) = do {
     (G, down) \<leftarrow> handle_messages parse enc G i (map (Pair ''Control'') (arrives up));
     (K, up) \<leftarrow> client_messages parse enc K c (arrives down);
     talk_rounds parse enc i c n (G, K, up) }"

definition login_messages :: "ControlMessage list" where
  "login_messages = [NMT_Hello ''Hello World'' 1557, NMT_Challenge ''hello'' ''try it'', NMT_Login ''test_id_1'' ''test_pw_1'',
     NMT_Welcome ''road runner'' ''L_Default'', NMT_Join 1557]"

text \<open>The serialiser and the parser fit together on the messages of the conversation.\<close>

definition understood :: "(u16 \<Rightarrow> u8 list \<Rightarrow> ControlMessage option) \<Rightarrow> (ControlMessage \<Rightarrow> u8 list) \<Rightarrow> ControlMessage \<Rightarrow> bool" where
  "understood parse enc m \<longleftrightarrow> length (enc m) < 65532 \<and> parse (ProtocolId m) (enc m) = Some m"

definition message_of :: "(ControlMessage \<Rightarrow> u8 list) \<Rightarrow> ControlMessage \<Rightarrow> RecvMessageReader" where
  "message_of enc m = \<lparr>RView = enc m, RMessageId = ProtocolId m\<rparr>"

lemma SendPacket_message:
  assumes "length (enc m) < 65532"
  shows "SendPacket enc m i = Some [(i, 0, message_bytes (message_of enc m))]"
  using SendPacket_fits [of enc m i, OF assms] by (simp add: message_bytes_def message_of_def add.commute)

lemma arrives_message:
  assumes "length (enc m) < 65532"
  shows "arrives [(i, ch, message_bytes (message_of enc m))] = [message_of enc m]"
proof -
  have "message_ok (message_of enc m)"
    using assms by (simp add: message_ok_def message_of_def)
  from Interanl_message [OF this, of ControlChannel_ctor "[]" 0] show ?thesis
    by (simp add: arrives_def BufferReader_ctor_def ReceivedMessage_def ControlChannel_ctor_def NetChannel_ctor_def del: DispatchRawBunch_Interanl.simps(2))
qed

lemma whole_view: "length v < 65532 \<Longrightarrow> take (unat (word_of_nat (length v) :: u16)) v = v"
  by (simp add: unat_of_nat)

lemma server_handles:
  assumes "understood parse enc m"
  shows "handle_messages parse enc G i [(''Control'', message_of enc m)] = (if ProtocolId m \<notin> {1, 3, 5, 6, 7} then Some (G, []) else
    case m of NMT_Hello _ _ \<Rightarrow> do { out \<leftarrow> Protocol_NMT_Hello enc i; Some (G, out) }
    | NMT_Login UserId Password \<Rightarrow> Protocol_NMT_Login enc G i UserId Password
    | NMT_NetSpeed number \<Rightarrow> Some (Protocol_NMT_NetSpeed G i number, []) | _ \<Rightarrow> Some (G, []))"
  using assms
  by (cases m) (auto simp: understood_def handle_message_def message_of_def whole_view ControlProtocol_def ProtocolId_def split: Option.bind_split)

lemma client_handles:
  assumes "understood parse enc m"
  shows "client_messages parse enc K c [message_of enc m] = (if ProtocolId m \<notin> {2, 4, 6, 7} then Some (K, []) else
    case m of NMT_Challenge _ _ \<Rightarrow> do { out \<leftarrow> Client_NMT_Challenge enc K c; Some (K, out) }
    | NMT_Welcome _ _ \<Rightarrow> do { out \<leftarrow> Client_NMT_Welcome enc K c; Some (K, out) }
    | NMT_NetSpeed number \<Rightarrow> Some (Client_NMT_NetSpeed K c number, []) | _ \<Rightarrow> Some (K, []))"
  using assms
  by (cases m) (auto simp: understood_def client_message_def message_of_def whole_view Client_ControlProtocol_def ProtocolId_def split: Option.bind_split)

text \<open>
  C12. When the packets of the login arrive in order and the serialiser and the parser fit together on
  them, a client whose service is registered and that is in a room of a server is logged in after two
  rounds: the client says hello, the server challenges, the client sends its user and password, the server
  verifies the player and welcomes it, and the client joins; after the third round nothing is under way.
\<close>

theorem login_completes:
  assumes "\<forall>m\<in>set login_messages. understood parse enc m" and "rooms_ok (roomManager G)" and "i \<in> set (all_conns (roomManager G))"
    and "CredentialStore (roomManager G) = [(''test_id_1'', ''test_pw_1'')]" and "Registry_Find K c"
  shows "\<exists>hello join G' r p. SendInitialJoin enc c = Some hello \<and> SendPacket enc (NMT_Join 1557) c = Some join
    \<and> talk_rounds parse enc i c 2 (G, K, hello) = Some (G', K, join) \<and> talk_rounds parse enc i c 3 (G, K, hello) = Some (G', K, [])
    \<and> r \<in> set (Rooms (roomManager G')) \<and> GetPlayer r i = Some p \<and> PlayerVerified (PlayerStore (roomManager G') ! p)"
proof -
  have len: "\<And>m. m \<in> set login_messages \<Longrightarrow> length (enc m) < 65532"
    using assms(1) by (simp add: understood_def)
  have un: "understood parse enc (NMT_Hello ''Hello World'' 1557)" "understood parse enc (NMT_Challenge ''hello'' ''try it'')"
    "understood parse enc (NMT_Login ''test_id_1'' ''test_pw_1'')" "understood parse enc (NMT_Welcome ''road runner'' ''L_Default'')"
    "understood parse enc (NMT_Join 1557)"
    using assms(1) by (simp_all add: login_messages_def)
  note send = SendPacket_message [OF len]
  show ?thesis
  proof (cases rule: VerifiedUser_cases [OF assms(2), of "''test_id_1''" "''test_pw_1''" i, case_names refused verified])
    case refused
    then show ?thesis using assms(3,4) by simp
  next
    case (verified p P M' r)
    let ?G = "G\<lparr>roomManager := M'\<rparr>"
    have login: "Protocol_NMT_Login enc G i ''test_id_1'' ''test_pw_1'' = Some (?G, [(i, 0, message_bytes (message_of enc (NMT_Welcome ''road runner'' ''L_Default'')))])"
      using verified(1) by (simp add: Protocol_NMT_Login_def send login_messages_def)
    let ?step = "\<lambda>n G up. talk_rounds parse enc i c n (G, K, up)"
    have 1: "?step (Suc n) G [(c, 0, message_bytes (message_of enc (NMT_Hello ''Hello World'' 1557)))]
        = ?step n G [(c, 0, message_bytes (message_of enc (NMT_Login ''test_id_1'' ''test_pw_1'')))]" for n
      using assms(5) by (simp add: arrives_message len server_handles [OF un(1)] client_handles [OF un(2)] login_messages_def ProtocolId_def
          Protocol_NMT_Hello_def Client_NMT_Challenge_def send del: handle_messages.simps client_messages.simps)
    have 2: "?step (Suc n) G [(c, 0, message_bytes (message_of enc (NMT_Login ''test_id_1'' ''test_pw_1'')))]
        = ?step n ?G [(c, 0, message_bytes (message_of enc (NMT_Join 1557)))]" for n
      using assms(5) by (simp add: arrives_message len server_handles [OF un(3)] client_handles [OF un(4)] login_messages_def ProtocolId_def
          login Client_NMT_Welcome_def send del: handle_messages.simps client_messages.simps)
    have 3: "?step (Suc n) ?G [(c, 0, message_bytes (message_of enc (NMT_Join 1557)))] = ?step n ?G []" for n
      by (simp add: arrives_message len server_handles [OF un(5)] login_messages_def ProtocolId_def arrives_def [of "[]"] del: handle_messages.simps)
    have "?step 2 G [(c, 0, message_bytes (message_of enc (NMT_Hello ''Hello World'' 1557)))]
        = Some (?G, K, [(c, 0, message_bytes (message_of enc (NMT_Join 1557)))])"
      "?step 3 G [(c, 0, message_bytes (message_of enc (NMT_Hello ''Hello World'' 1557)))] = Some (?G, K, [])"
      using 1 [of 1] 2 [of 0] 1 [of 2] 2 [of 1] 3 [of 0] by (simp_all add: numeral_2_eq_2 numeral_3_eq_3)
    then show ?thesis
      using verified by (intro exI [of _ ?G] exI [of _ r] exI [of _ p] exI) (auto simp: SendInitialJoin_def send login_messages_def)
  qed
qed

definition demo_decode :: "u16 \<Rightarrow> u8 list \<Rightarrow> ControlMessage option" where
  "demo_decode t b = find (\<lambda>m. ProtocolId m = t) login_messages"

text \<open>A player joins the empty server and logs in.\<close>

theorem login_completes_witness:
  "\<exists>G K hello G' r p. Handler_AddPlayerConnection GameService_ctor 1 = Some G \<and> SendInitialJoin (\<lambda>_. [0]) 9 = Some hello
    \<and> talk_rounds demo_decode (\<lambda>_. [0]) 1 9 3 (G, K, hello) = Some (G', K, [])
    \<and> r \<in> set (Rooms (roomManager G')) \<and> GetPlayer r 1 = Some p \<and> PlayerVerified (PlayerStore (roomManager G') ! p)"
proof -
  have "rooms_ok (roomManager GameService_ctor)" "(1 :: u32) \<notin> set (all_conns (roomManager GameService_ctor))"
    by (simp_all add: GameService_ctor_def rooms_ok_start)
  from join_served [OF this] obtain G where G: "Handler_AddPlayerConnection GameService_ctor 1 = Some G" "rooms_ok (roomManager G)"
      "1 \<in> set (all_conns (roomManager G))" "CredentialStore (roomManager G) = CredentialStore (roomManager GameService_ctor)"
    unfolding served_def serve_one_def by (fastforce simp: bind_eq_Some_conv)
  have un: "\<forall>m\<in>set login_messages. understood demo_decode (\<lambda>_. [0]) m"
    by (simp add: login_messages_def understood_def demo_decode_def ProtocolId_def)
  have cred: "CredentialStore (roomManager G) = [(''test_id_1'', ''test_pw_1'')]"
    using G(4) by (simp add: demo_rooms)
  have "Registry_Find (fst (Client_Initialize ClientService_ctor 0 9)) 9"
    by (simp add: Registry_Find_def Client_Initialize_def Registry_Register_def Let_def)
  from login_completes [OF un G(2,3) cred this] G(1) show ?thesis
    by blast
qed

end
