(* ===== verification/MallocM.thy ===== *)
theory MallocM
  imports Prelude
begin

text \<open>
  Core, \<open>MallocBinned\<close>: blocks of fixed sizes out of pools of 64 KB. Addresses are 64 bit words. The
  memory of the pools and of blocks too large for them comes from \<open>_aligned_malloc\<close>, whose answers are
  arguments and whose calls are listed. The code has no locks; a call is one step.
\<close>

section \<open>Pools\<close>

datatype OsCall = AlignedMalloc u64 u64 u64 | AlignedFree u64

record PoolInfo =
  PoolMemory :: u64
  FreeList :: "u64 list"
  NextPool :: "nat option"
  PBlockSize :: u32
  FreeBlockCount :: u32

record PoolTable =
  FirstPool :: "nat option"
  TBlockSize :: u32

record MallocBinned =
  Table :: "PoolTable list"
  PoolAddressMap :: "u64 \<rightharpoonup> nat"
  PoolStore :: "PoolInfo list"

definition BlockSizes :: "u32 list" where
  "BlockSizes =
    [16, 32, 48, 64, 80, 96, 112, 128,
     160, 192, 224, 256, 288, 320, 384, 448,
     512, 576, 640, 704, 768, 896, 1024, 1168,
     1360, 1632, 2048, 2336, 2720, 3264, 4096, 4672,
     5456, 6544, 8192, 9360, 10912, 13104, 16384, 21840, 32768]"

definition BINNED_ALLOC_POOL_SIZE :: u64 where
  "BINNED_ALLOC_POOL_SIZE = 65536"

definition MallocBinned_ctor :: MallocBinned where
  "MallocBinned_ctor = \<lparr>Table = map (\<lambda>s. \<lparr>FirstPool = None, TBlockSize = s\<rparr>) BlockSizes, PoolAddressMap = Map.empty, PoolStore = []\<rparr>"

fun find_table :: "u32 list \<Rightarrow> nat \<Rightarrow> u64 \<Rightarrow> nat option" where
  "find_table [] i Size = None"
| "find_table (s # sizes) i Size = (if Size \<le> ucast s then Some i else find_table sizes (Suc i) Size)"

definition FindTable :: "u64 \<Rightarrow> nat option" where
  "FindTable Size = find_table BlockSizes 0 Size"

text \<open>The blocks of a pool, and the list of free blocks after all are pushed.\<close>

definition block_at :: "u64 \<Rightarrow> u32 \<Rightarrow> nat \<Rightarrow> u64" where
  "block_at base BlockSize i = base + word_of_nat i * ucast BlockSize"

definition block_count :: "u32 \<Rightarrow> nat" where
  "block_count BlockSize = unat (BINNED_ALLOC_POOL_SIZE div ucast BlockSize)"

definition AllocatePool :: "MallocBinned \<Rightarrow> nat \<Rightarrow> u64 \<Rightarrow> (MallocBinned \<times> nat) option" where
  "AllocatePool M t memory = do {
     T \<leftarrow> rd (Table M) t;
     let pool = length (PoolStore M);
     let block_count = block_count (TBlockSize T);
     if memory = 0 then None
     else do {
       let P = \<lparr>PoolMemory = memory, FreeList = foldl (\<lambda>List i. block_at memory (TBlockSize T) i # List) [] [0..<block_count],
                NextPool = FirstPool T, PBlockSize = TBlockSize T, FreeBlockCount = word_of_nat block_count\<rparr>;
       Some (M\<lparr>PoolStore := PoolStore M @ [P], PoolAddressMap := (PoolAddressMap M)(memory \<mapsto> pool),
               Table := (Table M)[t := T\<lparr>FirstPool := Some pool\<rparr>]\<rparr>, pool) } }"

definition AllocateBlockFromPool :: "MallocBinned \<Rightarrow> nat \<Rightarrow> (MallocBinned \<times> u64) option" where
  "AllocateBlockFromPool M pool = do {
     P \<leftarrow> rd (PoolStore M) pool;
     case FreeList P of
       [] \<Rightarrow> Some (M, 0)
     | entry # rest \<Rightarrow>
         Some (M\<lparr>PoolStore := (PoolStore M)[pool := P\<lparr>FreeList := rest, FreeBlockCount := FreeBlockCount P - 1\<rparr>]\<rparr>, entry) }"

text \<open>\<open>Answer\<close> is what \<open>_aligned_malloc\<close> returns if it is called.\<close>

definition Malloc :: "MallocBinned \<Rightarrow> u64 \<Rightarrow> u32 \<Rightarrow> u64 \<Rightarrow> (MallocBinned \<times> u64 \<times> OsCall list) option" where
  "Malloc M Size Alignment Answer =
     (let Alignment = max Alignment 16; Size = max Size 1
      in case FindTable Size of
        None \<Rightarrow> Some (M, Answer, [AlignedMalloc Size (ucast Alignment) Answer])
      | Some table \<Rightarrow> do {
          T \<leftarrow> rd (Table M) table;
          empty \<leftarrow> (case FirstPool T of None \<Rightarrow> Some True | Some pool \<Rightarrow> do { P \<leftarrow> rd (PoolStore M) pool; Some (FreeBlockCount P = 0) });
          if empty then do {
            (M, pool) \<leftarrow> AllocatePool M table Answer;
            (M, block) \<leftarrow> AllocateBlockFromPool M pool;
            Some (M, block, [AlignedMalloc BINNED_ALLOC_POOL_SIZE BINNED_ALLOC_POOL_SIZE Answer]) }
          else do {
            pool \<leftarrow> FirstPool T;
            (M, block) \<leftarrow> AllocateBlockFromPool M pool;
            Some (M, block, []) } })"

definition pool_base :: "u64 \<Rightarrow> u64" where
  "pool_base Ptr = Ptr AND NOT (BINNED_ALLOC_POOL_SIZE - 1)"

definition MallocBinned_Free :: "MallocBinned \<Rightarrow> u64 \<Rightarrow> (MallocBinned \<times> OsCall list) option" where
  "MallocBinned_Free M Ptr =
     (if Ptr = 0 then Some (M, [])
      else case PoolAddressMap M (pool_base Ptr) of
        None \<Rightarrow> Some (M, [AlignedFree Ptr])
      | Some pool \<Rightarrow> do {
          P \<leftarrow> rd (PoolStore M) pool;
          Some (M\<lparr>PoolStore := (PoolStore M)[pool := P\<lparr>FreeList := Ptr # FreeList P, FreeBlockCount := FreeBlockCount P + 1\<rparr>]\<rparr>, []) })"

section \<open>Runs\<close>

text \<open>
  The regions the operating system has given out, as address and size. An honest answer is null or an
  aligned region apart from all others.
\<close>

definition apart :: "u64 \<times> nat \<Rightarrow> u64 \<times> nat \<Rightarrow> bool" where
  "apart r s \<longleftrightarrow> unat (fst r) + snd r \<le> unat (fst s) \<or> unat (fst s) + snd s \<le> unat (fst r)"

fun os_honest :: "(u64 \<times> nat) list \<Rightarrow> OsCall \<Rightarrow> bool" where
  "os_honest os (AlignedMalloc Size Alignment a) \<longleftrightarrow> a = 0
     \<or> (unat Alignment dvd unat a \<and> unat a + unat Size \<le> 2 ^ 64 \<and> (\<forall>r\<in>set os. apart (a, unat Size) r))"
| "os_honest os (AlignedFree a) \<longleftrightarrow> True"

fun os_after :: "(u64 \<times> nat) list \<Rightarrow> OsCall \<Rightarrow> (u64 \<times> nat) list" where
  "os_after os (AlignedMalloc Size Alignment a) = (if a = 0 then os else (a, unat Size) # os)"
| "os_after os (AlignedFree a) = filter (\<lambda>r. fst r \<noteq> a) os"

text \<open>The blocks in use, with the sizes that were asked for, when only blocks in use are freed.\<close>

inductive malloc_run :: "MallocBinned \<Rightarrow> (u64 \<times> nat) list \<Rightarrow> (u64 \<times> nat) list \<Rightarrow> bool" where
  start: "malloc_run MallocBinned_ctor [] []"
| malloc: "malloc_run M live os \<Longrightarrow> Malloc M Size Alignment Answer = Some (M', p, calls) \<Longrightarrow> \<forall>c\<in>set calls. os_honest os c \<Longrightarrow>
    malloc_run M' (if p = 0 then live else (p, unat (max Size 1)) # live) (foldl os_after os calls)"
| free: "malloc_run M live os \<Longrightarrow> (p, n) \<in> set live \<Longrightarrow> MallocBinned_Free M p = Some (M', calls) \<Longrightarrow>
    malloc_run M' (remove1 (p, n) live) (foldl os_after os calls)"

section \<open>Addresses\<close>

lemma align_down_unat: "unat (a AND NOT (mask n) :: u64) = unat a div 2 ^ n * 2 ^ n"
proof -
  have "a AND NOT (mask n) = push_bit n (drop_bit n a)"
    by (rule bit_eqI) (auto simp: bit_simps)
  moreover have "unat (push_bit n (drop_bit n a)) = take_bit 64 (push_bit n (drop_bit n (unat a)))"
    using unsigned_less [of a, where 'a = nat] by (simp add: unsigned_push_bit_eq unsigned_drop_bit_eq take_bit_nat_eq_self)
  ultimately have "unat (a AND NOT (mask n)) = take_bit 64 (unat a div 2 ^ n * 2 ^ n)"
    by (simp only: push_bit_eq_mult drop_bit_eq_div)
  moreover have "unat a div 2 ^ n * 2 ^ n < 2 ^ 64"
    using unsigned_less [of a, where 'a = nat] by (intro le_less_trans [OF div_times_less_eq_dividend]) simp
  ultimately show ?thesis
    by (simp only: take_bit_nat_eq_self)
qed

lemma unat_ucast_up: "unat (ucast (x :: u32) :: u64) = unat x"
  using unsigned_less [of x, where 'a = nat] by (simp add: unsigned_ucast_eq take_bit_nat_eq_self)

lemma pool_base_unat: "unat (pool_base a) = unat a div 65536 * 65536"
proof -
  have "BINNED_ALLOC_POOL_SIZE - 1 = mask 16"
    by (simp add: BINNED_ALLOC_POOL_SIZE_def mask_eq_exp_minus_1)
  then show ?thesis
    using align_down_unat [of a 16] by (simp add: pool_base_def)
qed

lemma pool_base_region: "unat (pool_base a) \<le> unat a" "unat a < unat (pool_base a) + 65536"
  using div_mult_mod_eq [of "unat a" 65536] mod_less_divisor [of 65536 "unat a"] unfolding pool_base_unat by linarith+

lemma BlockSizes_range: "bs \<in> set BlockSizes \<Longrightarrow> 16 \<le> unat bs \<and> unat bs \<le> 32768 \<and> 16 dvd unat bs"
  by (auto simp: BlockSizes_def)

lemma block_count_eq: "bs \<in> set BlockSizes \<Longrightarrow> block_count bs = 65536 div unat bs"
  by (simp add: block_count_def BINNED_ALLOC_POOL_SIZE_def unat_div unat_ucast_up)

lemma block_count_bounds:
  assumes "bs \<in> set BlockSizes"
  shows "2 \<le> block_count bs" "block_count bs \<le> 4096" "i < block_count bs \<Longrightarrow> i * unat bs + unat bs \<le> 65536"
proof -
  note r = BlockSizes_range [OF assms] and c = block_count_eq [OF assms]
  show "2 \<le> block_count bs"
    using r div_le_mono2 [of "unat bs" 32768 65536] by (simp add: c)
  show "block_count bs \<le> 4096"
    using r div_le_mono2 [of 16 "unat bs" 65536] by (simp add: c)
  assume "i < block_count bs"
  then have "Suc i * unat bs \<le> block_count bs * unat bs"
    by (intro mult_right_mono) simp_all
  also have "\<dots> \<le> 65536"
    by (simp add: c)
  finally show "i * unat bs + unat bs \<le> 65536"
    by simp
qed

lemma pool_room: "65536 dvd unat (base :: u64) \<Longrightarrow> unat base + 65536 \<le> 2 ^ 64"
  using unsigned_less [of base, where 'a = nat] by (auto elim!: dvdE)

lemma block_at_unat:
  assumes bs: "bs \<in> set BlockSizes" and base: "65536 dvd unat base" and i: "i < block_count bs"
  shows "unat (block_at base bs i) = unat base + i * unat bs"
proof -
  have le: "i * unat bs + unat bs \<le> 65536" "i < 4096" "16 \<le> unat bs"
    using block_count_bounds [OF bs] i BlockSizes_range [OF bs] by auto
  have "unat (word_of_nat i * ucast bs :: u64) = i * unat bs"
    using le by (simp add: unat_word_ariths unat_of_nat unat_ucast_up)
  then show ?thesis
    using le pool_room [OF base] by (simp add: block_at_def unat_word_ariths)
qed

lemma block_at_base:
  assumes "bs \<in> set BlockSizes" "65536 dvd unat base" "i < block_count bs"
  shows "pool_base (block_at base bs i) = base"
proof -
  have "i * unat bs < 65536"
    using block_count_bounds(3) [OF assms(1,3)] BlockSizes_range [OF assms(1)] by linarith
  then have "unat (pool_base (block_at base bs i)) = unat base"
    using assms(2) by (auto simp: pool_base_unat block_at_unat [OF assms] elim!: dvdE)
  then show ?thesis
    by (simp add: word_unat_eq_iff)
qed

section \<open>Invariant\<close>

definition pool_blocks :: "PoolInfo \<Rightarrow> u64 list" where
  "pool_blocks P = map (block_at (PoolMemory P) (PBlockSize P)) [0..<block_count (PBlockSize P)]"

definition pool_ok :: "PoolInfo \<Rightarrow> bool" where
  "pool_ok P \<longleftrightarrow> 65536 dvd unat (PoolMemory P) \<and> PoolMemory P \<noteq> 0 \<and> PBlockSize P \<in> set BlockSizes \<and> distinct (FreeList P)
     \<and> set (FreeList P) \<subseteq> set (pool_blocks P) \<and> FreeBlockCount P = word_of_nat (length (FreeList P))"

definition live_ok :: "MallocBinned \<Rightarrow> (u64 \<times> nat) list \<Rightarrow> u64 \<times> nat \<Rightarrow> bool" where
  "live_ok M os b \<longleftrightarrow> fst b \<noteq> 0 \<and> 1 \<le> snd b \<and> (case PoolAddressMap M (pool_base (fst b)) of
       Some p \<Rightarrow> fst b \<in> set (pool_blocks (PoolStore M ! p)) \<and> fst b \<notin> set (FreeList (PoolStore M ! p)) \<and> snd b \<le> unat (PBlockSize (PoolStore M ! p))
     | None \<Rightarrow> b \<in> set os)"

definition tables_right :: "MallocBinned \<Rightarrow> bool" where
  "tables_right M \<longleftrightarrow> length (Table M) = length BlockSizes
     \<and> (\<forall>t < length BlockSizes. TBlockSize (Table M ! t) = BlockSizes ! t
          \<and> (\<forall>p. FirstPool (Table M ! t) = Some p \<longrightarrow> p < length (PoolStore M) \<and> PBlockSize (PoolStore M ! p) = BlockSizes ! t))"

definition regions_ok :: "(u64 \<times> nat) list \<Rightarrow> bool" where
  "regions_ok os \<longleftrightarrow> (\<forall>r\<in>set os. \<forall>s\<in>set os. r \<noteq> s \<longrightarrow> apart r s) \<and> (\<forall>r\<in>set os. 1 \<le> snd r)"

definition pools_right :: "MallocBinned \<Rightarrow> (u64 \<times> nat) list \<Rightarrow> bool" where
  "pools_right M os \<longleftrightarrow> (\<forall>p < length (PoolStore M). pool_ok (PoolStore M ! p) \<and> (PoolMemory (PoolStore M ! p), 65536) \<in> set os)
     \<and> (\<forall>k p. PoolAddressMap M k = Some p \<longleftrightarrow> p < length (PoolStore M) \<and> PoolMemory (PoolStore M ! p) = k)"

definition malloc_inv :: "MallocBinned \<Rightarrow> (u64 \<times> nat) list \<Rightarrow> (u64 \<times> nat) list \<Rightarrow> bool" where
  "malloc_inv M live os \<longleftrightarrow> tables_right M \<and> pools_right M os \<and> regions_ok os \<and> distinct (map fst live) \<and> (\<forall>b\<in>set live. live_ok M os b)"

lemma block_in_pool:
  assumes "pool_ok P" "b \<in> set (pool_blocks P)"
  obtains i where "b = block_at (PoolMemory P) (PBlockSize P) i" "i < block_count (PBlockSize P)"
    "unat b = unat (PoolMemory P) + i * unat (PBlockSize P)" "i * unat (PBlockSize P) + unat (PBlockSize P) \<le> 65536"
    "pool_base b = PoolMemory P" "b \<noteq> 0"
proof -
  obtain i where i: "b = block_at (PoolMemory P) (PBlockSize P) i" "i < block_count (PBlockSize P)"
    using assms(2) by (auto simp: pool_blocks_def)
  have P: "65536 dvd unat (PoolMemory P)" "PBlockSize P \<in> set BlockSizes" "PoolMemory P \<noteq> 0"
    using assms(1) by (simp_all add: pool_ok_def)
  have u: "unat b = unat (PoolMemory P) + i * unat (PBlockSize P)"
    using block_at_unat [OF P(2,1) i(2)] i(1) by simp
  moreover have "0 < unat (PoolMemory P)"
    using P(3) by (simp add: unat_gt_0)
  ultimately have "b \<noteq> 0" by auto
  with i u that show ?thesis
    using block_count_bounds(3) [OF P(2) i(2)] block_at_base [OF P(2,1) i(2)] by blast
qed

lemma pool_of_block:
  assumes "malloc_inv M live os" "p < length (PoolStore M)" "b \<in> set (pool_blocks (PoolStore M ! p))"
  shows "PoolAddressMap M (pool_base b) = Some p \<and> b \<noteq> 0"
proof -
  have "pool_ok (PoolStore M ! p)"
    using assms(1,2) by (simp add: malloc_inv_def pools_right_def)
  from block_in_pool [OF this assms(3)] assms(1,2) show ?thesis
    unfolding malloc_inv_def pools_right_def by metis
qed

text \<open>Handing out the first free block of a pool, and taking a block back.\<close>

lemma live_ok_upd:
  assumes "live_ok M os b" "PoolAddressMap M (pool_base (fst b)) = Some p \<Longrightarrow> fst b \<notin> set (FreeList P)"
    and "pool_blocks P = pool_blocks (PoolStore M ! p)" "PBlockSize P = PBlockSize (PoolStore M ! p)" "p < length (PoolStore M)"
  shows "live_ok (M\<lparr>PoolStore := (PoolStore M)[p := P]\<rparr>) os b"
proof (cases "PoolAddressMap M (pool_base (fst b))")
  case None
  with assms(1) show ?thesis by (simp add: live_ok_def)
next
  case (Some q)
  with assms show ?thesis
    by (cases "q = p") (simp_all add: live_ok_def)
qed

lemma malloc_inv_upd:
  assumes inv: "malloc_inv M live os" and p: "p < length (PoolStore M)" and P: "pool_ok P" "PoolMemory P = PoolMemory (PoolStore M ! p)"
      "PBlockSize P = PBlockSize (PoolStore M ! p)"
    and live: "distinct (map fst live')" "\<forall>b\<in>set live'. live_ok (M\<lparr>PoolStore := (PoolStore M)[p := P]\<rparr>) os b"
  shows "malloc_inv (M\<lparr>PoolStore := (PoolStore M)[p := P]\<rparr>) live' os"
proof -
  have "\<forall>q. PBlockSize ((PoolStore M)[p := P] ! q) = PBlockSize (PoolStore M ! q) \<and> PoolMemory ((PoolStore M)[p := P] ! q) = PoolMemory (PoolStore M ! q)"
    using p P(2,3) by (auto simp: nth_list_update)
  moreover have "\<forall>q < length (PoolStore M). pool_ok ((PoolStore M)[p := P] ! q)"
    using inv p P(1) by (auto simp: nth_list_update malloc_inv_def pools_right_def)
  ultimately show ?thesis
    using inv live by (simp add: malloc_inv_def pools_right_def tables_right_def)
qed

lemma pop_inv:
  assumes inv: "malloc_inv M live os" and p: "p < length (PoolStore M)" and f: "FreeList (PoolStore M ! p) = e # rest"
    and n: "1 \<le> n" "n \<le> unat (PBlockSize (PoolStore M ! p))"
  shows "\<exists>M'. AllocateBlockFromPool M p = Some (M', e) \<and> malloc_inv M' ((e, n) # live) os \<and> e \<noteq> 0"
proof -
  let ?P = "PoolStore M ! p"
  let ?Q = "?P\<lparr>FreeList := rest, FreeBlockCount := FreeBlockCount ?P - 1\<rparr>"
  have ok: "pool_ok ?P"
    using inv p by (simp add: malloc_inv_def pools_right_def)
  then have e: "e \<in> set (pool_blocks ?P)" "e \<notin> set rest" "pool_ok ?Q" "pool_blocks ?Q = pool_blocks ?P"
    by (auto simp: pool_ok_def f pool_blocks_def)
  have m: "PoolAddressMap M (pool_base e) = Some p" "e \<noteq> 0"
    using pool_of_block [OF inv p e(1)] by simp_all
  have lv: "live_ok (M\<lparr>PoolStore := (PoolStore M)[p := ?Q]\<rparr>) os b \<and> fst b \<noteq> e" if "b \<in> set live" for b
  proof -
    have b: "live_ok M os b"
      using inv that by (simp add: malloc_inv_def)
    then have "fst b \<notin> set (FreeList ?P)" if "PoolAddressMap M (pool_base (fst b)) = Some p"
      using that by (simp add: live_ok_def)
    with b p e(4) m(1) f show ?thesis
      by (auto intro!: live_ok_upd)
  qed
  have "malloc_inv (M\<lparr>PoolStore := (PoolStore M)[p := ?Q]\<rparr>) ((e, n) # live) os"
    by (rule malloc_inv_upd [OF inv p e(3)]) (use lv m n p e inv in \<open>auto simp: malloc_inv_def live_ok_def\<close>)
  with m(2) p f show ?thesis
    by (simp add: AllocateBlockFromPool_def)
qed

lemma push_inv:
  assumes inv: "malloc_inv M live os" and b: "(a, n) \<in> set live" and p: "PoolAddressMap M (pool_base a) = Some p"
  shows "\<exists>M'. MallocBinned_Free M a = Some (M', []) \<and> malloc_inv M' (remove1 (a, n) live) os"
proof -
  let ?P = "PoolStore M ! p"
  let ?Q = "?P\<lparr>FreeList := a # FreeList ?P, FreeBlockCount := FreeBlockCount ?P + 1\<rparr>"
  have pl: "p < length (PoolStore M)" "pool_ok ?P"
    using inv p by (auto simp: malloc_inv_def pools_right_def)
  have d: "distinct (map fst live)" "distinct live"
    using inv by (auto simp: malloc_inv_def distinct_map)
  have a: "a \<in> set (pool_blocks ?P)" "a \<notin> set (FreeList ?P)" "a \<noteq> 0"
    using inv b p by (auto simp: malloc_inv_def live_ok_def)
  then have Q: "pool_ok ?Q" "pool_blocks ?Q = pool_blocks ?P"
    using pl(2) by (auto simp: pool_ok_def pool_blocks_def)
  have lv: "live_ok (M\<lparr>PoolStore := (PoolStore M)[p := ?Q]\<rparr>) os b" if "b \<in> set (remove1 (a, n) live)" for b
  proof (rule live_ok_upd)
    have bl: "b \<in> set live" "b \<noteq> (a, n)"
      using that d(2) by simp_all
    then have "fst b \<noteq> a"
      using d(1) b by (auto simp: distinct_map inj_on_def)
    then show "PoolAddressMap M (pool_base (fst b)) = Some p \<Longrightarrow> fst b \<notin> set (FreeList ?Q)"
      using inv bl(1) by (auto simp: malloc_inv_def live_ok_def)
    show "live_ok M os b"
      using inv bl(1) by (simp add: malloc_inv_def)
  qed (use pl Q in simp_all)
  have "distinct (map fst (remove1 (a, n) live))"
    using d(1) distinct_remove1 [OF d(2)] by (auto simp: distinct_map d(2) intro: inj_on_subset)
  then have "malloc_inv (M\<lparr>PoolStore := (PoolStore M)[p := ?Q]\<rparr>) (remove1 (a, n) live) os"
    by (intro malloc_inv_upd [OF inv pl(1) Q(1)]) (use lv in simp_all)
  with a(3) p pl(1) show ?thesis
    by (simp add: MallocBinned_Free_def)
qed

text \<open>A new region of the operating system is not inside a pool.\<close>

lemma region_of_no_pool:
  assumes inv: "malloc_inv M live os" and r: "\<forall>r\<in>set os. apart (a, n) r" "1 \<le> n"
  shows "PoolAddressMap M (pool_base a) = None"
proof (rule ccontr)
  assume "PoolAddressMap M (pool_base a) \<noteq> None"
  then have "(pool_base a, 65536) \<in> set os"
    using inv by (auto simp: malloc_inv_def pools_right_def)
  then show False
    using r pool_base_region [of a] by (auto simp: apart_def)
qed

lemma live_apart:
  assumes inv: "malloc_inv M live os" and r: "\<forall>r\<in>set os. apart (a, n) r" "1 \<le> n" and b: "b \<in> set live"
  shows "fst b \<noteq> a" "n = 65536 \<Longrightarrow> 65536 dvd unat a \<Longrightarrow> pool_base (fst b) = a \<Longrightarrow> PoolAddressMap M (pool_base (fst b)) \<noteq> None"
proof -
  have ok: "live_ok M os b"
    using inv b by (simp add: malloc_inv_def)
  show "fst b \<noteq> a"
  proof
    assume "fst b = a"
    then have "b \<in> set os" "1 \<le> snd b"
      using ok region_of_no_pool [OF inv r] by (auto simp: live_ok_def)
    with r \<open>fst b = a\<close> show False
      by (auto simp: apart_def)
  qed
  assume n: "n = 65536" "65536 dvd unat a" "pool_base (fst b) = a"
  show "PoolAddressMap M (pool_base (fst b)) \<noteq> None"
  proof
    assume "PoolAddressMap M (pool_base (fst b)) = None"
    then have "apart (a, n) b" "1 \<le> snd b"
      using ok r by (auto simp: live_ok_def)
    with n pool_base_region [of "fst b"] show False
      by (auto simp: apart_def)
  qed
qed

lemma regions_ok_Cons:
  assumes "regions_ok os" "\<forall>r\<in>set os. apart (a, n) r" "1 \<le> n"
  shows "regions_ok ((a, n) # os)"
  using assms by (auto simp: regions_ok_def apart_def)

lemma pool_inv:
  assumes inv: "malloc_inv M live os" and t: "t < length BlockSizes" and a: "a \<noteq> 0" "65536 dvd unat a"
    and r: "\<forall>r\<in>set os. apart (a, 65536) r"
  shows "\<exists>M' e rest. AllocatePool M t a = Some (M', length (PoolStore M)) \<and> malloc_inv M' live ((a, 65536) # os)
    \<and> length (PoolStore M') = Suc (length (PoolStore M)) \<and> FreeList (PoolStore M' ! length (PoolStore M)) = e # rest
    \<and> PBlockSize (PoolStore M' ! length (PoolStore M)) = BlockSizes ! t"
proof -
  let ?bs = "BlockSizes ! t" and ?p = "length (PoolStore M)" and ?T = "Table M ! t"
  let ?P = "\<lparr>PoolMemory = a, FreeList = rev (map (block_at a ?bs) [0..<block_count ?bs]), NextPool = FirstPool ?T, PBlockSize = ?bs,
    FreeBlockCount = word_of_nat (block_count ?bs)\<rparr>"
  let ?M = "M\<lparr>PoolStore := PoolStore M @ [?P], PoolAddressMap := (PoolAddressMap M)(a \<mapsto> ?p), Table := (Table M)[t := ?T\<lparr>FirstPool := Some ?p\<rparr>]\<rparr>"
  have bs: "?bs \<in> set BlockSizes"
    using t by simp
  have tab: "t < length (Table M)" "TBlockSize ?T = ?bs"
    using inv t by (simp_all add: malloc_inv_def tables_right_def)
  have "foldl (\<lambda>List i. block_at a ?bs i # List) xs is = rev (map (block_at a ?bs) is) @ xs" for xs "is"
    by (induction "is" arbitrary: xs) simp_all
  then have eq: "AllocatePool M t a = Some (?M, ?p)"
    using tab a(1) by (simp add: AllocatePool_def Let_def)
  have "inj_on (block_at a ?bs) {0..<block_count ?bs}"
  proof (rule inj_onI)
    fix i j assume ij: "i \<in> {0..<block_count ?bs}" "j \<in> {0..<block_count ?bs}" "block_at a ?bs i = block_at a ?bs j"
    have "unat a + i * unat ?bs = unat a + j * unat ?bs"
      using block_at_unat [OF bs a(2), of i] block_at_unat [OF bs a(2), of j] ij by (metis atLeastLessThan_iff)
    then show "i = j"
      using BlockSizes_range [OF bs] by auto
  qed
  then have P: "pool_ok ?P"
    using bs a by (simp add: pool_ok_def pool_blocks_def distinct_map)
  have new: "PoolMemory (PoolStore M ! q) \<noteq> a" if "q < ?p" for q
  proof
    assume "PoolMemory (PoolStore M ! q) = a"
    then have "(a, 65536) \<in> set os"
      using inv that by (auto simp: malloc_inv_def pools_right_def)
    with r show False by (auto simp: apart_def)
  qed
  have "tables_right ?M"
    using inv t tab by (auto simp: malloc_inv_def tables_right_def nth_list_update nth_append)
  moreover have "pools_right ?M ((a, 65536) # os)"
    using inv P new by (auto simp: malloc_inv_def pools_right_def nth_append less_Suc_eq)
  moreover have "regions_ok ((a, 65536) # os)"
    using inv r by (intro regions_ok_Cons) (simp_all add: malloc_inv_def)
  moreover have "live_ok ?M ((a, 65536) # os) b" if "b \<in> set live" for b
  proof -
    have b: "live_ok M os b"
      using inv that by (simp add: malloc_inv_def)
    show ?thesis
    proof (cases "PoolAddressMap M (pool_base (fst b))")
      case None
      then have "pool_base (fst b) \<noteq> a"
        using live_apart(2) [OF inv r _ that] a(2) by auto
      with b None show ?thesis by (simp add: live_ok_def)
    next
      case (Some q)
      then have "q < ?p" "pool_base (fst b) = PoolMemory (PoolStore M ! q)"
        using inv by (simp_all add: malloc_inv_def pools_right_def)
      with b Some new [OF this(1)] show ?thesis by (simp add: live_ok_def nth_append)
    qed
  qed
  ultimately have "malloc_inv ?M live ((a, 65536) # os)"
    using inv by (simp add: malloc_inv_def)
  moreover obtain e rest where "rev (map (block_at a ?bs) [0..<block_count ?bs]) = e # rest"
    using block_count_bounds(1) [OF bs] by (cases "rev (map (block_at a ?bs) [0..<block_count ?bs])") auto
  ultimately show ?thesis
    unfolding eq by (intro exI [of _ ?M] exI [of _ e] exI [of _ rest]) simp
qed

lemma large_inv:
  assumes inv: "malloc_inv M live os" and r: "\<forall>r\<in>set os. apart (a, n) r" "1 \<le> n" and a: "a \<noteq> 0"
  shows "malloc_inv M ((a, n) # live) ((a, n) # os)"
proof -
  have "live_ok M ((a, n) # os) b" if "b \<in> set live" for b
    using inv that by (auto simp: malloc_inv_def live_ok_def split: option.split)
  moreover have "live_ok M ((a, n) # os) (a, n)"
    using region_of_no_pool [OF inv r] a r(2) by (simp add: live_ok_def)
  moreover have "regions_ok ((a, n) # os)" "pools_right M ((a, n) # os)" "a \<notin> fst ` set live"
    using inv regions_ok_Cons [OF _ r] live_apart(1) [OF inv r] by (auto simp: malloc_inv_def pools_right_def)
  ultimately show ?thesis
    using inv by (simp add: malloc_inv_def)
qed

lemma free_large_inv:
  assumes inv: "malloc_inv M live os" and b: "(a, n) \<in> set live" and p: "PoolAddressMap M (pool_base a) = None"
  shows "MallocBinned_Free M a = Some (M, [AlignedFree a]) \<and> malloc_inv M (remove1 (a, n) live) (filter (\<lambda>r. fst r \<noteq> a) os)"
proof -
  have d: "distinct (map fst live)" "distinct live"
    using inv by (auto simp: malloc_inv_def distinct_map)
  have "fst b \<noteq> a \<and> b \<in> set live" if "b \<in> set (remove1 (a, n) live)" for b
    using that d b by (auto simp: distinct_map inj_on_def)
  then have "live_ok M (filter (\<lambda>r. fst r \<noteq> a) os) b" if "b \<in> set (remove1 (a, n) live)" for b
  proof -
    have "live_ok M os b" "fst b \<noteq> a"
      using inv that \<open>\<And>b. b \<in> set (remove1 (a, n) live) \<Longrightarrow> fst b \<noteq> a \<and> b \<in> set live\<close> by (simp_all add: malloc_inv_def)
    then show ?thesis
      by (cases "PoolAddressMap M (pool_base (fst b))") (simp_all add: live_ok_def)
  qed
  moreover have "distinct (map fst (remove1 (a, n) live))"
    using d(1) distinct_remove1 [OF d(2)] by (auto simp: distinct_map d(2) intro: inj_on_subset)
  moreover have "PoolMemory (PoolStore M ! q) \<noteq> a" if "q < length (PoolStore M)" for q
  proof
    assume m: "PoolMemory (PoolStore M ! q) = a"
    then have "65536 dvd unat a" "PoolAddressMap M a = Some q"
      using inv that by (auto simp: malloc_inv_def pools_right_def pool_ok_def)
    then have "pool_base a = a"
      by (simp add: word_unat_eq_iff pool_base_unat)
    with p \<open>PoolAddressMap M a = Some q\<close> show False by simp
  qed
  moreover have "a \<noteq> 0"
    using inv b by (auto simp: malloc_inv_def live_ok_def)
  ultimately show ?thesis
    using inv p by (simp add: malloc_inv_def MallocBinned_Free_def pools_right_def regions_ok_def)
qed

section \<open>What the allocator promises\<close>

lemma find_table_Some: "find_table ss i Size = Some t \<Longrightarrow> i \<le> t \<and> t - i < length ss \<and> Size \<le> ucast (ss ! (t - i))"
proof (induction ss arbitrary: i)
  case (Cons s ss)
  show ?case
  proof (cases "Size \<le> ucast s")
    case False
    with Cons.IH [of "Suc i"] Cons.prems show ?thesis
      by (auto simp: Suc_diff_le nth_Cons' Suc_le_eq dest: less_imp_Suc_add)
  qed (use Cons.prems in simp)
qed simp

lemma FindTable_Some:
  assumes "FindTable Size = Some t"
  shows "t < length BlockSizes" "unat Size \<le> unat (BlockSizes ! t)"
  using find_table_Some [of BlockSizes 0 Size t] assms by (simp_all add: FindTable_def word_le_nat_alt unat_ucast_up)

lemma malloc_keeps:
  assumes inv: "malloc_inv M live os" and m: "Malloc M Size Alignment Answer = Some (M', p, calls)" and h: "\<forall>c\<in>set calls. os_honest os c"
  shows "malloc_inv M' (if p = 0 then live else (p, unat (max Size 1)) # live) (foldl os_after os calls) \<and> (Answer \<noteq> 0 \<longrightarrow> p \<noteq> 0)"
proof (cases "FindTable (max Size 1)")
  case None
  have n: "1 \<le> unat (max Size 1)"
    by (simp add: max_def word_le_nat_alt)
  from None m have r: "M' = M" "p = Answer" "calls = [AlignedMalloc (max Size 1) (ucast (max Alignment 16)) Answer]"
    by (auto simp: Malloc_def Let_def)
  with inv h large_inv [OF inv _ n, of Answer] show ?thesis
    by auto
next
  case (Some t)
  let ?n = "unat (max Size 1)"
  note f = FindTable_Some [OF Some]
  have n: "1 \<le> ?n"
    by (simp add: max_def word_le_nat_alt)
  have tab: "t < length (Table M)" "\<And>q. FirstPool (Table M ! t) = Some q \<Longrightarrow> q < length (PoolStore M) \<and> PBlockSize (PoolStore M ! q) = BlockSizes ! t"
    using inv f(1) by (simp_all add: malloc_inv_def tables_right_def)
  consider (old) q e rest where "FirstPool (Table M ! t) = Some q" "FreeBlockCount (PoolStore M ! q) \<noteq> 0" "FreeList (PoolStore M ! q) = e # rest"
    | (new) "(case FirstPool (Table M ! t) of None \<Rightarrow> Some True | Some pool \<Rightarrow> do { P \<leftarrow> rd (PoolStore M) pool; Some (FreeBlockCount P = 0) }) = Some True"
  proof (cases "FirstPool (Table M ! t)")
    case (Some q)
    then have "pool_ok (PoolStore M ! q)" "q < length (PoolStore M)"
      using inv tab(2) by (auto simp: malloc_inv_def pools_right_def)
    then show ?thesis
      using Some old [of q] new by (cases "FreeList (PoolStore M ! q)"; cases "FreeBlockCount (PoolStore M ! q) = 0") (auto simp: pool_ok_def)
  qed (use new in simp)
  then show ?thesis
  proof cases
    case old
    then obtain M1 where "AllocateBlockFromPool M q = Some (M1, e)" "malloc_inv M1 ((e, ?n) # live) os" "e \<noteq> 0"
      using pop_inv [OF inv _ old(3) n] tab(2) f(2) by auto
    with m Some tab old show ?thesis
      by (auto simp: Malloc_def Let_def)
  next
    case new
    have a: "Answer \<noteq> 0" "calls = [AlignedMalloc BINNED_ALLOC_POOL_SIZE BINNED_ALLOC_POOL_SIZE Answer]"
      using m Some tab(1) new by (auto simp: Malloc_def Let_def AllocatePool_def bind_eq_Some_conv split: if_splits)
    have "65536 dvd unat Answer" "\<forall>r\<in>set os. apart (Answer, 65536) r"
      using h a by (simp_all add: BINNED_ALLOC_POOL_SIZE_def)
    from pool_inv [OF inv f(1) a(1) this] obtain M1 e rest where M1: "AllocatePool M t Answer = Some (M1, length (PoolStore M))"
        "malloc_inv M1 live ((Answer, 65536) # os)" "length (PoolStore M1) = Suc (length (PoolStore M))"
        "FreeList (PoolStore M1 ! length (PoolStore M)) = e # rest" "PBlockSize (PoolStore M1 ! length (PoolStore M)) = BlockSizes ! t"
      by blast
    from pop_inv [OF M1(2) _ M1(4) n] M1(3,5) f(2) obtain M2 where
      "AllocateBlockFromPool M1 (length (PoolStore M)) = Some (M2, e)" "malloc_inv M2 ((e, ?n) # live) ((Answer, 65536) # os)" "e \<noteq> 0"
      by auto
    with m Some tab(1) new M1(1) a show ?thesis
      by (auto simp: Malloc_def Let_def BINNED_ALLOC_POOL_SIZE_def)
  qed
qed

lemma malloc_run_inv: "malloc_run M live os \<Longrightarrow> malloc_inv M live os"
proof (induction rule: malloc_run.induct)
  case start
  show ?case
    by (simp add: malloc_inv_def tables_right_def pools_right_def regions_ok_def MallocBinned_ctor_def)
next
  case (malloc M live os Size Alignment Answer M' p calls)
  then show ?case by (simp add: malloc_keeps)
next
  case (free M live os p n M' calls)
  show ?case
  proof (cases "PoolAddressMap M (pool_base p)")
    case None
    with free_large_inv [OF free.IH free.hyps(2)] free.hyps(3) show ?thesis by simp
  next
    case (Some q)
    with push_inv [OF free.IH free.hyps(2)] free.hyps(3) show ?thesis by fastforce
  qed
qed

definition within :: "u64 \<times> nat \<Rightarrow> u64 \<times> nat \<Rightarrow> bool" where
  "within b r \<longleftrightarrow> unat (fst r) \<le> unat (fst b) \<and> unat (fst b) + snd b \<le> unat (fst r) + snd r"

lemma within_apart: "within b r \<Longrightarrow> within c s \<Longrightarrow> apart r s \<Longrightarrow> apart b c"
  by (auto simp: within_def apart_def)

lemma live_cases:
  assumes inv: "malloc_inv M live os" and b: "b \<in> set live"
  obtains (pooled) p i where "PoolAddressMap M (pool_base (fst b)) = Some p" "p < length (PoolStore M)"
      "unat (fst b) = unat (PoolMemory (PoolStore M ! p)) + i * unat (PBlockSize (PoolStore M ! p))" "snd b \<le> unat (PBlockSize (PoolStore M ! p))"
      "(PoolMemory (PoolStore M ! p), 65536) \<in> set os" "within b (PoolMemory (PoolStore M ! p), 65536)" "16 dvd unat (fst b)"
    | (large) "PoolAddressMap M (pool_base (fst b)) = None" "b \<in> set os"
proof (cases "PoolAddressMap M (pool_base (fst b))")
  case None
  with large inv b show ?thesis by (auto simp: malloc_inv_def live_ok_def)
next
  case (Some p)
  let ?P = "PoolStore M ! p"
  have ok: "live_ok M os b" "p < length (PoolStore M)" "pool_ok ?P" "(PoolMemory ?P, 65536) \<in> set os"
    using inv b Some by (auto simp: malloc_inv_def pools_right_def)
  then have l: "fst b \<in> set (pool_blocks ?P)" "snd b \<le> unat (PBlockSize ?P)"
    using Some by (simp_all add: live_ok_def)
  from block_in_pool [OF ok(3) l(1)] obtain i where i: "unat (fst b) = unat (PoolMemory ?P) + i * unat (PBlockSize ?P)"
    "i * unat (PBlockSize ?P) + unat (PBlockSize ?P) \<le> 65536"
    by blast
  have "16 dvd unat (PBlockSize ?P)" "65536 dvd unat (PoolMemory ?P)"
    using ok(3) BlockSizes_range by (auto simp: pool_ok_def)
  then have "16 dvd unat (PBlockSize ?P)" "16 dvd unat (PoolMemory ?P)"
    using dvd_trans [of 16 65536 "unat (PoolMemory ?P)"] by simp_all
  then have "16 dvd unat (fst b)"
    unfolding i(1) by (intro dvd_add dvd_mult)
  moreover have "within b (PoolMemory ?P, 65536)"
    using i l(2) by (simp add: within_def)
  ultimately show ?thesis
    using Some ok l i by (intro pooled [of p i])
qed

lemma live_disjoint:
  assumes inv: "malloc_inv M live os" and b: "b \<in> set live" and c: "c \<in> set live" and ne: "fst b \<noteq> fst c"
  shows "apart b c"
proof -
  have reg: "r \<in> set os \<Longrightarrow> s \<in> set os \<Longrightarrow> r \<noteq> s \<Longrightarrow> apart r s" for r s
    using inv by (simp add: malloc_inv_def regions_ok_def)
  have key: "pool_base (fst x) = PoolMemory (PoolStore M ! p)" if "PoolAddressMap M (pool_base (fst x)) = Some p" for x :: "u64 \<times> nat" and p
    using inv that by (simp add: malloc_inv_def pools_right_def)
  have mixed: "apart (PoolMemory (PoolStore M ! p), 65536) y \<and> apart y (PoolMemory (PoolStore M ! p), 65536)"
    if "PoolAddressMap M (pool_base (fst y)) = None" "y \<in> set os" "p < length (PoolStore M)" "(PoolMemory (PoolStore M ! p), 65536) \<in> set os" for y p
  proof -
    have "65536 dvd unat (PoolMemory (PoolStore M ! p))" "PoolAddressMap M (PoolMemory (PoolStore M ! p)) = Some p"
      using inv that(3) by (auto simp: malloc_inv_def pools_right_def pool_ok_def)
    moreover from this have "pool_base (PoolMemory (PoolStore M ! p)) = PoolMemory (PoolStore M ! p)"
      by (simp add: word_unat_eq_iff pool_base_unat)
    ultimately have "y \<noteq> (PoolMemory (PoolStore M ! p), 65536)"
      using that(1) by auto
    then show ?thesis
      using reg [OF that(2,4)] by (auto simp: apart_def)
  qed
  show ?thesis
  proof (cases rule: live_cases [OF inv b, case_names pooled large])
    case (pooled p i)
    note P = pooled
    show ?thesis
    proof (cases rule: live_cases [OF inv c, case_names pooled large])
      case (pooled q j)
      show ?thesis
      proof (cases "p = q")
        case False
        then have "PoolMemory (PoolStore M ! p) \<noteq> PoolMemory (PoolStore M ! q)"
          using inv P(2) pooled(2) unfolding malloc_inv_def pools_right_def by (metis option.inject)
        then show ?thesis
          using within_apart [OF P(6) pooled(6)] reg [OF P(5) pooled(5)] by simp
      next
        case True
        let ?s = "unat (PBlockSize (PoolStore M ! p))"
        have "i \<noteq> j"
          using ne P(3) pooled(3) True by (auto simp: word_unat_eq_iff)
        then have "Suc i \<le> j \<or> Suc j \<le> i"
          by linarith
        then have "Suc i * ?s \<le> j * ?s \<or> Suc j * ?s \<le> i * ?s"
          using mult_le_mono1 by blast
        then show ?thesis
          using P(3,4) pooled(3,4) True by (auto simp: apart_def)
      qed
    next
      case large
      show ?thesis
        using mixed [OF large P(2,5)] within_apart [OF P(6), of c c] by (simp add: within_def)
    qed
  next
    case large
    note L = large
    show ?thesis
    proof (cases rule: live_cases [OF inv c, case_names pooled large])
      case (pooled q j)
      show ?thesis
        using mixed [OF L pooled(2,5)] within_apart [OF _ pooled(6), of b b] by (simp add: within_def)
    next
      case large
      then show ?thesis
        using reg [OF L(2) large(2)] ne by auto
    qed
  qed
qed

lemma Malloc_total:
  assumes inv: "malloc_inv M live os" and a: "Answer \<noteq> 0"
  shows "Malloc M Size Alignment Answer \<noteq> None"
proof (cases "FindTable (max Size 1)")
  case (Some t)
  then have t: "t < length BlockSizes"
    using FindTable_Some by blast
  then have "t < length (Table M)" "\<And>q. FirstPool (Table M ! t) = Some q \<Longrightarrow> q < length (PoolStore M)"
    using inv by (simp_all add: malloc_inv_def tables_right_def)
  with Some a show ?thesis
    by (cases "FirstPool (Table M ! t)")
      (auto simp: Malloc_def Let_def AllocatePool_def AllocateBlockFromPool_def split: list.split)
qed (simp add: Malloc_def)

text \<open>
  C26. In every run of the allocator in which the operating system is honest and only blocks in use are
  freed, the blocks in use do not overlap and have the size that was asked for, each lies inside a region
  of the operating system, the addresses of blocks of pools are multiples of 16 bytes (whatever alignment
  was asked for), every block in use can be freed, and every further request is answered with a block, an
  address that is not null, when the operating system has memory and answers honestly.
\<close>

theorem allocated_blocks_disjoint:
  assumes "malloc_run M live os"
  shows "sorted_wrt apart live \<and> (\<forall>b\<in>set live. \<exists>r\<in>set os. within b r)
    \<and> (\<forall>b\<in>set live. PoolAddressMap M (pool_base (fst b)) \<noteq> None \<longrightarrow> 16 dvd unat (fst b))
    \<and> (\<forall>b\<in>set live. MallocBinned_Free M (fst b) \<noteq> None)
    \<and> (Answer \<noteq> 0 \<longrightarrow> (\<exists>M' p calls. Malloc M Size Alignment Answer = Some (M', p, calls) \<and> ((\<forall>c\<in>set calls. os_honest os c) \<longrightarrow> p \<noteq> 0)))"
proof -
  have inv: "malloc_inv M live os"
    by (rule malloc_run_inv [OF assms])
  have "fst (live ! i) \<noteq> fst (live ! j)" if "i < j" "j < length live" for i j
    using inv that nth_eq_iff_index_eq [of "map fst live" i j] by (simp add: malloc_inv_def)
  then have "sorted_wrt apart live"
    by (auto simp: sorted_wrt_iff_nth_less intro!: live_disjoint [OF inv])
  moreover have "(\<exists>r\<in>set os. within b r) \<and> (PoolAddressMap M (pool_base (fst b)) \<noteq> None \<longrightarrow> 16 dvd unat (fst b))" if "b \<in> set live" for b
  proof (cases rule: live_cases [OF inv that, case_names pooled large])
    case large
    then show ?thesis by (auto simp: within_def intro!: bexI [of _ b])
  qed blast
  moreover have "MallocBinned_Free M (fst b) \<noteq> None" if "b \<in> set live" for b
    using push_inv [OF inv, of "fst b" "snd b"] that
    by (cases "PoolAddressMap M (pool_base (fst b))") (auto simp: MallocBinned_Free_def)
  moreover have "\<exists>M' p calls. Malloc M Size Alignment Answer = Some (M', p, calls) \<and> ((\<forall>c\<in>set calls. os_honest os c) \<longrightarrow> p \<noteq> 0)" if a: "Answer \<noteq> 0"
  proof -
    obtain M' p calls where m: "Malloc M Size Alignment Answer = Some (M', p, calls)"
      using Malloc_total [OF inv a, of Size Alignment] by auto
    with malloc_keeps [OF inv m] a show ?thesis by blast
  qed
  ultimately show ?thesis by blast
qed

text \<open>A pool of two blocks: the request for an alignment of 64 KB is answered with an address that has not got it.\<close>

lemma demo_size: "max (30000 :: u64) 1 = 30000"
  by (simp add: max_def word_le_nat_alt)

lemma demo_pool:
  "\<exists>M1 M2. Malloc MallocBinned_ctor 30000 65536 65536 = Some (M1, 98304, [AlignedMalloc 65536 65536 65536])
    \<and> Malloc M1 30000 16 0 = Some (M2, 65536, [])"
proof -
  have "FindTable 30000 = Some 40"
    by (simp add: FindTable_def BlockSizes_def)
  moreover have "BlockSizes ! 40 = 32768" "length BlockSizes = 41"
    by (simp_all add: BlockSizes_def)
  moreover have "block_count 32768 = 2"
    by (simp add: block_count_def BINNED_ALLOC_POOL_SIZE_def)
  moreover have "[0..<2] = [0, 1]"
    by (simp add: upt_rec)
  ultimately show ?thesis
    by (simp add: Malloc_def MallocBinned_ctor_def AllocatePool_def AllocateBlockFromPool_def BINNED_ALLOC_POOL_SIZE_def block_at_def demo_size Let_def)
qed

theorem allocated_blocks_disjoint_witness:
  "\<exists>M. malloc_run M [(65536, 30000), (98304, 30000)] [(65536, 65536)] \<and> apart (65536, 30000) (98304, 30000)
    \<and> MallocBinned_Free M 98304 \<noteq> None \<and> (\<exists>M' p calls. Malloc M 100 16 131072 = Some (M', p, calls))"
proof -
  obtain M1 M2 where m: "Malloc MallocBinned_ctor 30000 65536 65536 = Some (M1, 98304, [AlignedMalloc 65536 65536 65536])"
    "Malloc M1 30000 16 0 = Some (M2, 65536, [])"
    using demo_pool by blast
  have "malloc_run M1 [(98304, 30000)] [(65536, 65536)]"
    using malloc_run.malloc [OF malloc_run.start m(1)] by (simp add: demo_size)
  from malloc_run.malloc [OF this m(2)] have r: "malloc_run M2 [(65536, 30000), (98304, 30000)] [(65536, 65536)]"
    by (simp add: demo_size)
  from allocated_blocks_disjoint [OF r, of 131072 100 16] r show ?thesis
    by (intro exI [of _ M2]) auto
qed

lemma other_pool_kept:
  assumes "AllocateBlockFromPool M r = Some (M', e)" "q \<noteq> r"
  shows "PoolStore M' ! q = PoolStore M ! q \<and> Table M' = Table M"
proof -
  obtain P where "rd (PoolStore M) r = Some P"
    using assms(1) by (auto simp: AllocateBlockFromPool_def bind_eq_Some_conv)
  with assms show ?thesis
    by (cases "FreeList P") (auto simp: AllocateBlockFromPool_def)
qed

text \<open>A pool that is not the first of its table is never used again, so the blocks that are freed into it are lost.\<close>

lemma older_pool_unused:
  assumes m: "Malloc M Size Alignment Answer = Some (M', p, calls)" and q: "q < length (PoolStore M)" and old: "\<forall>T\<in>set (Table M). FirstPool T \<noteq> Some q"
  shows "PoolStore M' ! q = PoolStore M ! q \<and> (\<forall>T\<in>set (Table M'). FirstPool T \<noteq> Some q)"
proof -
  show ?thesis
  proof (cases "FindTable (max Size 1)")
    case (Some t)
    with m obtain T where T: "rd (Table M) t = Some T"
      by (auto simp: Malloc_def Let_def bind_eq_Some_conv)
    then have first: "FirstPool T \<noteq> Some q"
      using old by (auto simp: rd_def split: if_splits)
    from m Some T consider (old) r where "FirstPool T = Some r" "AllocateBlockFromPool M r = Some (M', p)"
      | (new) M1 r where "AllocatePool M t Answer = Some (M1, r)" "AllocateBlockFromPool M1 r = Some (M', p)"
      by (auto simp: Malloc_def Let_def bind_eq_Some_conv split: if_splits)
    then show ?thesis
    proof cases
      case old
      with other_pool_kept [OF old(2), of q] first assms(3) show ?thesis by auto
    next
      case new
      then have "r = length (PoolStore M)" "PoolStore M1 ! q = PoolStore M ! q" "\<forall>T\<in>set (Table M1). FirstPool T \<noteq> Some q"
        using q old set_update_subset_insert [of "Table M" t] by (fastforce simp: AllocatePool_def bind_eq_Some_conv Let_def nth_append split: if_splits)+
      with other_pool_kept [OF new(2), of q] q show ?thesis by simp
    qed
  qed (use m old in \<open>simp add: Malloc_def Let_def\<close>)
qed

end
