(* ===== verification/StompM.thy ===== *)
theory StompM
  imports MallocM
begin

text \<open>
  Core, \<open>StompAllocator\<close>: an allocator for debugging that puts every block against a page that is never
  committed, so that a write past its end is caught. The calls of the operating system are listed and
  their answers are arguments.
\<close>

section \<open>The allocator\<close>

datatype VmCall = VirtualReserve u64 u64 | VirtualCommit u64 u64 | VirtualRelease u64

record AllocationData =
  FullAllocationPointer :: u64
  FullSize :: u64
  ASize :: u64
  Sentinel :: u64

record StompAllocator =
  PageSize :: u64
  bUseUnderrunMode :: bool
  VirtualAddressCursor :: u64
  VirtualAddressMax :: u64
  Headers :: "u64 \<rightharpoonup> AllocationData"

definition VirtualAddressBlockSize :: u64 where
  "VirtualAddressBlockSize = 1 * 1024 * 1024 * 1024"

definition AllocationDataSize :: u64 where
  "AllocationDataSize = 32"

definition StompAllocator_ctor :: "u64 \<Rightarrow> StompAllocator" where
  "StompAllocator_ctor dwPageSize = \<lparr>PageSize = dwPageSize, bUseUnderrunMode = False, VirtualAddressCursor = 0, VirtualAddressMax = 0, Headers = Map.empty\<rparr>"

definition Align :: "u64 \<Rightarrow> u64 \<Rightarrow> u64" where
  "Align Val Alignment = (Val + Alignment - 1) AND NOT (Alignment - 1)"

definition AlignDown :: "u64 \<Rightarrow> u64 \<Rightarrow> u64" where
  "AlignDown Val Alignment = Val AND NOT (Alignment - 1)"

definition stomp_aligned_size :: "u64 \<Rightarrow> u32 \<Rightarrow> u64" where
  "stomp_aligned_size Size Alignment =
     (let Size = (if Size = 0 then 1 else Size)
      in if Alignment \<noteq> 0 then (Size + ucast Alignment - 1) AND scast (- Alignment) else Size)"

definition stomp_full_pages :: "StompAllocator \<Rightarrow> u64 \<Rightarrow> u32 \<Rightarrow> u64" where
  "stomp_full_pages S Size Alignment =
     (let AlignmentSize = (if PageSize S < ucast Alignment then ucast Alignment - PageSize S else 0)
      in (stomp_aligned_size Size Alignment + AlignmentSize + AllocationDataSize + PageSize S - 1) AND - PageSize S)"

definition Stomp_Malloc :: "StompAllocator \<Rightarrow> u64 \<Rightarrow> u32 \<Rightarrow> u64 \<Rightarrow> bool \<Rightarrow> StompAllocator \<times> u64 \<times> VmCall list" where
  "Stomp_Malloc S Size Alignment Reserved bCommitted =
     (let AlignedSize = stomp_aligned_size Size Alignment;
          AllocFullPageSize = stomp_full_pages S Size Alignment;
          TotalAllocationSize = AllocFullPageSize + PageSize S;
          (Full, S, calls) =
            (if VirtualAddressCursor S + TotalAllocationSize \<le> VirtualAddressMax S then (VirtualAddressCursor S, S, [])
             else (Reserved, S\<lparr>VirtualAddressCursor := Reserved, VirtualAddressMax := Reserved + VirtualAddressBlockSize\<rparr>,
                   [VirtualReserve VirtualAddressBlockSize Reserved]));
          S = S\<lparr>VirtualAddressCursor := VirtualAddressCursor S + TotalAllocationSize\<rparr>
      in if Full = 0 then (S, 0, calls)
         else let Returned = (if bUseUnderrunMode S then Align (Full + PageSize S + AllocationDataSize) (ucast Alignment)
                              else AlignDown (Full + AllocFullPageSize - AlignedSize) (ucast Alignment));
                  Start = Returned - AllocationDataSize;
                  CommitStart = AlignDown Start (PageSize S);
                  calls = calls @ [if bUseUnderrunMode S then VirtualCommit Start (AllocationDataSize + AlignedSize)
                                   else VirtualCommit CommitStart (Returned + AlignedSize - CommitStart)]
              in if \<not> bCommitted then (S, 0, calls)
                 else (S\<lparr>Headers := (Headers S)(Start \<mapsto> \<lparr>FullAllocationPointer = Full, FullSize = TotalAllocationSize, ASize = AlignedSize,
                         Sentinel = Full XOR TotalAllocationSize XOR AlignedSize\<rparr>)\<rparr>, Returned, calls))"

text \<open>A header that is not there, or whose check fails, is the end of the program.\<close>

definition Stomp_Free :: "StompAllocator \<Rightarrow> u64 \<Rightarrow> VmCall list option" where
  "Stomp_Free S InPtr =
     (if InPtr = 0 then Some []
      else case Headers S (InPtr - AllocationDataSize) of
        None \<Rightarrow> None
      | Some A \<Rightarrow>
          if Sentinel A \<noteq> FullAllocationPointer A XOR FullSize A XOR ASize A then None
          else Some [VirtualRelease (FullAllocationPointer A)])"

section \<open>Where blocks lie\<close>

text \<open>
  With pages of 4096 bytes and an alignment of \<open>2 ^ k\<close> up to the page size, the block has the room that
  was asked for, is aligned, and ends where its guard page begins; its header is in front of it.
\<close>

lemma and_minus_power: "k < 64 \<Longrightarrow> a AND - (2 ^ k) = a AND NOT (mask k :: u64)"
  by (simp add: mask_eq_exp_minus_1 minus_eq_not_minus_1)

lemma scast_minus_power:
  assumes "k \<le> 12"
  shows "(scast (- (2 ^ k :: u32)) :: u64) = - (2 ^ k)"
proof -
  have "\<forall>k\<in>set [0..<13]. (scast (- (2 ^ k :: u32)) :: u64) = - (2 ^ k)"
    by (simp add: upt_rec)
  with assms show ?thesis by simp
qed

lemma sum_minus_one:
  assumes "1 \<le> unat (a :: u64)" "unat a + unat b < 2 ^ 64"
  shows "unat (a + b - 1) = unat a + unat b - 1"
proof -
  have "unat (a + b) = unat a + unat b"
    using assms(2) by (simp add: unat_word_ariths)
  moreover from this have "a + b \<noteq> 0"
    using assms(1) by auto
  ultimately show ?thesis
    by (simp add: unat_minus_one)
qed

lemma power_unat:
  assumes "k \<le> 12" shows "unat (2 ^ k :: u32) = 2 ^ k" "unat (2 ^ k :: u64) = 2 ^ k"
proof -
  have "\<forall>k\<in>set [0..<13]. unat (2 ^ k :: u32) = 2 ^ k \<and> unat (2 ^ k :: u64) = 2 ^ k"
    by (simp add: upt_rec)
  with assms show "unat (2 ^ k :: u32) = 2 ^ k" "unat (2 ^ k :: u64) = 2 ^ k" by simp_all
qed

lemma up_to: "0 < m \<Longrightarrow> n \<le> (n + m - 1) div m * m \<and> (n + m - 1) div m * m < n + (m :: nat)"
proof -
  assume "0 < m"
  then have "(n + m - 1) mod m < m" by simp
  with div_mult_mod_eq [of "n + m - 1" m] \<open>0 < m\<close> show ?thesis by linarith
qed

lemma aligned_size_unat:
  assumes "k \<le> 12" "unat Size \<le> 2 ^ 29"
  shows "unat (stomp_aligned_size Size (2 ^ k)) = (unat (max Size 1) + 2 ^ k - 1) div 2 ^ k * 2 ^ k" "1 \<le> unat (max Size 1)" "unat (max Size 1) \<le> 2 ^ 29"
proof -
  have k: "(2 :: nat) ^ k \<le> 2 ^ 12"
    by (rule power_increasing) (use assms(1) in simp_all)
  have m: "(if Size = 0 then 1 else Size) = max Size 1" "1 \<le> unat (max Size 1)" "unat (max Size 1) \<le> 2 ^ 29"
  proof -
    have "1 \<le> Size" if "Size \<noteq> 0"
      using that by (simp add: word_le_nat_alt Suc_le_eq unat_gt_0)
    then show "(if Size = 0 then 1 else Size) = max Size 1"
      by (auto simp: max_absorb1)
    show "1 \<le> unat (max Size 1)" "unat (max Size 1) \<le> 2 ^ 29"
      using assms(2) by (auto simp: max_def word_le_nat_alt)
  qed
  then show "1 \<le> unat (max Size 1)" "unat (max Size 1) \<le> 2 ^ 29" by simp_all
  have u: "unat (2 ^ k :: u32) = 2 ^ k" "(2 ^ k :: u32) \<noteq> 0" "unat (ucast (2 ^ k :: u32) :: u64) = 2 ^ k"
    using assms(1) by (simp_all add: unat_ucast_up power_unat)
  have "unat (max Size 1 + ucast (2 ^ k :: u32) - 1) = unat (max Size 1) + 2 ^ k - 1"
    using m k u(3) sum_minus_one [of "max Size 1" "ucast (2 ^ k :: u32)"] by simp
  then show "unat (stomp_aligned_size Size (2 ^ k)) = (unat (max Size 1) + 2 ^ k - 1) div 2 ^ k * 2 ^ k"
    using u(2) assms(1) by (simp add: stomp_aligned_size_def m(1) scast_minus_power and_minus_power align_down_unat Let_def)
qed

lemma full_pages_unat:
  assumes "k \<le> 12" "unat Size \<le> 2 ^ 29" "PageSize S = 4096"
  shows "unat (stomp_full_pages S Size (2 ^ k)) = (unat (stomp_aligned_size Size (2 ^ k)) + 32 + 4096 - 1) div 4096 * 4096"
    "unat (stomp_aligned_size Size (2 ^ k)) \<le> 2 ^ 30"
proof -
  have k: "(2 :: nat) ^ k \<le> 2 ^ 12"
    by (rule power_increasing) (use assms(1) in simp_all)
  show n: "unat (stomp_aligned_size Size (2 ^ k)) \<le> 2 ^ 30"
    using up_to [of "2 ^ k" "unat (max Size 1)"] aligned_size_unat [OF assms(1,2)] k by simp
  have "\<not> (4096 :: u64) < ucast (2 ^ k :: u32)"
    using k assms(1) by (simp add: word_less_nat_alt unat_ucast_up power_unat)
  then have "stomp_full_pages S Size (2 ^ k) = (stomp_aligned_size Size (2 ^ k) + 32 + 4096 - 1) AND - (2 ^ 12)"
    using assms(3) by (simp add: stomp_full_pages_def AllocationDataSize_def)
  moreover have "unat (stomp_aligned_size Size (2 ^ k) + 32 + 4096 - 1) = unat (stomp_aligned_size Size (2 ^ k)) + 32 + 4096 - 1"
    using n by (simp add: unat_word_ariths unat_minus_one)
  ultimately show "unat (stomp_full_pages S Size (2 ^ k)) = (unat (stomp_aligned_size Size (2 ^ k)) + 32 + 4096 - 1) div 4096 * 4096"
    by (simp only: and_minus_power align_down_unat) simp
qed

lemma stomp_blocks_guarded:
  assumes "k \<le> 12" "unat Size \<le> 2 ^ 29" and S: "PageSize S = 4096" "\<not> bUseUnderrunMode S"
    and Full: "Full = (if VirtualAddressCursor S + (stomp_full_pages S Size (2 ^ k) + 4096) \<le> VirtualAddressMax S then VirtualAddressCursor S else Reserved)"
      "4096 dvd unat Full" "Full \<noteq> 0" "unat Full + 2 ^ 31 \<le> 2 ^ 64"
    and r: "Stomp_Malloc S Size (2 ^ k) Reserved True = (S', p, calls)"
  shows "unat p + unat (stomp_aligned_size Size (2 ^ k)) = unat Full + unat (stomp_full_pages S Size (2 ^ k))
    \<and> unat (max Size 1) \<le> unat (stomp_aligned_size Size (2 ^ k)) \<and> 2 ^ k dvd unat p \<and> unat Full + 32 \<le> unat p
    \<and> Stomp_Free S' p = Some [VirtualRelease Full]"
proof -
  let ?n = "unat (stomp_aligned_size Size (2 ^ k))" and ?F = "unat (stomp_full_pages S Size (2 ^ k))"
  have k: "(2 :: nat) ^ k \<le> 2 ^ 12" "(2 :: nat) ^ k dvd 4096"
    using assms(1) le_imp_power_dvd [of k 12 "2 :: nat"] power_increasing [of k 12 "2 :: nat"] by simp_all
  note n = aligned_size_unat [OF assms(1,2)] and F = full_pages_unat [OF assms(1,2) S(1)]
  have room: "?n + 32 \<le> ?F" "?F < ?n + 32 + 4096"
    unfolding F(1) using up_to [of 4096 "?n + 32"] by simp_all
  have dv: "2 ^ k dvd ?n" "2 ^ k dvd ?F" "2 ^ k dvd unat Full"
    using dvd_trans [OF k(2)] Full(2) unfolding n(1) F(1) by simp_all
  let ?q = "Full + stomp_full_pages S Size (2 ^ k) - stomp_aligned_size Size (2 ^ k)"
  have fits: "unat Full + ?F < 2 ^ 64"
    using Full(4) F(2) room by simp
  then have sum: "unat (Full + stomp_full_pages S Size (2 ^ k)) = unat Full + ?F"
    by (simp add: unat_word_ariths)
  then have q: "unat ?q = unat Full + ?F - ?n"
    using room by (simp add: unat_sub word_le_nat_alt)
  have "2 ^ k dvd unat ?q"
    unfolding q using dv by (intro dvd_diff_nat dvd_add)
  have down: "AlignDown ?q (ucast (2 ^ k :: u32)) = ?q"
  proof -
    have "(ucast (2 ^ k :: u32) :: u64) = 2 ^ k"
      using assms(1) by (simp add: word_unat_eq_iff unat_ucast_up power_unat)
    then have "unat (AlignDown ?q (ucast (2 ^ k :: u32))) = unat ?q div 2 ^ k * 2 ^ k"
      by (simp add: AlignDown_def align_down_unat flip: mask_eq_exp_minus_1)
    with \<open>2 ^ k dvd unat ?q\<close> show ?thesis
      by (simp add: word_unat_eq_iff)
  qed
  have "0 < unat ?q"
    using q room by simp
  then have nz: "?q \<noteq> 0"
    by auto
  let ?A = "\<lparr>FullAllocationPointer = Full, FullSize = stomp_full_pages S Size (2 ^ k) + 4096, ASize = stomp_aligned_size Size (2 ^ k),
    Sentinel = Full XOR (stomp_full_pages S Size (2 ^ k) + 4096) XOR stomp_aligned_size Size (2 ^ k)\<rparr>"
  have "p = ?q \<and> Headers S' (?q - AllocationDataSize) = Some ?A"
  proof (cases "VirtualAddressCursor S + (stomp_full_pages S Size (2 ^ k) + 4096) \<le> VirtualAddressMax S")
    case True
    with r Full(1,3) S down show ?thesis
      by (auto simp: Stomp_Malloc_def Let_def)
  next
    case False
    with r Full(1,3) S down show ?thesis
      by (auto simp: Stomp_Malloc_def Let_def)
  qed
  then have p: "p = ?q" "Stomp_Free S' p = Some [VirtualRelease Full]"
    using nz by (simp_all add: Stomp_Free_def)
  moreover have "unat (max Size 1) \<le> ?n"
    using up_to [of "2 ^ k" "unat (max Size 1)"] n(1) by simp
  moreover have "unat ?q + ?n = unat Full + ?F" "unat Full + 32 \<le> unat ?q"
    using q room by linarith+
  ultimately show ?thesis
    using \<open>2 ^ k dvd unat ?q\<close> by blast
qed

text \<open>
  Memory is reserved in pieces of 1 GB, but released block by block: the first block of a piece releases
  the whole piece, with all other blocks in it, and releasing any other block is a call with an address at
  which nothing was reserved.
\<close>

lemma release_of_shared_piece:
  assumes "PageSize S = 4096" "\<not> bUseUnderrunMode S" "VirtualAddressMax S = 0" "VirtualAddressCursor S = 0"
  shows "\<exists>S1 p1 S2 p2. Stomp_Malloc S 100 16 (2 ^ 32) True = (S1, p1, [VirtualReserve (2 ^ 30) (2 ^ 32), VirtualCommit (2 ^ 32) 4096])
    \<and> Stomp_Malloc S1 100 16 0 True = (S2, p2, [VirtualCommit (2 ^ 32 + 8192) 4096])
    \<and> Stomp_Free S2 p1 = Some [VirtualRelease (2 ^ 32)] \<and> Stomp_Free S2 p2 = Some [VirtualRelease (2 ^ 32 + 8192)]"
  using assms
  by (simp add: Stomp_Malloc_def stomp_full_pages_def stomp_aligned_size_def AllocationDataSize_def VirtualAddressBlockSize_def AlignDown_def Stomp_Free_def Let_def)

end
