(* ===== verification/Spec2Isabelle.thy ===== *)
theory Spec2Isabelle
  imports Assembly Receiving Admission ThreeWay Simulator JobM LaDeltaM ClientM StompM
begin

text \<open>
  \<^bold>\<open>A verification of the reliable UDP engine\<close>

  The repository holds a network engine (\<open>src/Project/Core\<close>, \<open>src/Project/Network\<close>) and two programs that
  use it, a game server (\<open>src/Project/GameServer\<close>) and a client for load tests
  (\<open>src/Project/RemoteServer\<close>). The theories follow the code from the bits on the wire up to the rooms of
  the game server. File names below are relative to \<open>src/Project\<close>, and \<open>Network/src\<close> is left out.

  \<^bold>\<open>How the parts work together\<close>

  An application hands a message to \<open>LaDelta::EnqueueMessageBuffer\<close>, the driver finds the connection of
  the player and adds a job for it, and the job submits the message to the builder of one of its channels.
  At a tick the builder makes bunches of the messages; a reliable channel keeps every bunch until a packet
  that carried it is acknowledged. The connection fills packets with the bunches of all its channels, puts
  a header with a sequence number and acknowledgements in front and sends them. A received datagram is
  looked up by its address. From a known address it becomes a job of the connection, which reads the
  header, tells the channels which of their packets arrived and hands the bunches of the payload to the
  channels, where reliable bunches are put in order; their messages go to the protocol handlers of the
  application. From an unknown address it goes to the handshake, a stateless challenge with a keyed cookie,
  which in the end makes the driver add a connection.

  \<^bold>\<open>Theories and sources\<close>

  Bits and bytes.
  \<^item> \<open>Prelude\<close>: the integer types, partial access to containers (\<open>rd\<close>, \<open>wr\<close>), bits of byte lists,
    little endian bytes, and the collections of rewrite rules the others use.
  \<^item> \<open>BitBuf\<close>, \<open>BitCtl\<close>, \<open>BitWriterM\<close>, \<open>BitReaderM\<close>: \<open>Core/src/BitReader.cpp\<close>, \<open>BitWriter.cpp\<close>,
    \<open>BitController.cpp\<close> and their headers. The lemmas show that the optimised bit copy is a copy of bits,
    and that what a writer with room was given comes out of a reader.
  \<^item> \<open>MallocM\<close>, \<open>StompM\<close>: \<open>Core/src/MallocBinned.cpp\<close>, \<open>Core/src/StompAllocator.cpp\<close>, two allocators that
    the engine does not use at present.
  \<^item> \<open>BufReader\<close>: \<open>Core/include/BufferReader.h\<close>, \<open>thread/LockQueue.h\<close>. \<open>OrdMap\<close>: \<open>std::map\<close>.
  \<^item> \<open>Doubles\<close>: the IEEE double operations the handshake uses, on the bits of a 64 bit word.

  Packets and acknowledgements.
  \<^item> \<open>SeqNum\<close>, \<open>SeqHistory\<close>, \<open>PacketNotify\<close>: \<open>sequence\<close>. Numbers modulo \<open>2 ^ 14\<close>, the history of 256
    deliveries as a window, and that a sender learns of each of its packets once, in order, what the
    receiver recorded.
  \<^item> \<open>Rtt\<close>, \<open>ChanRecord\<close>: \<open>connection/RttTracker\<close>, \<open>connection/ChannelRecord\<close>.
  \<^item> \<open>PacketM\<close>: \<open>net_packet/NetPacket\<close>, \<open>NetPacketBuilder\<close>, \<open>NetPacketReader\<close>, \<open>PacketEvent\<close>.

  Channels and connections.
  \<^item> \<open>BunchBuild\<close>: \<open>net_packet/NetBunch\<close>, \<open>NetBunchBuilder\<close>. \<open>ChannelM\<close>: \<open>channel\<close> and \<open>NetBunchReader\<close>.
    In whatever order bunches arrive, a reliable channel hands on the messages of the longest complete
    prefix, in order; bunches it owes are never lost.
  \<^item> \<open>SettingM\<close>: \<open>utils/DriverSetting\<close>, \<open>utils/ConfigSetting\<close>.
  \<^item> \<open>ConnectionM\<close>: \<open>connection/NetConnection\<close>, \<open>GameNetConnection\<close>. \<open>Assembly\<close> and \<open>Receiving\<close>: what its
    sending and its receiving half do; \<open>ConnLife\<close>: what no operation of it changes.

  The handshake.
  \<^item> \<open>Pending\<close>: \<open>connection/PendingNetConnection\<close>, \<open>PendingNetConnectionManager\<close>, \<open>utils/IDAllocator\<close>.
  \<^item> \<open>HandshakeWire\<close> and \<open>UdpProc\<close>: \<open>processor\<close>, the packets and the two state machines. \<open>Handshake\<close>,
    \<open>ThreeWay\<close>, \<open>Admission\<close>: the exchange completes when its datagrams arrive in time, and a server
    admits nobody without the cookie of his own address.

  The engine.
  \<^item> \<open>Simulator\<close>: \<open>simulation/PacketSimulator\<close>.
  \<^item> \<open>SListM\<close>, \<open>JobM\<close>: \<open>thread/SListQueue.h\<close>, \<open>thread/JobSystem\<close>. The queue under all interleavings, the
    order of the jobs of connections, the wake-up of workers, and joins of coroutines that work and that fail.
  \<^item> \<open>DriverM\<close>: \<open>driver/NetDriver\<close>, \<open>driver/IpNetDriver\<close>. \<open>DriverRun\<close>: the invariant of its tables over all
    runs; \<open>DriverTables\<close>: what follows from it. \<open>Listener\<close>: what a program on top of it may rely on.
  \<^item> \<open>LaDeltaM\<close>: \<open>service/LaDelta\<close>, the start of the library and the rate of its ticks.

  The programs.
  \<^item> \<open>RoomM\<close>: \<open>GameServer/room\<close>, \<open>GameServer/actor/Player\<close>. \<open>GameServer\<close>: \<open>GameServer/service\<close> and
    \<open>GameServer/packet_handler\<close>, composed with the runs of the driver: its rooms hold the open connections.
  \<^item> \<open>ClientM\<close>: \<open>RemoteServer/service\<close> and \<open>RemoteServer/packet_handler\<close>, and the login of a client at a
    game server.

  \<^bold>\<open>Conventions\<close>

  A class is a record with the fields of the code, an operation a function that returns the changed record.
  \<open>None\<close> is an access outside an array or buffer or through a null or dangling pointer; where the code
  itself reports an error the model has the flag or the value the code has. Machine integers are words of
  their width. Callbacks and calls of another layer are lists of the calls in their order. The clock, random
  bytes, the draws of generators and the answers of the operating system are arguments. Objects that are
  shared through smart pointers live in a store, and pointers to them are positions. Locks make operations
  single steps; the lock free queue and the waiting of workers are step relations of single memory accesses.

  \<^bold>\<open>Interfaces\<close>

  The locales \<open>codec\<close> (what is put is got back, used for whole lists of fields), \<open>fifo\<close> (the locked and the
  lock free queue), \<open>delivery_window\<close> (the history seen by the acknowledgements), \<open>ordered_map\<close> (the maps of
  channels), \<open>shared_object\<close> (objects in a store) and \<open>player_listener\<close> (a program that is told of players
  by the driver) hold what one component may assume of another; each is
  interpreted on the model of the code that provides it.

  \<^bold>\<open>Bounds and fuel\<close>

  The loop over channels and packets in \<open>assemble_loop\<close> gets one more unit of fuel than there are queued
  bunches: the first round empties every queue or closes the connection, so that two rounds are enough and
  more fuel changes nothing, which \<open>assembly_terminates\<close> shows. \<open>pump_loop\<close>
  has the 64 rounds the code allows. The properties of runs of a driver hold as long as fewer than
  \<open>max_clients\<close>, which is \<open>2 ^ 32 - 1\<close>, clients have joined, since identifiers wrap around after that.

  \<^bold>\<open>Not modelled\<close>

  Sockets, the completion port and the address resolver (system calls), telemetry and logging (no state of
  the protocol depends on them), the JSON reader and the protocol buffers (libraries; where their results
  matter they are parameters), the empty game objects, and the threads of the two programs.
\<close>

end
